(* ===== verification/Prelude.thy ===== *)
theory Prelude
  imports Main "HOL-Library.AList" "HOL-Library.Char_ord" "HOL-Library.List_Lexorder"
    "HOL-Library.Product_Lexorder" "HOL-Library.Option_ord" "HOL-Library.Sublist" "HOL-Library.Multiset"
begin

text \<open>
  Shared vocabulary of the development: the containers the Rust code uses (hash maps, hash
  sets and insertion-ordered maps, all kept as duplicate-free lists so that their contents can
  be iterated), the pieces of the string library the code calls (\<open>split\<close>,
  \<open>rfind\<close>, \<open>strip_prefix\<close>, decimal formatting), and the collections of
  rewrite rules the component theories extend.

  A Rust \<open>char\<close> is a HOL \<open>char\<close> and a \<open>String\<close> a list of them. Iteration over
  a \<open>HashMap\<close> or \<open>HashSet\<close> follows the list, that is the order of insertion; no
  property of the development mentions that order.
\<close>

named_theorems hm_simps \<open>lookups after updates of the finite maps\<close>
named_theorems frame_simps \<open>what an operation leaves alone\<close>

section \<open>Finite maps\<close>

subsection \<open>The interface\<close>

text \<open>
  What the code relies on when it uses a keyed container: a lookup after an insertion, after a
  removal, and the list of keys an iteration visits.
\<close>

locale keyed_map =
  fixes get :: "'m \<Rightarrow> 'k \<Rightarrow> 'v option"
    and put :: "'k \<Rightarrow> 'v \<Rightarrow> 'm \<Rightarrow> 'm"
    and del :: "'k \<Rightarrow> 'm \<Rightarrow> 'm"
    and keys :: "'m \<Rightarrow> 'k list"
    and ok :: "'m \<Rightarrow> bool"
  assumes get_put: "get (put k v m) j = (if j = k then Some v else get m j)"
    and get_del: "ok m \<Longrightarrow> get (del k m) j = (if j = k then None else get m j)"
    and keys_get: "j \<in> set (keys m) \<longleftrightarrow> get m j \<noteq> None"
    and ok_put: "ok m \<Longrightarrow> ok (put k v m)"
    and ok_del: "ok m \<Longrightarrow> ok (del k m)"
    and ok_distinct: "ok m \<Longrightarrow> distinct (keys m)"
begin

lemma get_put_same: "get (put k v m) k = Some v"
  by (simp add: get_put)

lemma get_put_other: "j \<noteq> k \<Longrightarrow> get (put k v m) j = get m j"
  by (simp add: get_put)

lemma keys_put: "set (keys (put k v m)) = insert k (set (keys m))"
  by (auto simp: keys_get get_put split: if_splits)

lemma keys_del: "ok m \<Longrightarrow> set (keys (del k m)) = set (keys m) - {k}"
  by (auto simp: keys_get get_del split: if_splits)

lemma put_get_ext: "get (put k v (put k w m)) = get (put k v m)"
  by (auto simp: get_put fun_eq_iff)

lemma put_put_ext: "k \<noteq> l \<Longrightarrow> get (put k v (put l w m)) = get (put l w (put k v m))"
  by (auto simp: get_put fun_eq_iff)

end

subsection \<open>Hash maps\<close>

type_synonym ('k, 'v) hm = "('k \<times> 'v) list"

abbreviation hm_get :: "('k, 'v) hm \<Rightarrow> 'k \<Rightarrow> 'v option" where
  "hm_get m k \<equiv> map_of m k"

definition hm_put :: "'k \<Rightarrow> 'v \<Rightarrow> ('k, 'v) hm \<Rightarrow> ('k, 'v) hm" where
  "hm_put k v m = AList.update k v m"

definition hm_del :: "'k \<Rightarrow> ('k, 'v) hm \<Rightarrow> ('k, 'v) hm" where
  "hm_del k m = AList.delete k m"

abbreviation hm_keys :: "('k, 'v) hm \<Rightarrow> 'k list" where
  "hm_keys m \<equiv> map fst m"

abbreviation hm_ok :: "('k, 'v) hm \<Rightarrow> bool" where
  "hm_ok m \<equiv> distinct (map fst m)"

text \<open>\<open>get_mut\<close>: change the value at a key that is there.\<close>

definition hm_adj :: "'k \<Rightarrow> ('v \<Rightarrow> 'v) \<Rightarrow> ('k, 'v) hm \<Rightarrow> ('k, 'v) hm" where
  "hm_adj k f m = (case hm_get m k of None \<Rightarrow> m | Some v \<Rightarrow> hm_put k (f v) m)"

lemma hm_get_put [simp, hm_simps]: "hm_get (hm_put k v m) j = (if j = k then Some v else hm_get m j)"
  by (simp add: hm_put_def update_conv')

lemma hm_get_del [simp, hm_simps]: "hm_get (hm_del k m) j = (if j = k then None else hm_get m j)"
  by (simp add: hm_del_def delete_conv')

lemma hm_get_adj [simp, hm_simps]:
  "hm_get (hm_adj k f m) j = (if j = k then map_option f (hm_get m k) else hm_get m j)"
  by (auto simp: hm_adj_def split: option.splits)

lemma hm_ok_put [simp]: "hm_ok m \<Longrightarrow> hm_ok (hm_put k v m)"
  by (simp add: hm_put_def distinct_update)

lemma hm_ok_del [simp]: "hm_ok m \<Longrightarrow> hm_ok (hm_del k m)"
  by (simp add: hm_del_def distinct_delete)

lemma hm_ok_adj [simp]: "hm_ok m \<Longrightarrow> hm_ok (hm_adj k f m)"
  by (auto simp: hm_adj_def split: option.splits)

lemma hm_keys_put: "hm_keys (hm_put k v m) = (if k \<in> set (hm_keys m) then hm_keys m else hm_keys m @ [k])"
  by (simp add: hm_put_def update_keys)

lemma hm_keys_adj [simp]: "hm_keys (hm_adj k f m) = hm_keys m"
proof (cases "hm_get m k")
  case None
  then show ?thesis by (simp add: hm_adj_def)
next
  case (Some v)
  then have "k \<in> set (hm_keys m)" by (metis domI dom_map_of_conv_image_fst image_set list.set_map)
  then show ?thesis using Some by (simp add: hm_adj_def hm_keys_put)
qed

lemma hm_length_adj [simp]: "length (hm_adj k f m) = length m"
  by (metis hm_keys_adj length_map)

lemma hm_keys_get: "j \<in> set (hm_keys m) \<longleftrightarrow> hm_get m j \<noteq> None"
  by (metis dom_map_of_conv_image_fst domIff image_set)

lemma hm_keys_image: "j \<in> fst ` set m \<longleftrightarrow> hm_get m j \<noteq> None"
  using hm_keys_get[of j m] by simp

interpretation hash: keyed_map hm_get hm_put hm_del hm_keys hm_ok
  by unfold_locales (simp_all add: hm_keys_image)

subsection \<open>Hash sets\<close>

text \<open>\<open>HashSet::insert\<close> and \<open>HashSet::remove\<close>, on duplicate-free lists.\<close>

definition hs_ins :: "'a \<Rightarrow> 'a list \<Rightarrow> 'a list" where
  "hs_ins x xs = (if x \<in> set xs then xs else xs @ [x])"

definition hs_del :: "'a \<Rightarrow> 'a list \<Rightarrow> 'a list" where
  "hs_del x xs = removeAll x xs"

lemma set_hs_ins [simp]: "set (hs_ins x xs) = insert x (set xs)"
  by (auto simp: hs_ins_def)

lemma set_hs_del [simp]: "set (hs_del x xs) = set xs - {x}"
  by (simp add: hs_del_def)

lemma distinct_hs_ins [simp]: "distinct xs \<Longrightarrow> distinct (hs_ins x xs)"
  by (simp add: hs_ins_def)

lemma distinct_hs_del [simp]: "distinct xs \<Longrightarrow> distinct (hs_del x xs)"
  by (simp add: hs_del_def distinct_removeAll)

text \<open>\<open>extend\<close>: the elements one after the other.\<close>

definition hs_extend :: "'a list \<Rightarrow> 'a list \<Rightarrow> 'a list" where
  "hs_extend new out = fold hs_ins new out"

lemma set_hs_extend [simp]: "set (hs_extend new out) = set new \<union> set out"
  unfolding hs_extend_def by (induction new arbitrary: out) auto

lemma distinct_hs_extend [simp]: "distinct out \<Longrightarrow> distinct (hs_extend new out)"
  unfolding hs_extend_def by (induction new arbitrary: out) auto

subsection \<open>Maps in a list order\<close>

text \<open>
  An \<open>IndexMap\<close> keeps its entries in an order the code controls: a new key goes last,
  \<open>shift_remove\<close> closes the gap, and \<open>move_index\<close> takes an entry from one index to
  another, shifting those between.
\<close>

fun index_of :: "('k \<times> 'v) list \<Rightarrow> 'k \<Rightarrow> nat option" where
  "index_of [] k = None"
| "index_of ((j, v) # m) k = (if j = k then Some 0 else map_option Suc (index_of m k))"

definition shift_remove_index :: "nat \<Rightarrow> 'a list \<Rightarrow> 'a list" where
  "shift_remove_index i m = take i m @ drop (Suc i) m"

definition insert_index :: "nat \<Rightarrow> 'a \<Rightarrow> 'a list \<Rightarrow> 'a list" where
  "insert_index i x m = take i m @ x # drop i m"

definition move_index :: "nat \<Rightarrow> nat \<Rightarrow> 'a list \<Rightarrow> 'a list" where
  "move_index from to m = insert_index to (m ! from) (shift_remove_index from m)"

definition shift_remove :: "'k \<Rightarrow> ('k \<times> 'v) list \<Rightarrow> ('k \<times> 'v) list" where
  "shift_remove k m = (case index_of m k of None \<Rightarrow> m | Some i \<Rightarrow> shift_remove_index i m)"

lemma index_of_None: "index_of m k = None \<longleftrightarrow> hm_get m k = None"
  by (induction m k rule: index_of.induct) auto

lemma index_of_Some:
  "index_of m k = Some i \<Longrightarrow> i < length m \<and> fst (m ! i) = k \<and> hm_get m k = Some (snd (m ! i))"
  by (induction m k arbitrary: i rule: index_of.induct) (auto split: if_splits)

lemma index_of_before: "index_of m k = Some i \<Longrightarrow> j < i \<Longrightarrow> fst (m ! j) \<noteq> k"
proof (induction m k arbitrary: i j rule: index_of.induct)
  case (2 l v m k)
  then show ?case by (cases j) (auto split: if_splits)
qed simp

lemma index_of_eq:
  assumes "hm_ok m" "i < length m" "fst (m ! i) = k"
  shows "index_of m k = Some i"
proof (cases "index_of m k")
  case None
  then show ?thesis using assms by (metis index_of_None hm_keys_get nth_map nth_mem length_map)
next
  case (Some j)
  then have "j < length m" "fst (m ! j) = k" by (auto dest: index_of_Some)
  then show ?thesis using assms Some by (metis distinct_conv_nth length_map nth_map)
qed

lemma shift_remove_eq_delete: "hm_ok m \<Longrightarrow> shift_remove k m = hm_del k m"
proof (induction m)
  case Nil
  then show ?case by (simp add: shift_remove_def hm_del_def AList.delete_eq)
next
  case (Cons p m)
  obtain j v where p: "p = (j, v)" by (cases p)
  show ?case
  proof (cases "j = k")
    case True
    then have "hm_del k m = m" using Cons.prems p
      by (force simp: hm_del_def AList.delete_eq filter_id_conv)
    then show ?thesis using True p
      by (simp add: shift_remove_def shift_remove_index_def hm_del_def AList.delete_eq)
  next
    case False
    have "shift_remove k (p # m) = p # shift_remove k m" using False p
      by (auto simp: shift_remove_def shift_remove_index_def split: option.splits)
    then show ?thesis using Cons False p by (simp add: hm_del_def AList.delete_eq)
  qed
qed

lemma set_insert_index [simp]: "set (insert_index i x m) = insert x (set m)"
  unfolding insert_index_def by (metis Un_insert_right append_take_drop_id list.simps(15) set_append)

lemma length_insert_index [simp]: "length (insert_index i x m) = Suc (length m)"
  by (simp add: insert_index_def)

lemma mset_insert_index: "mset (insert_index i x m) = add_mset x (mset m)"
  unfolding insert_index_def by (metis append_take_drop_id mset.simps(2) mset_append union_mset_add_mset_right)

lemma mset_shift_remove_index: "i < length m \<Longrightarrow> add_mset (m ! i) (mset (shift_remove_index i m)) = mset m"
  unfolding shift_remove_index_def
  by (metis id_take_nth_drop mset.simps(2) mset_append union_mset_add_mset_right)

lemma mset_move_index: "i < length m \<Longrightarrow> mset (move_index i j m) = mset m"
  by (simp add: move_index_def mset_insert_index mset_shift_remove_index)

lemma hm_ok_mset: "mset m = mset m' \<Longrightarrow> hm_ok m \<longleftrightarrow> hm_ok m'"
  by (metis mset_map mset_eq_imp_distinct_iff)

lemma hm_get_mset: "mset m = mset m' \<Longrightarrow> hm_ok m \<Longrightarrow> hm_get m = hm_get m'"
  by (metis hm_ok_mset map_of_inject_set mset_eq_setD)

lemma hm_get_move_index [hm_simps]:
  "i < length m \<Longrightarrow> hm_ok m \<Longrightarrow> hm_get (move_index i j m) = hm_get m"
  by (metis hm_get_mset mset_move_index hm_ok_mset)

lemma hm_ok_move_index: "i < length m \<Longrightarrow> hm_ok m \<Longrightarrow> hm_ok (move_index i j m)"
  by (metis mset_move_index hm_ok_mset)

lemma hm_get_list_update [hm_simps]:
  "index_of m k = Some i \<Longrightarrow> hm_get (m[i := (k, v)]) j = (if j = k then Some v else hm_get m j)"
proof (induction m k arbitrary: i rule: index_of.induct)
  case (2 l w m k)
  then show ?case by (cases "l = k") (auto split: nat.splits)
qed simp

lemma hm_keys_list_update: "index_of m k = Some i \<Longrightarrow> hm_keys (m[i := (k, v)]) = hm_keys m"
  using index_of_Some[of m k i] by (simp add: map_update list_update_same_conv)

lemma hm_get_insert_index [hm_simps]:
  "hm_get m k = None \<Longrightarrow> hm_get (insert_index i (k, v) m) j = (if j = k then Some v else hm_get m j)"
proof (induction m arbitrary: i)
  case (Cons p m)
  then show ?case by (cases i; cases p) (auto simp: insert_index_def split: if_splits)
qed (simp add: insert_index_def)

lemma hm_ok_insert_index: "hm_ok m \<Longrightarrow> hm_get m k = None \<Longrightarrow> hm_ok (insert_index i (k, v) m)"
proof -
  assume a: "hm_ok m" "hm_get m k = None"
  then have "hm_ok ((k, v) # m)" using hm_keys_get[of k m] by simp
  then show ?thesis using hm_ok_mset[of "insert_index i (k, v) m" "(k, v) # m"] by (simp add: mset_insert_index)
qed

lemma nth_insert_index [simp]: "i \<le> length m \<Longrightarrow> insert_index i x m ! i = x"
  by (simp add: insert_index_def nth_append)

lemma insert_index_update: "i \<le> length m \<Longrightarrow> (insert_index i x m)[i := y] = insert_index i y m"
  by (simp add: insert_index_def list_update_append)

lemma move_index_last: "move_index (length m) i (m @ [x]) = insert_index i x m"
  by (simp add: move_index_def shift_remove_index_def)

interpretation indexmap: keyed_map hm_get hm_put shift_remove hm_keys hm_ok
  by unfold_locales (simp_all add: hm_keys_image shift_remove_eq_delete)

text \<open>\<open>move_index\<close> panics when an index is out of bounds: \<open>None\<close>.\<close>

definition im_move_index :: "nat \<Rightarrow> nat \<Rightarrow> 'a list \<Rightarrow> 'a list option" where
  "im_move_index from to m = (if from < length m \<and> to < length m then Some (move_index from to m) else None)"

lemma im_move_index_last:
  "im_move_index (length m) i (m @ [x]) = (if i \<le> length m then Some (insert_index i x m) else None)"
  by (simp add: im_move_index_def move_index_last)

section \<open>Options\<close>

text \<open>\<open>Option::or\<close> and \<open>Iterator::find_map\<close>.\<close>

definition opt_or :: "'a option \<Rightarrow> 'a option \<Rightarrow> 'a option" where
  "opt_or a b = (case a of None \<Rightarrow> b | Some x \<Rightarrow> Some x)"

lemma opt_or_simps [simp]: "opt_or None b = b" "opt_or (Some x) b = Some x" "opt_or a None = a"
  by (auto simp: opt_or_def split: option.splits)

lemma opt_or_None: "opt_or a b = None \<longleftrightarrow> a = None \<and> b = None"
  by (auto simp: opt_or_def split: option.splits)

definition unwrap_or :: "'a \<Rightarrow> 'a option \<Rightarrow> 'a" where
  "unwrap_or d a = (case a of None \<Rightarrow> d | Some x \<Rightarrow> x)"

lemma unwrap_or_simps [simp]: "unwrap_or d None = d" "unwrap_or d (Some x) = x"
  by (simp_all add: unwrap_or_def)

fun find_map :: "('a \<Rightarrow> 'b option) \<Rightarrow> 'a list \<Rightarrow> 'b option" where
  "find_map f [] = None"
| "find_map f (x # xs) = opt_or (f x) (find_map f xs)"

lemma find_map_None: "find_map f xs = None \<longleftrightarrow> (\<forall>x \<in> set xs. f x = None)"
  by (induction xs) (auto simp: opt_or_None)

lemma find_map_cong [fundef_cong]:
  "xs = ys \<Longrightarrow> (\<And>x. x \<in> set ys \<Longrightarrow> f x = g x) \<Longrightarrow> find_map f xs = find_map g ys"
  by (induction ys arbitrary: xs) auto

section \<open>Sorted lists\<close>

lemma sorted_remdups_strict:
  assumes "sorted (map k xs)" "inj_on k (set xs)"
  shows "sorted_wrt (<) (map k (remdups_adj xs))"
  using assms
proof (induction xs rule: remdups_adj.induct)
  case (3 x y xs)
  show ?case
  proof (cases "x = y")
    case True
    then show ?thesis using 3 by simp
  next
    case False
    have "sorted_wrt (<) (map k (remdups_adj (y # xs)))" using 3(2)[OF False] 3(3,4) by simp
    moreover have "k x < k z" if "z \<in> set (remdups_adj (y # xs))" for z
    proof -
      have "k x \<noteq> k y" using 3(4) False by (auto simp: inj_on_def)
      then have "k x < k y" using 3(3) by (simp add: less_le)
      moreover have "k y \<le> k z" using that 3(3) by auto
      ultimately show ?thesis by simp
    qed
    ultimately show ?thesis using False by simp
  qed
qed simp_all

lemma remdups_adj_sort: "remdups_adj (sort xs) = sorted_list_of_set (set xs)"
proof (rule sorted_distinct_set_unique)
  have "sorted_wrt (<) (map (\<lambda>x. x) (remdups_adj (sort xs)))" by (rule sorted_remdups_strict) simp_all
  then show "sorted (remdups_adj (sort xs))" "distinct (remdups_adj (sort xs))"
    by (simp_all add: strict_sorted_iff)
qed simp_all

section \<open>Strings\<close>

type_synonym rust_string = "char list"

text \<open>\<open>str::split\<close> on one character: always at least one piece.\<close>

fun split_char :: "char \<Rightarrow> string \<Rightarrow> string list" where
  "split_char c [] = [[]]"
| "split_char c (x # xs) =
     (if x = c then [] # split_char c xs
      else (case split_char c xs of [] \<Rightarrow> [[x]] | w # ws \<Rightarrow> (x # w) # ws))"

text \<open>\<open>str::rfind\<close>: the last position of a character.\<close>

fun rfind :: "char \<Rightarrow> string \<Rightarrow> nat option" where
  "rfind c [] = None"
| "rfind c (x # xs) =
     (case rfind c xs of Some i \<Rightarrow> Some (Suc i) | None \<Rightarrow> if x = c then Some 0 else None)"

text \<open>\<open>str::strip_prefix\<close>.\<close>

fun strip_prefix :: "string \<Rightarrow> string \<Rightarrow> string option" where
  "strip_prefix s [] = Some s"
| "strip_prefix [] (p # ps) = None"
| "strip_prefix (x # xs) (p # ps) = (if x = p then strip_prefix xs ps else None)"

text \<open>The positions of a character, as \<open>str::match_indices\<close> lists them.\<close>

fun match_indices :: "char \<Rightarrow> nat \<Rightarrow> string \<Rightarrow> nat list" where
  "match_indices c i [] = []"
| "match_indices c i (x # xs) = (if x = c then [i] else []) @ match_indices c (Suc i) xs"

lemma split_char_nonempty [simp]: "split_char c s \<noteq> []"
  by (induction c s rule: split_char.induct) (auto split: list.splits)

lemma split_char_no_sep: "c \<notin> set s \<Longrightarrow> split_char c s = [s]"
  by (induction s) (auto split: list.splits)

lemma split_char_append: "c \<notin> set w \<Longrightarrow> split_char c (w @ c # s) = w # split_char c s"
  by (induction w) (auto split: list.splits)

lemma split_char_sep_free: "w \<in> set (split_char c s) \<Longrightarrow> c \<notin> set w"
proof (induction c s arbitrary: w rule: split_char.induct)
  case (2 c x xs)
  then show ?case by (cases "split_char c xs") (auto split: if_splits)
qed simp

lemma strip_prefix_Some: "strip_prefix s p = Some r \<longleftrightarrow> s = p @ r"
  by (induction s p rule: strip_prefix.induct) auto

lemma rfind_None: "rfind c s = None \<longleftrightarrow> c \<notin> set s"
  by (induction s) (auto split: option.splits)

lemma rfind_Some: "rfind c s = Some i \<Longrightarrow> i < length s \<and> s = take i s @ c # drop (Suc i) s \<and> c \<notin> set (drop (Suc i) s)"
  by (induction s arbitrary: i) (auto split: option.splits if_splits simp: rfind_None)

lemma rfind_append: "c \<notin> set t \<Longrightarrow> rfind c (s @ c # t) = Some (length s)"
  by (induction s) (auto simp: rfind_None[symmetric])

section \<open>Decimal numbers\<close>

text \<open>How \<open>format!\<close> writes an unsigned integer.\<close>

definition digit_char :: "nat \<Rightarrow> char" where
  "digit_char d = char_of (48 + d)"

fun show_nat :: "nat \<Rightarrow> string" where
  "show_nat n = (if n < 10 then [digit_char n] else show_nat (n div 10) @ [digit_char (n mod 10)])"

declare show_nat.simps [simp del]

fun read_digits :: "nat \<Rightarrow> string \<Rightarrow> nat" where
  "read_digits acc [] = acc"
| "read_digits acc (c # cs) = read_digits (acc * 10 + (of_char c - 48)) cs"

lemma digit_char_value: "d < 10 \<Longrightarrow> of_char (digit_char d) - 48 = (d :: nat)"
  by (simp add: digit_char_def)

lemma read_digits_append: "read_digits acc (s @ [c]) = read_digits acc s * 10 + (of_char c - 48)"
  by (induction s arbitrary: acc) auto

lemma read_show_nat: "read_digits 0 (show_nat n) = n"
proof (induction n rule: show_nat.induct)
  case (1 n)
  show ?case
  proof (cases "n < 10")
    case True
    then show ?thesis by (subst show_nat.simps) (simp add: digit_char_value)
  next
    case False
    then show ?thesis using 1 by (subst show_nat.simps) (simp add: read_digits_append digit_char_value)
  qed
qed

lemma show_nat_inject [simp]: "show_nat m = show_nat n \<longleftrightarrow> m = n"
  by (metis read_show_nat)

lemma show_nat_nonempty [simp]: "show_nat n \<noteq> []"
  by (subst show_nat.simps) simp

lemma show_nat_digits: "c \<in> set (show_nat n) \<Longrightarrow> 48 \<le> (of_char c :: nat) \<and> (of_char c :: nat) \<le> 57"
proof (induction n rule: show_nat.induct)
  case (1 n)
  have d: "d < 10 \<Longrightarrow> 48 \<le> (of_char (digit_char d) :: nat) \<and> (of_char (digit_char d) :: nat) \<le> 57" for d
    by (simp add: digit_char_def)
  show ?case
  proof (cases "n < 10")
    case True
    then show ?thesis using 1(2) d by (subst (asm) show_nat.simps) simp
  next
    case False
    then show ?thesis using 1 d by (subst (asm) (2) show_nat.simps) auto
  qed
qed

section \<open>Loops that may panic\<close>

fun fold_opt :: "('a \<Rightarrow> 'b \<Rightarrow> 'b option) \<Rightarrow> 'a list \<Rightarrow> 'b \<Rightarrow> 'b option" where
  "fold_opt f [] g = Some g"
| "fold_opt f (x # xs) g = Option.bind (f x g) (fold_opt f xs)"

lemma fold_opt_keeps:
  assumes "\<And>x b. x \<in> set xs \<Longrightarrow> P b \<Longrightarrow> \<exists>b'. f x b = Some b' \<and> P b'" and "P b"
  shows "\<exists>b'. fold_opt f xs b = Some b' \<and> P b'"
  using assms
proof (induction xs arbitrary: b)
  case (Cons x xs)
  obtain b' where "f x b = Some b'" "P b'" using Cons.prems(1) [of x b] Cons.prems(2) by auto
  then show ?case using Cons.IH [of b'] Cons.prems(1) by simp
qed simp

end
