(* ===== verification/Task_Path.thy ===== *)
theory Task_Path
  imports Prelude
begin

text \<open>
  Task paths and keys (\<open>src/src/kernel/task_path.rs\<close>,
  \<open>src/src/kernel/task_key.rs\<close>). A path is its string, as \<open>TaskPath(String)\<close> is; the
  lemmas relate the string operations to the list of path components, which is what the tries
  and the rest of the kernel walk along.
\<close>

section \<open>Paths\<close>

type_synonym task_path = string

datatype invalid_path = InvalidPath string

definition is_valid_component_char :: "char \<Rightarrow> bool" where
  "is_valid_component_char c =
     (let n = (of_char c :: nat) in
      (48 \<le> n \<and> n \<le> 57) \<or> (65 \<le> n \<and> n \<le> 90) \<or> (97 \<le> n \<and> n \<le> 122) \<or>
      c = CHR ''-'' \<or> c = CHR ''_'' \<or> c = CHR ''.'')"

definition path_name :: "string \<Rightarrow> string" where
  "path_name text =
     (let name = map (\<lambda>c. if is_valid_component_char c then c else CHR ''_'') text
      in if name = [] then ''task'' else name)"

definition is_at_or_under :: "string \<Rightarrow> string \<Rightarrow> bool" where
  "is_at_or_under path grp =
     (case strip_prefix path grp of
        None \<Rightarrow> False
      | Some rest \<Rightarrow> (case rest of [] \<Rightarrow> True | c # _ \<Rightarrow> c = CHR ''/''))"

definition overlaps :: "string \<Rightarrow> string \<Rightarrow> bool" where
  "overlaps a b = (is_at_or_under a b \<or> is_at_or_under b a)"

definition join_path :: "string \<Rightarrow> string \<Rightarrow> string" where
  "join_path parent child =
     (if parent = [] then child else if child = [] then parent else parent @ ''/'' @ child)"

text \<open>The search \<open>(2..).map(..).find(..)\<close>; \<open>None\<close> is a search that does not end.\<close>

partial_function (option) unique_from :: "(string \<Rightarrow> bool) \<Rightarrow> string \<Rightarrow> nat \<Rightarrow> string option" where
  "unique_from taken base n =
     (let name = base @ ''-'' @ show_nat n
      in if taken name then unique_from taken base (Suc n) else Some name)"

declare unique_from.simps [code]

definition unique_name :: "string \<Rightarrow> (string \<Rightarrow> bool) \<Rightarrow> string option" where
  "unique_name base taken = (if taken base then unique_from taken base 2 else Some base)"

definition quote_char :: "char \<Rightarrow> string" where
  "quote_char c = [CHR 0x27, c, CHR 0x27]"

fun check_components :: "string list \<Rightarrow> invalid_path option" where
  "check_components [] = None"
| "check_components (component # rest) =
     (if component = [] then Some (InvalidPath ''path contains empty component'')
      else (case find (\<lambda>c. \<not> is_valid_component_char c) component of
              Some c \<Rightarrow> Some (InvalidPath (''path contains invalid character: '' @ quote_char c))
            | None \<Rightarrow> check_components rest))"

definition task_path_new :: "string \<Rightarrow> invalid_path + task_path" where
  "task_path_new s =
     (if s = [] then Inl (InvalidPath ''path is empty'')
      else if hd s = CHR ''/'' then Inl (InvalidPath (''path must not start with '' @ quote_char (CHR ''/'')))
      else (case check_components (split_char (CHR ''/'') s) of
              Some e \<Rightarrow> Inl e
            | None \<Rightarrow> Inr s))"

fun check_glob_components :: "string list \<Rightarrow> invalid_path option" where
  "check_glob_components [] = None"
| "check_glob_components (component # rest) =
     (if component = ''*'' \<or> component = ''**'' then check_glob_components rest
      else if component = [] then Some (InvalidPath ''pattern contains empty component'')
      else (case find (\<lambda>c. \<not> is_valid_component_char c) component of
              Some c \<Rightarrow> Some (InvalidPath (''pattern contains invalid character: '' @ quote_char c))
            | None \<Rightarrow> check_glob_components rest))"

definition check_glob :: "string \<Rightarrow> invalid_path + unit" where
  "check_glob pattern =
     (if pattern = [] then Inl (InvalidPath ''pattern is empty'')
      else if hd pattern = CHR ''/''
        then Inl (InvalidPath (''pattern must not start with '' @ quote_char (CHR ''/'')))
      else (case check_glob_components (split_char (CHR ''/'') pattern) of
              Some e \<Rightarrow> Inl e
            | None \<Rightarrow> Inr ()))"

definition root_path :: task_path where
  "root_path = []"

definition is_root :: "task_path \<Rightarrow> bool" where
  "is_root p = (p = [])"

definition parent_path :: "task_path \<Rightarrow> task_path option" where
  "parent_path p =
     (if p = [] then None
      else (case rfind (CHR ''/'') p of
              Some pos \<Rightarrow> Some (take pos p)
            | None \<Rightarrow> Some root_path))"

definition leaf_name :: "task_path \<Rightarrow> string" where
  "leaf_name p = (case rfind (CHR ''/'') p of Some pos \<Rightarrow> drop (pos + 1) p | None \<Rightarrow> p)"

definition components :: "task_path \<Rightarrow> string list" where
  "components p = filter (\<lambda>c. c \<noteq> []) (split_char (CHR ''/'') p)"

definition path_depth :: "task_path \<Rightarrow> nat" where
  "path_depth p = length (components p)"

definition with_parent :: "task_path \<Rightarrow> task_path \<Rightarrow> task_path" where
  "with_parent p to = join_path to (leaf_name p)"

definition ancestor :: "task_path \<Rightarrow> nat \<Rightarrow> task_path" where
  "ancestor p d =
     (let end_pos = (case d of
          0 \<Rightarrow> 0
        | Suc n \<Rightarrow> (let ms = match_indices (CHR ''/'') 0 p
                    in if n < length ms then ms ! n else length p))
      in take end_pos p)"

lemma parent_shorter: "parent_path p = Some q \<Longrightarrow> length q < length p"
  by (auto simp: parent_path_def root_path_def dest!: rfind_Some split: if_splits option.splits)

text \<open>\<open>successors(path.parent(), TaskPath::parent)\<close>: the paths above, nearest first.\<close>

function parent_paths :: "task_path \<Rightarrow> task_path list" where
  "parent_paths p = (case parent_path p of None \<Rightarrow> [] | Some q \<Rightarrow> q # parent_paths q)"
  by pat_completeness auto
termination
  by (relation "measure length") (auto dest: parent_shorter)

declare parent_paths.simps [simp del]

section \<open>Paths as component lists\<close>

definition valid_component :: "string \<Rightarrow> bool" where
  "valid_component c \<longleftrightarrow> c \<noteq> [] \<and> list_all is_valid_component_char c"

fun path_str :: "string list \<Rightarrow> task_path" where
  "path_str [] = []"
| "path_str [c] = c"
| "path_str (c # cs) = c @ ''/'' @ path_str cs"

text \<open>A path \<open>TaskPath::new\<close> accepts.\<close>

definition valid_path :: "task_path \<Rightarrow> bool" where
  "valid_path p \<longleftrightarrow>
     components p \<noteq> [] \<and> list_all valid_component (components p) \<and> path_str (components p) = p"

definition valid_or_root :: "task_path \<Rightarrow> bool" where
  "valid_or_root p \<longleftrightarrow> p = root_path \<or> valid_path p"

lemma valid_char_not_slash: "is_valid_component_char c \<Longrightarrow> c \<noteq> CHR ''/''"
  by (auto simp: is_valid_component_char_def)

lemma valid_component_no_slash: "valid_component c \<Longrightarrow> CHR ''/'' \<notin> set c"
  by (auto simp: valid_component_def list_all_iff dest: valid_char_not_slash)

lemma valid_component_nonempty [simp]: "valid_component c \<Longrightarrow> c \<noteq> []"
  by (simp add: valid_component_def)

lemma valid_component_Nil [simp]: "\<not> valid_component []"
  by (simp add: valid_component_def)

lemma path_str_Cons: "cs \<noteq> [] \<Longrightarrow> path_str (c # cs) = c @ CHR ''/'' # path_str cs"
  by (cases cs) auto

lemma path_str_Nil_iff: "list_all valid_component cs \<Longrightarrow> path_str cs = [] \<longleftrightarrow> cs = []"
  by (cases cs rule: path_str.cases) auto

lemma split_path_str:
  "list_all valid_component cs \<Longrightarrow> cs \<noteq> [] \<Longrightarrow> split_char (CHR ''/'') (path_str cs) = cs"
proof (induction cs rule: path_str.induct)
  case (2 c)
  then show ?case by (simp add: split_char_no_sep valid_component_no_slash)
next
  case (3 c d ds)
  then show ?case by (simp add: split_char_append valid_component_no_slash)
qed simp

lemma components_path_str [simp]: "list_all valid_component cs \<Longrightarrow> components (path_str cs) = cs"
proof (cases "cs = []")
  case False
  assume "list_all valid_component cs"
  then show ?thesis using False by (auto simp: components_def split_path_str list_all_iff)
qed (simp add: components_def)

lemma path_str_inject:
  "list_all valid_component cs \<Longrightarrow> list_all valid_component ds \<Longrightarrow> path_str cs = path_str ds \<longleftrightarrow> cs = ds"
  by (metis components_path_str)

lemma valid_path_str: "list_all valid_component cs \<Longrightarrow> cs \<noteq> [] \<Longrightarrow> valid_path (path_str cs)"
  by (simp add: valid_path_def)

lemma valid_pathE:
  assumes "valid_path p"
  obtains cs where "p = path_str cs" "list_all valid_component cs" "cs \<noteq> []" "components p = cs"
  using assms unfolding valid_path_def by metis

lemma valid_or_rootE:
  assumes "valid_or_root p"
  obtains cs where "p = path_str cs" "list_all valid_component cs" "components p = cs"
  using assms by (auto simp: valid_or_root_def root_path_def components_def elim: valid_pathE)

lemma path_str_components [simp]: "valid_or_root p \<Longrightarrow> path_str (components p) = p"
  by (auto elim: valid_or_rootE)

lemma valid_path_or_root: "valid_path p \<Longrightarrow> valid_or_root p"
  by (simp add: valid_or_root_def)

lemma valid_or_root_path_str [simp]: "list_all valid_component cs \<Longrightarrow> valid_or_root (path_str cs)"
  by (cases "cs = []") (auto simp: valid_or_root_def root_path_def valid_path_str)

lemma components_root [simp]: "components root_path = []" "components [] = []"
  by (simp_all add: components_def root_path_def)

lemma components_inject:
  "valid_or_root p \<Longrightarrow> valid_or_root q \<Longrightarrow> components p = components q \<longleftrightarrow> p = q"
  by (metis path_str_components)

lemma components_eq_Nil: "valid_or_root p \<Longrightarrow> components p = [] \<longleftrightarrow> p = []"
  by (metis components_root(2) path_str.simps(1) path_str_components)

lemma valid_path_components: "valid_or_root p \<Longrightarrow> list_all valid_component (components p)"
  by (auto elim: valid_or_rootE)

section \<open>Parsing\<close>

lemma find_invalid: "find (\<lambda>c. \<not> is_valid_component_char c) w = None \<longleftrightarrow> list_all is_valid_component_char w"
  by (auto simp: find_None_iff list_all_iff)

lemma valid_component_find:
  "w \<noteq> [] \<Longrightarrow> valid_component w \<longleftrightarrow> find (\<lambda>c. \<not> is_valid_component_char c) w = None"
  by (simp add: valid_component_def find_invalid)

lemma check_components_None: "check_components cs = None \<longleftrightarrow> list_all valid_component cs"
proof (induction cs)
  case (Cons w cs)
  then show ?case
    by (cases "w = []"; cases "find (\<lambda>c. \<not> is_valid_component_char c) w") (simp_all add: valid_component_find)
qed simp

lemma check_glob_components_None:
  "check_glob_components cs = None \<longleftrightarrow> list_all (\<lambda>c. c = ''*'' \<or> c = ''**'' \<or> valid_component c) cs"
proof (induction cs)
  case (Cons w cs)
  then show ?case
    by (cases "w = []"; cases "find (\<lambda>c. \<not> is_valid_component_char c) w") (auto simp: valid_component_find)
qed simp

lemma path_str_hd:
  "list_all valid_component cs \<Longrightarrow> cs \<noteq> [] \<Longrightarrow> path_str cs \<noteq> [] \<and> hd (path_str cs) \<noteq> CHR ''/''"
proof (cases cs rule: path_str.cases)
  case (2 c)
  assume "list_all valid_component cs"
  with 2 show ?thesis by (cases c) (auto dest: valid_component_no_slash)
next
  case (3 c d ds)
  assume "list_all valid_component cs"
  with 3 show ?thesis by (cases c) (auto dest: valid_component_no_slash)
qed simp

lemma path_str_split: "path_str (split_char (CHR ''/'') s) = s"
proof (induction "CHR ''/''" s rule: split_char.induct)
  case (2 x xs)
  have ne: "split_char (CHR ''/'') xs \<noteq> []" by simp
  then show ?case using 2
    by (cases "split_char (CHR ''/'') xs" rule: path_str.cases) (auto simp: path_str_Cons)
qed simp

lemma valid_path_split: "valid_path s \<longleftrightarrow> list_all valid_component (split_char (CHR ''/'') s)"
proof
  assume "valid_path s"
  then show "list_all valid_component (split_char (CHR ''/'') s)"
    by (auto elim!: valid_pathE simp: split_path_str)
next
  assume "list_all valid_component (split_char (CHR ''/'') s)"
  then show "valid_path s" by (metis path_str_split split_char_nonempty valid_path_str)
qed

lemma task_path_new_iff: "task_path_new s = Inr p \<longleftrightarrow> p = s \<and> valid_path s"
proof -
  have "valid_path s \<Longrightarrow> s \<noteq> [] \<and> hd s \<noteq> CHR ''/''" by (metis path_str_hd valid_pathE)
  then show ?thesis
    by (auto simp: task_path_new_def valid_path_split check_components_None[symmetric] split: option.splits)
qed

lemma task_path_new_path_str: "list_all valid_component cs \<Longrightarrow> cs \<noteq> [] \<Longrightarrow> task_path_new (path_str cs) = Inr (path_str cs)"
  by (simp add: task_path_new_iff valid_path_str)

lemma task_path_new_Nil [simp]: "task_path_new [] = Inl (InvalidPath ''path is empty'')"
  by (simp add: task_path_new_def)

lemma valid_component_path: "valid_component c \<Longrightarrow> valid_path c"
  using valid_path_str[of "[c]"] by simp

lemma path_name_component: "valid_component (path_name t)"
proof -
  have "is_valid_component_char (CHR ''_'')" by (simp add: is_valid_component_char_def)
  then have "list_all is_valid_component_char (map (\<lambda>c. if is_valid_component_char c then c else CHR ''_'') t)"
    by (auto simp: list_all_iff)
  moreover have "valid_component ''task''"
    by (simp add: valid_component_def is_valid_component_char_def)
  ultimately show ?thesis by (auto simp: path_name_def valid_component_def Let_def)
qed

section \<open>The tree of paths\<close>

lemma path_str_snoc: "cs \<noteq> [] \<Longrightarrow> path_str (cs @ [c]) = path_str cs @ CHR ''/'' # c"
proof (induction cs)
  case (Cons d ds)
  then show ?case by (cases "ds = []") (simp_all add: path_str_Cons)
qed simp

lemma rfind_path_str:
  "list_all valid_component (cs @ [c]) \<Longrightarrow>
   rfind (CHR ''/'') (path_str (cs @ [c])) = (if cs = [] then None else Some (length (path_str cs)))"
  by (auto simp: path_str_snoc rfind_append rfind_None valid_component_no_slash)

lemma parent_path_str:
  "list_all valid_component (cs @ [c]) \<Longrightarrow> parent_path (path_str (cs @ [c])) = Some (path_str cs)"
proof -
  assume v: "list_all valid_component (cs @ [c])"
  then have "path_str (cs @ [c]) \<noteq> []" by (simp only: path_str_Nil_iff) simp
  then show ?thesis using v by (auto simp: parent_path_def rfind_path_str path_str_snoc root_path_def)
qed

lemma name_path_str: "list_all valid_component (cs @ [c]) \<Longrightarrow> leaf_name (path_str (cs @ [c])) = c"
  by (auto simp: leaf_name_def rfind_path_str path_str_snoc)

lemma join_path_str:
  "list_all valid_component (cs @ [c]) \<Longrightarrow> join_path (path_str cs) c = path_str (cs @ [c])"
  by (auto simp: join_path_def path_str_snoc path_str_Nil_iff)

lemma parent_components:
  "valid_path p \<Longrightarrow> parent_path p = Some (path_str (butlast (components p)))"
  by (metis append_butlast_last_id parent_path_str valid_pathE)

lemma name_components: "valid_path p \<Longrightarrow> leaf_name p = last (components p)"
  by (metis append_butlast_last_id name_path_str valid_pathE)

lemma parent_root [simp]: "parent_path root_path = None" "parent_path [] = None"
  by (simp_all add: parent_path_def root_path_def)

lemma valid_components_butlast: "list_all valid_component cs \<Longrightarrow> list_all valid_component (butlast cs)"
  by (auto simp: list_all_iff dest: in_set_butlastD)

lemma valid_components_take: "list_all valid_component cs \<Longrightarrow> list_all valid_component (take n cs)"
  by (auto simp: list_all_iff dest: in_set_takeD)

lemma parents_path_str:
  "list_all valid_component cs \<Longrightarrow> parent_paths (path_str cs) = map (\<lambda>n. path_str (take n cs)) (rev [0..<length cs])"
proof (induction cs rule: rev_induct)
  case Nil
  then show ?case by (subst parent_paths.simps) simp
next
  case (snoc c cs)
  have "parent_paths (path_str (cs @ [c])) = path_str cs # parent_paths (path_str cs)"
    using snoc.prems by (subst parent_paths.simps) (simp add: parent_path_str)
  then show ?case using snoc by simp
qed

lemma set_parents:
  "list_all valid_component cs \<Longrightarrow> q \<in> set (parent_paths (path_str cs)) \<longleftrightarrow> (\<exists>ds. strict_prefix ds cs \<and> q = path_str ds)"
proof -
  assume v: "list_all valid_component cs"
  have sp: "strict_prefix ds cs \<longleftrightarrow> (\<exists>n<length cs. ds = take n cs)" for ds
  proof
    assume "strict_prefix ds cs"
    then obtain e es where "cs = ds @ e # es" by (auto elim: strict_prefixE')
    then show "\<exists>n<length cs. ds = take n cs" by (intro exI[of _ "length ds"]) simp
  next
    assume "\<exists>n<length cs. ds = take n cs"
    then obtain n where "n < length cs" "ds = take n cs" by blast
    then have "prefix ds cs" "length ds \<noteq> length cs" by (simp_all add: take_is_prefix)
    then show "strict_prefix ds cs" by (auto simp: strict_prefix_def)
  qed
  have "q \<in> set (parent_paths (path_str cs)) \<longleftrightarrow> (\<exists>n<length cs. q = path_str (take n cs))"
    using v by (auto simp: parents_path_str)
  then show ?thesis unfolding sp by blast
qed

lemma split_char_append_sep: "split_char c (s @ c # t) = split_char c s @ split_char c t"
proof (induction c s rule: split_char.induct)
  case (2 c x xs)
  then show ?case by (cases "split_char c xs") auto
qed simp

lemma path_str_append:
  "gs \<noteq> [] \<Longrightarrow> es \<noteq> [] \<Longrightarrow> path_str (gs @ es) = path_str gs @ CHR ''/'' # path_str es"
  by (induction gs rule: path_str.induct) (auto simp: path_str_Cons)

lemma is_at_or_under_iff: "is_at_or_under p g \<longleftrightarrow> p = g \<or> (\<exists>r. p = g @ CHR ''/'' # r)"
proof (cases "strip_prefix p g")
  case None
  then have ne: "p \<noteq> g @ r" for r by (metis option.distinct(1) strip_prefix_Some)
  then show ?thesis using None ne[of "[]"] by (simp add: is_at_or_under_def)
next
  case (Some r)
  then have "p = g @ r" by (simp add: strip_prefix_Some)
  then show ?thesis using Some by (auto simp: is_at_or_under_def split: list.splits)
qed

lemma is_at_or_under_path_str:
  assumes v: "list_all valid_component cs" "list_all valid_component gs" "cs \<noteq> []" "gs \<noteq> []"
  shows "is_at_or_under (path_str cs) (path_str gs) \<longleftrightarrow> prefix gs cs"
proof
  assume "is_at_or_under (path_str cs) (path_str gs)"
  then consider "path_str cs = path_str gs" | r where "path_str cs = path_str gs @ CHR ''/'' # r"
    by (auto simp: is_at_or_under_iff)
  then show "prefix gs cs"
  proof cases
    case 1
    then show ?thesis using v by (simp add: path_str_inject)
  next
    case 2
    then have "split_char (CHR ''/'') (path_str cs) = split_char (CHR ''/'') (path_str gs) @ split_char (CHR ''/'') r"
      by (simp add: split_char_append_sep)
    then show ?thesis using v by (simp add: split_path_str)
  qed
next
  assume "prefix gs cs"
  then obtain es where "cs = gs @ es" by (auto elim: prefixE)
  then show "is_at_or_under (path_str cs) (path_str gs)" using v
    by (cases "es = []") (auto simp: is_at_or_under_iff path_str_append)
qed

lemma match_indices_no_sep: "c \<notin> set s \<Longrightarrow> match_indices c i s = []"
  by (induction s arbitrary: i) auto

lemma match_indices_append:
  "match_indices c i (s @ t) = match_indices c i s @ match_indices c (i + length s) t"
  by (induction s arbitrary: i) auto

lemma match_indices_path_str:
  "list_all valid_component cs \<Longrightarrow>
   match_indices (CHR ''/'') 0 (path_str cs) = map (\<lambda>n. length (path_str (take (Suc n) cs))) [0..<length cs - 1]"
proof (induction cs rule: rev_induct)
  case (snoc c cs)
  show ?case
  proof (cases "cs = []")
    case True
    then show ?thesis using snoc by (simp add: match_indices_no_sep valid_component_no_slash)
  next
    case False
    have v: "list_all valid_component cs" "valid_component c" using snoc.prems by auto
    have len: "[0..<length cs] = [0..<length cs - 1] @ [length cs - 1]"
      using False by (metis Suc_diff_1 length_greater_0_conv upt_Suc_append zero_le)
    have "match_indices (CHR ''/'') 0 (path_str (cs @ [c])) =
        match_indices (CHR ''/'') 0 (path_str cs) @ [length (path_str cs)]"
      using False v by (simp add: path_str_snoc match_indices_append match_indices_no_sep valid_component_no_slash)
    also have "\<dots> = map (\<lambda>n. length (path_str (take (Suc n) cs))) [0..<length cs]"
      using False v by (simp add: snoc.IH len)
    also have "\<dots> = map (\<lambda>n. length (path_str (take (Suc n) (cs @ [c])))) [0..<length (cs @ [c]) - 1]"
      by simp
    finally show ?thesis .
  qed
qed simp

lemma take_path_str:
  assumes "list_all valid_component cs" "0 < n" "n < length cs"
  shows "take (length (path_str (take n cs))) (path_str cs) = path_str (take n cs)"
proof -
  have "take n cs \<noteq> []" "drop n cs \<noteq> []" using assms by auto
  then have "path_str (take n cs @ drop n cs) = path_str (take n cs) @ CHR ''/'' # path_str (drop n cs)"
    by (rule path_str_append)
  then show ?thesis by simp
qed

lemma ancestor_path_str:
  assumes v: "list_all valid_component cs"
  shows "ancestor (path_str cs) d = path_str (take d cs)"
proof (cases d)
  case 0
  then show ?thesis by (simp add: ancestor_def)
next
  case (Suc n)
  show ?thesis
  proof (cases "Suc n < length cs")
    case True
    then have "n < length cs - 1" by simp
    then have "match_indices (CHR ''/'') 0 (path_str cs) ! n = length (path_str (take (Suc n) cs))"
      "n < length (match_indices (CHR ''/'') 0 (path_str cs))"
      using v by (simp_all add: match_indices_path_str)
    then have "ancestor (path_str cs) d = take (length (path_str (take (Suc n) cs))) (path_str cs)"
      using Suc by (simp add: ancestor_def Let_def)
    also have "\<dots> = path_str (take (Suc n) cs)" using v True by (intro take_path_str) auto
    finally show ?thesis using Suc by simp
  next
    case False
    then show ?thesis using v Suc by (auto simp: ancestor_def Let_def match_indices_path_str)
  qed
qed

lemma depth_path_str: "list_all valid_component cs \<Longrightarrow> path_depth (path_str cs) = length cs"
  by (simp add: path_depth_def)

section \<open>Fresh names\<close>

lemma unique_from_free: "unique_from taken base n = Some s \<Longrightarrow> \<not> taken s"
proof (rule unique_from.raw_induct [where P = "\<lambda>t b n s. \<not> t s", rotated], assumption)
  fix f t b n r
  assume IH: "\<And>t b n r. f t b n = Some r \<Longrightarrow> \<not> t r"
    and eq: "(let name = b @ ''-'' @ show_nat n in if t name then f t b (Suc n) else Some name) = Some r"
  show "\<not> t r" using eq by (auto simp: Let_def dest: IH split: if_splits)
qed

lemma unique_from_first:
  assumes "\<not> taken (base @ ''-'' @ show_nat (n + k))"
  shows "\<exists>m. n \<le> m \<and> m \<le> n + k \<and> unique_from taken base n = Some (base @ ''-'' @ show_nat m) \<and>
     (\<forall>i. n \<le> i \<and> i < m \<longrightarrow> taken (base @ ''-'' @ show_nat i))"
  using assms
proof (induction k arbitrary: n)
  case 0
  then show ?case by (intro exI[of _ n]) (auto simp: unique_from.simps)
next
  case (Suc k)
  show ?case
  proof (cases "taken (base @ ''-'' @ show_nat n)")
    case True
    have "\<not> taken (base @ ''-'' @ show_nat (Suc n + k))" using Suc.prems by simp
    then obtain m where m: "Suc n \<le> m" "m \<le> Suc n + k"
      "unique_from taken base (Suc n) = Some (base @ ''-'' @ show_nat m)"
      "\<forall>i. Suc n \<le> i \<and> i < m \<longrightarrow> taken (base @ ''-'' @ show_nat i)"
      using Suc.IH by blast
    have "unique_from taken base n = unique_from taken base (Suc n)"
      using True by (subst unique_from.simps) simp
    moreover have "taken (base @ ''-'' @ show_nat i)" if "n \<le> i" "i < m" for i
      using that m(4) True by (cases "i = n") auto
    ultimately show ?thesis using m by (intro exI[of _ m]) auto
  next
    case False
    then show ?thesis by (intro exI[of _ n]) (auto simp: unique_from.simps)
  qed
qed

lemma finite_taken_gap:
  assumes "finite {s. taken s}"
  shows "\<exists>k. \<not> taken (base @ ''-'' @ show_nat (n + k))"
proof (rule ccontr)
  assume "\<not> ?thesis"
  then have "range (\<lambda>k. base @ ''-'' @ show_nat (n + k)) \<subseteq> {s. taken s}" by auto
  then have "finite (range (\<lambda>k. base @ ''-'' @ show_nat (n + k)))" using assms finite_subset by blast
  moreover have "inj (\<lambda>k. base @ ''-'' @ show_nat (n + k))" by (simp add: inj_on_def)
  ultimately show False using finite_imageD infinite_UNIV_nat by blast
qed

section \<open>Spaces and keys\<close>

datatype task_space_id = TaskSpaceId string

fun space_str :: "task_space_id \<Rightarrow> string" where
  "space_str (TaskSpaceId s) = s"

text \<open>\<open>#[derive(Ord)]\<close>.\<close>

instantiation task_space_id :: linorder
begin

definition less_eq_task_space_id :: "task_space_id \<Rightarrow> task_space_id \<Rightarrow> bool" where
  "less_eq_task_space_id a b \<longleftrightarrow> space_str a \<le> space_str b"

definition less_task_space_id :: "task_space_id \<Rightarrow> task_space_id \<Rightarrow> bool" where
  "less_task_space_id a b \<longleftrightarrow> space_str a < space_str b"

instance
proof
  fix a b :: task_space_id
  show "a \<le> b \<Longrightarrow> b \<le> a \<Longrightarrow> a = b"
    by (cases a; cases b) (simp add: less_eq_task_space_id_def)
qed (auto simp: less_eq_task_space_id_def less_task_space_id_def)

end

definition default_space :: task_space_id where
  "default_space = TaskSpaceId []"

definition dekit_space :: task_space_id where
  "dekit_space = TaskSpaceId ''dekit''"

definition space_new :: "string \<Rightarrow> string + task_space_id" where
  "space_new name =
     (if name = [] then Inl ''space name is empty''
      else if list_all is_valid_component_char name then Inr (TaskSpaceId name)
      else Inl ''space name contains an invalid character'')"

definition is_default_space :: "task_space_id \<Rightarrow> bool" where
  "is_default_space s = (space_str s = [])"

definition is_reserved :: "task_space_id \<Rightarrow> bool" where
  "is_reserved s = (s = dekit_space)"

record task_key =
  key_space :: task_space_id
  key_path :: task_path

definition task_key_new :: "task_space_id \<Rightarrow> task_path \<Rightarrow> task_key" where
  "task_key_new space path = \<lparr>key_space = space, key_path = path\<rparr>"

definition task_key_str :: "task_key \<Rightarrow> string" where
  "task_key_str k =
     (if is_default_space (key_space k) then key_path k
      else ''@'' @ space_str (key_space k) @ ''/'' @ key_path k)"

lemma task_key_new_sel [simp]:
  "key_space (task_key_new s p) = s" "key_path (task_key_new s p) = p"
  by (simp_all add: task_key_new_def)

end
