(* ===== verification/Path_Trie.thy ===== *)
theory Path_Trie
  imports Task_Path "HOL-Library.Monad_Syntax"
begin

text \<open>
  The index of task paths (\<open>src/src/kernel/path_trie.rs\<close>): a trie whose nodes list
  their children in list order. A function that can panic returns an option, \<open>None\<close> being
  the panic.
\<close>

section \<open>The data\<close>

text \<open>\<open>Place\<close> and \<open>MoveError\<close> of \<open>kernel_message.rs\<close>.\<close>

datatype place = Keep | First | Last | After task_path

datatype move_error =
    NotFound task_path
  | MoveTaken task_path
  | UnderTask task_path
  | IntoItself
  | BadAfter task_path

datatype trie_node =
  TrieNode (node_task: "nat option") (node_folder: "nat option")
    (node_children: "(string \<times> trie_node) list")

datatype path_conflict = Taken nat | Nested task_path

record moved =
  moved_id :: nat
  moved_from :: task_path
  moved_to :: task_path

type_synonym path_trie = trie_node

section \<open>Nodes\<close>

definition empty_node :: trie_node where
  "empty_node = TrieNode None None []"

fun set_task :: "nat option \<Rightarrow> trie_node \<Rightarrow> trie_node" where
  "set_task t (TrieNode _ f cs) = TrieNode t f cs"

fun set_folder :: "nat option \<Rightarrow> trie_node \<Rightarrow> trie_node" where
  "set_folder f (TrieNode t _ cs) = TrieNode t f cs"

fun set_children :: "(string \<times> trie_node) list \<Rightarrow> trie_node \<Rightarrow> trie_node" where
  "set_children cs (TrieNode t f _) = TrieNode t f cs"

definition node_id :: "trie_node \<Rightarrow> nat option" where
  "node_id n = opt_or (node_task n) (node_folder n)"

definition node_is_empty :: "trie_node \<Rightarrow> bool" where
  "node_is_empty n = (node_id n = None \<and> node_children n = [])"

text \<open>An id at a node is listed only where its path is one \<open>TaskPath::new\<close> takes.\<close>

definition listed_at :: "task_path \<Rightarrow> nat option \<Rightarrow> (task_path \<times> nat) list" where
  "listed_at p i = (case (i, task_path_new p) of (Some i, Inr q) \<Rightarrow> [(q, i)] | _ \<Rightarrow> [])"

fun collect_nodes :: "task_path \<Rightarrow> trie_node \<Rightarrow> (task_path \<times> nat) list"
  and collect_children :: "task_path \<Rightarrow> (string \<times> trie_node) list \<Rightarrow> (task_path \<times> nat) list" where
  "collect_nodes p (TrieNode t f cs) = listed_at p (opt_or t f) @ collect_children p cs"
| "collect_children p [] = []"
| "collect_children p ((c, n) # cs) = collect_nodes (join_path p c) n @ collect_children p cs"

fun any_node :: "task_path \<Rightarrow> trie_node \<Rightarrow> task_path option"
  and any_child :: "task_path \<Rightarrow> (string \<times> trie_node) list \<Rightarrow> task_path option" where
  "any_node p (TrieNode t f cs) =
     (if opt_or t f \<noteq> None
      then (case task_path_new p of Inr q \<Rightarrow> Some q | Inl _ \<Rightarrow> None)
      else any_child p cs)"
| "any_child p [] = None"
| "any_child p ((c, n) # cs) = opt_or (any_node (join_path p c) n) (any_child p cs)"

text \<open>The children are searched from the last one, so the search of the rest comes first.\<close>

fun last_node :: "trie_node \<Rightarrow> nat option"
  and last_child :: "(string \<times> trie_node) list \<Rightarrow> nat option" where
  "last_node (TrieNode t f cs) = opt_or (opt_or t (last_child cs)) f"
| "last_child [] = None"
| "last_child ((c, n) # cs) = opt_or (last_child cs) (last_node n)"

fun glob_walk :: "task_path \<Rightarrow> string list \<Rightarrow> bool \<Rightarrow> trie_node \<Rightarrow> (task_path \<times> nat option) list"
  and glob_children :: "task_path \<Rightarrow> string list \<Rightarrow> bool \<Rightarrow> (string \<times> trie_node) list \<Rightarrow> (task_path \<times> nat option) list"
  and glob_literal :: "task_path \<Rightarrow> string \<Rightarrow> string list \<Rightarrow> bool \<Rightarrow> (string \<times> trie_node) list \<Rightarrow> (task_path \<times> nat option) list" where
  "glob_walk p [] groups (TrieNode t f cs) =
     (if groups \<or> t \<noteq> None
      then (case task_path_new p of Inr q \<Rightarrow> [(q, t)] | Inl _ \<Rightarrow> [])
      else [])"
| "glob_walk p (pat # rest) groups (TrieNode t f cs) =
     (if pat = ''**'' then
        glob_walk p rest groups (TrieNode t f cs) @ glob_children p (pat # rest) groups cs
      else if pat = ''*'' then glob_children p rest groups cs
      else glob_literal p pat rest groups cs)"
| "glob_children p pattern groups [] = []"
| "glob_children p pattern groups ((c, n) # cs) =
     glob_walk (join_path p c) pattern groups n @ glob_children p pattern groups cs"
| "glob_literal p pat rest groups [] = []"
| "glob_literal p pat rest groups ((c, n) # cs) =
     (if c = pat then glob_walk (join_path p pat) rest groups n else glob_literal p pat rest groups cs)"

section \<open>The trie\<close>

definition trie_new :: path_trie where
  "trie_new = empty_node"

fun walk :: "trie_node \<Rightarrow> string list \<Rightarrow> trie_node option" where
  "walk n [] = Some n"
| "walk n (c # cs) = (case hm_get (node_children n) c of None \<Rightarrow> None | Some ch \<Rightarrow> walk ch cs)"

definition walk_to :: "path_trie \<Rightarrow> task_path \<Rightarrow> trie_node option" where
  "walk_to t p = walk t (components p)"

text \<open>A change of the node \<open>walk_to_mut\<close> finds; \<open>None\<close> when there is none.\<close>

fun update_at :: "string list \<Rightarrow> (trie_node \<Rightarrow> trie_node option) \<Rightarrow> trie_node \<Rightarrow> trie_node option" where
  "update_at [] f n = f n"
| "update_at (c # cs) f n =
     (case hm_get (node_children n) c of
        None \<Rightarrow> None
      | Some ch \<Rightarrow>
          map_option (\<lambda>ch'. set_children (hm_put c ch' (node_children n)) n) (update_at cs f ch))"

definition resolve :: "path_trie \<Rightarrow> task_path \<Rightarrow> nat option" where
  "resolve t p = (case walk_to t p of None \<Rightarrow> None | Some n \<Rightarrow> node_task n)"

definition task_above :: "path_trie \<Rightarrow> task_path \<Rightarrow> task_path option" where
  "task_above t p = find (\<lambda>q. resolve t q \<noteq> None) (parent_paths p)"

text \<open>Where the last name of a new path goes among the names beside it (\<open>kids\<close> has it last).\<close>

definition place_index :: "task_path \<Rightarrow> place \<Rightarrow> (string \<times> trie_node) list \<Rightarrow> nat \<Rightarrow> nat" where
  "place_index path plc kids last_ix =
     (case plc of
        First \<Rightarrow> 0
      | After after \<Rightarrow>
          if parent_path after = parent_path path
          then (case index_of kids (leaf_name after) of None \<Rightarrow> last_ix | Some i \<Rightarrow> i + 1)
          else last_ix
      | Keep \<Rightarrow> last_ix
      | Last \<Rightarrow> last_ix)"

text \<open>\<open>make\<close>, followed by a change \<open>f\<close> of the node it returns.\<close>

fun make_at :: "task_path \<Rightarrow> place \<Rightarrow> (trie_node \<Rightarrow> trie_node) \<Rightarrow> string list \<Rightarrow> trie_node \<Rightarrow> trie_node option" where
  "make_at path plc f [] node = Some (f node)"
| "make_at path plc f (c # rest) node =
     (case index_of (node_children node) c of
        Some i \<Rightarrow> do {
          ch \<leftarrow> make_at path plc f rest (snd (node_children node ! i));
          Some (set_children ((node_children node)[i := (c, ch)]) node)
        }
      | None \<Rightarrow> do {
          let last_ix = length (node_children node);
          let kids = node_children node @ [(c, empty_node)];
          let at = (if rest \<noteq> [] then last_ix else place_index path plc kids last_ix);
          kids' \<leftarrow> im_move_index last_ix at kids;
          ch \<leftarrow> make_at path plc f rest (snd (kids' ! at));
          Some (set_children (kids'[at := (c, ch)]) node)
        })"

definition make :: "path_trie \<Rightarrow> task_path \<Rightarrow> place \<Rightarrow> (trie_node \<Rightarrow> trie_node) \<Rightarrow> path_trie option" where
  "make t path plc f = make_at path plc f (components path) t"

definition trie_insert :: "path_trie \<Rightarrow> task_path \<Rightarrow> nat \<Rightarrow> place \<Rightarrow> (path_conflict + path_trie) option" where
  "trie_insert t path i plc =
     (let mk = map_option Inr (make t path plc (set_task (Some i)))
      in (case task_above t path of
            Some q \<Rightarrow> Some (Inl (Nested q))
          | None \<Rightarrow>
              (case walk_to t path of
                 None \<Rightarrow> mk
               | Some node \<Rightarrow>
                   (case node_id node of
                      Some existing \<Rightarrow> Some (Inl (Taken existing))
                    | None \<Rightarrow>
                        (case any_node path node of
                           Some below \<Rightarrow> Some (Inl (Nested below))
                         | None \<Rightarrow> mk)))))"

definition trie_insert_folder :: "path_trie \<Rightarrow> task_path \<Rightarrow> nat \<Rightarrow> place \<Rightarrow> (path_conflict + path_trie) option" where
  "trie_insert_folder t path i plc =
     (case task_above t path of
        Some q \<Rightarrow> Some (Inl (Nested q))
      | None \<Rightarrow>
          (case Option.bind (walk_to t path) node_id of
             Some existing \<Rightarrow> Some (Inl (Taken existing))
           | None \<Rightarrow> map_option Inr (make t path plc (set_folder (Some i)))))"

fun prune_at :: "string list \<Rightarrow> trie_node \<Rightarrow> trie_node" where
  "prune_at [] node = node"
| "prune_at (c # cs) node =
     (case hm_get (node_children node) c of
        None \<Rightarrow> node
      | Some child \<Rightarrow>
          (let child' = prune_at cs child;
               kids = hm_put c child' (node_children node)
           in set_children (if node_is_empty child' then shift_remove c kids else kids) node))"

definition prune :: "path_trie \<Rightarrow> task_path \<Rightarrow> path_trie" where
  "prune t path = prune_at (components path) t"

text \<open>The place \<open>place\<close> holds; \<open>None\<close> is the panic of \<open>make\<close>.\<close>

definition trie_place :: "path_trie \<Rightarrow> task_path \<Rightarrow> place \<Rightarrow> path_trie option" where
  "trie_place t path plc = (if task_above t path = None then make t path plc (\<lambda>n. n) else Some t)"

definition trie_remove :: "path_trie \<Rightarrow> task_path \<Rightarrow> nat option \<times> path_trie" where
  "trie_remove t path =
     (case walk_to t path of
        None \<Rightarrow> (None, t)
      | Some node \<Rightarrow>
          (node_task node,
           prune (unwrap_or t (update_at (components path) (\<lambda>n. Some (set_task None n)) t)) path))"

definition trie_remove_folder :: "path_trie \<Rightarrow> task_path \<Rightarrow> nat option \<times> path_trie" where
  "trie_remove_folder t path =
     (case walk_to t path of
        None \<Rightarrow> (None, t)
      | Some node \<Rightarrow>
          (node_folder node,
           prune (unwrap_or t (update_at (components path) (\<lambda>n. Some (set_folder None n)) t)) path))"

section \<open>Moves\<close>

text \<open>\<open>take_while\<close> along the paths above; the guards of \<open>move_node\<close>.\<close>

definition lone_group :: "path_trie \<Rightarrow> task_path \<Rightarrow> bool" where
  "lone_group t g =
     (case walk_to t g of
        None \<Rightarrow> False
      | Some n \<Rightarrow> length (node_children n) = 1 \<and> node_folder n = None)"

definition move_check :: "path_trie \<Rightarrow> task_path \<Rightarrow> task_path \<Rightarrow> place \<Rightarrow> move_error option" where
  "move_check t from to plc =
     (if is_root from \<or> is_root to then Some (NotFound from)
      else if (case walk_to t from of None \<Rightarrow> True | Some n \<Rightarrow> node_is_empty n) then Some (NotFound from)
      else
        (case (if from = to then None
               else if is_at_or_under to from then Some IntoItself
               else
                 (case task_above t to of
                    Some q \<Rightarrow> Some (UnderTask q)
                  | None \<Rightarrow>
                      (let emptied = to \<in> set (takeWhile (lone_group t) (parent_paths from))
                       in if walk_to t to \<noteq> None \<and> \<not> emptied then Some (MoveTaken to) else None))) of
           Some e \<Rightarrow> Some e
         | None \<Rightarrow>
             (case plc of
                After after \<Rightarrow>
                  (if parent_path after = parent_path to \<and> after \<noteq> from \<and> after \<noteq> to \<and> walk_to t after \<noteq> None
                   then None else Some (BadAfter after))
              | _ \<Rightarrow> None)))"

text \<open>The groups a move to \<open>to\<close> makes, from the nearest; \<open>made\<close> is the last of them, when it is beside \<open>from\<close>.\<close>

definition move_made :: "path_trie \<Rightarrow> task_path \<Rightarrow> task_path \<Rightarrow> task_path option" where
  "move_made t from to_parent =
     (let gs = takeWhile (\<lambda>g. \<not> is_root g \<and> walk_to t g = None) (to_parent # parent_paths to_parent)
      in if gs \<noteq> [] \<and> parent_path (last gs) = parent_path from then Some (last gs) else None)"

definition parent_or_root :: "task_path \<Rightarrow> task_path" where
  "parent_or_root p = (case parent_path p of Some q \<Rightarrow> q | None \<Rightarrow> root_path)"

text \<open>The node at \<open>from\<close> taken out, its index among its siblings, and the trie without it.\<close>

definition take_out :: "path_trie \<Rightarrow> task_path \<Rightarrow> (nat \<times> trie_node \<times> path_trie) option" where
  "take_out t from = do {
     p \<leftarrow> walk_to t (parent_or_root from);
     i \<leftarrow> index_of (node_children p) (leaf_name from);
     t' \<leftarrow> update_at (components (parent_or_root from))
       (\<lambda>n. Some (set_children (shift_remove_index i (node_children n)) n)) t;
     Some (i, snd (node_children p ! i), t')
   }"

text \<open>The node put in under \<open>to\<close>'s parent; the index it ends at.\<close>

definition put_in_children ::
  "string \<Rightarrow> place \<Rightarrow> nat option \<Rightarrow> trie_node \<Rightarrow> (string \<times> trie_node) list \<Rightarrow> (string \<times> trie_node) list option" where
  "put_in_children nm plc keep node kids =
     (let emptied = index_of kids nm;
          kids1 = shift_remove nm kids;
          last_ix = length kids1;
          kids2 = kids1 @ [(nm, node)];
          at = (case plc of
              First \<Rightarrow> 0
            | Last \<Rightarrow> last_ix
            | After after \<Rightarrow> (case index_of kids2 (leaf_name after) of None \<Rightarrow> last_ix | Some i \<Rightarrow> i + 1)
            | Keep \<Rightarrow> min (case opt_or keep emptied of None \<Rightarrow> last_ix | Some i \<Rightarrow> i) last_ix)
      in im_move_index last_ix at kids2)"

definition move_apply :: "path_trie \<Rightarrow> task_path \<Rightarrow> task_path \<Rightarrow> place \<Rightarrow> (moved list \<times> path_trie) option" where
  "move_apply t from to plc = do {
     let old = (case walk_to t from of
         None \<Rightarrow> []
       | Some node \<Rightarrow> fold (\<lambda>(p, i). hm_put i p) (collect_nodes from node) []);
     (index, node, t1) \<leftarrow> take_out t from;
     let keep = (if parent_path from = parent_path to then Some index else None);
     let to_parent = parent_or_root to;
     let made = move_made t1 from to_parent;
     t2 \<leftarrow> trie_place t1 to_parent Last;
     t3 \<leftarrow> (if plc = Keep \<and> made \<noteq> None
       then update_at (components (parent_or_root from))
         (\<lambda>n. let last_ix = length (node_children n) - 1
              in map_option (\<lambda>kids. set_children kids n)
                   (im_move_index last_ix (min index last_ix) (node_children n))) t2
       else Some t2);
     t4 \<leftarrow> update_at (components to_parent)
       (\<lambda>n. map_option (\<lambda>kids. set_children kids n)
              (put_in_children (leaf_name to) plc keep node (node_children n))) t3;
     let moved = collect_nodes to node;
     let t5 = (if parent_path from = parent_path to then t4 else prune t4 from);
     Some (map (\<lambda>(p, i). \<lparr>moved_id = i,
                  moved_from = (case hm_get old i of Some q \<Rightarrow> q | None \<Rightarrow> p),
                  moved_to = p\<rparr>) moved, t5)
   }"

definition move_node :: "path_trie \<Rightarrow> task_path \<Rightarrow> task_path \<Rightarrow> place \<Rightarrow> (move_error + moved list \<times> path_trie) option" where
  "move_node t from to plc =
     (case move_check t from to plc of
        Some e \<Rightarrow> Some (Inl e)
      | None \<Rightarrow> map_option Inr (move_apply t from to plc))"

section \<open>Reads\<close>

fun before_at :: "nat option \<Rightarrow> string list \<Rightarrow> trie_node \<Rightarrow> nat option" where
  "before_at b [] node = b"
| "before_at b (c # cs) node =
     (case index_of (node_children node) c of
        None \<Rightarrow> None
      | Some i \<Rightarrow>
          before_at (opt_or (opt_or (last_child (take i (node_children node))) (node_folder node)) b)
            cs (snd (node_children node ! i)))"

definition before :: "path_trie \<Rightarrow> task_path \<Rightarrow> nat option" where
  "before t path = before_at None (components path) t"

definition trie_nodes :: "path_trie \<Rightarrow> task_path \<Rightarrow> (task_path \<times> nat) list" where
  "trie_nodes t path = (case walk_to t path of None \<Rightarrow> [] | Some n \<Rightarrow> collect_nodes path n)"

fun position_at :: "string list \<Rightarrow> trie_node \<Rightarrow> nat list option" where
  "position_at [] node = Some []"
| "position_at (c # cs) node =
     (case index_of (node_children node) c of
        None \<Rightarrow> None
      | Some i \<Rightarrow> map_option ((#) i) (position_at cs (snd (node_children node ! i))))"

definition position :: "path_trie \<Rightarrow> task_path \<Rightarrow> nat list option" where
  "position t path = position_at (components path) t"

text \<open>\<open>sort\<close> compares paths component by component, then the ids; \<open>dedup\<close> drops repeats.\<close>

definition glob_sorted :: "path_trie \<Rightarrow> string \<Rightarrow> bool \<Rightarrow> (task_path \<times> nat option) list" where
  "glob_sorted t pattern groups =
     remdups_adj (sort_key (\<lambda>(p, i). (components p, i)) (glob_walk [] (components pattern) groups t))"

definition trie_glob :: "path_trie \<Rightarrow> string \<Rightarrow> (task_path \<times> nat) list" where
  "trie_glob t pattern =
     concat (map (\<lambda>(p, i). case i of None \<Rightarrow> [] | Some i \<Rightarrow> [(p, i)]) (glob_sorted t pattern False))"

definition trie_glob_nodes :: "path_trie \<Rightarrow> string \<Rightarrow> task_path list" where
  "trie_glob_nodes t pattern = map fst (glob_sorted t pattern True)"

section \<open>What a trie holds\<close>

text \<open>The task and folder at a component list: the trie as a map.\<close>

definition entry :: "trie_node \<Rightarrow> string list \<Rightarrow> nat option \<times> nat option" where
  "entry n cs = (case walk n cs of None \<Rightarrow> (None, None) | Some m \<Rightarrow> (node_task m, node_folder m))"

text \<open>A node with no task or folder at or under it: a place that is only held.\<close>

fun vacant :: "trie_node \<Rightarrow> bool"
  and kids_vacant :: "(string \<times> trie_node) list \<Rightarrow> bool" where
  "vacant (TrieNode t f cs) = (t = None \<and> f = None \<and> kids_vacant cs)"
| "kids_vacant [] = True"
| "kids_vacant ((c, n) # cs) = (vacant n \<and> kids_vacant cs)"

text \<open>
  Well-formed: the names beside each other are different and are path components, and a task
  is a leaf (under it there are at most places a batch holds).
\<close>

fun node_ok :: "trie_node \<Rightarrow> bool"
  and kids_ok :: "(string \<times> trie_node) list \<Rightarrow> bool" where
  "node_ok (TrieNode t f cs) = (hm_ok cs \<and> (t \<noteq> None \<longrightarrow> f = None \<and> kids_vacant cs) \<and> kids_ok cs)"
| "kids_ok [] = True"
| "kids_ok ((c, n) # cs) = (valid_component c \<and> node_ok n \<and> kids_ok cs)"

text \<open>Every node under this one holds a task or a folder, or has one under it.\<close>

fun node_full :: "trie_node \<Rightarrow> bool"
  and kids_full :: "(string \<times> trie_node) list \<Rightarrow> bool" where
  "node_full (TrieNode t f cs) = kids_full cs"
| "kids_full [] = True"
| "kids_full ((c, n) # cs) = (\<not> node_is_empty n \<and> node_full n \<and> kids_full cs)"

lemma kids_ok_iff: "kids_ok cs \<longleftrightarrow> (\<forall>(c, n) \<in> set cs. valid_component c \<and> node_ok n)"
  by (induction cs) auto

lemma kids_vacant_iff: "kids_vacant cs \<longleftrightarrow> (\<forall>(c, n) \<in> set cs. vacant n)"
  by (induction cs) auto

lemma vacant_iff: "vacant n \<longleftrightarrow> node_task n = None \<and> node_folder n = None \<and> kids_vacant (node_children n)"
  by (cases n) simp

lemma kids_full_iff: "kids_full cs \<longleftrightarrow> (\<forall>(c, n) \<in> set cs. \<not> node_is_empty n \<and> node_full n)"
  by (induction cs) auto

lemma node_ok_iff:
  "node_ok n \<longleftrightarrow> hm_ok (node_children n) \<and> (node_task n \<noteq> None \<longrightarrow> node_folder n = None \<and> kids_vacant (node_children n)) \<and>
     (\<forall>(c, m) \<in> set (node_children n). valid_component c \<and> node_ok m)"
  by (cases n) (auto simp: kids_ok_iff)

lemma node_full_iff:
  "node_full n \<longleftrightarrow> (\<forall>(c, m) \<in> set (node_children n). \<not> node_is_empty m \<and> node_full m)"
  by (cases n) (auto simp: kids_full_iff)

lemma set_children_sel [simp]:
  "node_children (set_children cs n) = cs" "node_task (set_children cs n) = node_task n"
  "node_folder (set_children cs n) = node_folder n"
  by (cases n; simp)+

lemma set_task_sel [simp]:
  "node_children (set_task t n) = node_children n" "node_task (set_task t n) = t"
  "node_folder (set_task t n) = node_folder n"
  by (cases n; simp)+

lemma set_folder_sel [simp]:
  "node_children (set_folder f n) = node_children n" "node_task (set_folder f n) = node_task n"
  "node_folder (set_folder f n) = f"
  by (cases n; simp)+

lemma empty_node_sel [simp]:
  "node_children empty_node = []" "node_task empty_node = None" "node_folder empty_node = None"
  by (simp_all add: empty_node_def)

lemma node_ok_empty [simp]: "node_ok empty_node"
  by (simp add: empty_node_def)

lemma node_full_empty [simp]: "node_full empty_node"
  by (simp add: empty_node_def)

lemma walk_append: "walk n (cs @ ds) = Option.bind (walk n cs) (\<lambda>m. walk m ds)"
  by (induction n cs rule: walk.induct) (auto split: option.splits)

lemma walk_empty_node [simp]: "walk empty_node cs = (if cs = [] then Some empty_node else None)"
  by (cases cs) auto

lemma entry_Nil [simp]: "entry n [] = (node_task n, node_folder n)"
  by (simp add: entry_def)

lemma entry_Cons: "entry n (c # cs) = (case hm_get (node_children n) c of None \<Rightarrow> (None, None) | Some m \<Rightarrow> entry m cs)"
  by (auto simp: entry_def split: option.splits)

lemma entry_empty_node [simp]: "entry empty_node cs = (None, None)"
  by (cases cs) (auto simp: entry_Cons)

lemma resolve_entry: "resolve t p = fst (entry t (components p))"
  by (auto simp: resolve_def walk_to_def entry_def split: option.splits)

lemma node_ok_child: "node_ok n \<Longrightarrow> hm_get (node_children n) c = Some m \<Longrightarrow> node_ok m \<and> valid_component c"
  by (auto simp: node_ok_iff[of n] dest!: map_of_SomeD)

lemma node_ok_walk: "node_ok n \<Longrightarrow> walk n cs = Some m \<Longrightarrow> node_ok m \<and> list_all valid_component cs"
proof (induction n cs rule: walk.induct)
  case (2 n c cs)
  then show ?case by (auto split: option.splits dest: node_ok_child)
qed simp

lemma node_full_child: "node_full n \<Longrightarrow> hm_get (node_children n) c = Some m \<Longrightarrow> node_full m \<and> \<not> node_is_empty m"
  by (auto simp: node_full_iff[of n] dest!: map_of_SomeD)

lemma node_full_walk: "node_full n \<Longrightarrow> walk n cs = Some m \<Longrightarrow> node_full m"
proof (induction n cs rule: walk.induct)
  case (2 n c cs)
  then obtain k where "hm_get (node_children n) c = Some k" "walk k cs = Some m"
    by (auto split: option.splits)
  then show ?case using 2 node_full_child by blast
qed simp

text \<open>The id at a component list, as \<open>TrieNode::id\<close> reads it.\<close>

definition entry_id :: "trie_node \<Rightarrow> string list \<Rightarrow> nat option" where
  "entry_id n cs = opt_or (fst (entry n cs)) (snd (entry n cs))"

lemma entry_id_Nil [simp]: "entry_id n [] = node_id n"
  by (simp add: entry_id_def node_id_def)

lemma entry_id_Cons:
  "entry_id n (c # cs) = (case hm_get (node_children n) c of None \<Rightarrow> None | Some m \<Rightarrow> entry_id m cs)"
  by (auto simp: entry_id_def entry_Cons split: option.splits)

lemma entry_id_Cons_Some:
  "entry_id n (c # cs) = Some i \<longleftrightarrow> (\<exists>m. hm_get (node_children n) c = Some m \<and> entry_id m cs = Some i)"
  by (simp add: entry_id_Cons split: option.splits)

lemma entry_id_None: "entry_id n cs = None \<longleftrightarrow> entry n cs = (None, None)"
  by (cases "entry n cs") (simp add: entry_id_def opt_or_None)

lemma entry_id_append:
  "walk n cs = Some m \<Longrightarrow> entry_id n (cs @ ds) = entry_id m ds"
  by (simp add: entry_id_def entry_def walk_append)

lemma entry_id_walk: "entry_id n cs = Some i \<Longrightarrow> \<exists>m. walk n cs = Some m \<and> node_id m = Some i"
  by (auto simp: entry_id_def entry_def node_id_def split: option.splits)

lemma vacant_entry_id: "vacant n \<Longrightarrow> entry_id n ds = None"
proof (induction ds arbitrary: n)
  case Nil
  then show ?case by (simp add: vacant_iff node_id_def)
next
  case (Cons d ds)
  then show ?case by (auto simp: entry_id_Cons vacant_iff[of n] kids_vacant_iff split: option.splits dest!: map_of_SomeD)
qed

lemma vacant_holds: "node_ok n \<Longrightarrow> (\<And>ds. entry_id n ds = None) \<Longrightarrow> vacant n"
proof (induction n rule: trie_node.induct)
  case (TrieNode t f ks)
  have "vacant m" if "(c, m) \<in> set ks" for c m
  proof (rule TrieNode.IH[OF that])
    have "hm_get ks c = Some m" using that TrieNode.prems(1) by simp
    then show "entry_id m ds = None" for ds using TrieNode.prems(2)[of "c # ds"] by (simp add: entry_id_Cons)
    show "node_ok m" using that TrieNode.prems(1) by (auto simp: kids_ok_iff)
  qed simp
  moreover have "t = None" "f = None" using TrieNode.prems(2)[of "[]"] by (auto simp: node_id_def opt_or_None)
  ultimately show ?case by (auto simp: kids_vacant_iff)
qed

lemma entry_below_task:
  assumes "node_ok n" "fst (entry n cs) \<noteq> None" "ds \<noteq> []"
  shows "entry_id n (cs @ ds) = None"
proof -
  obtain m where m: "walk n cs = Some m" "node_task m \<noteq> None"
    using assms(2) by (auto simp: entry_def split: option.splits)
  then have "node_ok m" using assms(1) node_ok_walk by blast
  then have v: "kids_vacant (node_children m)" using m(2) by (simp add: node_ok_iff[of m])
  obtain d es where "ds = d # es" using assms(3) by (cases ds) auto
  then have "entry_id m ds = None" using v
    by (auto simp: entry_id_Cons kids_vacant_iff vacant_entry_id split: option.splits dest!: map_of_SomeD)
  then show ?thesis using m(1) by (simp add: entry_id_append)
qed

lemma node_full_holds: "node_full n \<Longrightarrow> \<not> node_is_empty n \<Longrightarrow> \<exists>cs. entry_id n cs \<noteq> None"
proof (induction n rule: trie_node.induct)
  case (TrieNode t f ks)
  show ?case
  proof (cases "node_id (TrieNode t f ks)")
    case None
    then obtain c m ks' where ks: "ks = (c, m) # ks'" using TrieNode.prems
      by (cases ks) (auto simp: node_is_empty_def)
    then have "node_full m" "\<not> node_is_empty m" using TrieNode.prems(1) by auto
    then obtain cs where "entry_id m cs \<noteq> None" using TrieNode.IH[of "(c, m)" m] ks by auto
    then have "entry_id (TrieNode t f ks) (c # cs) \<noteq> None" using ks by (simp add: entry_id_Cons)
    then show ?thesis by blast
  next
    case (Some i)
    then show ?thesis by (intro exI[of _ "[]"]) simp
  qed
qed

section \<open>Lists of nodes\<close>

lemma listed_at_valid: "valid_path p \<Longrightarrow> listed_at p i = (case i of None \<Rightarrow> [] | Some i \<Rightarrow> [(p, i)])"
  using task_path_new_iff[of p p] by (auto simp: listed_at_def split: option.splits)

lemma listed_at_Nil [simp]: "listed_at [] i = []"
  by (cases i) (simp_all add: listed_at_def)

lemma listed_at_path_str:
  "list_all valid_component pc \<Longrightarrow>
   listed_at (path_str pc) i = (if pc = [] then [] else case i of None \<Rightarrow> [] | Some i \<Rightarrow> [(path_str pc, i)])"
  by (auto simp: listed_at_valid valid_path_str)

text \<open>The nodes with an id under a node, each by its component list, in list order.\<close>

fun listing :: "string list \<Rightarrow> trie_node \<Rightarrow> (string list \<times> nat) list"
  and listing_kids :: "string list \<Rightarrow> (string \<times> trie_node) list \<Rightarrow> (string list \<times> nat) list" where
  "listing pc (TrieNode t f cs) = (case opt_or t f of None \<Rightarrow> [] | Some i \<Rightarrow> [(pc, i)]) @ listing_kids pc cs"
| "listing_kids pc [] = []"
| "listing_kids pc ((c, n) # cs) = listing (pc @ [c]) n @ listing_kids pc cs"

lemma collect_listing_ne:
  "pc \<noteq> [] \<Longrightarrow> list_all valid_component pc \<Longrightarrow> node_ok n \<Longrightarrow>
     collect_nodes (path_str pc) n = map (\<lambda>(cs, i). (path_str cs, i)) (listing pc n)"
  "list_all valid_component pc \<Longrightarrow> kids_ok cs \<Longrightarrow>
     collect_children (path_str pc) cs = map (\<lambda>(cs, i). (path_str cs, i)) (listing_kids pc cs)"
  by (induction pc n and pc cs rule: listing_listing_kids.induct)
     (auto simp: listed_at_path_str join_path_str split: option.splits)

lemma collect_listing:
  assumes "list_all valid_component pc" "node_ok n" "pc \<noteq> [] \<or> node_id n = None"
  shows "collect_nodes (path_str pc) n = map (\<lambda>(cs, i). (path_str cs, i)) (listing pc n)"
proof (cases "pc = []")
  case True
  then show ?thesis using assms collect_listing_ne(2)[of "[]"]
    by (cases n) (auto simp: node_id_def opt_or_None)
qed (simp add: assms collect_listing_ne)

lemma listing_prefix:
  "(cs, i) \<in> set (listing pc n) \<Longrightarrow> prefix pc cs"
  "(cs, i) \<in> set (listing_kids pc ks) \<Longrightarrow> \<exists>c \<in> set (hm_keys ks). prefix (pc @ [c]) cs"
  by (induction pc n and pc ks rule: listing_listing_kids.induct)
     (auto split: option.splits dest: append_prefixD)

lemma set_listing:
  "node_ok n \<Longrightarrow> (cs, i) \<in> set (listing pc n) \<longleftrightarrow> (\<exists>ds. cs = pc @ ds \<and> entry_id n ds = Some i)"
  "kids_ok ks \<Longrightarrow> hm_ok ks \<Longrightarrow> (cs, i) \<in> set (listing_kids pc ks) \<longleftrightarrow>
     (\<exists>c m ds. hm_get ks c = Some m \<and> cs = pc @ c # ds \<and> entry_id m ds = Some i)"
proof (induction pc n and pc ks rule: listing_listing_kids.induct)
  case (1 pc t f ks)
  then have "(cs, i) \<in> set (listing_kids pc ks) \<longleftrightarrow> (\<exists>c ds. cs = pc @ c # ds \<and> entry_id (TrieNode t f ks) (c # ds) = Some i)"
    unfolding entry_id_Cons_Some by simp blast
  moreover have "(\<exists>ds. cs = pc @ ds \<and> entry_id (TrieNode t f ks) ds = Some i) \<longleftrightarrow>
      cs = pc \<and> opt_or t f = Some i \<or> (\<exists>c ds. cs = pc @ c # ds \<and> entry_id (TrieNode t f ks) (c # ds) = Some i)"
    by (metis append.right_neutral entry_id_Nil neq_Nil_conv node_id_def trie_node.sel(1,2))
  ultimately show ?case by (auto split: option.splits)
next
  case (3 pc c n ks)
  have no: "hm_get ks c = None" using "3.prems" by (simp add: hm_keys_image)
  have "(cs, i) \<in> set (listing_kids pc ((c, n) # ks)) \<longleftrightarrow>
      (\<exists>ds. cs = pc @ c # ds \<and> entry_id n ds = Some i) \<or>
      (\<exists>d m ds. hm_get ks d = Some m \<and> cs = pc @ d # ds \<and> entry_id m ds = Some i)"
    using 3 by (simp del: map_of_eq_Some_iff)
  also have "\<dots> \<longleftrightarrow> (\<exists>d m ds. hm_get ((c, n) # ks) d = Some m \<and> cs = pc @ d # ds \<and> entry_id m ds = Some i)"
    using no by (simp del: map_of_eq_Some_iff) (metis option.distinct(1) option.inject)
  finally show ?case .
qed simp

lemma set_listing_Nil: "node_ok n \<Longrightarrow> (cs, i) \<in> set (listing [] n) \<longleftrightarrow> entry_id n cs = Some i"
  by (simp add: set_listing)

lemma distinct_listing:
  "node_ok n \<Longrightarrow> distinct (map fst (listing pc n))"
  "kids_ok ks \<Longrightarrow> hm_ok ks \<Longrightarrow> distinct (map fst (listing_kids pc ks))"
proof (induction pc n and pc ks rule: listing_listing_kids.induct)
  case (1 pc t f ks)
  have "pc \<notin> set (map fst (listing_kids pc ks))"
  proof
    assume "pc \<in> set (map fst (listing_kids pc ks))"
    then obtain i where "(pc, i) \<in> set (listing_kids pc ks)" by auto
    then obtain c where "prefix (pc @ [c]) pc" by (blast dest: listing_prefix(2))
    then show False by (auto dest: prefix_length_le)
  qed
  then show ?case using 1 by (auto split: option.splits)
next
  case (3 pc c n ks)
  have "set (map fst (listing (pc @ [c]) n)) \<inter> set (map fst (listing_kids pc ks)) = {}"
  proof (rule ccontr)
    assume "\<not> ?thesis"
    then obtain cs where "cs \<in> set (map fst (listing (pc @ [c]) n))" "cs \<in> set (map fst (listing_kids pc ks))" by blast
    then obtain i j where "(cs, i) \<in> set (listing (pc @ [c]) n)" "(cs, j) \<in> set (listing_kids pc ks)" by auto
    then obtain d where "prefix (pc @ [c]) cs" "d \<in> set (hm_keys ks)" "prefix (pc @ [d]) cs"
      by (blast dest: listing_prefix)
    then have "c = d" by (auto simp: prefix_def)
    then show False using \<open>d \<in> set (hm_keys ks)\<close> "3.prems"(2) by simp
  qed
  then show ?case using 3 by auto
qed simp

section \<open>Making nodes\<close>

lemma make_at_new:
  "index_of (node_children n) c = None \<Longrightarrow>
   make_at path plc f (c # rest) n =
     (let kids = node_children n;
          at = (if rest \<noteq> [] then length kids else place_index path plc (kids @ [(c, empty_node)]) (length kids))
      in if at \<le> length kids
         then map_option (\<lambda>ch. set_children (insert_index at (c, ch) kids) n) (make_at path plc f rest empty_node)
         else None)"
  by (auto simp: Let_def im_move_index_last insert_index_update split: bind_splits)

lemma make_at_old:
  "index_of (node_children n) c = Some i \<Longrightarrow>
   make_at path plc f (c # rest) n =
     map_option (\<lambda>ch. set_children ((node_children n)[i := (c, ch)]) n) (make_at path plc f rest (snd (node_children n ! i)))"
  by (auto split: bind_splits)

declare make_at.simps(2) [simp del]

lemma entry_make_at:
  assumes f: "\<And>m. node_children (f m) = node_children m"
  shows "make_at path plc f cs n = Some n' \<Longrightarrow>
    entry n' ds = (if ds = cs then (let m = f (case walk n cs of None \<Rightarrow> empty_node | Some m \<Rightarrow> m) in (node_task m, node_folder m))
                   else entry n ds)"
proof (induction cs arbitrary: n n' ds)
  case Nil
  then show ?case using f by (cases ds) (auto simp: entry_Cons)
next
  case (Cons c cs)
  show ?case
  proof (cases "index_of (node_children n) c")
    case None
    then have no: "hm_get (node_children n) c = None" by (simp add: index_of_None)
    from Cons.prems None obtain at ch where
      n': "n' = set_children (insert_index at (c, ch) (node_children n)) n" and ch: "make_at path plc f cs empty_node = Some ch"
      by (auto simp: make_at_new Let_def split: if_splits)
    have IH: "entry ch es = (if es = cs then (let m = f (case walk empty_node cs of None \<Rightarrow> empty_node | Some m \<Rightarrow> m) in (node_task m, node_folder m)) else (None, None))" for es
      using Cons.IH[OF ch] by simp
    have w: "(case walk empty_node cs of None \<Rightarrow> empty_node | Some m \<Rightarrow> m) = empty_node" by auto
    show ?thesis using n' no IH w by (cases ds) (auto simp: entry_Cons hm_get_insert_index Let_def)
  next
    case (Some i)
    let ?m = "snd (node_children n ! i)"
    have yes: "hm_get (node_children n) c = Some ?m" using Some by (simp add: index_of_Some)
    from Cons.prems Some obtain ch where
      n': "n' = set_children ((node_children n)[i := (c, ch)]) n" and ch: "make_at path plc f cs ?m = Some ch"
      by (auto simp: make_at_old)
    show ?thesis using n' yes Cons.IH[OF ch] Some by (cases ds) (auto simp: entry_Cons hm_get_list_update Let_def)
  qed
qed

subsection \<open>Making nodes does not panic\<close>

text \<open>
  \<open>place_index\<close> is past the end only when the place is after the path itself, which the new
  entry makes a name beside it.
\<close>

definition place_ok :: "place \<Rightarrow> bool" where
  "place_ok plc \<longleftrightarrow> (case plc of After after \<Rightarrow> valid_or_root after | _ \<Rightarrow> True)"

lemma valid_parent_leaf_inject:
  assumes "valid_or_root a" "list_all valid_component (pre @ [c])"
    "parent_path a = parent_path (path_str (pre @ [c]))" "leaf_name a = c"
  shows "a = path_str (pre @ [c])"
proof -
  have p: "parent_path a = Some (path_str pre)" using assms(2,3) by (simp add: parent_path_str)
  then have "a \<noteq> root_path" by auto
  then obtain ds where ds: "a = path_str ds" "list_all valid_component ds" "ds \<noteq> []"
    using assms(1) by (auto simp: valid_or_root_def elim: valid_pathE)
  then obtain es e where es: "ds = es @ [e]" by (cases ds rule: rev_cases) auto
  have ve: "list_all valid_component (es @ [e])" using ds(2) es by simp
  have "path_str es = path_str pre" using p ds es parent_path_str[OF ve] by simp
  then have "es = pre" using ve assms(2) by (simp add: path_str_inject)
  moreover have "e = c" using assms(4) ds es name_path_str[OF ve] by simp
  ultimately show ?thesis using ds es by simp
qed

lemma place_index_le:
  assumes "list_all valid_component (pre @ [c])" "place_ok plc" "plc \<noteq> After (path_str (pre @ [c]))"
  shows "place_index (path_str (pre @ [c])) plc (kids @ [(c, x)]) (length kids) \<le> length kids"
proof (cases plc)
  case (After a)
  show ?thesis
  proof (cases "parent_path a = parent_path (path_str (pre @ [c])) \<and> index_of (kids @ [(c, x)]) (leaf_name a) \<noteq> None")
    case True
    then obtain i where i: "index_of (kids @ [(c, x)]) (leaf_name a) = Some i" by auto
    have "leaf_name a \<noteq> c"
    proof
      assume "leaf_name a = c"
      then have "a = path_str (pre @ [c])" using True assms After
        by (intro valid_parent_leaf_inject) (auto simp: place_ok_def)
      then show False using assms(3) After by simp
    qed
    then have "i < length kids" using index_of_Some[OF i] by (auto simp: nth_append less_Suc_eq split: if_splits)
    then show ?thesis using After True i by (simp add: place_index_def)
  next
    case False
    then show ?thesis using After by (auto simp: place_index_def)
  qed
qed (simp_all add: place_index_def)

lemma place_index_self:
  assumes "index_of kids c = None" "list_all valid_component (pre @ [c])"
  shows "place_index (path_str (pre @ [c])) (After (path_str (pre @ [c]))) (kids @ [(c, x)]) (length kids) = Suc (length kids)"
proof -
  have "index_of (kids @ [(c, x)]) c = Some (length kids)"
    using assms(1) by (induction kids c rule: index_of.induct) (auto split: if_splits)
  then show ?thesis using assms(2) name_path_str[OF assms(2)] by (simp add: place_index_def)
qed

lemma make_at_total:
  assumes "list_all valid_component (pre @ cs)" "place_ok plc"
    "plc \<noteq> After (path_str (pre @ cs)) \<or> walk n cs \<noteq> None"
  shows "\<exists>n'. make_at (path_str (pre @ cs)) plc f cs n = Some n'"
  using assms
proof (induction cs arbitrary: n pre)
  case (Cons c cs)
  have v: "list_all valid_component ((pre @ [c]) @ cs)" using Cons.prems(1) by simp
  show ?case
  proof (cases "index_of (node_children n) c")
    case None
    then have no: "hm_get (node_children n) c = None" by (simp add: index_of_None)
    then have nself: "plc \<noteq> After (path_str (pre @ c # cs))" using Cons.prems(3) by simp
    then obtain ch where ch: "make_at (path_str (pre @ c # cs)) plc f cs empty_node = Some ch"
      using Cons.IH[OF v Cons.prems(2), of empty_node] by auto
    have "(if cs \<noteq> [] then length (node_children n)
       else place_index (path_str (pre @ c # cs)) plc (node_children n @ [(c, empty_node)]) (length (node_children n)))
       \<le> length (node_children n)"
      using place_index_le[of pre c plc "node_children n" empty_node] v nself Cons.prems(2) by auto
    then show ?thesis using None ch by (auto simp: make_at_new Let_def)
  next
    case (Some i)
    let ?m = "snd (node_children n ! i)"
    have yes: "hm_get (node_children n) c = Some ?m" using Some by (simp add: index_of_Some)
    then have "plc \<noteq> After (path_str ((pre @ [c]) @ cs)) \<or> walk ?m cs \<noteq> None" using Cons.prems(3) by simp
    then obtain ch where "make_at (path_str (pre @ c # cs)) plc f cs ?m = Some ch"
      using Cons.IH[OF v Cons.prems(2), of ?m] by auto
    then show ?thesis using Some by (auto simp: make_at_old)
  qed
qed simp

text \<open>
  The converse: a new path to be listed after itself makes \<open>move_index\<close> panic.
\<close>

lemma make_at_self_panics:
  assumes "list_all valid_component (pre @ cs)" "walk n cs = None"
  shows "make_at (path_str (pre @ cs)) (After (path_str (pre @ cs))) f cs n = None"
  using assms
proof (induction cs arbitrary: n pre)
  case (Cons c cs)
  have v: "list_all valid_component ((pre @ [c]) @ cs)" using Cons.prems(1) by simp
  show ?case
  proof (cases "index_of (node_children n) c")
    case None
    show ?thesis
    proof (cases "cs = []")
      case True
      then show ?thesis using None v place_index_self[OF None, of pre empty_node]
        by (simp add: make_at_new Let_def)
    next
      case False
      then have "walk empty_node cs = None" by simp
      then show ?thesis using Cons.IH[OF v, of empty_node] None False by (simp add: make_at_new Let_def)
    qed
  next
    case (Some i)
    let ?m = "snd (node_children n ! i)"
    have "hm_get (node_children n) c = Some ?m" using Some by (simp add: index_of_Some)
    then have "walk ?m cs = None" using Cons.prems(2) by simp
    then show ?thesis using Cons.IH[OF v, of ?m] Some by (simp add: make_at_old)
  qed
qed simp

subsection \<open>Making nodes keeps the trie well-formed\<close>

lemma node_ok_set_children:
  "node_ok (set_children ks n) \<longleftrightarrow> hm_ok ks \<and> (node_task n \<noteq> None \<longrightarrow> node_folder n = None \<and> kids_vacant ks) \<and>
     (\<forall>(c, m) \<in> set ks. valid_component c \<and> node_ok m)"
  by (subst node_ok_iff) simp

lemma set_list_update_index_of:
  "index_of m k = Some i \<Longrightarrow> hm_ok m \<Longrightarrow> set (m[i := (k, v)]) = insert (k, v) {p \<in> set m. fst p \<noteq> k}"
proof (induction m k arbitrary: i rule: index_of.induct)
  case (2 l w m k)
  then show ?case by (cases "l = k") (force split: nat.splits)+
qed simp

lemma node_ok_make_at:
  assumes f: "\<And>m. node_ok m \<Longrightarrow> walk n cs = Some m \<or> walk n cs = None \<and> m = empty_node \<Longrightarrow> node_ok (f m)"
    and leaf: "\<And>ds. strict_prefix ds cs \<Longrightarrow> fst (entry n ds) = None"
  shows "node_ok n \<Longrightarrow> list_all valid_component cs \<Longrightarrow> make_at path plc f cs n = Some n' \<Longrightarrow> node_ok n'"
  using f leaf
proof (induction cs arbitrary: n n')
  case (Cons c cs)
  have nt: "node_task n = None" using Cons.prems(5)[of "[]"] by simp
  show ?case
  proof (cases "index_of (node_children n) c")
    case None
    then have no: "hm_get (node_children n) c = None" by (simp add: index_of_None)
    from Cons.prems(3) None obtain at ch where
      n': "n' = set_children (insert_index at (c, ch) (node_children n)) n" and ch: "make_at path plc f cs empty_node = Some ch"
      by (auto simp: make_at_new Let_def split: if_splits)
    have "node_ok ch"
    proof (rule Cons.IH[OF _ _ ch])
      fix m assume "node_ok m" "walk empty_node cs = Some m \<or> walk empty_node cs = None \<and> m = empty_node"
      then show "node_ok (f m)" using Cons.prems(4)[of m] no by (auto split: if_splits)
    qed (use Cons.prems in auto)
    then show ?thesis using Cons.prems n' no nt
      by (auto simp: node_ok_set_children node_ok_iff[of n] hm_ok_insert_index)
  next
    case (Some i)
    let ?m = "snd (node_children n ! i)"
    have yes: "hm_get (node_children n) c = Some ?m" using Some by (simp add: index_of_Some)
    from Cons.prems(3) Some obtain ch where
      n': "n' = set_children ((node_children n)[i := (c, ch)]) n" and ch: "make_at path plc f cs ?m = Some ch"
      by (auto simp: make_at_old)
    have "node_ok ch"
    proof (rule Cons.IH[OF _ _ ch])
      show "node_ok ?m" using Cons.prems(1) yes node_ok_child by blast
      fix m assume "node_ok m" "walk ?m cs = Some m \<or> walk ?m cs = None \<and> m = empty_node"
      then show "node_ok (f m)" using Cons.prems(4)[of m] yes by auto
    next
      fix ds assume "strict_prefix ds cs"
      then show "fst (entry ?m ds) = None" using Cons.prems(5)[of "c # ds"] yes by (simp add: entry_Cons)
    qed (use Cons.prems in auto)
    then show ?thesis using Cons.prems n' nt Some
      by (auto simp: node_ok_set_children node_ok_iff[of n] set_list_update_index_of hm_keys_list_update)
  qed
next
  case Nil
  then show ?case by (metis make_at.simps(1) option.inject walk.simps(1))
qed

lemma node_full_set_children:
  "node_full (set_children ks n) \<longleftrightarrow> (\<forall>(c, m) \<in> set ks. \<not> node_is_empty m \<and> node_full m)"
  by (subst node_full_iff) simp

lemma node_is_empty_set_children [simp]: "node_is_empty (set_children ks n) \<longleftrightarrow> node_id n = None \<and> ks = []"
  by (simp add: node_is_empty_def node_id_def)

lemma node_full_make_at:
  assumes f: "\<And>m. node_full m \<Longrightarrow> node_full (f m) \<and> \<not> node_is_empty (f m)"
  shows "node_full n \<Longrightarrow> node_ok n \<Longrightarrow> make_at path plc f cs n = Some n' \<Longrightarrow> node_full n' \<and> \<not> node_is_empty n'"
proof (induction cs arbitrary: n n')
  case Nil
  then show ?case using f by auto
next
  case (Cons c cs)
  show ?case
  proof (cases "index_of (node_children n) c")
    case None
    from Cons.prems(3) None obtain at ch where
      n': "n' = set_children (insert_index at (c, ch) (node_children n)) n" and ch: "make_at path plc f cs empty_node = Some ch"
      by (auto simp: make_at_new Let_def split: if_splits)
    have "node_full ch \<and> \<not> node_is_empty ch" using Cons.IH[OF _ _ ch] by simp
    moreover have "insert_index at (c, ch) (node_children n) \<noteq> []" by (simp add: insert_index_def)
    ultimately show ?thesis using Cons.prems(1) n'
      by (auto simp: node_full_set_children node_full_iff[of n])
  next
    case (Some i)
    let ?m = "snd (node_children n ! i)"
    have yes: "hm_get (node_children n) c = Some ?m" using Some by (simp add: index_of_Some)
    from Cons.prems(3) Some obtain ch where
      n': "n' = set_children ((node_children n)[i := (c, ch)]) n" and ch: "make_at path plc f cs ?m = Some ch"
      by (auto simp: make_at_old)
    have "node_full ch \<and> \<not> node_is_empty ch"
      using Cons.IH[OF _ _ ch] Cons.prems yes node_full_child node_ok_child by blast
    moreover have "node_children n \<noteq> []" using yes by auto
    ultimately show ?thesis using Cons.prems n' Some
      by (auto simp: node_full_set_children node_full_iff[of n] node_ok_iff[of n] set_list_update_index_of
          dest: arg_cong[of _ _ length])
  qed
qed

subsection \<open>Insertions\<close>

text \<open>A path is blocked when a task is above it, or a task or folder is at or under it.\<close>

definition task_over :: "trie_node \<Rightarrow> string list \<Rightarrow> bool" where
  "task_over t cs \<longleftrightarrow> (\<exists>ds. strict_prefix ds cs \<and> fst (entry t ds) \<noteq> None)"

definition held_under :: "trie_node \<Rightarrow> string list \<Rightarrow> bool" where
  "held_under t cs \<longleftrightarrow> (\<exists>ds. entry_id t (cs @ ds) \<noteq> None)"

lemma task_above_iff:
  assumes "list_all valid_component cs"
  shows "task_above t (path_str cs) = None \<longleftrightarrow> \<not> task_over t cs"
proof -
  have "strict_prefix ds cs \<Longrightarrow> list_all valid_component ds" for ds
    using assms by (auto simp: strict_prefix_def prefix_def)
  then have "resolve t (path_str ds) = fst (entry t ds)" if "strict_prefix ds cs" for ds
    using that by (simp add: resolve_entry)
  moreover have "task_above t (path_str cs) = None \<longleftrightarrow> (\<forall>q \<in> set (parent_paths (path_str cs)). resolve t q = None)"
    by (auto simp: task_above_def find_None_iff)
  ultimately show ?thesis unfolding task_over_def Ball_def set_parents[OF assms] by metis
qed

lemma any_node_listing:
  "pc \<noteq> [] \<Longrightarrow> list_all valid_component pc \<Longrightarrow> node_ok n \<Longrightarrow>
     any_node (path_str pc) n = (case listing pc n of [] \<Rightarrow> None | (cs, _) # _ \<Rightarrow> Some (path_str cs))"
  "list_all valid_component pc \<Longrightarrow> kids_ok ks \<Longrightarrow>
     any_child (path_str pc) ks = (case listing_kids pc ks of [] \<Rightarrow> None | (cs, _) # _ \<Rightarrow> Some (path_str cs))"
proof (induction pc n and pc ks rule: listing_listing_kids.induct)
  case (1 pc t f cs)
  then show ?case by (auto simp: task_path_new_path_str split: option.splits list.splits)
next
  case (3 pc c n cs)
  then have "join_path (path_str pc) c = path_str (pc @ [c])" by (simp add: join_path_str)
  then show ?case using 3 by (auto split: option.splits list.splits)
qed simp

lemma any_node_None:
  assumes "list_all valid_component pc" "pc \<noteq> []" "node_ok n"
  shows "any_node (path_str pc) n = None \<longleftrightarrow> (\<forall>ds. entry_id n ds = None)"
proof -
  have "any_node (path_str pc) n = None \<longleftrightarrow> set (listing pc n) = {}"
    using assms by (auto simp: any_node_listing split: list.splits)
  also have "\<dots> \<longleftrightarrow> (\<forall>ds. entry_id n ds = None)"
  proof
    assume e: "set (listing pc n) = {}"
    have "entry_id n ds \<noteq> Some i" for ds i
      using set_listing(1)[OF assms(3), of "pc @ ds" i pc] e by auto
    then show "\<forall>ds. entry_id n ds = None" by (metis not_None_eq)
  next
    assume "\<forall>ds. entry_id n ds = None"
    then have "(cs, i) \<notin> set (listing pc n)" for cs i by (simp add: set_listing(1)[OF assms(3)])
    then show "set (listing pc n) = {}" by (metis ex_in_conv surj_pair)
  qed
  finally show ?thesis .
qed

lemma held_under_walk:
  "held_under t cs \<longleftrightarrow> (\<exists>n. walk t cs = Some n \<and> (\<exists>ds. entry_id n ds \<noteq> None))"
proof (cases "walk t cs")
  case None
  then have "entry_id t (cs @ ds) = None" for ds by (simp add: entry_id_def entry_def walk_append)
  then show ?thesis using None by (simp add: held_under_def)
next
  case (Some n)
  then show ?thesis by (simp add: held_under_def entry_id_append)
qed

lemma make_outcome:
  assumes ok: "node_ok t" and v: "list_all valid_component cs" and plc: "place_ok plc"
    and nself: "plc \<noteq> After (path_str cs) \<or> walk t cs \<noteq> None"
    and over: "\<not> task_over t cs"
    and f: "\<And>m. node_children (f m) = node_children m"
      "\<And>m. node_ok m \<Longrightarrow> walk t cs = Some m \<or> walk t cs = None \<and> m = empty_node \<Longrightarrow> node_ok (f m)"
  obtains t' where "make t (path_str cs) plc f = Some t'" "node_ok t'"
    "\<And>ds. entry t' ds = (if ds = cs then (let m = f (case walk t cs of None \<Rightarrow> empty_node | Some m \<Rightarrow> m) in (node_task m, node_folder m))
                   else entry t ds)"
proof -
  obtain t' where t': "make_at (path_str cs) plc f cs t = Some t'"
    using make_at_total[of "[]" cs plc t f] v plc nself by auto
  have "node_ok t'"
    using node_ok_make_at[OF f(2) _ ok v t'] over by (auto simp: task_over_def)
  then show ?thesis using t' v f(1) that by (simp add: make_def entry_make_at)
qed

lemma trie_insert_cases:
  assumes ok: "node_ok t" and v: "list_all valid_component cs" "cs \<noteq> []" and plc: "place_ok plc"
    and nself: "plc \<noteq> After (path_str cs) \<or> walk t cs \<noteq> None"
  shows "if task_over t cs \<or> held_under t cs
    then \<exists>e. trie_insert t (path_str cs) i plc = Some (Inl e)
    else \<exists>t'. trie_insert t (path_str cs) i plc = Some (Inr t') \<and> node_ok t' \<and>
      make t (path_str cs) plc (set_task (Some i)) = Some t' \<and>
      (\<forall>ds. entry t' ds = (if ds = cs then (Some i, None) else entry t ds))"
proof (cases "task_over t cs")
  case True
  then obtain q where "task_above t (path_str cs) = Some q" using task_above_iff[OF v(1)] by (metis not_None_eq)
  then show ?thesis using True by (simp add: trie_insert_def)
next
  case False
  then have above: "task_above t (path_str cs) = None" using task_above_iff[OF v(1)] by simp
  show ?thesis
  proof (cases "held_under t cs")
    case True
    then obtain n ds where n: "walk t cs = Some n" "entry_id n ds \<noteq> None" by (auto simp: held_under_walk)
    have "node_ok n" using n(1) ok node_ok_walk by blast
    then have "any_node (path_str cs) n \<noteq> None" using any_node_None[OF v, of n] n(2) by metis
    then show ?thesis using True n v(1) above
      by (auto simp: trie_insert_def walk_to_def split: option.splits)
  next
    case False
    have target: "node_id m = None \<and> vacant m"
      if m: "node_ok m" "walk t cs = Some m \<or> walk t cs = None \<and> m = empty_node" for m
    proof -
      have "entry_id m ds = None" for ds
        using m False by (auto simp: held_under_walk entry_id_None)
      then have "vacant m" using m(1) vacant_holds by blast
      then show ?thesis by (simp add: vacant_iff node_id_def)
    qed
    have "node_ok (set_task (Some i) m)"
      if m: "node_ok m" "walk t cs = Some m \<or> walk t cs = None \<and> m = empty_node" for m
      using target[OF m] m(1) by (auto simp: vacant_iff node_ok_iff[of m] node_ok_iff[of "set_task (Some i) m"])
    then obtain t' where t': "make t (path_str cs) plc (set_task (Some i)) = Some t'" "node_ok t'"
      "\<And>ds. entry t' ds = (if ds = cs then (let m = set_task (Some i) (case walk t cs of None \<Rightarrow> empty_node | Some m \<Rightarrow> m) in (node_task m, node_folder m))
                   else entry t ds)"
      using make_outcome[OF ok v(1) plc nself \<open>\<not> task_over t cs\<close>, of "set_task (Some i)"] by auto
    have "node_folder (case walk t cs of None \<Rightarrow> empty_node | Some m \<Rightarrow> m) = None"
      using target ok node_ok_walk by (auto simp: vacant_iff split: option.splits)
    then have e: "entry t' ds = (if ds = cs then (Some i, None) else entry t ds)" for ds
      by (simp add: t'(3) Let_def)
    have "trie_insert t (path_str cs) i plc = Some (Inr t')"
    proof (cases "walk t cs")
      case None
      then show ?thesis using above v(1) t'(1) by (simp add: trie_insert_def walk_to_def)
    next
      case (Some m)
      then have "node_ok m" using ok node_ok_walk by blast
      then have "node_id m = None" "any_node (path_str cs) m = None"
        using target[of m] Some any_node_None[OF v, of m] vacant_entry_id by auto
      then show ?thesis using above v(1) t'(1) Some by (simp add: trie_insert_def walk_to_def)
    qed
    then show ?thesis using False \<open>\<not> task_over t cs\<close> t' e by auto
  qed
qed

lemma trie_insert_folder_cases:
  assumes ok: "node_ok t" and v: "list_all valid_component cs" "cs \<noteq> []" and plc: "place_ok plc"
    and nself: "plc \<noteq> After (path_str cs) \<or> walk t cs \<noteq> None"
  shows "if task_over t cs \<or> entry_id t cs \<noteq> None
    then \<exists>e. trie_insert_folder t (path_str cs) i plc = Some (Inl e)
    else \<exists>t'. trie_insert_folder t (path_str cs) i plc = Some (Inr t') \<and> node_ok t' \<and>
      make t (path_str cs) plc (set_folder (Some i)) = Some t' \<and>
      (\<forall>ds. entry t' ds = (if ds = cs then (None, Some i) else entry t ds))"
proof (cases "task_over t cs")
  case True
  then obtain q where "task_above t (path_str cs) = Some q" using task_above_iff[OF v(1)] by (metis not_None_eq)
  then show ?thesis using True by (simp add: trie_insert_folder_def)
next
  case False
  then have above: "task_above t (path_str cs) = None" using task_above_iff[OF v(1)] by simp
  have id: "Option.bind (walk_to t (path_str cs)) node_id = entry_id t cs"
    using v(1) by (auto simp: walk_to_def entry_id_def entry_def node_id_def split: option.splits)
  show ?thesis
  proof (cases "entry_id t cs")
    case None
    then have target: "node_id m = None"
      if "walk t cs = Some m \<or> walk t cs = None \<and> m = empty_node" for m
      using that by (auto simp: entry_id_def entry_def node_id_def split: option.splits)
    have "node_ok (set_folder (Some i) m)"
      if m: "node_ok m" "walk t cs = Some m \<or> walk t cs = None \<and> m = empty_node" for m
      using target[OF m(2)] m(1)
      by (auto simp: node_id_def opt_or_None node_ok_iff[of m] node_ok_iff[of "set_folder (Some i) m"])
    then obtain t' where t': "make t (path_str cs) plc (set_folder (Some i)) = Some t'" "node_ok t'"
      "\<And>ds. entry t' ds = (if ds = cs then (let m = set_folder (Some i) (case walk t cs of None \<Rightarrow> empty_node | Some m \<Rightarrow> m) in (node_task m, node_folder m))
                   else entry t ds)"
      using make_outcome[OF ok v(1) plc nself False, of "set_folder (Some i)"] by auto
    have "node_task (case walk t cs of None \<Rightarrow> empty_node | Some m \<Rightarrow> m) = None"
      using target by (auto simp: node_id_def opt_or_None split: option.splits)
    then have "entry t' ds = (if ds = cs then (None, Some i) else entry t ds)" for ds
      by (simp add: t'(3) Let_def)
    then show ?thesis using None False above id t' by (auto simp: trie_insert_folder_def)
  next
    case (Some e)
    then show ?thesis using above id by (simp add: trie_insert_folder_def)
  qed
qed

subsection \<open>Removals and pruning\<close>

lemma entry_of_empty: "node_is_empty m \<Longrightarrow> entry m ds = (None, None)"
  by (cases ds) (auto simp: node_is_empty_def node_id_def opt_or_None entry_Cons)

lemma hm_get_shift_remove [hm_simps]: "hm_ok m \<Longrightarrow> hm_get (shift_remove k m) j = (if j = k then None else hm_get m j)"
  by (simp add: shift_remove_eq_delete)

lemma prune_at_Cons:
  "node_ok n \<Longrightarrow> hm_get (node_children n) c = Some ch \<Longrightarrow>
   prune_at (c # cs) n =
     set_children (if node_is_empty (prune_at cs ch) then hm_del c (node_children n)
       else hm_put c (prune_at cs ch) (node_children n)) n"
proof -
  assume a: "node_ok n" "hm_get (node_children n) c = Some ch"
  then have ok: "hm_ok (node_children n)" by (simp add: node_ok_iff[of n])
  have "shift_remove c (hm_put c x (node_children n)) = hm_del c (node_children n)" for x
  proof -
    have "hm_del c (hm_put c x m) = hm_del c m" for m :: "(string \<times> trie_node) list"
      by (induction m) (auto simp: hm_del_def hm_put_def AList.delete_eq)
    then show ?thesis using ok by (simp add: shift_remove_eq_delete)
  qed
  then show ?thesis using a by (simp add: Let_def)
qed

lemma entry_prune_at: "node_ok n \<Longrightarrow> entry (prune_at cs n) ds = entry n ds"
proof (induction cs arbitrary: n ds)
  case (Cons c cs)
  show ?case
  proof (cases "hm_get (node_children n) c")
    case None
    then show ?thesis by simp
  next
    case (Some ch)
    then have IH: "entry (prune_at cs ch) es = entry ch es" for es
      using Cons node_ok_child by blast
    then have "node_is_empty (prune_at cs ch) \<Longrightarrow> entry ch es = (None, None)" for es
      using entry_of_empty by metis
    moreover have pr: "prune_at (c # cs) n = set_children (if node_is_empty (prune_at cs ch)
        then hm_del c (node_children n) else hm_put c (prune_at cs ch) (node_children n)) n"
      using Cons.prems Some by (rule prune_at_Cons)
    moreover have "hm_ok (node_children n)" using Cons.prems by (simp add: node_ok_iff[of n])
    ultimately show ?thesis using Some IH unfolding pr
      by (cases ds) (auto simp: entry_Cons hm_simps split: option.splits)
  qed
qed simp

lemma hm_del_subset: "set (hm_del k m) \<subseteq> set m"
  by (auto simp: hm_del_def AList.delete_eq)

lemma set_hm_put: "hm_ok m \<Longrightarrow> set (hm_put k v m) = insert (k, v) {p \<in> set m. fst p \<noteq> k}"
proof (induction m)
  case (Cons p m)
  then show ?case by (cases p) (auto simp: hm_put_def)
qed (simp add: hm_put_def)

lemma vacant_prune_at: "node_ok n \<Longrightarrow> node_ok (prune_at cs n) \<Longrightarrow> vacant n \<Longrightarrow> vacant (prune_at cs n)"
  using vacant_holds vacant_entry_id entry_prune_at by (metis entry_id_def)

lemma node_ok_prune_at: "node_ok n \<Longrightarrow> node_ok (prune_at cs n)"
proof (induction cs arbitrary: n)
  case (Cons c cs)
  show ?case
  proof (cases "hm_get (node_children n) c")
    case None
    then show ?thesis using Cons.prems by simp
  next
    case (Some ch)
    then have ch: "(c, ch) \<in> set (node_children n)" "node_ok ch" "node_ok (prune_at cs ch)" "valid_component c"
      using Cons node_ok_child map_of_SomeD by (metis, blast, blast, blast)
    let ?ks = "if node_is_empty (prune_at cs ch) then hm_del c (node_children n)
       else hm_put c (prune_at cs ch) (node_children n)"
    have ok: "hm_ok (node_children n)" using Cons.prems by (simp add: node_ok_iff[of n])
    have sub: "set ?ks \<subseteq> insert (c, prune_at cs ch) (set (node_children n))"
      using ok hm_del_subset[of c "node_children n"] by (auto simp: set_hm_put)
    have "kids_vacant ?ks" if "node_task n \<noteq> None"
    proof -
      have kv: "kids_vacant (node_children n)" using that Cons.prems by (simp add: node_ok_iff[of n])
      then have "vacant ch" using ch(1) by (auto simp: kids_vacant_iff)
      then have "vacant (prune_at cs ch)" using ch vacant_prune_at by blast
      then show ?thesis using kv sub unfolding kids_vacant_iff by blast
    qed
    moreover have "\<forall>(d, m) \<in> set ?ks. valid_component d \<and> node_ok m"
      using sub ch Cons.prems unfolding node_ok_iff[of n] by blast
    moreover have "hm_ok ?ks" using ok by simp
    ultimately have "node_ok (set_children ?ks n)"
      using Cons.prems unfolding node_ok_set_children node_ok_iff[of n] by blast
    then show ?thesis using Cons.prems Some by (simp only: prune_at_Cons)
  qed
qed simp

text \<open>Every node but those along a path is full: what \<open>prune\<close> repairs.\<close>

fun full_but :: "string list \<Rightarrow> trie_node \<Rightarrow> bool" where
  "full_but [] n = node_full n"
| "full_but (c # cs) n =
     (\<forall>(d, m) \<in> set (node_children n). if d = c then full_but cs m else \<not> node_is_empty m \<and> node_full m)"

lemma node_full_prune_at: "node_ok n \<Longrightarrow> full_but cs n \<Longrightarrow> node_full (prune_at cs n)"
proof (induction cs arbitrary: n)
  case (Cons c cs)
  have ok: "hm_ok (node_children n)" using Cons.prems(1) by (simp add: node_ok_iff[of n])
  show ?case
  proof (cases "hm_get (node_children n) c")
    case None
    then have "c \<notin> fst ` set (node_children n)" by (simp add: hm_keys_image)
    then have "(d, m) \<in> set (node_children n) \<Longrightarrow> d \<noteq> c" for d m by force
    then have "\<not> node_is_empty m \<and> node_full m" if "(d, m) \<in> set (node_children n)" for d m
      using Cons.prems(2) that by fastforce
    then have "node_full n" unfolding node_full_iff[of n] by blast
    then show ?thesis using None by simp
  next
    case (Some ch)
    then have "(c, ch) \<in> set (node_children n)" by (rule map_of_SomeD)
    then have "full_but cs ch" using Cons.prems(2) by force
    then have f: "node_full (prune_at cs ch)" using Cons Some node_ok_child by blast
    let ?ks = "if node_is_empty (prune_at cs ch) then hm_del c (node_children n)
       else hm_put c (prune_at cs ch) (node_children n)"
    have "\<not> node_is_empty m \<and> node_full m" if "(d, m) \<in> set ?ks" for d m
    proof (cases "d = c")
      case True
      then have "\<not> node_is_empty (prune_at cs ch)" "m = prune_at cs ch"
        using that ok by (auto simp: set_hm_put hm_del_def AList.delete_eq split: if_splits)
      then show ?thesis using f by simp
    next
      case False
      then have "(d, m) \<in> set (node_children n)"
        using that ok hm_del_subset[of c "node_children n"] by (auto simp: set_hm_put split: if_splits)
      then show ?thesis using False Cons.prems(2) by auto
    qed
    then have "node_full (set_children ?ks n)" unfolding node_full_set_children by blast
    then show ?thesis using Cons.prems(1) Some by (simp only: prune_at_Cons)
  qed
qed simp

lemma update_at_walk:
  "walk n cs = Some m \<Longrightarrow> f m = Some m' \<Longrightarrow> \<exists>n'. update_at cs f n = Some n' \<and> walk n' cs = Some m'"
proof (induction n cs rule: walk.induct)
  case (2 n c cs)
  then obtain ch where ch: "hm_get (node_children n) c = Some ch" "walk ch cs = Some m"
    by (auto split: option.splits)
  then obtain ch' where ch': "update_at cs f ch = Some ch'" "walk ch' cs = Some m'" using 2 by blast
  have "walk (set_children (hm_put c ch' (node_children n)) n) (c # cs) = Some m'"
    using ch'(2) by (simp add: hm_simps)
  then show ?case using ch ch' by simp
qed simp

lemma entry_update_at:
  assumes g: "\<And>m. node_children (g m) = node_children m"
  shows "walk n cs = Some m \<Longrightarrow> update_at cs (\<lambda>n. Some (g n)) n = Some n' \<Longrightarrow>
    entry n' ds = (if ds = cs then (node_task (g m), node_folder (g m)) else entry n ds)"
proof (induction cs arbitrary: n n' ds)
  case Nil
  then show ?case using g by (cases ds) (auto simp: entry_Cons)
next
  case (Cons c cs)
  then obtain ch ch' where ch: "hm_get (node_children n) c = Some ch" "walk ch cs = Some m"
    "update_at cs (\<lambda>n. Some (g n)) ch = Some ch'" "n' = set_children (hm_put c ch' (node_children n)) n"
    by (auto split: option.splits)
  note IH = Cons.IH[OF ch(2,3)]
  show ?case
  proof (cases ds)
    case (Cons d es)
    then show ?thesis using ch IH[of es] by (cases "d = c") (auto simp: entry_Cons)
  qed (simp add: ch(4))
qed

lemma node_ok_update_at:
  assumes f: "\<And>m m'. node_ok m \<Longrightarrow> f m = Some m' \<Longrightarrow> node_ok m' \<and> (vacant m \<longrightarrow> vacant m')"
  shows "node_ok n \<Longrightarrow> update_at cs f n = Some n' \<Longrightarrow> node_ok n' \<and> (vacant n \<longrightarrow> vacant n')"
proof (induction cs arbitrary: n n')
  case Nil
  then show ?case using f by simp
next
  case (Cons c cs)
  then obtain ch ch' where ch: "hm_get (node_children n) c = Some ch" "update_at cs f ch = Some ch'"
    "n' = set_children (hm_put c ch' (node_children n)) n"
    by (auto split: option.splits)
  have okch: "node_ok ch" "valid_component c" using ch(1) Cons.prems(1) node_ok_child by blast+
  then have ch': "node_ok ch'" "vacant ch \<longrightarrow> vacant ch'" using Cons.IH ch(2) by blast+
  have ok: "hm_ok (node_children n)" using Cons.prems(1) by (simp add: node_ok_iff[of n])
  have in_ks: "(c, ch) \<in> set (node_children n)" using ch(1) by (rule map_of_SomeD)
  have kv: "kids_vacant (node_children n) \<Longrightarrow> kids_vacant (hm_put c ch' (node_children n))"
    using ch'(2) in_ks ok by (auto simp: kids_vacant_iff set_hm_put)
  have "node_ok n'"
    using Cons.prems(1) ch' okch ok kv unfolding ch(3) node_ok_set_children node_ok_iff[of n]
    by (auto simp: set_hm_put)
  moreover have "vacant n \<longrightarrow> vacant n'" using kv unfolding ch(3) vacant_iff by simp
  ultimately show ?case by blast
qed

lemma full_but_update_at:
  assumes g: "\<And>m. node_children (g m) = node_children m"
  shows "node_full n \<Longrightarrow> node_ok n \<Longrightarrow> update_at cs (\<lambda>n. Some (g n)) n = Some n' \<Longrightarrow> full_but cs n'"
proof (induction cs arbitrary: n n')
  case Nil
  then show ?case using g by (auto simp: node_full_iff[of n'] node_full_iff[of n])
next
  case (Cons c cs)
  then obtain ch ch' where ch: "hm_get (node_children n) c = Some ch" "update_at cs (\<lambda>n. Some (g n)) ch = Some ch'"
    "n' = set_children (hm_put c ch' (node_children n)) n"
    by (auto split: option.splits)
  then have "full_but cs ch'" using Cons node_full_child node_ok_child by blast
  then show ?case using Cons.prems ch
    by (auto simp: node_full_iff[of n] node_ok_iff[of n] set_hm_put)
qed

lemma trie_remove_walk:
  assumes "walk t cs = Some m" "list_all valid_component cs"
  obtains t' where "update_at cs (\<lambda>n. Some (set_task None n)) t = Some t'"
    "trie_remove t (path_str cs) = (node_task m, prune_at cs t')"
proof -
  obtain t' where "update_at cs (\<lambda>n. Some (set_task None n)) t = Some t'"
    using update_at_walk[OF assms(1), of "\<lambda>n. Some (set_task None n)"] by auto
  then show ?thesis using that assms by (simp add: trie_remove_def walk_to_def prune_def)
qed

lemma trie_remove_spec:
  assumes ok: "node_ok t" and v: "list_all valid_component cs"
  shows "fst (trie_remove t (path_str cs)) = fst (entry t cs)"
    and "entry (snd (trie_remove t (path_str cs))) ds = (if ds = cs then (None, snd (entry t cs)) else entry t ds)"
    and "node_ok (snd (trie_remove t (path_str cs)))"
    and "node_full t \<Longrightarrow> node_full (snd (trie_remove t (path_str cs)))"
proof -
  have "fst (trie_remove t (path_str cs)) = fst (entry t cs) \<and>
     entry (snd (trie_remove t (path_str cs))) ds = (if ds = cs then (None, snd (entry t cs)) else entry t ds) \<and>
     node_ok (snd (trie_remove t (path_str cs))) \<and> (node_full t \<longrightarrow> node_full (snd (trie_remove t (path_str cs))))"
  proof (cases "walk t cs")
    case None
    then show ?thesis using v ok by (auto simp: trie_remove_def walk_to_def entry_def)
  next
    case (Some m)
    then obtain t' where t': "update_at cs (\<lambda>n. Some (set_task None n)) t = Some t'"
      "trie_remove t (path_str cs) = (node_task m, prune_at cs t')" using v by (rule trie_remove_walk)
    have keep: "node_ok m' \<and> (vacant m \<longrightarrow> vacant m')" if "node_ok m" "Some (set_task None m) = Some m'" for m m'
      using that by (cases m) auto
    have ok': "node_ok t'" using node_ok_update_at[OF keep ok t'(1)] by blast
    moreover have "node_full t \<Longrightarrow> full_but cs t'" using full_but_update_at[OF _ _ ok t'(1)] by simp
    moreover have "entry t' ds = (if ds = cs then (None, node_folder m) else entry t ds)" for ds
      using entry_update_at[OF _ Some t'(1), of ds] by simp
    moreover have "entry t cs = (node_task m, node_folder m)" using Some by (simp add: entry_def)
    ultimately show ?thesis using t'(2) by (auto simp: entry_prune_at node_ok_prune_at node_full_prune_at)
  qed
  then show "fst (trie_remove t (path_str cs)) = fst (entry t cs)"
    "entry (snd (trie_remove t (path_str cs))) ds = (if ds = cs then (None, snd (entry t cs)) else entry t ds)"
    "node_ok (snd (trie_remove t (path_str cs)))"
    "node_full t \<Longrightarrow> node_full (snd (trie_remove t (path_str cs)))" by blast+
qed

end
