(* ===== verification/Trie_Order.thy ===== *)
theory Trie_Order
  imports Path_Trie
begin

text \<open>
  What the reads of the path index (\<open>src/src/kernel/path_trie.rs\<close>) promise: \<open>before\<close> and
  \<open>position\<close> follow the list order, a glob finds the matching tasks and no others, sorted;
  and what its updates do to the map from paths to tasks and folders.
\<close>

section \<open>List order\<close>

definition last_id :: "('a \<times> nat) list \<Rightarrow> nat option" where
  "last_id xs = (if xs = [] then None else Some (snd (last xs)))"

lemma last_id_append: "last_id (xs @ ys) = opt_or (last_id ys) (last_id xs)"
  by (simp add: last_id_def)

lemma last_id_simps [simp]: "last_id [] = None" "last_id [x] = Some (snd x)"
  by (simp_all add: last_id_def)

lemma vacant_listing: "vacant n \<Longrightarrow> listing pc n = []" "kids_vacant ks \<Longrightarrow> listing_kids pc ks = []"
  by (induction pc n and pc ks rule: listing_listing_kids.induct) auto

lemma last_node_listing:
  "node_ok n \<Longrightarrow> last_node n = last_id (listing pc n)"
  "kids_ok ks \<Longrightarrow> last_child ks = last_id (listing_kids pc ks)"
proof (induction pc n and pc ks rule: listing_listing_kids.induct)
  case (1 pc t f ks)
  then show ?case
    by (cases t) (auto simp: last_id_append vacant_listing split: option.splits)
qed (auto simp: last_id_append)

lemma listing_kids_append: "listing_kids pc (ks @ ls) = listing_kids pc ks @ listing_kids pc ls"
  by (induction ks) auto

lemma listing_node:
  "listing pc n = (case node_id n of None \<Rightarrow> [] | Some i \<Rightarrow> [(pc, i)]) @ listing_kids pc (node_children n)"
  by (cases n) (simp add: node_id_def)

lemma kids_split: "i < length ks \<Longrightarrow> ks = take i ks @ ks ! i # drop (Suc i) ks"
  by (rule id_take_nth_drop)

lemma kids_ok_node: "node_ok n \<Longrightarrow> kids_ok (node_children n)"
  by (cases n) simp

lemma kids_ok_take: "kids_ok ks \<Longrightarrow> kids_ok (take i ks)"
  by (auto simp: kids_ok_iff dest: in_set_takeD)

lemma task_over_Cons:
  "hm_get (node_children n) c = Some m \<Longrightarrow> task_over n (c # cs) \<longleftrightarrow> node_task n \<noteq> None \<or> task_over m cs"
proof
  assume m: "hm_get (node_children n) c = Some m"
  {
    assume "task_over n (c # cs)"
    then obtain ds where "strict_prefix ds (c # cs)" "fst (entry n ds) \<noteq> None" by (auto simp: task_over_def)
    then show "node_task n \<noteq> None \<or> task_over m cs" using m by (cases ds) (auto simp: task_over_def entry_Cons)
  next
    assume "node_task n \<noteq> None \<or> task_over m cs"
    then consider "node_task n \<noteq> None" | ds where "strict_prefix ds cs" "fst (entry m ds) \<noteq> None"
      by (auto simp: task_over_def)
    then show "task_over n (c # cs)"
    proof cases
      case 1
      then show ?thesis unfolding task_over_def by (intro exI[of _ "[]"]) simp
    next
      case 2
      then show ?thesis unfolding task_over_def using m by (intro exI[of _ "c # ds"]) (simp add: entry_Cons)
    qed
  }
qed

lemma before_at_listing:
  "node_ok n \<Longrightarrow> walk n cs = Some m \<Longrightarrow> \<not> task_over n cs \<Longrightarrow>
   \<exists>xs ys. listing pc n = xs @ listing (pc @ cs) m @ ys \<and> before_at b cs n = opt_or (last_id xs) b"
proof (induction b cs n arbitrary: pc rule: before_at.induct)
  case (1 b n)
  then show ?case by (intro exI[of _ "[]"]) auto
next
  case (2 b c cs n)
  then obtain k where k: "hm_get (node_children n) c = Some k" "walk k cs = Some m"
    by (auto split: option.splits)
  then obtain i where i: "index_of (node_children n) c = Some i"
    using index_of_None[of "node_children n" c] by auto
  let ?ks = "node_children n"
  have at: "i < length ?ks" "fst (?ks ! i) = c" "snd (?ks ! i) = k" using index_of_Some[OF i] k by auto
  have at_eq: "?ks ! i = (c, k)" using at(2,3) by (metis prod.collapse)
  have "node_task n = None" "\<not> task_over k cs" using 2(4) task_over_Cons[OF k(1)] by auto
  then have nid: "node_id n = node_folder n" by (simp add: node_id_def)
  let ?b = "opt_or (opt_or (last_child (take i ?ks)) (node_folder n)) b"
  obtain xs ys where IH: "listing (pc @ [c]) k = xs @ listing ((pc @ [c]) @ cs) m @ ys"
    "before_at ?b cs k = opt_or (last_id xs) ?b"
    using 2(1)[OF i, of "pc @ [c]"] at(3) node_ok_child[OF 2(2) k(1)] k(2) \<open>\<not> task_over k cs\<close> by auto
  let ?us = "(case node_id n of None \<Rightarrow> [] | Some i \<Rightarrow> [(pc, i)]) @ listing_kids pc (take i ?ks)"
  have "listing pc n = ?us @ listing (pc @ [c]) k @ listing_kids pc (drop (Suc i) ?ks)"
    using arg_cong[OF kids_split[OF at(1)], of "listing_kids pc"] at_eq
    by (simp add: listing_node[of pc n] listing_kids_append)
  then have "listing pc n = (?us @ xs) @ listing (pc @ c # cs) m @ (ys @ listing_kids pc (drop (Suc i) ?ks))"
    using IH(1) by simp
  moreover have "last_child (take i ?ks) = last_id (listing_kids pc (take i ?ks))"
    using last_node_listing(2) kids_ok_take kids_ok_node 2(2) by blast
  moreover have "before_at b (c # cs) n = opt_or (last_id (?us @ xs)) b"
    using i at(3) IH(2) nid calculation(2)
    by (auto simp: last_id_append opt_or_def split: option.splits)
  ultimately show ?case by blast
qed

text \<open>Positions: the listing is in their order.\<close>

lemma position_at_walk: "position_at cs n = None \<longleftrightarrow> walk n cs = None"
proof (induction cs n rule: position_at.induct)
  case (2 c cs n)
  show ?case
  proof (cases "index_of (node_children n) c")
    case None
    then show ?thesis using index_of_None[of "node_children n" c] by simp
  next
    case (Some i)
    then show ?thesis using 2 index_of_Some[OF Some] by simp
  qed
qed simp

definition position_less :: "trie_node \<Rightarrow> string list \<Rightarrow> string list \<Rightarrow> bool" where
  "position_less n cs ds = (\<exists>a b. position_at cs n = Some a \<and> position_at ds n = Some b \<and> a < b)"

lemma index_of_middle:
  "hm_ok (pre @ (c, m) # ks) \<Longrightarrow> index_of (pre @ (c, m) # ks) c = Some (length pre)"
  by (rule index_of_eq) auto

lemma position_at_Cons:
  assumes "hm_ok (node_children n)" "node_children n = pre @ (c, m) # ks"
  shows "position_at (c # ds) n = map_option ((#) (length pre)) (position_at ds m)"
  using assms index_of_middle[of pre c m ks] by simp

lemma listing_kids_head:
  "(cs, i) \<in> set (listing_kids pc ks) \<Longrightarrow> kids_ok ks \<Longrightarrow> hm_ok ks \<Longrightarrow>
   \<exists>us c m vs ds. ks = us @ (c, m) # vs \<and> cs = pc @ c # ds \<and> walk m ds \<noteq> None"
proof -
  assume "(cs, i) \<in> set (listing_kids pc ks)" "kids_ok ks" "hm_ok ks"
  then obtain c m ds where "hm_get ks c = Some m" "cs = pc @ c # ds" "entry_id m ds = Some i"
    using set_listing(2) by blast
  moreover then obtain us vs where "ks = us @ (c, m) # vs" by (metis map_of_SomeD split_list)
  moreover have "walk m ds \<noteq> None" using entry_id_walk calculation(3) by blast
  ultimately show ?thesis by blast
qed

lemma listing_sorted:
  "node_ok n \<Longrightarrow> sorted_wrt (\<lambda>a b. position_less n (drop (length pc) (fst a)) (drop (length pc) (fst b))) (listing pc n)"
  "node_ok n' \<Longrightarrow> node_children n' = pre @ ks \<Longrightarrow>
   sorted_wrt (\<lambda>a b. position_less n' (drop (length pc) (fst a)) (drop (length pc) (fst b))) (listing_kids pc ks)"
proof (induction pc n and pc ks arbitrary: and n' pre rule: listing_listing_kids.induct)
  case (1 pc t f ks)
  let ?n = "TrieNode t f ks"
  have "position_less ?n [] (drop (length pc) cs)" if mem: "(cs, i) \<in> set (listing_kids pc ks)" for cs i
  proof -
    obtain us c m vs ds where "ks = us @ (c, m) # vs" "cs = pc @ c # ds" "walk m ds \<noteq> None"
      using listing_kids_head[OF mem] 1(2) by auto
    then show ?thesis using 1(2) position_at_Cons[of ?n us c m vs ds] position_at_walk[of ds m]
      by (auto simp: position_less_def)
  qed
  then show ?case using 1(1)[of ?n "[]"] 1(2) by (auto simp: sorted_wrt_append split: option.splits)
next
  case (2 pc)
  then show ?case by simp
next
  case (3 pc c m ks)
  have ok: "hm_ok (node_children n')" "kids_ok ((c, m) # ks)" "node_ok m" "hm_ok ((c, m) # ks)"
    using 3(3,4) by (auto simp: node_ok_iff[of n'] kids_ok_iff)
  have pos: "position_at (d # ds) n' = map_option ((#) (length pre + length us)) (position_at ds k)"
    if "(c, m) # ks = us @ (d, k) # vs" for us d k vs ds
    using position_at_Cons[of n' "pre @ us" d k vs ds] ok(1) that 3(4) by simp
  have inner: "sorted_wrt (\<lambda>a b. position_less n' (drop (length pc) (fst a)) (drop (length pc) (fst b))) (listing (pc @ [c]) m)"
  proof (rule sorted_wrt_mono_rel[OF _ 3(1)[OF ok(3)]])
    fix a b
    assume ab: "a \<in> set (listing (pc @ [c]) m)" "b \<in> set (listing (pc @ [c]) m)"
      "position_less m (drop (length (pc @ [c])) (fst a)) (drop (length (pc @ [c])) (fst b))"
    obtain as bs where "fst a = pc @ c # as" "fst b = pc @ c # bs"
      using ab(1,2) listing_prefix(1)[of "fst a" "snd a" "pc @ [c]" m] listing_prefix(1)[of "fst b" "snd b" "pc @ [c]" m]
      by (auto simp: prefix_def)
    then show "position_less n' (drop (length pc) (fst a)) (drop (length pc) (fst b))"
      using ab(3) pos[of "[]" c m ks] by (auto simp: position_less_def)
  qed
  have across: "position_less n' (drop (length pc) cs) (drop (length pc) ds)"
    if cs: "(cs, i) \<in> set (listing (pc @ [c]) m)" and ds: "(ds, j) \<in> set (listing_kids pc ks)" for cs ds i j
  proof -
    obtain as where as: "cs = pc @ c # as" "walk m as \<noteq> None"
      using cs set_listing(1)[OF ok(3)] entry_id_walk by fastforce
    obtain us d k vs bs where bs: "ks = us @ (d, k) # vs" "ds = pc @ d # bs" "walk k bs \<noteq> None"
      using listing_kids_head[OF ds] ok by auto
    show ?thesis using as bs pos[of "[]" c m ks as] pos[of "(c, m) # us" d k vs bs]
        position_at_walk[of as m] position_at_walk[of bs k]
      by (auto simp: position_less_def)
  qed
  have "sorted_wrt (\<lambda>a b. position_less n' (drop (length pc) (fst a)) (drop (length pc) (fst b))) (listing_kids pc ks)"
    using 3(2)[OF 3(3), of "pre @ [(c, m)]"] 3(4) by simp
  then show ?case using inner across by (auto simp: sorted_wrt_append)
qed

section \<open>Globs\<close>

text \<open>The meaning of a pattern: \<open>*\<close> is one name, \<open>**\<close> any number of names, also none.\<close>

fun glob_match :: "string list \<Rightarrow> string list \<Rightarrow> bool" where
  "glob_match [] cs = (cs = [])"
| "glob_match (pat # rest) [] = (pat = ''**'' \<and> glob_match rest [])"
| "glob_match (pat # rest) (c # cs) =
     (if pat = ''**'' then glob_match rest (c # cs) \<or> glob_match (pat # rest) cs
      else (pat = ''*'' \<or> pat = c) \<and> glob_match rest cs)"

definition glob_hit :: "bool \<Rightarrow> trie_node \<Rightarrow> string list \<Rightarrow> string list \<Rightarrow> nat option \<Rightarrow> bool" where
  "glob_hit groups n pattern ds i =
     (\<exists>m. walk n ds = Some m \<and> i = node_task m \<and> (groups \<or> i \<noteq> None) \<and> glob_match pattern ds)"

lemma glob_hit_Cons:
  "glob_hit groups n (pat # rest) (d # ds) i \<longleftrightarrow>
     pat = ''**'' \<and> glob_hit groups n rest (d # ds) i \<or>
     (\<exists>m. hm_get (node_children n) d = Some m \<and>
        (if pat = ''**'' then glob_hit groups m (pat # rest) ds i
         else (pat = ''*'' \<or> pat = d) \<and> glob_hit groups m rest ds i))"
  by (auto simp: glob_hit_def split: option.splits)

lemma star_not_component: "\<not> valid_component (CHR ''*'' # s)"
  by (simp add: valid_component_def is_valid_component_char_def)

lemma glob_walk_end:
  assumes "list_all valid_component pc"
  shows "glob_walk (path_str pc) [] groups (TrieNode t f ks) =
    (if pc \<noteq> [] \<and> (groups \<or> t \<noteq> None) then [(path_str pc, t)] else [])"
  using task_path_new_path_str[OF assms] by (cases "pc = []") simp_all

lemma glob_walk_hits:
  "list_all valid_component pc \<Longrightarrow> node_ok n \<Longrightarrow>
   (q, i) \<in> set (glob_walk (path_str pc) pattern groups n) \<longleftrightarrow>
     (\<exists>ds. pc @ ds \<noteq> [] \<and> q = path_str (pc @ ds) \<and> glob_hit groups n pattern ds i)"
  "list_all valid_component pc \<Longrightarrow> kids_ok ks \<Longrightarrow> hm_ok ks \<Longrightarrow>
   (q, i) \<in> set (glob_children (path_str pc) pattern groups ks) \<longleftrightarrow>
     (\<exists>c m ds. hm_get ks c = Some m \<and> q = path_str (pc @ c # ds) \<and> glob_hit groups m pattern ds i)"
  "list_all valid_component pc \<Longrightarrow> kids_ok ks \<Longrightarrow> hm_ok ks \<Longrightarrow>
   (q, i) \<in> set (glob_literal (path_str pc) pat rest groups ks) \<longleftrightarrow>
     (\<exists>m ds. hm_get ks pat = Some m \<and> q = path_str (pc @ pat # ds) \<and> glob_hit groups m rest ds i)"
proof (induction "path_str pc" pattern groups n and "path_str pc" pattern groups ks and "path_str pc" pat rest groups ks
    arbitrary: pc and pc and pc rule: glob_walk_glob_children_glob_literal.induct)
  case (1 groups t f ks)
  show ?case unfolding glob_walk_end[OF 1(1)] by (auto simp: glob_hit_def intro: exI[of _ "[]"])
next
  case (2 pat rest groups t f ks)
  have kids: "kids_ok ks" "hm_ok ks" using 2 by auto
  have eps: "glob_hit groups (TrieNode t f ks) (pat # rest) [] i \<longleftrightarrow>
      pat = ''**'' \<and> glob_hit groups (TrieNode t f ks) rest [] i"
    by (auto simp: glob_hit_def)
  have ex: "(\<exists>ds. P ds) \<longleftrightarrow> P [] \<or> (\<exists>d ds. P (d # ds))" for P :: "string list \<Rightarrow> bool"
    by (metis list.exhaust)
  show ?case
  proof (cases "pat = ''**''")
    case True
    note IH = 2(1)[OF True refl 2(5,6)] 2(2)[OF True refl 2(5) kids]
    have either: "(q, i) \<in> set (glob_walk (path_str pc) (pat # rest) groups (TrieNode t f ks)) \<longleftrightarrow>
        (\<exists>ds. pc @ ds \<noteq> [] \<and> q = path_str (pc @ ds) \<and> glob_hit groups (TrieNode t f ks) rest ds i) \<or>
        (\<exists>c m ds. hm_get ks c = Some m \<and> q = path_str (pc @ c # ds) \<and> glob_hit groups m (pat # rest) ds i)"
      using True IH by simp
    have hit: "glob_hit groups (TrieNode t f ks) (pat # rest) ds i \<longleftrightarrow>
        glob_hit groups (TrieNode t f ks) rest ds i \<or>
        (\<exists>c m es. ds = c # es \<and> hm_get ks c = Some m \<and> glob_hit groups m (pat # rest) es i)" for ds
      using True eps by (cases ds) (simp_all add: glob_hit_Cons)
    show ?thesis unfolding either hit
    proof (rule iffI; elim disjE exE conjE)
      fix c m ds
      assume "hm_get ks c = Some m" "q = path_str (pc @ c # ds)" "glob_hit groups m (pat # rest) ds i"
      then show "\<exists>ds. pc @ ds \<noteq> [] \<and> q = path_str (pc @ ds) \<and> (glob_hit groups (TrieNode t f ks) rest ds i \<or>
          (\<exists>c m es. ds = c # es \<and> hm_get ks c = Some m \<and> glob_hit groups m (pat # rest) es i))"
        by (intro exI[of _ "c # ds"]) auto
    qed blast+
  next
    case False
    have hit: "glob_hit groups (TrieNode t f ks) (pat # rest) ds i \<longleftrightarrow>
        (\<exists>c m es. ds = c # es \<and> hm_get ks c = Some m \<and> (pat = ''*'' \<or> pat = c) \<and> glob_hit groups m rest es i)" for ds
      using False eps by (cases ds) (auto simp: glob_hit_Cons)
    have either: "(q, i) \<in> set (glob_walk (path_str pc) (pat # rest) groups (TrieNode t f ks)) \<longleftrightarrow>
        (\<exists>c m ds. hm_get ks c = Some m \<and> (pat = ''*'' \<or> pat = c) \<and> q = path_str (pc @ c # ds) \<and> glob_hit groups m rest ds i)"
      using False 2(3)[OF False _ refl 2(5) kids] 2(4)[OF False _ refl 2(5) kids] by (cases "pat = ''*''") simp_all
    show ?thesis unfolding either hit by (simp only: append_is_Nil_conv) blast
  qed
next
  case (4 pattern groups c n ks)
  then have v: "list_all valid_component (pc @ [c])" by simp
  then have j: "join_path (path_str pc) c = path_str (pc @ [c])" by (rule join_path_str)
  have "c \<notin> set (hm_keys ks)" using 4 by auto
  then have "hm_get ks c = None" using hm_keys_get[of c ks] by blast
  have IH: "(q, i) \<in> set (glob_walk (path_str (pc @ [c])) pattern groups n) \<longleftrightarrow>
      (\<exists>ds. q = path_str (pc @ c # ds) \<and> glob_hit groups n pattern ds i)"
    "(q, i) \<in> set (glob_children (path_str pc) pattern groups ks) \<longleftrightarrow>
      (\<exists>c m ds. hm_get ks c = Some m \<and> q = path_str (pc @ c # ds) \<and> glob_hit groups m pattern ds i)"
    using 4(1)[OF j v] 4(2)[OF refl 4(3)] 4(4,5) unfolding j by simp_all
  have get: "hm_get ((c, n) # ks) d = Some m \<longleftrightarrow> d = c \<and> m = n \<or> hm_get ks d = Some m" for d m
    using \<open>hm_get ks c = None\<close> by auto
  have "(q, i) \<in> set (glob_children (path_str pc) pattern groups ((c, n) # ks)) \<longleftrightarrow>
      (\<exists>ds. q = path_str (pc @ c # ds) \<and> glob_hit groups n pattern ds i) \<or>
      (\<exists>c m ds. hm_get ks c = Some m \<and> q = path_str (pc @ c # ds) \<and> glob_hit groups m pattern ds i)"
    using IH j by simp
  then show ?case unfolding get by blast
next
  case (6 pat rest groups c n ks)
  then show ?case using join_path_str[of pc c] by (auto split: if_splits)
qed auto

lemma set_remdups_adj_eq: "x \<in> set (glob_sorted t pattern groups) \<longleftrightarrow> x \<in> set (glob_walk [] (components pattern) groups t)"
  by (simp add: glob_sorted_def)

lemma glob_walk_root:
  "node_ok t \<Longrightarrow> (q, i) \<in> set (glob_walk [] pattern groups t) \<longleftrightarrow>
     valid_path q \<and> glob_hit groups t pattern (components q) i"
proof -
  assume ok: "node_ok t"
  have "(q, i) \<in> set (glob_walk [] pattern groups t) \<longleftrightarrow>
     (\<exists>ds. ds \<noteq> [] \<and> q = path_str ds \<and> glob_hit groups t pattern ds i)"
    using glob_walk_hits(1)[of "[]" t q i pattern groups] ok by simp
  moreover have "glob_hit groups t pattern ds i \<Longrightarrow> list_all valid_component ds" for ds
    using node_ok_walk[OF ok] by (auto simp: glob_hit_def)
  ultimately show ?thesis by (metis components_path_str valid_pathE valid_path_str)
qed

lemma glob_sorted_strict:
  assumes "node_ok t"
  shows "sorted_wrt (<) (map (\<lambda>(p, i). (components p, i)) (glob_sorted t pattern groups))"
proof -
  have val: "valid_or_root p" if "(p, i) \<in> set (glob_walk [] (components pattern) groups t)" for p i
    using that glob_walk_root[OF assms] valid_path_or_root by blast
  have "inj_on (\<lambda>(p, i). (components p, i)) (set (glob_walk [] (components pattern) groups t))"
  proof (rule inj_onI)
    fix x y
    assume "x \<in> set (glob_walk [] (components pattern) groups t)"
      "y \<in> set (glob_walk [] (components pattern) groups t)"
      "(\<lambda>(p, i). (components p, i)) x = (\<lambda>(p, i). (components p, i)) y"
    moreover obtain p i q j where "x = (p, i)" "y = (q, j)" by (cases x; cases y)
    ultimately show "x = y" using val components_inject by simp
  qed
  then show ?thesis unfolding glob_sorted_def by (intro sorted_remdups_strict) (simp_all add: sorted_sort_key)
qed

lemma glob_sorted_paths:
  assumes "node_ok t"
  shows "sorted_wrt (<) (map (\<lambda>p. components (fst p)) (glob_sorted t pattern groups))"
proof -
  have fun_of: "i = (case walk t (components p) of Some m \<Rightarrow> node_task m)"
    if "(p, i) \<in> set (glob_sorted t pattern groups)" for p i
    using that glob_walk_root[OF assms] by (auto simp: set_remdups_adj_eq glob_hit_def)
  have "sorted_wrt (\<lambda>a b. (components (fst a), snd a) < (components (fst b), snd b)) (glob_sorted t pattern groups)"
    using glob_sorted_strict[OF assms] by (simp add: sorted_wrt_map case_prod_unfold)
  then have "sorted_wrt (\<lambda>a b. components (fst a) < components (fst b)) (glob_sorted t pattern groups)"
  proof (rule sorted_wrt_mono_rel[rotated])
    fix a b
    assume "a \<in> set (glob_sorted t pattern groups)" "b \<in> set (glob_sorted t pattern groups)"
      "(components (fst a), snd a) < (components (fst b), snd b)"
    then show "components (fst a) < components (fst b)"
      using fun_of[of "fst a" "snd a"] fun_of[of "fst b" "snd b"] by (auto simp: less_prod_def')
  qed
  then show ?thesis by (simp add: sorted_wrt_map)
qed

section \<open>What the index promises\<close>

lemma task_above_Some:
  assumes "list_all valid_component cs" "task_above t (path_str cs) = Some q"
  shows "\<exists>ds. q = path_str ds \<and> strict_prefix ds cs \<and> fst (entry t ds) \<noteq> None"
proof -
  have "q \<in> set (parent_paths (path_str cs))" "resolve t q \<noteq> None"
    using assms(2) by (auto simp: task_above_def find_Some_iff)
  moreover then obtain ds where "strict_prefix ds cs" "q = path_str ds" using set_parents[OF assms(1)] by blast
  moreover have "list_all valid_component ds"
    using assms(1) calculation(3) by (auto simp: strict_prefix_def prefix_def)
  ultimately show ?thesis by (auto simp: resolve_entry)
qed

definition conflict_ok :: "path_trie \<Rightarrow> string list \<Rightarrow> path_conflict \<Rightarrow> bool" where
  "conflict_ok t cs e =
     (case e of
        Taken j \<Rightarrow> entry_id t cs = Some j
      | Nested q \<Rightarrow> (\<exists>ds. q = path_str ds \<and>
          (strict_prefix ds cs \<and> fst (entry t ds) \<noteq> None \<or> strict_prefix cs ds \<and> entry_id t ds \<noteq> None)))"

lemma trie_insert_conflict:
  assumes "node_ok t" "list_all valid_component cs" "cs \<noteq> []" "trie_insert t (path_str cs) i plc = Some (Inl e)"
  shows "conflict_ok t cs e"
proof (cases "task_above t (path_str cs)")
  case (Some q)
  then have "e = Nested q" using assms(4) by (simp add: trie_insert_def Let_def)
  then show ?thesis using task_above_Some[OF assms(2) Some] by (auto simp: conflict_ok_def)
next
  case None
  then obtain m where m: "walk t cs = Some m"
    using assms by (auto simp: trie_insert_def walk_to_def Let_def split: option.splits)
  have ok: "node_ok m" using node_ok_walk[OF assms(1) m] by simp
  have id: "entry_id t cs = node_id m" using m by (simp add: entry_id_def entry_def node_id_def)
  show ?thesis
  proof (cases "node_id m")
    case (Some j)
    then show ?thesis using None m assms(2,4) id by (auto simp: trie_insert_def walk_to_def conflict_ok_def)
  next
    case nid: None
    then obtain q where "any_node (path_str cs) m = Some q" "e = Nested q"
      using None m assms(2,4) by (auto simp: trie_insert_def walk_to_def split: option.splits)
    moreover then obtain ds j rest where l: "listing cs m = (ds, j) # rest" "q = path_str ds"
      using any_node_listing(1)[OF assms(3,2) ok] by (auto split: list.splits)
    moreover obtain es where es: "ds = cs @ es" "entry_id m es = Some j"
      using set_listing(1)[OF ok, of ds j cs] l(1) by auto
    moreover have "es \<noteq> []" using es nid by auto
    ultimately have "e = Nested (path_str ds)" "strict_prefix cs ds" "entry_id t ds \<noteq> None"
      using entry_id_append[OF m, of es] by (auto simp: strict_prefix_def)
    then show ?thesis by (auto simp: conflict_ok_def)
  qed
qed

text \<open>
  C13. \<open>PathTrie::insert\<close> never panics unless the place is the new path itself; it refuses
  exactly when a task is above the path or a task or folder is at or under it, naming such an
  entry, and otherwise changes the map from paths to entries at that path only and keeps the
  trie well-formed.
\<close>

theorem insert_outcome:
  assumes "node_ok t" "valid_path p" "place_ok plc" "plc \<noteq> After p \<or> walk_to t p \<noteq> None"
  shows "case trie_insert t p i plc of
      None \<Rightarrow> False
    | Some (Inl e) \<Rightarrow> (task_over t (components p) \<or> held_under t (components p)) \<and> conflict_ok t (components p) e
    | Some (Inr t') \<Rightarrow> \<not> task_over t (components p) \<and> \<not> held_under t (components p) \<and> node_ok t' \<and>
        (\<forall>cs. entry t' cs = (if cs = components p then (Some i, None) else entry t cs))"
proof -
  obtain cs where cs: "p = path_str cs" "list_all valid_component cs" "cs \<noteq> []" using assms(2) by (rule valid_pathE)
  have "plc \<noteq> After (path_str cs) \<or> walk t cs \<noteq> None" using assms(4) cs by (simp add: walk_to_def)
  from trie_insert_cases[OF assms(1) cs(2,3) assms(3) this, of i] trie_insert_conflict[OF assms(1) cs(2,3), of i plc]
  show ?thesis using cs(1,2) by (auto split: if_splits)
qed

theorem insert_outcome_witness:
  "case trie_insert trie_new ''a/b'' 7 First of
      None \<Rightarrow> False
    | Some (Inl e) \<Rightarrow> (task_over trie_new (components ''a/b'') \<or> held_under trie_new (components ''a/b'')) \<and>
        conflict_ok trie_new (components ''a/b'') e
    | Some (Inr t') \<Rightarrow> \<not> task_over trie_new (components ''a/b'') \<and> \<not> held_under trie_new (components ''a/b'') \<and> node_ok t' \<and>
        (\<forall>cs. entry t' cs = (if cs = components ''a/b'' then (Some 7, None) else entry trie_new cs))"
proof (rule insert_outcome)
  show "node_ok trie_new" "place_ok First" by (simp_all add: trie_new_def place_ok_def)
  show "valid_path ''a/b''" by code_simp
qed simp

text \<open>
  C37. A task that is inserted can be removed again: \<open>PathTrie::remove\<close> returns its id, and the
  map from paths to entries, the well-formedness and the absence of empty nodes are as before
  the insertion.
\<close>

theorem insert_remove:
  assumes "node_ok t" "valid_path p" "place_ok plc" "trie_insert t p i plc = Some (Inr t')"
  shows "fst (trie_remove t' p) = Some i \<and> node_ok (snd (trie_remove t' p)) \<and>
    (\<forall>cs. entry (snd (trie_remove t' p)) cs = entry t cs) \<and>
    (node_full t' \<longrightarrow> node_full (snd (trie_remove t' p)))"
proof -
  obtain cs where cs: "p = path_str cs" "list_all valid_component cs" "cs \<noteq> []" using assms(2) by (rule valid_pathE)
  have nself: "plc \<noteq> After (path_str cs) \<or> walk t cs \<noteq> None"
  proof (rule ccontr)
    assume "\<not> ?thesis"
    then have "make t p plc (set_task (Some i)) = None" "walk_to t p = None"
      using make_at_self_panics[of "[]" cs t] cs by (simp_all add: make_def walk_to_def)
    then show False using assms(4) by (auto simp: trie_insert_def split: option.splits)
  qed
  have new: "node_ok t'" "\<And>ds. entry t' ds = (if ds = cs then (Some i, None) else entry t ds)" "\<not> held_under t cs"
    using trie_insert_cases[OF assms(1) cs(2,3) assms(3) nself, of i] assms(4) cs(1) by (auto split: if_splits)
  have "entry_id t cs = None" using new(3) unfolding held_under_def by (metis append_Nil2)
  then have "entry t cs = (None, None)" by (simp add: entry_id_None)
  then show ?thesis using trie_remove_spec[OF new(1) cs(2)] new(2) cs(1) by auto
qed

theorem insert_remove_witness:
  "case trie_insert trie_new ''a/b'' 7 Last of Some (Inr t') \<Rightarrow> fst (trie_remove t' ''a/b'') = Some 7 \<and>
    node_ok (snd (trie_remove t' ''a/b'')) \<and> (\<forall>cs. entry (snd (trie_remove t' ''a/b'')) cs = entry trie_new cs)
    | _ \<Rightarrow> False"
proof -
  have "node_ok trie_new" "place_ok Last" by (simp_all add: trie_new_def place_ok_def)
  moreover have "valid_path ''a/b''" by code_simp
  moreover obtain t' where "trie_insert trie_new ''a/b'' 7 Last = Some (Inr t')"
    by (rule that) code_simp
  ultimately show ?thesis using insert_remove[of trie_new "''a/b''" Last 7 t'] by simp
qed

text \<open>
  C39. \<open>Place::After\<close> the new path itself: \<open>make\<close> finds the entry it has just added and asks
  \<open>IndexMap::move_index\<close> for an index one past the end, which panics. So an insertion at a
  free path with that place never returns.
\<close>

theorem insert_after_itself_panics:
  assumes "valid_path p" "task_above t p = None" "walk_to t p = None"
  shows "trie_insert t p i (After p) = None"
proof -
  obtain cs where cs: "p = path_str cs" "list_all valid_component cs" "cs \<noteq> []" using assms(1) by (rule valid_pathE)
  then show ?thesis using assms make_at_self_panics[of "[]" cs t] by (simp add: trie_insert_def make_def walk_to_def)
qed

theorem insert_after_itself_panics_witness:
  "trie_insert trie_new ''a/b'' 7 (After ''a/b'') = None"
proof (rule insert_after_itself_panics)
  show "valid_path ''a/b''" "task_above trie_new ''a/b'' = None" "walk_to trie_new ''a/b'' = None" by code_simp+
qed

text \<open>
  \<open>PathTrie::before\<close> is the id just before a path in the list order of
  \<open>PathTrie::nodes\<close>, and \<open>position\<close> orders paths as that list does.
\<close>

theorem before_is_previous:
  assumes "node_ok t" "node_id t = None" "trie_nodes t root_path = xs @ (p, i) # ys"
  shows "before t p = (if xs = [] then None else Some (snd (last xs))) \<and>
    (\<forall>(q, j) \<in> set xs. \<exists>a b. position t q = Some a \<and> position t p = Some b \<and> a < b)"
proof -
  have nodes: "trie_nodes t root_path = map (\<lambda>(cs, i). (path_str cs, i)) (listing [] t)"
    using collect_listing[of "[]" t] assms(1,2) by (simp add: trie_nodes_def walk_to_def root_path_def)
  define us where "us = take (length xs) (listing [] t)"
  define ws where "ws = drop (length xs) (listing [] t)"
  have split: "map (\<lambda>(cs, i). (path_str cs, i)) (listing [] t) = xs @ (p, i) # ys"
    using assms(3) nodes by simp
  have us: "map (\<lambda>(cs, i). (path_str cs, i)) us = xs"
    unfolding us_def take_map[symmetric] split by simp
  have "map (\<lambda>(cs, i). (path_str cs, i)) ws = (p, i) # ys"
    unfolding ws_def drop_map[symmetric] split by simp
  then obtain z vs where "ws = z # vs" "(\<lambda>(cs, i). (path_str cs, i)) z = (p, i)" by (cases ws) auto
  moreover have "listing [] t = us @ ws" by (simp add: us_def ws_def)
  ultimately have z: "listing [] t = us @ z # vs" "(p, i) = (\<lambda>(cs, i). (path_str cs, i)) z"
    "xs = map (\<lambda>(cs, i). (path_str cs, i)) us" using us by simp_all
  obtain cs where "z = (cs, i)" using z(2) by (cases z) simp
  then have l: "listing [] t = us @ (cs, i) # vs" "p = path_str cs" "xs = map (\<lambda>(cs, i). (path_str cs, i)) us"
    using z by simp_all
  have mem: "entry_id t ds = Some j" if "(ds, j) \<in> set (listing [] t)" for ds j
    using that set_listing_Nil[OF assms(1)] by simp
  then have v: "list_all valid_component ds" if "(ds, j) \<in> set (listing [] t)" for ds j
    using that entry_id_walk node_ok_walk[OF assms(1)] by blast
  obtain m where m: "walk t cs = Some m" "node_id m = Some i" 
    using entry_id_walk[OF mem[of cs i]] l(1) by auto
  have "\<not> task_over t cs"
  proof
    assume "task_over t cs"
    then obtain ds es where "cs = ds @ es" "es \<noteq> []" "fst (entry t ds) \<noteq> None"
      by (auto simp: task_over_def strict_prefix_def prefix_def)
    then show False using entry_below_task[OF assms(1)] mem[of cs i] l(1) by auto
  qed
  then obtain as bs where ab: "listing [] t = as @ listing cs m @ bs" "before_at None cs t = last_id as"
    using before_at_listing[OF assms(1) m(1), of "[]" None] by auto
  then obtain bs' where "listing [] t = as @ (cs, i) # bs'" using m(2) by (simp add: listing_node)
  moreover have "distinct (map fst (listing [] t))" using distinct_listing(1) assms(1) by blast
  ultimately have "as = us" using l(1)
    by (auto simp: append_eq_append_conv2 Cons_eq_append_conv append_eq_Cons_conv)
  then have "before t p = (if xs = [] then None else Some (snd (last xs)))"
    using l v[of cs i] ab(2) by (cases us rule: rev_cases) (auto simp: before_def last_id_def case_prod_unfold)
  moreover have "\<exists>a b. position t q = Some a \<and> position t p = Some b \<and> a < b" if mem_xs: "(q, j) \<in> set xs" for q j
  proof -
    obtain ds where ds: "(ds, j) \<in> set us" "q = path_str ds" using mem_xs unfolding l(3) by auto
    have "position_less t ds cs" using listing_sorted(1)[OF assms(1), of "[]"] ds(1) l(1)
      by (fastforce simp: sorted_wrt_append)
    then show ?thesis using v[of ds j] v[of cs i] ds l by (auto simp: position_def position_less_def)
  qed
  ultimately show ?thesis by blast
qed

definition example_trie :: path_trie where
  "example_trie = TrieNode None None
     [(''a'', TrieNode None (Some 1) [(''b'', TrieNode (Some 2) None [])]), (''c'', TrieNode (Some 3) None [])]"

lemma example_trie_ok: "node_ok example_trie" "node_id example_trie = None"
  by code_simp+

theorem before_is_previous_witness: "before example_trie ''c'' = Some 2"
proof -
  have "trie_nodes example_trie root_path = [(''a'', 1), (''a/b'', 2)] @ (''c'', 3) # []" by code_simp
  from before_is_previous[OF example_trie_ok this] show ?thesis by simp
qed

text \<open>
  A glob returns exactly the tasks whose paths match the pattern, each once, ordered by
  path.
\<close>

theorem glob_exact:
  assumes "node_ok t"
  shows "(\<forall>p i. (p, i) \<in> set (trie_glob t pattern) \<longleftrightarrow>
       valid_path p \<and> resolve t p = Some i \<and> glob_match (components pattern) (components p)) \<and>
    sorted_wrt (<) (map (\<lambda>p. components (fst p)) (trie_glob t pattern))"
proof (intro conjI allI)
  fix p i
  have "(p, i) \<in> set (trie_glob t pattern) \<longleftrightarrow> (p, Some i) \<in> set (glob_sorted t pattern False)"
    by (force simp: trie_glob_def split: option.splits)
  then show "(p, i) \<in> set (trie_glob t pattern) \<longleftrightarrow>
       valid_path p \<and> resolve t p = Some i \<and> glob_match (components pattern) (components p)"
    using glob_walk_root[OF assms]
    by (auto simp: set_remdups_adj_eq glob_hit_def resolve_def walk_to_def split: option.splits)
next
  have pick: "trie_glob t pattern = map (\<lambda>(p, i). (p, the i)) (filter (\<lambda>(p, i). i \<noteq> None) (glob_sorted t pattern False))"
  proof -
    have "concat (map (\<lambda>(p, i). case i of None \<Rightarrow> [] | Some i \<Rightarrow> [(p, i)]) xs) =
        map (\<lambda>(p, i). (p, the i)) (filter (\<lambda>(p, i). i \<noteq> None) xs)" for xs :: "(task_path \<times> nat option) list"
      by (induction xs) (auto split: option.splits)
    then show ?thesis by (simp add: trie_glob_def)
  qed
  show "sorted_wrt (<) (map (\<lambda>p. components (fst p)) (trie_glob t pattern))"
    using glob_sorted_paths[OF assms, of pattern False] unfolding pick
    by (auto simp: sorted_wrt_map case_prod_unfold intro: sorted_wrt_filter)
qed

theorem glob_exact_witness:
  "((''a/b'', 2) \<in> set (trie_glob example_trie ''**/b'') \<longleftrightarrow>
      valid_path ''a/b'' \<and> resolve example_trie ''a/b'' = Some 2 \<and> glob_match (components ''**/b'') (components ''a/b'')) \<and>
    sorted_wrt (<) (map (\<lambda>p. components (fst p)) (trie_glob example_trie ''**/b''))"
  using glob_exact[OF example_trie_ok(1), of "''**/b''"] by blast

end
