(* ===== verification/Task_Spec.thy ===== *)
theory Task_Spec
  imports Task_Path
begin

text \<open>
  A task's definition as written (\<open>src/src/spec.rs\<close>): a mapping with its keys in a fixed
  order, what differs between two of them, and the config as it was last taken in (\<open>Base\<close>).
\<close>

section \<open>Values\<close>

text \<open>
  \<open>serde_yaml::Value\<close>; a number is kept as its text, a mapping as its entries in order. Two
  mappings are equal when they hold the same entries, in any order.
\<close>

datatype yaml =
    YNull
  | YBool bool
  | YNumber string
  | YString string
  | YSeq "yaml list"
  | YMap "(yaml \<times> yaml) list"
  | YTagged string yaml

type_synonym yaml_map = "(yaml \<times> yaml) list"

lemma yaml_entry_size [termination_simp]:
  "(k, v) \<in> set m \<Longrightarrow> size k < size_list (size_prod size size) m \<and> size v < size_list (size_prod size size) m"
  by (induction m) auto

fun yaml_eq :: "yaml \<Rightarrow> yaml \<Rightarrow> bool" where
  "yaml_eq YNull YNull = True"
| "yaml_eq (YBool a) (YBool b) = (a = b)"
| "yaml_eq (YNumber a) (YNumber b) = (a = b)"
| "yaml_eq (YString a) (YString b) = (a = b)"
| "yaml_eq (YSeq a) (YSeq b) = list_all2 yaml_eq a b"
| "yaml_eq (YMap a) (YMap b) =
     (length a = length b \<and> list_all (\<lambda>(k, v). list_ex (\<lambda>(j, w). yaml_eq k j \<and> yaml_eq v w) b) a)"
| "yaml_eq (YTagged s a) (YTagged t b) = (s = t \<and> yaml_eq a b)"
| "yaml_eq _ _ = False"

fun yaml_str :: "yaml \<Rightarrow> string option" where
  "yaml_str (YString s) = Some s"
| "yaml_str _ = None"

fun yaml_mapping :: "yaml \<Rightarrow> yaml_map option" where
  "yaml_mapping (YMap m) = Some m"
| "yaml_mapping _ = None"

section \<open>The definition\<close>

datatype task_spec = TaskSpec (spec_map: yaml_map)

datatype task_kind = Service | Job

definition task_keys :: "string list" where
  "task_keys = [''label'', ''type'', ''cmd'', ''script'', ''deps'', ''tags'', ''ready'', ''cwd'', ''env'',
     ''add_path'', ''autostart'', ''autorestart'', ''stop'', ''log'', ''scrollback_len'', ''mouse_scroll_speed'']"

text \<open>The place of a key in \<open>TASK_KEYS\<close>; \<open>usize::MAX\<close> is past the last.\<close>

fun position_in :: "'a \<Rightarrow> 'a list \<Rightarrow> nat option" where
  "position_in x [] = None"
| "position_in x (y # ys) = (if y = x then Some 0 else map_option Suc (position_in x ys))"

definition key_rank :: "string option \<Rightarrow> nat" where
  "key_rank k = (case Option.bind k (\<lambda>k. position_in k task_keys) of Some i \<Rightarrow> i | None \<Rightarrow> length task_keys)"

definition spec_get :: "task_spec \<Rightarrow> string \<Rightarrow> yaml option" where
  "spec_get s k = hm_get (spec_map s) (YString k)"

definition spec_set :: "string \<Rightarrow> yaml option \<Rightarrow> task_spec \<Rightarrow> task_spec" where
  "spec_set k v s =
     (case v of
        None \<Rightarrow> TaskSpec (filter (\<lambda>(j, _). j \<noteq> YString k) (spec_map s))
      | Some v \<Rightarrow>
          (let m = spec_map s;
               rank = (\<lambda>key. key_rank (yaml_str key));
               in_order = (hm_get m (YString k) \<noteq> None \<or> m = [] \<or> rank (fst (last m)) \<le> rank (YString k));
               m' = hm_put (YString k) v m
           in TaskSpec (if in_order then m' else sort_key (\<lambda>(key, _). rank key) m')))"

definition spec_label :: "task_spec \<Rightarrow> string option" where
  "spec_label s = Option.bind (spec_get s ''label'') yaml_str"

definition spec_set_label :: "string option \<Rightarrow> task_spec \<Rightarrow> task_spec" where
  "spec_set_label l s = spec_set ''label'' (map_option YString l) s"

definition spec_kind :: "task_spec \<Rightarrow> task_kind" where
  "spec_kind s = (if Option.bind (spec_get s ''type'') yaml_str = Some ''job'' then Job else Service)"

definition spec_strings :: "string \<Rightarrow> task_spec \<Rightarrow> string list" where
  "spec_strings k s =
     (case spec_get s k of Some (YSeq items) \<Rightarrow> List.map_filter yaml_str items | _ \<Rightarrow> [])"

definition spec_set_strings :: "string \<Rightarrow> string list \<Rightarrow> task_spec \<Rightarrow> task_spec" where
  "spec_set_strings k items s =
     spec_set k (if items = [] then None else Some (YSeq (map YString items))) s"

definition spec_deps :: "task_spec \<Rightarrow> string list" where
  "spec_deps s = spec_strings ''deps'' s"

definition spec_set_deps :: "string list \<Rightarrow> task_spec \<Rightarrow> task_spec" where
  "spec_set_deps deps s = spec_set_strings ''deps'' (remdups_adj (sort deps)) s"

section \<open>Differences\<close>

definition yaml_opt_eq :: "yaml option \<Rightarrow> yaml option \<Rightarrow> bool" where
  "yaml_opt_eq a b = (case (a, b) of (None, None) \<Rightarrow> True | (Some x, Some y) \<Rightarrow> yaml_eq x y | _ \<Rightarrow> False)"

text \<open>The \<open>env\<close> variables that differ, those of the first mapping first.\<close>

fun changed_vars :: "yaml_map \<Rightarrow> yaml_map \<Rightarrow> yaml list \<Rightarrow> string list \<Rightarrow> string list" where
  "changed_vars a b [] vars = vars"
| "changed_vars a b (k # ks) vars =
     changed_vars a b ks
       (case yaml_str k of
          None \<Rightarrow> vars
        | Some var \<Rightarrow>
            if \<not> yaml_opt_eq (hm_get a (YString var)) (hm_get b (YString var)) \<and> var \<notin> set vars
            then vars @ [var] else vars)"

definition as_mapping :: "yaml option \<Rightarrow> yaml_map" where
  "as_mapping v = unwrap_or [] (Option.bind v yaml_mapping)"

fun changed_from :: "yaml_map \<Rightarrow> yaml_map \<Rightarrow> yaml list \<Rightarrow> string list \<Rightarrow> string list" where
  "changed_from a b [] seen = []"
| "changed_from a b (k # ks) seen =
     (case yaml_str k of
        None \<Rightarrow> changed_from a b ks seen
      | Some nm \<Rightarrow>
          if nm \<in> set seen then changed_from a b ks seen
          else
            (if yaml_opt_eq (hm_get a k) (hm_get b k) then []
             else if nm = ''env'' then
               (let ma = as_mapping (hm_get a k); mb = as_mapping (hm_get b k)
                in map (\<lambda>var. ''env.'' @ var) (changed_vars ma mb (hm_keys ma @ hm_keys mb) []))
             else [nm]) @ changed_from a b ks (seen @ [nm]))"

definition changed_keys :: "task_spec \<Rightarrow> task_spec \<Rightarrow> string list" where
  "changed_keys s t =
     sort_key (\<lambda>k. key_rank (Some (hd (split_char (CHR ''.'') k))))
       (changed_from (spec_map s) (spec_map t) (hm_keys (spec_map s) @ hm_keys (spec_map t)) [])"

fun split_once :: "char \<Rightarrow> string \<Rightarrow> (string \<times> string) option" where
  "split_once c [] = None"
| "split_once c (x # xs) = (if x = c then Some ([], xs) else map_option (\<lambda>(a, b). (x # a, b)) (split_once c xs))"

definition value_at :: "task_spec \<Rightarrow> string \<Rightarrow> yaml option" where
  "value_at s k =
     (case split_once (CHR ''.'') k of
        Some (head, var) \<Rightarrow>
          if head = ''env'' then
            Option.bind (spec_get s ''env'') (\<lambda>e. Option.bind (yaml_mapping e) (\<lambda>m. hm_get m (YString var)))
          else spec_get s k
      | None \<Rightarrow> spec_get s k)"

definition set_at :: "string \<Rightarrow> yaml option \<Rightarrow> task_spec \<Rightarrow> task_spec" where
  "set_at k v s =
     (case split_once (CHR ''.'') k of
        Some (head, var) \<Rightarrow>
          if head = ''env'' then
            (let env = as_mapping (spec_get s ''env'');
                 env' = (case v of
                     Some v \<Rightarrow> hm_put (YString var) v env
                   | None \<Rightarrow> filter (\<lambda>(j, _). yaml_str j \<noteq> Some var) env)
             in spec_set ''env'' (if env' = [] then None else Some (YMap env')) s)
          else spec_set k v s
      | None \<Rightarrow> spec_set k v s)"

section \<open>Entries of the config\<close>

record source =
  src_file :: string
  src_key :: string
  src_mount :: string

fun strip_last :: "char \<Rightarrow> string \<Rightarrow> string" where
  "strip_last c s = (if s \<noteq> [] \<and> last s = c then butlast s else s)"

definition source_path :: "source \<Rightarrow> string" where
  "source_path s = join_path (src_mount s) (strip_last (CHR ''/'') (src_key s))"

definition source_is_folder :: "source \<Rightarrow> bool" where
  "source_is_folder s = (src_key s \<noteq> [] \<and> last (src_key s) = CHR ''/'')"

type_synonym base = "(source \<times> task_spec) list"

definition base_get :: "base \<Rightarrow> source \<Rightarrow> task_spec option" where
  "base_get b s = hm_get b s"

text \<open>\<open>None\<close>: \<open>move_index\<close> out of bounds.\<close>

definition base_set :: "source \<Rightarrow> task_spec \<Rightarrow> source list \<Rightarrow> base \<Rightarrow> base option" where
  "base_set s spec order b =
     (if base_get b s \<noteq> None then Some (hm_put s spec b)
      else
        (let before = (case position_in s order of None \<Rightarrow> [] | Some i \<Rightarrow> take i order);
             at = (case find_map (\<lambda>x. index_of b x) (rev before) of None \<Rightarrow> 0 | Some i \<Rightarrow> i + 1)
         in im_move_index (length b) at (b @ [(s, spec)])))"

definition base_remove :: "source \<Rightarrow> base \<Rightarrow> base" where
  "base_remove s b = shift_remove s b"

section \<open>Facts\<close>

definition key_order :: "yaml_map \<Rightarrow> bool" where
  "key_order m = sorted (map (\<lambda>(k, _). key_rank (yaml_str k)) m)"

lemma hm_get_filter_other:
  "hm_get (filter (\<lambda>(j, _). j \<noteq> k) m) i = (if i = k then None else hm_get m i)"
  by (induction m) auto

lemma hm_get_sort:
  "hm_ok m \<Longrightarrow> hm_get (sort_key f m) = hm_get m"
  by (metis hm_get_mset mset_sort)

lemma spec_get_set:
  assumes "hm_ok (spec_map s)"
  shows "spec_get (spec_set k v s) j = (if j = k then v else spec_get s j)"
  using assms hm_ok_put[OF assms]
  by (auto simp: spec_get_def spec_set_def Let_def hm_get_filter_other hm_get_sort split: option.splits)

lemma hm_ok_sort: "hm_ok m \<Longrightarrow> hm_ok (sort_key f m)"
  by (metis hm_ok_mset mset_sort)

lemma spec_ok_set: "hm_ok (spec_map s) \<Longrightarrow> hm_ok (spec_map (spec_set k v s))"
  using hm_ok_put[of "spec_map s"]
  by (auto simp: spec_set_def Let_def hm_ok_sort distinct_map_filter split: option.splits)

lemma sorted_filter_pairs: "sorted (map f m) \<Longrightarrow> sorted (map f (filter P m))"
  by (induction m) auto

lemma hm_put_new: "hm_get m k = None \<Longrightarrow> hm_put k v m = m @ [(k, v)]"
  by (induction m) (auto simp: hm_put_def split: if_splits)

lemma hm_put_old_keys: "hm_get m k \<noteq> None \<Longrightarrow> map fst (hm_put k v m) = map fst m"
  using hm_keys_get[of k m] by (simp add: hm_keys_put)

lemma key_order_keys: "key_order m = sorted (map (\<lambda>k. key_rank (yaml_str k)) (hm_keys m))"
  by (simp add: key_order_def comp_def case_prod_unfold)

lemma key_order_set:
  assumes "key_order (spec_map s)"
  shows "key_order (spec_map (spec_set k v s))"
proof (cases v)
  case None
  then show ?thesis using assms sorted_filter_pairs by (auto simp: spec_set_def key_order_def)
next
  case (Some w)
  let ?m = "spec_map s"
  let ?f = "\<lambda>(key, _ :: yaml). key_rank (yaml_str key)"
  consider "hm_get ?m (YString k) \<noteq> None" | "hm_get ?m (YString k) = None"
      "?m = [] \<or> key_rank (yaml_str (fst (last ?m))) \<le> key_rank (Some k)"
    | "\<not> (hm_get ?m (YString k) \<noteq> None \<or> ?m = [] \<or> key_rank (yaml_str (fst (last ?m))) \<le> key_rank (Some k))" by blast
  then show ?thesis
  proof cases
    case 1
    then show ?thesis using Some assms hm_put_old_keys[OF 1] by (auto simp: spec_set_def Let_def key_order_keys)
  next
    case 2
    have "?f x \<le> key_rank (Some k)" if "x \<in> set ?m" for x
    proof -
      have "?m \<noteq> []" using that by auto
      then have "?m = butlast ?m @ [last ?m]" by simp
      then have "x = last ?m \<or> ?f x \<le> ?f (last ?m)" using assms that unfolding key_order_def
        by (metis (no_types, lifting) UnE empty_iff empty_set imageI image_set list.simps(9) map_append set_ConsD
            set_append sorted_append list.set_intros(1))
      then show ?thesis using 2(2) \<open>?m \<noteq> []\<close> by (auto simp: case_prod_unfold)
    qed
    then have "sorted (map ?f (?m @ [(YString k, w)]))" using assms by (auto simp: key_order_def sorted_append)
    moreover have "spec_map (spec_set k v s) = ?m @ [(YString k, w)]"
      using 2 Some hm_put_new[OF 2(1)] by (auto simp: spec_set_def Let_def)
    ultimately show ?thesis by (simp add: key_order_def)
  next
    case 3
    then have "spec_map (spec_set k v s) = sort_key ?f (hm_put (YString k) w ?m)"
      using Some by (simp add: spec_set_def Let_def)
    then show ?thesis by (simp add: key_order_def)
  qed
qed

lemma yaml_strings: "List.map_filter yaml_str (map YString xs) = xs"
  by (induction xs) (auto simp: List.map_filter_def)

text \<open>
  \<open>set_deps\<close> and \<open>deps\<close> round trip: the deps read back are the ones written, sorted and each
  once, no other key changes, and the keys stay in the order of \<open>TASK_KEYS\<close>.
\<close>

theorem deps_roundtrip:
  assumes "hm_ok (spec_map s)" "key_order (spec_map s)"
  shows "spec_deps (spec_set_deps ds s) = sorted_list_of_set (set ds) \<and>
    (\<forall>k. k \<noteq> ''deps'' \<longrightarrow> spec_get (spec_set_deps ds s) k = spec_get s k) \<and>
    key_order (spec_map (spec_set_deps ds s)) \<and> hm_ok (spec_map (spec_set_deps ds s))"
proof -
  have "remdups_adj (sort ds) = [] \<longleftrightarrow> ds = []" by (metis remdups_adj_Nil_iff set_empty set_sort)
  then show ?thesis using assms remdups_adj_sort[of ds]
    by (auto simp: spec_deps_def spec_set_deps_def spec_set_strings_def spec_strings_def spec_get_set
        yaml_strings key_order_set spec_ok_set)
qed

theorem deps_roundtrip_witness:
  "spec_deps (spec_set_deps [''b'', ''a'', ''b''] (TaskSpec [(YString ''cmd'', YString ''x''), (YString ''log'', YNull)])) =
      sorted_list_of_set (set [''b'', ''a'', ''b''])"
  using deps_roundtrip[of "TaskSpec [(YString ''cmd'', YString ''x''), (YString ''log'', YNull)]" "[''b'', ''a'', ''b'']"]
  by (simp add: key_order_def key_rank_def task_keys_def)

text \<open>
  \<open>Base::set\<close> never moves out of bounds, replaces an entry in place, and puts a new one right
  after the nearest entry before it in the config's order, or first when there is none.
\<close>

theorem base_set_places:
  assumes "hm_ok b"
  shows "\<exists>b'. base_set s spec order b = Some b' \<and> hm_ok b' \<and>
    (\<forall>x. base_get b' x = (if x = s then Some spec else base_get b x)) \<and>
    (base_get b s \<noteq> None \<longrightarrow> hm_keys b' = hm_keys b) \<and>
    (base_get b s = None \<longrightarrow> (\<exists>us vs. b = us @ vs \<and> b' = us @ (s, spec) # vs \<and>
       (us \<noteq> [] \<longrightarrow> fst (last us) \<in> set (takeWhile (\<lambda>x. x \<noteq> s) order)) \<and>
       (us = [] \<longrightarrow> s \<notin> set order \<or> (\<forall>x \<in> set (takeWhile (\<lambda>x. x \<noteq> s) order). base_get b x = None))))"
proof (cases "base_get b s")
  case (Some old)
  then have "hm_keys (hm_put s spec b) = hm_keys b" using hm_put_old_keys[of b s spec] by (simp add: base_get_def)
  then show ?thesis using Some assms by (auto simp: base_set_def base_get_def)
next
  case None
  define pre where "pre = (case position_in s order of None \<Rightarrow> [] | Some i \<Rightarrow> take i order)"
  have pre: "pre = (if s \<in> set order then takeWhile (\<lambda>x. x \<noteq> s) order else [])"
  proof -
    have "position_in s xs = (if s \<in> set xs then Some (length (takeWhile (\<lambda>x. x \<noteq> s) xs)) else None)" for xs
      by (induction xs) auto
    then show ?thesis unfolding pre_def by (simp add: takeWhile_eq_take[symmetric])
  qed
  define at where "at = (case find_map (\<lambda>x. index_of b x) (rev pre) of None \<Rightarrow> 0 | Some i \<Rightarrow> i + 1)"
  have found: "find_map (\<lambda>x. index_of b x) xs = Some i \<Longrightarrow> \<exists>x \<in> set xs. index_of b x = Some i" for xs i
    by (induction xs) (auto simp: opt_or_def split: option.splits)
  have le: "at \<le> length b"
    using found[of "rev pre"] by (auto simp: at_def split: option.splits dest!: index_of_Some)
  have set: "base_set s spec order b = Some (insert_index at (s, spec) b)"
    using None le unfolding base_set_def Let_def pre_def[symmetric] at_def[symmetric]
    by (simp add: base_get_def im_move_index_last)
  have new: "hm_get b s = None" using None by (simp add: base_get_def)
  have near: "fst (last (take at b)) \<in> set pre" if "take at b \<noteq> []"
  proof -
    have "at \<noteq> 0" using that by auto
    then obtain i where i: "find_map (\<lambda>x. index_of b x) (rev pre) = Some i" "at = Suc i"
      by (auto simp: at_def split: option.splits)
    then obtain x where "x \<in> set pre" "i < length b" "fst (b ! i) = x"
      using found[of "rev pre" i] by (auto dest!: index_of_Some)
    then show ?thesis using i(2) by (simp add: take_Suc_conv_app_nth)
  qed
  have none: "\<forall>x \<in> set pre. base_get b x = None" if "take at b = []"
  proof -
    have "find_map (\<lambda>x. index_of b x) (rev pre) = None"
      using that found[of "rev pre"] by (auto simp: at_def split: option.splits dest!: index_of_Some)
    then show ?thesis by (auto simp: find_map_None index_of_None base_get_def)
  qed
  show ?thesis
  proof (rule exI[of _ "insert_index at (s, spec) b"], intro conjI impI allI)
    show "hm_ok (insert_index at (s, spec) b)" using assms new by (rule hm_ok_insert_index)
    show "base_get (insert_index at (s, spec) b) x = (if x = s then Some spec else base_get b x)" for x
      using new by (simp add: base_get_def hm_get_insert_index)
    show "\<exists>us vs. b = us @ vs \<and> insert_index at (s, spec) b = us @ (s, spec) # vs \<and>
       (us \<noteq> [] \<longrightarrow> fst (last us) \<in> set (takeWhile (\<lambda>x. x \<noteq> s) order)) \<and>
       (us = [] \<longrightarrow> s \<notin> set order \<or> (\<forall>x \<in> set (takeWhile (\<lambda>x. x \<noteq> s) order). base_get b x = None))"
      using near none pre by (intro exI[of _ "take at b"] exI[of _ "drop at b"]) (auto simp: insert_index_def split: if_splits)
  qed (use set None in simp_all)
qed

end
