(* ===== verification/Sub_Trie.thy ===== *)
theory Sub_Trie
  imports Task_Path
begin

text \<open>
  Who hears about which paths (\<open>src/src/kernel/sub_trie.rs\<close>): a trie of subscribers, each
  for one path or for everything under it, and beside it each subscriber's subscriptions.
\<close>

section \<open>The interface\<close>

datatype sub_mode = Exact | Subtree

text \<open>
  What the kernel relies on: the subscriptions held after a subscription, after one is dropped
  and after a subscriber is, and which of them a path matches.
\<close>

locale subscriptions =
  fixes ok :: "'t \<Rightarrow> bool"
    and valid :: "'p \<Rightarrow> bool"
    and under :: "'p \<Rightarrow> 'p \<Rightarrow> bool"
    and held :: "'t \<Rightarrow> (nat \<times> 'p \<times> sub_mode) set"
    and add :: "nat \<Rightarrow> 'p \<Rightarrow> sub_mode \<Rightarrow> 't \<Rightarrow> 't"
    and cancel :: "nat \<Rightarrow> 'p \<Rightarrow> sub_mode \<Rightarrow> 't \<Rightarrow> 't"
    and forget :: "nat \<Rightarrow> 't \<Rightarrow> 't"
    and hears :: "'t \<Rightarrow> nat \<Rightarrow> 'p \<Rightarrow> bool"
    and gather :: "'t \<Rightarrow> 'p \<Rightarrow> nat list \<Rightarrow> nat list"
  assumes ok_add: "ok t \<Longrightarrow> valid p \<Longrightarrow> ok (add s p m t)"
    and ok_cancel: "ok t \<Longrightarrow> valid p \<Longrightarrow> ok (cancel s p m t)"
    and ok_forget: "ok t \<Longrightarrow> ok (forget s t)"
    and held_add: "ok t \<Longrightarrow> valid p \<Longrightarrow> held (add s p m t) = insert (s, p, m) (held t)"
    and held_cancel: "ok t \<Longrightarrow> valid p \<Longrightarrow> held (cancel s p m t) = held t - {(s, p, m)}"
    and held_forget: "ok t \<Longrightarrow> held (forget s t) = {x \<in> held t. fst x \<noteq> s}"
    and hears_iff: "ok t \<Longrightarrow> valid p \<Longrightarrow>
      hears t s p \<longleftrightarrow> (s, p, Exact) \<in> held t \<or> (\<exists>q. (s, q, Subtree) \<in> held t \<and> under p q)"
    and set_gather: "ok t \<Longrightarrow> valid p \<Longrightarrow> set (gather t p out) = set out \<union> {s. hears t s p}"
begin

lemma hears_forget: "ok t \<Longrightarrow> valid p \<Longrightarrow> hears (forget s t) r p \<longleftrightarrow> r \<noteq> s \<and> hears t r p"
  by (auto simp: hears_iff ok_forget held_forget)

lemma hears_add:
  "ok t \<Longrightarrow> valid p \<Longrightarrow> valid q \<Longrightarrow>
   hears (add s q m t) r p \<longleftrightarrow> hears t r p \<or> r = s \<and> (if m = Exact then p = q else under p q)"
  by (cases m) (auto simp: hears_iff ok_add held_add)

lemma cancel_add:
  "ok t \<Longrightarrow> valid p \<Longrightarrow> (s, p, m) \<notin> held t \<Longrightarrow> held (cancel s p m (add s p m t)) = held t"
  by (simp add: held_cancel ok_add held_add)

lemma gather_forget: "ok t \<Longrightarrow> valid p \<Longrightarrow> s \<notin> set (gather (forget s t) p [])"
  by (simp add: set_gather ok_forget hears_forget)

end

section \<open>Requests\<close>

text \<open>The three updates as values, their effect on a provider and on the set of subscriptions.\<close>

datatype 'p sub_op = AddSub nat 'p sub_mode | CancelSub nat 'p sub_mode | ForgetSub nat

fun sub_op_valid :: "('p \<Rightarrow> bool) \<Rightarrow> 'p sub_op \<Rightarrow> bool" where
  "sub_op_valid v (AddSub s p m) = v p"
| "sub_op_valid v (CancelSub s p m) = v p"
| "sub_op_valid v (ForgetSub s) = True"

fun sub_op_set :: "'p sub_op \<Rightarrow> (nat \<times> 'p \<times> sub_mode) set \<Rightarrow> (nat \<times> 'p \<times> sub_mode) set" where
  "sub_op_set (AddSub s p m) H = insert (s, p, m) H"
| "sub_op_set (CancelSub s p m) H = H - {(s, p, m)}"
| "sub_op_set (ForgetSub s) H = {x \<in> H. fst x \<noteq> s}"

fun sub_op_run ::
  "(nat \<Rightarrow> 'p \<Rightarrow> sub_mode \<Rightarrow> 't \<Rightarrow> 't) \<Rightarrow> (nat \<Rightarrow> 'p \<Rightarrow> sub_mode \<Rightarrow> 't \<Rightarrow> 't) \<Rightarrow> (nat \<Rightarrow> 't \<Rightarrow> 't) \<Rightarrow>
   'p sub_op \<Rightarrow> 't \<Rightarrow> 't" where
  "sub_op_run a c f (AddSub s p m) t = a s p m t"
| "sub_op_run a c f (CancelSub s p m) t = c s p m t"
| "sub_op_run a c f (ForgetSub s) t = f s t"

context subscriptions
begin

lemma run_refines:
  "ok t \<Longrightarrow> list_all (sub_op_valid valid) ops \<Longrightarrow>
   ok (fold (sub_op_run add cancel forget) ops t) \<and>
   held (fold (sub_op_run add cancel forget) ops t) = fold sub_op_set ops (held t)"
proof (induction ops arbitrary: t)
  case (Cons op ops)
  then have "ok (sub_op_run add cancel forget op t) \<and>
      held (sub_op_run add cancel forget op t) = sub_op_set op (held t)"
    by (cases op) (auto simp: ok_add ok_cancel ok_forget held_add held_cancel held_forget)
  then show ?case using Cons by simp
qed simp

lemma run_hears:
  "ok t \<Longrightarrow> list_all (sub_op_valid valid) ops \<Longrightarrow> valid p \<Longrightarrow>
   set (gather (fold (sub_op_run add cancel forget) ops t) p []) =
     {s. (s, p, Exact) \<in> fold sub_op_set ops (held t) \<or>
         (\<exists>q. (s, q, Subtree) \<in> fold sub_op_set ops (held t) \<and> under p q)}"
  using run_refines[of t ops] by (simp add: set_gather hears_iff)

end

section \<open>The trie\<close>

datatype sub_node =
  SubNode (exact_subs: "nat list") (subtree_subs: "nat list") (sub_children: "(string \<times> sub_node) list")

record sub_trie =
  sub_root :: sub_node
  by_subscriber :: "(nat, (task_path \<times> sub_mode) list) hm"

definition sub_node_empty :: sub_node where
  "sub_node_empty = SubNode [] [] []"

definition sub_is_empty :: "sub_node \<Rightarrow> bool" where
  "sub_is_empty n = (exact_subs n = [] \<and> subtree_subs n = [] \<and> sub_children n = [])"

fun set_sub_children :: "(string \<times> sub_node) list \<Rightarrow> sub_node \<Rightarrow> sub_node" where
  "set_sub_children ks (SubNode e s _) = SubNode e s ks"

definition sub_trie_new :: sub_trie where
  "sub_trie_new = \<lparr>sub_root = sub_node_empty, by_subscriber = []\<rparr>"

fun node_subs :: "sub_mode \<Rightarrow> sub_node \<Rightarrow> nat list" where
  "node_subs Exact n = exact_subs n"
| "node_subs Subtree n = subtree_subs n"

fun map_node_subs :: "sub_mode \<Rightarrow> (nat list \<Rightarrow> nat list) \<Rightarrow> sub_node \<Rightarrow> sub_node" where
  "map_node_subs Exact f (SubNode e s ks) = SubNode (f e) s ks"
| "map_node_subs Subtree f (SubNode e s ks) = SubNode e (f s) ks"

fun subscribe_at :: "nat \<Rightarrow> sub_mode \<Rightarrow> string list \<Rightarrow> sub_node \<Rightarrow> sub_node" where
  "subscribe_at s m [] n = map_node_subs m (hs_ins s) n"
| "subscribe_at s m (c # cs) n =
     (let ch = unwrap_or sub_node_empty (hm_get (sub_children n) c)
      in set_sub_children (hm_put c (subscribe_at s m cs ch) (sub_children n)) n)"

definition sub_subscribe :: "nat \<Rightarrow> task_path \<Rightarrow> sub_mode \<Rightarrow> sub_trie \<Rightarrow> sub_trie" where
  "sub_subscribe s p m t =
     \<lparr>sub_root = subscribe_at s m (components p) (sub_root t),
      by_subscriber = hm_put s (hs_ins (p, m) (unwrap_or [] (hm_get (by_subscriber t) s))) (by_subscriber t)\<rparr>"

fun remove_one :: "nat \<Rightarrow> sub_mode \<Rightarrow> string list \<Rightarrow> sub_node \<Rightarrow> sub_node" where
  "remove_one s m [] n = map_node_subs m (hs_del s) n"
| "remove_one s m (c # cs) n =
     (case hm_get (sub_children n) c of
        None \<Rightarrow> n
      | Some ch \<Rightarrow>
          (let ch' = remove_one s m cs ch
           in set_sub_children
                (if sub_is_empty ch' then hm_del c (sub_children n) else hm_put c ch' (sub_children n)) n))"

definition sub_unsubscribe :: "nat \<Rightarrow> task_path \<Rightarrow> sub_mode \<Rightarrow> sub_trie \<Rightarrow> sub_trie" where
  "sub_unsubscribe s p m t =
     \<lparr>sub_root = remove_one s m (components p) (sub_root t),
      by_subscriber =
        (case hm_get (by_subscriber t) s of
           None \<Rightarrow> by_subscriber t
         | Some subs \<Rightarrow>
             (let subs' = hs_del (p, m) subs
              in if subs' = [] then hm_del s (by_subscriber t) else hm_put s subs' (by_subscriber t)))\<rparr>"

definition sub_remove_subscriber :: "nat \<Rightarrow> sub_trie \<Rightarrow> sub_trie" where
  "sub_remove_subscriber s t =
     (case hm_get (by_subscriber t) s of
        None \<Rightarrow> t
      | Some subs \<Rightarrow>
          \<lparr>sub_root = fold (\<lambda>(p, m). remove_one s m (components p)) subs (sub_root t),
           by_subscriber = hm_del s (by_subscriber t)\<rparr>)"

fun collect_at :: "string list \<Rightarrow> sub_node \<Rightarrow> nat list \<Rightarrow> nat list" where
  "collect_at [] n out = hs_extend (exact_subs n) out"
| "collect_at (c # cs) n out =
     (case hm_get (sub_children n) c of
        None \<Rightarrow> out
      | Some ch \<Rightarrow> collect_at cs ch (hs_extend (subtree_subs ch) out))"

definition sub_collect :: "sub_trie \<Rightarrow> task_path \<Rightarrow> nat list \<Rightarrow> nat list" where
  "sub_collect t p out = collect_at (components p) (sub_root t) (hs_extend (subtree_subs (sub_root t)) out)"

fun is_subscribed_at :: "nat \<Rightarrow> string list \<Rightarrow> sub_node \<Rightarrow> bool" where
  "is_subscribed_at s [] n = (s \<in> set (exact_subs n))"
| "is_subscribed_at s (c # cs) n =
     (case hm_get (sub_children n) c of
        None \<Rightarrow> False
      | Some ch \<Rightarrow> s \<in> set (subtree_subs ch) \<or> is_subscribed_at s cs ch)"

definition sub_is_subscribed :: "sub_trie \<Rightarrow> nat \<Rightarrow> task_path \<Rightarrow> bool" where
  "sub_is_subscribed t s p =
     (s \<in> set (subtree_subs (sub_root t)) \<or> is_subscribed_at s (components p) (sub_root t))"

section \<open>Its contents\<close>

text \<open>The subscribers at a component list.\<close>

fun subs_at :: "sub_node \<Rightarrow> string list \<Rightarrow> sub_mode \<Rightarrow> nat list" where
  "subs_at n [] m = node_subs m n"
| "subs_at n (c # cs) m =
     (case hm_get (sub_children n) c of None \<Rightarrow> [] | Some ch \<Rightarrow> subs_at ch cs m)"

lemma set_sub_children_sel [simp]:
  "sub_children (set_sub_children ks n) = ks" "node_subs m (set_sub_children ks n) = node_subs m n"
  "exact_subs (set_sub_children ks n) = exact_subs n" "subtree_subs (set_sub_children ks n) = subtree_subs n"
  by (cases n; cases m; simp)+

lemma map_node_subs_sel [simp]:
  "sub_children (map_node_subs m f n) = sub_children n"
  "node_subs k (map_node_subs m f n) = (if k = m then f (node_subs k n) else node_subs k n)"
  by (cases n; cases m; cases k; simp)+

lemma sub_node_empty_sel [simp]:
  "node_subs m sub_node_empty = []" "sub_children sub_node_empty = []"
  by (cases m; simp add: sub_node_empty_def)+

lemma subs_at_empty [simp]: "subs_at sub_node_empty cs m = []"
  by (cases cs) auto

lemma set_subs_subscribe:
  "set (subs_at (subscribe_at s m cs n) ds k) = (if ds = cs \<and> k = m then {s} else {}) \<union> set (subs_at n ds k)"
proof (induction s m cs n arbitrary: ds rule: subscribe_at.induct)
  case (1 s m n)
  then show ?case by (cases ds) auto
next
  case (2 s m c cs n)
  then show ?case by (cases ds) (auto simp: Let_def unwrap_or_def split: option.splits)
qed

lemma sub_is_empty_subs: "sub_is_empty n \<Longrightarrow> subs_at n ds k = []"
  by (cases ds; cases k) (auto simp: sub_is_empty_def)

lemma set_subs_remove:
  "set (subs_at (remove_one s m cs n) ds k) = set (subs_at n ds k) - (if ds = cs \<and> k = m then {s} else {})"
proof (induction s m cs n arbitrary: ds rule: remove_one.induct)
  case (1 s m n)
  then show ?case by (cases ds) auto
next
  case (2 s m c cs n)
  show ?case
  proof (cases "hm_get (sub_children n) c")
    case None
    then show ?thesis by (cases ds) auto
  next
    case (Some ch)
    note IH = 2[OF Some]
    let ?ch = "remove_one s m cs ch"
    have val: "set (if sub_is_empty ?ch then [] else subs_at ?ch es k) =
        set (subs_at ch es k) - (if es = cs \<and> k = m then {s} else {})" for es
      using IH[of es] sub_is_empty_subs[of ?ch es k] by (cases "sub_is_empty ?ch") simp_all
    have "subs_at (remove_one s m (c # cs) n) (d # es) k =
        (if d = c then if sub_is_empty ?ch then [] else subs_at ?ch es k else subs_at n (d # es) k)" for d es
      using Some by (simp add: Let_def)
    moreover have "node_subs k (remove_one s m (c # cs) n) = node_subs k n" using Some by (simp add: Let_def)
    ultimately show ?thesis using Some val
      by (cases ds) (simp_all only: subs_at.simps, simp_all split: if_splits)
  qed
qed

text \<open>Nodes are kept only while someone is subscribed at or under them.\<close>

fun sub_full :: "sub_node \<Rightarrow> bool"
  and sub_kids_full :: "(string \<times> sub_node) list \<Rightarrow> bool" where
  "sub_full (SubNode e s ks) = (hm_ok ks \<and> sub_kids_full ks)"
| "sub_kids_full [] = True"
| "sub_kids_full ((c, n) # ks) = (\<not> sub_is_empty n \<and> sub_full n \<and> sub_kids_full ks)"

lemma sub_kids_full_iff: "sub_kids_full ks \<longleftrightarrow> (\<forall>(c, n) \<in> set ks. \<not> sub_is_empty n \<and> sub_full n)"
  by (induction ks) auto

lemma sub_full_iff:
  "sub_full n \<longleftrightarrow> hm_ok (sub_children n) \<and> (\<forall>(c, m) \<in> set (sub_children n). \<not> sub_is_empty m \<and> sub_full m)"
  by (cases n) (auto simp: sub_kids_full_iff)

lemma sub_full_set_children:
  "sub_full (set_sub_children ks n) \<longleftrightarrow> hm_ok ks \<and> (\<forall>(c, m) \<in> set ks. \<not> sub_is_empty m \<and> sub_full m)"
  by (subst sub_full_iff) simp

lemma sub_full_map_subs [simp]: "sub_full (map_node_subs m f n) \<longleftrightarrow> sub_full n"
  by (cases n; cases m) auto

lemma sub_full_child: "sub_full n \<Longrightarrow> hm_get (sub_children n) c = Some ch \<Longrightarrow> sub_full ch \<and> \<not> sub_is_empty ch"
  by (auto simp: sub_full_iff[of n] dest!: map_of_SomeD)

lemma sub_full_empty [simp]: "sub_full sub_node_empty"
  by (simp add: sub_node_empty_def)

lemma set_hm_put_subset: "set (hm_put k v m) \<subseteq> insert (k, v) (set m)"
  by (induction m) (auto simp: hm_put_def)

lemma set_hm_del_subset: "set (hm_del k m) \<subseteq> set m"
  by (auto simp: hm_del_def AList.delete_eq)

lemma sub_full_subscribe: "sub_full n \<Longrightarrow> sub_full (subscribe_at s m cs n) \<and> \<not> sub_is_empty (subscribe_at s m cs n)"
proof (induction s m cs n rule: subscribe_at.induct)
  case (1 s m n)
  have "s \<in> set (node_subs m (map_node_subs m (hs_ins s) n))" by simp
  then have "\<not> sub_is_empty (map_node_subs m (hs_ins s) n)" by (cases n; cases m) (auto simp: sub_is_empty_def hs_ins_def split: if_splits)
  then show ?case using 1 by simp
next
  case (2 s m c cs n)
  let ?ch = "unwrap_or sub_node_empty (hm_get (sub_children n) c)"
  let ?ks = "hm_put c (subscribe_at s m cs ?ch) (sub_children n)"
  have "sub_full ?ch" using 2(2) sub_full_child by (cases "hm_get (sub_children n) c") auto
  then have new: "sub_full (subscribe_at s m cs ?ch) \<and> \<not> sub_is_empty (subscribe_at s m cs ?ch)" using 2(1) by blast
  have "hm_ok ?ks" using 2(2) by (simp add: sub_full_iff[of n])
  moreover have "\<forall>(d, k) \<in> set ?ks. \<not> sub_is_empty k \<and> sub_full k"
    using new set_hm_put_subset[of c _ "sub_children n"] 2(2) unfolding sub_full_iff[of n] by blast
  moreover have "?ks \<noteq> []" by (metis hm_get_put map_of.simps(1) option.distinct(1))
  ultimately show ?case unfolding subscribe_at.simps Let_def sub_full_set_children by (simp add: sub_is_empty_def)
qed

lemma sub_full_remove: "sub_full n \<Longrightarrow> sub_full (remove_one s m cs n)"
proof (induction s m cs n rule: remove_one.induct)
  case (2 s m c cs n)
  show ?case
  proof (cases "hm_get (sub_children n) c")
    case (Some ch)
    let ?ks = "if sub_is_empty (remove_one s m cs ch) then hm_del c (sub_children n)
      else hm_put c (remove_one s m cs ch) (sub_children n)"
    have "sub_full (remove_one s m cs ch)" using 2 Some sub_full_child by blast
    then have "\<forall>(d, k) \<in> set ?ks. \<not> sub_is_empty k \<and> sub_full k"
      using set_hm_put_subset[of c _ "sub_children n"] set_hm_del_subset[of c "sub_children n"] 2(2)
      unfolding sub_full_iff[of n] by (cases "sub_is_empty (remove_one s m cs ch)") (simp_all, blast+)
    moreover have "hm_ok ?ks" using 2(2) by (simp add: sub_full_iff[of n])
    ultimately have "sub_full (set_sub_children ?ks n)" unfolding sub_full_set_children by blast
    then show ?thesis using Some by (simp add: Let_def)
  qed (use 2 in simp)
qed simp

section \<open>The trie keeps the interface\<close>

definition sub_held :: "sub_trie \<Rightarrow> (nat \<times> task_path \<times> sub_mode) set" where
  "sub_held t = {(s, p, m). valid_or_root p \<and> s \<in> set (subs_at (sub_root t) (components p) m)}"

text \<open>
  The trie and the lists beside it agree, hold no empty node and no empty list, and name real
  paths only.
\<close>

definition sub_ok :: "sub_trie \<Rightarrow> bool" where
  "sub_ok t \<longleftrightarrow> sub_full (sub_root t) \<and> hm_ok (by_subscriber t) \<and>
     (\<forall>s subs. hm_get (by_subscriber t) s = Some subs \<longrightarrow> subs \<noteq> []) \<and>
     (\<forall>cs m. subs_at (sub_root t) cs m \<noteq> [] \<longrightarrow> list_all valid_component cs) \<and>
     (\<forall>s p m. (p, m) \<in> set (unwrap_or [] (hm_get (by_subscriber t) s)) \<longleftrightarrow> (s, p, m) \<in> sub_held t)"

definition path_under :: "task_path \<Rightarrow> task_path \<Rightarrow> bool" where
  "path_under p q = prefix (components q) (components p)"

lemma sub_okD:
  assumes "sub_ok t"
  shows "sub_full (sub_root t)" "hm_ok (by_subscriber t)"
    "hm_get (by_subscriber t) s = Some subs \<Longrightarrow> subs \<noteq> []"
    "x \<in> set (subs_at (sub_root t) cs m) \<Longrightarrow> list_all valid_component cs"
    "(p, m) \<in> set (unwrap_or [] (hm_get (by_subscriber t) s)) \<longleftrightarrow> (s, p, m) \<in> sub_held t"
proof -
  show "list_all valid_component cs" if "x \<in> set (subs_at (sub_root t) cs m)"
    using assms that unfolding sub_ok_def by (metis empty_iff list.set(1))
qed (use assms in \<open>simp_all add: sub_ok_def\<close>)

lemma sub_okI:
  assumes "sub_full (sub_root t)" "hm_ok (by_subscriber t)"
    "\<And>s subs. hm_get (by_subscriber t) s = Some subs \<Longrightarrow> subs \<noteq> []"
    "\<And>x cs m. x \<in> set (subs_at (sub_root t) cs m) \<Longrightarrow> list_all valid_component cs"
    "\<And>s p m. (p, m) \<in> set (unwrap_or [] (hm_get (by_subscriber t) s)) \<longleftrightarrow> (s, p, m) \<in> sub_held t"
  shows "sub_ok t"
  unfolding sub_ok_def
proof (intro conjI allI impI)
  show "list_all valid_component cs" if "subs_at (sub_root t) cs m \<noteq> []" for cs m
    using assms(4)[of "hd (subs_at (sub_root t) cs m)" cs m] that by simp
qed (use assms in blast)+

lemma sub_trie_new_ok: "sub_ok sub_trie_new"
  by (rule sub_okI) (simp_all add: sub_trie_new_def sub_held_def)

lemma held_subscribe:
  "valid_or_root p \<Longrightarrow> sub_held (sub_subscribe s p m t) = insert (s, p, m) (sub_held t)"
  by (auto simp: sub_held_def sub_subscribe_def set_subs_subscribe components_inject split: if_splits)

lemma ok_subscribe:
  assumes "sub_ok t" "valid_or_root p"
  shows "sub_ok (sub_subscribe s p m t)"
proof (rule sub_okI)
  note ok = sub_okD[OF assms(1)]
  show "sub_full (sub_root (sub_subscribe s p m t))" "hm_ok (by_subscriber (sub_subscribe s p m t))"
    using ok(1,2) sub_full_subscribe by (auto simp: sub_subscribe_def)
  show "subs \<noteq> []" if "hm_get (by_subscriber (sub_subscribe s p m t)) r = Some subs" for r subs
    using that ok(3)[of r] by (auto simp: sub_subscribe_def hs_ins_def split: if_splits)
  show "list_all valid_component cs" if "x \<in> set (subs_at (sub_root (sub_subscribe s p m t)) cs k)" for x cs k
    using that ok(4)[of x cs k] valid_path_components[OF assms(2)]
    by (auto simp: sub_subscribe_def set_subs_subscribe split: if_splits)
  show "(q, k) \<in> set (unwrap_or [] (hm_get (by_subscriber (sub_subscribe s p m t)) r)) \<longleftrightarrow>
      (r, q, k) \<in> sub_held (sub_subscribe s p m t)" for r q k
    using ok(5)[of q k r] unfolding held_subscribe[OF assms(2)] by (auto simp: sub_subscribe_def)
qed

lemma held_unsubscribe:
  "valid_or_root p \<Longrightarrow> sub_held (sub_unsubscribe s p m t) = sub_held t - {(s, p, m)}"
  by (auto simp: sub_held_def sub_unsubscribe_def set_subs_remove components_inject split: if_splits)

lemma ok_unsubscribe:
  assumes "sub_ok t" "valid_or_root p"
  shows "sub_ok (sub_unsubscribe s p m t)"
proof (rule sub_okI)
  note ok = sub_okD[OF assms(1)]
  show "sub_full (sub_root (sub_unsubscribe s p m t))" "hm_ok (by_subscriber (sub_unsubscribe s p m t))"
    using ok(1,2) sub_full_remove by (auto simp: sub_unsubscribe_def Let_def split: option.splits)
  show "subs \<noteq> []" if "hm_get (by_subscriber (sub_unsubscribe s p m t)) r = Some subs" for r subs
    using that ok(3)[of r] by (auto simp: sub_unsubscribe_def Let_def split: option.splits if_splits)
  show "list_all valid_component cs" if "x \<in> set (subs_at (sub_root (sub_unsubscribe s p m t)) cs k)" for x cs k
    using that ok(4)[of x cs k] by (auto simp: sub_unsubscribe_def set_subs_remove)
  have "set (unwrap_or [] (hm_get (by_subscriber (sub_unsubscribe s p m t)) r)) =
      set (unwrap_or [] (hm_get (by_subscriber t) r)) - (if r = s then {(p, m)} else {})" for r
  proof (cases "hm_get (by_subscriber t) s")
    case (Some subs)
    have "hs_del (p, m) subs = [] \<longleftrightarrow> set subs - {(p, m)} = {}" by (metis set_empty set_hs_del)
    then show ?thesis using Some by (auto simp: sub_unsubscribe_def Let_def)
  qed (simp add: sub_unsubscribe_def)
  then show "(q, k) \<in> set (unwrap_or [] (hm_get (by_subscriber (sub_unsubscribe s p m t)) r)) \<longleftrightarrow>
      (r, q, k) \<in> sub_held (sub_unsubscribe s p m t)" for r q k
    using ok(5)[of q k r] unfolding held_unsubscribe[OF assms(2)] by auto
qed

lemma set_subs_remove_all:
  "set (subs_at (fold (\<lambda>(p, m). remove_one s m (components p)) subs n) ds k) =
    set (subs_at n ds k) - {x. x = s \<and> (\<exists>p. (p, k) \<in> set subs \<and> components p = ds)}"
  by (induction subs arbitrary: n) (auto simp: set_subs_remove split: if_splits)

lemma sub_full_remove_all: "sub_full n \<Longrightarrow> sub_full (fold (\<lambda>(p, m). remove_one s m (components p)) subs n)"
  by (induction subs arbitrary: n) (auto simp: sub_full_remove)

lemma subs_remove_subscriber:
  assumes "sub_ok t"
  shows "set (subs_at (sub_root (sub_remove_subscriber s t)) ds k) = set (subs_at (sub_root t) ds k) - {s}"
proof -
  note ok = sub_okD[OF assms]
  have mem: "s \<in> set (subs_at (sub_root t) ds k) \<longleftrightarrow> list_all valid_component ds \<and>
      (path_str ds, k) \<in> set (unwrap_or [] (hm_get (by_subscriber t) s))"
    using ok(4)[of s ds k] ok(5)[of "path_str ds" k s] by (auto simp: sub_held_def)
  have "\<exists>p. (p, k) \<in> set subs \<and> components p = ds" if "(path_str ds, k) \<in> set subs" "list_all valid_component ds" for subs
    using that by (intro exI[of _ "path_str ds"]) simp
  then show ?thesis using mem
    by (auto simp: sub_remove_subscriber_def set_subs_remove_all split: option.splits)
qed

lemma held_remove_subscriber:
  "sub_ok t \<Longrightarrow> sub_held (sub_remove_subscriber s t) = {x \<in> sub_held t. fst x \<noteq> s}"
  by (auto simp: sub_held_def subs_remove_subscriber)

lemma ok_remove_subscriber:
  assumes "sub_ok t"
  shows "sub_ok (sub_remove_subscriber s t)"
proof (rule sub_okI)
  note ok = sub_okD[OF assms(1)]
  show "sub_full (sub_root (sub_remove_subscriber s t))" "hm_ok (by_subscriber (sub_remove_subscriber s t))"
    using ok(1,2) sub_full_remove_all by (auto simp: sub_remove_subscriber_def split: option.splits)
  have by_sub: "hm_get (by_subscriber (sub_remove_subscriber s t)) r = (if r = s then None else hm_get (by_subscriber t) r)" for r
    by (auto simp: sub_remove_subscriber_def split: option.splits)
  show "subs \<noteq> []" if "hm_get (by_subscriber (sub_remove_subscriber s t)) r = Some subs" for r subs
    using that ok(3)[of r] by (auto simp: by_sub split: if_splits)
  show "list_all valid_component cs" if "x \<in> set (subs_at (sub_root (sub_remove_subscriber s t)) cs k)" for x cs k
    using that ok(4)[of x cs k] by (auto simp: subs_remove_subscriber[OF assms])
  show "(q, k) \<in> set (unwrap_or [] (hm_get (by_subscriber (sub_remove_subscriber s t)) r)) \<longleftrightarrow>
      (r, q, k) \<in> sub_held (sub_remove_subscriber s t)" for r q k
    using ok(5)[of q k r] unfolding held_remove_subscriber[OF assms] by_sub by auto
qed

lemma is_subscribed_at_subs:
  "(s \<in> set (subtree_subs n) \<or> is_subscribed_at s cs n) \<longleftrightarrow>
     s \<in> set (subs_at n cs Exact) \<or> (\<exists>ds. prefix ds cs \<and> s \<in> set (subs_at n ds Subtree))"
proof (induction s cs n rule: is_subscribed_at.induct)
  case (2 s c cs n)
  have "(\<exists>ds. prefix ds (c # cs) \<and> s \<in> set (subs_at n ds Subtree)) \<longleftrightarrow> s \<in> set (subtree_subs n) \<or>
      (\<exists>ds. prefix ds cs \<and> s \<in> set (subs_at n (c # ds) Subtree))"
    by (metis node_subs.simps(2) prefix_Cons prefix_bot.bot_least subs_at.simps(1) Cons_prefix_Cons)
  then show ?case using 2 by (cases "hm_get (sub_children n) c") auto
qed auto

lemma is_subscribed_iff:
  assumes "sub_ok t" "valid_or_root p"
  shows "sub_is_subscribed t s p \<longleftrightarrow>
    (s, p, Exact) \<in> sub_held t \<or> (\<exists>q. (s, q, Subtree) \<in> sub_held t \<and> path_under p q)"
proof -
  have "(\<exists>ds. prefix ds (components p) \<and> s \<in> set (subs_at (sub_root t) ds Subtree)) \<longleftrightarrow>
      (\<exists>q. (s, q, Subtree) \<in> sub_held t \<and> path_under p q)"
  proof
    assume "\<exists>ds. prefix ds (components p) \<and> s \<in> set (subs_at (sub_root t) ds Subtree)"
    then obtain ds where ds: "prefix ds (components p)" "s \<in> set (subs_at (sub_root t) ds Subtree)" by blast
    then have "list_all valid_component ds" using sub_okD(4)[OF assms(1)] by blast
    then show "\<exists>q. (s, q, Subtree) \<in> sub_held t \<and> path_under p q"
      using ds by (intro exI[of _ "path_str ds"]) (simp add: sub_held_def path_under_def)
  qed (auto simp: sub_held_def path_under_def)
  then show ?thesis using assms(2) is_subscribed_at_subs[of s "sub_root t" "components p"]
    by (simp add: sub_is_subscribed_def sub_held_def)
qed

lemma set_collect_at:
  "set (collect_at cs n (hs_extend (subtree_subs n) out)) =
     set out \<union> {s. s \<in> set (subtree_subs n) \<or> is_subscribed_at s cs n}"
proof (induction cs arbitrary: n out)
  case (Cons c cs)
  show ?case
  proof (cases "hm_get (sub_children n) c")
    case (Some ch)
    then show ?thesis using Cons[of ch "hs_extend (subtree_subs n) out"] by auto
  qed auto
qed auto

lemma set_collect: "set (sub_collect t p out) = set out \<union> {s. sub_is_subscribed t s p}"
  by (simp add: sub_collect_def sub_is_subscribed_def set_collect_at)

interpretation sub_trie: subscriptions sub_ok valid_or_root path_under sub_held sub_subscribe
    sub_unsubscribe sub_remove_subscriber sub_is_subscribed sub_collect
proof unfold_locales
qed (rule ok_subscribe ok_unsubscribe ok_remove_subscriber held_subscribe held_unsubscribe
    held_remove_subscriber is_subscribed_iff set_collect; assumption)+

text \<open>
  C14. Whatever subscriptions are taken and dropped, in any order, the trie notifies for a path
  exactly the subscribers that a plain set of subscriptions gives: those at the path itself and
  those of the whole subtree of a path at or above it.
\<close>

theorem sub_trie_refines_set:
  assumes "list_all (sub_op_valid valid_or_root) ops" "valid_or_root p"
  shows "set (sub_collect (fold (sub_op_run sub_subscribe sub_unsubscribe sub_remove_subscriber) ops sub_trie_new) p []) =
    {s. (s, p, Exact) \<in> fold sub_op_set ops {} \<or> (\<exists>q. (s, q, Subtree) \<in> fold sub_op_set ops {} \<and> path_under p q)}"
proof -
  have "sub_held sub_trie_new = {}" by (simp add: sub_held_def sub_trie_new_def)
  then show ?thesis using sub_trie.run_hears[OF sub_trie_new_ok assms] by simp
qed

theorem sub_trie_refines_set_witness:
  "set (sub_collect (fold (sub_op_run sub_subscribe sub_unsubscribe sub_remove_subscriber)
      [AddSub 1 ''a'' Subtree, AddSub 2 ''a/b'' Exact, CancelSub 2 ''a/b'' Exact] sub_trie_new) ''a/b'' []) =
    {s. (s, ''a/b'', Exact) \<in> fold sub_op_set [AddSub 1 ''a'' Subtree, AddSub 2 ''a/b'' Exact, CancelSub 2 ''a/b'' Exact] {} \<or>
      (\<exists>q. (s, q, Subtree) \<in> fold sub_op_set [AddSub 1 ''a'' Subtree, AddSub 2 ''a/b'' Exact, CancelSub 2 ''a/b'' Exact] {} \<and>
        path_under ''a/b'' q)}"
proof (rule sub_trie_refines_set)
  have "valid_path ''a''" "valid_path ''a/b''" by code_simp+
  then show "list_all (sub_op_valid valid_or_root) [AddSub 1 ''a'' Subtree, AddSub 2 ''a/b'' Exact, CancelSub 2 ''a/b'' Exact]"
    "valid_or_root ''a/b''" by (simp_all add: valid_or_root_def)
qed

end
