(* ===== verification/Task_Model.thy ===== *)
theory Task_Model
  imports Task_Spec Path_Trie Sub_Trie "HOL-Library.Word"
begin

text \<open>
  A task as the kernel keeps it (\<open>src/src/kernel/task.rs\<close>): its states and exits, the commands
  it takes and the effects it reports, and the handle with what follows from it alone: whether
  it is satisfied, where an exit lands, whether its run has ended.

  A \<open>TaskId\<close> is a natural number, a \<open>Duration\<close> or \<open>Instant\<close> a number of nanoseconds (an
  \<open>Instant\<close> since some fixed point). A \<open>Box<dyn Task>\<close> is a machine: it takes a command and
  answers with the machine it is then and the effects it reports.
\<close>

section \<open>States and exits\<close>

definition init_task_id :: nat where
  "init_task_id = 0"

definition secs :: "nat \<Rightarrow> nat" where
  "secs n = n * 1000000000"

definition millis :: "nat \<Rightarrow> nat" where
  "millis n = n * 1000000"

definition stop_timeout_default :: nat where
  "stop_timeout_default = secs 10"

record exit_info =
  ei_code :: "int option"
  ei_signal :: "int option"
  ei_ready_timeout :: bool

definition exit_code :: "int \<Rightarrow> exit_info" where
  "exit_code c = \<lparr>ei_code = Some c, ei_signal = None, ei_ready_timeout = False\<rparr>"

definition exit_signal :: "int \<Rightarrow> exit_info" where
  "exit_signal s = \<lparr>ei_code = None, ei_signal = Some s, ei_ready_timeout = False\<rparr>"

definition exit_error :: exit_info where
  "exit_error = \<lparr>ei_code = None, ei_signal = None, ei_ready_timeout = False\<rparr>"

definition exit_success :: "exit_info \<Rightarrow> bool" where
  "exit_success i = (ei_code i = Some 0 \<and> \<not> ei_ready_timeout i)"

datatype state_reason = ReadyTimeout | KillTimeout

datatype task_state =
    Idle
  | Starting
  | Running
  | Ready
  | Stopping
  | Backoff exit_info
  | Done exit_info
  | Exited exit_info

fun is_active :: "task_state \<Rightarrow> bool" where
  "is_active Starting = True"
| "is_active Running = True"
| "is_active Ready = True"
| "is_active Stopping = True"
| "is_active Idle = False"
| "is_active (Backoff _) = False"
| "is_active (Done _) = False"
| "is_active (Exited _) = False"

fun is_up :: "task_kind \<Rightarrow> task_state \<Rightarrow> bool" where
  "is_up Service s = (s = Ready)"
| "is_up Job s = (s = Running)"

datatype ready_mode = Immediate | Reported "nat option"

fun ready_timeout :: "ready_mode \<Rightarrow> nat option" where
  "ready_timeout Immediate = None"
| "ready_timeout (Reported t) = t"

datatype restart_mode = Never | OnFailure | Always

definition takes_ready :: "task_kind \<Rightarrow> bool" where
  "takes_ready k = (k = Service)"

definition takes_restart :: "task_kind \<Rightarrow> restart_mode \<Rightarrow> bool" where
  "takes_restart k r = (k = Service \<or> r \<noteq> Always)"

definition restart_all :: "restart_mode list" where
  "restart_all = [Never, OnFailure, Always]"

fun restart_name :: "restart_mode \<Rightarrow> string" where
  "restart_name Never = ''never''"
| "restart_name OnFailure = ''on-failure''"
| "restart_name Always = ''always''"

definition restart_from_name :: "string \<Rightarrow> restart_mode option" where
  "restart_from_name s = find (\<lambda>m. restart_name m = s) restart_all"

section \<open>Commands and effects\<close>

datatype task_effect = EffStarted | EffReady | EffStopped exit_info

record run =
  run_spec :: task_spec
  run_path :: "task_path option"

text \<open>\<open>TaskNotify\<close>; a \<open>ScreenHandle\<close> is a number.\<close>

datatype task_notify =
    Added "task_path option" "string option" "nat option" task_kind task_state "nat option"
  | FolderAdded task_path "nat option" bool
  | StateChanged task_state
  | Removed
  | Changed "string option" task_kind
  | Moved "task_path option" "nat option"

text \<open>A message is a notification from a task or folder, or anything else (a number).\<close>

datatype task_msg = Notification nat task_notify | OtherMsg nat

datatype task_cmd =
    CmdStart "run option"
  | CmdStop
  | CmdKill
  | CmdMsg task_msg
  | CmdFreeze nat
  | CmdThaw

codatatype task_obj = TaskObj (react: "task_cmd \<Rightarrow> task_obj \<times> task_effect list")

text \<open>
  \<open>ChannelTask\<close>: each command is sent on, and the task reports itself dead when the channel is
  closed; \<open>sent_ok n\<close> says whether the \<open>n\<close>th send finds it open.
\<close>

primcorec channel_task :: "(nat \<Rightarrow> bool) \<Rightarrow> nat \<Rightarrow> task_obj" where
  "react (channel_task sent_ok n) =
     (\<lambda>cmd. (channel_task sent_ok (Suc n), if sent_ok n then [] else [EffStopped exit_error]))"

text \<open>\<open>TargetTask\<close>: no process of its own; it exists to hold edges.\<close>

definition target_effects :: "task_cmd \<Rightarrow> task_effect list" where
  "target_effects cmd =
     (case cmd of
        CmdStart _ \<Rightarrow> [EffStarted]
      | CmdStop \<Rightarrow> [EffStopped (exit_code 0)]
      | CmdKill \<Rightarrow> [EffStopped (exit_code 0)]
      | CmdMsg _ \<Rightarrow> []
      | CmdFreeze _ \<Rightarrow> []
      | CmdThaw \<Rightarrow> [])"

primcorec target_task :: task_obj where
  "react target_task = (\<lambda>cmd. (target_task, target_effects cmd))"

section \<open>The handle\<close>

record next_run =
  nr_kind :: task_kind
  nr_ready :: ready_mode
  nr_stop_timeout :: nat
  nr_spec :: "task_spec option"

text \<open>
  What selects tasks (\<open>TaskSelector\<close> of \<open>kernel_message.rs\<close>) and what a registration says of a
  task (\<open>TaskDef\<close>). \<open>MakeCopy\<close> makes a registration, so the types depend on each other; the
  fields of \<open>TaskDef\<close> but for \<open>make_copy\<close> are in \<open>def_core\<close>. A factory is given the id of
  the context it would get.
\<close>

datatype space_selector = OneSpace task_space_id | AnySpace

datatype task_selector =
    SelId nat
  | SelGlob space_selector string
  | SelTag space_selector string

record def_core =
  def_kind :: task_kind
  def_ready :: ready_mode
  def_restart :: restart_mode
  def_stop_timeout :: nat
  def_deps :: "task_selector list"
  def_pinned :: bool
  def_saved_pin :: bool
  def_space :: task_space_id
  def_path :: "task_path option"
  def_label :: "string option"
  def_place :: place
  def_vt :: "nat option"
  def_tags :: "string list"
  def_spec :: "task_spec option"
  def_origin :: "source option"
  def_next :: "next_run option"

datatype task_def = TaskDef (def_of: def_core) (def_make_copy: "make_copy option")
  and make_copy =
    MakeCopy (run_copy: "nat \<Rightarrow> task_key option \<Rightarrow> task_spec \<Rightarrow> string + task_registration")
  and task_registration =
    TaskRegistration (reg_id: nat) (reg_def: task_def) (reg_factory: "nat \<Rightarrow> task_obj")

definition task_def_default :: task_def where
  "task_def_default = TaskDef
     \<lparr>def_kind = Service, def_ready = Immediate, def_restart = Never, def_stop_timeout = stop_timeout_default,
      def_deps = [], def_pinned = False, def_saved_pin = False, def_space = default_space, def_path = None,
      def_label = None, def_place = Last, def_vt = None, def_tags = [], def_spec = None, def_origin = None,
      def_next = None\<rparr> None"

record task_handle =
  h_task :: task_obj
  h_state :: task_state
  h_epoch :: nat
  h_vetoed :: bool
  h_killed :: bool
  h_attempts :: "32 word"
  h_last_start :: "nat option"
  h_deadline :: "nat option"
  h_wanted :: bool
  h_supported :: bool
  h_wanted_parents :: int
  h_active_dependents :: int
  h_start_failed :: bool
  h_stop_timed_out :: bool
  h_saved_pin :: bool
  h_kind :: task_kind
  h_ready :: ready_mode
  h_stop_timeout :: nat
  h_next :: "next_run option"
  h_restart :: restart_mode
  h_space :: task_space_id
  h_path :: "task_path option"
  h_label :: "string option"
  h_vt :: "nat option"
  h_tags :: "string list"
  h_spec :: "task_spec option"
  h_origin :: "source option"
  h_make_copy :: "make_copy option"

definition adopt :: "next_run \<Rightarrow> task_handle \<Rightarrow> bool \<times> task_handle" where
  "adopt n h =
     (h_kind h \<noteq> nr_kind n,
      h\<lparr>h_kind := nr_kind n, h_ready := nr_ready n, h_stop_timeout := nr_stop_timeout n, h_spec := nr_spec n\<rparr>)"

definition handle_def_spec :: "task_handle \<Rightarrow> task_spec option" where
  "handle_def_spec h = (case h_next h of Some n \<Rightarrow> nr_spec n | None \<Rightarrow> h_spec h)"

definition started_state :: "task_handle \<Rightarrow> task_state" where
  "started_state h =
     (case (h_kind h, h_ready h) of
        (Service, Immediate) \<Rightarrow> Ready
      | (Service, Reported _) \<Rightarrow> Running
      | (Job, _) \<Rightarrow> Running)"

definition is_satisfied :: "task_handle \<Rightarrow> bool" where
  "is_satisfied h =
     (case h_kind h of
        Service \<Rightarrow> h_state h = Ready
      | Job \<Rightarrow> (case h_state h of Done _ \<Rightarrow> True | _ \<Rightarrow> False))"

definition exit_state :: "task_handle \<Rightarrow> exit_info \<Rightarrow> task_state" where
  "exit_state h i =
     (if h_kind h = Job \<and> exit_success i then Done i
      else
        (let retry = (case h_restart h of Never \<Rightarrow> False | OnFailure \<Rightarrow> \<not> exit_success i | Always \<Rightarrow> True)
         in if retry then Backoff i else Exited i))"

definition has_ended :: "task_handle \<Rightarrow> bool" where
  "has_ended h =
     (case h_state h of
        Exited _ \<Rightarrow> True
      | Done _ \<Rightarrow> True
      | Stopping \<Rightarrow>
          h_start_failed h \<and>
          (case exit_state h (exit_error\<lparr>ei_ready_timeout := True\<rparr>) of Exited _ \<Rightarrow> True | _ \<Rightarrow> False)
      | _ \<Rightarrow> False)"

definition handle_reason :: "task_handle \<Rightarrow> state_reason option" where
  "handle_reason h =
     (case h_state h of
        Backoff i \<Rightarrow> if ei_ready_timeout i then Some ReadyTimeout else None
      | Done i \<Rightarrow> if ei_ready_timeout i then Some ReadyTimeout else None
      | Exited i \<Rightarrow> if ei_ready_timeout i then Some ReadyTimeout else None
      | Stopping \<Rightarrow> if h_start_failed h then Some ReadyTimeout else None
      | Idle \<Rightarrow> if h_stop_timed_out h then Some KillTimeout else None
      | _ \<Rightarrow> None)"

section \<open>Facts\<close>

lemma exit_state_simps [simp]:
  "exit_state h i \<noteq> Idle" "exit_state h i \<noteq> Starting" "exit_state h i \<noteq> Running"
  "exit_state h i \<noteq> Ready" "exit_state h i \<noteq> Stopping"
  by (auto simp: exit_state_def Let_def)

lemma exit_state_not_active [simp]: "\<not> is_active (exit_state h i)"
  by (auto simp: exit_state_def Let_def)

lemma started_state_cases: "started_state h = Ready \<or> started_state h = Running"
  by (auto simp: started_state_def split: task_kind.splits ready_mode.splits)

lemma satisfied_cases:
  "is_satisfied h \<longleftrightarrow> h_kind h = Service \<and> h_state h = Ready \<or> h_kind h = Job \<and> (\<exists>i. h_state h = Done i)"
  by (auto simp: is_satisfied_def split: task_kind.splits task_state.splits)

lemma restart_name_inject: "restart_name a = restart_name b \<longleftrightarrow> a = b"
  by (cases a; cases b) auto

text \<open>
  Every restart mode is read back from the name the config writes for it, and no other name
  is one.
\<close>

theorem restart_name_roundtrip: "restart_from_name s = Some m \<longleftrightarrow> restart_name m = s"
proof -
  have "restart_from_name (restart_name m) = Some m" for m by (cases m) (simp_all add: restart_from_name_def restart_all_def)
  moreover have "restart_from_name s = Some m \<Longrightarrow> restart_name m = s"
    by (auto simp: restart_from_name_def find_Some_iff)
  ultimately show ?thesis by auto
qed

text \<open>
  Where an exit lands: a job's success is \<open>Done\<close>; any other exit is retried exactly as the
  restart mode says, and the state it lands in carries the exit.
\<close>

theorem exit_state_cases:
  "exit_state h i =
    (if h_kind h = Job \<and> exit_success i then Done i
     else case h_restart h of
       Never \<Rightarrow> Exited i
     | OnFailure \<Rightarrow> if exit_success i then Exited i else Backoff i
     | Always \<Rightarrow> Backoff i)"
  by (cases "h_restart h") (auto simp: exit_state_def Let_def)

end
