(* ===== verification/Kernel_Message.thy ===== *)
theory Kernel_Message
  imports Task_Model
begin

text \<open>
  What the kernel is told and asked, and what it answers (\<open>src/src/kernel/kernel_message.rs\<close>,
  and the snapshot types of \<open>src/src/upgrade/snapshot.rs\<close>). A channel an answer goes to is a
  number; the answers sent are a list of channel and value.
\<close>

section \<open>Registrations\<close>

record folder_settings =
  fs_collapsed :: bool
  fs_origin :: "source option"

record folder_def =
  fd_id :: nat
  fd_space :: task_space_id
  fd_path :: task_path
  fd_place :: place
  fd_settings :: folder_settings

datatype registration = RegTask task_registration | RegFolder folder_def

record folder_info =
  fi_id :: nat
  fi_space :: task_space_id
  fi_path :: task_path
  fi_after :: "nat option"
  fi_settings :: folder_settings

datatype register_error =
    IdTaken
  | ReservedSpace task_space_id
  | PathTaken task_key
  | PathNested task_key task_key
  | MissingDep task_selector
  | DepCycle string
  | ChangedMeanwhile
  | NoDefinition
  | FolderAt task_key

record task_update =
  tu_next :: next_run
  tu_restart :: restart_mode
  tu_deps :: "task_selector list"
  tu_tags :: "string list"
  tu_label :: "string option"
  tu_was :: "task_spec option"
  tu_restart_running :: bool

record move_task_req =
  mv_space :: task_space_id
  mv_from :: task_path
  mv_to :: task_path
  mv_place :: place

record duplicate_request =
  dr_label :: "string option"
  dr_path :: "task_path option"
  dr_start :: bool

section \<open>Verbs and waits\<close>

datatype wait_cond = WaitReady | WaitExit | WaitDown

datatype verb = Up | Start | Restart | ForceRestart | Stop | Kill | Veto

fun verb_wait_cond :: "verb \<Rightarrow> wait_cond" where
  "verb_wait_cond Up = WaitReady"
| "verb_wait_cond Start = WaitReady"
| "verb_wait_cond Restart = WaitReady"
| "verb_wait_cond ForceRestart = WaitReady"
| "verb_wait_cond Stop = WaitDown"
| "verb_wait_cond Kill = WaitDown"
| "verb_wait_cond Veto = WaitDown"

datatype wait_on =
    WaitMatches task_selector
  | WaitIds "nat list"
  | WaitAct verb task_selector

record wait_request =
  wr_on :: wait_on
  wr_cond :: wait_cond
  wr_events :: nat

datatype wait_mark = Pending | Met | Failed

datatype wait_verdict = VerdictMet | VerdictFailed

section \<open>Answers\<close>

record task_info =
  ti_id :: nat
  ti_space :: task_space_id
  ti_path :: "task_path option"
  ti_label :: "string option"
  ti_kind :: task_kind
  ti_state :: task_state
  ti_reason :: "state_reason option"
  ti_vt :: "nat option"

record task_description =
  td_info :: task_info
  td_spec :: "task_spec option"
  td_origin :: "source option"

record dep_explain =
  de_name :: string
  de_state :: task_state
  de_reason :: "state_reason option"
  de_wanted :: bool
  de_satisfied :: bool

record task_explain =
  te_id :: nat
  te_name :: string
  te_state :: task_state
  te_reason :: "state_reason option"
  te_wanted :: bool
  te_supported :: bool
  te_vetoed :: bool
  te_pinned :: bool
  te_saved_pin :: bool
  te_required_by :: "string list"
  te_deps :: "dep_explain list"
  te_attempts :: "32 word"

record wait_task =
  wt_info :: task_info
  wt_mark :: wait_mark
  wt_blocked_by :: "string option"
  wt_removed :: bool
  wt_why :: "task_explain option"

datatype wait_event =
    WaitSet "wait_task list"
  | WaitChanged wait_task
  | WaitDone wait_verdict "wait_task list" bool

text \<open>The kernel's part of an upgrade snapshot; a task's own answer to a freeze is a number.\<close>

record snap_task =
  st_id :: nat
  st_space :: string
  st_path :: "string option"
  st_label :: "string option"
  st_tags :: "string list"
  st_pinned :: bool
  st_deps :: "nat list"
  st_restart :: restart_mode
  st_job :: bool
  st_ready_timeout_ms :: "nat option"
  st_stop_timeout_ms :: "nat option"
  st_state :: task_state
  st_vetoed :: bool
  st_killed :: bool
  st_start_failed :: bool
  st_stop_timed_out :: bool
  st_saved_pin :: bool
  st_attempts :: "32 word"
  st_last_start_secs_ago :: "nat option"
  st_timer_ms :: "nat option"
  st_spec :: "task_spec option"
  st_run_spec :: "task_spec option"
  st_origin :: "source option"
  st_kind :: nat

record snap_folder =
  sf_id :: nat
  sf_space :: string
  sf_path :: string
  sf_after :: "nat option"
  sf_collapsed :: bool
  sf_origin :: "source option"

record kernel_snapshot =
  ks_next_task_id :: nat
  ks_tasks :: "snap_task list"
  ks_folders :: "snap_folder list"

datatype reply =
    CountReply nat
  | RegisterReply "register_error option"
  | RegistersReply "register_error option list"
  | CountResult "register_error + nat"
  | MoveResult "move_error + nat"
  | ActiveReply bool
  | WaitReply wait_event
  | FreezeResult "string + kernel_snapshot"
  | QuitBoundReply nat
  | TasksReply "task_info list"
  | ExplainReply "task_explain list"
  | DescribeReply "task_description list"
  | FoldersReply "folder_info list"

section \<open>Commands\<close>

datatype kernel_query =
    ListTasks task_selector nat
  | ExplainTasks task_selector nat
  | DescribeTasks task_selector nat
  | ListFolders task_space_id nat

datatype kernel_command =
    Quit
  | QuitWithoutSave
  | QuitWithin bool nat
  | RegisterTask task_registration nat
  | RegisterTasks "registration list" nat
  | Act verb task_selector "nat option"
  | Unpin task_selector "nat option"
  | Remove task_selector "nat option"
  | DropFolder nat "nat option"
  | SetFolder nat folder_settings "nat option"
  | SetLabel task_selector "string option" "nat option"
  | Duplicate task_selector duplicate_request nat
  | Update task_selector task_update nat
  | SetOrigin task_selector "source option" "nat option"
  | Move move_task_req nat
  | TaskMsg nat task_msg
  | Query kernel_query
  | SubscribePath task_key sub_mode
  | UnsubscribePath task_key sub_mode
  | WatchActive task_selector nat
  | Wait wait_request
  | TaskStarted
  | TaskReady
  | TaskStopped exit_info
  | StateTimeout nat nat
  | Freeze nat
  | TaskFrozen nat nat
  | FreezeTimeout nat
  | Thaw

record kernel_message =
  km_from :: nat
  km_command :: kernel_command

section \<open>Texts\<close>

definition quoted :: "string \<Rightarrow> string" where
  "quoted s = [CHR 0x27] @ s @ [CHR 0x27]"

fun show_move_error :: "move_error \<Rightarrow> string" where
  "show_move_error (NotFound p) = ''no task at or under '' @ quoted p"
| "show_move_error (MoveTaken p) = quoted p @ '' is taken''"
| "show_move_error (UnderTask p) = quoted p @ '' is a task; a task can'' @ [CHR 0x27] @ ''t have tasks under it''"
| "show_move_error IntoItself = ''a group can'' @ [CHR 0x27] @ ''t go under itself''"
| "show_move_error (BadAfter p) = quoted p @ '' is not beside the destination''"

definition show_space :: "space_selector \<Rightarrow> string" where
  "show_space s =
     (case s of
        OneSpace sp \<Rightarrow> if is_default_space sp then [] else ''@'' @ space_str sp @ ''/''
      | AnySpace \<Rightarrow> ''@*/'')"

fun show_selector :: "task_selector \<Rightarrow> string" where
  "show_selector (SelId i) = ''{id: '' @ show_nat i @ ''}''"
| "show_selector (SelGlob s pattern) = show_space s @ pattern"
| "show_selector (SelTag s tag) = show_space s @ ''+'' @ tag"

definition select_all :: task_selector where
  "select_all = SelGlob (OneSpace default_space) ''**''"

fun show_register_error :: "register_error \<Rightarrow> string" where
  "show_register_error IdTaken = ''task id is already registered''"
| "show_register_error (ReservedSpace s) = ''space '' @ quoted (''@'' @ space_str s) @ '' is reserved''"
| "show_register_error (PathTaken k) = ''a task already exists at '' @ quoted (task_key_str k)"
| "show_register_error (PathNested key other) =
     (let (above, below) =
        (if path_depth (key_path other) < path_depth (key_path key) then (other, key) else (key, other))
      in ''a task can'' @ [CHR 0x27] @ ''t have tasks under it: '' @ quoted (task_key_str below) @
         '' is under '' @ quoted (task_key_str above))"
| "show_register_error (MissingDep s) = ''dep '' @ quoted (show_selector s) @ '' matches no task''"
| "show_register_error (DepCycle d) = quoted d @ '' depends on this task, so it can'' @ [CHR 0x27] @ ''t be a dep''"
| "show_register_error ChangedMeanwhile = ''the task changed meanwhile''"
| "show_register_error NoDefinition = ''the task is not one made from a definition''"
| "show_register_error (FolderAt k) = quoted (task_key_str k) @ '' is a folder''"

definition task_name :: "nat \<Rightarrow> task_space_id \<Rightarrow> task_path option \<Rightarrow> string" where
  "task_name i s p =
     (case p of
        Some p \<Rightarrow> task_key_str (task_key_new s p)
      | None \<Rightarrow> ''<task:'' @ show_nat i @ ''>'')"

definition info_name :: "task_info \<Rightarrow> string" where
  "info_name t = task_name (ti_id t) (ti_space t) (ti_path t)"

text \<open>
  A task's printed name says which task it is: among valid paths the space and path are read
  off it, and a task without a path is told apart by its id.
\<close>

theorem task_name_inject:
  assumes "\<forall>x \<in> {p, q}. \<forall>y. x = Some y \<longrightarrow> valid_path y"
    and "\<forall>x \<in> {s, t}. CHR ''/'' \<notin> set (space_str x)"
  shows "task_name i s p = task_name j t q \<longleftrightarrow>
    (case (p, q) of (Some a, Some b) \<Rightarrow> s = t \<and> a = b | (None, None) \<Rightarrow> i = j | _ \<Rightarrow> False)"
proof -
  have first: "a \<noteq> [] \<and> hd a \<noteq> CHR ''@'' \<and> hd a \<noteq> CHR ''<''" if va: "valid_path a" for a
  proof -
    obtain cs where cs: "a = path_str cs" "list_all valid_component cs" "cs \<noteq> []" using va by (rule valid_pathE)
    then have "hd cs \<noteq> []" "hd a = hd (hd cs)" by (cases cs rule: path_str.cases; simp add: hd_append)+
    moreover have "is_valid_component_char (hd (hd cs))"
      using cs by (cases cs) (auto simp: valid_component_def list_all_iff)
    ultimately show ?thesis using cs path_str_Nil_iff[of cs] by (auto simp: is_valid_component_char_def)
  qed
  have space_eq: "x = y \<longleftrightarrow> space_str x = space_str y" for x y by (cases x; cases y) simp
  have ids: "show_nat i @ ''>'' = show_nat j @ ''>'' \<longleftrightarrow> i = j" by simp
  have key: "task_key_str (task_key_new x a) = task_key_str (task_key_new y b) \<longleftrightarrow> x = y \<and> a = b"
    if "valid_path a" "valid_path b" "CHR ''/'' \<notin> set (space_str x)" "CHR ''/'' \<notin> set (space_str y)" for x y a b
  proof -
    have "split_char (CHR ''/'') (space_str x @ CHR ''/'' # a) = space_str x # split_char (CHR ''/'') a"
      "split_char (CHR ''/'') (space_str y @ CHR ''/'' # b) = space_str y # split_char (CHR ''/'') b"
      using that split_char_append by blast+
    then have "space_str x @ CHR ''/'' # a = space_str y @ CHR ''/'' # b \<Longrightarrow> space_str x = space_str y"
      by (metis list.inject)
    then show ?thesis using first[OF that(1)] first[OF that(2)] space_eq[of x y]
      by (cases a; cases b) (auto simp: task_key_str_def is_default_space_def)
  qed
  have none: "task_name k x None = task_name l y (Some a) \<longleftrightarrow> False" if "valid_path a" for k l x y a
    using first[OF that] by (cases a) (auto simp: task_name_def task_key_str_def is_default_space_def)
  show ?thesis
  proof (cases p; cases q)
    fix a b
    assume "p = Some a" "q = Some b"
    then show ?thesis using key[of a b s t] assms by (simp add: task_name_def)
  next
    fix b
    assume "p = None" "q = Some b"
    then show ?thesis using none[of b] assms(1) by simp
  next
    fix a
    assume "p = Some a" "q = None"
    then show ?thesis using none[of a j t i s] assms(1) by auto
  qed (use ids in \<open>simp add: task_name_def\<close>)
qed

end
