(* ===== verification/Name_Space.thy ===== *)
theory Name_Space
  imports Task_Model
begin

text \<open>
  The namespace (\<open>src/src/kernel/namespace.rs\<close>): for each space the index of its paths and
  its subscriptions.
\<close>

record space_namespace =
  ns_paths :: path_trie
  ns_subs :: sub_trie

type_synonym namespace = "(task_space_id, space_namespace) hm"



definition space_namespace_new :: space_namespace where
  "space_namespace_new = \<lparr>ns_paths = trie_new, ns_subs = sub_trie_new\<rparr>"

definition namespace_new :: namespace where
  "namespace_new = []"

definition space_mut :: "namespace \<Rightarrow> task_space_id \<Rightarrow> space_namespace" where
  "space_mut ns sp = unwrap_or space_namespace_new (hm_get ns sp)"

section \<open>Naming\<close>

definition ns_insert :: "namespace \<Rightarrow> task_key \<Rightarrow> nat \<Rightarrow> place \<Rightarrow> (path_conflict option \<times> namespace) option" where
  "ns_insert ns key i plc =
     (let sp = space_mut ns (key_space key)
      in case trie_insert (ns_paths sp) (key_path key) i plc of
           None \<Rightarrow> None
         | Some (Inl e) \<Rightarrow> Some (Some e, hm_put (key_space key) sp ns)
         | Some (Inr t) \<Rightarrow> Some (None, hm_put (key_space key) (sp\<lparr>ns_paths := t\<rparr>) ns))"

definition ns_insert_folder :: "namespace \<Rightarrow> task_key \<Rightarrow> nat \<Rightarrow> place \<Rightarrow> (path_conflict option \<times> namespace) option" where
  "ns_insert_folder ns key i plc =
     (let sp = space_mut ns (key_space key)
      in case trie_insert_folder (ns_paths sp) (key_path key) i plc of
           None \<Rightarrow> None
         | Some (Inl e) \<Rightarrow> Some (Some e, hm_put (key_space key) sp ns)
         | Some (Inr t) \<Rightarrow> Some (None, hm_put (key_space key) (sp\<lparr>ns_paths := t\<rparr>) ns))"

definition ns_remove_folder :: "namespace \<Rightarrow> task_key \<Rightarrow> nat option \<times> namespace" where
  "ns_remove_folder ns key =
     (case hm_get ns (key_space key) of
        None \<Rightarrow> (None, ns)
      | Some sp \<Rightarrow>
          (let (i, t) = trie_remove_folder (ns_paths sp) (key_path key)
           in (i, hm_put (key_space key) (sp\<lparr>ns_paths := t\<rparr>) ns)))"

definition ns_nodes :: "namespace \<Rightarrow> task_key \<Rightarrow> (task_path \<times> nat) list" where
  "ns_nodes ns key =
     (case hm_get ns (key_space key) of None \<Rightarrow> [] | Some sp \<Rightarrow> trie_nodes (ns_paths sp) (key_path key))"

definition selected_spaces :: "namespace \<Rightarrow> space_selector \<Rightarrow> (task_space_id \<times> space_namespace) list" where
  "selected_spaces ns sel =
     (case sel of
        OneSpace sp \<Rightarrow> (case hm_get ns sp of None \<Rightarrow> [] | Some n \<Rightarrow> [(sp, n)])
      | AnySpace \<Rightarrow> ns)"

definition ns_glob_nodes :: "namespace \<Rightarrow> space_selector \<Rightarrow> string \<Rightarrow> task_key list" where
  "ns_glob_nodes ns sel pattern =
     concat (map (\<lambda>(sp, n). map (task_key_new sp) (trie_glob_nodes (ns_paths n) pattern)) (selected_spaces ns sel))"

definition ns_remove :: "namespace \<Rightarrow> task_key \<Rightarrow> nat option \<times> namespace" where
  "ns_remove ns key =
     (case hm_get ns (key_space key) of
        None \<Rightarrow> (None, ns)
      | Some sp \<Rightarrow>
          (let (i, t) = trie_remove (ns_paths sp) (key_path key)
           in (i, hm_put (key_space key) (sp\<lparr>ns_paths := t\<rparr>) ns)))"

definition ns_move_node ::
  "namespace \<Rightarrow> task_space_id \<Rightarrow> task_path \<Rightarrow> task_path \<Rightarrow> place \<Rightarrow> (move_error + moved list \<times> namespace) option" where
  "ns_move_node ns sp from to plc =
     (case hm_get ns sp of
        None \<Rightarrow> Some (Inl (NotFound from))
      | Some n \<Rightarrow>
          (case move_node (ns_paths n) from to plc of
             None \<Rightarrow> None
           | Some (Inl e) \<Rightarrow> Some (Inl e)
           | Some (Inr (ms, t)) \<Rightarrow> Some (Inr (ms, hm_put sp (n\<lparr>ns_paths := t\<rparr>) ns))))"

definition ns_place :: "namespace \<Rightarrow> task_key \<Rightarrow> place \<Rightarrow> namespace option" where
  "ns_place ns key plc =
     (let sp = space_mut ns (key_space key)
      in map_option (\<lambda>t. hm_put (key_space key) (sp\<lparr>ns_paths := t\<rparr>) ns)
           (trie_place (ns_paths sp) (key_path key) plc))"

definition ns_prune :: "namespace \<Rightarrow> task_key \<Rightarrow> namespace" where
  "ns_prune ns key =
     hm_adj (key_space key) (\<lambda>sp. sp\<lparr>ns_paths := prune (ns_paths sp) (key_path key)\<rparr>) ns"

definition ns_before :: "namespace \<Rightarrow> task_key \<Rightarrow> nat option" where
  "ns_before ns key =
     (case hm_get ns (key_space key) of None \<Rightarrow> None | Some sp \<Rightarrow> before (ns_paths sp) (key_path key))"

definition ns_position :: "namespace \<Rightarrow> task_space_id \<Rightarrow> task_path \<Rightarrow> nat list option" where
  "ns_position ns sp p = (case hm_get ns sp of None \<Rightarrow> None | Some n \<Rightarrow> position (ns_paths n) p)"

definition ns_glob :: "namespace \<Rightarrow> space_selector \<Rightarrow> string \<Rightarrow> nat list" where
  "ns_glob ns sel pattern =
     map snd (concat (map (\<lambda>(sp, n). trie_glob (ns_paths n) pattern) (selected_spaces ns sel)))"

definition ns_in_scope :: "namespace \<Rightarrow> task_key \<Rightarrow> sub_mode \<Rightarrow> (task_path \<times> nat) list" where
  "ns_in_scope ns key m =
     (if m = Exact then filter (\<lambda>(p, _). p = key_path key) (ns_nodes ns key) else ns_nodes ns key)"

section \<open>Subscriptions\<close>

definition ns_subscribe :: "nat \<Rightarrow> task_key \<Rightarrow> sub_mode \<Rightarrow> namespace \<Rightarrow> namespace" where
  "ns_subscribe s key m ns =
     (let sp = space_mut ns (key_space key)
      in hm_put (key_space key) (sp\<lparr>ns_subs := sub_subscribe s (key_path key) m (ns_subs sp)\<rparr>) ns)"

definition ns_unsubscribe :: "nat \<Rightarrow> task_key \<Rightarrow> sub_mode \<Rightarrow> namespace \<Rightarrow> namespace" where
  "ns_unsubscribe s key m ns =
     hm_adj (key_space key) (\<lambda>sp. sp\<lparr>ns_subs := sub_unsubscribe s (key_path key) m (ns_subs sp)\<rparr>) ns"

definition ns_remove_subscriber :: "nat \<Rightarrow> namespace \<Rightarrow> namespace" where
  "ns_remove_subscriber s ns = map (\<lambda>(k, sp). (k, sp\<lparr>ns_subs := sub_remove_subscriber s (ns_subs sp)\<rparr>)) ns"

definition ns_is_subscribed :: "namespace \<Rightarrow> nat \<Rightarrow> task_space_id \<Rightarrow> task_path \<Rightarrow> bool" where
  "ns_is_subscribed ns s sp p =
     (case hm_get ns sp of None \<Rightarrow> False | Some n \<Rightarrow> sub_is_subscribed (ns_subs n) s p)"

definition ns_collect :: "namespace \<Rightarrow> task_key \<Rightarrow> nat list \<Rightarrow> nat list" where
  "ns_collect ns key out =
     (case hm_get ns (key_space key) of None \<Rightarrow> out | Some n \<Rightarrow> sub_collect (ns_subs n) (key_path key) out)"

subsection \<open>The namespace keeps the interface\<close>

definition space_ok :: "space_namespace \<Rightarrow> bool" where
  "space_ok sp \<longleftrightarrow> node_ok (ns_paths sp) \<and> node_id (ns_paths sp) = None \<and> sub_ok (ns_subs sp)"

definition ns_ok :: "namespace \<Rightarrow> bool" where
  "ns_ok ns \<longleftrightarrow> hm_ok ns \<and> (\<forall>sp n. hm_get ns sp = Some n \<longrightarrow> space_ok n)"

definition key_ok :: "task_key \<Rightarrow> bool" where
  "key_ok k = valid_or_root (key_path k)"

definition key_under :: "task_key \<Rightarrow> task_key \<Rightarrow> bool" where
  "key_under k g \<longleftrightarrow> key_space k = key_space g \<and> path_under (key_path k) (key_path g)"

definition ns_held :: "namespace \<Rightarrow> (nat \<times> task_key \<times> sub_mode) set" where
  "ns_held ns = {(s, k, m). (s, key_path k, m) \<in> sub_held (ns_subs (space_mut ns (key_space k)))}"

lemma space_mut_put [simp]: "space_mut (hm_put k sp ns) j = (if j = k then sp else space_mut ns j)"
  by (simp add: space_mut_def)

lemma space_mut_adj:
  "space_mut (hm_adj k f ns) j = (if j = k \<and> hm_get ns k \<noteq> None then f (space_mut ns k) else space_mut ns j)"
  by (auto simp: space_mut_def)

lemma space_new_ok [simp]: "space_ok space_namespace_new"
  by (simp add: space_ok_def space_namespace_new_def trie_new_def node_id_def sub_trie_new_ok)

lemma space_mut_ok: "ns_ok ns \<Longrightarrow> space_ok (space_mut ns sp)"
  by (cases "hm_get ns sp") (auto simp: ns_ok_def space_mut_def)

lemma ns_ok_put: "ns_ok ns \<Longrightarrow> space_ok n \<Longrightarrow> ns_ok (hm_put sp n ns)"
  by (auto simp: ns_ok_def)

lemma ns_ok_adj: "ns_ok ns \<Longrightarrow> (\<And>n. space_ok n \<Longrightarrow> space_ok (f n)) \<Longrightarrow> ns_ok (hm_adj sp f ns)"
  by (auto simp: ns_ok_def)

lemma hm_get_map_values: "hm_get (map (\<lambda>(k, v). (k, f v)) m) k = map_option f (hm_get m k)"
  by (induction m) auto

lemma ns_new_ok: "ns_ok namespace_new"
  by (simp add: ns_ok_def namespace_new_def)

lemma sub_held_new [simp]: "sub_held (ns_subs space_namespace_new) = {}"
  by (simp add: space_namespace_new_def sub_held_def sub_trie_new_def)

lemma sub_new_hears: "\<not> sub_is_subscribed (ns_subs space_namespace_new) s p"
  by (cases "components p")
     (simp_all add: space_namespace_new_def sub_trie_new_def sub_is_subscribed_def sub_node_empty_def)

lemma ns_is_subscribed_mut: "ns_is_subscribed ns s sp p = sub_is_subscribed (ns_subs (space_mut ns sp)) s p"
  by (cases "hm_get ns sp") (simp_all add: ns_is_subscribed_def space_mut_def sub_new_hears)

interpretation ns: subscriptions ns_ok key_ok key_under ns_held ns_subscribe ns_unsubscribe
    ns_remove_subscriber "\<lambda>ns s k. ns_is_subscribed ns s (key_space k) (key_path k)" ns_collect
proof unfold_locales
  fix ns p s m
  assume a: "ns_ok ns" "key_ok p"
  note sub = sub_trie.ok_add sub_trie.ok_cancel sub_trie.held_add sub_trie.held_cancel
  have sp: "sub_ok (ns_subs (space_mut ns sp))" for sp using space_mut_ok[OF a(1)] by (simp add: space_ok_def)
  have v: "valid_or_root (key_path p)" using a(2) by (simp add: key_ok_def)
  show "ns_ok (ns_subscribe s p m ns)" using a sub space_mut_ok[OF a(1)] v
    by (auto simp: ns_subscribe_def Let_def space_ok_def intro!: ns_ok_put)
  show "ns_ok (ns_unsubscribe s p m ns)" using a sub v
    by (auto simp: ns_unsubscribe_def space_ok_def intro!: ns_ok_adj)
  have key: "k = p \<longleftrightarrow> key_space k = key_space p \<and> key_path k = key_path p" for k :: task_key by (cases k; cases p) simp
  show "ns_held (ns_subscribe s p m ns) = insert (s, p, m) (ns_held ns)"
    using sub_trie.held_add[OF sp v] by (auto simp: ns_held_def ns_subscribe_def Let_def key split: if_splits)
  have gone: "hm_get ns (key_space p) = None \<Longrightarrow> (s, p, m) \<notin> ns_held ns"
    by (simp add: ns_held_def space_mut_def)
  show "ns_held (ns_unsubscribe s p m ns) = ns_held ns - {(s, p, m)}"
    using sub_trie.held_cancel[OF sp v] gone
    by (auto simp: ns_held_def ns_unsubscribe_def space_mut_adj key split: if_splits)
next
  fix ns s
  assume a: "ns_ok ns"
  show "ns_ok (ns_remove_subscriber s ns)" using a
    by (auto simp: ns_ok_def ns_remove_subscriber_def hm_get_map_values space_ok_def sub_trie.ok_forget comp_def case_prod_unfold)
  have "sub_held (ns_subs (space_mut (ns_remove_subscriber s ns) sp)) = {x \<in> sub_held (ns_subs (space_mut ns sp)). fst x \<noteq> s}" for sp
  proof (cases "hm_get ns sp")
    case (Some n)
    then have "sub_ok (ns_subs n)" using a by (auto simp: ns_ok_def space_ok_def)
    then show ?thesis using Some
      by (simp add: ns_remove_subscriber_def space_mut_def hm_get_map_values sub_trie.held_forget)
  qed (simp add: ns_remove_subscriber_def space_mut_def hm_get_map_values)
  then show "ns_held (ns_remove_subscriber s ns) = {x \<in> ns_held ns. fst x \<noteq> s}" by (auto simp: ns_held_def)
next
  fix ns p s
  assume a: "ns_ok ns" "key_ok p"
  have sp: "sub_ok (ns_subs (space_mut ns (key_space p)))" using space_mut_ok[OF a(1)] by (simp add: space_ok_def)
  have v: "valid_or_root (key_path p)" using a(2) by (simp add: key_ok_def)
  have "(\<exists>q. (s, q, Subtree) \<in> ns_held ns \<and> key_under p q) \<longleftrightarrow>
      (\<exists>q. (s, q, Subtree) \<in> sub_held (ns_subs (space_mut ns (key_space p))) \<and> path_under (key_path p) q)"
    by (auto simp: ns_held_def key_under_def) (metis task_key_new_sel)
  then show "ns_is_subscribed ns s (key_space p) (key_path p) \<longleftrightarrow>
      (s, p, Exact) \<in> ns_held ns \<or> (\<exists>q. (s, q, Subtree) \<in> ns_held ns \<and> key_under p q)"
    using sub_trie.hears_iff[OF sp v] unfolding ns_is_subscribed_mut by (simp add: ns_held_def)
next
  fix ns p out
  assume "ns_ok ns" "key_ok p"
  show "set (ns_collect ns p out) = set out \<union> {s. ns_is_subscribed ns s (key_space p) (key_path p)}"
    by (cases "hm_get ns (key_space p)") (simp_all add: ns_collect_def ns_is_subscribed_def set_collect)
qed

end
