(* ===== verification/Kernel_Graph.thy ===== *)
theory Kernel_Graph
  imports Kernel_Message Name_Space
begin

text \<open>
  The graph of tasks (\<open>struct Graph\<close> of \<open>src/src/kernel/kernel.rs\<close>) and what every operation on
  it is made of: the work queue, notifications and commands to tasks, state changes, edges.

  A task whose handler answers may only change its own machine and append to
  \<open>pending_effects\<close>. The test-only logs \<open>transitions\<close> and \<open>sent\<close> are kept; \<open>outbox\<close> lists what
  was sent on channels, and \<open>closed\<close> the channels whose receiver is gone. A function that can
  panic returns an option, \<open>None\<close> being the panic.
\<close>

section \<open>The state\<close>

definition kill_wait :: nat where
  "kill_wait = secs 10"

definition backoff_min :: nat where
  "backoff_min = millis 100"

definition backoff_max :: nat where
  "backoff_max = secs 30"

definition backoff_reset :: nat where
  "backoff_reset = secs 10"

text \<open>\<open>saturating_sub\<close>, and \<open>1 << exp\<close> in 32 bits.\<close>

definition saturating_sub :: "'a::len word \<Rightarrow> 'a word \<Rightarrow> 'a word" where
  "saturating_sub a b = (if b \<le> a then a - b else 0)"

definition backoff_delay :: "32 word \<Rightarrow> nat" where
  "backoff_delay attempts =
     (let exp = min (saturating_sub attempts 1) 16
      in min (backoff_min * unat (push_bit (unat exp) (1 :: 32 word))) backoff_max)"

record active_watch =
  aw_selector :: task_selector
  aw_sender :: nat
  aw_active :: bool

record wait_watch =
  ww_cond :: wait_cond
  ww_ids :: "nat list"
  ww_last :: "(nat, wait_task) hm"
  ww_begun :: bool
  ww_events :: nat

record standing =
  sd_mark :: wait_mark
  sd_removed :: bool

datatype freeze_reply = FreezeRpc nat | FreezeQuit

record frozen_state =
  fz_number :: nat
  fz_reply :: "freeze_reply option"
  fz_waiting :: "nat list"
  fz_snapshots :: "(nat, nat) hm"
  fz_deferred :: "kernel_message list"

datatype sent_cmd = SentStart | SentStop | SentKill

record folder =
  fo_space :: task_space_id
  fo_path :: task_path
  fo_settings :: folder_settings

record graph =
  quitting :: bool
  next_task_id :: nat
  tasks :: "(nat, task_handle) hm"
  edges :: "(nat, nat list) hm"
  redges :: "(nat, nat list) hm"
  ns :: namespace
  folders :: "(nat, folder) hm"
  tags :: "(string, nat list) hm"
  dirty :: "nat list"
  in_queue :: "nat list"
  now :: nat
  timer_changes :: "nat list"
  pending_effects :: "(nat \<times> task_effect) list"
  active_watches :: "active_watch list"
  waits :: "wait_watch list"
  state_changed :: bool
  frozen :: "frozen_state option"
  freezes :: nat
  transitions :: "(nat \<times> task_state \<times> task_state \<times> bool) list"
  sent :: "(nat \<times> sent_cmd) list"
  outbox :: "(nat \<times> reply) list"
  closed :: "nat list"

definition graph_new :: "nat \<Rightarrow> graph" where
  "graph_new t =
     \<lparr>quitting = False, next_task_id = 1, tasks = [], edges = [], redges = [], ns = namespace_new,
      folders = [], tags = [], dirty = [], in_queue = [], now = t, timer_changes = [], pending_effects = [],
      active_watches = [], waits = [], state_changed = False, frozen = None, freezes = 0,
      transitions = [], sent = [], outbox = [], closed = []\<rparr>"

abbreviation task_at :: "graph \<Rightarrow> nat \<Rightarrow> task_handle option" where
  "task_at g i \<equiv> hm_get (tasks g) i"

definition upd_task :: "nat \<Rightarrow> (task_handle \<Rightarrow> task_handle) \<Rightarrow> graph \<Rightarrow> graph" where
  "upd_task i f g = g\<lparr>tasks := hm_adj i f (tasks g)\<rparr>"

definition deps_of :: "graph \<Rightarrow> nat \<Rightarrow> nat list" where
  "deps_of g i = unwrap_or [] (hm_get (edges g) i)"

definition requirers_of :: "graph \<Rightarrow> nat \<Rightarrow> nat list" where
  "requirers_of g i = unwrap_or [] (hm_get (redges g) i)"

definition send_reply :: "nat \<Rightarrow> reply \<Rightarrow> graph \<Rightarrow> graph" where
  "send_reply ch r g = g\<lparr>outbox := outbox g @ [(ch, r)]\<rparr>"

definition is_open :: "graph \<Rightarrow> nat \<Rightarrow> bool" where
  "is_open g ch = (ch \<notin> set (closed g))"

section \<open>The work queue\<close>

definition enqueue :: "nat \<Rightarrow> graph \<Rightarrow> graph" where
  "enqueue i g =
     (if i \<noteq> init_task_id \<and> task_at g i \<noteq> None \<and> i \<notin> set (in_queue g)
      then g\<lparr>in_queue := hs_ins i (in_queue g), dirty := dirty g @ [i]\<rparr> else g)"

definition pop_dirty :: "graph \<Rightarrow> (nat \<times> graph) option" where
  "pop_dirty g =
     (case dirty g of
        [] \<Rightarrow> None
      | i # rest \<Rightarrow> Some (i, g\<lparr>dirty := rest, in_queue := hs_del i (in_queue g)\<rparr>))"

definition enqueue_parents :: "nat \<Rightarrow> graph \<Rightarrow> graph" where
  "enqueue_parents i g = fold enqueue (requirers_of g i) g"

section \<open>Talking to tasks\<close>

definition queue_effects :: "nat \<Rightarrow> task_effect list \<Rightarrow> graph \<Rightarrow> graph" where
  "queue_effects i fx g = g\<lparr>pending_effects := pending_effects g @ map (Pair i) fx\<rparr>"

text \<open>A command handled by the task, if it is there, and the effects it reports queued.\<close>

definition give_cmd :: "nat \<Rightarrow> task_cmd \<Rightarrow> graph \<Rightarrow> graph" where
  "give_cmd i cmd g =
     (case task_at g i of
        None \<Rightarrow> g
      | Some h \<Rightarrow>
          (let (t, fx) = react (h_task h) cmd
           in queue_effects i fx (upd_task i (\<lambda>h. h\<lparr>h_task := t\<rparr>) g)))"

fun sent_of :: "task_cmd \<Rightarrow> sent_cmd list" where
  "sent_of (CmdStart _) = [SentStart]"
| "sent_of CmdStop = [SentStop]"
| "sent_of CmdKill = [SentKill]"
| "sent_of _ = []"

definition send_cmd :: "nat \<Rightarrow> task_cmd \<Rightarrow> graph \<Rightarrow> graph" where
  "send_cmd i cmd g = give_cmd i cmd (g\<lparr>sent := sent g @ map (Pair i) (sent_of cmd)\<rparr>)"

definition deliver :: "nat \<Rightarrow> task_notify \<Rightarrow> nat list \<Rightarrow> graph \<Rightarrow> graph" where
  "deliver from notify targets g =
     fold (\<lambda>l. give_cmd l (CmdMsg (Notification from notify))) targets g"

definition notify_subscribers :: "nat \<Rightarrow> task_space_id \<Rightarrow> task_path option \<Rightarrow> task_notify \<Rightarrow> graph \<Rightarrow> graph" where
  "notify_subscribers from sp p notify g =
     deliver from notify (case p of None \<Rightarrow> [] | Some p \<Rightarrow> ns_collect (ns g) (task_key_new sp p) []) g"

definition notify_changed :: "nat \<Rightarrow> graph \<Rightarrow> graph" where
  "notify_changed i g =
     (case task_at g i of
        None \<Rightarrow> g
      | Some h \<Rightarrow> notify_subscribers i (h_space h) (h_path h) (Changed (h_label h) (h_kind h)) g)"

definition schedule_state_timeout :: "nat \<Rightarrow> nat \<Rightarrow> graph \<Rightarrow> graph" where
  "schedule_state_timeout i delay g =
     (case task_at g i of
        None \<Rightarrow> g
      | Some _ \<Rightarrow>
          (upd_task i (\<lambda>h. h\<lparr>h_deadline := Some (now g + delay)\<rparr>) g)\<lparr>timer_changes := timer_changes g @ [i]\<rparr>)"

section \<open>State changes\<close>

definition count_active :: "bool \<Rightarrow> nat \<Rightarrow> graph \<Rightarrow> graph" where
  "count_active up dep g =
     enqueue dep (upd_task dep (\<lambda>t. t\<lparr>h_active_dependents := h_active_dependents t + (if up then 1 else - 1)\<rparr>) g)"

text \<open>A handle that enters a state: the flags and the timer of the state it leaves are gone.\<close>

definition enter_state :: "task_state \<Rightarrow> task_handle \<Rightarrow> task_handle" where
  "enter_state s h =
     h\<lparr>h_state := s, h_epoch := h_epoch h + 1, h_killed := False, h_start_failed := False,
       h_stop_timed_out := False, h_deadline := None\<rparr>"

definition set_state :: "nat \<Rightarrow> task_state \<Rightarrow> graph \<Rightarrow> graph" where
  "set_state i s g =
     (case task_at g i of
        None \<Rightarrow> g
      | Some h \<Rightarrow>
          if h_state h = s then g
          else
            (let h' = enter_state s h;
                 g1 = g\<lparr>tasks := hm_put i h' (tasks g),
                   timer_changes := timer_changes g @ (if h_deadline h = None then [] else [i]),
                   state_changed := True,
                   transitions := transitions g @ [(i, h_state h, s, h_start_failed h)]\<rparr>;
                 g2 = enqueue i g1;
                 g3 = (if is_satisfied h \<noteq> is_satisfied h' then enqueue_parents i g2 else g2);
                 g4 = (if is_active (h_state h) \<noteq> is_active s
                       then fold (count_active (is_active s)) (deps_of g3 i) g3 else g3)
             in notify_subscribers i (h_space h) (h_path h) (StateChanged s) g4))"

definition set_vetoed :: "nat \<Rightarrow> bool \<Rightarrow> graph \<Rightarrow> graph" where
  "set_vetoed i v g =
     (case task_at g i of
        None \<Rightarrow> g
      | Some h \<Rightarrow> if h_vetoed h = v then g else enqueue i (upd_task i (\<lambda>h. h\<lparr>h_vetoed := v\<rparr>) g))"

section \<open>Edges\<close>

text \<open>What a requirer counts for: a pin is a wanted parent, and never an active one.\<close>

definition parent_wanted :: "graph \<Rightarrow> nat \<Rightarrow> bool" where
  "parent_wanted g i = (i = init_task_id \<or> (case task_at g i of None \<Rightarrow> False | Some h \<Rightarrow> h_wanted h))"

definition parent_active :: "graph \<Rightarrow> nat \<Rightarrow> bool" where
  "parent_active g i = (i \<noteq> init_task_id \<and> (case task_at g i of None \<Rightarrow> False | Some h \<Rightarrow> is_active (h_state h)))"

definition add_counts :: "int \<Rightarrow> bool \<Rightarrow> bool \<Rightarrow> task_handle \<Rightarrow> task_handle" where
  "add_counts d w a t =
     t\<lparr>h_wanted_parents := h_wanted_parents t + (if w then d else 0),
       h_active_dependents := h_active_dependents t + (if a then d else 0)\<rparr>"

definition add_edge :: "nat \<Rightarrow> nat \<Rightarrow> graph \<Rightarrow> graph" where
  "add_edge from to g =
     (if from = to \<or> to = init_task_id then g
      else if task_at g to = None \<or> from \<noteq> init_task_id \<and> task_at g from = None then g
      else
        (let g1 = (if to \<in> set (deps_of g from) then g
               else
                 upd_task to (add_counts 1 (parent_wanted g from) (parent_active g from))
                   (g\<lparr>edges := hm_put from (hs_ins to (deps_of g from)) (edges g),
                      redges := hm_put to (hs_ins from (requirers_of g to)) (redges g),
                      state_changed := True\<rparr>))
         in enqueue from (enqueue to g1)))"

text \<open>A set with the element removed, its entry dropped once it is empty.\<close>

definition del_member :: "nat \<Rightarrow> nat \<Rightarrow> (nat, nat list) hm \<Rightarrow> (nat, nat list) hm" where
  "del_member k x m =
     (case hm_get m k of
        None \<Rightarrow> m
      | Some xs \<Rightarrow> (let xs' = hs_del x xs in if xs' = [] then hm_del k m else hm_put k xs' m))"

definition remove_edge :: "nat \<Rightarrow> nat \<Rightarrow> graph \<Rightarrow> graph" where
  "remove_edge from to g =
     (let g0 = g\<lparr>edges := del_member from to (edges g)\<rparr>;
          g1 = (if to \<in> set (deps_of g from)
             then
               upd_task to (add_counts (- 1) (parent_wanted g from) (parent_active g from))
                 (g0\<lparr>redges := del_member to from (redges g), state_changed := True\<rparr>)
             else g0)
      in enqueue from (enqueue to g1))"

end
