(* ===== verification/Kernel_Reconcile.thy ===== *)
theory Kernel_Reconcile
  imports Kernel_Graph "HOL-Library.Monad_Syntax"
begin

text \<open>
  Reconciliation (\<open>src/src/kernel/kernel.rs\<close>): the cached \<open>wanted\<close> and \<open>supported\<close> of each task,
  what drives a task towards its intent, the reports of tasks and the timers of their states,
  and \<open>settle\<close>, which completes a step.
\<close>

section \<open>The caches\<close>

definition compute_wanted :: "graph \<Rightarrow> nat \<Rightarrow> bool" where
  "compute_wanted g i =
     (if quitting g then False
      else (case task_at g i of None \<Rightarrow> False | Some h \<Rightarrow> \<not> h_vetoed h \<and> h_wanted_parents h > 0))"

definition dep_holds :: "graph \<Rightarrow> nat \<Rightarrow> bool" where
  "dep_holds g d = (case task_at g d of None \<Rightarrow> False | Some t \<Rightarrow> h_supported t \<and> is_satisfied t)"

definition compute_supported :: "graph \<Rightarrow> nat \<Rightarrow> bool" where
  "compute_supported g i =
     (case task_at g i of
        None \<Rightarrow> False
      | Some h \<Rightarrow> h_wanted h \<and> list_all (dep_holds g) (deps_of g i))"

definition count_wanted :: "bool \<Rightarrow> nat \<Rightarrow> graph \<Rightarrow> graph" where
  "count_wanted up dep g =
     enqueue dep (upd_task dep (\<lambda>t. t\<lparr>h_wanted_parents := h_wanted_parents t + (if up then 1 else - 1)\<rparr>) g)"

definition recompute_wanted :: "nat \<Rightarrow> graph \<Rightarrow> graph" where
  "recompute_wanted i g =
     (case task_at g i of
        None \<Rightarrow> g
      | Some h \<Rightarrow>
          (let w = compute_wanted g i
           in if h_wanted h = w then g
              else fold (count_wanted w) (deps_of g i)
                     ((upd_task i (\<lambda>h. h\<lparr>h_wanted := w\<rparr>) g)\<lparr>state_changed := True\<rparr>)))"

definition recompute_supported :: "nat \<Rightarrow> graph \<Rightarrow> graph" where
  "recompute_supported i g =
     (case task_at g i of
        None \<Rightarrow> g
      | Some h \<Rightarrow>
          (let s = compute_supported g i
           in if h_supported h = s then g
              else enqueue_parents i (upd_task i (\<lambda>h. h\<lparr>h_supported := s\<rparr>) g)))"

definition recompute_caches :: "nat \<Rightarrow> graph \<Rightarrow> graph" where
  "recompute_caches i g = recompute_supported i (recompute_wanted i g)"

text \<open>The first loop of a round; \<open>to_drive\<close> lists what was popped, each once. It may not end.\<close>

partial_function (option) propagate :: "nat list \<Rightarrow> graph \<Rightarrow> (nat list \<times> graph) option" where
  "propagate to_drive g =
     (case pop_dirty g of
        None \<Rightarrow> Some (to_drive, g)
      | Some (i, g') \<Rightarrow>
          propagate (if i \<in> set to_drive then to_drive else to_drive @ [i]) (recompute_caches i g'))"

declare propagate.simps [code]

section \<open>Driving tasks\<close>

definition has_active_dependent :: "graph \<Rightarrow> nat \<Rightarrow> bool" where
  "has_active_dependent g i = (case task_at g i of None \<Rightarrow> False | Some h \<Rightarrow> h_active_dependents h > 0)"

definition no_active_tasks :: "graph \<Rightarrow> bool" where
  "no_active_tasks g = list_all (\<lambda>(_, h). \<not> is_active (h_state h)) (tasks g)"

definition start_task :: "nat \<Rightarrow> graph \<Rightarrow> graph option" where
  "start_task i g =
     (case task_at g i of
        None \<Rightarrow> None
      | Some h \<Rightarrow>
          (let h1 = h\<lparr>h_last_start := Some (now g)\<rparr>;
               (changed, h2) = (case h_next h1 of
                   None \<Rightarrow> (False, h1)
                 | Some n \<Rightarrow> adopt n (h1\<lparr>h_next := None\<rparr>));
               run = map_option (\<lambda>s. \<lparr>run_spec = s, run_path = h_path h2\<rparr>) (h_spec h2);
               g1 = g\<lparr>tasks := hm_put i h2 (tasks g)\<rparr>;
               g2 = (if changed then notify_changed i g1 else g1)
           in Some (send_cmd i (CmdStart run) (set_state i Starting g2))))"

definition stop_task :: "nat \<Rightarrow> bool \<Rightarrow> graph \<Rightarrow> graph option" where
  "stop_task i failed g =
     (let g1 = set_state i Stopping g
      in case task_at g1 i of
           None \<Rightarrow> None
         | Some h \<Rightarrow>
             Some (send_cmd i CmdStop
               (schedule_state_timeout i (h_stop_timeout h)
                 (upd_task i (\<lambda>h. h\<lparr>h_start_failed := failed\<rparr>) g1))))"

definition fail_start :: "nat \<Rightarrow> graph \<Rightarrow> graph option" where
  "fail_start i g = stop_task i True g"

definition hard_kill :: "nat \<Rightarrow> graph \<Rightarrow> graph option" where
  "hard_kill i g =
     (case task_at g i of
        None \<Rightarrow> None
      | Some _ \<Rightarrow>
          Some (schedule_state_timeout i kill_wait
            (send_cmd i CmdKill (upd_task i (\<lambda>h. h\<lparr>h_killed := True, h_epoch := h_epoch h + 1\<rparr>) g))))"

definition drive_task :: "nat \<Rightarrow> graph \<Rightarrow> graph option" where
  "drive_task i g =
     (case task_at g i of
        None \<Rightarrow> None
      | Some h \<Rightarrow>
          if h_supported h then
            (case h_state h of Idle \<Rightarrow> start_task i g | _ \<Rightarrow> Some g)
          else
            (case h_state h of
               Starting \<Rightarrow> if has_active_dependent g i then Some g else stop_task i False g
             | Running \<Rightarrow> if has_active_dependent g i then Some g else stop_task i False g
             | Ready \<Rightarrow> if has_active_dependent g i then Some g else stop_task i False g
             | Backoff _ \<Rightarrow> Some (set_state i Idle g)
             | _ \<Rightarrow> Some g))"

definition reconcile_round :: "graph \<Rightarrow> graph option" where
  "reconcile_round g = do { (to_drive, g1) \<leftarrow> propagate [] g; fold_opt drive_task to_drive g1 }"

section \<open>Reports and timers\<close>

definition land_exit :: "nat \<Rightarrow> exit_info \<Rightarrow> graph \<Rightarrow> graph" where
  "land_exit i info g =
     (case task_at g i of
        None \<Rightarrow> g
      | Some h \<Rightarrow>
          (let s = exit_state h info
           in case s of
                Backoff _ \<Rightarrow>
                  (let attempts = h_attempts h + 1
                   in schedule_state_timeout i (backoff_delay attempts)
                        (set_state i s (upd_task i (\<lambda>h. h\<lparr>h_attempts := attempts\<rparr>) g)))
              | _ \<Rightarrow> set_state i s g))"

definition land_stop :: "nat \<Rightarrow> exit_info \<Rightarrow> graph \<Rightarrow> graph" where
  "land_stop i info g =
     (case task_at g i of
        None \<Rightarrow> g
      | Some h \<Rightarrow>
          if h_start_failed h then land_exit i (info\<lparr>ei_ready_timeout := True\<rparr>) g
          else set_state i Idle g)"

definition on_state_timeout :: "nat \<Rightarrow> nat \<Rightarrow> graph \<Rightarrow> graph option" where
  "on_state_timeout i epoch g =
     (case task_at g i of
        None \<Rightarrow> Some g
      | Some h \<Rightarrow>
          if h_epoch h \<noteq> epoch then Some g
          else
            (let g1 = (upd_task i (\<lambda>h. h\<lparr>h_deadline := None\<rparr>) g)\<lparr>timer_changes := timer_changes g @ [i]\<rparr>
             in case h_state h of
                  Backoff _ \<Rightarrow> Some (set_state i Idle g1)
                | Stopping \<Rightarrow>
                    if h_killed h then
                      (let g2 = land_stop i exit_error g1
                       in Some
                            (if \<not> h_start_failed h \<and> map_option h_state (task_at g2 i) = Some Idle
                             then (upd_task i (\<lambda>h. h\<lparr>h_stop_timed_out := True\<rparr>) g2)\<lparr>state_changed := True\<rparr>
                             else g2))
                    else hard_kill i g1
                | Running \<Rightarrow> if ready_timeout (h_ready h) \<noteq> None then fail_start i g1 else Some g1
                | _ \<Rightarrow> Some g1))"

definition on_task_started :: "nat \<Rightarrow> graph \<Rightarrow> graph" where
  "on_task_started i g =
     (case task_at g i of
        None \<Rightarrow> g
      | Some h \<Rightarrow>
          (case h_state h of
             Starting \<Rightarrow>
               (let s = started_state h; g1 = set_state i s g
                in case (s, ready_timeout (h_ready h)) of
                     (Running, Some timeout) \<Rightarrow> schedule_state_timeout i timeout g1
                   | _ \<Rightarrow> g1)
           | _ \<Rightarrow> g))"

definition on_task_ready :: "nat \<Rightarrow> graph \<Rightarrow> graph" where
  "on_task_ready i g =
     (case task_at g i of
        None \<Rightarrow> g
      | Some h \<Rightarrow> (case h_state h of Running \<Rightarrow> set_state i Ready g | _ \<Rightarrow> g))"

text \<open>An uptime is \<open>now\<close> less the last start; \<open>duration_since\<close> saturates at zero.\<close>

definition stayed_up :: "graph \<Rightarrow> task_handle \<Rightarrow> bool" where
  "stayed_up g h =
     (is_up (h_kind h) (h_state h) \<and>
      (case h_last_start h of None \<Rightarrow> False | Some t \<Rightarrow> now g - t > backoff_reset))"

definition on_task_stopped :: "nat \<Rightarrow> exit_info \<Rightarrow> graph \<Rightarrow> graph" where
  "on_task_stopped i info g =
     (case task_at g i of
        None \<Rightarrow> g
      | Some h \<Rightarrow>
          (let exit_now = land_exit i info (if stayed_up g h then upd_task i (\<lambda>h. h\<lparr>h_attempts := 0\<rparr>) g else g)
           in case h_state h of
                Stopping \<Rightarrow> land_stop i info g
              | Starting \<Rightarrow> exit_now
              | Running \<Rightarrow> exit_now
              | Ready \<Rightarrow> exit_now
              | _ \<Rightarrow> g))"

fun apply_effect :: "nat \<Rightarrow> task_effect \<Rightarrow> graph \<Rightarrow> graph" where
  "apply_effect i EffStarted g = on_task_started i g"
| "apply_effect i EffReady g = on_task_ready i g"
| "apply_effect i (EffStopped info) g = on_task_stopped i info g"

text \<open>
  \<open>settle\<close> gives up after a budget of steps and keeps the queues; the argument counts the steps
  left.
\<close>

fun settle_steps :: "nat \<Rightarrow> graph \<Rightarrow> graph option" where
  "settle_steps 0 g = Some g"
| "settle_steps (Suc n) g =
     (case pending_effects g of
        (i, e) # rest \<Rightarrow> settle_steps n (apply_effect i e (g\<lparr>pending_effects := rest\<rparr>))
      | [] \<Rightarrow>
          if dirty g \<noteq> [] then Option.bind (reconcile_round g) (settle_steps n)
          else Some g)"

definition settle :: "graph \<Rightarrow> graph option" where
  "settle g = settle_steps (length (tasks g) * 16 + 64 + 1) g"

end
