(* ===== verification/Kernel_Invariant.thy ===== *)
theory Kernel_Invariant
  imports Kernel_Reconcile
begin

text \<open>
  What holds of the graph between the operations of \<open>src/src/kernel/kernel.rs\<close>: the two edge maps
  mirror each other and are acyclic, the counters count, the queue is a set of live tasks, and
  every cache outside the queue is what it would be recomputed to. The effect of the primitive
  operations is stated on the \<open>view\<close> of a task, its handle without its machine.
\<close>

section \<open>Views\<close>

definition hview :: "task_handle \<Rightarrow> task_handle" where
  "hview h = h\<lparr>h_task := target_task\<rparr>"

definition vw :: "graph \<Rightarrow> nat \<Rightarrow> task_handle option" where
  "vw g i = map_option hview (task_at g i)"

lemma hview_sel [simp]:
  "h_state (hview h) = h_state h" "h_epoch (hview h) = h_epoch h" "h_vetoed (hview h) = h_vetoed h"
  "h_killed (hview h) = h_killed h" "h_attempts (hview h) = h_attempts h" "h_last_start (hview h) = h_last_start h"
  "h_deadline (hview h) = h_deadline h" "h_wanted (hview h) = h_wanted h" "h_supported (hview h) = h_supported h"
  "h_wanted_parents (hview h) = h_wanted_parents h" "h_active_dependents (hview h) = h_active_dependents h"
  "h_start_failed (hview h) = h_start_failed h" "h_stop_timed_out (hview h) = h_stop_timed_out h"
  "h_saved_pin (hview h) = h_saved_pin h" "h_kind (hview h) = h_kind h" "h_ready (hview h) = h_ready h"
  "h_stop_timeout (hview h) = h_stop_timeout h" "h_next (hview h) = h_next h" "h_restart (hview h) = h_restart h"
  "h_space (hview h) = h_space h" "h_path (hview h) = h_path h" "h_label (hview h) = h_label h"
  "h_vt (hview h) = h_vt h" "h_tags (hview h) = h_tags h" "h_spec (hview h) = h_spec h"
  "h_origin (hview h) = h_origin h" "h_make_copy (hview h) = h_make_copy h"
  by (simp_all add: hview_def)

lemma hview_idem [simp]: "hview (hview h) = hview h"
  by (simp add: hview_def)

lemma hview_machine [simp]: "hview (h\<lparr>h_task := t\<rparr>) = hview h"
  by (simp add: hview_def)

lemma is_satisfied_hview [simp]: "is_satisfied (hview h) = is_satisfied h"
  by (simp add: satisfied_cases)

lemma exit_state_hview [simp]: "exit_state (hview h) i = exit_state h i"
  by (simp add: exit_state_def)

lemma started_state_hview [simp]: "started_state (hview h) = started_state h"
  by (auto simp: started_state_def split: task_kind.splits ready_mode.splits)

lemma vw_Some: "vw g i = Some v \<longleftrightarrow> (\<exists>h. task_at g i = Some h \<and> v = hview h)"
  by (auto simp: vw_def)

lemma vw_None: "vw g i = None \<longleftrightarrow> task_at g i = None"
  by (simp add: vw_def)

lemma vwI: "task_at g i = Some h \<Longrightarrow> vw g i = Some (hview h)"
  by (simp add: vw_def)

section \<open>What most operations leave alone\<close>

definition rest :: "graph \<Rightarrow> graph" where
  "rest g = g\<lparr>tasks := [], dirty := [], in_queue := [], pending_effects := [], sent := [],
     timer_changes := [], state_changed := False, transitions := []\<rparr>"

lemma rest_fields:
  assumes "rest g' = rest g"
  shows "quitting g' = quitting g" "next_task_id g' = next_task_id g" "edges g' = edges g" "redges g' = redges g"
    "ns g' = ns g" "folders g' = folders g" "tags g' = tags g" "now g' = now g"
    "active_watches g' = active_watches g" "waits g' = waits g" "frozen g' = frozen g" "freezes g' = freezes g"
    "outbox g' = outbox g" "closed g' = closed g" "deps_of g' = deps_of g" "requirers_of g' = requirers_of g"
proof -
  note fields = arg_cong[OF assms, of quitting] arg_cong[OF assms, of next_task_id] arg_cong[OF assms, of edges]
    arg_cong[OF assms, of redges] arg_cong[OF assms, of ns] arg_cong[OF assms, of folders]
    arg_cong[OF assms, of tags] arg_cong[OF assms, of now] arg_cong[OF assms, of active_watches]
    arg_cong[OF assms, of waits] arg_cong[OF assms, of frozen] arg_cong[OF assms, of freezes]
    arg_cong[OF assms, of outbox] arg_cong[OF assms, of closed]
  show "quitting g' = quitting g" "next_task_id g' = next_task_id g" "edges g' = edges g" "redges g' = redges g"
    "ns g' = ns g" "folders g' = folders g" "tags g' = tags g" "now g' = now g"
    "active_watches g' = active_watches g" "waits g' = waits g" "frozen g' = frozen g" "freezes g' = freezes g"
    "outbox g' = outbox g" "closed g' = closed g"
    using fields by (simp_all add: rest_def)
  then show "deps_of g' = deps_of g" "requirers_of g' = requirers_of g"
    by (simp_all add: fun_eq_iff deps_of_def requirers_of_def)
qed

lemma rest_upd_task [simp]: "rest (upd_task i f g) = rest g"
  by (simp add: rest_def upd_task_def)

lemma rest_enqueue [simp]: "rest (enqueue i g) = rest g"
  by (simp add: rest_def enqueue_def)

lemma rest_fold: "(\<And>x g. rest (f x g) = rest g) \<Longrightarrow> rest (fold f xs g) = rest g"
  by (induction xs arbitrary: g) simp_all

lemma rest_enqueue_parents [simp]: "rest (enqueue_parents i g) = rest g"
  by (simp add: enqueue_parents_def rest_fold)

lemma rest_give_cmd [simp]: "rest (give_cmd i c g) = rest g"
  by (auto simp: give_cmd_def queue_effects_def rest_def upd_task_def split: option.splits prod.splits)

lemma rest_send_cmd [simp]: "rest (send_cmd i c g) = rest g"
  unfolding send_cmd_def by simp (simp add: rest_def)

lemma rest_notify [simp]: "rest (notify_subscribers i s p n g) = rest g"
  by (simp add: notify_subscribers_def deliver_def rest_fold)

lemma rest_notify_changed [simp]: "rest (notify_changed i g) = rest g"
  by (simp add: notify_changed_def split: option.splits)

lemma rest_schedule [simp]: "rest (schedule_state_timeout i d g) = rest g"
  by (auto simp: schedule_state_timeout_def rest_def upd_task_def split: option.splits)

lemma rest_timer_changes [simp]: "rest (g\<lparr>timer_changes := t\<rparr>) = rest g"
  and rest_state_changed [simp]: "rest (g\<lparr>state_changed := b\<rparr>) = rest g"
  and rest_tasks [simp]: "rest (g\<lparr>tasks := ts\<rparr>) = rest g"
  and rest_effects [simp]: "rest (g\<lparr>pending_effects := es\<rparr>) = rest g"
  and rest_transitions [simp]: "rest (g\<lparr>transitions := tr\<rparr>) = rest g"
  and rest_dirty [simp]: "rest (g\<lparr>dirty := d\<rparr>) = rest g"
  and rest_in_queue [simp]: "rest (g\<lparr>in_queue := q\<rparr>) = rest g"
  by (simp_all add: rest_def)

lemma rest_count_active [simp]: "rest (count_active b d g) = rest g"
  by (simp add: count_active_def)

lemma rest_count_wanted [simp]: "rest (count_wanted b d g) = rest g"
  by (simp add: count_wanted_def)

lemma rest_set_state [simp]: "rest (set_state i s g) = rest g"
  by (simp add: set_state_def Let_def rest_fold split: option.splits)

lemma rest_set_vetoed [simp]: "rest (set_vetoed i v g) = rest g"
  by (simp add: set_vetoed_def split: option.splits)

lemma rest_recompute_wanted [simp]: "rest (recompute_wanted i g) = rest g"
  by (simp add: recompute_wanted_def Let_def rest_fold split: option.splits)

lemma rest_recompute_supported [simp]: "rest (recompute_supported i g) = rest g"
  by (simp add: recompute_supported_def Let_def split: option.splits)

lemma rest_recompute [simp]: "rest (recompute_caches i g) = rest g"
  by (simp add: recompute_caches_def)

lemma rest_pop_dirty: "pop_dirty g = Some (i, g') \<Longrightarrow> rest g' = rest g"
  by (auto simp: pop_dirty_def split: list.splits)

lemmas enqueue_fields [simp] = rest_fields[OF rest_enqueue]
lemmas upd_task_fields [simp] = rest_fields[OF rest_upd_task]
lemmas enqueue_parents_fields [simp] = rest_fields[OF rest_enqueue_parents]
lemmas give_cmd_fields [simp] = rest_fields[OF rest_give_cmd]
lemmas send_cmd_fields [simp] = rest_fields[OF rest_send_cmd]
lemmas notify_fields [simp] = rest_fields[OF rest_notify]
lemmas notify_changed_fields [simp] = rest_fields[OF rest_notify_changed]
lemmas schedule_fields [simp] = rest_fields[OF rest_schedule]
lemmas count_active_fields [simp] = rest_fields[OF rest_count_active]
lemmas count_wanted_fields [simp] = rest_fields[OF rest_count_wanted]
lemmas set_state_fields [simp] = rest_fields[OF rest_set_state]
lemmas set_vetoed_fields [simp] = rest_fields[OF rest_set_vetoed]
lemmas recompute_wanted_fields [simp] = rest_fields[OF rest_recompute_wanted]
lemmas recompute_supported_fields [simp] = rest_fields[OF rest_recompute_supported]
lemmas recompute_fields [simp] = rest_fields[OF rest_recompute]

lemma deps_of_updates [simp]:
  "deps_of (g\<lparr>tasks := ts\<rparr>) = deps_of g" "deps_of (g\<lparr>timer_changes := tc\<rparr>) = deps_of g"
  "deps_of (g\<lparr>state_changed := b\<rparr>) = deps_of g" "deps_of (g\<lparr>transitions := tr\<rparr>) = deps_of g"
  "deps_of (g\<lparr>pending_effects := pe\<rparr>) = deps_of g" "deps_of (g\<lparr>dirty := d\<rparr>) = deps_of g"
  "deps_of (g\<lparr>in_queue := q\<rparr>) = deps_of g" "deps_of (g\<lparr>redges := re\<rparr>) = deps_of g"
  "requirers_of (g\<lparr>tasks := ts\<rparr>) = requirers_of g" "requirers_of (g\<lparr>timer_changes := tc\<rparr>) = requirers_of g"
  "requirers_of (g\<lparr>state_changed := b\<rparr>) = requirers_of g" "requirers_of (g\<lparr>transitions := tr\<rparr>) = requirers_of g"
  "requirers_of (g\<lparr>pending_effects := pe\<rparr>) = requirers_of g" "requirers_of (g\<lparr>dirty := d\<rparr>) = requirers_of g"
  "requirers_of (g\<lparr>in_queue := q\<rparr>) = requirers_of g" "requirers_of (g\<lparr>edges := e\<rparr>) = requirers_of g"
  by (simp_all add: fun_eq_iff deps_of_def requirers_of_def)

section \<open>Views after the primitive operations\<close>

lemma vw_updates [simp]:
  "vw (g\<lparr>timer_changes := tc\<rparr>) = vw g" "vw (g\<lparr>state_changed := b\<rparr>) = vw g" "vw (g\<lparr>transitions := tr\<rparr>) = vw g"
  "vw (g\<lparr>pending_effects := pe\<rparr>) = vw g" "vw (g\<lparr>dirty := d\<rparr>) = vw g" "vw (g\<lparr>in_queue := q\<rparr>) = vw g"
  "vw (g\<lparr>edges := e\<rparr>) = vw g" "vw (g\<lparr>redges := r\<rparr>) = vw g" "vw (g\<lparr>sent := s\<rparr>) = vw g"
  "vw (g\<lparr>outbox := ob\<rparr>) = vw g" "vw (g\<lparr>ns := n\<rparr>) = vw g" "vw (g\<lparr>quitting := qt\<rparr>) = vw g"
  by (simp_all add: fun_eq_iff vw_def)

lemma vw_upd_task:
  assumes "\<And>h. hview (f h) = f (hview h)"
  shows "vw (upd_task i f g) = (vw g)(i := map_option f (vw g i))"
  using assms by (auto simp: fun_eq_iff vw_def upd_task_def option.map_comp comp_def)

lemma vw_put: "vw (g\<lparr>tasks := hm_put i h (tasks g)\<rparr>) = (vw g)(i := Some (hview h))"
  by (auto simp: fun_eq_iff vw_def)

lemma vw_enqueue [simp]: "vw (enqueue i g) = vw g"
  by (simp add: enqueue_def)

lemma vw_fold: "(\<And>x g. vw (f x g) = vw g) \<Longrightarrow> vw (fold f xs g) = vw g"
  by (induction xs arbitrary: g) simp_all

lemma vw_enqueue_parents [simp]: "vw (enqueue_parents i g) = vw g"
  by (simp add: enqueue_parents_def vw_fold)

lemma vw_give_cmd [simp]: "vw (give_cmd i c g) = vw g"
proof (cases "task_at g i")
  case (Some h)
  then show ?thesis
    by (auto simp: give_cmd_def queue_effects_def upd_task_def vw_def fun_eq_iff split: prod.splits)
qed (simp add: give_cmd_def)

lemma vw_send_cmd [simp]: "vw (send_cmd i c g) = vw g"
  by (simp add: send_cmd_def)

lemma vw_notify [simp]: "vw (notify_subscribers i s p n g) = vw g"
  by (simp add: notify_subscribers_def deliver_def vw_fold)

lemma vw_notify_changed [simp]: "vw (notify_changed i g) = vw g"
  by (simp add: notify_changed_def split: option.splits)

lemma vw_schedule [simp]:
  "vw (schedule_state_timeout i d g) = (vw g)(i := map_option (\<lambda>h. h\<lparr>h_deadline := Some (now g + d)\<rparr>) (vw g i))"
  by (auto simp: schedule_state_timeout_def vw_upd_task hview_def fun_eq_iff split: option.splits) (simp add: vw_def)

lemma vw_pop_dirty: "pop_dirty g = Some (i, g') \<Longrightarrow> vw g' = vw g"
  by (auto simp: pop_dirty_def split: list.splits)

subsection \<open>The queue\<close>

definition live :: "graph \<Rightarrow> nat set" where
  "live g = {i. i \<noteq> init_task_id \<and> task_at g i \<noteq> None}"

definition queue_ok :: "graph \<Rightarrow> bool" where
  "queue_ok g \<longleftrightarrow> distinct (dirty g) \<and> set (in_queue g) = set (dirty g) \<and> set (dirty g) \<subseteq> live g"

lemma live_vw: "live g = {i. i \<noteq> init_task_id \<and> vw g i \<noteq> None}"
  by (simp add: live_def vw_None)

lemma live_dom: "live g = dom (vw g) - {init_task_id}"
  unfolding live_vw dom_def by blast

lemma live_cong: "dom (vw g') = dom (vw g) \<Longrightarrow> live g' = live g"
  unfolding live_dom by (rule arg_cong[where f = "\<lambda>A. A - {init_task_id}"])

lemma queue_ok_cong:
  "dirty g' = dirty g \<Longrightarrow> in_queue g' = in_queue g \<Longrightarrow> dom (vw g') = dom (vw g) \<Longrightarrow> queue_ok g' = queue_ok g"
  by (simp add: queue_ok_def live_cong[of g' g])

lemma live_enqueue [simp]: "live (enqueue i g) = live g"
  by (simp add: live_vw)

lemma enqueue_queue:
  assumes "queue_ok g"
  shows "queue_ok (enqueue i g)" "set (dirty (enqueue i g)) = set (dirty g) \<union> ({i} \<inter> live g)"
  using assms by (auto simp: queue_ok_def enqueue_def live_def)

lemma fold_enqueue_queue:
  assumes "queue_ok g"
  shows "queue_ok (fold enqueue xs g)" "set (dirty (fold enqueue xs g)) = set (dirty g) \<union> (set xs \<inter> live g)"
proof -
  have "queue_ok (fold enqueue xs g) \<and> set (dirty (fold enqueue xs g)) = set (dirty g) \<union> (set xs \<inter> live g)"
    using assms
  proof (induction xs arbitrary: g)
    case (Cons x xs)
    then show ?case using enqueue_queue[of g x] by auto
  qed simp
  then show "queue_ok (fold enqueue xs g)" "set (dirty (fold enqueue xs g)) = set (dirty g) \<union> (set xs \<inter> live g)"
    by blast+
qed

lemma enqueue_parents_queue:
  assumes "queue_ok g"
  shows "queue_ok (enqueue_parents i g)"
    "set (dirty (enqueue_parents i g)) = set (dirty g) \<union> (set (requirers_of g i) \<inter> live g)"
  using fold_enqueue_queue[OF assms] by (simp_all add: enqueue_parents_def)

text \<open>Counters of several tasks changed, each then queued.\<close>

definition bump :: "(task_handle \<Rightarrow> task_handle) \<Rightarrow> nat \<Rightarrow> graph \<Rightarrow> graph" where
  "bump f d g = enqueue d (upd_task d f g)"

lemma bump_counts:
  "count_active up = bump (\<lambda>t. t\<lparr>h_active_dependents := h_active_dependents t + (if up then 1 else - 1)\<rparr>)"
  "count_wanted up = bump (\<lambda>t. t\<lparr>h_wanted_parents := h_wanted_parents t + (if up then 1 else - 1)\<rparr>)"
  by (simp_all add: fun_eq_iff bump_def count_active_def count_wanted_def)

lemma dom_vw_upd_task [simp]: "dom (vw (upd_task i f g)) = dom (vw g)"
  by (auto simp: vw_def upd_task_def dom_def)

lemma dirty_upd_task [simp]: "dirty (upd_task i f g) = dirty g" "in_queue (upd_task i f g) = in_queue g"
  by (simp_all add: upd_task_def)

lemma queue_ok_upd_task [simp]: "queue_ok (upd_task i f g) = queue_ok g"
  by (rule queue_ok_cong) simp_all

lemma live_upd_task [simp]: "live (upd_task i f g) = live g"
  by (rule live_cong) simp

lemma live_bump [simp]: "live (bump f d g) = live g"
  by (simp add: bump_def)

lemma vw_bumps:
  assumes "\<And>h. hview (f h) = f (hview h)" "distinct ds"
  shows "vw (fold (bump f) ds g) = (\<lambda>i. if i \<in> set ds then map_option f (vw g i) else vw g i)"
  using assms(2)
proof (induction ds arbitrary: g)
  case (Cons d ds)
  then show ?case by (auto simp: fun_eq_iff bump_def vw_upd_task[of f, OF assms(1)])
qed simp

lemma bumps_queue:
  assumes "queue_ok g"
  shows "queue_ok (fold (bump f) ds g)" "set (dirty (fold (bump f) ds g)) = set (dirty g) \<union> (set ds \<inter> live g)"
proof -
  have "queue_ok (fold (bump f) ds g) \<and> set (dirty (fold (bump f) ds g)) = set (dirty g) \<union> (set ds \<inter> live g)"
    using assms
  proof (induction ds arbitrary: g)
    case (Cons d ds)
    then show ?case using enqueue_queue[of "upd_task d f g" d] by (auto simp: bump_def)
  qed simp
  then show "queue_ok (fold (bump f) ds g)" "set (dirty (fold (bump f) ds g)) = set (dirty g) \<union> (set ds \<inter> live g)"
    by blast+
qed

lemma dirty_give_cmd [simp]: "dirty (give_cmd i c g) = dirty g" "in_queue (give_cmd i c g) = in_queue g"
  by (auto simp: give_cmd_def queue_effects_def split: option.splits prod.splits)

lemma dirty_send_cmd [simp]: "dirty (send_cmd i c g) = dirty g" "in_queue (send_cmd i c g) = in_queue g"
  by (auto simp: send_cmd_def)

lemma dirty_fold:
  "(\<And>x g. dirty (f x g) = dirty g) \<Longrightarrow> dirty (fold f xs g) = dirty g"
  "(\<And>x g. in_queue (f x g) = in_queue g) \<Longrightarrow> in_queue (fold f xs g) = in_queue g"
  by (induction xs arbitrary: g) simp_all

lemma dirty_notify [simp]:
  "dirty (notify_subscribers i s p n g) = dirty g" "in_queue (notify_subscribers i s p n g) = in_queue g"
  by (simp_all add: notify_subscribers_def deliver_def dirty_fold)

lemma dirty_notify_changed [simp]: "dirty (notify_changed i g) = dirty g" "in_queue (notify_changed i g) = in_queue g"
  by (simp_all add: notify_changed_def split: option.splits)

lemma dirty_schedule [simp]:
  "dirty (schedule_state_timeout i d g) = dirty g" "in_queue (schedule_state_timeout i d g) = in_queue g"
  by (simp_all add: schedule_state_timeout_def split: option.splits)

lemma queue_ok_same_vw: "dirty g' = dirty g \<Longrightarrow> in_queue g' = in_queue g \<Longrightarrow> vw g' = vw g \<Longrightarrow> queue_ok g' = queue_ok g"
  by (rule queue_ok_cong) simp_all

lemma pop_dirty_queue:
  assumes "queue_ok g" "pop_dirty g = Some (i, g')"
  shows "queue_ok g'" "set (dirty g') = set (dirty g) - {i}" "i \<in> set (dirty g)" "i \<in> live g"
proof -
  obtain d where d: "dirty g = i # d" "g' = g\<lparr>dirty := d, in_queue := hs_del i (in_queue g)\<rparr>"
    using assms(2) by (auto simp: pop_dirty_def split: list.splits)
  have "live g' = live g" by (simp add: d live_def)
  then show "queue_ok g'" "set (dirty g') = set (dirty g) - {i}" "i \<in> set (dirty g)" "i \<in> live g"
    using assms(1) d by (auto simp: queue_ok_def)
qed

section \<open>State changes\<close>

lemma enter_state_sel [simp]:
  "h_state (enter_state s h) = s" "h_kind (enter_state s h) = h_kind h" "h_wanted (enter_state s h) = h_wanted h"
  "h_supported (enter_state s h) = h_supported h" "h_vetoed (enter_state s h) = h_vetoed h"
  "h_wanted_parents (enter_state s h) = h_wanted_parents h"
  "h_active_dependents (enter_state s h) = h_active_dependents h"
  "\<not> h_killed (enter_state s h)" "\<not> h_start_failed (enter_state s h)" "\<not> h_stop_timed_out (enter_state s h)"
  "h_deadline (enter_state s h) = None" "h_saved_pin (enter_state s h) = h_saved_pin h"
  "h_ready (enter_state s h) = h_ready h" "h_restart (enter_state s h) = h_restart h"
  "h_stop_timeout (enter_state s h) = h_stop_timeout h" "h_next (enter_state s h) = h_next h"
  "h_attempts (enter_state s h) = h_attempts h" "h_last_start (enter_state s h) = h_last_start h"
  "h_space (enter_state s h) = h_space h" "h_path (enter_state s h) = h_path h"
  "h_epoch (enter_state s h) = h_epoch h + 1" "h_tags (enter_state s h) = h_tags h"
  by (simp_all add: enter_state_def)

lemma hview_enter [simp]: "hview (enter_state s h) = enter_state s (hview h)"
  by (simp add: enter_state_def hview_def)

definition add_active :: "int \<Rightarrow> task_handle \<Rightarrow> task_handle" where
  "add_active d h = h\<lparr>h_active_dependents := h_active_dependents h + d\<rparr>"

definition add_wanted :: "int \<Rightarrow> task_handle \<Rightarrow> task_handle" where
  "add_wanted d h = h\<lparr>h_wanted_parents := h_wanted_parents h + d\<rparr>"

lemma hview_add [simp]: "hview (add_active d h) = add_active d (hview h)" "hview (add_wanted d h) = add_wanted d (hview h)"
  by (simp_all add: add_active_def add_wanted_def hview_def)

lemma add_active_sel [simp]:
  "h_state (add_active d h) = h_state h" "h_kind (add_active d h) = h_kind h" "h_wanted (add_active d h) = h_wanted h"
  "h_supported (add_active d h) = h_supported h" "h_vetoed (add_active d h) = h_vetoed h"
  "h_wanted_parents (add_active d h) = h_wanted_parents h" "h_active_dependents (add_active d h) = h_active_dependents h + d"
  "h_killed (add_active d h) = h_killed h" "h_start_failed (add_active d h) = h_start_failed h"
  "h_stop_timed_out (add_active d h) = h_stop_timed_out h" "h_deadline (add_active d h) = h_deadline h"
  "h_saved_pin (add_active d h) = h_saved_pin h" "h_ready (add_active d h) = h_ready h"
  "is_satisfied (add_active d h) = is_satisfied h" "h_epoch (add_active d h) = h_epoch h"
  "h_next (add_active d h) = h_next h" "h_path (add_active d h) = h_path h" "h_space (add_active d h) = h_space h"
  by (simp_all add: add_active_def satisfied_cases)

lemma add_wanted_sel [simp]:
  "h_state (add_wanted d h) = h_state h" "h_kind (add_wanted d h) = h_kind h" "h_wanted (add_wanted d h) = h_wanted h"
  "h_supported (add_wanted d h) = h_supported h" "h_vetoed (add_wanted d h) = h_vetoed h"
  "h_wanted_parents (add_wanted d h) = h_wanted_parents h + d" "h_active_dependents (add_wanted d h) = h_active_dependents h"
  "h_killed (add_wanted d h) = h_killed h" "h_start_failed (add_wanted d h) = h_start_failed h"
  "h_stop_timed_out (add_wanted d h) = h_stop_timed_out h" "h_deadline (add_wanted d h) = h_deadline h"
  "h_saved_pin (add_wanted d h) = h_saved_pin h" "h_ready (add_wanted d h) = h_ready h"
  "is_satisfied (add_wanted d h) = is_satisfied h" "h_epoch (add_wanted d h) = h_epoch h"
  "h_next (add_wanted d h) = h_next h" "h_path (add_wanted d h) = h_path h" "h_space (add_wanted d h) = h_space h"
  by (simp_all add: add_wanted_def satisfied_cases)

lemma count_active_bump: "count_active up = bump (add_active (if up then 1 else - 1))"
  by (simp add: bump_counts add_active_def[abs_def])

lemma count_wanted_bump: "count_wanted up = bump (add_wanted (if up then 1 else - 1))"
  by (simp add: bump_counts add_wanted_def[abs_def])

lemma set_state_same: "task_at g i = Some h \<Longrightarrow> h_state h = s \<Longrightarrow> set_state i s g = g"
  by (simp add: set_state_def)

lemma set_state_none: "task_at g i = None \<Longrightarrow> set_state i s g = g"
  by (simp add: set_state_def)

text \<open>The tasks a state change queues again.\<close>

definition state_touched :: "graph \<Rightarrow> nat \<Rightarrow> task_state \<Rightarrow> task_handle \<Rightarrow> nat set" where
  "state_touched g i s h =
     {i} \<union> (if is_satisfied h \<noteq> is_satisfied (enter_state s h) then set (requirers_of g i) else {}) \<union>
     (if is_active (h_state h) \<noteq> is_active s then set (deps_of g i) else {})"

lemma set_state_spec:
  assumes "task_at g i = Some h" "h_state h \<noteq> s" "queue_ok g" "distinct (deps_of g i)"
  shows "vw (set_state i s g) = (\<lambda>j.
      let v = (if j = i then Some (enter_state s (hview h)) else vw g j)
      in if is_active (h_state h) \<noteq> is_active s \<and> j \<in> set (deps_of g i)
         then map_option (add_active (if is_active s then 1 else - 1)) v else v)"
    and "queue_ok (set_state i s g)"
    and "set (dirty (set_state i s g)) = set (dirty g) \<union> (state_touched g i s h \<inter> live g)"
proof -
  define g1 where "g1 = g\<lparr>tasks := hm_put i (enter_state s h) (tasks g),
      timer_changes := timer_changes g @ (if h_deadline h = None then [] else [i]), state_changed := True,
      transitions := transitions g @ [(i, h_state h, s, h_start_failed h)]\<rparr>"
  define g2 where "g2 = enqueue i g1"
  define g3 where "g3 = (if is_satisfied h \<noteq> is_satisfied (enter_state s h) then enqueue_parents i g2 else g2)"
  define g4 where "g4 = (if is_active (h_state h) \<noteq> is_active s
      then fold (count_active (is_active s)) (deps_of g3 i) g3 else g3)"
  have eq: "set_state i s g = notify_subscribers i (h_space h) (h_path h) (StateChanged s) g4"
    using assms(1,2) by (simp add: set_state_def Let_def g4_def g3_def g2_def g1_def)
  have vw1: "vw g1 = (vw g)(i := Some (enter_state s (hview h)))"
    by (auto simp: g1_def fun_eq_iff vw_def)
  have dom1: "dom (vw g1) = dom (vw g)" using assms(1) unfolding vw1 by (auto simp: vw_def)
  have q1: "queue_ok g1" using assms(3) queue_ok_cong[of g1 g] dom1 by (simp add: g1_def)
  have l1: "live g1 = live g" using live_cong[OF dom1] .
  have q2: "queue_ok g2" "set (dirty g2) = set (dirty g) \<union> ({i} \<inter> live g)"
    using enqueue_queue[OF q1, of i] l1 by (simp_all add: g2_def g1_def)
  have l2: "live g2 = live g" by (simp add: g2_def l1)
  have r2: "rest g2 = rest g" by (simp add: g2_def g1_def)
  note f2 = rest_fields[OF r2]
  have vw3: "vw g3 = vw g1" by (simp add: g3_def g2_def)
  have q3: "queue_ok g3" "set (dirty g3) = set (dirty g) \<union>
      (({i} \<union> (if is_satisfied h \<noteq> is_satisfied (enter_state s h) then set (requirers_of g i) else {})) \<inter> live g)"
    using enqueue_parents_queue[OF q2(1), of i] q2 by (auto simp: g3_def f2 l2)
  have r3: "rest g3 = rest g" by (simp add: g3_def r2)
  have l3: "live g3 = live g" by (rule live_cong) (simp add: vw3 dom1)
  have ds: "deps_of g3 i = deps_of g i" using rest_fields[OF r3] by simp
  let ?d = "if is_active s then 1 else - 1 :: int"
  have "vw (set_state i s g) = vw g4" by (simp add: eq)
  also have "\<dots> = (\<lambda>j. if is_active (h_state h) \<noteq> is_active s \<and> j \<in> set (deps_of g i)
      then map_option (add_active ?d) (vw g1 j) else vw g1 j)"
    using vw_bumps[of "add_active ?d" "deps_of g i" g3] assms(4) vw3
    by (auto simp: g4_def ds count_active_bump fun_eq_iff)
  finally show "vw (set_state i s g) = (\<lambda>j.
      let v = (if j = i then Some (enter_state s (hview h)) else vw g j)
      in if is_active (h_state h) \<noteq> is_active s \<and> j \<in> set (deps_of g i)
         then map_option (add_active (if is_active s then 1 else - 1)) v else v)"
    by (auto simp: vw1 fun_eq_iff Let_def)
  have q4: "queue_ok g4 \<and> set (dirty g4) = set (dirty g) \<union> (state_touched g i s h \<inter> live g)"
    using bumps_queue[OF q3(1), of "add_active ?d" "deps_of g i"] q3 l3
    by (auto simp: g4_def ds count_active_bump state_touched_def)
  have "queue_ok (set_state i s g) = queue_ok g4" unfolding eq by (rule queue_ok_same_vw) simp_all
  then show "queue_ok (set_state i s g)"
    "set (dirty (set_state i s g)) = set (dirty g) \<union> (state_touched g i s h \<inter> live g)"
    using q4 by (simp_all add: eq)
qed

section \<open>The invariants\<close>

definition edge_set :: "graph \<Rightarrow> (nat \<times> nat) set" where
  "edge_set g = {(a, b). b \<in> set (deps_of g a)}"

definition graph_ok :: "graph \<Rightarrow> bool" where
  "graph_ok g \<longleftrightarrow> hm_ok (tasks g) \<and> init_task_id \<notin> dom (vw g) \<and> hm_ok (edges g) \<and> hm_ok (redges g) \<and>
     (\<forall>a. distinct (deps_of g a) \<and> distinct (requirers_of g a)) \<and>
     (\<forall>a b. b \<in> set (deps_of g a) \<longleftrightarrow> a \<in> set (requirers_of g b)) \<and>
     (\<forall>(a, b) \<in> edge_set g. b \<in> dom (vw g) \<and> (a = init_task_id \<or> a \<in> dom (vw g))) \<and>
     acyclic (edge_set g)"

definition counts_ok :: "graph \<Rightarrow> bool" where
  "counts_ok g \<longleftrightarrow> (\<forall>i v. vw g i = Some v \<longrightarrow>
     h_wanted_parents v = int (length (filter (parent_wanted g) (requirers_of g i))) \<and>
     h_active_dependents v = int (length (filter (parent_active g) (requirers_of g i))))"

definition caches_ok :: "graph \<Rightarrow> bool" where
  "caches_ok g \<longleftrightarrow> (\<forall>i v. vw g i = Some v \<longrightarrow> i \<notin> set (dirty g) \<longrightarrow>
     h_wanted v = compute_wanted g i \<and> h_supported v = compute_supported g i)"

definition handle_ok :: "task_handle \<Rightarrow> bool" where
  "handle_ok h \<longleftrightarrow> (h_killed h \<longrightarrow> h_state h = Stopping) \<and> (h_start_failed h \<longrightarrow> h_state h = Stopping) \<and>
     (h_stop_timed_out h \<longrightarrow> h_state h = Idle)"

definition handles_ok :: "graph \<Rightarrow> bool" where
  "handles_ok g \<longleftrightarrow> (\<forall>i v. vw g i = Some v \<longrightarrow> handle_ok v)"

definition kinv :: "graph \<Rightarrow> bool" where
  "kinv g \<longleftrightarrow> graph_ok g \<and> queue_ok g \<and> counts_ok g \<and> caches_ok g \<and> handles_ok g"

lemma kinvD:
  assumes "kinv g"
  shows "graph_ok g" "queue_ok g" "counts_ok g" "caches_ok g" "handles_ok g"
  using assms by (simp_all add: kinv_def)

lemma graph_okD:
  assumes "graph_ok g"
  shows "hm_ok (tasks g)" "init_task_id \<notin> dom (vw g)" "task_at g init_task_id = None" "hm_ok (edges g)" "hm_ok (redges g)"
    "distinct (deps_of g a)" "distinct (requirers_of g a)" "b \<in> set (deps_of g a) \<longleftrightarrow> a \<in> set (requirers_of g b)"
    "b \<in> set (deps_of g a) \<Longrightarrow> b \<in> dom (vw g)" "b \<in> set (deps_of g a) \<Longrightarrow> a \<noteq> init_task_id \<Longrightarrow> a \<in> dom (vw g)"
    "acyclic (edge_set g)" "a \<notin> set (deps_of g a)"
proof -
  show "hm_ok (tasks g)" "init_task_id \<notin> dom (vw g)" "hm_ok (edges g)" "hm_ok (redges g)"
    "distinct (deps_of g a)" "distinct (requirers_of g a)" "b \<in> set (deps_of g a) \<longleftrightarrow> a \<in> set (requirers_of g b)"
    "acyclic (edge_set g)"
    using assms by (simp_all add: graph_ok_def)
  then show "task_at g init_task_id = None" by (metis domIff vw_None)
  show "b \<in> set (deps_of g a) \<Longrightarrow> b \<in> dom (vw g)" "b \<in> set (deps_of g a) \<Longrightarrow> a \<noteq> init_task_id \<Longrightarrow> a \<in> dom (vw g)"
    using assms unfolding graph_ok_def edge_set_def by blast+
  have "(a, a) \<notin> edge_set g" using assms unfolding graph_ok_def acyclic_def by blast
  then show "a \<notin> set (deps_of g a)" by (simp add: edge_set_def)
qed

lemma edge_set_cong: "deps_of g' = deps_of g \<Longrightarrow> edge_set g' = edge_set g"
  by (simp add: edge_set_def)

lemma graph_ok_cong:
  assumes "rest g' = rest g" "dom (vw g') = dom (vw g)" "hm_keys (tasks g') = hm_keys (tasks g)"
  shows "graph_ok g' = graph_ok g"
  unfolding graph_ok_def edge_set_def rest_fields[OF assms(1)] assms(2,3) by simp

lemma compute_wanted_vw:
  "compute_wanted g i = (\<not> quitting g \<and> (case vw g i of None \<Rightarrow> False | Some v \<Rightarrow> \<not> h_vetoed v \<and> h_wanted_parents v > 0))"
  by (auto simp: compute_wanted_def vw_def split: option.splits)

lemma dep_holds_vw: "dep_holds g d = (case vw g d of None \<Rightarrow> False | Some v \<Rightarrow> h_supported v \<and> is_satisfied v)"
  by (auto simp: dep_holds_def vw_def split: option.splits)

lemma compute_supported_vw:
  "compute_supported g i = (case vw g i of None \<Rightarrow> False | Some v \<Rightarrow> h_wanted v \<and> (\<forall>d \<in> set (deps_of g i). dep_holds g d))"
  by (auto simp: compute_supported_def vw_def list_all_iff split: option.splits)

lemma parent_wanted_vw: "parent_wanted g i = (i = init_task_id \<or> (case vw g i of None \<Rightarrow> False | Some v \<Rightarrow> h_wanted v))"
  by (auto simp: parent_wanted_def vw_def split: option.splits)

lemma parent_active_vw:
  "parent_active g i = (i \<noteq> init_task_id \<and> (case vw g i of None \<Rightarrow> False | Some v \<Rightarrow> is_active (h_state v)))"
  by (auto simp: parent_active_def vw_def split: option.splits)

lemma filter_change:
  assumes "distinct xs" "\<And>p. p \<noteq> i \<Longrightarrow> P' p = P p"
  shows "int (length (filter P' xs)) =
    int (length (filter P xs)) + (if i \<in> set xs then of_bool (P' i) - of_bool (P i) else 0)"
  using assms(1)
proof (induction xs)
  case (Cons x xs)
  then show ?case using assms(2)[of x] by (cases "x = i") auto
qed simp

text \<open>Nothing the invariants read has changed.\<close>

lemma kinv_cong:
  assumes "vw g' = vw g" "rest g' = rest g" "dirty g' = dirty g" "in_queue g' = in_queue g"
    "hm_keys (tasks g') = hm_keys (tasks g)"
  shows "kinv g' = kinv g"
proof -
  note f = rest_fields[OF assms(2)]
  have pw: "parent_wanted g' = parent_wanted g" "parent_active g' = parent_active g"
    by (simp_all add: fun_eq_iff parent_wanted_vw parent_active_vw assms(1))
  have dh: "dep_holds g' = dep_holds g" by (simp add: fun_eq_iff dep_holds_vw assms(1))
  have cw: "compute_wanted g' = compute_wanted g" "compute_supported g' = compute_supported g"
    unfolding fun_eq_iff compute_wanted_vw compute_supported_vw assms(1) f dh by simp_all
  have "graph_ok g' = graph_ok g" using assms by (intro graph_ok_cong) simp_all
  moreover have "queue_ok g' = queue_ok g" using assms by (intro queue_ok_same_vw) simp_all
  moreover have "counts_ok g' = counts_ok g" unfolding counts_ok_def assms(1) pw f by (rule refl)
  moreover have "caches_ok g' = caches_ok g" unfolding caches_ok_def assms(1,3) cw by (rule refl)
  moreover have "handles_ok g' = handles_ok g" unfolding handles_ok_def assms(1) by (rule refl)
  ultimately show ?thesis by (simp add: kinv_def)
qed

section \<open>Which tasks there are\<close>

definition task_ids :: "graph \<Rightarrow> nat list" where
  "task_ids g = hm_keys (tasks g)"

lemma ids_upd_task [simp]: "task_ids (upd_task i f g) = task_ids g"
  by (simp add: task_ids_def upd_task_def)

lemma ids_put: "task_at g i \<noteq> None \<Longrightarrow> task_ids (g\<lparr>tasks := hm_put i h (tasks g)\<rparr>) = task_ids g"
  using hm_keys_get[of i "tasks g"] by (simp add: task_ids_def hm_keys_put)

lemma ids_updates [simp]:
  "task_ids (g\<lparr>timer_changes := tc\<rparr>) = task_ids g" "task_ids (g\<lparr>state_changed := b\<rparr>) = task_ids g"
  "task_ids (g\<lparr>transitions := tr\<rparr>) = task_ids g" "task_ids (g\<lparr>pending_effects := pe\<rparr>) = task_ids g"
  "task_ids (g\<lparr>dirty := d\<rparr>) = task_ids g" "task_ids (g\<lparr>in_queue := q\<rparr>) = task_ids g"
  "task_ids (g\<lparr>edges := e\<rparr>) = task_ids g" "task_ids (g\<lparr>redges := r\<rparr>) = task_ids g" "task_ids (g\<lparr>sent := s\<rparr>) = task_ids g"
  by (simp_all add: task_ids_def)

lemma ids_fold: "(\<And>x g. task_ids (f x g) = task_ids g) \<Longrightarrow> task_ids (fold f xs g) = task_ids g"
  by (induction xs arbitrary: g) simp_all

lemma ids_enqueue [simp]: "task_ids (enqueue i g) = task_ids g"
  by (simp add: enqueue_def)

lemma ids_enqueue_parents [simp]: "task_ids (enqueue_parents i g) = task_ids g"
  by (simp add: enqueue_parents_def ids_fold)

lemma ids_give_cmd [simp]: "task_ids (give_cmd i c g) = task_ids g"
  by (auto simp: give_cmd_def queue_effects_def split: option.splits prod.splits)

lemma ids_send_cmd [simp]: "task_ids (send_cmd i c g) = task_ids g"
  by (simp add: send_cmd_def)

lemma ids_notify [simp]: "task_ids (notify_subscribers i s p n g) = task_ids g"
  by (simp add: notify_subscribers_def deliver_def ids_fold)

lemma ids_notify_changed [simp]: "task_ids (notify_changed i g) = task_ids g"
  by (simp add: notify_changed_def split: option.splits)

lemma ids_schedule [simp]: "task_ids (schedule_state_timeout i d g) = task_ids g"
  by (simp add: schedule_state_timeout_def split: option.splits)

lemma ids_bump [simp]: "task_ids (bump f d g) = task_ids g"
  by (simp add: bump_def)

lemma ids_set_state [simp]: "task_ids (set_state i s g) = task_ids g"
  by (auto simp: set_state_def Let_def ids_fold ids_put count_active_bump split: option.splits)

lemma ids_set_vetoed [simp]: "task_ids (set_vetoed i s g) = task_ids g"
  by (auto simp: set_vetoed_def split: option.splits)

lemma ids_recompute_wanted [simp]: "task_ids (recompute_wanted i g) = task_ids g"
  by (auto simp: recompute_wanted_def Let_def ids_fold count_wanted_bump split: option.splits)

lemma ids_recompute_supported [simp]: "task_ids (recompute_supported i g) = task_ids g"
  by (auto simp: recompute_supported_def Let_def split: option.splits)

lemma ids_recompute [simp]: "task_ids (recompute_caches i g) = task_ids g"
  by (simp add: recompute_caches_def)

lemma ids_pop_dirty: "pop_dirty g = Some (i, g') \<Longrightarrow> task_ids g' = task_ids g"
  by (auto simp: pop_dirty_def split: list.splits)

lemma dom_vw_ids: "dom (vw g) = set (task_ids g)"
proof -
  have "dom (vw g) = dom (map_of (tasks g))" by (auto simp: dom_def vw_def)
  then show ?thesis by (simp add: task_ids_def dom_map_of_conv_image_fst)
qed

lemma ids_dom: "task_ids g' = task_ids g \<Longrightarrow> dom (vw g') = dom (vw g)"
  by (simp add: dom_vw_ids)

lemma ids_live: "task_ids g' = task_ids g \<Longrightarrow> live g' = live g"
  by (simp add: live_dom dom_vw_ids)

lemma graph_ok_ids: "rest g' = rest g \<Longrightarrow> task_ids g' = task_ids g \<Longrightarrow> graph_ok g' = graph_ok g"
  by (intro graph_ok_cong ids_dom) (simp_all add: task_ids_def)

lemma finite_ids: "finite (dom (vw g))"
  by (simp add: dom_vw_ids)

section \<open>Changes of one handle\<close>

definition core_same :: "task_handle \<Rightarrow> task_handle \<Rightarrow> bool" where
  "core_same v w \<longleftrightarrow> h_wanted w = h_wanted v \<and> h_supported w = h_supported v \<and> h_vetoed w = h_vetoed v \<and>
     h_wanted_parents w = h_wanted_parents v \<and> h_active_dependents w = h_active_dependents v \<and>
     is_active (h_state w) = is_active (h_state v) \<and> is_satisfied w = is_satisfied v"

text \<open>The caches agree but for the tasks in the queue and those of a set.\<close>

definition caches_but :: "nat set \<Rightarrow> graph \<Rightarrow> bool" where
  "caches_but S g \<longleftrightarrow> (\<forall>i v. vw g i = Some v \<longrightarrow> i \<notin> set (dirty g) \<union> S \<longrightarrow>
     h_wanted v = compute_wanted g i \<and> h_supported v = compute_supported g i)"

definition kinv_but :: "nat set \<Rightarrow> graph \<Rightarrow> bool" where
  "kinv_but S g \<longleftrightarrow> graph_ok g \<and> queue_ok g \<and> counts_ok g \<and> caches_but S g \<and> handles_ok g"

lemma kinv_but_empty: "kinv_but {} g = kinv g"
  by (simp add: kinv_but_def kinv_def caches_but_def caches_ok_def)

lemma kinv_butD:
  assumes "kinv_but S g"
  shows "graph_ok g" "queue_ok g" "counts_ok g" "caches_but S g" "handles_ok g"
  using assms by (simp_all add: kinv_but_def)

lemma kinv_but_mono: "S \<subseteq> T \<Longrightarrow> kinv_but S g \<Longrightarrow> kinv_but T g"
  unfolding kinv_but_def caches_but_def by blast

lemma kinv_but_put:
  assumes inv: "kinv_but S g" and v: "vw g i = Some v" and g': "vw g' = (vw g)(i := Some w)"
    and same: "core_same v w" and ok: "handle_ok w"
    and fr: "rest g' = rest g" "dirty g' = dirty g" "in_queue g' = in_queue g" "task_ids g' = task_ids g"
  shows "kinv_but S g'"
proof -
  note f = rest_fields[OF fr(1)]
  have vw': "vw g' j = (if j = i then Some w else vw g j)" for j by (simp add: g')
  have pw: "parent_wanted g' = parent_wanted g" "parent_active g' = parent_active g"
    using v same by (auto simp: fun_eq_iff parent_wanted_vw parent_active_vw vw' core_same_def)
  have dh: "dep_holds g' = dep_holds g"
    using v same by (auto simp: fun_eq_iff dep_holds_vw vw' core_same_def)
  have cw: "compute_wanted g' j = compute_wanted g j" "compute_supported g' j = compute_supported g j" for j
    unfolding compute_wanted_vw compute_supported_vw vw' f dh using v same by (simp_all add: core_same_def)
  have "graph_ok g'" using graph_ok_ids[OF fr(1,4)] kinv_butD(1)[OF inv] by simp
  moreover have "queue_ok g'" using queue_ok_cong[OF fr(2,3) ids_dom[OF fr(4)]] kinv_butD(2)[OF inv] by simp
  moreover have "counts_ok g'" using kinv_butD(3)[OF inv] v same
    by (auto simp: counts_ok_def vw' pw f core_same_def)
  moreover have "caches_but S g'" using kinv_butD(4)[OF inv] v same
    by (auto simp: caches_but_def vw' cw fr(2) core_same_def)
  moreover have "handles_ok g'" using kinv_butD(5)[OF inv] ok by (auto simp: handles_ok_def vw')
  ultimately show ?thesis by (simp add: kinv_but_def)
qed

lemma kinv_put:
  assumes "kinv g" "vw g i = Some v" "vw g' = (vw g)(i := Some w)" "core_same v w" "handle_ok w"
    "rest g' = rest g" "dirty g' = dirty g" "in_queue g' = in_queue g" "task_ids g' = task_ids g"
  shows "kinv g'"
  using kinv_but_put[of "{}" g i v g' w] assms by (simp add: kinv_but_empty)

lemma kinv_handle: "kinv_but S g \<Longrightarrow> vw g i = Some v \<Longrightarrow> handle_ok v"
  by (auto simp: kinv_but_def handles_ok_def)

text \<open>A changed flag of a task in the queue anyway.\<close>

lemma kinv_same_views:
  assumes "kinv g" "vw g' = vw g" "rest g' = rest g" "dirty g' = dirty g" "in_queue g' = in_queue g" "task_ids g' = task_ids g"
  shows "kinv g'"
  using kinv_cong[of g' g] assms by (simp add: task_ids_def)

lemma handle_ok_add [simp]: "handle_ok (add_active d v) = handle_ok v" "handle_ok (add_wanted d v) = handle_ok v"
  by (simp_all add: handle_ok_def)

lemma handle_ok_enter [simp]: "handle_ok (enter_state s h)"
  by (simp add: handle_ok_def)

section \<open>A state change keeps the invariants\<close>

lemma satisfied_not_active_both: "is_satisfied h \<Longrightarrow> is_active (h_state h) \<longleftrightarrow> h_kind h = Service"
  by (auto simp: satisfied_cases)

lemma kinv_but_set_state:
  assumes inv: "kinv_but S g"
  shows "kinv_but S (set_state i s g)"
proof (cases "\<exists>h. task_at g i = Some h \<and> h_state h \<noteq> s")
  case False
  then have "set_state i s g = g" by (cases "task_at g i") (auto simp: set_state_same set_state_none)
  then show ?thesis using inv by simp
next
  case True
  then obtain h where h: "task_at g i = Some h" "h_state h \<noteq> s" by blast
  note ok = kinv_butD[OF inv]
  note spec = set_state_spec[OF h ok(2) graph_okD(6)[OF ok(1)]]
  let ?g = "set_state i s g"
  let ?d = "if is_active s then 1 else - 1 :: int"
  have noself: "i \<notin> set (deps_of g i)" using graph_okD(12)[OF ok(1)] .
  have vi: "vw g i = Some (hview h)" using h(1) by (rule vwI)
  have i0: "i \<noteq> init_task_id" using graph_okD(3)[OF ok(1)] h(1) by auto
  have vw': "vw ?g j = (if j = i then Some (enter_state s (hview h))
      else if is_active (h_state h) \<noteq> is_active s \<and> j \<in> set (deps_of g i) then map_option (add_active ?d) (vw g j)
      else vw g j)" for j
    unfolding spec(1) using noself by (auto simp: Let_def)
  have pw: "parent_wanted ?g = parent_wanted g"
    by (auto simp: fun_eq_iff parent_wanted_vw vw' vi split: option.splits)
  have pa: "parent_active ?g p = (if p = i then is_active s else parent_active g p)" for p
    using i0 by (auto simp: parent_active_vw vw' vi split: option.splits)
  have pai: "parent_active g i = is_active (h_state h)" using i0 by (simp add: parent_active_vw vi)
  have "counts_ok ?g"
    unfolding counts_ok_def
  proof (intro allI impI)
    fix j w
    assume w: "vw ?g j = Some w"
    then obtain v where v: "vw g j = Some v" by (auto simp: vw' vi split: if_splits)
    have c: "h_wanted_parents v = int (length (filter (parent_wanted g) (requirers_of g j)))"
      "h_active_dependents v = int (length (filter (parent_active g) (requirers_of g j)))"
      using ok(3) v by (simp_all add: counts_ok_def)
    have "int (length (filter (parent_active ?g) (requirers_of g j))) = int (length (filter (parent_active g) (requirers_of g j))) +
        (if i \<in> set (requirers_of g j) then of_bool (parent_active ?g i) - of_bool (parent_active g i) else 0)"
      by (rule filter_change) (use graph_okD(7)[OF ok(1)] pa in auto)
    moreover have "i \<in> set (requirers_of g j) \<longleftrightarrow> j \<in> set (deps_of g i)" using graph_okD(8)[OF ok(1)] by simp
    moreover have "j = i \<Longrightarrow> v = hview h" using v vi by simp
    ultimately show "h_wanted_parents w = int (length (filter (parent_wanted ?g) (requirers_of ?g j))) \<and>
        h_active_dependents w = int (length (filter (parent_active ?g) (requirers_of ?g j)))"
      using w v c noself pa[of i] pai by (auto simp: vw' pw split: if_splits)
  qed
  moreover have "caches_but S ?g"
    unfolding caches_but_def
  proof (intro allI impI)
    fix j w
    assume w: "vw ?g j = Some w" and out: "j \<notin> set (dirty ?g) \<union> S"
    obtain v where v: "vw g j = Some v" using w by (auto simp: vw' vi split: if_splits)
    have j0: "j \<in> live g" using v graph_okD(2)[OF ok(1)] by (auto simp: live_dom)
    have clean: "j \<notin> set (dirty g) \<union> S" "j \<noteq> i"
      "is_active (h_state h) \<noteq> is_active s \<Longrightarrow> j \<notin> set (deps_of g i)"
      "is_satisfied h \<noteq> is_satisfied (enter_state s h) \<Longrightarrow> j \<notin> set (requirers_of g i)"
      using out j0 unfolding spec(3) state_touched_def by (auto split: if_splits)
    then have wv: "w = v" using w v unfolding vw' by (auto split: if_splits)
    have "dep_holds ?g d = dep_holds g d" if "d \<in> set (deps_of g j)" for d
    proof (cases "d = i")
      case True
      then have "is_satisfied h = is_satisfied (enter_state s h)"
        using that clean(4) graph_okD(8)[OF ok(1), of i j] by auto
      moreover have "is_satisfied (enter_state s (hview h)) = is_satisfied (enter_state s h)"
        by (simp add: satisfied_cases)
      ultimately show ?thesis using True by (simp add: dep_holds_vw vw' vi)
    next
      case False
      then show ?thesis by (auto simp: dep_holds_vw vw' split: option.splits)
    qed
    then have "compute_supported ?g j = compute_supported g j" "compute_wanted ?g j = compute_wanted g j"
      using v w wv by (auto simp: compute_supported_vw compute_wanted_vw)
    then show "h_wanted w = compute_wanted ?g j \<and> h_supported w = compute_supported ?g j"
      using ok(4) v wv clean(1) by (auto simp: caches_but_def)
  qed
  moreover have "handles_ok ?g" using ok(5) unfolding handles_ok_def vw' by (auto split: if_splits)
  moreover have "graph_ok ?g" using graph_ok_ids[of ?g g] ok(1) by simp
  ultimately show ?thesis using spec(2) by (simp add: kinv_but_def)
qed

lemma kinv_set_state: "kinv g \<Longrightarrow> kinv (set_state i s g)"
  using kinv_but_set_state[of "{}"] by (simp add: kinv_but_empty)

end
