(* ===== verification/Kernel_Propagate.thy ===== *)
theory Kernel_Propagate
  imports Kernel_Invariant
begin

text \<open>
  The propagation of the caches (\<open>recompute_caches\<close> and the first loop of
  \<open>reconcile_round\<close> in \<open>src/src/kernel/kernel.rs\<close>): it keeps the invariants, it ends on an acyclic
  graph, and where it ends the caches are what the graph says: \<open>wanted\<close> is reachability from a
  pin through tasks that are not vetoed, \<open>supported\<close> that every dep, down to the leaves, is
  satisfied.
\<close>

section \<open>One task recomputed\<close>

definition wanted_ok :: "graph \<Rightarrow> nat \<Rightarrow> bool" where
  "wanted_ok g i \<longleftrightarrow> (\<forall>v. vw g i = Some v \<longrightarrow> h_wanted v = compute_wanted g i)"

lemma hview_wanted [simp]: "hview (h\<lparr>h_wanted := b\<rparr>) = (hview h)\<lparr>h_wanted := b\<rparr>"
  "hview (h\<lparr>h_supported := b\<rparr>) = (hview h)\<lparr>h_supported := b\<rparr>"
  by (simp_all add: hview_def)

lemma satisfied_flags [simp]:
  "is_satisfied (h\<lparr>h_wanted := b\<rparr>) = is_satisfied h" "is_satisfied (h\<lparr>h_supported := b\<rparr>) = is_satisfied h"
  "handle_ok (h\<lparr>h_wanted := b\<rparr>) = handle_ok h" "handle_ok (h\<lparr>h_supported := b\<rparr>) = handle_ok h"
  by (simp_all add: satisfied_cases handle_ok_def)

lemma recompute_wanted_same:
  "vw g i = Some v \<Longrightarrow> h_wanted v = compute_wanted g i \<Longrightarrow> recompute_wanted i g = g"
  by (auto simp: recompute_wanted_def vw_Some)

lemma recompute_wanted_spec:
  assumes "vw g i = Some v" "h_wanted v \<noteq> compute_wanted g i" "queue_ok g" "distinct (deps_of g i)"
  shows "vw (recompute_wanted i g) = (\<lambda>j.
      let u = (if j = i then Some (v\<lparr>h_wanted := compute_wanted g i\<rparr>) else vw g j)
      in if j \<in> set (deps_of g i) then map_option (add_wanted (if compute_wanted g i then 1 else - 1)) u else u)"
    and "queue_ok (recompute_wanted i g)"
    and "set (dirty (recompute_wanted i g)) = set (dirty g) \<union> (set (deps_of g i) \<inter> live g)"
proof -
  define w where "w = compute_wanted g i"
  define g1 where "g1 = (upd_task i (\<lambda>h. h\<lparr>h_wanted := w\<rparr>) g)\<lparr>state_changed := True\<rparr>"
  obtain h where h: "task_at g i = Some h" "v = hview h" using assms(1) by (auto simp: vw_Some)
  have eq: "recompute_wanted i g = fold (bump (add_wanted (if w then 1 else - 1))) (deps_of g i) g1"
    using h assms(2) by (simp add: recompute_wanted_def Let_def g1_def w_def count_wanted_bump)
  have vw1: "vw g1 = (vw g)(i := Some (v\<lparr>h_wanted := w\<rparr>))"
    by (simp add: g1_def vw_upd_task assms(1))
  have q1: "queue_ok g1" using assms(3) queue_ok_cong[of g1 "upd_task i (\<lambda>h. h\<lparr>h_wanted := w\<rparr>) g"]
    by (simp add: g1_def)
  have l1: "live g1 = live g" by (rule ids_live) (simp add: g1_def)
  show "vw (recompute_wanted i g) = (\<lambda>j.
      let u = (if j = i then Some (v\<lparr>h_wanted := compute_wanted g i\<rparr>) else vw g j)
      in if j \<in> set (deps_of g i) then map_option (add_wanted (if compute_wanted g i then 1 else - 1)) u else u)"
    unfolding eq by (subst vw_bumps) (auto simp: assms(4) vw1 w_def fun_eq_iff Let_def)
  show "queue_ok (recompute_wanted i g)"
    "set (dirty (recompute_wanted i g)) = set (dirty g) \<union> (set (deps_of g i) \<inter> live g)"
    using bumps_queue[OF q1] l1 unfolding eq by (auto simp: g1_def)
qed

lemma recompute_supported_same:
  "vw g i = Some v \<Longrightarrow> h_supported v = compute_supported g i \<Longrightarrow> recompute_supported i g = g"
  by (auto simp: recompute_supported_def vw_Some)

lemma recompute_supported_spec:
  assumes "vw g i = Some v" "h_supported v \<noteq> compute_supported g i" "queue_ok g"
  shows "vw (recompute_supported i g) = (vw g)(i := Some (v\<lparr>h_supported := compute_supported g i\<rparr>))"
    and "queue_ok (recompute_supported i g)"
    and "set (dirty (recompute_supported i g)) = set (dirty g) \<union> (set (requirers_of g i) \<inter> live g)"
proof -
  obtain h where h: "task_at g i = Some h" "v = hview h" using assms(1) by (auto simp: vw_Some)
  let ?g1 = "upd_task i (\<lambda>h. h\<lparr>h_supported := compute_supported g i\<rparr>) g"
  have eq: "recompute_supported i g = enqueue_parents i ?g1"
    using h assms(2) by (simp add: recompute_supported_def Let_def)
  show "vw (recompute_supported i g) = (vw g)(i := Some (v\<lparr>h_supported := compute_supported g i\<rparr>))"
    unfolding eq by (simp add: vw_upd_task assms(1))
  show "queue_ok (recompute_supported i g)"
    "set (dirty (recompute_supported i g)) = set (dirty g) \<union> (set (requirers_of g i) \<inter> live g)"
    using enqueue_parents_queue[of ?g1 i] assms(3) unfolding eq by simp_all
qed

lemma kinv_but_recompute_wanted:
  assumes inv: "kinv_but (insert i S) g" and vi: "vw g i = Some v"
  shows "kinv_but (insert i S) (recompute_wanted i g) \<and> wanted_ok (recompute_wanted i g) i"
proof (cases "h_wanted v = compute_wanted g i")
  case True
  then show ?thesis using inv vi recompute_wanted_same[OF vi True] by (simp add: wanted_ok_def)
next
  case False
  note ok = kinv_butD[OF inv]
  note spec = recompute_wanted_spec[OF vi False ok(2) graph_okD(6)[OF ok(1)]]
  let ?g = "recompute_wanted i g"
  let ?w = "compute_wanted g i"
  let ?d = "if ?w then 1 else - 1 :: int"
  have noself: "i \<notin> set (deps_of g i)" using graph_okD(12)[OF ok(1)] .
  have i0: "i \<noteq> init_task_id" using graph_okD(2)[OF ok(1)] vi by auto
  have vw': "vw ?g j = (if j = i then Some (v\<lparr>h_wanted := ?w\<rparr>)
      else if j \<in> set (deps_of g i) then map_option (add_wanted ?d) (vw g j) else vw g j)" for j
    unfolding spec(1) using noself by (auto simp: Let_def)
  have pa: "parent_active ?g = parent_active g"
    using vi by (auto simp: fun_eq_iff parent_active_vw vw' split: option.splits)
  have pw: "parent_wanted ?g p = (if p = i then ?w else parent_wanted g p)" for p
    using i0 vi by (auto simp: parent_wanted_vw vw' split: option.splits)
  have pwi: "parent_wanted g i = h_wanted v" using i0 vi by (simp add: parent_wanted_vw)
  have dh: "dep_holds ?g = dep_holds g"
    using vi by (auto simp: fun_eq_iff dep_holds_vw vw' split: option.splits)
  have "counts_ok ?g"
    unfolding counts_ok_def
  proof (intro allI impI)
    fix j u
    assume u: "vw ?g j = Some u"
    then obtain x where x: "vw g j = Some x" using vi by (auto simp: vw' split: if_splits)
    have c: "h_wanted_parents x = int (length (filter (parent_wanted g) (requirers_of g j)))"
      "h_active_dependents x = int (length (filter (parent_active g) (requirers_of g j)))"
      using ok(3) x by (simp_all add: counts_ok_def)
    have "int (length (filter (parent_wanted ?g) (requirers_of g j))) = int (length (filter (parent_wanted g) (requirers_of g j))) +
        (if i \<in> set (requirers_of g j) then of_bool (parent_wanted ?g i) - of_bool (parent_wanted g i) else 0)"
      by (rule filter_change) (use graph_okD(7)[OF ok(1)] pw in auto)
    moreover have "i \<in> set (requirers_of g j) \<longleftrightarrow> j \<in> set (deps_of g i)" using graph_okD(8)[OF ok(1)] by simp
    moreover have "j = i \<Longrightarrow> x = v" using x vi by simp
    ultimately show "h_wanted_parents u = int (length (filter (parent_wanted ?g) (requirers_of ?g j))) \<and>
        h_active_dependents u = int (length (filter (parent_active ?g) (requirers_of ?g j)))"
      using u x c noself pw[of i] pwi False by (auto simp: vw' pa split: if_splits)
  qed
  moreover have cw: "compute_wanted ?g j = compute_wanted g j" if "j \<notin> set (deps_of g i)" for j
    using that vi by (auto simp: compute_wanted_vw vw')
  have "caches_but (insert i S) ?g"
    unfolding caches_but_def
  proof (intro allI impI)
    fix j u
    assume u: "vw ?g j = Some u" and out: "j \<notin> set (dirty ?g) \<union> insert i S"
    then obtain x where x: "vw g j = Some x" using vi by (auto simp: vw' split: if_splits)
    have "j \<in> live g" using x graph_okD(2)[OF ok(1)] by (auto simp: live_dom)
    then have clean: "j \<notin> set (dirty g) \<union> insert i S" "j \<noteq> i" "j \<notin> set (deps_of g i)"
      using out unfolding spec(3) by auto
    then have ux: "u = x" using u x unfolding vw' by simp
    have "compute_supported ?g j = compute_supported g j"
      using x clean by (simp add: compute_supported_vw vw' dh)
    then show "h_wanted u = compute_wanted ?g j \<and> h_supported u = compute_supported ?g j"
      using ok(4) x ux clean(1) cw[OF clean(3)] by (auto simp: caches_but_def)
  qed
  moreover have "handles_ok ?g" using ok(5) vi unfolding handles_ok_def vw' by (auto split: if_splits)
  moreover have "graph_ok ?g" using graph_ok_ids[of ?g g] ok(1) by simp
  moreover have "wanted_ok ?g i" using cw[OF noself] by (simp add: wanted_ok_def vw')
  ultimately show ?thesis using spec(2) by (simp add: kinv_but_def)
qed

lemma kinv_but_recompute_supported:
  assumes inv: "kinv_but (insert i S) g" and vi: "vw g i = Some v" and w: "wanted_ok g i"
  shows "kinv_but S (recompute_supported i g)"
proof (cases "h_supported v = compute_supported g i")
  case True
  have "caches_but S g"
    unfolding caches_but_def
  proof (intro allI impI)
    fix j u
    assume "vw g j = Some u" "j \<notin> set (dirty g) \<union> S"
    then show "h_wanted u = compute_wanted g j \<and> h_supported u = compute_supported g j"
      using kinv_butD(4)[OF inv] vi True w by (cases "j = i") (auto simp: caches_but_def wanted_ok_def)
  qed
  then show ?thesis using inv recompute_supported_same[OF vi True] by (simp add: kinv_but_def)
next
  case False
  note ok = kinv_butD[OF inv]
  note spec = recompute_supported_spec[OF vi False ok(2)]
  let ?g = "recompute_supported i g"
  let ?s = "compute_supported g i"
  have noself: "i \<notin> set (deps_of g i)" using graph_okD(12)[OF ok(1)] .
  have vw': "vw ?g j = (if j = i then Some (v\<lparr>h_supported := ?s\<rparr>) else vw g j)" for j
    unfolding spec(1) by simp
  have pa: "parent_active ?g = parent_active g" "parent_wanted ?g = parent_wanted g"
    using vi by (auto simp: fun_eq_iff parent_active_vw parent_wanted_vw vw' split: option.splits)
  have dh: "dep_holds ?g d = dep_holds g d" if "d \<noteq> i" for d using that by (simp add: dep_holds_vw vw')
  have cw: "compute_wanted ?g = compute_wanted g"
    using vi by (auto simp: fun_eq_iff compute_wanted_vw vw')
  have cs: "compute_supported ?g j = compute_supported g j" if "j \<notin> set (requirers_of g i)" for j
  proof -
    have "i \<notin> set (deps_of g j)" using that graph_okD(8)[OF ok(1)] by simp
    then have "(\<forall>d \<in> set (deps_of g j). dep_holds ?g d) = (\<forall>d \<in> set (deps_of g j). dep_holds g d)"
      using dh by (metis (full_types))
    then show ?thesis using vi by (cases "vw g j") (auto simp: compute_supported_vw vw')
  qed
  have "counts_ok ?g" using ok(3) vi unfolding counts_ok_def vw' pa by auto
  moreover have "caches_but S ?g"
    unfolding caches_but_def
  proof (intro allI impI)
    fix j u
    assume u: "vw ?g j = Some u" and out: "j \<notin> set (dirty ?g) \<union> S"
    then obtain x where x: "vw g j = Some x" using vi by (auto simp: vw' split: if_splits)
    have "j \<in> live g" using x graph_okD(2)[OF ok(1)] by (auto simp: live_dom)
    then have clean: "j \<notin> set (dirty g) \<union> S" "j \<notin> set (requirers_of g i)"
      using out unfolding spec(3) by auto
    show "h_wanted u = compute_wanted ?g j \<and> h_supported u = compute_supported ?g j"
    proof (cases "j = i")
      case True
      then show ?thesis using u w vi cs[OF clean(2)] by (auto simp: vw' cw wanted_ok_def)
    next
      case False
      then show ?thesis using u x ok(4) clean cs[OF clean(2)] by (auto simp: vw' cw caches_but_def)
    qed
  qed
  moreover have "handles_ok ?g" using ok(5) vi unfolding handles_ok_def vw' by (auto split: if_splits)
  moreover have "graph_ok ?g" using graph_ok_ids[of ?g g] ok(1) by simp
  ultimately show ?thesis using spec(2) by (simp add: kinv_but_def)
qed

lemma vw_recompute_wanted_dom: "vw g i = Some v \<Longrightarrow> \<exists>u. vw (recompute_wanted i g) i = Some u"
  using ids_dom[OF ids_recompute_wanted, of i g] by (metis domD domI)

lemma kinv_but_recompute:
  assumes "kinv_but (insert i S) g" "vw g i = Some v"
  shows "kinv_but S (recompute_caches i g)"
  using kinv_but_recompute_wanted[OF assms] vw_recompute_wanted_dom[OF assms(2)] kinv_but_recompute_supported
  unfolding recompute_caches_def by blast

section \<open>The loop ends\<close>

text \<open>The tasks whose caches are off.\<close>

definition wanted_off :: "graph \<Rightarrow> nat set" where
  "wanted_off g = {j. \<exists>v. vw g j = Some v \<and> h_wanted v \<noteq> compute_wanted g j}"

definition supported_off :: "graph \<Rightarrow> nat set" where
  "supported_off g = {j. \<exists>v. vw g j = Some v \<and> h_supported v \<noteq> compute_supported g j}"

lemma finite_off: "finite (wanted_off g)" "finite (supported_off g)"
  by (rule finite_subset[OF _ finite_ids[of g]], auto simp: wanted_off_def supported_off_def)+

lemma off_wanted:
  assumes inv: "kinv_but S g" and vi: "vw g i = Some v" and off: "h_wanted v \<noteq> compute_wanted g i"
  shows "i \<in> wanted_off g" "wanted_off (recompute_wanted i g) \<subseteq> (wanted_off g - {i}) \<union> set (deps_of g i)"
proof -
  note ok = kinv_butD[OF inv]
  note spec = recompute_wanted_spec[OF vi off ok(2) graph_okD(6)[OF ok(1)]]
  have noself: "i \<notin> set (deps_of g i)" using graph_okD(12)[OF ok(1)] .
  let ?g = "recompute_wanted i g"
  have vw': "vw ?g j = (if j = i then Some (v\<lparr>h_wanted := compute_wanted g i\<rparr>) else vw g j)"
    if "j \<notin> set (deps_of g i)" for j
    unfolding spec(1) using that by (auto simp: Let_def)
  have cw: "compute_wanted ?g j = compute_wanted g j" if "j \<notin> set (deps_of g i)" for j
    using that vi vw'[OF that] by (auto simp: compute_wanted_vw)
  show "i \<in> wanted_off g" using vi off by (auto simp: wanted_off_def)
  show "wanted_off ?g \<subseteq> (wanted_off g - {i}) \<union> set (deps_of g i)"
    using vw' cw noself by (auto simp: wanted_off_def split: if_splits)
qed

lemma off_supported:
  assumes inv: "kinv_but S g" and vi: "vw g i = Some v" and off: "h_supported v \<noteq> compute_supported g i"
  shows "i \<in> supported_off g" "wanted_off (recompute_supported i g) = wanted_off g"
    "supported_off (recompute_supported i g) \<subseteq> (supported_off g - {i}) \<union> set (requirers_of g i)"
proof -
  note ok = kinv_butD[OF inv]
  note spec = recompute_supported_spec[OF vi off ok(2)]
  have noself: "i \<notin> set (deps_of g i)" using graph_okD(12)[OF ok(1)] .
  let ?g = "recompute_supported i g"
  have vw': "vw ?g j = (if j = i then Some (v\<lparr>h_supported := compute_supported g i\<rparr>) else vw g j)" for j
    unfolding spec(1) by simp
  have cw: "compute_wanted ?g = compute_wanted g"
    using vi by (auto simp: fun_eq_iff compute_wanted_vw vw')
  have dh: "dep_holds ?g d = dep_holds g d" if "d \<noteq> i" for d using that by (simp add: dep_holds_vw vw')
  have cs: "compute_supported ?g j = compute_supported g j" if "j \<notin> set (requirers_of g i)" for j
  proof -
    have "i \<notin> set (deps_of g j)" using that graph_okD(8)[OF ok(1)] by simp
    then have "(\<forall>d \<in> set (deps_of g j). dep_holds ?g d) = (\<forall>d \<in> set (deps_of g j). dep_holds g d)"
      using dh by (metis (full_types))
    then show ?thesis using vi by (cases "vw g j") (auto simp: compute_supported_vw vw')
  qed
  show "i \<in> supported_off g" using vi off by (auto simp: supported_off_def)
  show "wanted_off ?g = wanted_off g" using vi unfolding wanted_off_def vw' cw by auto
  have "i \<notin> set (requirers_of g i)" using noself graph_okD(8)[OF ok(1)] by simp
  then show "supported_off ?g \<subseteq> (supported_off g - {i}) \<union> set (requirers_of g i)"
    using vw' cs by (auto simp: supported_off_def split: if_splits)
qed

text \<open>An element replaced by smaller ones.\<close>

lemma mset_set_mult:
  assumes "finite A" "finite A'" "i \<in> A" "A' \<subseteq> (A - {i}) \<union> C" "\<And>c. c \<in> C \<Longrightarrow> (c, i) \<in> r" "i \<notin> C"
  shows "(mset_set A', mset_set A) \<in> mult r"
proof -
  have "mset_set A' = mset_set (A \<inter> A') + mset_set (A' - A)"
    using assms(2) by (subst mset_set_Union[symmetric]) (auto intro: arg_cong[where f = mset_set])
  moreover have "mset_set A = mset_set (A \<inter> A') + mset_set (A - A')"
    using assms(1) by (subst mset_set_Union[symmetric]) (auto intro: arg_cong[where f = mset_set])
  moreover have "(mset_set (A \<inter> A') + mset_set (A' - A), mset_set (A \<inter> A') + mset_set (A - A')) \<in> mult r"
  proof (rule one_step_implies_mult)
    show "mset_set (A - A') \<noteq> {#}" using assms by (auto simp: mset_set_empty_iff)
    show "\<forall>k \<in> set_mset (mset_set (A' - A)). \<exists>j \<in> set_mset (mset_set (A - A')). (k, j) \<in> r"
      using assms by auto
  qed
  ultimately show ?thesis by simp
qed

definition work_left :: "graph \<Rightarrow> nat multiset \<times> nat multiset \<times> nat" where
  "work_left g = (mset_set (wanted_off g), mset_set (supported_off g), length (dirty g))"

definition work_order :: "(nat \<times> nat) set \<Rightarrow> ((nat multiset \<times> nat multiset \<times> nat) \<times> (nat multiset \<times> nat multiset \<times> nat)) set" where
  "work_order E = mult (E\<inverse>) <*lex*> mult E <*lex*> less_than"

lemma finite_edge_set: "graph_ok g \<Longrightarrow> finite (edge_set g)"
proof -
  assume ok: "graph_ok g"
  have "edge_set g \<subseteq> insert init_task_id (dom (vw g)) \<times> dom (vw g)"
  proof (rule subrelI)
    fix a b
    assume "(a, b) \<in> edge_set g"
    then have "b \<in> set (deps_of g a)" by (simp add: edge_set_def)
    then show "(a, b) \<in> insert init_task_id (dom (vw g)) \<times> dom (vw g)"
      using graph_okD(9)[OF ok, of b a] graph_okD(10)[OF ok, of b a] by blast
  qed
  then show ?thesis by (rule finite_subset) (simp add: finite_ids)
qed

lemma wf_work_order: "graph_ok g \<Longrightarrow> wf (work_order (edge_set g))"
proof -
  assume ok: "graph_ok g"
  have "wf (edge_set g)" using finite_edge_set[OF ok] graph_okD(11)[OF ok] by (rule finite_acyclic_wf)
  moreover have "wf ((edge_set g)\<inverse>)" using finite_edge_set[OF ok] graph_okD(11)[OF ok] by (rule finite_acyclic_wf_converse)
  ultimately show ?thesis unfolding work_order_def by (simp add: wf_lex_prod wf_mult)
qed

lemma pop_caches:
  assumes "kinv_but S g" "pop_dirty g = Some (i, g')"
  shows "kinv_but (insert i S) g'" "\<exists>v. vw g' i = Some v" "work_left g' = (fst (work_left g), fst (snd (work_left g)), length (dirty g'))"
    "length (dirty g') < length (dirty g)" "edge_set g' = edge_set g"
proof -
  note ok = kinv_butD[OF assms(1)]
  note q = pop_dirty_queue[OF ok(2) assms(2)]
  have vw': "vw g' = vw g" and r: "rest g' = rest g" and ids: "task_ids g' = task_ids g"
    using vw_pop_dirty[OF assms(2)] rest_pop_dirty[OF assms(2)] ids_pop_dirty[OF assms(2)] by auto
  note f = rest_fields[OF r]
  have pw: "parent_wanted g' = parent_wanted g" "parent_active g' = parent_active g"
    unfolding fun_eq_iff parent_wanted_vw parent_active_vw vw' by simp_all
  have dh: "dep_holds g' = dep_holds g" unfolding fun_eq_iff dep_holds_vw vw' by simp
  have cw: "compute_wanted g' = compute_wanted g" "compute_supported g' = compute_supported g"
    unfolding fun_eq_iff compute_wanted_vw compute_supported_vw vw' f dh by simp_all
  have "caches_but (insert i S) g'" using ok(4) unfolding caches_but_def vw' cw q(2) by blast
  moreover have "counts_ok g'" using ok(3) unfolding counts_ok_def vw' pw f .
  moreover have "handles_ok g'" using ok(5) unfolding handles_ok_def vw' .
  ultimately show "kinv_but (insert i S) g'" using graph_ok_ids[OF r ids] ok(1) q(1) by (simp add: kinv_but_def)
  show "\<exists>v. vw g' i = Some v" using q(4) vw' by (auto simp: live_vw)
  show "work_left g' = (fst (work_left g), fst (snd (work_left g)), length (dirty g'))"
    by (simp add: work_left_def wanted_off_def supported_off_def vw' cw)
  show "length (dirty g') < length (dirty g)" using assms(2) by (auto simp: pop_dirty_def split: list.splits)
  show "edge_set g' = edge_set g" using f(15) by (simp add: edge_set_def)
qed

lemma recompute_decreases:
  assumes inv: "kinv_but (insert i S) g" and vi: "vw g i = Some v"
  shows "recompute_caches i g = g \<or>
    (work_left (recompute_caches i g), (fst (work_left g), fst (snd (work_left g)), n)) \<in> work_order (edge_set g)"
proof -
  note gok = kinv_butD(1)[OF inv]
  have down: "c \<in> set (deps_of g i) \<Longrightarrow> (c, i) \<in> (edge_set g)\<inverse>" for c by (simp add: edge_set_def)
  have up: "c \<in> set (requirers_of g i) \<Longrightarrow> (c, i) \<in> edge_set g" for c
    using graph_okD(8)[OF gok] by (simp add: edge_set_def)
  have nos: "i \<notin> set (deps_of g i)" "i \<notin> set (requirers_of g i)"
    using graph_okD(12)[OF gok] graph_okD(8)[OF gok] by blast+
  let ?g1 = "recompute_wanted i g"
  obtain u where u: "vw ?g1 i = Some u" using vw_recompute_wanted_dom[OF vi] by blast
  have inv1: "kinv_but (insert i S) ?g1" using kinv_but_recompute_wanted[OF inv vi] by blast
  have sup: "wanted_off (recompute_supported i ?g1) = wanted_off ?g1"
  proof (cases "h_supported u = compute_supported ?g1 i")
    case True
    then show ?thesis using recompute_supported_same[OF u] by simp
  next
    case False
    then show ?thesis using off_supported(2)[OF inv1 u] by simp
  qed
  show ?thesis
  proof (cases "h_wanted v = compute_wanted g i")
    case False
    note off = off_wanted[OF inv vi False]
    have "(mset_set (wanted_off ?g1), mset_set (wanted_off g)) \<in> mult ((edge_set g)\<inverse>)"
      using off finite_off down nos by (intro mset_set_mult[of _ _ i "set (deps_of g i)"]) auto
    then show ?thesis by (simp add: work_order_def work_left_def recompute_caches_def sup)
  next
    case True
    then have eq: "?g1 = g" using recompute_wanted_same[OF vi] by simp
    show ?thesis
    proof (cases "h_supported v = compute_supported g i")
      case False
      note off = off_supported[OF inv vi False]
      have "(mset_set (supported_off (recompute_supported i g)), mset_set (supported_off g)) \<in> mult (edge_set g)"
        using off finite_off up nos by (intro mset_set_mult[of _ _ i "set (requirers_of g i)"]) auto
      then show ?thesis using off(2) by (simp add: work_order_def work_left_def recompute_caches_def eq)
    next
      case True
      then show ?thesis using eq recompute_supported_same[OF vi] by (simp add: recompute_caches_def)
    qed
  qed
qed

end
