(* ===== verification/Kernel_Caches.thy ===== *)
theory Kernel_Caches
  imports Kernel_Propagate
begin

text \<open>
  The first loop of \<open>reconcile_round\<close> (\<open>propagate\<close>) taken to its end, and what the caches then
  are: the \<open>wanted\<close> and \<open>supported\<close> flags of the incremental algorithm against the two oracles
  that read the whole graph.
\<close>

section \<open>The loop as a whole\<close>

text \<open>A view without what \<open>recompute_caches\<close> writes, and the logs it never appends to.\<close>

definition plain :: "task_handle \<Rightarrow> task_handle" where
  "plain v = v\<lparr>h_wanted := False, h_supported := False, h_wanted_parents := 0\<rparr>"

definition logs :: "graph \<Rightarrow> (nat \<times> task_effect) list \<times> (nat \<times> sent_cmd) list \<times> nat list \<times> (nat \<times> task_state \<times> task_state \<times> bool) list" where
  "logs g = (pending_effects g, sent g, timer_changes g, transitions g)"

lemma plain_writes [simp]:
  "plain (v\<lparr>h_wanted := b\<rparr>) = plain v" "plain (v\<lparr>h_supported := b\<rparr>) = plain v" "plain (add_wanted d v) = plain v"
  by (simp_all add: plain_def add_wanted_def)

lemma plainD:
  assumes "plain v = plain w"
  shows "h_state v = h_state w" "h_kind v = h_kind w" "h_vetoed v = h_vetoed w" "h_killed v = h_killed w"
    "h_active_dependents v = h_active_dependents w" "h_deadline v = h_deadline w" "h_start_failed v = h_start_failed w"
    "h_epoch v = h_epoch w" "h_ready v = h_ready w"
  using arg_cong[OF assms, of h_state] arg_cong[OF assms, of h_kind] arg_cong[OF assms, of h_vetoed]
    arg_cong[OF assms, of h_killed] arg_cong[OF assms, of h_active_dependents] arg_cong[OF assms, of h_deadline]
    arg_cong[OF assms, of h_start_failed] arg_cong[OF assms, of h_epoch] arg_cong[OF assms, of h_ready]
  by (simp_all add: plain_def)

lemma logs_updates [simp]:
  "logs (upd_task i f g) = logs g" "logs (enqueue i g) = logs g" "logs (g\<lparr>state_changed := b\<rparr>) = logs g"
  by (simp_all add: logs_def upd_task_def enqueue_def)

lemma logs_fold: "(\<And>x g. logs (f x g) = logs g) \<Longrightarrow> logs (fold f xs g) = logs g"
  by (induction xs arbitrary: g) simp_all

lemma logs_recompute [simp]: "logs (recompute_caches i g) = logs g"
  by (simp add: recompute_caches_def recompute_supported_def recompute_wanted_def Let_def logs_fold
      count_wanted_def enqueue_parents_def split: option.splits)

lemma recompute_effect:
  assumes inv: "kinv_but (insert i S) g" and vi: "vw g i = Some v"
  shows "map_option plain (vw (recompute_caches i g) j) = map_option plain (vw g j)"
    and "set (dirty g) \<subseteq> set (dirty (recompute_caches i g))"
    and "j \<noteq> i \<Longrightarrow> j \<notin> set (dirty (recompute_caches i g)) \<Longrightarrow> vw (recompute_caches i g) j = vw g j"
proof -
  note ok = kinv_butD[OF inv]
  let ?g1 = "recompute_wanted i g"
  obtain u where u: "vw ?g1 i = Some u" using vw_recompute_wanted_dom[OF vi] by blast
  have inv1: "kinv_but (insert i S) ?g1" using kinv_but_recompute_wanted[OF inv vi] by blast
  note ok1 = kinv_butD[OF inv1]
  have l1: "live ?g1 = live g" by (rule ids_live) simp
  have in_live: "b \<in> live g" if "b \<in> set (deps_of g i)" for b
    using graph_okD(9)[OF ok(1) that] graph_okD(2)[OF ok(1)] by (auto simp: live_dom)
  have w: "map_option plain (vw ?g1 j) = map_option plain (vw g j)" "set (dirty g) \<subseteq> set (dirty ?g1)"
    "j \<noteq> i \<Longrightarrow> j \<notin> set (dirty ?g1) \<Longrightarrow> vw ?g1 j = vw g j" for j
  proof -
    have "map_option plain (vw ?g1 j) = map_option plain (vw g j) \<and> set (dirty g) \<subseteq> set (dirty ?g1) \<and>
      (j \<noteq> i \<longrightarrow> j \<notin> set (dirty ?g1) \<longrightarrow> vw ?g1 j = vw g j)"
    proof (cases "h_wanted v = compute_wanted g i")
      case True
      then show ?thesis using recompute_wanted_same[OF vi] by simp
    next
      case False
      note spec = recompute_wanted_spec[OF vi False ok(2) graph_okD(6)[OF ok(1)]]
      have "j \<notin> set (dirty ?g1) \<Longrightarrow> j \<notin> set (deps_of g i)" using in_live unfolding spec(3) by blast
      then show ?thesis using vi unfolding spec(1,3)
        by (auto simp: Let_def option.map_comp comp_def)
    qed
    then show "map_option plain (vw ?g1 j) = map_option plain (vw g j)" "set (dirty g) \<subseteq> set (dirty ?g1)"
      "j \<noteq> i \<Longrightarrow> j \<notin> set (dirty ?g1) \<Longrightarrow> vw ?g1 j = vw g j"
      by blast+
  qed
  have s: "map_option plain (vw (recompute_supported i ?g1) j) = map_option plain (vw ?g1 j) \<and>
      set (dirty ?g1) \<subseteq> set (dirty (recompute_supported i ?g1)) \<and>
      (j \<noteq> i \<longrightarrow> vw (recompute_supported i ?g1) j = vw ?g1 j)" for j
  proof (cases "h_supported u = compute_supported ?g1 i")
    case True
    then show ?thesis using recompute_supported_same[OF u] by simp
  next
    case False
    note spec = recompute_supported_spec[OF u False ok1(2)]
    show ?thesis using u unfolding spec(1,3) by auto
  qed
  show "map_option plain (vw (recompute_caches i g) j) = map_option plain (vw g j)"
    using w(1) s by (simp add: recompute_caches_def)
  show "set (dirty g) \<subseteq> set (dirty (recompute_caches i g))"
    using w(2) s unfolding recompute_caches_def by blast
  show "j \<noteq> i \<Longrightarrow> j \<notin> set (dirty (recompute_caches i g)) \<Longrightarrow> vw (recompute_caches i g) j = vw g j"
    using w(3)[of j] s unfolding recompute_caches_def by auto
qed

text \<open>What the loop does from a graph, with the tasks to drive collected so far.\<close>

definition propagated :: "nat list \<Rightarrow> graph \<Rightarrow> nat list \<Rightarrow> graph \<Rightarrow> bool" where
  "propagated td g td' g' \<longleftrightarrow> kinv g' \<and> dirty g' = [] \<and> rest g' = rest g \<and> task_ids g' = task_ids g \<and>
     logs g' = logs g \<and> set td \<union> set (dirty g) \<subseteq> set td' \<and> set td' \<subseteq> set td \<union> live g \<and>
     (distinct td \<longrightarrow> distinct td') \<and> (\<forall>j. j \<notin> set td' \<longrightarrow> vw g' j = vw g j) \<and>
     (\<forall>j. map_option plain (vw g' j) = map_option plain (vw g j))"

lemma propagate_ends: "kinv g \<Longrightarrow> \<exists>td' g'. propagate td g = Some (td', g') \<and> propagated td g td' g'"
proof -
  assume start: "kinv g"
  define E where "E = edge_set g"
  have wf: "wf (work_order E)" using wf_work_order[OF kinvD(1)[OF start]] by (simp add: E_def)
  have "kinv h \<Longrightarrow> edge_set h = E \<Longrightarrow> \<exists>td' g'. propagate td h = Some (td', g') \<and> propagated td h td' g'" for h
  proof (induction "work_left h" arbitrary: h td rule: wf_induct_rule[OF wf])
    case (1 h)
    note inv = 1(2) and edges = 1(3)
    show ?case
    proof (cases "pop_dirty h")
      case None
      then have "dirty h = []" by (simp add: pop_dirty_def split: list.splits)
      then show ?thesis using None inv by (subst propagate.simps) (simp add: propagated_def)
    next
      case (Some p)
      then obtain i h1 where pop: "pop_dirty h = Some (i, h1)" by (cases p) auto
      have inv0: "kinv_but {} h" using inv by (simp add: kinv_but_empty)
      note p = pop_caches[OF inv0 pop]
      obtain v where v: "vw h1 i = Some v" using p(2) by blast
      define h2 where "h2 = recompute_caches i h1"
      define td2 where "td2 = (if i \<in> set td then td else td @ [i])"
      have inv2: "kinv h2" using kinv_but_recompute[OF p(1) v] by (simp add: h2_def kinv_but_empty)
      have e2: "edge_set h2 = E" using p(5) edges by (simp add: h2_def edge_set_def)
      have "(work_left h2, work_left h) \<in> work_order E"
        using recompute_decreases[OF p(1) v, of "length (dirty h)"] p(3-5) edges
        unfolding h2_def[symmetric] by (auto simp: work_order_def work_left_def)
      then obtain td' g' where run: "propagate td2 h2 = Some (td', g')" and P: "propagated td2 h2 td' g'"
        using 1(1)[OF _ inv2 e2] by blast
      have eq: "propagate td h = propagate td2 h2"
        by (subst propagate.simps) (simp add: pop td2_def h2_def)
      note q = pop_dirty_queue[OF kinvD(2)[OF inv] pop]
      note eff = recompute_effect[OF p(1) v, folded h2_def]
      have same: "vw h1 = vw h" "rest h2 = rest h" "task_ids h2 = task_ids h" "logs h2 = logs h"
        using vw_pop_dirty[OF pop] rest_pop_dirty[OF pop] ids_pop_dirty[OF pop] pop
        by (auto simp: h2_def logs_def[of h] logs_def[of h1] pop_dirty_def split: list.splits)
      have live2: "live h2 = live h" by (rule ids_live) (simp add: same)
      have td2: "set td2 = insert i (set td)" "distinct td \<Longrightarrow> distinct td2" by (auto simp: td2_def)
      have d2: "set (dirty h1) \<subseteq> set (dirty h2)" using eff(2) .
      have "propagated td h td' g'"
        unfolding propagated_def
      proof (intro conjI allI impI)
        show "kinv g'" "dirty g' = []" "rest g' = rest h" "task_ids g' = task_ids h" "logs g' = logs h"
          using P same by (auto simp: propagated_def)
        have "set td2 \<union> set (dirty h2) \<subseteq> set td'" "set td' \<subseteq> set td2 \<union> live h2"
          using P by (simp_all add: propagated_def)
        then show "set td \<union> set (dirty h) \<subseteq> set td'" "set td' \<subseteq> set td \<union> live h"
          using q(2-4) d2 td2(1) live2 by auto
        show "distinct td \<Longrightarrow> distinct td'" using P td2(2) by (simp add: propagated_def)
        show "map_option plain (vw g' j) = map_option plain (vw h j)" for j
          using P eff(1)[of j] by (simp add: propagated_def same)
        fix j
        assume j: "j \<notin> set td'"
        then have "vw g' j = vw h2 j" "j \<notin> set (dirty h2)" "j \<noteq> i" using P td2(1) by (auto simp: propagated_def)
        then show "vw g' j = vw h j" using eff(3)[of j] same(1) by simp
      qed
      then show ?thesis using run eq by simp
    qed
  qed
  then show ?thesis using start by (simp add: E_def)
qed

section \<open>The oracles\<close>

text \<open>
  A task is demanded when a pin or a demanded task requires it, it is not vetoed and the kernel
  is not quitting; it can run when it is demanded and every dep can run and is satisfied.
\<close>

inductive demanded :: "graph \<Rightarrow> nat \<Rightarrow> bool" for g where
  pin: "init_task_id \<in> set (requirers_of g i) \<Longrightarrow> task_at g i = Some h \<Longrightarrow> \<not> h_vetoed h \<Longrightarrow> \<not> quitting g \<Longrightarrow> demanded g i"
| dep: "demanded g p \<Longrightarrow> p \<in> set (requirers_of g i) \<Longrightarrow> task_at g i = Some h \<Longrightarrow> \<not> h_vetoed h \<Longrightarrow> demanded g i"

inductive can_run :: "graph \<Rightarrow> nat \<Rightarrow> bool" for g where
  "demanded g i \<Longrightarrow> (\<And>d. d \<in> set (deps_of g i) \<Longrightarrow> can_run g d) \<Longrightarrow>
     (\<And>d. d \<in> set (deps_of g i) \<Longrightarrow> \<exists>h. task_at g d = Some h \<and> is_satisfied h) \<Longrightarrow> can_run g i"

inductive_simps can_run_iff: "can_run g i"

lemma demanded_iff:
  "demanded g i \<longleftrightarrow> (\<exists>h. task_at g i = Some h \<and> \<not> h_vetoed h \<and>
     (init_task_id \<in> set (requirers_of g i) \<and> \<not> quitting g \<or> (\<exists>p \<in> set (requirers_of g i). demanded g p)))"
  by (subst demanded.simps) blast

lemma demanded_not_quitting: "demanded g i \<Longrightarrow> \<not> quitting g"
  by (induction rule: demanded.induct)

lemma counted_wanted:
  assumes "counts_ok g" "vw g i = Some v"
  shows "h_wanted_parents v > 0 \<longleftrightarrow> (\<exists>p \<in> set (requirers_of g i). parent_wanted g p)"
proof -
  have "h_wanted_parents v = int (length (filter (parent_wanted g) (requirers_of g i)))"
    using assms by (simp add: counts_ok_def)
  then show ?thesis by (auto simp: filter_empty_conv)
qed

lemma wanted_demanded:
  assumes inv: "kinv g" and clean: "dirty g = []" and at: "task_at g i = Some h"
  shows "h_wanted h \<longleftrightarrow> demanded g i"
proof -
  note ok = kinvD[OF inv]
  have wf: "wf ((edge_set g))"
    using finite_acyclic_wf[OF finite_edge_set[OF ok(1)] graph_okD(11)[OF ok(1)]] .
  show ?thesis using at
  proof (induction i arbitrary: h rule: wf_induct_rule[OF wf])
    case (1 i)
    have v: "vw g i = Some (hview h)" using 1(2) by (rule vwI)
    have "h_wanted h = compute_wanted g i" using ok(4)[unfolded caches_ok_def, rule_format, OF v] clean by simp
    also have "\<dots> = (\<not> quitting g \<and> \<not> h_vetoed h \<and> (\<exists>p \<in> set (requirers_of g i). parent_wanted g p))"
      using counted_wanted[OF ok(3) v] by (simp add: compute_wanted_vw v)
    also have "\<dots> = (\<not> quitting g \<and> \<not> h_vetoed h \<and> (\<exists>p \<in> set (requirers_of g i). p = init_task_id \<or> demanded g p))"
    proof -
      have "parent_wanted g p \<longleftrightarrow> p = init_task_id \<or> demanded g p" if "p \<in> set (requirers_of g i)" for p
      proof (cases "task_at g p")
        case None
        then show ?thesis using demanded_iff[of g p] by (auto simp: parent_wanted_def)
      next
        case (Some hp)
        have "(p, i) \<in> edge_set g" using that graph_okD(8)[OF ok(1)] by (simp add: edge_set_def)
        then show ?thesis using 1(1)[of p hp] Some by (simp add: parent_wanted_def)
      qed
      then show ?thesis by blast
    qed
    also have "\<dots> = demanded g i"
      unfolding demanded_iff[of g i] using 1(2) demanded_not_quitting by auto
    finally show ?case .
  qed
qed

lemma supported_can_run:
  assumes inv: "kinv g" and clean: "dirty g = []" and at: "task_at g i = Some h"
  shows "h_supported h \<longleftrightarrow> can_run g i"
proof -
  note ok = kinvD[OF inv]
  have wf: "wf ((edge_set g)\<inverse>)"
    using finite_acyclic_wf_converse[OF finite_edge_set[OF ok(1)] graph_okD(11)[OF ok(1)]] .
  show ?thesis using at
  proof (induction i arbitrary: h rule: wf_induct_rule[OF wf])
    case (1 i)
    have v: "vw g i = Some (hview h)" using 1(2) by (rule vwI)
    have "dep_holds g d \<longleftrightarrow> can_run g d \<and> (\<exists>x. task_at g d = Some x \<and> is_satisfied x)" if "d \<in> set (deps_of g i)" for d
    proof -
      have "(d, i) \<in> (edge_set g)\<inverse>" using that by (simp add: edge_set_def)
      then show ?thesis using 1(1)[of d] by (auto simp: dep_holds_def split: option.splits)
    qed
    then have deps: "list_all (dep_holds g) (deps_of g i) \<longleftrightarrow>
        (\<forall>d \<in> set (deps_of g i). can_run g d \<and> (\<exists>x. task_at g d = Some x \<and> is_satisfied x))"
      by (auto simp: list_all_iff)
    have "h_supported h = compute_supported g i" using ok(4)[unfolded caches_ok_def, rule_format, OF v] clean by simp
    also have "\<dots> = can_run g i"
      unfolding can_run_iff[of g i] compute_supported_def using 1(2) deps wanted_demanded[OF inv clean 1(2)] by auto
    finally show ?case .
  qed
qed

end
