(* ===== verification/Kernel_Settle.thy ===== *)
theory Kernel_Settle
  imports Kernel_Caches
begin

text \<open>
  Driving, reports and timers keep the graph good, and \<open>settle\<close> returns: no \<open>expect\<close> of
  \<open>start_task\<close>, \<open>stop_task\<close> or \<open>hard_kill\<close> is reached without its task, and what is left outside
  the queue is driven. The state diagram is the one the log \<open>transitions\<close> is checked against in
  \<open>src/src/kernel/kernel_prop.rs\<close>.
\<close>

section \<open>What a handle obeys\<close>

text \<open>The transitions there are; the flag is \<open>start_failed\<close> as the task leaves the state.\<close>

fun legal :: "task_state \<Rightarrow> task_state \<Rightarrow> bool \<Rightarrow> bool" where
  "legal Stopping Idle failed = (\<not> failed)"
| "legal Stopping (Backoff i) failed = (failed \<and> ei_ready_timeout i)"
| "legal Stopping (Exited i) failed = (failed \<and> ei_ready_timeout i)"
| "legal Idle Starting failed = (\<not> failed)"
| "legal Starting s failed = (\<not> failed \<and> s \<noteq> Idle \<and> s \<noteq> Starting)"
| "legal Running s failed = (\<not> failed \<and> s \<noteq> Idle \<and> s \<noteq> Starting \<and> s \<noteq> Running)"
| "legal Ready s failed = (\<not> failed \<and> s \<noteq> Idle \<and> s \<noteq> Starting \<and> s \<noteq> Running \<and> s \<noteq> Ready)"
| "legal (Backoff i) Idle failed = (\<not> failed)"
| "legal (Done i) Idle failed = (\<not> failed)"
| "legal (Exited i) Idle failed = (\<not> failed)"
| "legal _ _ _ = False"

definition legal_log :: "graph \<Rightarrow> bool" where
  "legal_log g \<longleftrightarrow> (\<forall>(i, s, t, failed) \<in> set (transitions g). legal s t failed)"

text \<open>The states that have a timer.\<close>

definition has_timer :: "task_handle \<Rightarrow> bool" where
  "has_timer h =
     (case h_state h of
        Stopping \<Rightarrow> True
      | Backoff _ \<Rightarrow> True
      | Running \<Rightarrow> ready_timeout (h_ready h) \<noteq> None
      | _ \<Rightarrow> False)"

text \<open>An end state agrees with the kind of the task; the restart mode may have changed since.\<close>

definition filed :: "task_handle \<Rightarrow> bool" where
  "filed h =
     (case h_state h of
        Done i \<Rightarrow> h_kind h = Job \<and> exit_success i
      | Backoff i \<Rightarrow> \<not> (h_kind h = Job \<and> exit_success i)
      | Exited i \<Rightarrow> \<not> (h_kind h = Job \<and> exit_success i)
      | _ \<Rightarrow> True)"

definition lawful :: "task_handle \<Rightarrow> bool" where
  "lawful h \<longleftrightarrow> (h_deadline h \<noteq> None \<longleftrightarrow> has_timer h) \<and>
     (h_start_failed h \<longrightarrow> ready_timeout (h_ready h) \<noteq> None) \<and> filed h"

definition driven :: "task_handle \<Rightarrow> bool" where
  "driven h \<longleftrightarrow>
     (if h_supported h then h_state h \<noteq> Idle
      else (\<forall>i. h_state h \<noteq> Backoff i) \<and>
        (h_state h \<in> {Starting, Running, Ready} \<longrightarrow> h_active_dependents h > 0))"

definition driven_but :: "nat set \<Rightarrow> graph \<Rightarrow> bool" where
  "driven_but D g \<longleftrightarrow> (\<forall>i v. vw g i = Some v \<longrightarrow> i \<notin> set (dirty g) \<union> D \<longrightarrow> driven v)"

definition lawful_but :: "nat set \<Rightarrow> graph \<Rightarrow> bool" where
  "lawful_but T g \<longleftrightarrow> (\<forall>i v. vw g i = Some v \<longrightarrow> i \<notin> T \<longrightarrow> lawful v)"

definition good_but :: "nat set \<Rightarrow> nat set \<Rightarrow> graph \<Rightarrow> bool" where
  "good_but D T g \<longleftrightarrow> kinv g \<and> driven_but D g \<and> lawful_but T g \<and> legal_log g"

definition good :: "graph \<Rightarrow> bool" where
  "good g = good_but {} {} g"

lemma good_butD:
  assumes "good_but D T g"
  shows "kinv g" "driven_but D g" "lawful_but T g" "legal_log g"
  using assms by (simp_all add: good_but_def)

lemma good_but_mono: "good_but D T g \<Longrightarrow> D \<subseteq> D' \<Longrightarrow> T \<subseteq> T' \<Longrightarrow> good_but D' T' g"
  unfolding good_but_def driven_but_def lawful_but_def by blast

lemma filed_fields: "h_state w = h_state v \<Longrightarrow> h_kind w = h_kind v \<Longrightarrow> filed w = filed v"
  by (auto simp: filed_def split: task_state.splits)

lemma filed_exit: "h_kind v = h_kind h \<Longrightarrow> filed (enter_state (exit_state h i) v)"
  by (auto simp: filed_def exit_state_def Let_def)

lemma filed_up [simp]:
  "filed (enter_state Idle v)" "filed (enter_state Starting v)" "filed (enter_state Running v)"
  "filed (enter_state Ready v)" "filed (enter_state Stopping v)"
  by (simp_all add: filed_def)

lemma filed_writes [simp]:
  "filed (h\<lparr>h_start_failed := b\<rparr>) = filed h" "filed (h\<lparr>h_deadline := d\<rparr>) = filed h"
  "filed (h\<lparr>h_killed := b\<rparr>) = filed h" "filed (h\<lparr>h_epoch := e\<rparr>) = filed h"
  "filed (h\<lparr>h_attempts := n\<rparr>) = filed h" "filed (h\<lparr>h_stop_timed_out := b\<rparr>) = filed h"
  "filed (h\<lparr>h_vetoed := b\<rparr>) = filed h" "filed (h\<lparr>h_saved_pin := b\<rparr>) = filed h" "filed (hview h) = filed h"
  by (rule filed_fields; simp)+

lemma has_timer_fields: "h_state w = h_state v \<Longrightarrow> h_ready w = h_ready v \<Longrightarrow> has_timer w = has_timer v"
  by (auto simp: has_timer_def split: task_state.splits)

lemma lawful_plain: "plain v = plain w \<Longrightarrow> lawful v = lawful w"
proof -
  assume eq: "plain v = plain w"
  show ?thesis using plainD[OF eq] filed_fields[of v w] has_timer_fields[of v w] by (simp add: lawful_def)
qed

section \<open>Primitive operations\<close>

lemma good_same:
  assumes "good_but D T g" "vw g' = vw g" "rest g' = rest g" "dirty g' = dirty g" "in_queue g' = in_queue g"
    "task_ids g' = task_ids g" "transitions g' = transitions g"
  shows "good_but D T g'"
  using assms kinv_same_views[of g g'] by (simp add: good_but_def driven_but_def lawful_but_def legal_log_def)

lemma good_lawful: "good_but D (insert i T) g \<Longrightarrow> vw g i = Some v \<Longrightarrow> lawful v \<Longrightarrow> good_but D T g"
  unfolding good_but_def lawful_but_def by (metis insertE option.inject)

lemma good_driven: "good_but (insert i D) T g \<Longrightarrow> vw g i = Some v \<Longrightarrow> driven v \<Longrightarrow> good_but D T g"
  unfolding good_but_def driven_but_def by (metis UnE UnI1 UnI2 insertE option.inject)

lemma good_put:
  assumes "good_but D (insert i T) g" "vw g i = Some v" "vw g' = (vw g)(i := Some w)" "core_same v w" "handle_ok w"
    "h_state w = h_state v" "rest g' = rest g" "dirty g' = dirty g" "in_queue g' = in_queue g" "task_ids g' = task_ids g"
    "transitions g' = transitions g"
  shows "good_but D (insert i T) g'"
proof -
  have "kinv g'" using kinv_put[OF good_butD(1)[OF assms(1)] assms(2-5,7-10)] .
  moreover have "driven_but D g'"
    using good_butD(2)[OF assms(1)] assms(2,3,4,6,8) by (auto simp: driven_but_def core_same_def driven_def)
  ultimately show ?thesis
    using assms(1,3,11) by (auto simp: good_but_def lawful_but_def legal_log_def)
qed

lemma transitions_same [simp]:
  "transitions (upd_task i f g) = transitions g" "transitions (enqueue i g) = transitions g"
  "transitions (give_cmd i c g) = transitions g" "transitions (send_cmd i c g) = transitions g"
  "transitions (schedule_state_timeout i d g) = transitions g"
  by (auto simp: upd_task_def enqueue_def give_cmd_def send_cmd_def schedule_state_timeout_def queue_effects_def
      split: option.splits prod.splits)

lemma transitions_fold: "(\<And>x g. transitions (f x g) = transitions g) \<Longrightarrow> transitions (fold f xs g) = transitions g"
  by (induction xs arbitrary: g) simp_all

lemma transitions_same2 [simp]:
  "transitions (notify_subscribers i s p n g) = transitions g" "transitions (notify_changed i g) = transitions g"
  "transitions (enqueue_parents i g) = transitions g" "transitions (count_active b i g) = transitions g"
  by (auto simp: notify_subscribers_def deliver_def notify_changed_def enqueue_parents_def count_active_def
      transitions_fold split: option.splits)

lemma transitions_set_state:
  "task_at g i = Some h \<Longrightarrow> h_state h \<noteq> s \<Longrightarrow>
    transitions (set_state i s g) = transitions g @ [(i, h_state h, s, h_start_failed h)]"
  by (simp add: set_state_def Let_def transitions_fold)

lemma add_active_restart [simp]: "h_restart (add_active d h) = h_restart h" "h_deadline (add_active d h) = h_deadline h"
  by (simp_all add: add_active_def)

lemma good_send [simp]: "good_but D T g \<Longrightarrow> good_but D T (send_cmd i c g)"
  by (rule good_same[of D T g]) simp_all

lemma good_notify [simp]: "good_but D T g \<Longrightarrow> good_but D T (notify_subscribers i s p n g)"
  by (rule good_same[of D T g]) simp_all

lemma good_notify_changed [simp]: "good_but D T g \<Longrightarrow> good_but D T (notify_changed i g)"
  by (rule good_same[of D T g]) simp_all

lemma handle_ok_deadline [simp]: "handle_ok (h\<lparr>h_deadline := d\<rparr>) = handle_ok h"
  by (simp add: handle_ok_def)

lemma core_same_refl [simp]: "core_same v v"
  by (simp add: core_same_def)

lemma core_same_writes [simp]:
  "core_same v (v\<lparr>h_deadline := d\<rparr>)" "core_same v (v\<lparr>h_start_failed := b\<rparr>)" "core_same v (v\<lparr>h_stop_timed_out := b\<rparr>)"
  "core_same v (v\<lparr>h_attempts := n\<rparr>)" "core_same v (v\<lparr>h_killed := b\<rparr>)" "core_same v (v\<lparr>h_epoch := e\<rparr>)"
  "core_same v (v\<lparr>h_killed := b, h_epoch := e\<rparr>)"
  by (simp_all add: core_same_def satisfied_cases)

lemma kinv_handle_ok: "good_but D T g \<Longrightarrow> vw g i = Some v \<Longrightarrow> handle_ok v"
  unfolding good_but_def kinv_def handles_ok_def by blast

lemma good_schedule:
  assumes "good_but D (insert i T) g" "vw g i = Some v"
  shows "good_but D (insert i T) (schedule_state_timeout i d g)"
  by (rule good_put[OF assms, of _ "v\<lparr>h_deadline := Some (now g + d)\<rparr>"])
    (use assms kinv_handle_ok[OF assms] in auto)

lemma set_state_good:
  assumes inv: "good_but (insert i D) (insert i T) g" and v: "vw g i = Some v"
    and leg: "legal (h_state v) s (h_start_failed v)" and ne: "h_state v \<noteq> s"
  shows "good_but D (insert i T) (set_state i s g)" "vw (set_state i s g) i = Some (enter_state s v)"
proof -
  note ok = kinvD[OF good_butD(1)[OF inv]]
  obtain h where h: "task_at g i = Some h" "v = hview h" using v by (auto simp: vw_Some)
  then have ne': "h_state h \<noteq> s" using ne by simp
  note spec = set_state_spec[OF h(1) ne' ok(2) graph_okD(6)[OF ok(1)]]
  let ?g = "set_state i s g"
  have noself: "i \<notin> set (deps_of g i)" using graph_okD(12)[OF ok(1)] .
  have in_live: "i \<in> live g" "\<And>b. b \<in> set (deps_of g i) \<Longrightarrow> b \<in> live g"
    using v graph_okD(2)[OF ok(1)] graph_okD(9)[OF ok(1)] by (auto simp: live_dom)
  show vi: "vw ?g i = Some (enter_state s v)" unfolding spec(1) using noself h by (simp add: Let_def)
  have vw': "vw ?g j = vw g j" if "j \<notin> set (dirty ?g)" for j
  proof -
    have "j \<noteq> i" "is_active (h_state h) \<noteq> is_active s \<Longrightarrow> j \<notin> set (deps_of g i)"
      using that in_live unfolding spec(3) state_touched_def by auto
    then show ?thesis unfolding spec(1) by (auto simp: Let_def)
  qed
  have "driven_but D ?g"
    unfolding driven_but_def
  proof (intro allI impI)
    fix j u
    assume u: "vw ?g j = Some u" and out: "j \<notin> set (dirty ?g) \<union> D"
    then have "j \<notin> set (dirty g) \<union> insert i D" using in_live(1) unfolding spec(3) state_touched_def by auto
    then show "driven u" using good_butD(2)[OF inv] u vw'[of j] out by (auto simp: driven_but_def)
  qed
  moreover have "lawful_but (insert i T) ?g"
    unfolding lawful_but_def
  proof (intro allI impI)
    fix j u
    assume u: "vw ?g j = Some u" "j \<notin> insert i T"
    then obtain x where x: "vw g j = Some x" "u = x \<or> (\<exists>d. u = add_active d x)"
      unfolding spec(1) by (auto simp: Let_def split: if_splits)
    moreover have "lawful x" using good_butD(3)[OF inv] x(1) u(2) by (auto simp: lawful_but_def)
    moreover have "lawful (add_active d x) = lawful x" for d
      using filed_fields[of "add_active d x" x] has_timer_fields[of "add_active d x" x] by (simp add: lawful_def)
    ultimately show "lawful u" by auto
  qed
  moreover have "legal_log ?g"
    using good_butD(4)[OF inv] leg transitions_set_state[OF h(1) ne'] h(2) by (auto simp: legal_log_def)
  ultimately show "good_but D (insert i T) ?g"
    using kinv_set_state[OF good_butD(1)[OF inv]] by (simp add: good_but_def)
qed

text \<open>A change to a state without a timer.\<close>

lemma lawful_enter: "\<not> has_timer (enter_state s v) \<Longrightarrow> filed (enter_state s v) \<Longrightarrow> lawful (enter_state s v)"
  by (auto simp: lawful_def)

lemma set_state_plain:
  assumes "good_but (insert i D) (insert i T) g" "vw g i = Some v" "legal (h_state v) s (h_start_failed v)" "h_state v \<noteq> s"
    "\<not> has_timer (enter_state s v)" "filed (enter_state s v)"
  shows "good_but D T (set_state i s g)"
  using set_state_good[OF assms(1-4)] lawful_enter[OF assms(5,6)] good_lawful by blast

text \<open>A change to a state with a timer, which is set next.\<close>

lemma set_state_timed:
  assumes "good_but (insert i D) (insert i T) g" "vw g i = Some v" "legal (h_state v) s (h_start_failed v)" "h_state v \<noteq> s"
    "has_timer (enter_state s v)" "filed (enter_state s v)"
  shows "good_but D T (schedule_state_timeout i d (set_state i s g))"
proof -
  let ?g = "set_state i s g"
  let ?w = "(enter_state s v)\<lparr>h_deadline := Some (now ?g + d)\<rparr>"
  note set = set_state_good[OF assms(1-4)]
  have "good_but D (insert i T) (schedule_state_timeout i d ?g)" using good_schedule[OF set] .
  moreover have "vw (schedule_state_timeout i d ?g) i = Some ?w" using set(2) by simp
  moreover have "lawful ?w"
    using assms(5,6) filed_fields[of ?w "enter_state s v"] has_timer_fields[of ?w "enter_state s v"] by (auto simp: lawful_def)
  ultimately show ?thesis by (rule good_lawful)
qed


section \<open>Driving\<close>

lemma start_task_good:
  assumes inv: "good_but (insert i D) T g" and v: "vw g i = Some v" and idle: "h_state v = Idle"
  shows "\<exists>g'. start_task i g = Some g' \<and> good_but D T g' \<and> task_ids g' = task_ids g"
proof -
  obtain h where h: "task_at g i = Some h" "v = hview h" using v by (auto simp: vw_Some)
  define h1 where "h1 = h\<lparr>h_last_start := Some (now g)\<rparr>"
  obtain changed h2 where h2: "(case h_next h1 of None \<Rightarrow> (False, h1) | Some n \<Rightarrow> adopt n (h1\<lparr>h_next := None\<rparr>)) = (changed, h2)"
    by (cases "case h_next h1 of None \<Rightarrow> (False, h1) | Some n \<Rightarrow> adopt n (h1\<lparr>h_next := None\<rparr>)")
  define g1 where "g1 = g\<lparr>tasks := hm_put i h2 (tasks g)\<rparr>"
  define g2 where "g2 = (if changed then notify_changed i g1 else g1)"
  have flags: "\<not> h_killed h" "\<not> h_start_failed h" "h_state h = Idle"
    using kinv_handle_ok[OF inv v] idle h(2) by (auto simp: handle_ok_def)
  have same: "h_state h2 = Idle" "h_wanted h2 = h_wanted h" "h_supported h2 = h_supported h" "h_vetoed h2 = h_vetoed h"
    "h_wanted_parents h2 = h_wanted_parents h" "h_active_dependents h2 = h_active_dependents h"
    "\<not> h_killed h2" "\<not> h_start_failed h2"
    using h2 flags by (auto simp: h1_def adopt_def split: option.splits)
  have "core_same v (hview h2)" using same h idle by (simp add: core_same_def satisfied_cases)
  moreover have "handle_ok (hview h2)" using same by (simp add: handle_ok_def)
  moreover have "task_ids g1 = task_ids g" using h(1) by (simp add: g1_def ids_put)
  ultimately have "good_but (insert i D) (insert i T) g1"
    using v idle same(1) by (intro good_put[OF good_but_mono[OF inv], of "insert i D" i T v g1 "hview h2"])
      (auto simp: g1_def vw_put)
  then have inv2: "good_but (insert i D) (insert i T) g2" by (simp add: g2_def)
  have vi: "vw g2 i = Some (hview h2)" by (simp add: g2_def g1_def vw_put)
  have "good_but D T (set_state i Starting g2)"
    by (rule set_state_plain[OF inv2 vi]) (use same in \<open>simp_all add: has_timer_def\<close>)
  moreover have "start_task i g = Some (send_cmd i (CmdStart (map_option (\<lambda>s. \<lparr>run_spec = s, run_path = h_path h2\<rparr>) (h_spec h2)))
      (set_state i Starting g2))"
    using h(1) h2 by (simp add: start_task_def Let_def h1_def[symmetric] g1_def[symmetric] g2_def)
  ultimately show ?thesis using h(1) by (simp add: g2_def g1_def ids_put)
qed

text \<open>A stop from a state that is up; a failed start is only stopped from \<open>Running\<close>.\<close>

lemma stop_task_good:
  assumes inv: "good_but (insert i D) (insert i T) g" and v: "vw g i = Some v"
    and up: "h_state v \<in> {Starting, Running, Ready}" and failed: "failed \<longrightarrow> ready_timeout (h_ready v) \<noteq> None"
  shows "\<exists>g'. stop_task i failed g = Some g' \<and> good_but D T g' \<and> task_ids g' = task_ids g"
proof -
  have nf: "\<not> h_start_failed v" using kinv_handle_ok[OF inv v] up by (auto simp: handle_ok_def)
  have leg: "legal (h_state v) Stopping (h_start_failed v)" "h_state v \<noteq> Stopping" using up nf by auto
  define g1 where "g1 = set_state i Stopping g"
  note set = set_state_good[OF inv v leg, folded g1_def]
  obtain h where h: "task_at g1 i = Some h" "hview h = enter_state Stopping v" using set(2) by (auto simp: vw_Some)
  define g2 where "g2 = upd_task i (\<lambda>h. h\<lparr>h_start_failed := failed\<rparr>) g1"
  let ?w = "(enter_state Stopping v)\<lparr>h_start_failed := failed\<rparr>"
  let ?d = "h_stop_timeout h"
  have vw2: "vw g2 = (vw g1)(i := Some ?w)" unfolding g2_def by (simp add: vw_upd_task hview_def set(2))
  have "good_but D (insert i T) g2"
    by (rule good_put[OF set vw2]) (simp_all add: g2_def handle_ok_def)
  then have "good_but D (insert i T) (schedule_state_timeout i ?d g2)" using good_schedule[of D i T g2 ?w] vw2 by simp
  moreover have "vw (schedule_state_timeout i ?d g2) i = Some (?w\<lparr>h_deadline := Some (now g2 + ?d)\<rparr>)" using vw2 by simp
  moreover have "lawful (?w\<lparr>h_deadline := Some (now g2 + ?d)\<rparr>)" using failed by (simp add: lawful_def has_timer_def)
  ultimately have "good_but D T (schedule_state_timeout i ?d g2)" by (rule good_lawful)
  then show ?thesis using h by (simp add: stop_task_def g1_def[symmetric] g2_def Let_def) (simp add: g1_def)
qed

lemma drive_task_good:
  assumes inv: "good_but (insert i D) {} g" and live: "i \<in> live g"
  shows "\<exists>g'. drive_task i g = Some g' \<and> good_but D {} g' \<and> task_ids g' = task_ids g"
proof -
  obtain v where v: "vw g i = Some v" using live by (auto simp: live_vw)
  obtain h where h: "task_at g i = Some h" "v = hview h" using v by (auto simp: vw_Some)
  have stay: "\<exists>g'. Some g = Some g' \<and> good_but D {} g' \<and> task_ids g' = task_ids g" if "driven v"
    using good_driven[OF inv v that] by simp
  have inv': "good_but (insert i D) (insert i {}) g" using inv by (rule good_but_mono) auto
  have nf: "\<not> h_start_failed h \<or> h_state h = Stopping" using kinv_handle_ok[OF inv v] h by (auto simp: handle_ok_def)
  have stop: "\<exists>g'. stop_task i False g = Some g' \<and> good_but D {} g' \<and> task_ids g' = task_ids g"
    if "h_state h \<in> {Starting, Running, Ready}"
    using stop_task_good[OF inv' v, of False] that h by simp
  have retry: "\<exists>g'. Some (set_state i Idle g) = Some g' \<and> good_but D {} g' \<and> task_ids g' = task_ids g"
    if "h_state h = Backoff x" for x
    using set_state_plain[OF inv' v, of Idle] nf that h by (simp add: has_timer_def)
  show ?thesis
  proof (cases "h_supported h")
    case True
    then show ?thesis
      using start_task_good[OF inv v] stay h by (cases "h_state h") (simp_all add: drive_task_def driven_def)
  next
    case False
    then show ?thesis
      using stop retry stay h by (cases "h_state h") (auto simp: drive_task_def driven_def has_active_dependent_def)
  qed
qed

lemma drive_all_good:
  "good_but (set ids) {} g \<Longrightarrow> set ids \<subseteq> live g \<Longrightarrow>
     \<exists>g'. fold_opt drive_task ids g = Some g' \<and> good g' \<and> task_ids g' = task_ids g"
proof (induction ids arbitrary: g)
  case Nil
  then show ?case by (simp add: good_def)
next
  case (Cons i js)
  then obtain g1 where g1: "drive_task i g = Some g1" "good_but (set js) {} g1" "task_ids g1 = task_ids g"
    using drive_task_good[of i "set js" g] by auto
  have "set js \<subseteq> live g1" using Cons.prems(2) ids_live[OF g1(3)] by simp
  then show ?case using Cons.IH[OF g1(2)] g1 by auto
qed

lemma reconcile_round_good:
  assumes "good g"
  shows "\<exists>g'. reconcile_round g = Some g' \<and> good g' \<and> task_ids g' = task_ids g"
proof -
  note ok = good_butD[OF assms[unfolded good_def]]
  obtain td g1 where run: "propagate [] g = Some (td, g1)" and P: "propagated [] g td g1"
    using propagate_ends[OF ok(1)] by blast
  have same: "map_option plain (vw g1 j) = map_option plain (vw g j)" for j using P by (simp add: propagated_def)
  have "driven_but (set td) g1"
    unfolding driven_but_def
  proof (intro allI impI)
    fix j u
    assume u: "vw g1 j = Some u" "j \<notin> set (dirty g1) \<union> set td"
    then have "vw g j = Some u" "j \<notin> set (dirty g)" using P by (auto simp: propagated_def)
    then show "driven u" using ok(2) by (auto simp: driven_but_def)
  qed
  moreover have "lawful_but {} g1"
    unfolding lawful_but_def
  proof (intro allI impI)
    fix j u
    assume u: "vw g1 j = Some u"
    then have "map_option plain (vw g j) = Some (plain u)" using same[of j] by simp
    then obtain x where x: "vw g j = Some x" "plain x = plain u" by auto
    then show "lawful u" using ok(3) lawful_plain[OF x(2)] by (auto simp: lawful_but_def)
  qed
  moreover have "legal_log g1" using ok(4) P by (simp add: propagated_def legal_log_def logs_def)
  ultimately have "good_but (set td) {} g1" using P by (simp add: good_but_def propagated_def)
  moreover have "set td \<subseteq> live g1" "task_ids g1 = task_ids g"
    using P ids_live[of g1 g] by (auto simp: propagated_def)
  ultimately show ?thesis using drive_all_good[of td g1] run by (auto simp: reconcile_round_def)
qed

section \<open>Reports and timers\<close>

lemma goodI: "good_but {} {} g \<Longrightarrow> good g"
  by (simp add: good_def)

lemma goodD: "good g \<Longrightarrow> good_but {} {} g"
  by (simp add: good_def)

lemma good_kinv: "good g \<Longrightarrow> kinv g"
  by (simp add: good_def good_but_def)

lemma good_lawful_at: "good g \<Longrightarrow> vw g i = Some v \<Longrightarrow> lawful v"
  unfolding good_def good_but_def lawful_but_def by blast

lemma lawful_failed: "lawful v \<Longrightarrow> h_start_failed v \<Longrightarrow> ready_timeout (h_ready v) \<noteq> None"
  by (simp add: lawful_def)

lemma land_exit_good:
  assumes inv: "good_but {} {i} g" and v: "vw g i = Some v"
    and leg: "if h_state v = Stopping then h_start_failed v \<and> ei_ready_timeout info else h_state v \<in> {Starting, Running, Ready}"
  shows "good (land_exit i info g)"
proof -
  obtain h where h: "task_at g i = Some h" "v = hview h" using v by (auto simp: vw_Some)
  let ?s = "exit_state h info"
  have nf: "h_state v \<noteq> Stopping \<Longrightarrow> \<not> h_start_failed v" using kinv_handle_ok[OF inv v] by (auto simp: handle_ok_def)
  have ne: "h_state v \<noteq> ?s"
    using leg exit_state_simps[of h info] by (cases ?s) (auto split: if_splits)
  have notdone: "?s \<noteq> Done x" if "ei_ready_timeout info" for x
    using that by (auto simp: exit_state_def exit_success_def Let_def)
  have carries: "filed (enter_state ?s v)" using h(2) by (simp add: filed_exit)
  have carried: "?s = Backoff x \<or> ?s = Exited x \<Longrightarrow> x = info" for x by (auto simp: exit_state_def Let_def split: if_splits)
  have ok: "legal (h_state v) ?s (h_start_failed v)"
  proof (cases "h_state v = Stopping")
    case True
    then show ?thesis using leg notdone carried exit_state_simps[of h info] by (cases ?s) auto
  next
    case False
    then show ?thesis using leg nf exit_state_simps[of h info] by auto
  qed
  show ?thesis
  proof (cases "\<exists>x. ?s = Backoff x")
    case False
    have "good_but {} {} (set_state i ?s g)"
      by (rule set_state_plain[OF good_but_mono[OF inv] v ok ne _ carries])
        (use False exit_state_simps[of h info] in \<open>auto simp: has_timer_def split: task_state.splits\<close>)
    moreover have "land_exit i info g = set_state i ?s g"
      using False h(1) by (auto simp: land_exit_def Let_def split: task_state.splits)
    ultimately show ?thesis by (simp add: good_def)
  next
    case True
    then obtain x where x: "?s = Backoff x" by blast
    let ?n = "h_attempts h + 1"
    define g1 where "g1 = upd_task i (\<lambda>h. h\<lparr>h_attempts := ?n\<rparr>) g"
    have vw1: "vw g1 = (vw g)(i := Some (v\<lparr>h_attempts := ?n\<rparr>))" unfolding g1_def by (simp add: vw_upd_task hview_def v)
    have inv1: "good_but {} (insert i {}) g1"
      by (rule good_put[of _ _ _ g v _ "v\<lparr>h_attempts := ?n\<rparr>"])
        (use inv v vw1 kinv_handle_ok[OF inv v] in \<open>auto simp: g1_def handle_ok_def\<close>)
    have v1: "vw g1 i = Some (v\<lparr>h_attempts := ?n\<rparr>)" using vw1 by simp
    have "good_but {} {} (schedule_state_timeout i (backoff_delay ?n) (set_state i ?s g1))"
      by (rule set_state_timed[OF good_but_mono[OF inv1] v1])
        (use ok ne carries x in \<open>auto simp: has_timer_def filed_def\<close>)
    moreover have "land_exit i info g = schedule_state_timeout i (backoff_delay ?n) (set_state i ?s g1)"
      using x h(1) by (simp add: land_exit_def Let_def g1_def)
    ultimately show ?thesis by (simp add: good_def)
  qed
qed

lemma land_stop_good:
  assumes inv: "good_but {} {i} g" and v: "vw g i = Some v" and st: "h_state v = Stopping"
  shows "good (land_stop i info g)"
proof -
  obtain h where h: "task_at g i = Some h" "v = hview h" using v by (auto simp: vw_Some)
  show ?thesis
  proof (cases "h_start_failed h")
    case True
    have "good (land_exit i (info\<lparr>ei_ready_timeout := True\<rparr>) g)"
      by (rule land_exit_good[OF inv v]) (use True st h in simp)
    then show ?thesis using True h by (simp add: land_stop_def)
  next
    case False
    have "good_but {} {} (set_state i Idle g)"
      by (rule set_state_plain[OF good_but_mono[OF inv] v]) (use False st h in \<open>auto simp: has_timer_def\<close>)
    then show ?thesis using False h by (simp add: land_stop_def good_def)
  qed
qed

lemma on_task_started_good:
  assumes "good g"
  shows "good (on_task_started i g)"
proof (cases "\<exists>h. task_at g i = Some h \<and> h_state h = Starting")
  case False
  then have "on_task_started i g = g" by (auto simp: on_task_started_def split: option.splits task_state.splits)
  then show ?thesis using assms by simp
next
  case True
  then obtain h where h: "task_at g i = Some h" "h_state h = Starting" by blast
  have v: "vw g i = Some (hview h)" using h(1) by (rule vwI)
  have nf: "\<not> h_start_failed (hview h)"
    using kinv_handle_ok[OF goodD[OF assms] v] h(2) by (auto simp: handle_ok_def)
  have leg: "legal (h_state (hview h)) (started_state h) (h_start_failed (hview h))" "h_state (hview h) \<noteq> started_state h"
    using h(2) nf started_state_cases[of h] by auto
  have inv: "good_but (insert i {}) (insert i {}) g" using goodD[OF assms] by (rule good_but_mono) auto
  consider (timed) t where "started_state h = Running" "ready_timeout (h_ready h) = Some t"
    | (plain) "started_state h = Ready \<or> ready_timeout (h_ready h) = None"
    using started_state_cases[of h] by fastforce
  then show ?thesis
  proof cases
    case timed
    have "good_but {} {} (schedule_state_timeout i t (set_state i Running g))"
      by (rule set_state_timed[OF inv v]) (use leg timed in \<open>auto simp: has_timer_def\<close>)
    then show ?thesis using timed h by (simp add: on_task_started_def Let_def good_def)
  next
    case plain
    have "good_but {} {} (set_state i (started_state h) g)"
      by (rule set_state_plain[OF inv v leg])
        (use plain started_state_cases[of h] in \<open>auto simp: has_timer_def\<close>)
    moreover have "on_task_started i g = set_state i (started_state h) g"
      using plain h started_state_cases[of h] by (auto simp: on_task_started_def Let_def)
    ultimately show ?thesis by (simp add: good_def)
  qed
qed

lemma on_task_ready_good:
  assumes "good g"
  shows "good (on_task_ready i g)"
proof (cases "\<exists>h. task_at g i = Some h \<and> h_state h = Running")
  case False
  then have "on_task_ready i g = g" by (auto simp: on_task_ready_def split: option.splits task_state.splits)
  then show ?thesis using assms by simp
next
  case True
  then obtain h where h: "task_at g i = Some h" "h_state h = Running" by blast
  have v: "vw g i = Some (hview h)" using h(1) by (rule vwI)
  have nf: "\<not> h_start_failed (hview h)"
    using kinv_handle_ok[OF goodD[OF assms] v] h(2) by (auto simp: handle_ok_def)
  have "good_but {} {} (set_state i Ready g)"
    by (rule set_state_plain[OF good_but_mono[OF goodD[OF assms]] v]) (use h nf in \<open>auto simp: has_timer_def\<close>)
  then show ?thesis using h by (simp add: on_task_ready_def good_def)
qed

lemma good_free: "good g \<Longrightarrow> good_but {} {i} g"
  using good_but_mono[OF goodD] by blast

lemma on_task_stopped_good:
  assumes "good g"
  shows "good (on_task_stopped i info g)"
proof (cases "task_at g i")
  case None
  then show ?thesis using assms by (simp add: on_task_stopped_def)
next
  case (Some h)
  have v: "vw g i = Some (hview h)" using Some by (rule vwI)
  define g1 where "g1 = (if stayed_up g h then upd_task i (\<lambda>h. h\<lparr>h_attempts := 0\<rparr>) g else g)"
  have exits: "good (land_exit i info g1)" if "h_state h \<in> {Starting, Running, Ready}"
  proof (cases "stayed_up g h")
    case True
    let ?w = "(hview h)\<lparr>h_attempts := 0\<rparr>"
    have vw1: "vw g1 = (vw g)(i := Some ?w)" using True 
      by (simp add: g1_def) (subst vw_upd_task; simp add: v hview_def)
    have inv1: "good_but {} (insert i {}) g1"
      by (rule good_put[of _ _ _ g "hview h" _ ?w])
        (use good_free[OF assms] v vw1 kinv_handle_ok[OF goodD[OF assms] v] True in \<open>auto simp: g1_def handle_ok_def\<close>)
    show ?thesis by (rule land_exit_good[of _ _ ?w]) (use inv1 vw1 that in auto)
  next
    case False
    show ?thesis by (rule land_exit_good[of _ _ "hview h"]) (use good_free[OF assms] v that False in \<open>auto simp: g1_def\<close>)
  qed
  have stops: "good (land_stop i info g)" if "h_state h = Stopping"
    by (rule land_stop_good[OF good_free[OF assms] v]) (use that in simp)
  show ?thesis using Some exits stops assms
    by (cases "h_state h") (simp_all add: on_task_stopped_def Let_def g1_def[symmetric])
qed

lemma apply_effect_good: "good g \<Longrightarrow> good (apply_effect i e g)"
  by (cases e) (simp_all add: on_task_started_good on_task_ready_good on_task_stopped_good)

lemma settle_steps_good: "good g \<Longrightarrow> \<exists>g'. settle_steps n g = Some g' \<and> good g'"
proof (induction n arbitrary: g)
  case 0
  then show ?case by simp
next
  case (Suc n)
  show ?case
  proof (cases "pending_effects g")
    case Nil
    then show ?thesis using Suc reconcile_round_good[OF Suc.prems] by fastforce
  next
    case (Cons p fx)
    have "good (g\<lparr>pending_effects := fx\<rparr>)"
      using Suc.prems good_same[of "{}" "{}" g "g\<lparr>pending_effects := fx\<rparr>"] by (simp add: good_def)
    then show ?thesis using Suc.IH apply_effect_good Cons by (cases p) simp
  qed
qed

lemma settle_good: "good g \<Longrightarrow> \<exists>g'. settle g = Some g' \<and> good g'"
  unfolding settle_def by (rule settle_steps_good)

lemma hard_kill_good:
  assumes inv: "good_but {} {i} g" and v: "vw g i = Some v" and st: "h_state v = Stopping"
    and failed: "h_start_failed v \<longrightarrow> ready_timeout (h_ready v) \<noteq> None"
  shows "\<exists>g'. hard_kill i g = Some g' \<and> good g'"
proof -
  obtain h where h: "task_at g i = Some h" "v = hview h" using v by (auto simp: vw_Some)
  define g1 where "g1 = upd_task i (\<lambda>h. h\<lparr>h_killed := True, h_epoch := h_epoch h + 1\<rparr>) g"
  let ?w = "v\<lparr>h_killed := True, h_epoch := h_epoch v + 1\<rparr>"
  let ?g2 = "send_cmd i CmdKill g1"
  have vw1: "vw g1 = (vw g)(i := Some ?w)" unfolding g1_def by (simp add: vw_upd_task hview_def v)
  have "good_but {} (insert i {}) g1"
    by (rule good_put[of _ _ _ g v _ ?w])
      (use inv v vw1 st kinv_handle_ok[OF inv v] in \<open>auto simp: g1_def handle_ok_def\<close>)
  then have inv2: "good_but {} (insert i {}) ?g2" by simp
  have v2: "vw ?g2 i = Some ?w" using vw1 by simp
  have "good_but {} (insert i {}) (schedule_state_timeout i kill_wait ?g2)" using good_schedule[OF inv2 v2] .
  moreover have "vw (schedule_state_timeout i kill_wait ?g2) i = Some (?w\<lparr>h_deadline := Some (now ?g2 + kill_wait)\<rparr>)"
    using v2 by simp
  moreover have "lawful (?w\<lparr>h_deadline := Some (now ?g2 + kill_wait)\<rparr>)" using st failed by (simp add: lawful_def has_timer_def filed_def)
  ultimately have "good_but {} {} (schedule_state_timeout i kill_wait ?g2)" by (rule good_lawful)
  then show ?thesis using h by (simp add: hard_kill_def g1_def good_def)
qed

lemma on_state_timeout_good:
  assumes "good g"
  shows "\<exists>g'. on_state_timeout i epoch g = Some g' \<and> good g'"
proof (cases "\<exists>h. task_at g i = Some h \<and> h_epoch h = epoch")
  case False
  then show ?thesis using assms by (cases "task_at g i") (auto simp: on_state_timeout_def)
next
  case True
  then obtain h where h: "task_at g i = Some h" "h_epoch h = epoch" by blast
  have v: "vw g i = Some (hview h)" using h(1) by (rule vwI)
  let ?w = "(hview h)\<lparr>h_deadline := None\<rparr>"
  define g1 where "g1 = (upd_task i (\<lambda>h. h\<lparr>h_deadline := None\<rparr>) g)\<lparr>timer_changes := timer_changes g @ [i]\<rparr>"
  have vw1: "vw g1 = (vw g)(i := Some ?w)" unfolding g1_def by (simp add: vw_upd_task hview_def v)
  note law = good_lawful_at[OF assms v]
  have inv: "good_but {} (insert i {}) g1"
    by (rule good_put[of _ _ _ g "hview h" _ ?w])
      (use good_free[OF assms] v vw1 kinv_handle_ok[OF goodD[OF assms] v] in \<open>auto simp: g1_def\<close>)
  have v1: "vw g1 i = Some ?w" using vw1 by simp
  have nf: "h_start_failed h \<Longrightarrow> h_state h = Stopping"
    using kinv_handle_ok[OF goodD[OF assms] v] by (auto simp: handle_ok_def)
  have keep: "good g1" if "\<not> has_timer h"
  proof -
    have "lawful ?w" using law that has_timer_fields[of ?w h]
      by (auto simp: lawful_def has_timer_fields[of "hview h" h])
    then show ?thesis using good_lawful[of "{}" i "{}" g1] inv v1 by (simp add: good_def)
  qed
  have mono: "good_but (insert i {}) (insert i {}) g1" using inv by (rule good_but_mono) auto
  show ?thesis
  proof (cases "h_state h")
    case (Backoff x)
    have "good_but {} {} (set_state i Idle g1)"
      by (rule set_state_plain[OF mono v1]) (use Backoff nf in \<open>auto simp: has_timer_def\<close>)
    then show ?thesis using h Backoff by (simp add: on_state_timeout_def Let_def g1_def good_def)
  next
    case Stopping
    show ?thesis
    proof (cases "h_killed h")
      case False
      have "\<exists>g'. hard_kill i g1 = Some g' \<and> good g'"
        by (rule hard_kill_good[OF inv v1]) (use Stopping lawful_failed[OF law] in auto)
      then show ?thesis using h Stopping False by (simp add: on_state_timeout_def Let_def g1_def)
    next
      case True
      define g2 where "g2 = land_stop i exit_error g1"
      have g2: "good g2" unfolding g2_def by (rule land_stop_good[OF _ v1]) (use inv Stopping in auto)
      let ?g3 = "(upd_task i (\<lambda>h. h\<lparr>h_stop_timed_out := True\<rparr>) g2)\<lparr>state_changed := True\<rparr>"
      have "good ?g3" if at_idle: "map_option h_state (task_at g2 i) = Some Idle"
      proof -
        obtain k where k: "task_at g2 i = Some k" "h_state k = Idle" using at_idle by (cases "task_at g2 i") auto
        have vk: "vw g2 i = Some (hview k)" using k(1) by (rule vwI)
        let ?x = "(hview k)\<lparr>h_stop_timed_out := True\<rparr>"
        have vw3: "vw ?g3 = (vw g2)(i := Some ?x)" by (simp add: vw_upd_task hview_def vk)
        have "good_but {} (insert i {}) ?g3"
          by (rule good_put[of _ _ _ g2 "hview k" _ ?x])
            (use good_free[OF g2] vk vw3 k kinv_handle_ok[OF goodD[OF g2] vk] in \<open>auto simp: handle_ok_def\<close>)
        moreover have "vw ?g3 i = Some ?x" using vw3 by simp
        moreover have "lawful ?x" using good_lawful_at[OF g2 vk] k(2) by (auto simp: lawful_def has_timer_def)
        ultimately show ?thesis using good_lawful[of "{}" i "{}" ?g3 ?x] by (simp add: good_def)
      qed
      then show ?thesis using h Stopping True g2 unfolding on_state_timeout_def
        by (simp add: Let_def g1_def[symmetric] g2_def[symmetric])
    qed
  next
    case Running
    show ?thesis
    proof (cases "ready_timeout (h_ready h)")
      case None
      then show ?thesis using keep h Running by (simp add: on_state_timeout_def Let_def g1_def has_timer_def)
    next
      case (Some t)
      have "\<exists>g'. stop_task i True g1 = Some g' \<and> good_but {} {} g' \<and> task_ids g' = task_ids g1"
        by (rule stop_task_good[OF mono v1]) (use Running Some in auto)
      then show ?thesis using h Running Some
        unfolding on_state_timeout_def fail_start_def by (auto simp: Let_def g1_def[symmetric] good_def)
    qed
  qed (use keep h in \<open>simp_all add: on_state_timeout_def Let_def g1_def has_timer_def\<close>)
qed

end
