(* ===== verification/Kernel_Intent.thy ===== *)
theory Kernel_Intent
  imports Kernel_Reconcile
begin

text \<open>
  Intent (\<open>src/src/kernel/kernel.rs\<close>): which tasks a selector names, who may change them, the
  closure of what a task needs, and the verbs: pins, vetoes, starts, stops and kills.
\<close>

section \<open>Who may change what\<close>

definition sender_space :: "graph \<Rightarrow> nat \<Rightarrow> task_space_id" where
  "sender_space g sender = (case task_at g sender of None \<Rightarrow> default_space | Some h \<Rightarrow> h_space h)"

definition can_register :: "graph \<Rightarrow> nat \<Rightarrow> task_space_id \<Rightarrow> bool" where
  "can_register g sender sp = (\<not> is_reserved sp \<or> sender_space g sender = sp)"

definition can_mutate_folder :: "graph \<Rightarrow> nat \<Rightarrow> nat \<Rightarrow> bool" where
  "can_mutate_folder g sender i =
     (case hm_get (folders g) i of
        None \<Rightarrow> False
      | Some f \<Rightarrow> \<not> is_reserved (fo_space f) \<or> sender_space g sender = fo_space f)"

definition can_mutate :: "graph \<Rightarrow> nat \<Rightarrow> nat \<Rightarrow> bool" where
  "can_mutate g sender i =
     (case task_at g i of
        None \<Rightarrow> False
      | Some h \<Rightarrow> \<not> is_reserved (h_space h) \<or> sender_space g sender = h_space h)"

section \<open>Selectors\<close>

definition tasks_with_tag :: "graph \<Rightarrow> space_selector \<Rightarrow> string \<Rightarrow> nat list" where
  "tasks_with_tag g sel tag =
     (case hm_get (tags g) tag of
        None \<Rightarrow> []
      | Some ids \<Rightarrow>
          filter (\<lambda>i. case sel of
              OneSpace sp \<Rightarrow> (case task_at g i of None \<Rightarrow> False | Some h \<Rightarrow> h_space h = sp)
            | AnySpace \<Rightarrow> True) ids)"

definition matching_ids :: "graph \<Rightarrow> task_selector \<Rightarrow> nat list" where
  "matching_ids g sel =
     (case sel of
        SelId i \<Rightarrow> if task_at g i \<noteq> None then [i] else []
      | SelGlob sp pattern \<Rightarrow> ns_glob (ns g) sp pattern
      | SelTag sp tag \<Rightarrow> tasks_with_tag g sp tag)"

definition mutable_matching_ids :: "graph \<Rightarrow> nat \<Rightarrow> task_selector \<Rightarrow> nat list" where
  "mutable_matching_ids g sender sel = filter (can_mutate g sender) (matching_ids g sel)"

definition up_set :: "graph \<Rightarrow> nat \<Rightarrow> task_selector \<Rightarrow> nat list" where
  "up_set g sender sel =
     (let ids = mutable_matching_ids g sender sel
      in ids @ sort (map fst (filter (\<lambda>(i, h). h_saved_pin h \<and> i \<notin> set ids \<and> can_mutate g sender i) (tasks g))))"

section \<open>What a task needs\<close>

text \<open>
  The work list of \<open>closure\<close> from the index on; what is in the list has been seen.
\<close>

definition edge_targets :: "graph \<Rightarrow> nat set" where
  "edge_targets g = set (concat (map snd (edges g)))"

lemma deps_of_targets: "set (deps_of g i) \<subseteq> edge_targets g"
proof (cases "hm_get (edges g) i")
  case None
  then show ?thesis by (simp add: deps_of_def)
next
  case (Some ds)
  then have "(i, ds) \<in> set (edges g)" by (rule map_of_SomeD)
  then show ?thesis using Some by (auto simp: edge_targets_def deps_of_def)
qed

lemma hs_extend_same: "set new \<subseteq> set out \<Longrightarrow> hs_extend new out = out"
  unfolding hs_extend_def by (induction new) (simp_all add: hs_ins_def)

function closure_loop :: "graph \<Rightarrow> nat \<Rightarrow> nat list \<Rightarrow> nat list" where
  "closure_loop g i c =
     (if i < length c then closure_loop g (Suc i) (hs_extend (deps_of g (c ! i)) c) else c)"
  by auto

termination
proof (relation "inv_image (less_than <*lex*> less_than) (\<lambda>(g, i, c). (card (edge_targets g - set c), length c - i))")
  fix g i c
  assume i: "i < length (c :: nat list)"
  let ?c = "hs_extend (deps_of g (c ! i)) c"
  have fin: "finite (edge_targets g)" by (simp add: edge_targets_def)
  show "((g, Suc i, ?c), (g, i, c)) \<in> inv_image (less_than <*lex*> less_than) (\<lambda>(g, i, c). (card (edge_targets g - set c), length c - i))"
  proof (cases "set (deps_of g (c ! i)) \<subseteq> set c")
    case True
    then have "?c = c" by (rule hs_extend_same)
    then show ?thesis using i by simp
  next
    case False
    then have "edge_targets g - set ?c \<subset> edge_targets g - set c"
      using deps_of_targets[of g "c ! i"] by auto
    then have "card (edge_targets g - set ?c) < card (edge_targets g - set c)"
      using fin by (simp add: psubset_card_mono)
    then show ?thesis by simp
  qed
qed (auto intro: wf_inv_image wf_lex_prod)

declare closure_loop.simps [simp del]

definition closure :: "graph \<Rightarrow> nat \<Rightarrow> nat list" where
  "closure g i = closure_loop g 0 [i]"

definition requires :: "graph \<Rightarrow> nat \<Rightarrow> nat \<Rightarrow> bool" where
  "requires g from to = (to \<in> set (closure g from))"

section \<open>Pins and demand\<close>

definition set_pin :: "nat \<Rightarrow> bool \<Rightarrow> graph \<Rightarrow> graph" where
  "set_pin i pinned g =
     (let g1 = upd_task i (\<lambda>h. h\<lparr>h_saved_pin := False\<rparr>) g
      in if pinned then add_edge init_task_id i g1 else remove_edge init_task_id i g1)"

definition demand_one :: "nat \<Rightarrow> bool \<Rightarrow> nat \<Rightarrow> graph \<Rightarrow> graph" where
  "demand_one target rerun_done i g =
     (case task_at g i of
        None \<Rightarrow> g
      | Some h \<Rightarrow>
          (let g1 = (if h_start_failed h
                     then (upd_task i (\<lambda>h. h\<lparr>h_start_failed := False\<rparr>) g)\<lparr>state_changed := True\<rparr> else g);
               g2 = set_vetoed i False g1;
               revive = (case h_state h of
                   Backoff _ \<Rightarrow> True
                 | Exited _ \<Rightarrow> True
                 | Done _ \<Rightarrow> rerun_done \<and> i = target
                 | _ \<Rightarrow> False)
           in if revive then set_state i Idle g2 else g2))"

definition demand :: "nat \<Rightarrow> bool \<Rightarrow> graph \<Rightarrow> graph" where
  "demand i rerun_done g = fold (demand_one i rerun_done) (closure g i) g"

section \<open>The verbs\<close>

definition stop_if_active :: "nat \<Rightarrow> graph \<Rightarrow> graph option" where
  "stop_if_active i g =
     (case task_at g i of
        None \<Rightarrow> Some g
      | Some h \<Rightarrow>
          (case h_state h of
             Starting \<Rightarrow> stop_task i False g
           | Running \<Rightarrow> stop_task i False g
           | Ready \<Rightarrow> stop_task i False g
           | _ \<Rightarrow> Some g))"

definition cmd_start :: "nat \<Rightarrow> graph \<Rightarrow> graph" where
  "cmd_start i g = demand i True (set_pin i True g)"

definition cmd_up :: "nat \<Rightarrow> graph \<Rightarrow> graph" where
  "cmd_up i g = demand i False (set_pin i True g)"

definition cmd_stop :: "nat \<Rightarrow> graph \<Rightarrow> graph option" where
  "cmd_stop i g = stop_if_active i (set_pin i False g)"

definition cmd_kill :: "nat \<Rightarrow> graph \<Rightarrow> graph option" where
  "cmd_kill i g =
     (let g1 = set_pin i False g
      in case task_at g1 i of
           None \<Rightarrow> Some g1
         | Some h \<Rightarrow>
             (case h_state h of
                Starting \<Rightarrow> hard_kill i (set_state i Stopping g1)
              | Running \<Rightarrow> hard_kill i (set_state i Stopping g1)
              | Ready \<Rightarrow> hard_kill i (set_state i Stopping g1)
              | Stopping \<Rightarrow> hard_kill i g1
              | _ \<Rightarrow> Some g1))"

definition cmd_veto :: "nat \<Rightarrow> graph \<Rightarrow> graph" where
  "cmd_veto i g = set_vetoed i True (set_pin i False g)"

definition cmd_restart :: "nat \<Rightarrow> graph \<Rightarrow> graph option" where
  "cmd_restart i g = stop_if_active i (cmd_start i g)"

fun act_one :: "verb \<Rightarrow> nat \<Rightarrow> graph \<Rightarrow> graph option" where
  "act_one Up i g = Some (cmd_up i g)"
| "act_one Start i g = Some (cmd_start i g)"
| "act_one Restart i g = cmd_restart i g"
| "act_one ForceRestart i g = map_option (cmd_start i) (cmd_kill i g)"
| "act_one Stop i g = cmd_stop i g"
| "act_one Kill i g = cmd_kill i g"
| "act_one Veto i g = Some (cmd_veto i g)"

definition act :: "verb \<Rightarrow> nat \<Rightarrow> task_selector \<Rightarrow> graph \<Rightarrow> (nat list \<times> graph) option" where
  "act verb sender sel g =
     (let ids = (if verb = Up then up_set g sender sel else mutable_matching_ids g sender sel)
      in map_option (Pair ids) (fold_opt (act_one verb) ids g))"

section \<open>Watches on what is active\<close>

text \<open>An id that is matched but has no task is a panic.\<close>

definition counts_active :: "task_state \<Rightarrow> bool" where
  "counts_active s = (is_active s \<or> (case s of Backoff _ \<Rightarrow> True | _ \<Rightarrow> False))"

fun any_active_of :: "graph \<Rightarrow> nat list \<Rightarrow> bool option" where
  "any_active_of g [] = Some False"
| "any_active_of g (i # ids) =
     (case task_at g i of
        None \<Rightarrow> None
      | Some h \<Rightarrow> if counts_active (h_state h) then Some True else any_active_of g ids)"

definition any_active :: "graph \<Rightarrow> task_selector \<Rightarrow> bool option" where
  "any_active g sel = any_active_of g (matching_ids g sel)"

definition watch_active :: "task_selector \<Rightarrow> nat \<Rightarrow> graph \<Rightarrow> graph option" where
  "watch_active sel sender g =
     map_option (\<lambda>a. g\<lparr>active_watches := active_watches g @ [\<lparr>aw_selector = sel, aw_sender = sender, aw_active = a\<rparr>]\<rparr>)
       (any_active g sel)"

fun check_watches :: "active_watch list \<Rightarrow> graph \<Rightarrow> (active_watch list \<times> graph) option" where
  "check_watches [] g = Some ([], g)"
| "check_watches (w # ws) g =
     do {
       active \<leftarrow> any_active g (aw_selector w);
       if active = aw_active w
       then map_option (\<lambda>(ws', g'). (w # ws', g')) (check_watches ws g)
       else if is_open g (aw_sender w)
       then map_option (\<lambda>(ws', g'). (w\<lparr>aw_active := active\<rparr> # ws', g'))
              (check_watches ws (send_reply (aw_sender w) (ActiveReply active) g))
       else check_watches ws g
     }"

definition check_active_watches :: "graph \<Rightarrow> graph option" where
  "check_active_watches g =
     map_option (\<lambda>(ws, g'). g'\<lparr>active_watches := ws\<rparr>) (check_watches (active_watches g) g)"

section \<open>Quitting\<close>

definition begin_quit :: "graph \<Rightarrow> bool \<times> graph" where
  "begin_quit g =
     (if quitting g then (True, g) else (False, fold enqueue (hm_keys (tasks g)) (g\<lparr>quitting := True\<rparr>)))"

end
