(* ===== verification/Kernel_Edges.thy ===== *)
theory Kernel_Edges
  imports Kernel_Settle Kernel_Intent
begin

text \<open>
  Edges, vetoes and pins keep the graph good: what each counts for is counted, no edge closes a
  cycle, and whoever's caches it may change is queued. And what \<open>closure\<close> computes: the tasks
  reached along the edges.
\<close>

section \<open>What the invariants read\<close>

definition core :: "graph \<Rightarrow> (nat \<Rightarrow> task_handle option) \<times> nat list \<times> nat list \<times> nat list \<times> bool \<times>
    (nat, nat list) hm \<times> (nat, nat list) hm \<times> (nat \<times> task_state \<times> task_state \<times> bool) list" where
  "core g = (vw g, dirty g, in_queue g, task_ids g, quitting g, edges g, redges g, transitions g)"

lemma core_fields:
  assumes "core g' = core g"
  shows "vw g' = vw g" "dirty g' = dirty g" "in_queue g' = in_queue g" "task_ids g' = task_ids g"
    "quitting g' = quitting g" "edges g' = edges g" "redges g' = redges g" "transitions g' = transitions g"
    "deps_of g' = deps_of g" "requirers_of g' = requirers_of g"
  using assms by (simp_all add: core_def fun_eq_iff deps_of_def requirers_of_def)

lemma good_core: "core g' = core g \<Longrightarrow> good_but D T g' = good_but D T g"
proof -
  assume eq: "core g' = core g"
  note f = core_fields[OF eq]
  have pw: "parent_wanted g' = parent_wanted g" "parent_active g' = parent_active g"
    unfolding fun_eq_iff parent_wanted_vw parent_active_vw f by simp_all
  have dh: "dep_holds g' = dep_holds g" unfolding fun_eq_iff dep_holds_vw f by simp
  have cw: "compute_wanted g' = compute_wanted g" "compute_supported g' = compute_supported g"
    unfolding fun_eq_iff compute_wanted_vw compute_supported_vw f dh by simp_all
  have "graph_ok g' = graph_ok g"
    using f(4) unfolding graph_ok_def edge_set_def f task_ids_def by simp
  moreover have "queue_ok g' = queue_ok g" by (rule queue_ok_same_vw) (simp_all add: f)
  moreover have "counts_ok g' = counts_ok g" unfolding counts_ok_def f pw ..
  moreover have "caches_ok g' = caches_ok g" unfolding caches_ok_def f cw ..
  moreover have "handles_ok g' = handles_ok g" unfolding handles_ok_def f ..
  ultimately show ?thesis
    by (simp add: good_but_def kinv_def driven_but_def lawful_but_def legal_log_def f)
qed

lemma core_updates [simp]:
  "core (g\<lparr>next_task_id := n\<rparr>) = core g" "core (g\<lparr>ns := nn\<rparr>) = core g" "core (g\<lparr>folders := fs\<rparr>) = core g"
  "core (g\<lparr>tags := ts\<rparr>) = core g" "core (g\<lparr>now := t\<rparr>) = core g" "core (g\<lparr>timer_changes := tc\<rparr>) = core g"
  "core (g\<lparr>pending_effects := pe\<rparr>) = core g" "core (g\<lparr>active_watches := aw\<rparr>) = core g"
  "core (g\<lparr>waits := w\<rparr>) = core g" "core (g\<lparr>state_changed := b\<rparr>) = core g" "core (g\<lparr>frozen := f\<rparr>) = core g"
  "core (g\<lparr>freezes := nf\<rparr>) = core g" "core (g\<lparr>sent := s\<rparr>) = core g" "core (g\<lparr>outbox := ob\<rparr>) = core g"
  "core (g\<lparr>closed := cl\<rparr>) = core g" "core (g\<lparr>frozen := f, freezes := nf\<rparr>) = core g"
  "core (g\<lparr>now := t, closed := cl\<rparr>) = core g" "core (g\<lparr>ns := nn, state_changed := b\<rparr>) = core g"
  by (simp_all add: core_def vw_def[abs_def] task_ids_def)

lemma core_fold: "(\<And>x g. core (f x g) = core g) \<Longrightarrow> core (fold f xs g) = core g"
  by (induction xs arbitrary: g) simp_all

lemma core_give_cmd [simp]: "core (give_cmd i c g) = core g"
  by (simp add: core_def)

lemma core_send_cmd [simp]: "core (send_cmd i c g) = core g"
  by (simp add: send_cmd_def)

lemma core_deliver [simp]: "core (deliver from n targets g) = core g"
  by (simp add: deliver_def core_fold)

lemma core_notify [simp]: "core (notify_subscribers i s p n g) = core g"
  by (simp add: notify_subscribers_def)

lemma core_notify_changed [simp]: "core (notify_changed i g) = core g"
  by (simp add: notify_changed_def split: option.splits)

lemma core_send_reply [simp]: "core (send_reply ch r g) = core g"
  by (simp add: send_reply_def)

lemma good_core_iff: "core g' = core g \<Longrightarrow> good g' = good g"
  unfolding good_def by (rule good_core)

lemma good_updates [simp]:
  "good_but D T (g\<lparr>next_task_id := n\<rparr>) = good_but D T g" "good_but D T (g\<lparr>ns := nn\<rparr>) = good_but D T g"
  "good_but D T (g\<lparr>folders := fs\<rparr>) = good_but D T g" "good_but D T (g\<lparr>tags := ts\<rparr>) = good_but D T g"
  "good_but D T (g\<lparr>timer_changes := tc\<rparr>) = good_but D T g" "good_but D T (g\<lparr>pending_effects := pe\<rparr>) = good_but D T g"
  "good_but D T (g\<lparr>active_watches := aw\<rparr>) = good_but D T g" "good_but D T (g\<lparr>waits := w\<rparr>) = good_but D T g"
  "good_but D T (g\<lparr>state_changed := b\<rparr>) = good_but D T g" "good_but D T (g\<lparr>frozen := f\<rparr>) = good_but D T g"
  "good_but D T (g\<lparr>freezes := nf\<rparr>) = good_but D T g" "good_but D T (g\<lparr>sent := sn\<rparr>) = good_but D T g"
  "good_but D T (g\<lparr>outbox := ob\<rparr>) = good_but D T g" "good_but D T (g\<lparr>now := t, closed := cl\<rparr>) = good_but D T g"
  "good_but D T (g\<lparr>frozen := f, freezes := nf\<rparr>) = good_but D T g"
  "good_but D T (g\<lparr>ns := nn, state_changed := b\<rparr>) = good_but D T g"
  by (rule good_core, simp)+

section \<open>Queueing more\<close>

lemma good_queue_more:
  assumes inv: "good_but D T g" and eq: "vw g' = vw g" "rest g' = rest g" "task_ids g' = task_ids g" "transitions g' = transitions g"
    and q: "queue_ok g'" "set (dirty g) \<subseteq> set (dirty g')"
  shows "good_but D T g'"
proof -
  note ok = kinvD[OF good_butD(1)[OF inv]]
  note f = rest_fields[OF eq(2)]
  have pw: "parent_wanted g' = parent_wanted g" "parent_active g' = parent_active g"
    unfolding fun_eq_iff parent_wanted_vw parent_active_vw eq(1) by simp_all
  have dh: "dep_holds g' = dep_holds g" unfolding fun_eq_iff dep_holds_vw eq(1) by simp
  have cw: "compute_wanted g' = compute_wanted g" "compute_supported g' = compute_supported g"
    unfolding fun_eq_iff compute_wanted_vw compute_supported_vw eq(1) f dh by simp_all
  have "caches_ok g'" using ok(4) q(2) unfolding caches_ok_def eq(1) cw by blast
  moreover have "counts_ok g'" using ok(3) unfolding counts_ok_def eq(1) pw f .
  moreover have "handles_ok g'" using ok(5) unfolding handles_ok_def eq(1) .
  moreover have "driven_but D g'" using good_butD(2)[OF inv] q(2) unfolding driven_but_def eq(1) by blast
  moreover have "lawful_but T g'" "legal_log g'"
    using good_butD(3,4)[OF inv] unfolding lawful_but_def legal_log_def eq(1,4) by blast+
  ultimately show ?thesis using graph_ok_ids[OF eq(2,3)] ok(1) q(1) by (simp add: good_but_def kinv_def)
qed

lemma good_queue: "good_but D T g \<Longrightarrow> queue_ok g"
  by (simp add: good_but_def kinv_def)

lemma good_graph: "good_but D T g \<Longrightarrow> graph_ok g"
  by (simp add: good_but_def kinv_def)

lemma good_enqueue [simp]: "good_but D T g \<Longrightarrow> good_but D T (enqueue i g)"
proof -
  assume inv: "good_but D T g"
  note q = enqueue_queue[OF good_queue[OF inv], of i]
  show ?thesis by (rule good_queue_more[OF inv]) (simp_all add: q)
qed

text \<open>A task in the queue need not be in the exceptions.\<close>

lemma good_queued: "good_but (insert i D) T g \<Longrightarrow> i \<in> set (dirty g) \<Longrightarrow> good_but D T g"
  unfolding good_but_def driven_but_def by (metis UnE UnI1 UnI2 insertE)

section \<open>Changes of one handle\<close>

text \<open>What no cache, count or timer reads.\<close>

lemma good_upd:
  assumes inv: "good_but D T g" and hv: "\<And>h. hview (f h) = f (hview h)"
    and f: "\<And>v. vw g i = Some v \<Longrightarrow> core_same v (f v) \<and> handle_ok (f v) \<and> h_state (f v) = h_state v \<and> (lawful v \<longrightarrow> lawful (f v))"
  shows "good_but D T (upd_task i f g)"
proof (cases "vw g i")
  case None
  then have "core (upd_task i f g) = core g" using hv by (simp add: core_def vw_upd_task fun_upd_idem)
  then show ?thesis using inv good_core by blast
next
  case (Some v)
  note fv = f[OF Some]
  have vw': "vw (upd_task i f g) = (vw g)(i := Some (f v))" using hv by (simp add: vw_upd_task Some)
  have "good_but D (insert i T) (upd_task i f g)"
    by (rule good_put[of D i T g v _ "f v"]) (use good_but_mono[OF inv, of D "insert i T"] Some vw' fv in auto)
  moreover have "lawful_but T (upd_task i f g)"
    using good_butD(3)[OF inv] fv Some unfolding lawful_but_def vw' by auto
  ultimately show ?thesis by (simp add: good_but_def)
qed

text \<open>A veto changes what the task is to be recomputed to, so the task is queued.\<close>

lemma vetoed_writes [simp]:
  "lawful (h\<lparr>h_vetoed := b\<rparr>) = lawful h" "handle_ok (h\<lparr>h_vetoed := b\<rparr>) = handle_ok h" "driven (h\<lparr>h_vetoed := b\<rparr>) = driven h"
  using has_timer_fields[of "h\<lparr>h_vetoed := b\<rparr>" h] by (simp_all add: lawful_def handle_ok_def driven_def)

lemma good_set_vetoed:
  assumes inv: "good_but D T g"
  shows "good_but D T (set_vetoed i b g)"
proof (cases "\<exists>h. task_at g i = Some h \<and> h_vetoed h \<noteq> b")
  case False
  then show ?thesis using inv by (auto simp: set_vetoed_def split: option.splits)
next
  case True
  then obtain h where h: "task_at g i = Some h" "h_vetoed h \<noteq> b" by blast
  note ok = kinvD[OF good_butD(1)[OF inv]]
  let ?g1 = "upd_task i (\<lambda>h. h\<lparr>h_vetoed := b\<rparr>) g"
  define g' where "g' = enqueue i ?g1"
  have eq: "set_vetoed i b g = g'" using h by (simp add: set_vetoed_def g'_def)
  have vi: "vw g i = Some (hview h)" using h(1) by (rule vwI)
  have vw': "vw g' = (vw g)(i := Some ((hview h)\<lparr>h_vetoed := b\<rparr>))" by (simp add: g'_def vw_upd_task hview_def vi)
  have f: "rest g' = rest g" "task_ids g' = task_ids g" by (simp_all add: g'_def)
  note fld = rest_fields[OF f(1)]
  have live: "i \<in> live g" using vi graph_okD(2)[OF ok(1)] by (auto simp: live_dom)
  have q: "queue_ok g'" "set (dirty g') = insert i (set (dirty g))"
    using enqueue_queue[of ?g1 i] ok(2) live by (auto simp: g'_def)
  have pw: "parent_wanted g' = parent_wanted g" "parent_active g' = parent_active g"
    using vi by (auto simp: fun_eq_iff parent_wanted_vw parent_active_vw vw')
  have dh: "dep_holds g' = dep_holds g" using vi by (auto simp: fun_eq_iff dep_holds_vw vw' satisfied_cases)
  have cw: "compute_wanted g' j = compute_wanted g j" "compute_supported g' j = compute_supported g j" if "j \<noteq> i" for j
    unfolding compute_wanted_vw compute_supported_vw fld dh using that by (simp_all add: vw')
  have "caches_ok g'" using ok(4) cw q(2) unfolding caches_ok_def by (auto simp: vw')
  moreover have "counts_ok g'" using ok(3) ok(3)[unfolded counts_ok_def, rule_format, OF vi]
    unfolding counts_ok_def pw fld by (auto simp: vw')
  moreover have "handles_ok g'" using ok(5) vi unfolding handles_ok_def by (auto simp: vw')
  moreover have "driven_but D g'" using good_butD(2)[OF inv] q(2) unfolding driven_but_def by (auto simp: vw')
  moreover have "lawful_but T g'"
    using good_butD(3)[OF inv] vi unfolding lawful_but_def by (auto simp: vw')
  moreover have "legal_log g'" using good_butD(4)[OF inv] by (simp add: legal_log_def g'_def)
  moreover have "graph_ok g'" using graph_ok_ids[OF f] ok(1) by simp
  ultimately show ?thesis unfolding eq good_but_def kinv_def using q(1) by simp
qed

section \<open>Edges\<close>

lemma add_counts_sel [simp]:
  "h_state (add_counts d w a h) = h_state h" "h_kind (add_counts d w a h) = h_kind h"
  "h_wanted (add_counts d w a h) = h_wanted h" "h_supported (add_counts d w a h) = h_supported h"
  "h_vetoed (add_counts d w a h) = h_vetoed h" "is_satisfied (add_counts d w a h) = is_satisfied h"
  "h_wanted_parents (add_counts d w a h) = h_wanted_parents h + (if w then d else 0)"
  "h_active_dependents (add_counts d w a h) = h_active_dependents h + (if a then d else 0)"
  "handle_ok (add_counts d w a h) = handle_ok h"
  by (simp_all add: add_counts_def satisfied_cases handle_ok_def)

lemma lawful_add_counts [simp]: "lawful (add_counts d w a h) = lawful h"
  using has_timer_fields[of "add_counts d w a h" h] filed_fields[of "add_counts d w a h" h]
  by (simp add: lawful_def) (simp add: add_counts_def)

lemma hview_add_counts [simp]: "hview (add_counts d w a h) = add_counts d w a (hview h)"
  by (simp add: add_counts_def hview_def)

lemma edge_ends:
  "graph_ok g \<Longrightarrow> (x, y) \<in> edge_set g \<Longrightarrow> y \<in> dom (vw g) \<and> (x = init_task_id \<or> x \<in> dom (vw g))"
  using graph_okD(9,10)[of g y x] by (auto simp: edge_set_def)

text \<open>
  One edge comes or goes: its target is counted anew, both ends are queued, and nothing else is
  touched.
\<close>

lemma good_edge_change:
  assumes inv: "good_but D T g" and b: "vw g b = Some v"
    and eq: "vw g' = (vw g)(b := Some (add_counts d (parent_wanted g a) (parent_active g a) v))"
      "quitting g' = quitting g" "task_ids g' = task_ids g" "transitions g' = transitions g"
    and q: "queue_ok g'" "set (dirty g') = set (dirty g) \<union> ({a, b} \<inter> live g)"
    and ok': "graph_ok g'"
    and deps: "\<And>j. j \<noteq> a \<Longrightarrow> deps_of g' j = deps_of g j"
    and reqs: "\<And>j. j \<noteq> b \<Longrightarrow> requirers_of g' j = requirers_of g j"
    and count: "\<And>P. int (length (filter P (requirers_of g' b))) =
      int (length (filter P (requirers_of g b))) + (if P a then d else 0)"
  shows "good_but D T g'"
proof -
  note ok = kinvD[OF good_butD(1)[OF inv]]
  let ?v = "add_counts d (parent_wanted g a) (parent_active g a) v"
  have vw': "vw g' j = (if j = b then Some ?v else vw g j)" for j by (simp add: eq(1))
  have pw: "parent_wanted g' = parent_wanted g" "parent_active g' = parent_active g"
    using b by (auto simp: fun_eq_iff parent_wanted_vw parent_active_vw vw')
  have dh: "dep_holds g' = dep_holds g" using b by (auto simp: fun_eq_iff dep_holds_vw vw')
  have bl: "b \<in> live g" using b graph_okD(2)[OF ok(1)] by (auto simp: live_dom)
  have al: "a \<in> live g \<or> vw g a = None" using graph_okD(2)[OF ok(1)] by (cases "vw g a") (auto simp: live_dom)
  have other: "j \<noteq> b \<and> j \<noteq> a" if "vw g' j = Some u" "j \<notin> set (dirty g')" for j u
    using that bl al unfolding q(2) vw' by (auto split: if_splits)
  have "counts_ok g'"
    unfolding counts_ok_def
  proof (intro allI impI)
    fix j u
    assume u: "vw g' j = Some u"
    show "h_wanted_parents u = int (length (filter (parent_wanted g') (requirers_of g' j))) \<and>
        h_active_dependents u = int (length (filter (parent_active g') (requirers_of g' j)))"
      using ok(3) u b reqs[of j] count[of "parent_wanted g"] count[of "parent_active g"]
      unfolding counts_ok_def pw vw' by (auto split: if_splits)
  qed
  moreover have "caches_ok g'"
    unfolding caches_ok_def
  proof (intro allI impI)
    fix j u
    assume u: "vw g' j = Some u" and clean: "j \<notin> set (dirty g')"
    note o = other[OF u clean]
    then have x: "vw g j = Some u" "j \<notin> set (dirty g)" using u clean unfolding q(2) vw' by auto
    have "compute_wanted g' j = compute_wanted g j" "compute_supported g' j = compute_supported g j"
      using o x deps[of j] by (simp_all add: compute_wanted_vw compute_supported_vw vw' eq(2) dh)
    then show "h_wanted u = compute_wanted g' j \<and> h_supported u = compute_supported g' j"
      using ok(4) x by (auto simp: caches_ok_def)
  qed
  moreover have "handles_ok g'" using ok(5) b unfolding handles_ok_def vw' by auto
  moreover have "driven_but D g'"
    unfolding driven_but_def
  proof (intro allI impI)
    fix j u
    assume u: "vw g' j = Some u" and out: "j \<notin> set (dirty g') \<union> D"
    then show "driven u" using other[of j u] good_butD(2)[OF inv] unfolding driven_but_def q(2) vw' by auto
  qed
  moreover have "lawful_but T g'" using good_butD(3)[OF inv] b unfolding lawful_but_def vw' by auto
  moreover have "legal_log g'" using good_butD(4)[OF inv] by (simp add: legal_log_def eq(4))
  ultimately show ?thesis using ok' q(1) by (simp add: good_but_def kinv_def)
qed

lemma filter_add: "length (filter P (xs @ [a])) = length (filter P xs) + (if P a then 1 else 0)"
  by simp

lemma filter_removeAll: "distinct xs \<Longrightarrow> a \<in> set xs \<Longrightarrow>
  length (filter P xs) = length (filter P (removeAll a xs)) + (if P a then 1 else 0)"
proof (induction xs)
  case (Cons x xs)
  then show ?case by (cases "x = a") auto
qed simp

lemma deps_of_put: "deps_of (g\<lparr>edges := hm_put a ds e\<rparr>) j = (if j = a then ds else deps_of (g\<lparr>edges := e\<rparr>) j)"
  by (simp add: deps_of_def)

lemma add_edge_new:
  assumes "a \<noteq> b" "b \<noteq> init_task_id" "vw g b \<noteq> None" "a = init_task_id \<or> vw g a \<noteq> None" "b \<notin> set (deps_of g a)"
  shows "add_edge a b g = enqueue a (enqueue b (upd_task b (add_counts 1 (parent_wanted g a) (parent_active g a))
      (g\<lparr>edges := hm_put a (deps_of g a @ [b]) (edges g), redges := hm_put b (hs_ins a (requirers_of g b)) (redges g),
         state_changed := True\<rparr>)))"
  using assms by (auto simp: add_edge_def hs_ins_def vw_None)

lemma good_add_edge:
  assumes inv: "good_but D T g" and ac: "(b, a) \<notin> (edge_set g)\<^sup>*"
  shows "good_but D T (add_edge a b g)"
proof (cases "a = b \<or> b = init_task_id \<or> vw g b = None \<or> a \<noteq> init_task_id \<and> vw g a = None")
  case True
  then have "add_edge a b g = g" by (auto simp: add_edge_def vw_None)
  then show ?thesis using inv by simp
next
  case False
  note ok = kinvD[OF good_butD(1)[OF inv]]
  obtain v where v: "vw g b = Some v" using False by auto
  show ?thesis
  proof (cases "b \<in> set (deps_of g a)")
    case True
    then have "add_edge a b g = enqueue a (enqueue b g)" using False by (auto simp: add_edge_def vw_None)
    then show ?thesis using inv by simp
  next
    case new: False
    then have notin: "a \<notin> set (requirers_of g b)" using graph_okD(8)[OF ok(1)] by simp
    let ?g0 = "g\<lparr>edges := hm_put a (deps_of g a @ [b]) (edges g), redges := hm_put b (hs_ins a (requirers_of g b)) (redges g),
         state_changed := True\<rparr>"
    let ?g1 = "upd_task b (add_counts 1 (parent_wanted g a) (parent_active g a)) ?g0"
    define g' where "g' = enqueue a (enqueue b ?g1)"
    have eq: "add_edge a b g = g'" unfolding g'_def by (rule add_edge_new) (use False new in auto)
    have vw0: "vw ?g0 = vw g" by (simp add: fun_eq_iff vw_def)
    have vw1: "vw ?g1 = (vw g)(b := Some (add_counts 1 (parent_wanted g a) (parent_active g a) v))"
      using vw_upd_task[of "add_counts 1 (parent_wanted g a) (parent_active g a)" b ?g0] vw0 v by simp
    have vw2: "vw g' = (vw g)(b := Some (add_counts 1 (parent_wanted g a) (parent_active g a) v))" by (simp add: g'_def vw1)
    have l1: "live ?g1 = live g" by (simp add: live_dom vw0)
    have q0: "queue_ok ?g1" using ok(2) queue_ok_cong[of ?g0 g] vw0 by simp
    have q1: "queue_ok (enqueue b ?g1)" "set (dirty (enqueue b ?g1)) = set (dirty g) \<union> ({b} \<inter> live g)"
      using enqueue_queue[OF q0, of b] l1 by simp_all
    have q2: "queue_ok g'"
      "set (dirty g') = set (dirty g) \<union> ({a, b} \<inter> live g)"
      using enqueue_queue[OF q1(1), of a] q1(2) l1 by (auto simp: g'_def)
    have dp: "deps_of g' = (deps_of g)(a := deps_of g a @ [b])"
      by (simp add: g'_def fun_eq_iff deps_of_def)
    have rq: "requirers_of g' = (requirers_of g)(b := requirers_of g b @ [a])"
      using notin by (simp add: g'_def fun_eq_iff requirers_of_def hs_ins_def)
    have es: "edge_set g' = insert (a, b) (edge_set g)"
      by (auto simp: edge_set_def dp split: if_splits)
    have dom_same: "dom (vw g') = dom (vw g)" using v by (auto simp: vw2)
    have ids: "task_ids g' = task_ids g" by (simp add: g'_def)
    have "graph_ok g'"
      unfolding graph_ok_def
    proof (intro conjI allI)
      show "hm_ok (tasks g')" using graph_okD(1)[OF ok(1)] ids by (simp add: task_ids_def)
      show "init_task_id \<notin> dom (vw g')" using graph_okD(2)[OF ok(1)] v by (auto simp: vw2)
      show "hm_ok (edges g')" "hm_ok (redges g')"
        using graph_okD(4,5)[OF ok(1)] by (simp_all add: g'_def)
      show "distinct (deps_of g' j)" "distinct (requirers_of g' j)" for j
        using graph_okD(6,7)[OF ok(1)] new notin by (simp_all add: dp rq)
      show "y \<in> set (deps_of g' x) \<longleftrightarrow> x \<in> set (requirers_of g' y)" for x y
        using graph_okD(8)[OF ok(1), of y x] by (auto simp: dp rq)
      show "\<forall>(x, y) \<in> edge_set g'. y \<in> dom (vw g') \<and>
          (x = init_task_id \<or> x \<in> dom (vw g'))"
        unfolding es dom_same using edge_ends[OF ok(1)] v False by auto
      show "acyclic (edge_set g')"
        unfolding es using graph_okD(11)[OF ok(1)] ac by (simp add: acyclic_insert)
    qed
    then show ?thesis unfolding eq
      by (intro good_edge_change[where d = 1, OF inv v _ _ ids _ q2]) (simp_all add: vw2 dp rq filter_add g'_def[THEN arg_cong, of quitting] g'_def[THEN arg_cong, of transitions])
  qed
qed

lemma hm_get_del_member: "hm_get (del_member k x m) j =
  (if j = k then (case hm_get m k of None \<Rightarrow> None | Some xs \<Rightarrow> if hs_del x xs = [] then None else Some (hs_del x xs)) else hm_get m j)"
  by (auto simp: del_member_def Let_def split: option.splits)

lemma hm_ok_del_member: "hm_ok m \<Longrightarrow> hm_ok (del_member k x m)"
  by (auto simp: del_member_def Let_def split: option.splits)

lemma unwrap_del_member: "unwrap_or [] (hm_get (del_member k x m) j) =
  (if j = k then hs_del x (unwrap_or [] (hm_get m k)) else unwrap_or [] (hm_get m j))"
  by (auto simp: hm_get_del_member hs_del_def split: option.splits)

lemma del_member_absent: "x \<notin> set (unwrap_or [] (hm_get m k)) \<Longrightarrow> unwrap_or [] (hm_get (del_member k x m) j) = unwrap_or [] (hm_get m j)"
  by (simp add: unwrap_del_member hs_del_def)

lemma good_edges_same:
  assumes "good_but D T g" "vw g' = vw g" "dirty g' = dirty g" "in_queue g' = in_queue g" "task_ids g' = task_ids g"
    "quitting g' = quitting g" "deps_of g' = deps_of g" "requirers_of g' = requirers_of g" "hm_ok (edges g')" "hm_ok (redges g')"
    "transitions g' = transitions g"
  shows "good_but D T g'"
proof -
  have pw: "parent_wanted g' = parent_wanted g" "parent_active g' = parent_active g"
    unfolding fun_eq_iff parent_wanted_vw parent_active_vw assms by simp_all
  have dh: "dep_holds g' = dep_holds g" unfolding fun_eq_iff dep_holds_vw assms by simp
  have cw: "compute_wanted g' = compute_wanted g" "compute_supported g' = compute_supported g"
    unfolding fun_eq_iff compute_wanted_vw compute_supported_vw assms dh by simp_all
  have "graph_ok g' = graph_ok g"
    using assms(5,9,10) graph_okD(4,5)[OF good_graph[OF assms(1)]] unfolding graph_ok_def edge_set_def assms(2,7,8) task_ids_def by simp
  moreover have "queue_ok g' = queue_ok g" by (rule queue_ok_same_vw) (simp_all add: assms)
  ultimately show ?thesis
    using assms(1) unfolding good_but_def kinv_def driven_but_def lawful_but_def legal_log_def
      counts_ok_def caches_ok_def handles_ok_def cw pw assms(2-11) by simp
qed

lemma good_remove_edge:
  assumes inv: "good_but D T g"
  shows "good_but D T (remove_edge a b g)"
proof -
  note ok = kinvD[OF good_butD(1)[OF inv]]
  let ?g0 = "g\<lparr>edges := del_member a b (edges g)\<rparr>"
  show ?thesis
  proof (cases "b \<in> set (deps_of g a)")
    case False
    have "good_but D T ?g0"
    proof (rule good_edges_same[OF inv])
      show "deps_of ?g0 = deps_of g"
        using False by (simp add: fun_eq_iff deps_of_def del_member_absent)
    qed (use hm_ok_del_member graph_okD(4,5)[OF ok(1)] in \<open>simp_all add: task_ids_def\<close>)
    then show ?thesis using False by (simp add: remove_edge_def Let_def)
  next
    case True
    then have mem: "a \<in> set (requirers_of g b)" using graph_okD(8)[OF ok(1)] by simp
    obtain v where v: "vw g b = Some v" using graph_okD(9)[OF ok(1) True] by auto
    let ?g1 = "?g0\<lparr>redges := del_member b a (redges g), state_changed := True\<rparr>"
    let ?g2 = "upd_task b (add_counts (- 1) (parent_wanted g a) (parent_active g a)) ?g1"
    define g' where "g' = enqueue a (enqueue b ?g2)"
    have eq: "remove_edge a b g = g'" using True by (simp add: remove_edge_def Let_def g'_def)
    have vw1: "vw ?g1 = vw g" by (simp add: fun_eq_iff vw_def)
    have vw2: "vw ?g2 = (vw g)(b := Some (add_counts (- 1) (parent_wanted g a) (parent_active g a) v))"
      using vw_upd_task[of "add_counts (- 1) (parent_wanted g a) (parent_active g a)" b ?g1] vw1 v by simp
    have vw3: "vw g' = (vw g)(b := Some (add_counts (- 1) (parent_wanted g a) (parent_active g a) v))" by (simp add: g'_def vw2)
    have l2: "live ?g2 = live g" by (simp add: live_dom vw1)
    have q0: "queue_ok ?g2" using ok(2) queue_ok_cong[of ?g1 g] vw1 by simp
    have q1: "queue_ok (enqueue b ?g2)" "set (dirty (enqueue b ?g2)) = set (dirty g) \<union> ({b} \<inter> live g)"
      using enqueue_queue[OF q0, of b] l2 by simp_all
    have q2: "queue_ok g'" "set (dirty g') = set (dirty g) \<union> ({a, b} \<inter> live g)"
      using enqueue_queue[OF q1(1), of a] q1(2) l2 by (auto simp: g'_def)
    have dp: "deps_of g' = (deps_of g)(a := hs_del b (deps_of g a))"
      by (simp add: g'_def fun_eq_iff deps_of_def unwrap_del_member)
    have rq: "requirers_of g' = (requirers_of g)(b := hs_del a (requirers_of g b))"
      by (simp add: g'_def fun_eq_iff requirers_of_def unwrap_del_member)
    have es: "edge_set g' = edge_set g - {(a, b)}" by (auto simp: edge_set_def dp split: if_splits)
    have dom_same: "dom (vw g') = dom (vw g)" using v by (auto simp: vw3)
    have ids: "task_ids g' = task_ids g" by (simp add: g'_def)
    have "graph_ok g'"
      unfolding graph_ok_def
    proof (intro conjI allI)
      show "hm_ok (tasks g')" using graph_okD(1)[OF ok(1)] ids by (simp add: task_ids_def)
      show "init_task_id \<notin> dom (vw g')" using graph_okD(2)[OF ok(1)] v by (auto simp: vw3)
      show "hm_ok (edges g')" "hm_ok (redges g')" using graph_okD(4,5)[OF ok(1)] by (simp_all add: hm_ok_del_member g'_def)
      show "distinct (deps_of g' j)" "distinct (requirers_of g' j)" for j
        using graph_okD(6,7)[OF ok(1)] by (simp_all add: dp rq)
      show "y \<in> set (deps_of g' x) \<longleftrightarrow> x \<in> set (requirers_of g' y)" for x y
        using graph_okD(8)[OF ok(1), of y x] by (auto simp: dp rq)
      show "\<forall>(x, y) \<in> edge_set g'. y \<in> dom (vw g') \<and> (x = init_task_id \<or> x \<in> dom (vw g'))"
        unfolding es dom_same using edge_ends[OF ok(1)] v by auto
      show "acyclic (edge_set g')"
        unfolding es using graph_okD(11)[OF ok(1)] by (rule acyclic_subset) blast
    qed
    moreover have "int (length (filter P (hs_del a (requirers_of g b)))) =
        int (length (filter P (requirers_of g b))) + (if P a then - 1 else 0)" for P
      using filter_removeAll[OF graph_okD(7)[OF ok(1)] mem, of P] by (simp add: hs_del_def)
    ultimately show ?thesis unfolding eq
      by (intro good_edge_change[OF inv v _ _ ids _ q2]) (simp_all add: vw3 dp rq g'_def[THEN arg_cong, of quitting] g'_def[THEN arg_cong, of transitions])
  qed
qed

end
