(* ===== verification/Kernel_Verbs.thy ===== *)
theory Kernel_Verbs
  imports Kernel_Edges
begin

text \<open>
  The verbs of \<open>Kernel_Intent\<close>: each returns and keeps the graph good, whatever it is told and
  whoever asks. And \<open>closure\<close> lists exactly the tasks reached along the edges, each once.
\<close>

section \<open>The closure\<close>

lemma hs_extend_append: "\<exists>zs. hs_extend new out = out @ zs"
proof (induction new arbitrary: out)
  case Nil
  then show ?case by (simp add: hs_extend_def)
next
  case (Cons x new)
  obtain zs where "hs_extend new (hs_ins x out) = hs_ins x out @ zs" using Cons by blast
  then show ?case by (auto simp: hs_extend_def hs_ins_def split: if_splits)
qed

lemma closure_loop_reach:
  assumes "distinct c" "s \<in> set c" "set c \<subseteq> {j. (s, j) \<in> (edge_set g)\<^sup>*}"
    "\<forall>k < i. k < length c \<longrightarrow> set (deps_of g (c ! k)) \<subseteq> set c"
  shows "distinct (closure_loop g i c) \<and> set (closure_loop g i c) = {j. (s, j) \<in> (edge_set g)\<^sup>*}"
  using assms
proof (induction g i c rule: closure_loop.induct)
  case (1 g i c)
  show ?case
  proof (cases "i < length c")
    case True
    obtain zs where zs: "hs_extend (deps_of g (c ! i)) c = c @ zs" using hs_extend_append by blast
    have ext: "set (c @ zs) = set (deps_of g (c ! i)) \<union> set c" using set_hs_extend[of "deps_of g (c ! i)" c] zs by simp
    have "set (c @ zs) \<subseteq> {j. (s, j) \<in> (edge_set g)\<^sup>*}"
    proof
      fix j
      assume "j \<in> set (c @ zs)"
      then consider "j \<in> set c" | "(c ! i, j) \<in> edge_set g" using ext by (auto simp: edge_set_def)
      then show "j \<in> {j. (s, j) \<in> (edge_set g)\<^sup>*}"
      proof cases
        case 2
        have "(s, c ! i) \<in> (edge_set g)\<^sup>*" using "1.prems"(3) True by (auto dest: nth_mem)
        then show ?thesis using 2 by auto
      qed (use "1.prems"(3) in auto)
    qed
    moreover have "\<forall>k < Suc i. k < length (c @ zs) \<longrightarrow> set (deps_of g ((c @ zs) ! k)) \<subseteq> set (c @ zs)"
    proof (intro allI impI)
      fix k
      assume "k < Suc i" "k < length (c @ zs)"
      then consider "k < i" | "k = i" by linarith
      then show "set (deps_of g ((c @ zs) ! k)) \<subseteq> set (c @ zs)"
        using "1.prems"(4) True ext by cases (auto simp: nth_append)
    qed
    moreover have "distinct (c @ zs)" using distinct_hs_extend[OF "1.prems"(1), of "deps_of g (c ! i)"] zs by simp
    ultimately show ?thesis
      using "1.IH"[OF True] "1.prems"(2) True zs by (subst (1 2) closure_loop.simps) simp
  next
    case False
    have closed: "j \<in> set c \<Longrightarrow> (j, l) \<in> edge_set g \<Longrightarrow> l \<in> set c" for j l
    proof -
      assume j: "j \<in> set c" and e: "(j, l) \<in> edge_set g"
      obtain k where "k < length c" "j = c ! k" using j by (auto simp: in_set_conv_nth)
      then have "set (deps_of g j) \<subseteq> set c" using "1.prems"(4) False by simp
      then show ?thesis using e by (auto simp: edge_set_def)
    qed
    have "l \<in> set c" if "(s, l) \<in> (edge_set g)\<^sup>*" for l
      using that by (induction rule: rtrancl_induct) (use "1.prems"(2) closed in auto)
    then show ?thesis using "1.prems"(1,3) False by (subst (1 2) closure_loop.simps) auto
  qed
qed

lemma set_closure: "set (closure g i) = {j. (i, j) \<in> (edge_set g)\<^sup>*}"
  and distinct_closure: "distinct (closure g i)"
  using closure_loop_reach[of "[i]" i g 0] by (simp_all add: closure_def)

lemma requires_reach: "requires g a b \<longleftrightarrow> (a, b) \<in> (edge_set g)\<^sup>*"
  by (simp add: requires_def set_closure)

section \<open>Pins\<close>

lemma no_edge_into_init: "graph_ok g \<Longrightarrow> (a, init_task_id) \<in> (edge_set g)\<^sup>* \<Longrightarrow> a = init_task_id"
  using edge_ends[of g _ init_task_id] graph_okD(2)[of g] by (auto elim: rtranclE)

lemma good_pin:
  assumes "good_but D T g"
  shows "good_but D T (add_edge init_task_id i g)"
proof (cases "i = init_task_id")
  case True
  then show ?thesis using assms by (simp add: add_edge_def)
next
  case False
  then show ?thesis using no_edge_into_init[OF good_graph[OF assms], of i] by (intro good_add_edge[OF assms]) auto
qed

lemma saved_pin_writes [simp]:
  "lawful (h\<lparr>h_saved_pin := b\<rparr>) = lawful h" "handle_ok (h\<lparr>h_saved_pin := b\<rparr>) = handle_ok h"
  "core_same h (h\<lparr>h_saved_pin := b\<rparr>)" "hview (h\<lparr>h_saved_pin := b\<rparr>) = (hview h)\<lparr>h_saved_pin := b\<rparr>"
  using has_timer_fields[of "h\<lparr>h_saved_pin := b\<rparr>" h]
  by (simp_all add: lawful_def handle_ok_def core_same_def satisfied_cases hview_def)

lemma good_set_pin:
  assumes "good_but D T g"
  shows "good_but D T (set_pin i b g)"
proof -
  have "good_but D T (upd_task i (\<lambda>h. h\<lparr>h_saved_pin := False\<rparr>) g)"
    by (rule good_upd[OF assms]) (use kinv_handle_ok[OF assms] in auto)
  then show ?thesis by (simp add: set_pin_def Let_def good_pin good_remove_edge)
qed

lemma good_fold: "good_but D T g \<Longrightarrow> (\<And>x g. good_but D T g \<Longrightarrow> good_but D T (f x g)) \<Longrightarrow> good_but D T (fold f xs g)"
  by (induction xs arbitrary: g) auto

section \<open>Demand\<close>

lemma failed_writes [simp]: "hview (h\<lparr>h_start_failed := b\<rparr>) = (hview h)\<lparr>h_start_failed := b\<rparr>"
  by (simp add: hview_def)

lemma good_unfail:
  assumes "good g"
  shows "good (upd_task i (\<lambda>h. h\<lparr>h_start_failed := False\<rparr>) g)"
proof -
  have "lawful v \<Longrightarrow> lawful (v\<lparr>h_start_failed := False\<rparr>)" for v
    using has_timer_fields[of "v\<lparr>h_start_failed := False\<rparr>" v] by (simp add: lawful_def)
  then show ?thesis unfolding good_def
    by (intro good_upd[OF goodD[OF assms]]) (use kinv_handle_ok[OF goodD[OF assms]] in \<open>auto simp: handle_ok_def\<close>)
qed

lemma good_revive:
  assumes inv: "good g" and v: "vw g i = Some v" and st: "h_state v \<in> {Backoff x, Exited x, Done x}"
  shows "good (set_state i Idle g)"
proof -
  have "\<not> h_start_failed v" using kinv_handle_ok[OF goodD[OF inv] v] st by (auto simp: handle_ok_def)
  then show ?thesis
    unfolding good_def
    by (intro set_state_plain[OF good_but_mono[OF goodD[OF inv]] v]) (use st in \<open>auto simp: has_timer_def\<close>)
qed

lemma vw_state_changed [simp]: "vw (g\<lparr>state_changed := b\<rparr>) = vw g"
  by simp

lemma vw_set_vetoed: "vw (set_vetoed i b g) j = (if j = i then map_option (\<lambda>v. v\<lparr>h_vetoed := b\<rparr>) (vw g i) else vw g j)"
proof (cases "task_at g i")
  case None
  then have "vw g i = None" by (simp add: vw_None)
  then show ?thesis using None by (auto simp: set_vetoed_def)
next
  case (Some h)
  then have "vw g i = Some (hview h)" by (rule vwI)
  then show ?thesis using Some
    by (auto simp: set_vetoed_def vw_upd_task hview_def)
qed

lemma good_demand_one:
  assumes "good g"
  shows "good (demand_one t rerun i g)"
proof (cases "task_at g i")
  case None
  then show ?thesis using assms by (simp add: demand_one_def)
next
  case (Some h)
  define g1 where "g1 = (if h_start_failed h then (upd_task i (\<lambda>h. h\<lparr>h_start_failed := False\<rparr>) g)\<lparr>state_changed := True\<rparr> else g)"
  define g2 where "g2 = set_vetoed i False g1"
  have good1: "good g1" using assms good_unfail[OF assms, of i] good_core_iff[OF core_updates(10)] by (auto simp: g1_def)
  have good2: "good g2" unfolding g2_def good_def by (rule good_set_vetoed[OF goodD[OF good1]])
  have v: "vw g i = Some (hview h)" using Some by (rule vwI)
  obtain v1 where v1: "vw g1 i = Some v1" "h_state v1 = h_state h"
    using v by (cases "h_start_failed h") (auto simp: g1_def vw_upd_task)
  have v2: "vw g2 i = Some (v1\<lparr>h_vetoed := False\<rparr>)" by (simp add: g2_def vw_set_vetoed v1(1))
  have "demand_one t rerun i g = g2 \<or> demand_one t rerun i g = set_state i Idle g2 \<and> (\<exists>x. h_state h \<in> {Backoff x, Exited x, Done x})"
    using Some by (cases "h_state h") (auto simp: demand_one_def Let_def g1_def g2_def)
  then show ?thesis using good2 good_revive[OF good2 v2] v1(2) by auto
qed

lemma good_demand:
  assumes "good g"
  shows "good (demand i rerun g)"
proof -
  have "good (fold (demand_one i rerun) xs g)" if "good g" for xs and g :: graph
    using that by (induction xs arbitrary: g) (auto simp: good_demand_one)
  then show ?thesis using assms by (simp add: demand_def)
qed

section \<open>Each verb\<close>

lemma good_stop_if_active:
  assumes inv: "good g"
  shows "\<exists>g'. stop_if_active i g = Some g' \<and> good g'"
proof (cases "\<exists>h. task_at g i = Some h \<and> h_state h \<in> {Starting, Running, Ready}")
  case False
  then have "stop_if_active i g = Some g"
    by (cases "task_at g i") (auto simp: stop_if_active_def split: task_state.splits)
  then show ?thesis using inv by simp
next
  case True
  then obtain h where h: "task_at g i = Some h" "h_state h \<in> {Starting, Running, Ready}" by blast
  have "\<exists>g'. stop_task i False g = Some g' \<and> good_but {} {} g' \<and> task_ids g' = task_ids g"
    by (rule stop_task_good[OF good_but_mono[OF goodD[OF inv]] vwI[OF h(1)]]) (use h in auto)
  then show ?thesis using h by (auto simp: stop_if_active_def good_def)
qed

lemma good_cmd_start: "good g \<Longrightarrow> good (cmd_start i g)"
  unfolding cmd_start_def by (intro good_demand) (simp add: good_def good_set_pin)

lemma good_cmd_up: "good g \<Longrightarrow> good (cmd_up i g)"
  unfolding cmd_up_def by (intro good_demand) (simp add: good_def good_set_pin)

lemma good_cmd_stop: "good g \<Longrightarrow> \<exists>g'. cmd_stop i g = Some g' \<and> good g'"
  unfolding cmd_stop_def by (intro good_stop_if_active) (simp add: good_def good_set_pin)

lemma good_cmd_veto: "good g \<Longrightarrow> good (cmd_veto i g)"
  by (simp add: cmd_veto_def good_def good_set_pin good_set_vetoed)

lemma good_cmd_restart: "good g \<Longrightarrow> \<exists>g'. cmd_restart i g = Some g' \<and> good g'"
  unfolding cmd_restart_def by (intro good_stop_if_active good_cmd_start)

lemma good_cmd_kill:
  assumes "good g"
  shows "\<exists>g'. cmd_kill i g = Some g' \<and> good g'"
proof -
  define g1 where "g1 = set_pin i False g"
  have inv: "good g1" using assms by (simp add: g1_def good_def good_set_pin)
  show ?thesis
  proof (cases "task_at g1 i")
    case None
    then show ?thesis using inv by (simp add: cmd_kill_def g1_def)
  next
    case (Some h)
    have v: "vw g1 i = Some (hview h)" using Some by (rule vwI)
    have stopping: "\<exists>g'. hard_kill i g1 = Some g' \<and> good g'" if "h_state h = Stopping"
      by (rule hard_kill_good[OF good_free[OF inv] v]) (use that lawful_failed[OF good_lawful_at[OF inv v]] in auto)
    have up: "\<exists>g'. hard_kill i (set_state i Stopping g1) = Some g' \<and> good g'" if "h_state h \<in> {Starting, Running, Ready}"
    proof -
      have nf: "\<not> h_start_failed h" using kinv_handle_ok[OF goodD[OF inv] v] that by (auto simp: handle_ok_def)
      have "good_but {} (insert i {}) (set_state i Stopping g1)"
        "vw (set_state i Stopping g1) i = Some (enter_state Stopping (hview h))"
        by (rule set_state_good[OF good_but_mono[OF goodD[OF inv]] v]; use that nf in auto)+
      then show ?thesis by (intro hard_kill_good) auto
    qed
    show ?thesis using Some stopping up inv
      by (cases "h_state h") (auto simp: cmd_kill_def g1_def[symmetric] Let_def)
  qed
qed

lemma good_act_one: "good g \<Longrightarrow> \<exists>g'. act_one verb i g = Some g' \<and> good g'"
  using good_cmd_up good_cmd_start good_cmd_restart good_cmd_stop good_cmd_veto good_cmd_kill[of g i]
  by (cases verb) auto

lemma good_fold_opt:
  "good g \<Longrightarrow> (\<And>x g. good g \<Longrightarrow> \<exists>g'. f x g = Some g' \<and> good g') \<Longrightarrow> \<exists>g'. fold_opt f xs g = Some g' \<and> good g'"
proof (induction xs arbitrary: g)
  case (Cons x xs)
  obtain g1 where "f x g = Some g1" "good g1" using Cons.prems by blast
  then show ?case using Cons.IH[OF \<open>good g1\<close>] Cons.prems(2) by simp
qed simp

lemma good_act: "good g \<Longrightarrow> \<exists>ids g'. act verb sender sel g = Some (ids, g') \<and> good g'"
  using good_fold_opt[of g "act_one verb"] good_act_one by (fastforce simp: act_def Let_def)

lemma good_begin_quit: "good g \<Longrightarrow> good (snd (begin_quit g))"
proof (cases "quitting g")
  case True
  then show "good g \<Longrightarrow> good (snd (begin_quit g))" by (simp add: begin_quit_def)
next
  case False
  assume inv: "good g"
  note ok = kinvD[OF good_kinv[OF inv]]
  let ?g0 = "g\<lparr>quitting := True\<rparr>"
  define g' where "g' = fold enqueue (hm_keys (tasks g)) ?g0"
  have vw0: "vw ?g0 = vw g" by simp
  have q0: "queue_ok ?g0" using ok(2) queue_ok_cong[of ?g0 g] by simp
  have l0: "live ?g0 = live g" by (simp add: live_dom)
  have "set (hm_keys (tasks g)) = dom (vw g)" by (simp add: dom_vw_ids task_ids_def)
  then have q: "queue_ok g'" "set (dirty g') = set (dirty g) \<union> live g"
    using fold_enqueue_queue[OF q0, of "hm_keys (tasks g)"] l0 unfolding g'_def by (auto simp: live_dom)
  have vw': "vw g' = vw g" by (simp add: g'_def vw_fold)
  have r: "rest g' = rest ?g0" unfolding g'_def by (rule rest_fold) simp
  note f = rest_fields[OF r]
  have ids: "task_ids g' = task_ids g" 
    unfolding g'_def by (subst ids_fold) (simp, simp add: task_ids_def)
  have pw: "parent_wanted g' = parent_wanted g" "parent_active g' = parent_active g"
    unfolding fun_eq_iff parent_wanted_vw parent_active_vw vw' by simp_all
  have out: "j \<in> live g" if "vw g j = Some u" for j u
    using that graph_okD(2)[OF ok(1)] by (auto simp: live_dom)
  have dp: "deps_of g' = deps_of g" "requirers_of g' = requirers_of g"
    using f by (simp_all add: fun_eq_iff deps_of_def requirers_of_def)
  have "hm_keys (tasks g') = hm_keys (tasks g)" using ids by (simp add: task_ids_def)
  then have "graph_ok g'"
    using ok(1) unfolding graph_ok_def edge_set_cong[OF dp(1)] vw' dp by (simp add: f)
  moreover have "counts_ok g'" using ok(3) unfolding counts_ok_def vw' dp pw .
  moreover have "caches_ok g'" using out unfolding caches_ok_def vw' q(2) by blast
  moreover have "handles_ok g'" using ok(5) unfolding handles_ok_def vw' .
  moreover have "driven_but {} g'" using out unfolding driven_but_def vw' q(2) by blast
  moreover have "lawful_but {} g'" using good_butD(3)[OF goodD[OF inv]] unfolding lawful_but_def vw' .
  moreover have "transitions g' = transitions g" unfolding g'_def by (subst transitions_fold) simp_all
  then have "legal_log g'" using good_butD(4)[OF goodD[OF inv]] by (simp add: legal_log_def)
  ultimately show ?thesis using False q(1) by (simp add: begin_quit_def g'_def[symmetric] good_def good_but_def kinv_def)
qed

end
