(* ===== verification/Kernel_Register.thy ===== *)
theory Kernel_Register
  imports Kernel_Intent
begin

text \<open>
  What adds, changes and takes away the tasks and folders of the graph (\<open>src/src/kernel/kernel.rs\<close>):
  registrations one by one and in a batch, restored lifecycles, tags, labels and definitions,
  moves, copies, removals, and subscriptions with what they replay.
\<close>

section \<open>Tags\<close>

definition dynamic_tag :: string where
  "dynamic_tag = ''dynamic''"

definition index_tags :: "nat \<Rightarrow> string list \<Rightarrow> graph \<Rightarrow> graph" where
  "index_tags i ts g =
     fold (\<lambda>tag g. g\<lparr>tags := hm_put tag (hs_ins i (unwrap_or [] (hm_get (tags g) tag))) (tags g)\<rparr>) ts g"

definition unindex_tags :: "nat \<Rightarrow> string list \<Rightarrow> graph \<Rightarrow> graph" where
  "unindex_tags i ts g =
     fold (\<lambda>tag g.
        case hm_get (tags g) tag of
          None \<Rightarrow> g
        | Some ids \<Rightarrow>
            (let ids' = hs_del i ids
             in g\<lparr>tags := if ids' = [] then hm_del tag (tags g) else hm_put tag ids' (tags g)\<rparr>)) ts g"

definition set_tags :: "nat \<Rightarrow> string list \<Rightarrow> graph \<Rightarrow> graph" where
  "set_tags i ts g =
     (case task_at g i of
        None \<Rightarrow> g
      | Some h \<Rightarrow>
          (let new = filter (\<lambda>t. t \<noteq> dynamic_tag) ts @
                 (if handle_def_spec h \<noteq> None \<and> h_origin h = None then [dynamic_tag] else []);
               g1 = (upd_task i (\<lambda>h. h\<lparr>h_tags := new\<rparr>) g)\<lparr>state_changed := state_changed g \<or> h_tags h \<noteq> new\<rparr>
           in index_tags i new (unindex_tags i (h_tags h) g1)))"

section \<open>Registering\<close>

definition alloc_id :: "graph \<Rightarrow> nat \<times> graph" where
  "alloc_id g = (next_task_id g, g\<lparr>next_task_id := next_task_id g + 1\<rparr>)"

definition without_deps :: "task_spec \<Rightarrow> task_spec" where
  "without_deps s = spec_set_deps [] s"

fun resolve_deps_from :: "graph \<Rightarrow> task_selector list \<Rightarrow> nat list \<Rightarrow> register_error + nat list" where
  "resolve_deps_from g [] deps = Inr deps"
| "resolve_deps_from g (sel # sels) deps =
     (let ids = matching_ids g sel
      in if ids = [] then Inl (MissingDep sel) else resolve_deps_from g sels (hs_extend ids deps))"

definition resolve_deps :: "graph \<Rightarrow> task_selector list \<Rightarrow> register_error + nat list" where
  "resolve_deps g sels = resolve_deps_from g sels []"

definition conflict_error :: "graph \<Rightarrow> task_key \<Rightarrow> path_conflict \<Rightarrow> register_error" where
  "conflict_error g key c =
     (case c of
        Taken i \<Rightarrow> if hm_get (folders g) i \<noteq> None then FolderAt key else PathTaken key
      | Nested other \<Rightarrow> PathNested key (task_key_new (key_space key) other))"

definition new_handle :: "def_core \<Rightarrow> make_copy option \<Rightarrow> task_obj \<Rightarrow> task_handle" where
  "new_handle d mc t =
     \<lparr>h_task = t, h_state = Idle, h_epoch = 0, h_vetoed = False, h_killed = False, h_attempts = 0,
      h_last_start = None, h_deadline = None, h_wanted = False, h_supported = False, h_wanted_parents = 0,
      h_active_dependents = 0, h_start_failed = False, h_stop_timed_out = False, h_saved_pin = def_saved_pin d,
      h_kind = def_kind d, h_ready = def_ready d, h_stop_timeout = def_stop_timeout d,
      h_next = map_option (\<lambda>n. n\<lparr>nr_spec := map_option without_deps (nr_spec n)\<rparr>) (def_next d),
      h_restart = def_restart d, h_space = def_space d, h_path = def_path d, h_label = def_label d,
      h_vt = def_vt d, h_tags = [], h_spec = map_option without_deps (def_spec d), h_origin = def_origin d,
      h_make_copy = mc\<rparr>"

text \<open>The state a saved task comes back in, as it is configured now, and its other lifecycle.\<close>

definition kept_end :: "task_handle \<Rightarrow> task_state \<Rightarrow> exit_info \<Rightarrow> task_state" where
  "kept_end h s i =
     (if exit_state h i = s \<and> (\<not> ei_ready_timeout i \<or> ready_timeout (h_ready h) \<noteq> None) then s else Idle)"

definition restored_state :: "task_handle \<Rightarrow> task_state \<Rightarrow> task_state" where
  "restored_state h s =
     (case s of
        Running \<Rightarrow> started_state h
      | Ready \<Rightarrow> if h_kind h = Job then Running else Ready
      | Backoff i \<Rightarrow> kept_end h s i
      | Done i \<Rightarrow> kept_end h s i
      | Exited i \<Rightarrow> kept_end h s i
      | _ \<Rightarrow> s)"

definition restored :: "nat \<Rightarrow> snap_task \<Rightarrow> task_handle \<Rightarrow> task_handle" where
  "restored t saved h =
     (let s = restored_state h (st_state saved)
      in h\<lparr>h_state := s, h_vetoed := st_vetoed saved,
           h_stop_timed_out := st_stop_timed_out saved \<and> s = Idle,
           h_saved_pin := st_saved_pin saved, h_killed := st_killed saved,
           h_start_failed := st_start_failed saved \<and> s = Stopping \<and> ready_timeout (h_ready h) \<noteq> None,
           h_attempts := st_attempts saved,
           h_last_start := map_option (\<lambda>n. if secs n \<le> t then t - secs n else t) (st_last_start_secs_ago saved)\<rparr>)"

definition restored_timer :: "nat \<Rightarrow> snap_task option \<Rightarrow> task_handle \<Rightarrow> nat option" where
  "restored_timer t saved h =
     (case h_state h of
        Running \<Rightarrow>
          map_option (\<lambda>timeout. timeout - (case h_last_start h of None \<Rightarrow> 0 | Some start \<Rightarrow> t - start))
            (ready_timeout (h_ready h))
      | Stopping \<Rightarrow> Some (millis (unwrap_or 0 (Option.bind saved st_timer_ms)))
      | Backoff _ \<Rightarrow> Some (millis (unwrap_or 0 (Option.bind saved st_timer_ms)))
      | _ \<Rightarrow> None)"

text \<open>What follows once the registration is not refused.\<close>

definition install_task :: "nat \<Rightarrow> task_def \<Rightarrow> (nat \<Rightarrow> task_obj) \<Rightarrow> snap_task option \<Rightarrow> nat list \<Rightarrow> graph \<Rightarrow> graph" where
  "install_task i def factory saved deps g =
     (let d = def_of def;
          h0 = new_handle d (def_make_copy def) (factory i);
          h = (case saved of None \<Rightarrow> h0 | Some s \<Rightarrow> restored (now g) s h0);
          after = Option.bind (h_path h) (\<lambda>p. ns_before (ns g) (task_key_new (h_space h) p));
          g1 = g\<lparr>tasks := hm_put i h (tasks g), state_changed := True\<rparr>;
          g2 = (case restored_timer (now g) saved h of None \<Rightarrow> g1 | Some delay \<Rightarrow> schedule_state_timeout i delay g1);
          g3 = set_tags i (def_tags d) g2;
          g4 = fold (add_edge i) deps g3;
          g5 = (if def_pinned d then add_edge init_task_id i g4 else g4);
          g6 = enqueue i g5
      in notify_subscribers i (def_space d) (def_path d)
           (Added (def_path d) (def_label d) after (h_kind h) (h_state h) (def_vt d)) g6)"

definition register_task_with_id ::
  "nat \<Rightarrow> task_def \<Rightarrow> (nat \<Rightarrow> task_obj) \<Rightarrow> snap_task option \<Rightarrow> graph \<Rightarrow> (register_error option \<times> graph) option" where
  "register_task_with_id i def factory saved g =
     (if task_at g i \<noteq> None \<or> hm_get (folders g) i \<noteq> None then Some (Some IdTaken, g)
      else
        (case resolve_deps g (def_deps (def_of def)) of
           Inl e \<Rightarrow> Some (Some e, g)
         | Inr deps \<Rightarrow>
             (case def_path (def_of def) of
                None \<Rightarrow> Some (None, install_task i def factory saved deps g)
              | Some p \<Rightarrow>
                  (let key = task_key_new (def_space (def_of def)) p
                   in case ns_insert (ns g) key i (def_place (def_of def)) of
                        None \<Rightarrow> None
                      | Some (Some c, n) \<Rightarrow> Some (Some (conflict_error g key c), g\<lparr>ns := n\<rparr>)
                      | Some (None, n) \<Rightarrow> Some (None, install_task i def factory saved deps (g\<lparr>ns := n\<rparr>))))))"

section \<open>Folders\<close>

definition folder_added :: "graph \<Rightarrow> folder \<Rightarrow> task_notify" where
  "folder_added g f =
     FolderAdded (fo_path f) (ns_before (ns g) (task_key_new (fo_space f) (fo_path f))) (fs_collapsed (fo_settings f))"

definition added_at :: "graph \<Rightarrow> nat \<Rightarrow> task_space_id \<Rightarrow> task_path \<Rightarrow> task_notify option" where
  "added_at g i sp p =
     (case hm_get (folders g) i of
        Some f \<Rightarrow> Some (folder_added g f)
      | None \<Rightarrow>
          map_option (\<lambda>h. Added (Some p) (h_label h) (ns_before (ns g) (task_key_new sp p)) (h_kind h) (h_state h) (h_vt h))
            (task_at g i))"

definition register_folder :: "folder_def \<Rightarrow> graph \<Rightarrow> (register_error option \<times> graph) option" where
  "register_folder d g =
     (if task_at g (fd_id d) \<noteq> None \<or> hm_get (folders g) (fd_id d) \<noteq> None then Some (Some IdTaken, g)
      else
        (let key = task_key_new (fd_space d) (fd_path d)
         in case ns_insert_folder (ns g) key (fd_id d) (fd_place d) of
              None \<Rightarrow> None
            | Some (Some c, n) \<Rightarrow> Some (Some (conflict_error g key c), g\<lparr>ns := n\<rparr>)
            | Some (None, n) \<Rightarrow>
                (let f = \<lparr>fo_space = fd_space d, fo_path = fd_path d, fo_settings = fd_settings d\<rparr>;
                     g1 = g\<lparr>ns := n\<rparr>;
                     notify = folder_added g1 f
                 in Some (None, notify_subscribers (fd_id d) (fd_space d) (Some (fd_path d)) notify
                      (g1\<lparr>folders := hm_put (fd_id d) f (folders g1)\<rparr>)))))"

definition remove_folder :: "nat \<Rightarrow> graph \<Rightarrow> bool \<times> graph" where
  "remove_folder i g =
     (case hm_get (folders g) i of
        None \<Rightarrow> (False, g)
      | Some f \<Rightarrow>
          (True, notify_subscribers i (fo_space f) (Some (fo_path f)) Removed
            (g\<lparr>folders := hm_del i (folders g),
               ns := snd (ns_remove_folder (ns g) (task_key_new (fo_space f) (fo_path f)))\<rparr>)))"

definition set_folder :: "nat \<Rightarrow> folder_settings \<Rightarrow> graph \<Rightarrow> bool \<times> graph" where
  "set_folder i settings g =
     (hm_get (folders g) i \<noteq> None, g\<lparr>folders := hm_adj i (\<lambda>f. f\<lparr>fo_settings := settings\<rparr>) (folders g)\<rparr>)"

section \<open>Registering a batch\<close>

fun registration_key :: "registration \<Rightarrow> (task_key \<times> place) option" where
  "registration_key (RegTask r) =
     map_option (\<lambda>p. (task_key_new (def_space (def_of (reg_def r))) p, def_place (def_of (reg_def r))))
       (def_path (def_of (reg_def r)))"
| "registration_key (RegFolder d) = Some (task_key_new (fd_space d) (fd_path d), fd_place d)"

fun registration_deps :: "registration \<Rightarrow> task_selector list" where
  "registration_deps (RegTask r) = def_deps (def_of (reg_def r))"
| "registration_deps (RegFolder d) = []"

fun is_folder_registration :: "registration \<Rightarrow> bool" where
  "is_folder_registration (RegFolder _) = True"
| "is_folder_registration (RegTask _) = False"

text \<open>Where in the batch the task of an id is; the last one where an id is repeated.\<close>

definition batch_slots :: "registration list \<Rightarrow> (nat, nat) hm" where
  "batch_slots rs =
     fold (\<lambda>(i, r) m. case r of RegTask t \<Rightarrow> hm_put (reg_id t) i m | RegFolder _ \<Rightarrow> m) (enumerate 0 rs) []"

definition slots_needed :: "registration list \<Rightarrow> nat \<Rightarrow> nat list" where
  "slots_needed rs i =
     List.map_filter (\<lambda>s. case s of SelId dep \<Rightarrow> hm_get (batch_slots rs) dep | _ \<Rightarrow> None) (registration_deps (rs ! i))"

definition slot_dependents :: "registration list \<Rightarrow> nat \<Rightarrow> nat list" where
  "slot_dependents rs j =
     concat (map (\<lambda>i. replicate (count_list (slots_needed rs i) j) i) [0..<length rs])"

text \<open>A count below zero is a panic.\<close>

fun release :: "nat list \<Rightarrow> nat list \<Rightarrow> nat list \<Rightarrow> (nat list \<times> nat list) option" where
  "release [] missing ready = Some (missing, ready)"
| "release (d # ds) missing ready =
     (if missing ! d = 0 then None
      else
        (let n = missing ! d - 1
         in release ds (missing[d := n]) (if n = 0 then ready @ [d] else ready)))"

partial_function (option) order_loop ::
  "(nat \<Rightarrow> nat list) \<Rightarrow> nat list \<Rightarrow> nat list \<Rightarrow> nat list \<Rightarrow> (nat list \<times> nat list) option" where
  "order_loop dependents missing ready order =
     (case ready of
        [] \<Rightarrow> Some (order, missing)
      | i # rest \<Rightarrow>
          Option.bind (release (dependents i) missing rest)
            (\<lambda>(missing', ready'). order_loop dependents missing' ready' (order @ [i])))"

declare order_loop.simps [code]

definition batch_order :: "registration list \<Rightarrow> nat list option" where
  "batch_order rs =
     (let missing = map (\<lambda>i. length (slots_needed rs i)) [0..<length rs];
          slots = [0..<length rs];
          ready = filter (\<lambda>i. is_folder_registration (rs ! i)) slots @
            filter (\<lambda>i. missing ! i = 0) (filter (\<lambda>i. \<not> is_folder_registration (rs ! i)) slots)
      in map_option (\<lambda>(order, missing'). order @ filter (\<lambda>i. missing' ! i > 0) slots)
           (order_loop (slot_dependents rs) missing ready []))"

definition register_one :: "snap_task option \<Rightarrow> registration \<Rightarrow> graph \<Rightarrow> (register_error option \<times> graph) option" where
  "register_one saved r g =
     (case r of
        RegTask t \<Rightarrow> register_task_with_id (reg_id t) (reg_def t) (reg_factory t) saved g
      | RegFolder d \<Rightarrow> register_folder d g)"

text \<open>Each registration is taken out of the batch as it is made; taking one twice is a panic.\<close>

fun register_in_order ::
  "nat list \<Rightarrow> (snap_task option \<times> registration) option list \<Rightarrow> register_error option list \<Rightarrow> graph \<Rightarrow>
   (register_error option list \<times> graph) option" where
  "register_in_order [] batch results g = Some (results, g)"
| "register_in_order (i # order) batch results g =
     (case batch ! i of
        None \<Rightarrow> None
      | Some (saved, r) \<Rightarrow>
          Option.bind (register_one saved r g)
            (\<lambda>(e, g'). register_in_order order (batch[i := None]) (results[i := e]) g'))"

definition register_tasks ::
  "(snap_task option \<times> registration) list \<Rightarrow> graph \<Rightarrow> (register_error option list \<times> graph) option" where
  "register_tasks batch g =
     (let rs = map snd batch;
          places = map registration_key rs
      in do {
        n \<leftarrow> fold_opt (\<lambda>kp n. case kp of None \<Rightarrow> Some n | Some (key, plc) \<Rightarrow> ns_place n key plc) places (ns g);
        order \<leftarrow> batch_order rs;
        (results, g') \<leftarrow> register_in_order order (map Some batch) (map (\<lambda>_. None) batch) (g\<lparr>ns := n\<rparr>);
        Some (results, g'\<lparr>ns := fold (\<lambda>(kp, e) n.
            case (kp, e) of (Some (key, _), Some _) \<Rightarrow> ns_prune n key | _ \<Rightarrow> n) (zip places results) (ns g')\<rparr>)
      })"

section \<open>Removing\<close>

definition drop_requirer :: "nat \<Rightarrow> bool \<Rightarrow> bool \<Rightarrow> nat \<Rightarrow> graph \<Rightarrow> graph" where
  "drop_requirer i was_wanted was_active dep g =
     enqueue dep (upd_task dep (add_counts (- 1) was_wanted was_active)
       (g\<lparr>redges := hm_adj dep (hs_del i) (redges g)\<rparr>))"

definition drop_dep :: "nat \<Rightarrow> nat \<Rightarrow> graph \<Rightarrow> graph" where
  "drop_dep i from g = enqueue from (g\<lparr>edges := hm_adj from (hs_del i) (edges g)\<rparr>)"

text \<open>The task's own record and queue entry, path and tags; then its edges both ways.\<close>

definition forget_task :: "nat \<Rightarrow> task_handle \<Rightarrow> graph \<Rightarrow> graph" where
  "forget_task i h g =
     (let g1 = g\<lparr>tasks := hm_del i (tasks g), state_changed := True,
            timer_changes := timer_changes g @ (if h_deadline h = None then [] else [i])\<rparr>;
          g2 = (if i \<in> set (in_queue g1)
             then g1\<lparr>in_queue := hs_del i (in_queue g1), dirty := filter (\<lambda>d. d \<noteq> i) (dirty g1)\<rparr> else g1);
          g3 = (case h_path h of
               None \<Rightarrow> g2
             | Some p \<Rightarrow> g2\<lparr>ns := snd (ns_remove (ns g2) (task_key_new (h_space h) p))\<rparr>)
      in unindex_tags i (h_tags h) g3)"

definition cut_deps :: "nat \<Rightarrow> task_handle \<Rightarrow> graph \<Rightarrow> graph" where
  "cut_deps i h g =
     fold (drop_requirer i (h_wanted h) (is_active (h_state h))) (deps_of g i) (g\<lparr>edges := hm_del i (edges g)\<rparr>)"

definition cut_requirers :: "nat \<Rightarrow> graph \<Rightarrow> graph" where
  "cut_requirers i g = fold (drop_dep i) (requirers_of g i) (g\<lparr>redges := hm_del i (redges g)\<rparr>)"

definition remove_task :: "nat \<Rightarrow> graph \<Rightarrow> graph" where
  "remove_task i g =
     (case task_at g i of
        None \<Rightarrow> g
      | Some h \<Rightarrow>
          (let g1 = cut_requirers i (cut_deps i h (forget_task i h g))
           in notify_subscribers i (h_space h) (h_path h) Removed (g1\<lparr>ns := ns_remove_subscriber i (ns g1)\<rparr>)))"

text \<open>What \<open>Remove\<close> takes away, each once: the tasks, then the folders.\<close>

fun retain_new :: "(nat \<Rightarrow> bool) \<Rightarrow> nat list \<Rightarrow> nat list \<Rightarrow> nat list \<times> nat list" where
  "retain_new ok [] seen = ([], seen)"
| "retain_new ok (i # ids) seen =
     (if i \<in> set seen then retain_new ok ids seen
      else
        (let (kept, seen') = retain_new ok ids (i # seen)
         in (if ok i then i # kept else kept, seen')))"

definition removal :: "graph \<Rightarrow> nat \<Rightarrow> task_selector \<Rightarrow> nat list \<times> nat list" where
  "removal g sender sel =
     (let roots = (case sel of
            SelId i \<Rightarrow> (case hm_get (folders g) i of None \<Rightarrow> [] | Some f \<Rightarrow> [task_key_new (fo_space f) (fo_path f)])
          | SelGlob sp pattern \<Rightarrow> ns_glob_nodes (ns g) sp pattern
          | SelTag _ _ \<Rightarrow> []);
          nodes = map snd (concat (map (ns_nodes (ns g)) roots));
          is_folder = (\<lambda>i. hm_get (folders g) i \<noteq> None);
          (kept_tasks, seen) = retain_new (can_mutate g sender) (matching_ids g sel @ filter (\<lambda>i. \<not> is_folder i) nodes) [];
          (kept_folders, seen') = retain_new (can_mutate_folder g sender) (filter is_folder nodes) seen
      in (kept_tasks, kept_folders))"

section \<open>Changing a task\<close>

definition set_task_label :: "nat \<Rightarrow> string option \<Rightarrow> graph \<Rightarrow> graph" where
  "set_task_label i l g =
     (case task_at g i of
        None \<Rightarrow> g
      | Some h \<Rightarrow>
          if h_label h = l then g
          else
            notify_changed i
              ((upd_task i (\<lambda>h. h\<lparr>h_spec := map_option (spec_set_label l) (h_spec h),
                  h_next := map_option (\<lambda>n. n\<lparr>nr_spec := map_option (spec_set_label l) (nr_spec n)\<rparr>) (h_next h),
                  h_label := l\<rparr>) g)\<lparr>state_changed := True\<rparr>))"

definition resolve_new_deps :: "graph \<Rightarrow> nat \<Rightarrow> task_selector list \<Rightarrow> (register_error + nat list) option" where
  "resolve_new_deps g i sels =
     (case resolve_deps g sels of
        Inl e \<Rightarrow> Some (Inl e)
      | Inr deps \<Rightarrow>
          (case find (\<lambda>dep. requires g dep i) deps of
             None \<Rightarrow> Some (Inr deps)
           | Some dep \<Rightarrow>
               map_option (\<lambda>h. Inl (DepCycle (task_name dep (h_space h) (h_path h)))) (task_at g dep)))"

definition redefine :: "task_update \<Rightarrow> task_handle \<Rightarrow> task_handle" where
  "redefine u h =
     (let n = (tu_next u)\<lparr>nr_spec := map_option without_deps (nr_spec (tu_next u))\<rparr>;
          h' = (if h_state h = Idle then (snd (adopt n h))\<lparr>h_next := None\<rparr> else h\<lparr>h_next := Some n\<rparr>)
      in h'\<lparr>h_restart := tu_restart u, h_label := tu_label u\<rparr>)"

definition update_task :: "nat \<Rightarrow> nat list \<Rightarrow> task_update \<Rightarrow> graph \<Rightarrow> graph option" where
  "update_task i deps u g =
     (case task_at g i of
        None \<Rightarrow> Some g
      | Some _ \<Rightarrow>
          (let g1 = (upd_task i (redefine u) g)\<lparr>state_changed := True\<rparr>;
               g2 = set_tags i (tu_tags u) g1;
               g3 = fold (remove_edge i) (filter (\<lambda>d. d \<notin> set deps) (deps_of g2 i)) g2;
               g4 = fold (add_edge i) deps g3;
               g5 = enqueue i (notify_changed i g4)
           in if tu_restart_running u
              then (case task_at g5 i of
                      None \<Rightarrow> None
                    | Some h \<Rightarrow> if is_active (h_state h) then cmd_restart i g5 else Some g5)
              else Some g5))"

definition set_origin :: "nat \<Rightarrow> source option \<Rightarrow> graph \<Rightarrow> graph" where
  "set_origin i origin g =
     (case task_at g i of
        None \<Rightarrow> g
      | Some h \<Rightarrow>
          if h_origin h = origin then g
          else notify_changed i (set_tags i (h_tags h) (upd_task i (\<lambda>h. h\<lparr>h_origin := origin\<rparr>) g)))"

section \<open>Moves and copies\<close>

definition repath :: "moved \<Rightarrow> graph \<Rightarrow> graph" where
  "repath m g =
     (if task_at g (moved_id m) \<noteq> None
      then upd_task (moved_id m) (\<lambda>h. h\<lparr>h_path := Some (moved_to m)\<rparr>) g
      else g\<lparr>folders := hm_adj (moved_id m) (\<lambda>f. f\<lparr>fo_path := moved_to m\<rparr>) (folders g)\<rparr>)"

definition announce_move :: "task_space_id \<Rightarrow> moved \<Rightarrow> graph \<Rightarrow> graph" where
  "announce_move sp m g =
     (let was = ns_collect (ns g) (task_key_new sp (moved_from m)) [];
          is_now = ns_collect (ns g) (task_key_new sp (moved_to m)) []
      in case added_at g (moved_id m) sp (moved_to m) of
           None \<Rightarrow> g
         | Some added \<Rightarrow>
             deliver (moved_id m) (Moved (Some (moved_to m)) (ns_before (ns g) (task_key_new sp (moved_to m))))
               (filter (\<lambda>l. l \<in> set was) is_now)
               (deliver (moved_id m) added (filter (\<lambda>l. l \<notin> set was) is_now)
                 (deliver (moved_id m) Removed (filter (\<lambda>l. l \<notin> set is_now) was) g)))"

definition move_tasks :: "move_task_req \<Rightarrow> graph \<Rightarrow> (move_error + nat \<times> graph) option" where
  "move_tasks req g =
     (case ns_move_node (ns g) (mv_space req) (mv_from req) (mv_to req) (mv_place req) of
        None \<Rightarrow> None
      | Some (Inl e) \<Rightarrow> Some (Inl e)
      | Some (Inr (ms, n)) \<Rightarrow>
          (let g1 = fold repath ms (g\<lparr>ns := n, state_changed := state_changed g \<or> ms \<noteq> []\<rparr>)
           in Some (Inr (length ms, fold (announce_move (mv_space req)) ms g1))))"

definition copy_key :: "task_handle \<Rightarrow> duplicate_request \<Rightarrow> nat \<Rightarrow> task_key option" where
  "copy_key h req new_id =
     (case (dr_path req, h_path h) of
        (Some p, _) \<Rightarrow> Some (task_key_new (h_space h) p)
      | (None, Some p) \<Rightarrow>
          (case task_path_new (p @ ''_'' @ show_nat new_id) of
             Inl _ \<Rightarrow> None
           | Inr q \<Rightarrow> Some (task_key_new (h_space h) q))
      | (None, None) \<Rightarrow>
          (case task_path_new (show_nat new_id) of
             Inl _ \<Rightarrow> None
           | Inr q \<Rightarrow> Some (task_key_new default_space q)))"

definition duplicate :: "nat \<Rightarrow> duplicate_request \<Rightarrow> graph \<Rightarrow> (register_error option \<times> graph) option" where
  "duplicate i req g =
     (case task_at g i of
        None \<Rightarrow> None
      | Some h \<Rightarrow>
          (case (h_make_copy h, handle_def_spec h) of
             (Some mc, Some s) \<Rightarrow>
               (let (new_id, g1) = alloc_id g
                in case run_copy mc new_id (copy_key h req new_id) (spec_set_label (dr_label req) s) of
                     Inl _ \<Rightarrow> Some (Some NoDefinition, g1)
                   | Inr copy \<Rightarrow>
                       register_task_with_id new_id
                         (TaskDef ((def_of (reg_def copy))\<lparr>def_deps := map SelId (sort (deps_of g1 i)),
                             def_place := (case h_path h of None \<Rightarrow> Last | Some p \<Rightarrow> After p),
                             def_pinned := dr_start req\<rparr>) (def_make_copy (reg_def copy)))
                         (reg_factory copy) None g1)
           | _ \<Rightarrow> Some (Some NoDefinition, g)))"

section \<open>Subscriptions\<close>

definition subscribe :: "nat \<Rightarrow> task_key \<Rightarrow> sub_mode \<Rightarrow> graph \<Rightarrow> graph" where
  "subscribe s key m g =
     (let replay = filter (\<lambda>(p, _). \<not> ns_is_subscribed (ns g) s (key_space key) p) (ns_in_scope (ns g) key m);
          g1 = g\<lparr>ns := ns_subscribe s key m (ns g)\<rparr>
      in fold (\<lambda>(p, i) g.
           case added_at g i (key_space key) p of None \<Rightarrow> g | Some n \<Rightarrow> deliver i n [s] g) replay g1)"

definition unsubscribe :: "nat \<Rightarrow> task_key \<Rightarrow> sub_mode \<Rightarrow> graph \<Rightarrow> graph" where
  "unsubscribe s key m g = g\<lparr>ns := ns_unsubscribe s key m (ns g)\<rparr>"

end
