(* ===== verification/Kernel_Members.thy ===== *)
theory Kernel_Members
  imports Kernel_Verbs Kernel_Register
begin

text \<open>
  Registering, redefining and removing tasks keeps the graph good (\<open>Kernel_Register\<close>): a new task
  has no dependents, so its edges close no cycle; a redefined one is checked not to be needed by
  its new deps; a removed one is cut out of both edge maps and out of every count.
\<close>

section \<open>Tags and other fields\<close>

lemma core_index_tags [simp]: "core (index_tags i ts g) = core g"
  unfolding index_tags_def by (rule core_fold) simp

lemma core_unindex_tags [simp]: "core (unindex_tags i ts g) = core g"
  unfolding unindex_tags_def by (rule core_fold) (simp add: Let_def split: option.splits)

text \<open>Fields no count, cache, state or timer is made of.\<close>

definition same_run :: "task_handle \<Rightarrow> task_handle \<Rightarrow> bool" where
  "same_run v w \<longleftrightarrow> core_same v w \<and> h_state w = h_state v \<and> (handle_ok v \<longrightarrow> handle_ok w) \<and> (lawful v \<longrightarrow> lawful w)"

lemma good_upd_same:
  assumes "good_but D T g" "\<And>h. hview (f h) = f (hview h)" "\<And>v. handle_ok v \<Longrightarrow> same_run v (f v)"
  shows "good_but D T (upd_task i f g)"
proof -
  have "good_but D T (upd_task i f g)"
  proof (rule good_upd[where f = f])
    fix v
    assume "vw g i = Some v"
    then have "handle_ok v" using assms(1) by (auto simp: good_but_def kinv_def handles_ok_def)
    then show "core_same v (f v) \<and> handle_ok (f v) \<and> h_state (f v) = h_state v \<and> (lawful v \<longrightarrow> lawful (f v))"
      using assms(3) by (simp add: same_run_def)
  qed (use assms in auto)
  then show ?thesis .
qed

lemma good_tag_index [simp]:
  "good_but D T (index_tags i ts g) = good_but D T g" "good_but D T (unindex_tags i ts g) = good_but D T g"
  by (rule good_core, simp)+

lemma good_set_tags: "good_but D T g \<Longrightarrow> good_but D T (set_tags i ts g)"
proof (cases "task_at g i")
  case (Some h)
  assume inv: "good_but D T g"
  have "good_but D T (upd_task i (\<lambda>h. h\<lparr>h_tags := new\<rparr>) g)" for new
  proof (rule good_upd_same[OF inv])
    fix v :: task_handle
    show "same_run v (v\<lparr>h_tags := new\<rparr>)"
      using has_timer_fields[of "v\<lparr>h_tags := new\<rparr>" v] filed_fields[of "v\<lparr>h_tags := new\<rparr>" v]
      by (simp add: same_run_def core_same_def satisfied_cases handle_ok_def lawful_def)
  qed (simp add: hview_def)
  then show ?thesis using Some by (simp add: set_tags_def Let_def)
qed (simp add: set_tags_def)

lemma deps_of_set_tags [simp]: "deps_of (set_tags i ts g) = deps_of g" "requirers_of (set_tags i ts g) = requirers_of g"
proof -
  have *: "deps_of (index_tags i a g) = deps_of g" "requirers_of (index_tags i a g) = requirers_of g"
    "deps_of (unindex_tags i a g) = deps_of g" "requirers_of (unindex_tags i a g) = requirers_of g" for a g
    using core_fields[OF core_index_tags] core_fields[OF core_unindex_tags] by simp_all
  show "deps_of (set_tags i ts g) = deps_of g" "requirers_of (set_tags i ts g) = requirers_of g"
    by (simp_all add: set_tags_def Let_def * split: option.splits)
qed

section \<open>Edges after each change of an edge\<close>

lemma requirers_add_edge: "j \<noteq> b \<Longrightarrow> requirers_of (add_edge a b g) j = requirers_of g j"
  by (simp add: add_edge_def requirers_of_def Let_def)

lemma edge_set_add: "edge_set (add_edge a b g) \<subseteq> insert (a, b) (edge_set g)"
proof
  fix p
  assume "p \<in> edge_set (add_edge a b g)"
  then show "p \<in> insert (a, b) (edge_set g)"
    by (cases p) (auto simp: edge_set_def add_edge_def deps_of_def Let_def split: if_splits)
qed

lemma edge_set_remove: "edge_set (remove_edge a b g) \<subseteq> edge_set g"
proof
  fix p
  assume "p \<in> edge_set (remove_edge a b g)"
  then show "p \<in> edge_set g"
    by (cases p) (auto simp: edge_set_def remove_edge_def deps_of_def Let_def unwrap_del_member split: if_splits)
qed

section \<open>A new task\<close>

lemma fresh_no_edges:
  assumes "graph_ok g" "vw g i = None" "i \<noteq> init_task_id"
  shows "deps_of g i = []" "requirers_of g i = []" "i \<notin> set (deps_of g j)" "i \<notin> set (requirers_of g j)"
proof -
  have "(i, j) \<notin> edge_set g" "(j, i) \<notin> edge_set g" for j using edge_ends[OF assms(1)] assms(2,3) by blast+
  then have *: "j \<notin> set (deps_of g i)" "i \<notin> set (deps_of g j)" for j by (auto simp: edge_set_def)
  then show "deps_of g i = []" "i \<notin> set (deps_of g j)" "i \<notin> set (requirers_of g j)" "requirers_of g i = []"
    using graph_okD(8)[OF assms(1)] by (metis list.set_intros(1) neq_Nil_conv)+
qed

lemma good_new_task:
  assumes inv: "good g" and new: "vw g i = None" "i \<noteq> init_task_id" and ok_h: "handle_ok h"
    and zero: "\<not> h_wanted h" "\<not> h_supported h" "h_wanted_parents h = 0" "h_active_dependents h = 0"
    and eq: "vw g' = (vw g)(i := Some (hview h))" "task_ids g' = task_ids g @ [i]" "quitting g' = quitting g"
      "dirty g' = dirty g" "in_queue g' = in_queue g" "edges g' = edges g" "redges g' = redges g" "transitions g' = transitions g"
  shows "good_but {i} {i} g'"
proof -
  note ok = kinvD[OF good_kinv[OF inv]]
  note fresh = fresh_no_edges[OF ok(1) new]
  have dp: "deps_of g' = deps_of g" "requirers_of g' = requirers_of g"
    using eq(6,7) by (simp_all add: fun_eq_iff deps_of_def requirers_of_def)
  have vw': "vw g' j = (if j = i then Some (hview h) else vw g j)" for j by (simp add: eq(1))
  have pw: "parent_wanted g' j = parent_wanted g j" "parent_active g' j = parent_active g j" if "j \<noteq> i" for j
    using that by (simp_all add: parent_wanted_vw parent_active_vw vw')
  have req: "filter (parent_wanted g') (requirers_of g j) = filter (parent_wanted g) (requirers_of g j)"
    "filter (parent_active g') (requirers_of g j) = filter (parent_active g) (requirers_of g j)" for j
    using fresh(4)[of j] pw by (auto intro!: filter_cong) metis+
  have dh: "dep_holds g' j = dep_holds g j" if "j \<noteq> i" for j using that by (simp add: dep_holds_vw vw')
  have "graph_ok g'"
    unfolding graph_ok_def
  proof (intro conjI allI)
    have "i \<notin> set (task_ids g)" using new(1) dom_vw_ids by (metis domIff)
    then show "hm_ok (tasks g')" using graph_okD(1)[OF ok(1)] eq(2) by (simp add: task_ids_def)
    show "init_task_id \<notin> dom (vw g')" using graph_okD(2)[OF ok(1)] new by (auto simp: eq(1))
    show "hm_ok (edges g')" "hm_ok (redges g')" using graph_okD(4,5)[OF ok(1)] eq(6,7) by simp_all
    show "distinct (deps_of g' a)" "distinct (requirers_of g' a)" for a using graph_okD(6,7)[OF ok(1)] dp by simp_all
    show "b \<in> set (deps_of g' a) \<longleftrightarrow> a \<in> set (requirers_of g' b)" for a b using graph_okD(8)[OF ok(1)] dp by simp
    have es: "edge_set g' = edge_set g" using dp(1) by (rule edge_set_cong)
    show "\<forall>(a, b) \<in> edge_set g'. b \<in> dom (vw g') \<and> (a = init_task_id \<or> a \<in> dom (vw g'))"
      using edge_ends[OF ok(1)] unfolding es eq(1) by auto
    show "acyclic (edge_set g')" using graph_okD(11)[OF ok(1)] es by simp
  qed
  moreover have "queue_ok g'"
    using ok(2) new by (auto simp: queue_ok_def live_dom eq)
  moreover have "counts_ok g'"
    using ok(3) zero fresh(2) unfolding counts_ok_def dp vw' req by auto
  moreover have "caches_ok g'"
    unfolding caches_ok_def
  proof (intro allI impI)
    fix j u
    assume u: "vw g' j = Some u" and clean: "j \<notin> set (dirty g')"
    show "h_wanted u = compute_wanted g' j \<and> h_supported u = compute_supported g' j"
    proof (cases "j = i")
      case True
      then have "u = hview h" using u by (simp add: vw')
      then show ?thesis using zero True by (simp add: vw' compute_wanted_vw compute_supported_vw)
    next
      case False
      then have x: "vw g j = Some u" using u by (simp add: vw')
      have "\<forall>d \<in> set (deps_of g j). dep_holds g' d = dep_holds g d" using fresh(3)[of j] dh by metis
      then have "compute_wanted g' j = compute_wanted g j" "compute_supported g' j = compute_supported g j"
        using False x by (simp_all add: compute_wanted_vw compute_supported_vw vw' eq(3) dp)
      then show ?thesis using ok(4) x clean by (auto simp: caches_ok_def eq(4))
    qed
  qed
  moreover have "handles_ok g'" using ok(5) ok_h by (auto simp: handles_ok_def vw') (simp add: handle_ok_def)
  moreover have "driven_but {i} g'" using good_butD(2)[OF goodD[OF inv]] by (auto simp: driven_but_def vw' eq(4))
  moreover have "lawful_but {i} g'" using good_butD(3)[OF goodD[OF inv]] by (auto simp: lawful_but_def vw')
  moreover have "legal_log g'" using good_butD(4)[OF goodD[OF inv]] by (simp add: legal_log_def eq(8))
  ultimately show ?thesis by (simp add: good_but_def kinv_def)
qed

text \<open>Edges from a task nothing requires.\<close>

lemma good_add_deps:
  assumes "good_but D T g" "requirers_of g i = []"
  shows "good_but D T (fold (add_edge i) deps g) \<and> requirers_of (fold (add_edge i) deps g) i = []"
  using assms
proof (induction deps arbitrary: g)
  case (Cons d deps)
  have "good_but D T (add_edge i d g) \<and> requirers_of (add_edge i d g) i = []"
  proof (cases "d = i")
    case True
    then show ?thesis using Cons.prems by (simp add: add_edge_def)
  next
    case False
    have "(d, i) \<notin> (edge_set g)\<^sup>*"
    proof
      assume "(d, i) \<in> (edge_set g)\<^sup>*"
      then obtain x where "(x, i) \<in> edge_set g" using False by (auto elim: rtranclE)
      then show False using graph_okD(8)[OF good_graph[OF Cons.prems(1)]] Cons.prems(2) by (auto simp: edge_set_def)
    qed
    then show ?thesis
      using good_add_edge[OF Cons.prems(1), of d i] requirers_add_edge[of i d i g] False Cons.prems(2) by simp
  qed
  then show ?case using Cons.IH by simp
qed simp

section \<open>What a registration puts in\<close>

text \<open>What a snapshot written by the kernel obeys: only a stopping task was killed.\<close>

fun saved_ok :: "snap_task option \<Rightarrow> bool" where
  "saved_ok None = True"
| "saved_ok (Some s) = (st_killed s \<longrightarrow> st_state s = Stopping)"

definition registered_handle :: "nat \<Rightarrow> task_def \<Rightarrow> (nat \<Rightarrow> task_obj) \<Rightarrow> nat \<Rightarrow> snap_task option \<Rightarrow> task_handle" where
  "registered_handle t def factory i saved =
     (let h0 = new_handle (def_of def) (def_make_copy def) (factory i)
      in case saved of None \<Rightarrow> h0 | Some s \<Rightarrow> restored t s h0)"

lemma restored_state_stopping: "restored_state h s = Stopping \<longleftrightarrow> s = Stopping"
  using started_state_cases[of h] by (cases s) (auto simp: restored_state_def kept_end_def)

lemma filed_restored_state:
  assumes "h_kind w = h_kind h" "h_state w = restored_state h s"
  shows "filed w"
proof -
  have "exit_state h i = x \<Longrightarrow> x = Done i \<Longrightarrow> h_kind h = Job \<and> exit_success i" for i x
    by (auto simp: exit_state_def Let_def split: if_splits)
  moreover have "exit_state h i = x \<Longrightarrow> x = Backoff i \<or> x = Exited i \<Longrightarrow> \<not> (h_kind h = Job \<and> exit_success i)" for i x
    by (auto simp: exit_state_def)
  ultimately show ?thesis using assms started_state_cases[of h]
    by (cases s) (auto simp: restored_state_def kept_end_def filed_def)
qed

lemma registered_handle_facts:
  fixes t :: nat and def :: task_def and factory :: "nat \<Rightarrow> task_obj" and i :: nat
  assumes "saved_ok saved"
  defines "h \<equiv> registered_handle t def factory i saved"
  shows "handle_ok h" "\<not> h_wanted h" "\<not> h_supported h" "h_wanted_parents h = 0" "h_active_dependents h = 0"
    "h_deadline h = None" "filed h" "h_start_failed h \<longrightarrow> ready_timeout (h_ready h) \<noteq> None"
    "restored_timer n saved h \<noteq> None \<longleftrightarrow> has_timer h"
proof -
  let ?h0 = "new_handle (def_of def) (def_make_copy def) (factory i)"
  have *: "h = (case saved of None \<Rightarrow> ?h0 | Some s \<Rightarrow> restored t s ?h0)" by (simp add: h_def registered_handle_def Let_def)
  show "handle_ok h"
    using assms(1) restored_state_stopping[of ?h0]
    by (cases saved) (auto simp: * new_handle_def handle_ok_def restored_def Let_def)
  show "\<not> h_wanted h" "\<not> h_supported h" "h_wanted_parents h = 0" "h_active_dependents h = 0" "h_deadline h = None"
    by (cases saved; simp add: * new_handle_def restored_def Let_def)+
  show "h_start_failed h \<longrightarrow> ready_timeout (h_ready h) \<noteq> None"
    by (cases saved) (simp_all add: * new_handle_def restored_def Let_def)
  show "filed h"
  proof (cases saved)
    case None
    then show ?thesis by (simp add: * new_handle_def filed_def)
  next
    case (Some s)
    then show ?thesis
      by (intro filed_restored_state[of _ ?h0 "st_state s"]) (simp_all add: * restored_def Let_def)
  qed
  show "restored_timer n saved h \<noteq> None \<longleftrightarrow> has_timer h"
    by (simp add: restored_timer_def has_timer_def split: task_state.splits)
qed

lemma good_install:
  assumes inv: "good g" and new: "task_at g i = None" "i \<noteq> init_task_id" and saved: "saved_ok saved"
  shows "good (install_task i def factory saved deps g)"
proof -
  define h where "h = registered_handle (now g) def factory i saved"
  note hf = registered_handle_facts[OF saved, where t = "now g" and def = def and factory = factory and i = i, folded h_def]
  define g1 where "g1 = g\<lparr>tasks := hm_put i h (tasks g), state_changed := True\<rparr>"
  define g2 where "g2 = (case restored_timer (now g) saved h of None \<Rightarrow> g1 | Some delay \<Rightarrow> schedule_state_timeout i delay g1)"
  define g3 where "g3 = set_tags i (def_tags (def_of def)) g2"
  define g4 where "g4 = fold (add_edge i) deps g3"
  define g5 where "g5 = (if def_pinned (def_of def) then add_edge init_task_id i g4 else g4)"
  define g6 where "g6 = enqueue i g5"
  have none: "vw g i = None" using new(1) by (simp add: vw_None)
  have vw1: "vw g1 = (vw g)(i := Some (hview h))" by (auto simp: g1_def fun_eq_iff vw_def)
  have "i \<notin> set (task_ids g)" using none dom_vw_ids by (metis domIff)
  then have ids: "task_ids g1 = task_ids g @ [i]" by (simp add: g1_def task_ids_def hm_keys_put)
  have "good_but {i} {i} g1"
    by (rule good_new_task[OF inv none new(2) hf(1-5) vw1 ids]) (simp_all add: g1_def)
  then have inv1: "good_but (insert i {}) (insert i {}) g1" .
  have v1: "vw g1 i = Some (hview h)" using vw1 by simp
  have inv2: "good_but {i} {} g2"
  proof (cases "restored_timer (now g) saved h")
    case None
    then have "lawful (hview h)" using hf(6-8) hf(9)[of "now g"] has_timer_fields[of "hview h" h] by (simp add: lawful_def)
    then show ?thesis using good_lawful[OF inv1 v1] None by (simp add: g2_def)
  next
    case (Some delay)
    let ?w = "(hview h)\<lparr>h_deadline := Some (now g1 + delay)\<rparr>"
    have "lawful ?w" using hf(6-8) hf(9)[of "now g"] Some has_timer_fields[of ?w h] by (simp add: lawful_def)
    moreover have "vw g2 i = Some ?w" using v1 Some by (simp add: g2_def)
    moreover have "good_but {i} (insert i {}) g2" using good_schedule[OF inv1 v1] Some by (simp add: g2_def)
    ultimately show ?thesis using good_lawful[of "{i}" i "{}" g2] by blast
  qed
  have inv3: "good_but {i} {} g3" unfolding g3_def using inv2 by (rule good_set_tags)
  have "requirers_of g1 i = []" using fresh_no_edges(2)[OF kinvD(1)[OF good_kinv[OF inv]] none new(2)] by (simp add: g1_def requirers_of_def)
  then have "requirers_of g3 i = []" by (simp add: g3_def g2_def split: option.splits)
  then have inv4: "good_but {i} {} g4" using good_add_deps[OF inv3, of i deps] by (simp add: g4_def)
  have inv5: "good_but {i} {} g5" using inv4 good_pin by (simp add: g5_def)
  have inv6: "good_but {i} {} g6" unfolding g6_def using inv5 by simp
  have "i \<in> dom (vw g5)"
  proof -
    have mono: "dom (vw (add_edge a b g)) = dom (vw g)" for a b g
      by (simp add: add_edge_def Let_def)
    have folds: "dom (vw (fold (add_edge i) ds g)) = dom (vw g)" for ds g by (induction ds arbitrary: g) (simp_all add: mono)
    have tags: "dom (vw (set_tags i ts g)) = dom (vw g)" for ts g
      using core_fields(1)[OF core_index_tags] core_fields(1)[OF core_unindex_tags]
      by (simp add: set_tags_def Let_def split: option.splits)
    show ?thesis using v1 by (simp add: g5_def g4_def g3_def g2_def mono folds tags split: option.splits) (auto simp: dom_def)
  qed
  then have "i \<in> live g5" using new(2) by (auto simp: live_dom)
  then have "i \<in> set (dirty g6)" unfolding g6_def using enqueue_queue(2)[OF good_queue[OF inv5], of i] by simp
  then have "good_but {} {} g6" using good_queued[of i "{}" "{}" g6] inv6 by simp
  moreover have "install_task i def factory saved deps g =
      notify_subscribers i (def_space (def_of def)) (def_path (def_of def))
        (Added (def_path (def_of def)) (def_label (def_of def))
          (Option.bind (h_path h) (\<lambda>p. ns_before (ns g) (task_key_new (h_space h) p))) (h_kind h) (h_state h) (def_vt (def_of def))) g6"
    unfolding g6_def g5_def g4_def g3_def g2_def g1_def h_def registered_handle_def install_task_def Let_def ..
  ultimately show ?thesis by (simp add: good_def)
qed

lemma good_register:
  assumes "good g" "i \<noteq> init_task_id" "saved_ok saved" "register_task_with_id i def factory saved g = Some (e, g')"
  shows "good g'"
proof -
  have frame: "good (g\<lparr>ns := n\<rparr>)" "task_at (g\<lparr>ns := n\<rparr>) i = task_at g i" for n
    using assms(1) good_core_iff[OF core_updates(2)] by simp_all
  show ?thesis using assms(4) assms(1)
    by (auto simp: register_task_with_id_def Let_def good_install[OF assms(1) _ assms(2,3)]
        good_install[OF frame(1) _ assms(2,3)] frame split: if_splits sum.splits option.splits prod.splits)
qed

end
