(* ===== verification/Kernel_Removal.thy ===== *)
theory Kernel_Removal
  imports Kernel_Members
begin

text \<open>
  Removing a task (\<open>Graph::remove_task\<close>) keeps the graph good: what its deps counted for it is
  taken back, both its edge sets go, it leaves the queue, and every task that lost an edge is
  queued to be recomputed.
\<close>

section \<open>The steps\<close>

lemma drop_requirer_fields [simp]:
  "edges (drop_requirer i w a d g) = edges g" "quitting (drop_requirer i w a d g) = quitting g"
  "task_ids (drop_requirer i w a d g) = task_ids g" "transitions (drop_requirer i w a d g) = transitions g"
  "deps_of (drop_requirer i w a d g) = deps_of g"
  "hm_keys (redges (drop_requirer i w a d g)) = hm_keys (redges g)"
  by (simp_all add: drop_requirer_def)

lemma hs_del_nil [simp]: "hs_del i [] = []"
  by (simp add: hs_del_def)

lemma unwrap_hs_del [simp]: "unwrap_or [] (map_option (hs_del i) x) = hs_del i (unwrap_or [] x)"
  by (cases x) simp_all

lemma drop_requirer_requirers:
  "requirers_of (drop_requirer i w a d g) = (requirers_of g)(d := hs_del i (requirers_of g d))"
  by (auto simp: drop_requirer_def requirers_of_def fun_eq_iff split: option.splits)

lemma drop_requirer_vw:
  "vw (drop_requirer i w a d g) = (vw g)(d := map_option (add_counts (- 1) w a) (vw g d))"
proof -
  have "vw (g\<lparr>redges := r\<rparr>) = vw g" for r by (simp add: fun_eq_iff vw_def)
  then show ?thesis by (simp add: drop_requirer_def vw_upd_task)
qed

lemma drop_requirer_queue:
  assumes "queue_ok g"
  shows "queue_ok (drop_requirer i w a d g)" "set (dirty (drop_requirer i w a d g)) = set (dirty g) \<union> ({d} \<inter> live g)"
    "live (drop_requirer i w a d g) = live g"
proof -
  let ?g1 = "g\<lparr>redges := hm_adj d (hs_del i) (redges g)\<rparr>"
  have vw1: "vw ?g1 = vw g" by (simp add: fun_eq_iff vw_def)
  have l: "live ?g1 = live g" by (rule live_cong) (simp add: vw1)
  have q: "queue_ok (upd_task d (add_counts (- 1) w a) ?g1)" using assms queue_ok_cong[of ?g1 g] vw1 by simp
  show "queue_ok (drop_requirer i w a d g)" "set (dirty (drop_requirer i w a d g)) = set (dirty g) \<union> ({d} \<inter> live g)"
    using enqueue_queue[OF q, of d] l by (simp_all add: drop_requirer_def)
  show "live (drop_requirer i w a d g) = live g" by (simp add: drop_requirer_def l)
qed

lemma drop_requirers:
  assumes "queue_ok g" "distinct ds"
  shows "queue_ok (fold (drop_requirer i w a) ds g)"
    "set (dirty (fold (drop_requirer i w a) ds g)) = set (dirty g) \<union> (set ds \<inter> live g)"
    "live (fold (drop_requirer i w a) ds g) = live g"
    "vw (fold (drop_requirer i w a) ds g) =
      (\<lambda>j. if j \<in> set ds then map_option (add_counts (- 1) w a) (vw g j) else vw g j)"
    "requirers_of (fold (drop_requirer i w a) ds g) =
      (\<lambda>j. if j \<in> set ds then hs_del i (requirers_of g j) else requirers_of g j)"
    "edges (fold (drop_requirer i w a) ds g) = edges g" "quitting (fold (drop_requirer i w a) ds g) = quitting g"
    "task_ids (fold (drop_requirer i w a) ds g) = task_ids g"
    "transitions (fold (drop_requirer i w a) ds g) = transitions g"
    "hm_keys (redges (fold (drop_requirer i w a) ds g)) = hm_keys (redges g)"
  using assms
  by (induction ds arbitrary: g)
    (auto simp: drop_requirer_queue drop_requirer_vw drop_requirer_requirers fun_eq_iff)

lemma drop_dep_facts:
  "vw (drop_dep i j g) = vw g" "live (drop_dep i j g) = live g"
  "deps_of (drop_dep i j g) = (deps_of g)(j := hs_del i (deps_of g j))"
  "redges (drop_dep i j g) = redges g" "requirers_of (drop_dep i j g) = requirers_of g" "quitting (drop_dep i j g) = quitting g"
  "task_ids (drop_dep i j g) = task_ids g" "transitions (drop_dep i j g) = transitions g"
  "hm_keys (edges (drop_dep i j g)) = hm_keys (edges g)"
proof -
  have *: "vw (g\<lparr>edges := e\<rparr>) = vw g" for e by (simp add: fun_eq_iff vw_def)
  show "vw (drop_dep i j g) = vw g" by (simp add: drop_dep_def *)
  show "live (drop_dep i j g) = live g" by (rule live_cong) (simp add: drop_dep_def *)
qed (auto simp: drop_dep_def deps_of_def requirers_of_def fun_eq_iff split: option.splits)

lemma drop_dep_queue:
  assumes "queue_ok g"
  shows "queue_ok (drop_dep i j g)" "set (dirty (drop_dep i j g)) = set (dirty g) \<union> ({j} \<inter> live g)"
proof -
  let ?g1 = "g\<lparr>edges := hm_adj j (hs_del i) (edges g)\<rparr>"
  have vw1: "vw ?g1 = vw g" by (simp add: fun_eq_iff vw_def)
  have l: "live ?g1 = live g" by (rule live_cong) (simp add: vw1)
  have q: "queue_ok ?g1" using assms queue_ok_same_vw[of ?g1 g] vw1 by simp
  show "queue_ok (drop_dep i j g)" "set (dirty (drop_dep i j g)) = set (dirty g) \<union> ({j} \<inter> live g)"
    using enqueue_queue[OF q, of j] l by (simp_all add: drop_dep_def)
qed

lemma drop_deps:
  assumes "queue_ok g"
  shows "queue_ok (fold (drop_dep i) js g)"
    "set (dirty (fold (drop_dep i) js g)) = set (dirty g) \<union> (set js \<inter> live g)"
    "vw (fold (drop_dep i) js g) = vw g"
    "deps_of (fold (drop_dep i) js g) = (\<lambda>j. if j \<in> set js then hs_del i (deps_of g j) else deps_of g j)"
    "redges (fold (drop_dep i) js g) = redges g" "requirers_of (fold (drop_dep i) js g) = requirers_of g"
    "quitting (fold (drop_dep i) js g) = quitting g" "task_ids (fold (drop_dep i) js g) = task_ids g"
    "transitions (fold (drop_dep i) js g) = transitions g" "hm_keys (edges (fold (drop_dep i) js g)) = hm_keys (edges g)"
  using assms
  by (induction js arbitrary: g)
    (auto simp: drop_dep_queue drop_dep_facts fun_eq_iff hs_del_def)


text \<open>The task's own record.\<close>

lemma forget_task_facts:
  assumes "queue_ok g"
  shows "vw (forget_task i h g) = (vw g)(i := None)" "queue_ok (forget_task i h g)"
    "set (dirty (forget_task i h g)) = set (dirty g) - {i}"
    "edges (forget_task i h g) = edges g" "redges (forget_task i h g) = redges g"
    "deps_of (forget_task i h g) = deps_of g" "requirers_of (forget_task i h g) = requirers_of g"
    "quitting (forget_task i h g) = quitting g" "transitions (forget_task i h g) = transitions g"
    "task_ids (forget_task i h g) = removeAll i (task_ids g)" "live (forget_task i h g) = live g - {i}"
proof -
  define g1 where "g1 = g\<lparr>tasks := hm_del i (tasks g), state_changed := True,
            timer_changes := timer_changes g @ (if h_deadline h = None then [] else [i])\<rparr>"
  define g2 where "g2 = (if i \<in> set (in_queue g1)
             then g1\<lparr>in_queue := hs_del i (in_queue g1), dirty := filter (\<lambda>d. d \<noteq> i) (dirty g1)\<rparr> else g1)"
  have "core (forget_task i h g) = core g2"
    unfolding forget_task_def Let_def g1_def[symmetric] g2_def[symmetric] by (simp split: option.splits)
  note c = core_fields[OF this]
  have vw1: "vw g1 = (vw g)(i := None)" by (auto simp: g1_def fun_eq_iff vw_def)
  have vw2: "vw g2 = vw g1" by (simp add: g2_def fun_eq_iff vw_def)
  show v: "vw (forget_task i h g) = (vw g)(i := None)" by (simp add: c vw2 vw1)
  show l: "live (forget_task i h g) = live g - {i}" by (auto simp: live_dom v)
  have d2: "dirty g2 = (if i \<in> set (dirty g) then filter (\<lambda>d. d \<noteq> i) (dirty g) else dirty g)"
    "in_queue g2 = (if i \<in> set (dirty g) then hs_del i (in_queue g) else in_queue g)"
    using assms by (auto simp: g2_def g1_def queue_ok_def)
  show "queue_ok (forget_task i h g)" "set (dirty (forget_task i h g)) = set (dirty g) - {i}"
    using assms by (auto simp: queue_ok_def c d2 l)
  have "deps_of g2 = deps_of g" "requirers_of g2 = requirers_of g" "edges g2 = edges g" "redges g2 = redges g"
    by (simp_all add: g2_def g1_def deps_of_def requirers_of_def fun_eq_iff)
  then show "edges (forget_task i h g) = edges g" "redges (forget_task i h g) = redges g"
    "deps_of (forget_task i h g) = deps_of g" "requirers_of (forget_task i h g) = requirers_of g"
    by (simp_all add: c)
  show "quitting (forget_task i h g) = quitting g" "transitions (forget_task i h g) = transitions g"
    by (simp_all add: c g2_def g1_def)
  have "task_ids g2 = removeAll i (task_ids g)"
    by (simp add: g2_def g1_def task_ids_def hm_del_def AList.delete_eq removeAll_filter_not_eq filter_map comp_def split_def)
  then show "task_ids (forget_task i h g) = removeAll i (task_ids g)" by (simp only: c)
qed

section \<open>The whole\<close>

text \<open>The graph once the task is out, in terms of the graph before.\<close>

definition removed_from :: "nat \<Rightarrow> task_handle \<Rightarrow> graph \<Rightarrow> graph \<Rightarrow> bool" where
  "removed_from i h g g' \<longleftrightarrow>
     vw g' = (\<lambda>j. if j = i then None
                else if j \<in> set (deps_of g i) then map_option (add_counts (- 1) (h_wanted h) (is_active (h_state h))) (vw g j)
                else vw g j) \<and>
     deps_of g' = (\<lambda>j. if j = i then [] else hs_del i (deps_of g j)) \<and>
     requirers_of g' = (\<lambda>j. if j = i then [] else hs_del i (requirers_of g j)) \<and>
     queue_ok g' \<and> set (dirty g') = (set (dirty g) \<union> (set (deps_of g i) \<union> set (requirers_of g i)) \<inter> live g) - {i} \<and>
     quitting g' = quitting g \<and> transitions g' = transitions g \<and> task_ids g' = removeAll i (task_ids g) \<and>
     hm_ok (edges g') \<and> hm_ok (redges g')"

lemma hs_del_id: "x \<notin> set xs \<Longrightarrow> hs_del x xs = xs"
  by (simp add: hs_del_def)

lemma no_self_edge: "graph_ok g \<Longrightarrow> i \<notin> set (deps_of g i)"
  using graph_okD(11)[of g] by (auto simp: acyclic_def edge_set_def)

lemma removed_from_cut:
  assumes ok: "graph_ok g" and q: "queue_ok g" and h: "task_at g i = Some h"
  shows "removed_from i h g (cut_requirers i (cut_deps i h (forget_task i h g)))"
proof -
  define g1 where "g1 = forget_task i h g"
  note f1 = forget_task_facts[OF q, of i h, folded g1_def]
  define g2 where "g2 = g1\<lparr>edges := hm_del i (edges g1)\<rparr>"
  have vw2: "vw g2 = vw g1" by (simp add: g2_def fun_eq_iff vw_def)
  have q2: "queue_ok g2" using f1(2) queue_ok_same_vw[of g2 g1] vw2 by (simp add: g2_def)
  have l2: "live g2 = live g - {i}" using f1(11) by (simp add: live_dom vw2)
  have d2: "deps_of g2 = (deps_of g)(i := [])" using f1(4) by (auto simp: g2_def fun_eq_iff deps_of_def)
  have r2: "requirers_of g2 = requirers_of g" using f1(5) by (simp add: g2_def fun_eq_iff requirers_of_def)
  define g3 where "g3 = fold (drop_requirer i (h_wanted h) (is_active (h_state h))) (deps_of g i) g2"
  have e3: "cut_deps i h g1 = g3" by (simp add: cut_deps_def g3_def g2_def f1(6))
  note f3 = drop_requirers[OF q2 graph_okD(6)[OF ok, of i], of i "h_wanted h" "is_active (h_state h)", folded g3_def]
  have ni: "i \<notin> set (deps_of g i)" using no_self_edge[OF ok] .
  have ni': "i \<notin> set (requirers_of g i)" using ni graph_okD(8)[OF ok] by blast
  have r3: "requirers_of g3 i = requirers_of g i" using f3(5) ni r2 by simp
  define g4 where "g4 = g3\<lparr>redges := hm_del i (redges g3)\<rparr>"
  have vw4: "vw g4 = vw g3" by (simp add: g4_def fun_eq_iff vw_def)
  have q4: "queue_ok g4" using f3(1) queue_ok_same_vw[of g4 g3] vw4 by (simp add: g4_def)
  have l4: "live g4 = live g3" by (simp add: live_dom vw4)
  have d4: "deps_of g4 = deps_of g2" using f3(6) by (simp add: g4_def fun_eq_iff deps_of_def)
  have r4: "requirers_of g4 = (requirers_of g3)(i := [])" by (auto simp: g4_def fun_eq_iff requirers_of_def)
  define g5 where "g5 = fold (drop_dep i) (requirers_of g i) g4"
  have e5: "cut_requirers i g3 = g5" by (simp add: cut_requirers_def g5_def g4_def r3)
  note f5 = drop_deps[OF q4, of i "requirers_of g i", folded g5_def]
  have out: "i \<notin> set (deps_of g j)" if "j \<notin> set (requirers_of g i)" for j using graph_okD(8)[OF ok] that by blast
  have "removed_from i h g g5"
    unfolding removed_from_def
  proof (intro conjI)
    show "vw g5 = (\<lambda>j. if j = i then None
                else if j \<in> set (deps_of g i) then map_option (add_counts (- 1) (h_wanted h) (is_active (h_state h))) (vw g j)
                else vw g j)"
      using f5(3) f3(4) vw4 vw2 f1(1) by (auto simp: fun_eq_iff)
    show "deps_of g5 = (\<lambda>j. if j = i then [] else hs_del i (deps_of g j))"
      using f5(4) d4 d2 out by (auto simp: fun_eq_iff hs_del_id)
    have "i \<notin> set (requirers_of g j)" if "j \<notin> set (deps_of g i)" for j using graph_okD(8)[OF ok] that by blast
    then show "requirers_of g5 = (\<lambda>j. if j = i then [] else hs_del i (requirers_of g j))"
      using f5(6) r4 f3(5) r2 by (auto simp: fun_eq_iff hs_del_id)
    show "queue_ok g5" by (rule f5(1))
    have "set (dirty g5) = set (dirty g3) \<union> (set (requirers_of g i) \<inter> (live g - {i}))"
      using f5(2) f3(3) l4 l2 by (simp add: g4_def)
    also have "set (dirty g3) = (set (dirty g) - {i}) \<union> (set (deps_of g i) \<inter> (live g - {i}))"
      using f3(2) l2 f1(3) by (simp add: g2_def)
    finally show "set (dirty g5) = (set (dirty g) \<union> (set (deps_of g i) \<union> set (requirers_of g i)) \<inter> live g) - {i}"
      by blast
    show "quitting g5 = quitting g" "transitions g5 = transitions g"
      using f5(7,9) f3(7,9) f1(8,9) by (simp_all add: g4_def g2_def)
    show "task_ids g5 = removeAll i (task_ids g)" using f5(8) f3(8) f1(10) by (simp add: g4_def g2_def task_ids_def)
    show "hm_ok (edges g5)" using f5(10) f3(6) f1(4) graph_okD(4)[OF ok] by (simp add: g4_def g2_def)
    show "hm_ok (redges g5)" using f5(5) f3(10) f1(5) graph_okD(5)[OF ok] by (simp add: g4_def g2_def)
  qed
  then show ?thesis by (simp add: g1_def[symmetric] e3 e5)
qed


lemma count_drop: "distinct xs \<Longrightarrow> a \<in> set xs \<Longrightarrow>
  int (length (filter P (hs_del a xs))) = int (length (filter P xs)) - (if P a then 1 else 0)"
  using filter_removeAll[of xs a P] by (simp add: hs_del_def removeAll_filter_not_eq)

lemma good_removed:
  assumes inv: "good g" and v: "vw g i = Some (hview h)" and r: "removed_from i h g g'"
  shows "good g'"
proof -
  note ok = kinvD[OF good_kinv[OF inv]]
  note r = r[unfolded removed_from_def]
  let ?c = "add_counts (- 1) (h_wanted h) (is_active (h_state h))"
  have vw': "vw g' j = (if j = i then None else if j \<in> set (deps_of g i) then map_option ?c (vw g j) else vw g j)" for j
    using r by simp
  have dp: "deps_of g' j = (if j = i then [] else hs_del i (deps_of g j))" for j using r by simp
  have rq: "requirers_of g' j = (if j = i then [] else hs_del i (requirers_of g j))" for j using r by simp
  have dirt: "set (dirty g') = (set (dirty g) \<union> (set (deps_of g i) \<union> set (requirers_of g i)) \<inter> live g) - {i}" using r by simp
  have ids: "task_ids g' = removeAll i (task_ids g)" using r by simp
  have i: "i \<noteq> init_task_id" using v graph_okD(2)[OF ok(1)] by auto
  have mutual: "i \<in> set (deps_of g j) \<longleftrightarrow> j \<in> set (requirers_of g i)" "i \<in> set (requirers_of g j) \<longleftrightarrow> j \<in> set (deps_of g i)" for j
    using graph_okD(8)[OF ok(1)] by blast+
  have pw: "parent_wanted g' j = parent_wanted g j" "parent_active g' j = parent_active g j" if "j \<noteq> i" for j
    using that by (auto simp: parent_wanted_vw parent_active_vw vw' split: option.splits)
  have pi: "parent_wanted g i = h_wanted h" "parent_active g i = is_active (h_state h)"
    using v i by (simp_all add: parent_wanted_vw parent_active_vw)
  have dh: "dep_holds g' j = dep_holds g j" if "j \<noteq> i" for j
    using that by (auto simp: dep_holds_vw vw' split: option.splits)
  have other: "i \<notin> set (deps_of g j) \<and> j \<notin> set (deps_of g i) \<and> vw g j = Some u \<and> j \<notin> set (dirty g) \<and> j \<noteq> i"
    if u: "vw g' j = Some u" and clean: "j \<notin> set (dirty g')" for j u
  proof -
    have "j \<noteq> i" "j \<in> dom (vw g)" using u by (auto simp: vw' split: if_splits)
    then have "j \<in> live g" using graph_okD(2)[OF ok(1)] by (auto simp: live_dom)
    then show ?thesis using u clean \<open>j \<noteq> i\<close> mutual(1)[of j] by (auto simp: dirt vw' split: if_splits)
  qed
  have es: "edge_set g' \<subseteq> edge_set g" by (auto simp: edge_set_def dp split: if_splits)
  have "graph_ok g'"
    unfolding graph_ok_def
  proof (intro conjI allI)
    show "hm_ok (tasks g')" using graph_okD(1)[OF ok(1)] ids distinct_removeAll by (simp add: task_ids_def)
    show "init_task_id \<notin> dom (vw g')" using graph_okD(2)[OF ok(1)] by (auto simp: vw' split: if_splits)
    show "hm_ok (edges g')" "hm_ok (redges g')" using r by simp_all
    show "distinct (deps_of g' a)" "distinct (requirers_of g' a)" for a
      using graph_okD(6,7)[OF ok(1)] by (simp_all add: dp rq)
    show "b \<in> set (deps_of g' a) \<longleftrightarrow> a \<in> set (requirers_of g' b)" for a b
      using graph_okD(8)[OF ok(1), of b a] by (auto simp: dp rq)
    show "\<forall>(a, b) \<in> edge_set g'. b \<in> dom (vw g') \<and> (a = init_task_id \<or> a \<in> dom (vw g'))"
    proof clarify
      fix a b
      assume e: "(a, b) \<in> edge_set g'"
      then have "a \<noteq> i" "b \<noteq> i" by (auto simp: edge_set_def dp split: if_splits)
      moreover have "b \<in> dom (vw g) \<and> (a = init_task_id \<or> a \<in> dom (vw g))" using edge_ends[OF ok(1)] e es by blast
      ultimately show "b \<in> dom (vw g') \<and> (a = init_task_id \<or> a \<in> dom (vw g'))" by (auto simp: vw')
    qed
    show "acyclic (edge_set g')" using graph_okD(11)[OF ok(1)] es by (rule acyclic_subset)
  qed
  moreover have "queue_ok g'" using r by simp
  moreover have "counts_ok g'"
    unfolding counts_ok_def
  proof (intro allI impI)
    fix j u
    assume u: "vw g' j = Some u"
    have j: "j \<noteq> i" using u by (auto simp: vw')
    have same: "filter (parent_wanted g') (hs_del i xs) = filter (parent_wanted g) (hs_del i xs)"
      "filter (parent_active g') (hs_del i xs) = filter (parent_active g) (hs_del i xs)" for xs
      using pw by (auto intro!: filter_cong)
    obtain w where w: "vw g j = Some w" using u j by (auto simp: vw' split: if_splits)
    note c = ok(3)[unfolded counts_ok_def, rule_format, OF w]
    show "h_wanted_parents u = int (length (filter (parent_wanted g') (requirers_of g' j))) \<and>
        h_active_dependents u = int (length (filter (parent_active g') (requirers_of g' j)))"
    proof (cases "j \<in> set (deps_of g i)")
      case True
      then have "u = ?c w" "i \<in> set (requirers_of g j)" using u j w mutual(2) by (auto simp: vw')
      then show ?thesis
        using c j count_drop[OF graph_okD(7)[OF ok(1)], of i j] by (simp add: rq same pi)
    next
      case False
      then have "u = w" "hs_del i (requirers_of g j) = requirers_of g j" using u j w mutual(2) by (auto simp: vw' hs_del_id)
      then show ?thesis using c j same[of "requirers_of g j"] by (simp add: rq)
    qed
  qed
  moreover have "caches_ok g'"
    unfolding caches_ok_def
  proof (intro allI impI)
    fix j u
    assume u: "vw g' j = Some u" and clean: "j \<notin> set (dirty g')"
    note o = other[OF u clean]
    have "deps_of g' j = deps_of g j" using o by (simp add: dp hs_del_id)
    moreover have "\<forall>d \<in> set (deps_of g j). dep_holds g' d = dep_holds g d" using o dh by metis
    ultimately have "compute_wanted g' j = compute_wanted g j" "compute_supported g' j = compute_supported g j"
      using o r by (simp_all add: compute_wanted_vw compute_supported_vw vw')
    then show "h_wanted u = compute_wanted g' j \<and> h_supported u = compute_supported g' j"
      using ok(4) o by (auto simp: caches_ok_def)
  qed
  moreover have "handles_ok g'" using ok(5) unfolding handles_ok_def vw' by (auto split: if_splits)
  moreover have "driven_but {} g'" using good_butD(2)[OF goodD[OF inv]] other unfolding driven_but_def by blast
  moreover have "lawful_but {} g'" using good_butD(3)[OF goodD[OF inv]] unfolding lawful_but_def vw' by (auto split: if_splits)
  moreover have "legal_log g'" using good_butD(4)[OF goodD[OF inv]] r by (simp add: legal_log_def)
  ultimately show ?thesis by (simp add: good_def good_but_def kinv_def)
qed

lemma good_remove_task:
  assumes "good g"
  shows "good (remove_task i g)"
proof (cases "task_at g i")
  case (Some h)
  have "good (cut_requirers i (cut_deps i h (forget_task i h g)))"
    by (rule good_removed[OF assms vwI[OF Some] removed_from_cut[OF _ _ Some]])
      (use kinvD[OF good_kinv[OF assms]] in simp_all)
  then have "good_but {} {} (cut_requirers i (cut_deps i h (forget_task i h g)))" by (simp add: good_def)
  then show ?thesis using Some by (simp add: remove_task_def Let_def good_def)
qed (use assms in \<open>simp add: remove_task_def\<close>)

end
