(* ===== verification/Batch_Order.thy ===== *)
theory Batch_Order
  imports Kernel_Register
begin

text \<open>
  The order of a batch (\<open>batch_order\<close>): the loop ends, never counts below zero, and gives every
  slot once, each after the slots it needs but for those that wait on a cycle.
\<close>

section \<open>Releasing what waited on a slot\<close>

lemma release_spec:
  assumes "\<forall>d \<in> set ds. d < length m" "\<forall>d. count_list ds d \<le> m ! d"
  shows "\<exists>m' zs. release ds m r = Some (m', r @ zs) \<and> length m' = length m \<and>
    (\<forall>d < length m. m' ! d = m ! d - count_list ds d) \<and>
    distinct zs \<and> set zs = {d \<in> set ds. m ! d = count_list ds d}"
  using assms
proof (induction ds arbitrary: m r)
  case (Cons d ds)
  have d: "d < length m" "m ! d \<noteq> 0" using Cons.prems(1) Cons.prems(2)[rule_format, of d] by auto
  let ?m = "m[d := m ! d - 1]"
  have c: "count_list ds x \<le> ?m ! x" for x
    using Cons.prems(2)[rule_format, of x] d by (auto simp: nth_list_update split: if_splits)
  obtain m' zs where r: "release ds ?m (if m ! d - 1 = 0 then r @ [d] else r) =
      Some (m', (if m ! d - 1 = 0 then r @ [d] else r) @ zs)" "length m' = length m"
      "\<forall>x < length m. m' ! x = ?m ! x - count_list ds x" "distinct zs" "set zs = {x \<in> set ds. ?m ! x = count_list ds x}"
    using Cons.IH[of ?m "if m ! d - 1 = 0 then r @ [d] else r"] Cons.prems(1) c by auto
  let ?zs = "(if m ! d - 1 = 0 then [d] else []) @ zs"
  have last: "d \<notin> set ds" if "m ! d - 1 = 0" using c[of d] d that by (simp add: count_list_0_iff)
  have "release (d # ds) m r = Some (m', r @ ?zs)" using r(1) d by (simp add: Let_def)
  moreover have "\<forall>x < length m. m' ! x = m ! x - count_list (d # ds) x" using r(3) d by (auto simp: nth_list_update)
  moreover have "distinct ?zs" using r(4,5) last by auto
  moreover have "set ?zs = {x \<in> set (d # ds). m ! x = count_list (d # ds) x}"
  proof -
    have "x \<in> set ?zs \<longleftrightarrow> x \<in> set (d # ds) \<and> m ! x = count_list (d # ds) x" for x
    proof (cases "x = d")
      case True
      show ?thesis
      proof (cases "d \<in> set ds")
        case in_ds: True
        then have "m ! d - 1 \<noteq> 0" using last by blast
        moreover have "d \<in> set zs \<longleftrightarrow> m ! d - 1 = count_list ds d" using r(5) in_ds d by simp
        ultimately show ?thesis using True d by auto
      next
        case out: False
        then have "d \<notin> set zs" "count_list ds d = 0" using r(5) by (simp_all add: count_list_0_iff)
        then show ?thesis using True d by auto
      qed
    next
      case False
      then show ?thesis using r(5) d by (auto simp: nth_list_update)
    qed
    then show ?thesis by blast
  qed
  ultimately show ?case using r(2) by blast
qed simp

section \<open>The loop\<close>

definition unmet :: "nat list \<Rightarrow> nat list \<Rightarrow> nat" where
  "unmet ord ds = length (filter (\<lambda>d. d \<notin> set ord) ds)"

lemma unmet_snoc: "i \<notin> set ord \<Longrightarrow> unmet (ord @ [i]) ds = unmet ord ds - count_list ds i"
  and unmet_count: "i \<notin> set ord \<Longrightarrow> count_list ds i \<le> unmet ord ds"
proof -
  assume i: "i \<notin> set ord"
  have "unmet ord ds = unmet (ord @ [i]) ds + count_list ds i"
    unfolding unmet_def using i by (induction ds) auto
  then show "unmet (ord @ [i]) ds = unmet ord ds - count_list ds i" "count_list ds i \<le> unmet ord ds" by simp_all
qed

text \<open>
  What holds each time round: the counts are what is unmet, exactly the slots with nothing unmet
  are out or ready, and what is out came after what it needs.
\<close>

definition order_inv :: "nat \<Rightarrow> (nat \<Rightarrow> nat list) \<Rightarrow> nat list \<Rightarrow> nat list \<Rightarrow> nat list \<Rightarrow> bool" where
  "order_inv n need missing ready ord \<longleftrightarrow>
     length missing = n \<and> distinct (ord @ ready) \<and> (\<forall>i < n. missing ! i = unmet ord (need i)) \<and>
     set (ord @ ready) = {i. i < n \<and> unmet ord (need i) = 0} \<and>
     (\<forall>k < length ord. set (need (ord ! k)) \<subseteq> set (take k ord))"

lemma order_loop_spec:
  assumes "order_inv n need missing ready ord"
    and deps: "\<And>i j. count_list (dependents j) i = (if i < n then count_list (need i) j else 0)"
  shows "\<exists>ord' missing'. order_loop dependents missing ready ord = Some (ord', missing') \<and>
    order_inv n need missing' [] ord'"
  using assms(1)
proof (induction "n - length ord" arbitrary: missing ready ord rule: less_induct)
  case less
  note inv = less.prems[unfolded order_inv_def]
  show ?case
  proof (cases ready)
    case Nil
    then show ?thesis using less.prems by (subst order_loop.simps) simp
  next
    case (Cons i rest)
    have i: "i < n" "i \<notin> set ord" "unmet ord (need i) = 0" using inv Cons by auto
    have member: "x \<in> set ord \<or> x \<in> set ready \<longleftrightarrow> x < n \<and> unmet ord (need x) = 0" for x
    proof -
      have "set (ord @ ready) = {i. i < n \<and> unmet ord (need i) = 0}" using inv by blast
      then show ?thesis by auto
    qed
    have in_deps: "d \<in> set (dependents i) \<longleftrightarrow> d < n \<and> i \<in> set (need d)" for d
      using deps[of i d] count_list_0_iff by (metis (no_types, lifting))
    have le: "count_list (dependents i) d \<le> missing ! d" for d
      using deps[of i d] unmet_count[OF i(2), of "need d"] inv by (cases "d < n") auto
    obtain missing' zs where rel: "release (dependents i) missing rest = Some (missing', rest @ zs)" "length missing' = n"
        "\<forall>d < n. missing' ! d = missing ! d - count_list (dependents i) d" "distinct zs"
        "set zs = {d \<in> set (dependents i). missing ! d = count_list (dependents i) d}"
      using release_spec[of "dependents i" missing rest] in_deps le inv by auto
    have un: "unmet (ord @ [i]) (need d) = missing' ! d" if "d < n" for d
      using rel(3) that deps[of i d] unmet_snoc[OF i(2), of "need d"] inv by simp
    have zs: "d \<in> set zs \<longleftrightarrow> d < n \<and> i \<in> set (need d) \<and> unmet (ord @ [i]) (need d) = 0" for d
      using rel(3,5) in_deps[of d] le[of d] un[of d] by auto
    have fresh: "d \<notin> set ord \<and> d \<notin> set ready" if "d \<in> set zs" for d
    proof -
      have "unmet ord (need d) \<noteq> 0" using zs[of d] that unmet_count[OF i(2), of "need d"] count_list_0_iff[of "need d" i] by auto
      then show ?thesis using member[of d] by auto
    qed
    have "order_inv n need missing' (rest @ zs) (ord @ [i])"
      unfolding order_inv_def
    proof (intro conjI)
      show "length missing' = n" by (rule rel(2))
      show "distinct ((ord @ [i]) @ rest @ zs)" using inv rel(4) fresh Cons by auto
      show "\<forall>d < n. missing' ! d = unmet (ord @ [i]) (need d)" using un by simp
      have "d \<in> set ((ord @ [i]) @ rest @ zs) \<longleftrightarrow> d < n \<and> unmet (ord @ [i]) (need d) = 0" for d
      proof (cases "i \<in> set (need d)")
        case True
        have "unmet ord (need d) \<noteq> 0" using True unmet_count[OF i(2), of "need d"] count_list_0_iff[of "need d" i] by auto
        then have "d \<notin> set (ord @ ready)" using member[of d] by simp
        then show ?thesis using zs[of d] True Cons by auto
      next
        case False
        then have "unmet (ord @ [i]) (need d) = unmet ord (need d)" using unmet_snoc[OF i(2), of "need d"] by simp
        moreover have "d \<in> set (ord @ ready) \<longleftrightarrow> d < n \<and> unmet ord (need d) = 0" using member[of d] by simp
        ultimately show ?thesis using zs[of d] False Cons by auto
      qed
      then show "set ((ord @ [i]) @ rest @ zs) = {d. d < n \<and> unmet (ord @ [i]) (need d) = 0}" by blast
      have "set (need i) \<subseteq> set ord" using i(3) by (auto simp: unmet_def filter_empty_conv)
      then show "\<forall>k < length (ord @ [i]). set (need ((ord @ [i]) ! k)) \<subseteq> set (take k (ord @ [i]))"
        using inv by (auto simp: nth_append less_Suc_eq)
    qed
    moreover have "length ord < n"
    proof -
      have "set (i # ord) \<subseteq> {..<n}" "distinct (i # ord)" using inv i by auto
      then have "length (i # ord) \<le> n" by (metis card_lessThan card_mono distinct_card finite_lessThan)
      then show ?thesis by simp
    qed
    ultimately show ?thesis
      using less.hyps[of "ord @ [i]" missing' "rest @ zs"] rel(1) Cons by (subst order_loop.simps) simp
  qed
qed


section \<open>The order\<close>

lemma batch_slots_less:
  assumes "hm_get (batch_slots rs) t = Some j"
  shows "j < length rs"
proof -
  have "hm_get (fold (\<lambda>(i, r) m. case r of RegTask t \<Rightarrow> hm_put (reg_id t) i m | RegFolder _ \<Rightarrow> m) xs m) t = Some j \<Longrightarrow>
      j \<in> fst ` set xs \<or> hm_get m t = Some j" for xs m
    by (induction xs arbitrary: m) (fastforce split: registration.splits if_splits)+
  from this[of "enumerate 0 rs" "[]"] show ?thesis
    using assms by (auto simp: batch_slots_def in_set_enumerate_eq)
qed

lemma slots_needed_less: "j \<in> set (slots_needed rs i) \<Longrightarrow> j < length rs"
  using batch_slots_less[of rs _ j] by (auto simp: slots_needed_def List.map_filter_def split: task_selector.splits)

lemma slots_needed_folder: "is_folder_registration (rs ! i) \<Longrightarrow> slots_needed rs i = []"
  by (cases "rs ! i") (simp_all add: slots_needed_def List.map_filter_def)

lemma count_replicate: "count_list (replicate n x) y = (if x = y then n else 0)"
  by (induction n) auto

lemma slot_dependents_count:
  "count_list (slot_dependents rs j) i = (if i < length rs then count_list (slots_needed rs i) j else 0)"
proof -
  have "count_list (concat (map (\<lambda>i. replicate (f i) i) xs)) i = (if i \<in> set xs then f i else 0)"
    if "distinct xs" for f :: "nat \<Rightarrow> nat" and xs
    using that by (induction xs) (auto simp: count_replicate)
  then show ?thesis by (simp add: slot_dependents_def)
qed

text \<open>Nothing needed is missing: the slots are all in the order, before what needs them.\<close>

lemma batch_order_total:
  "\<exists>order done_n. batch_order rs = Some order \<and> distinct order \<and> set order = {..<length rs} \<and> done_n \<le> length order \<and>
     (\<forall>k < length order. if k < done_n then set (slots_needed rs (order ! k)) \<subseteq> set (take k order)
        else \<not> set (slots_needed rs (order ! k)) \<subseteq> set (take done_n order))"
proof -
  let ?n = "length rs" and ?need = "slots_needed rs"
  let ?missing = "map (\<lambda>i. length (?need i)) [0..<?n]"
  let ?ready = "filter (\<lambda>i. is_folder_registration (rs ! i)) [0..<?n] @
    filter (\<lambda>i. ?missing ! i = 0) (filter (\<lambda>i. \<not> is_folder_registration (rs ! i)) [0..<?n])"
  have "order_inv ?n ?need ?missing ?ready []"
    unfolding order_inv_def by (auto simp: unmet_def slots_needed_folder)
  from order_loop_spec[OF this slot_dependents_count]
  obtain ord' missing' where loop: "order_loop (slot_dependents rs) ?missing ?ready [] = Some (ord', missing')"
      and inv: "order_inv ?n ?need missing' [] ord'" by blast
  define left where "left = filter (\<lambda>i. missing' ! i > 0) [0..<?n]"
  have order: "batch_order rs = Some (ord' @ left)" using loop by (simp add: batch_order_def left_def)
  have inv': "distinct ord'" "\<forall>i < ?n. missing' ! i = unmet ord' (?need i)"
    "\<forall>k < length ord'. set (?need (ord' ! k)) \<subseteq> set (take k ord')"
    using inv unfolding order_inv_def by simp_all
  have out: "i \<in> set ord' \<longleftrightarrow> i < ?n \<and> unmet ord' (?need i) = 0" for i
  proof -
    have "set (ord' @ []) = {i. i < ?n \<and> unmet ord' (?need i) = 0}" using inv unfolding order_inv_def by blast
    then show ?thesis by auto
  qed
  have left: "i \<in> set left \<longleftrightarrow> i < ?n \<and> unmet ord' (?need i) \<noteq> 0" for i
  proof -
    have "i \<in> set left \<longleftrightarrow> i < ?n \<and> missing' ! i > 0" by (auto simp only: left_def set_filter set_upt mem_Collect_eq atLeastLessThan_iff)
    then show ?thesis using inv'(2)[rule_format, of i] by linarith
  qed
  have "distinct left" by (simp add: left_def)
  then have "distinct (ord' @ left)" using inv'(1) out left by (simp only: distinct_append) blast
  moreover have "set (ord' @ left) = {..<?n}" using out left by (simp only: set_append) blast
  moreover have "if k < length ord' then set (?need ((ord' @ left) ! k)) \<subseteq> set (take k (ord' @ left))
      else \<not> set (?need ((ord' @ left) ! k)) \<subseteq> set (take (length ord') (ord' @ left))"
    if k: "k < length (ord' @ left)" for k
  proof (cases "k < length ord'")
    case True
    then show ?thesis using inv'(3) by (simp add: nth_append)
  next
    case False
    then have "(ord' @ left) ! k \<in> set left" using k by (simp add: nth_append)
    then have "unmet ord' (?need ((ord' @ left) ! k)) \<noteq> 0" using left by blast
    then show ?thesis using False by (auto simp: unmet_def filter_empty_conv)
  qed
  moreover have "length ord' \<le> length (ord' @ left)" by simp
  ultimately show ?thesis using order by blast
qed

end
