(* ===== verification/Kernel_Changes.thy ===== *)
theory Kernel_Changes
  imports Kernel_Removal Batch_Order
begin

text \<open>
  The rest of what adds and changes tasks and folders keeps the graph good: labels, origins,
  moves, subscriptions and folders touch no count, cache, state or timer; a new definition takes
  hold of a task that is idle only; new deps are checked against what they need, so no cycle
  closes; and a batch is its registrations one after the other.
\<close>

section \<open>Names, folders and subscriptions\<close>

lemma same_run_writes [simp]:
  "same_run v (v\<lparr>h_label := l\<rparr>)" "same_run v (v\<lparr>h_path := p\<rparr>)" "same_run v (v\<lparr>h_origin := s\<rparr>)"
  "same_run v (v\<lparr>h_spec := sp, h_next := nx, h_label := l\<rparr>)"
  using has_timer_fields[of "v\<lparr>h_label := l\<rparr>" v] filed_fields[of "v\<lparr>h_label := l\<rparr>" v]
    has_timer_fields[of "v\<lparr>h_path := p\<rparr>" v] filed_fields[of "v\<lparr>h_path := p\<rparr>" v]
    has_timer_fields[of "v\<lparr>h_origin := s\<rparr>" v] filed_fields[of "v\<lparr>h_origin := s\<rparr>" v]
    has_timer_fields[of "v\<lparr>h_spec := sp, h_next := nx, h_label := l\<rparr>" v]
    filed_fields[of "v\<lparr>h_spec := sp, h_next := nx, h_label := l\<rparr>" v]
  by (simp_all add: same_run_def core_same_def satisfied_cases handle_ok_def lawful_def)

lemma good_upd_same_good:
  assumes "good g" "\<And>h. hview (f h) = f (hview h)" "\<And>v. handle_ok v \<Longrightarrow> same_run v (f v)"
  shows "good (upd_task i f g)"
  using good_upd_same[of "{}" "{}" g f i] assms by (simp add: good_def)

lemma good_good_updates [simp]:
  "good (g\<lparr>ns := nn\<rparr>) = good g" "good (g\<lparr>folders := fs\<rparr>) = good g" "good (g\<lparr>state_changed := b\<rparr>) = good g"
  "good (g\<lparr>next_task_id := n\<rparr>) = good g" "good (g\<lparr>waits := w\<rparr>) = good g" "good (g\<lparr>active_watches := aw\<rparr>) = good g"
  "good (g\<lparr>frozen := f\<rparr>) = good g" "good (g\<lparr>freezes := nf\<rparr>) = good g" "good (g\<lparr>timer_changes := tc\<rparr>) = good g"
  "good (g\<lparr>ns := nn, state_changed := b\<rparr>) = good g" "good (g\<lparr>now := t, closed := cl\<rparr>) = good g"
  "good (send_cmd i c g) = good g" "good (deliver i nt ts g) = good g" "good (send_reply ch r g) = good g"
  "good (notify_subscribers i s p nt g) = good g" "good (notify_changed i g) = good g"
  by (rule good_core_iff, simp)+

lemma good_set_task_label: "good g \<Longrightarrow> good (set_task_label i l g)"
proof (cases "task_at g i")
  case (Some h)
  assume inv: "good g"
  have "good (upd_task i (\<lambda>h. h\<lparr>h_spec := map_option (spec_set_label l) (h_spec h),
      h_next := map_option (\<lambda>n. n\<lparr>nr_spec := map_option (spec_set_label l) (nr_spec n)\<rparr>) (h_next h), h_label := l\<rparr>) g)"
    by (rule good_upd_same_good[OF inv]) (simp_all add: hview_def)
  then show ?thesis using inv Some by (simp add: set_task_label_def)
qed (simp add: set_task_label_def)

lemma good_set_origin: "good g \<Longrightarrow> good (set_origin i origin g)"
proof (cases "task_at g i")
  case (Some h)
  assume inv: "good g"
  have "good (upd_task i (\<lambda>h. h\<lparr>h_origin := origin\<rparr>) g)"
    by (rule good_upd_same_good[OF inv]) (simp_all add: hview_def)
  then have "good (set_tags i (h_tags h) (upd_task i (\<lambda>h. h\<lparr>h_origin := origin\<rparr>) g))"
    unfolding good_def by (rule good_set_tags)
  then show ?thesis using inv Some by (simp add: set_origin_def)
qed (simp add: set_origin_def)

lemma good_repath: "good g \<Longrightarrow> good (repath m g)"
  unfolding repath_def by (auto intro!: good_upd_same_good simp: hview_def)

lemma good_announce_move: "good (announce_move sp m g) = good g"
  by (simp add: announce_move_def Let_def split: option.splits)

lemma good_folds: "good g \<Longrightarrow> (\<And>x g. good g \<Longrightarrow> good (f x g)) \<Longrightarrow> good (fold f xs g)"
  by (induction xs arbitrary: g) auto

lemma good_move_tasks: "good g \<Longrightarrow> move_tasks req g = Some (Inr (n, g')) \<Longrightarrow> good g'"
proof -
  assume inv: "good g" and mv: "move_tasks req g = Some (Inr (n, g'))"
  then obtain ms nn where g': "g' = fold (announce_move (mv_space req)) ms
      (fold repath ms (g\<lparr>ns := nn, state_changed := state_changed g \<or> ms \<noteq> []\<rparr>))"
    by (auto simp: move_tasks_def Let_def split: option.splits sum.splits)
  have "good (fold repath ms (g\<lparr>ns := nn, state_changed := state_changed g \<or> ms \<noteq> []\<rparr>))"
    by (rule good_folds) (use inv good_repath in simp_all)
  then show ?thesis unfolding g' by (rule good_folds) (simp add: good_announce_move)
qed

lemma good_register_folder: "good g \<Longrightarrow> register_folder d g = Some (e, g') \<Longrightarrow> good g'"
  by (auto simp: register_folder_def Let_def split: if_splits option.splits prod.splits)

lemma good_remove_folder: "good g \<Longrightarrow> good (snd (remove_folder i g))"
  by (simp add: remove_folder_def split: option.splits)

lemma good_set_folder: "good g \<Longrightarrow> good (snd (set_folder i s g))"
  by (simp add: set_folder_def)

lemma good_subscribe: "good g \<Longrightarrow> good (subscribe s key m g)"
  unfolding subscribe_def Let_def by (rule good_folds) (auto split: option.splits)

lemma good_unsubscribe: "good g \<Longrightarrow> good (unsubscribe s key m g)"
  by (simp add: unsubscribe_def)

section \<open>Batches\<close>

fun registration_ok :: "registration \<Rightarrow> bool" where
  "registration_ok (RegTask r) = (reg_id r \<noteq> init_task_id)"
| "registration_ok (RegFolder d) = True"

definition entry_ok :: "snap_task option \<times> registration \<Rightarrow> bool" where
  "entry_ok e = (saved_ok (fst e) \<and> registration_ok (snd e))"

lemma good_register_one:
  "good g \<Longrightarrow> entry_ok (saved, r) \<Longrightarrow> register_one saved r g = Some (e, g') \<Longrightarrow> good g'"
  by (auto simp: register_one_def entry_ok_def intro: good_register good_register_folder split: registration.splits)

lemma good_register_in_order:
  assumes "good g" "\<forall>x \<in> set batch. case x of None \<Rightarrow> True | Some en \<Rightarrow> entry_ok en" "set order \<subseteq> {..<length batch}"
    "register_in_order order batch results g = Some (rs, g')"
  shows "good g'"
  using assms
proof (induction order batch results g arbitrary: rs g' rule: register_in_order.induct)
  case (2 i order batch results g)
  obtain saved r where b: "batch ! i = Some (saved, r)" using "2.prems"(4) by (auto split: option.splits)
  obtain e g1 where one: "register_one saved r g = Some (e, g1)" and
    rest: "register_in_order order (batch[i := None]) (results[i := e]) g1 = Some (rs, g')"
    using "2.prems"(4) b by (auto simp: bind_eq_Some_conv)
  have "Some (saved, r) \<in> set batch" using b "2.prems"(3) by (metis insert_subset lessThan_iff list.simps(15) nth_mem)
  then have "entry_ok (saved, r)" using "2.prems"(2) by (metis option.simps(5))
  then have "good g1" using good_register_one[OF "2.prems"(1) _ one] by simp
  moreover have "\<forall>x \<in> set (batch[i := None]). case x of None \<Rightarrow> True | Some en \<Rightarrow> entry_ok en"
    using "2.prems"(2) set_update_subset_insert[of batch i None] by auto
  ultimately show ?case using "2.IH"[OF b refl one refl _ _ _ rest] "2.prems"(3) by simp
qed simp


lemma good_register_tasks:
  assumes inv: "good g" and ok: "list_all entry_ok batch" and r: "register_tasks batch g = Some (results, g')"
  shows "good g'"
proof -
  let ?places = "map registration_key (map snd batch)"
  have "\<exists>n order rs g1 n'. batch_order (map snd batch) = Some order \<and>
      register_in_order order (map Some batch) (map (\<lambda>_. None) batch) (g\<lparr>ns := n\<rparr>) = Some (rs, g1) \<and> g' = g1\<lparr>ns := n'\<rparr>"
    using r by (auto simp: register_tasks_def Let_def bind_eq_Some_conv) blast
  then obtain n order rs g1 n' where order: "batch_order (map snd batch) = Some order"
      and run: "register_in_order order (map Some batch) (map (\<lambda>_. None) batch) (g\<lparr>ns := n\<rparr>) = Some (rs, g1)"
      and g': "g' = g1\<lparr>ns := n'\<rparr>" by blast
  have "set order = {..<length (map snd batch)}" using batch_order_total[of "map snd batch"] order by auto
  then have "good g1"
    by (intro good_register_in_order[OF _ _ _ run]) (use inv ok in \<open>auto simp: list_all_iff\<close>)
  then show ?thesis using g' by auto
qed

section \<open>New definitions\<close>

lemma same_run_redefine: "handle_ok v \<Longrightarrow> same_run v (redefine u v)"
proof -
  assume ok: "handle_ok v"
  let ?w = "redefine u v"
  have fields: "h_state ?w = h_state v" "h_deadline ?w = h_deadline v" "h_start_failed ?w = h_start_failed v"
    "h_killed ?w = h_killed v" "h_stop_timed_out ?w = h_stop_timed_out v"
    "h_wanted ?w = h_wanted v" "h_supported ?w = h_supported v" "h_vetoed ?w = h_vetoed v"
    "h_wanted_parents ?w = h_wanted_parents v" "h_active_dependents ?w = h_active_dependents v"
    by (simp_all add: redefine_def adopt_def Let_def)
  have kept: "h_kind ?w = h_kind v" "h_ready ?w = h_ready v" if "h_state v \<noteq> Idle"
    using that by (simp_all add: redefine_def Let_def)
  show ?thesis
  proof (cases "h_state v = Idle")
    case True
    then show ?thesis using ok fields
      by (auto simp: same_run_def core_same_def satisfied_cases handle_ok_def lawful_def has_timer_def filed_def)
  next
    case False
    note k = kept[OF False]
    show ?thesis using fields k has_timer_fields[OF fields(1) k(2)] filed_fields[OF fields(1) k(1)]
      by (simp add: same_run_def core_same_def satisfied_cases handle_ok_def lawful_def)
  qed
qed

lemma hview_redefine: "hview (redefine u h) = redefine u (hview h)"
  by (simp add: redefine_def adopt_def hview_def Let_def)

text \<open>Edges to tasks that do not lead back: the check of \<open>resolve_new_deps\<close>, kept as edges come.\<close>

definition leads_none :: "nat set \<Rightarrow> nat set \<Rightarrow> graph \<Rightarrow> bool" where
  "leads_none ds us g \<longleftrightarrow> (\<forall>d \<in> ds - {init_task_id}. \<forall>i \<in> us. (d, i) \<notin> (edge_set g)\<^sup>*)"

lemma leads_none_mono: "leads_none ds us g \<Longrightarrow> edge_set g' \<subseteq> edge_set g \<Longrightarrow> leads_none ds us g'"
  unfolding leads_none_def by (meson rtrancl_mono subsetD)

lemma leads_none_insert:
  assumes "leads_none ds us g" "a \<in> us" "edge_set g' \<subseteq> insert (a, b) (edge_set g)"
  shows "leads_none ds us g'"
  unfolding leads_none_def
proof (intro ballI notI)
  fix d i
  assume d: "d \<in> ds - {init_task_id}" and i: "i \<in> us" and p: "(d, i) \<in> (edge_set g')\<^sup>*"
  then have "(d, i) \<in> (insert (a, b) (edge_set g))\<^sup>*" using assms(3) rtrancl_mono by blast
  then have "(d, i) \<in> (edge_set g)\<^sup>* \<or> (d, a) \<in> (edge_set g)\<^sup>*" by (simp add: rtrancl_insert) blast
  then show False using assms(1,2) d i by (auto simp: leads_none_def)
qed

lemma leads_none_pin:
  assumes "leads_none ds us g" "graph_ok g" "edge_set g' \<subseteq> insert (init_task_id, b) (edge_set g)"
  shows "leads_none ds us g'"
  unfolding leads_none_def
proof (intro ballI notI)
  fix d i
  assume d: "d \<in> ds - {init_task_id}" and i: "i \<in> us" and p: "(d, i) \<in> (edge_set g')\<^sup>*"
  then have "(d, i) \<in> (insert (init_task_id, b) (edge_set g))\<^sup>*" using assms(3) rtrancl_mono by blast
  then have "(d, i) \<in> (edge_set g)\<^sup>* \<or> (d, init_task_id) \<in> (edge_set g)\<^sup>*" by (simp add: rtrancl_insert) blast
  then show False using assms(1) no_edge_into_init[OF assms(2), of d] d i by (auto simp: leads_none_def)
qed

lemma good_add_checked:
  assumes "good g" "leads_none ds us g" "i \<in> us" "set deps \<subseteq> ds"
  shows "good (fold (add_edge i) deps g) \<and> leads_none ds us (fold (add_edge i) deps g)"
  using assms
proof (induction deps arbitrary: g)
  case (Cons d deps)
  have "good (add_edge i d g) \<and> leads_none ds us (add_edge i d g)"
  proof
    show "good (add_edge i d g)"
    proof (cases "d = init_task_id")
      case True
      then show ?thesis using Cons.prems(1) by (simp add: add_edge_def)
    next
      case False
      then have "(d, i) \<notin> (edge_set g)\<^sup>*" using Cons.prems(2-4) by (auto simp: leads_none_def)
      then show ?thesis using good_add_edge[OF goodD[OF Cons.prems(1)]] by (simp add: good_def)
    qed
    show "leads_none ds us (add_edge i d g)"
      using leads_none_insert[OF Cons.prems(2,3) edge_set_add] .
  qed
  then show ?case using Cons.IH Cons.prems(3,4) by simp
qed simp

lemma good_fold_remove_edge:
  "good g \<Longrightarrow> leads_none ds us g \<Longrightarrow>
   good (fold (remove_edge i) xs g) \<and> leads_none ds us (fold (remove_edge i) xs g)"
proof (induction xs arbitrary: g)
  case (Cons x xs)
  have "good (remove_edge i x g)" using good_remove_edge[OF goodD[OF Cons.prems(1)]] by (simp add: good_def)
  then show ?case using Cons.IH leads_none_mono[OF Cons.prems(2) edge_set_remove] by simp
qed simp


text \<open>What the verbs of a restart do to the edges: a pin at most.\<close>

lemma deps_of_upd [simp]: "deps_of (upd_task i f g) = deps_of g"
  by simp

lemma deps_of_demand: "deps_of (demand i b g) = deps_of g"
proof -
  have one: "deps_of (demand_one t r j g) = deps_of g" for t r j and g :: graph
    by (simp add: demand_one_def Let_def split: option.splits task_state.splits)
  have "deps_of (fold (demand_one t r) xs g) = deps_of g" for t r xs and g :: graph
    by (induction xs arbitrary: g) (simp_all add: one)
  then show ?thesis by (simp add: demand_def)
qed

lemma deps_of_stop_if_active: "stop_if_active i g = Some g' \<Longrightarrow> deps_of g' = deps_of g"
proof -
  assume "stop_if_active i g = Some g'"
  moreover have "deps_of g' = deps_of g" if "stop_task i False g = Some g'"
    using that by (auto simp: stop_task_def Let_def split: option.splits)
  ultimately show ?thesis by (auto simp: stop_if_active_def split: option.splits task_state.splits)
qed

lemma edge_set_set_pin: "edge_set (set_pin i True g) \<subseteq> insert (init_task_id, i) (edge_set g)"
proof -
  have "edge_set (upd_task i f g) = edge_set g" for f by (rule edge_set_cong) simp
  then show ?thesis using edge_set_add[of init_task_id i "upd_task i (\<lambda>h. h\<lparr>h_saved_pin := False\<rparr>) g"]
    by (simp add: set_pin_def Let_def)
qed

lemma edge_set_cmd_restart:
  assumes "cmd_restart i g = Some g'"
  shows "edge_set g' \<subseteq> insert (init_task_id, i) (edge_set g)"
proof -
  have "deps_of g' = deps_of (set_pin i True g)"
    using deps_of_stop_if_active[OF assms[unfolded cmd_restart_def]] by (simp add: cmd_start_def deps_of_demand)
  then show ?thesis using edge_set_set_pin edge_set_cong by metis
qed

lemma good_update_task:
  assumes inv: "good g" and none: "leads_none ds us g" and i: "i \<in> us" "set deps \<subseteq> ds"
  shows "\<exists>g'. update_task i deps u g = Some g' \<and> good g' \<and> leads_none ds us g'"
proof (cases "task_at g i")
  case None
  then show ?thesis using assms by (simp add: update_task_def)
next
  case (Some h)
  define g1 where "g1 = (upd_task i (redefine u) g)\<lparr>state_changed := True\<rparr>"
  define g2 where "g2 = set_tags i (tu_tags u) g1"
  define g3 where "g3 = fold (remove_edge i) (filter (\<lambda>d. d \<notin> set deps) (deps_of g2 i)) g2"
  define g4 where "g4 = fold (add_edge i) deps g3"
  define g5 where "g5 = enqueue i (notify_changed i g4)"
  have good1: "good g1"
    using good_upd_same_good[of g "redefine u" i] inv hview_redefine same_run_redefine by (simp add: g1_def)
  have good2: "good g2" using good_set_tags[OF goodD[OF good1]] by (simp add: g2_def good_def)
  have "edge_set g2 = edge_set g" by (rule edge_set_cong) (simp add: g2_def g1_def)
  then have none2: "leads_none ds us g2" using none by (simp add: leads_none_def)
  have three: "good g3 \<and> leads_none ds us g3" using good_fold_remove_edge[OF good2 none2] by (simp add: g3_def)
  have four: "good g4 \<and> leads_none ds us g4" using good_add_checked[of g3 ds us i deps] three i by (simp add: g4_def)
  have good5: "good g5" using four by (simp add: g5_def good_def)
  have "edge_set g5 = edge_set g4" by (rule edge_set_cong) (simp add: g5_def)
  then have none5: "leads_none ds us g5" using four by (simp add: leads_none_def)
  have "dom (vw g5) = dom (vw g)"
  proof -
    have adds: "dom (vw (fold (add_edge a) xs g)) = dom (vw g)" for a xs and g :: graph
      by (induction xs arbitrary: g) (simp_all add: add_edge_def Let_def)
    have rems: "dom (vw (fold (remove_edge a) xs g)) = dom (vw g)" for a xs and g :: graph
      by (induction xs arbitrary: g) (simp_all add: remove_edge_def Let_def)
    have tags: "dom (vw (set_tags i ts g)) = dom (vw g)" for ts and g :: graph
      using core_fields(1)[OF core_index_tags] core_fields(1)[OF core_unindex_tags]
      by (simp add: set_tags_def Let_def split: option.splits)
    show ?thesis by (simp add: g5_def g4_def g3_def g2_def g1_def adds rems tags)
  qed
  moreover have "i \<in> dom (vw g)" using Some by (simp add: vw_def dom_def)
  ultimately obtain h5 where h5: "task_at g5 i = Some h5" by (auto simp: vw_def dom_def)
  have eq: "update_task i deps u g =
      (if tu_restart_running u then if is_active (h_state h5) then cmd_restart i g5 else Some g5 else Some g5)"
    using Some h5
    by (simp add: update_task_def Let_def g1_def[symmetric] g2_def[symmetric] g3_def[symmetric] g4_def[symmetric] g5_def[symmetric])
  obtain g6 where g6: "cmd_restart i g5 = Some g6" "good g6" using good_cmd_restart[OF good5] by blast
  have "leads_none ds us g6"
    by (rule leads_none_pin[OF none5 good_graph[OF goodD[OF good5]] edge_set_cmd_restart[OF g6(1)]])
  then show ?thesis using eq g6 good5 none5 by (auto split: if_splits)
qed

end
