(* ===== verification/Kernel_Reads.thy ===== *)
theory Kernel_Reads
  imports Kernel_Register
begin

text \<open>
  What the kernel answers (\<open>src/src/kernel/kernel.rs\<close>): the listings and explanations, and the
  waits, which report how a fixed set of tasks stands until their verdict is in.
\<close>

section \<open>Listings\<close>

text \<open>\<open>ListKey\<close>: pathless prev; then by space and the place in it, or by id.\<close>

type_synonym list_key = "bool \<times> (task_space_id \<times> nat list) option \<times> nat"

definition list_key :: "graph \<Rightarrow> nat \<Rightarrow> list_key" where
  "list_key g i =
     (let plc = (case task_at g i of
          None \<Rightarrow> None
        | Some h \<Rightarrow>
            Option.bind (h_path h) (\<lambda>p. map_option (Pair (h_space h)) (ns_position (ns g) (h_space h) p)))
      in (plc = None, plc, i))"

definition task_info_of :: "graph \<Rightarrow> nat \<Rightarrow> task_info option" where
  "task_info_of g i =
     map_option (\<lambda>h.
       \<lparr>ti_id = i, ti_space = h_space h, ti_path = h_path h, ti_label = h_label h, ti_kind = h_kind h,
        ti_state = h_state h, ti_reason = handle_reason h, ti_vt = h_vt h\<rparr>) (task_at g i)"

definition name_of :: "graph \<Rightarrow> nat \<Rightarrow> string" where
  "name_of g i =
     (case task_at g i of
        Some h \<Rightarrow> task_name i (h_space h) (h_path h)
      | None \<Rightarrow> task_name i default_space None)"

definition def_spec :: "graph \<Rightarrow> nat \<Rightarrow> task_spec option" where
  "def_spec g i =
     Option.bind (task_at g i) (\<lambda>h. map_option
       (spec_set_deps (List.map_filter (\<lambda>d. Option.bind (task_at g d)
          (\<lambda>t. map_option (\<lambda>p. task_key_str (task_key_new (h_space t) p)) (h_path t))) (deps_of g i)))
       (handle_def_spec h))"

definition describe :: "graph \<Rightarrow> nat \<Rightarrow> task_description option" where
  "describe g i =
     Option.bind (task_at g i) (\<lambda>h. map_option
       (\<lambda>info. \<lparr>td_info = info, td_spec = def_spec g i, td_origin = h_origin h\<rparr>) (task_info_of g i))"

definition folder_infos :: "graph \<Rightarrow> task_space_id \<Rightarrow> folder_info list" where
  "folder_infos g sp =
     map snd (sort_key fst (map (\<lambda>(i, f).
       (unwrap_or [] (ns_position (ns g) sp (fo_path f)),
        \<lparr>fi_id = i, fi_space = fo_space f, fi_path = fo_path f,
         fi_after = ns_before (ns g) (task_key_new sp (fo_path f)), fi_settings = fo_settings f\<rparr>))
       (filter (\<lambda>(_, f). fo_space f = sp) (folders g))))"

definition list_tasks :: "graph \<Rightarrow> task_selector \<Rightarrow> task_info list" where
  "list_tasks g sel =
     sort_key (\<lambda>t. list_key g (ti_id t)) (List.map_filter (task_info_of g) (matching_ids g sel))"

definition explain :: "graph \<Rightarrow> nat \<Rightarrow> task_explain option" where
  "explain g i =
     map_option (\<lambda>h.
       \<lparr>te_id = i, te_name = name_of g i, te_state = h_state h, te_reason = handle_reason h,
        te_wanted = h_wanted h, te_supported = h_supported h, te_vetoed = h_vetoed h,
        te_pinned = (init_task_id \<in> set (requirers_of g i)), te_saved_pin = h_saved_pin h,
        te_required_by = map (name_of g) (sort_key (list_key g) (filter (\<lambda>p. p \<noteq> init_task_id) (requirers_of g i))),
        te_deps = map (\<lambda>d.
          let t = task_at g d
          in \<lparr>de_name = name_of g d, de_state = (case t of None \<Rightarrow> Idle | Some t \<Rightarrow> h_state t),
              de_reason = Option.bind t handle_reason, de_wanted = (case t of None \<Rightarrow> False | Some t \<Rightarrow> h_wanted t),
              de_satisfied = (case t of None \<Rightarrow> False | Some t \<Rightarrow> is_satisfied t)\<rparr>)
          (sort_key (list_key g) (deps_of g i)),
        te_attempts = h_attempts h\<rparr>) (task_at g i)"

fun handle_query :: "kernel_query \<Rightarrow> graph \<Rightarrow> graph" where
  "handle_query (ListTasks sel ch) g = send_reply ch (TasksReply (list_tasks g sel)) g"
| "handle_query (ExplainTasks sel ch) g =
     send_reply ch (ExplainReply (List.map_filter (explain g) (matching_ids g sel))) g"
| "handle_query (ListFolders sp ch) g = send_reply ch (FoldersReply (folder_infos g sp)) g"
| "handle_query (DescribeTasks sel ch) g =
     send_reply ch (DescribeReply (List.map_filter (describe g) (sort_key (list_key g) (matching_ids g sel)))) g"

section \<open>Liveness\<close>

text \<open>
  \<open>is_live\<close> and its answers so far. The recursion follows the edges and is not bounded by
  itself: it may not end.
\<close>

type_synonym live_memo = "(nat, bool) hm"

definition satisfied_at :: "graph \<Rightarrow> nat \<Rightarrow> bool" where
  "satisfied_at g i = (case task_at g i of None \<Rightarrow> False | Some h \<Rightarrow> is_satisfied h)"

definition may_run :: "graph \<Rightarrow> nat \<Rightarrow> bool" where
  "may_run g i = (case task_at g i of None \<Rightarrow> False | Some h \<Rightarrow> h_wanted h \<and> \<not> has_ended h)"

partial_function (option) all_live :: "graph \<Rightarrow> nat list \<Rightarrow> live_memo \<Rightarrow> (bool \<times> live_memo) option" where
  "all_live g ids memo =
     (case ids of
        [] \<Rightarrow> Some (True, memo)
      | d # ds \<Rightarrow>
          if satisfied_at g d then all_live g ds memo
          else Option.bind
            (case hm_get memo d of
               Some l \<Rightarrow> Some (l, memo)
             | None \<Rightarrow>
                 Option.bind (if may_run g d then all_live g (deps_of g d) memo else Some (False, memo))
                   (\<lambda>(l, m). Some (l, hm_put d l m)))
            (\<lambda>(l, m). if l then all_live g ds m else Some (False, m)))"

declare all_live.simps [code]

definition is_live :: "graph \<Rightarrow> nat \<Rightarrow> live_memo \<Rightarrow> (bool \<times> live_memo) option" where
  "is_live g i memo =
     (case hm_get memo i of
        Some l \<Rightarrow> Some (l, memo)
      | None \<Rightarrow>
          Option.bind (if may_run g i then all_live g (deps_of g i) memo else Some (False, memo))
            (\<lambda>(l, m). Some (l, hm_put i l m)))"

lemma all_live_simps [simp]:
  "all_live g [] memo = Some (True, memo)"
  "all_live g (d # ds) memo =
     (if satisfied_at g d then all_live g ds memo
      else Option.bind (is_live g d memo) (\<lambda>(l, m). if l then all_live g ds m else Some (False, m)))"
  by (subst all_live.simps, simp add: is_live_def)+

text \<open>The first of some deps that is neither satisfied nor live.\<close>

fun first_dead :: "graph \<Rightarrow> nat list \<Rightarrow> live_memo \<Rightarrow> (nat option \<times> live_memo) option" where
  "first_dead g [] memo = Some (None, memo)"
| "first_dead g (d # ds) memo =
     (if satisfied_at g d then first_dead g ds memo
      else Option.bind (is_live g d memo)
        (\<lambda>(l, m). if l then first_dead g ds m else Some (Some d, m)))"

partial_function (option) dead_root :: "graph \<Rightarrow> nat \<Rightarrow> live_memo \<Rightarrow> (nat \<times> live_memo) option" where
  "dead_root g i memo =
     (if \<not> may_run g i then Some (i, memo)
      else Option.bind (first_dead g (sort_key (list_key g) (deps_of g i)) memo)
        (\<lambda>(dead, m). case dead of None \<Rightarrow> Some (i, m) | Some d \<Rightarrow> dead_root g d m))"

declare dead_root.simps [code]

section \<open>Waits\<close>

definition ended_badly :: "task_handle \<Rightarrow> bool" where
  "ended_badly h =
     (case h_state h of
        Exited i \<Rightarrow> \<not> exit_success i
      | Backoff i \<Rightarrow> \<not> exit_success i
      | Idle \<Rightarrow> h_stop_timed_out h \<or> h_wanted h
      | _ \<Rightarrow> False)"

definition wait_mark_of :: "wait_cond \<Rightarrow> task_handle \<Rightarrow> bool \<Rightarrow> wait_mark" where
  "wait_mark_of cond h live_now =
     (case cond of
        WaitReady \<Rightarrow> if is_satisfied h then Met else if \<not> live_now then Failed else Pending
      | WaitExit \<Rightarrow>
          if is_active (h_state h) \<or> live_now then Pending else if ended_badly h then Failed else Met
      | WaitDown \<Rightarrow>
          if live_now then Failed else if is_active (h_state h) then Pending
          else if h_stop_timed_out h then Failed else Met)"

definition wait_standing :: "graph \<Rightarrow> wait_cond \<Rightarrow> nat \<Rightarrow> live_memo \<Rightarrow> (standing \<times> live_memo) option" where
  "wait_standing g cond i memo =
     (case task_at g i of
        None \<Rightarrow> Some (\<lparr>sd_mark = (if cond = WaitReady then Failed else Met), sd_removed = True\<rparr>, memo)
      | Some h \<Rightarrow>
          map_option (\<lambda>(l, m). (\<lparr>sd_mark = wait_mark_of cond h l, sd_removed = False\<rparr>, m)) (is_live g i memo))"

definition wait_task_same :: "graph \<Rightarrow> wait_task \<Rightarrow> nat \<Rightarrow> standing \<Rightarrow> bool" where
  "wait_task_same g prev i sd =
     (wt_mark prev = sd_mark sd \<and> wt_removed prev = sd_removed sd \<and>
      (case task_at g i of
         None \<Rightarrow> True
       | Some h \<Rightarrow>
           ti_state (wt_info prev) = h_state h \<and> ti_reason (wt_info prev) = handle_reason h \<and>
           ti_path (wt_info prev) = h_path h \<and> ti_label (wt_info prev) = h_label h))"

definition gone_info :: "nat \<Rightarrow> task_info" where
  "gone_info i =
     \<lparr>ti_id = i, ti_space = default_space, ti_path = None, ti_label = None, ti_kind = Service,
      ti_state = Idle, ti_reason = None, ti_vt = None\<rparr>"

definition wait_task_of ::
  "graph \<Rightarrow> wait_cond \<Rightarrow> nat \<Rightarrow> wait_task option \<Rightarrow> standing \<Rightarrow> live_memo \<Rightarrow> (wait_task \<times> live_memo) option" where
  "wait_task_of g cond i prev sd memo =
     (if sd_removed sd
      then Some (\<lparr>wt_info = (case prev of Some t \<Rightarrow> wt_info t | None \<Rightarrow> gone_info i), wt_mark = sd_mark sd,
                  wt_blocked_by = None, wt_removed = True, wt_why = None\<rparr>, memo)
      else
        do {
          (blocked, m) \<leftarrow>
            (if cond \<noteq> WaitDown \<and> sd_mark sd = Failed
             then map_option (\<lambda>(root, m). (if root \<noteq> i then Some (name_of g root) else None, m)) (dead_root g i memo)
             else Some (None, memo));
          info \<leftarrow> task_info_of g i;
          Some (\<lparr>wt_info = info, wt_mark = sd_mark sd, wt_blocked_by = blocked, wt_removed = False, wt_why = None\<rparr>, m)
        })"

definition verdict_of :: "wait_cond \<Rightarrow> standing list \<Rightarrow> wait_verdict option" where
  "verdict_of cond sds =
     (let failed = list_ex (\<lambda>s. sd_mark s = Failed) sds; pending = list_ex (\<lambda>s. sd_mark s = Pending) sds
      in if (cond = WaitReady \<or> cond = WaitDown) \<and> failed then Some VerdictFailed
         else if pending then None
         else if failed then Some VerdictFailed
         else Some VerdictMet)"

text \<open>A map with a state through a list.\<close>

fun map_opt :: "('a \<Rightarrow> 's \<Rightarrow> ('b \<times> 's) option) \<Rightarrow> 'a list \<Rightarrow> 's \<Rightarrow> ('b list \<times> 's) option" where
  "map_opt f [] s = Some ([], s)"
| "map_opt f (x # xs) s =
     Option.bind (f x s) (\<lambda>(y, s'). map_option (\<lambda>(ys, s''). (y # ys, s'')) (map_opt f xs s'))"

text \<open>
  What changed, told one task after the other; \<open>False\<close> once the receiver is found gone. The
  state is the last reports, the memo and the graph.
\<close>

fun report_changes ::
  "wait_cond \<Rightarrow> nat \<Rightarrow> (nat \<times> standing) list \<Rightarrow> (nat, wait_task) hm \<Rightarrow> live_memo \<Rightarrow> graph \<Rightarrow>
   (bool \<times> (nat, wait_task) hm \<times> live_memo \<times> graph) option" where
  "report_changes cond ch [] prev memo g = Some (True, prev, memo, g)"
| "report_changes cond ch ((i, sd) # rest) prev memo g =
     (if (case hm_get prev i of None \<Rightarrow> False | Some l \<Rightarrow> wait_task_same g l i sd)
      then report_changes cond ch rest prev memo g
      else Option.bind (wait_task_of g cond i (hm_get prev i) sd memo)
        (\<lambda>(t, m).
           if is_open g ch
           then report_changes cond ch rest (hm_put i t prev) m (send_reply ch (WaitReply (WaitChanged t)) g)
           else Some (False, prev, m, g)))"

text \<open>The set as it ends: each as last reported, else as it is now.\<close>

definition final_task ::
  "graph \<Rightarrow> wait_cond \<Rightarrow> nat \<times> standing \<Rightarrow> (nat, wait_task) hm \<times> live_memo \<Rightarrow>
   (wait_task \<times> (nat, wait_task) hm \<times> live_memo) option" where
  "final_task g cond p s =
     (let (i, sd) = p; (prev, memo) = s
      in case hm_get prev i of
           Some t \<Rightarrow> Some (t, hm_del i prev, memo)
         | None \<Rightarrow> map_option (\<lambda>(t, m). (t, prev, m)) (wait_task_of g cond i None sd memo))"

definition with_why :: "graph \<Rightarrow> wait_task \<Rightarrow> wait_task" where
  "with_why g t =
     (if wt_mark t = Failed \<and> \<not> wt_removed t then t\<lparr>wt_why := explain g (ti_id (wt_info t))\<rparr> else t)"

definition finish_wait ::
  "wait_watch \<Rightarrow> standing list \<Rightarrow> live_memo \<Rightarrow> graph \<Rightarrow> (bool \<times> wait_watch \<times> live_memo \<times> graph) option" where
  "finish_wait w sds memo g =
     (case verdict_of (ww_cond w) sds of
        None \<Rightarrow> Some (is_open g (ww_events w), w, memo, g)
      | Some verdict \<Rightarrow>
          do {
            (ts, prev, m) \<leftarrow> map_opt (final_task g (ww_cond w)) (zip (ww_ids w) sds) (ww_last w, memo);
            Some (False, w, m,
              if is_open g (ww_events w)
              then send_reply (ww_events w) (WaitReply (WaitDone verdict (map (with_why g) ts) (quitting g))) g
              else g)
          })"

definition advance_wait ::
  "wait_watch \<Rightarrow> live_memo \<Rightarrow> graph \<Rightarrow> (bool \<times> wait_watch \<times> live_memo \<times> graph) option" where
  "advance_wait w memo g =
     do {
       (sds, m) \<leftarrow> map_opt (wait_standing g (ww_cond w)) (ww_ids w) memo;
       if \<not> ww_begun w
       then do {
         (ts, m) \<leftarrow> map_opt (\<lambda>(i, sd). wait_task_of g (ww_cond w) i None sd) (zip (ww_ids w) sds) m;
         if \<not> is_open g (ww_events w) then Some (False, w\<lparr>ww_begun := True\<rparr>, m, g)
         else finish_wait (w\<lparr>ww_begun := True, ww_last := fold (\<lambda>t. hm_put (ti_id (wt_info t)) t) ts []\<rparr>) sds m
                (send_reply (ww_events w) (WaitReply (WaitSet ts)) g)
       }
       else do {
         (told, prev, m, g') \<leftarrow> report_changes (ww_cond w) (ww_events w) (zip (ww_ids w) sds) (ww_last w) m g;
         if \<not> told then Some (False, w\<lparr>ww_last := prev\<rparr>, m, g')
         else finish_wait (w\<lparr>ww_last := prev\<rparr>) sds m g'
       }
     }"

fun advance_waits ::
  "bool \<Rightarrow> wait_watch list \<Rightarrow> live_memo \<Rightarrow> graph \<Rightarrow> (wait_watch list \<times> graph) option" where
  "advance_waits changed [] memo g = Some ([], g)"
| "advance_waits changed (w # ws) memo g =
     (if \<not> changed \<and> ww_begun w
      then map_option (\<lambda>(ws', g'). ((if is_open g (ww_events w) then [w] else []) @ ws', g'))
             (advance_waits changed ws memo g)
      else do {
        (keep, w', m, g1) \<leftarrow> advance_wait w memo g;
        (ws', g2) \<leftarrow> advance_waits changed ws m g1;
        Some ((if keep then [w'] else []) @ ws', g2)
      })"

definition check_waits :: "bool \<Rightarrow> graph \<Rightarrow> graph option" where
  "check_waits changed g = map_option (\<lambda>(ws, g'). g'\<lparr>waits := ws\<rparr>) (advance_waits changed (waits g) [] g)"

definition begin_wait :: "nat \<Rightarrow> wait_request \<Rightarrow> graph \<Rightarrow> graph option" where
  "begin_wait sender r g =
     do {
       (ids, g') \<leftarrow> (case wr_on r of
           WaitMatches sel \<Rightarrow>
             (let ids = matching_ids g sel;
                  wanted = (\<lambda>i. case task_at g i of None \<Rightarrow> False | Some h \<Rightarrow> h_wanted h)
              in Some (if wr_cond r = WaitReady \<and> list_ex wanted ids then filter wanted ids else ids, g))
         | WaitIds ids \<Rightarrow> Some (ids, g)
         | WaitAct verb sel \<Rightarrow> act verb sender sel g);
       Some (g'\<lparr>waits := waits g' @
         [\<lparr>ww_cond = wr_cond r, ww_ids = sort_key (list_key g') ids, ww_last = [], ww_begun = False, ww_events = wr_events r\<rparr>]\<rparr>)
     }"

end
