(* ===== verification/Kernel_Loop.thy ===== *)
theory Kernel_Loop
  imports Kernel_Reads
begin

text \<open>
  The kernel around the graph (\<open>src/src/kernel/kernel.rs\<close>): freezes and what they save, the bound
  of a quit, the timers of the shell, the dispatch of every command, and the loop as a step
  relation. A message the kernel takes is one it deferred, one that arrives, or a timer or sleep
  that has run out; time does not go back and a closed channel stays closed.
\<close>

section \<open>The bound of a quit\<close>

definition own_stop :: "graph \<Rightarrow> nat \<Rightarrow> nat" where
  "own_stop g i =
     (case task_at g i of
        None \<Rightarrow> 0
      | Some h \<Rightarrow> if is_active (h_state h) then h_stop_timeout h + kill_wait else 0)"

text \<open>The heaviest of the chains from some tasks; it follows the edges and may not end.\<close>

partial_function (option) chain_max :: "graph \<Rightarrow> nat list \<Rightarrow> (nat, nat) hm \<Rightarrow> nat \<Rightarrow> (nat \<times> (nat, nat) hm) option" where
  "chain_max g ids memo acc =
     (case ids of
        [] \<Rightarrow> Some (acc, memo)
      | d # ds \<Rightarrow>
          Option.bind
            (case hm_get memo d of
               Some c \<Rightarrow> Some (c, memo)
             | None \<Rightarrow>
                 Option.bind (chain_max g (deps_of g d) memo 0)
                   (\<lambda>(c, m). Some (own_stop g d + c, hm_put d (own_stop g d + c) m)))
            (\<lambda>(c, m). chain_max g ds m (max acc c)))"

declare chain_max.simps [code]

definition stop_within :: "graph \<Rightarrow> nat option" where
  "stop_within g = map_option fst (chain_max g (hm_keys (tasks g)) [] 0)"

section \<open>Freezing\<close>

definition to_millis :: "nat \<Rightarrow> nat" where
  "to_millis d = d div 1000000"

definition to_secs :: "nat \<Rightarrow> nat" where
  "to_secs d = d div 1000000000"

definition snap_of :: "graph \<Rightarrow> nat \<Rightarrow> task_handle \<Rightarrow> nat \<Rightarrow> snap_task" where
  "snap_of g i h kind =
     \<lparr>st_id = i, st_space = space_str (h_space h), st_path = h_path h, st_label = h_label h, st_tags = h_tags h,
      st_pinned = (init_task_id \<in> set (requirers_of g i)), st_deps = sort (deps_of g i), st_restart = h_restart h,
      st_job = (h_kind h = Job), st_ready_timeout_ms = map_option to_millis (ready_timeout (h_ready h)),
      st_stop_timeout_ms = (if h_stop_timeout h \<noteq> stop_timeout_default then Some (to_millis (h_stop_timeout h)) else None),
      st_state = h_state h, st_vetoed = h_vetoed h, st_killed = h_killed h, st_start_failed = h_start_failed h,
      st_stop_timed_out = h_stop_timed_out h, st_saved_pin = h_saved_pin h, st_attempts = h_attempts h,
      st_last_start_secs_ago = map_option (\<lambda>start. to_secs (now g - start)) (h_last_start h),
      st_timer_ms = map_option (\<lambda>deadline. to_millis (deadline - now g)) (h_deadline h),
      st_spec = handle_def_spec h, st_run_spec = (if h_next h \<noteq> None then h_spec h else None),
      st_origin = h_origin h, st_kind = kind\<rparr>"

definition snap_folder_of :: "graph \<Rightarrow> nat \<Rightarrow> folder \<Rightarrow> snap_folder" where
  "snap_folder_of g i f =
     \<lparr>sf_id = i, sf_space = space_str (fo_space f), sf_path = fo_path f,
      sf_after = ns_before (ns g) (task_key_new (fo_space f) (fo_path f)),
      sf_collapsed = fs_collapsed (fo_settings f), sf_origin = fs_origin (fo_settings f)\<rparr>"

definition snapshot :: "graph \<Rightarrow> (nat, nat) hm \<Rightarrow> kernel_snapshot" where
  "snapshot g kinds =
     \<lparr>ks_next_task_id = next_task_id g,
      ks_tasks = sort_key (\<lambda>t. list_key g (st_id t))
        (List.map_filter (\<lambda>(i, h). map_option (snap_of g i h) (hm_get kinds i)) (tasks g)),
      ks_folders = map snd (sort_key (\<lambda>(pos, f). (sf_space f, pos))
        (map (\<lambda>(i, f). (unwrap_or [] (ns_position (ns g) (fo_space f) (fo_path f)), snap_folder_of g i f)) (folders g)))\<rparr>"

fun is_stopped_effect :: "task_effect \<Rightarrow> bool" where
  "is_stopped_effect (EffStopped _) = True"
| "is_stopped_effect _ = False"

text \<open>The tasks told to freeze, and the first that answers with a stop: its handler is gone.\<close>

definition freeze_one :: "nat \<Rightarrow> nat \<Rightarrow> nat option \<times> graph \<Rightarrow> nat option \<times> graph" where
  "freeze_one number i s =
     (let (dead, g) = s;
          fx = (case task_at g i of None \<Rightarrow> [] | Some h \<Rightarrow> snd (react (h_task h) (CmdFreeze number)))
      in (if list_ex is_stopped_effect fx then opt_or dead (Some i) else dead, give_cmd i (CmdFreeze number) g))"

definition freeze :: "freeze_reply \<Rightarrow> graph \<Rightarrow> graph option" where
  "freeze reply g =
     (let number = freezes g + 1;
          ids = hm_keys (tasks g);
          (dead, g1) = fold (freeze_one number) ids (None, g\<lparr>freezes := number\<rparr>);
          held = (\<lambda>r g. g\<lparr>frozen := Some \<lparr>fz_number = number, fz_reply = r, fz_waiting = ids, fz_snapshots = [], fz_deferred = []\<rparr>\<rparr>)
      in case (dead, reply) of
           (Some i, FreezeRpc ch) \<Rightarrow>
             map_option (\<lambda>h. held None (send_reply ch
               (FreezeResult (Inl (''task '' @ task_name i (h_space h) (h_path h) @ '' can'' @ [CHR 0x27] @
                 ''t be carried across: its handler has stopped''))) g1)) (task_at g1 i)
         | (Some i, FreezeQuit) \<Rightarrow> Some (held None g1)
         | (None, r) \<Rightarrow> Some (held (Some r) g1))"

definition begin_freeze :: "nat \<Rightarrow> graph \<Rightarrow> graph option" where
  "begin_freeze ch g =
     (if frozen g \<noteq> None then Some (send_reply ch (FreezeResult (Inl ''a freeze is already in progress'')) g)
      else if quitting g then Some (send_reply ch (FreezeResult (Inl ''the runner is shutting down'')) g)
      else freeze (FreezeRpc ch) g)"

definition begin_quit_freeze :: "graph \<Rightarrow> (nat \<times> graph) option" where
  "begin_quit_freeze g = map_option (\<lambda>g'. (freezes g', g')) (freeze FreezeQuit g)"

definition on_task_frozen :: "nat \<Rightarrow> nat \<Rightarrow> nat \<Rightarrow> graph \<Rightarrow> graph" where
  "on_task_frozen i number kind g =
     (case frozen g of
        None \<Rightarrow> g
      | Some f \<Rightarrow>
          if fz_number f \<noteq> number \<or> i \<notin> set (fz_waiting f) then g
          else g\<lparr>frozen := Some (f\<lparr>fz_waiting := hs_del i (fz_waiting f), fz_snapshots := hm_put i kind (fz_snapshots f)\<rparr>)\<rparr>)"

definition finish_freeze_if_complete :: "graph \<Rightarrow> kernel_snapshot option \<times> graph" where
  "finish_freeze_if_complete g =
     (case frozen g of
        None \<Rightarrow> (None, g)
      | Some f \<Rightarrow>
          if fz_waiting f \<noteq> [] then (None, g)
          else
            (case fz_reply f of
               None \<Rightarrow> (None, g)
             | Some r \<Rightarrow>
                 (let g1 = g\<lparr>frozen := Some (f\<lparr>fz_reply := None, fz_snapshots := []\<rparr>)\<rparr>;
                      s = snapshot g1 (fz_snapshots f)
                  in case r of
                       FreezeRpc ch \<Rightarrow> (None, send_reply ch (FreezeResult (Inr s)) g1)
                     | FreezeQuit \<Rightarrow> (Some s, g1))))"

definition freezing_for_quit :: "graph \<Rightarrow> bool" where
  "freezing_for_quit g = (case frozen g of None \<Rightarrow> False | Some f \<Rightarrow> fz_reply f = Some FreezeQuit)"

definition thaw :: "graph \<Rightarrow> kernel_message list \<times> graph" where
  "thaw g =
     (case frozen g of
        None \<Rightarrow> ([], g)
      | Some f \<Rightarrow> (fz_deferred f, fold (\<lambda>i. send_cmd i CmdThaw) (hm_keys (tasks g)) (g\<lparr>frozen := None\<rparr>)))"

section \<open>The shell\<close>

definition save_timeout :: nat where
  "save_timeout = secs 10"

text \<open>The timers by task: the epoch each was set at and when it is due.\<close>

type_synonym state_timers = "(nat, nat \<times> nat) hm"

text \<open>
  \<open>save_set\<close> says whether there is a save callback, \<open>saved\<close> lists what it was given, and
  \<open>sleeps\<close> the freeze timeouts still to come, with when.
\<close>

record kernel =
  k_graph :: graph
  k_replay :: "kernel_message list"
  k_save_set :: bool
  k_saved :: "kernel_snapshot list"
  k_sleeps :: "(nat \<times> nat) list"
  k_timers :: state_timers

definition kernel_new :: "nat \<Rightarrow> bool \<Rightarrow> kernel" where
  "kernel_new t save_set =
     \<lparr>k_graph = graph_new t, k_replay = [], k_save_set = save_set, k_saved = [], k_sleeps = [], k_timers = []\<rparr>"

definition timer_of :: "graph \<Rightarrow> nat \<Rightarrow> (nat \<times> nat) option" where
  "timer_of g i =
     Option.bind (task_at g i) (\<lambda>h. map_option (\<lambda>deadline. (h_epoch h, deadline - now g)) (h_deadline h))"

definition update_timer :: "graph \<Rightarrow> nat \<Rightarrow> state_timers \<Rightarrow> state_timers" where
  "update_timer g i t =
     (case (hm_get t i, timer_of g i) of
        (Some (armed, _), Some (epoch, delay)) \<Rightarrow> if armed = epoch then t else hm_put i (epoch, now g + delay) (hm_del i t)
      | (_, None) \<Rightarrow> hm_del i t
      | (None, Some (epoch, delay)) \<Rightarrow> hm_put i (epoch, now g + delay) t)"

definition update_timers :: "kernel \<Rightarrow> kernel" where
  "update_timers k =
     (let g = k_graph k
      in k\<lparr>k_timers := fold (update_timer g) (timer_changes g) (k_timers k), k_graph := g\<lparr>timer_changes := []\<rparr>\<rparr>)"

definition with_graph :: "(graph \<Rightarrow> graph) \<Rightarrow> kernel \<Rightarrow> kernel" where
  "with_graph f k = k\<lparr>k_graph := f (k_graph k)\<rparr>"

definition after_dispatch :: "kernel \<Rightarrow> kernel option" where
  "after_dispatch k =
     (if frozen (k_graph k) \<noteq> None then Some k
      else do {
        g1 \<leftarrow> settle (k_graph k);
        let changed = state_changed g1;
        let g2 = g1\<lparr>state_changed := False\<rparr>;
        g3 \<leftarrow> (if changed then check_active_watches g2 else Some g2);
        g4 \<leftarrow> check_waits changed g3;
        Some (update_timers (k\<lparr>k_graph := g4\<rparr>))
      })"

definition thaw_kernel :: "kernel \<Rightarrow> kernel" where
  "thaw_kernel k = (let (msgs, g) = thaw (k_graph k) in k\<lparr>k_graph := g, k_replay := k_replay k @ msgs\<rparr>)"

definition quit_kernel :: "kernel \<Rightarrow> bool \<times> kernel" where
  "quit_kernel k = (let (at_once, g) = begin_quit (k_graph k) in (at_once, k\<lparr>k_graph := g\<rparr>))"

fun send_opt :: "nat option \<Rightarrow> reply \<Rightarrow> graph \<Rightarrow> graph" where
  "send_opt None r g = g"
| "send_opt (Some ch) r g = send_reply ch r g"

definition quit :: "bool \<Rightarrow> nat option \<Rightarrow> kernel \<Rightarrow> (bool \<times> kernel) option" where
  "quit save reply k =
     (if save \<and> k_save_set k \<and> \<not> quitting (k_graph k)
      then do {
        g1 \<leftarrow> (case reply of
            None \<Rightarrow> Some (k_graph k)
          | Some ch \<Rightarrow> map_option (\<lambda>w. send_reply ch (QuitBoundReply (save_timeout + w)) (k_graph k)) (stop_within (k_graph k)));
        (number, g2) \<leftarrow> begin_quit_freeze g1;
        Some (False, k\<lparr>k_graph := g2, k_sleeps := k_sleeps k @ [(now g2 + save_timeout, number)]\<rparr>)
      }
      else
        (let k1 = (if freezing_for_quit (k_graph k) then thaw_kernel k else k);
             (at_once, k2) = quit_kernel k1
         in case reply of
              None \<Rightarrow> Some (at_once, k2)
            | Some ch \<Rightarrow>
                map_option (\<lambda>w. (at_once, with_graph (send_reply ch (QuitBoundReply w)) k2))
                  (if at_once then Some 0 else stop_within (k_graph k2))))"

section \<open>Dispatch\<close>

fun duplicate_all :: "duplicate_request \<Rightarrow> nat list \<Rightarrow> graph \<Rightarrow> (register_error option \<times> graph) option" where
  "duplicate_all req [] g = Some (None, g)"
| "duplicate_all req (i # ids) g =
     (case duplicate i req g of
        None \<Rightarrow> None
      | Some (Some e, g') \<Rightarrow> Some (Some e, g')
      | Some (None, g') \<Rightarrow> duplicate_all req ids g')"

definition check_update :: "graph \<Rightarrow> task_update \<Rightarrow> nat \<Rightarrow> (register_error + nat \<times> nat list) option" where
  "check_update g u i =
     (case def_spec g i of
        None \<Rightarrow> Some (Inl NoDefinition)
      | Some s \<Rightarrow>
          if (case tu_was u of None \<Rightarrow> False | Some was \<Rightarrow> changed_keys s was \<noteq> []) then Some (Inl ChangedMeanwhile)
          else map_option (case_sum Inl (\<lambda>deps. Inr (i, deps))) (resolve_new_deps g i (tu_deps u)))"

fun check_updates :: "graph \<Rightarrow> task_update \<Rightarrow> nat list \<Rightarrow> (register_error + (nat \<times> nat list) list) option" where
  "check_updates g u [] = Some (Inr [])"
| "check_updates g u (i # ids) =
     (case check_update g u i of
        None \<Rightarrow> None
      | Some (Inl e) \<Rightarrow> Some (Inl e)
      | Some (Inr r) \<Rightarrow> map_option (map_sum id (\<lambda>rs. r # rs)) (check_updates g u ids))"

definition update_tasks :: "nat \<Rightarrow> task_selector \<Rightarrow> task_update \<Rightarrow> graph \<Rightarrow> (register_error + nat \<times> graph) option" where
  "update_tasks sender sel u g =
     (let ids = mutable_matching_ids g sender sel
      in case (if tu_was u \<noteq> None \<and> ids = [] then Some (Inl ChangedMeanwhile) else check_updates g u ids) of
           None \<Rightarrow> None
         | Some (Inl e) \<Rightarrow> Some (Inl e)
         | Some (Inr resolved) \<Rightarrow>
             map_option (\<lambda>g'. Inr (length resolved, g')) (fold_opt (\<lambda>(i, deps). update_task i deps u) resolved g))"

definition registration_space :: "registration \<Rightarrow> task_space_id" where
  "registration_space r = (case r of RegTask t \<Rightarrow> def_space (def_of (reg_def t)) | RegFolder d \<Rightarrow> fd_space d)"

text \<open>The answers of a batch: the refused ones in place, the others one after the other.\<close>

fun merge_results :: "register_error option list \<Rightarrow> register_error option list \<Rightarrow> register_error option list option" where
  "merge_results [] rs = Some []"
| "merge_results (Some e # refused) rs = map_option ((#) (Some e)) (merge_results refused rs)"
| "merge_results (None # refused) [] = None"
| "merge_results (None # refused) (r # rs) = map_option ((#) r) (merge_results refused rs)"

definition register_batch :: "nat \<Rightarrow> registration list \<Rightarrow> graph \<Rightarrow> (register_error option list \<times> graph) option" where
  "register_batch sender rs g =
     (let ok = (\<lambda>r. can_register g sender (registration_space r));
          refused = map (\<lambda>r. if ok r then None else Some (ReservedSpace (registration_space r))) rs
      in do {
        (registered, g') \<leftarrow> register_tasks (map (Pair None) (filter ok rs)) g;
        results \<leftarrow> merge_results refused registered;
        Some (results, g')
      })"

definition remove_selected :: "nat \<Rightarrow> task_selector \<Rightarrow> graph \<Rightarrow> nat \<times> graph" where
  "remove_selected sender sel g =
     (let (ts, fs) = removal g sender sel
      in (length ts + length fs, fold (\<lambda>i g. snd (remove_folder i g)) fs (fold remove_task ts g)))"

text \<open>The commands that only touch the graph; the others are left as they are.\<close>

fun graph_command :: "nat \<Rightarrow> kernel_command \<Rightarrow> graph \<Rightarrow> graph option" where
  "graph_command from (RegisterTask r ack) g =
     (if can_register g from (def_space (def_of (reg_def r)))
      then map_option (\<lambda>(e, g'). send_reply ack (RegisterReply e) g')
             (register_task_with_id (reg_id r) (reg_def r) (reg_factory r) None g)
      else Some (send_reply ack (RegisterReply (Some (ReservedSpace (def_space (def_of (reg_def r)))))) g))"
| "graph_command from (RegisterTasks rs ack) g =
     map_option (\<lambda>(results, g'). send_reply ack (RegistersReply results) g') (register_batch from rs g)"
| "graph_command from (Act verb sel ack) g =
     map_option (\<lambda>(ids, g'). send_opt ack (CountReply (length ids)) g') (act verb from sel g)"
| "graph_command from (Unpin sel ack) g =
     (let ids = mutable_matching_ids g from sel
      in Some (send_opt ack (CountReply (length ids)) (fold (\<lambda>i. set_pin i False) ids g)))"
| "graph_command from (Remove sel ack) g =
     (let (n, g') = remove_selected from sel g in Some (send_opt ack (CountReply n) g'))"
| "graph_command from (DropFolder i ack) g =
     (let (dropped, g') = (if can_mutate_folder g from i then remove_folder i g else (False, g))
      in Some (send_opt ack (CountReply (of_bool dropped)) g'))"
| "graph_command from (SetFolder i settings ack) g =
     (let (done, g') = (if can_mutate_folder g from i then set_folder i settings g else (False, g))
      in Some (send_opt ack (CountReply (of_bool done)) g'))"
| "graph_command from (SetLabel sel l ack) g =
     (let ids = mutable_matching_ids g from sel
      in Some (send_opt ack (CountReply (length ids)) (fold (\<lambda>i. set_task_label i l) ids g)))"
| "graph_command from (Duplicate sel req ack) g =
     (let ids = mutable_matching_ids g from sel
      in map_option (\<lambda>(e, g'). send_reply ack (CountResult (case e of None \<Rightarrow> Inr (length ids) | Some e \<Rightarrow> Inl e)) g')
           (duplicate_all req ids g))"
| "graph_command from (Update sel u ack) g =
     map_option (\<lambda>r. case r of
         Inl e \<Rightarrow> send_reply ack (CountResult (Inl e)) g
       | Inr (n, g') \<Rightarrow> send_reply ack (CountResult (Inr n)) g') (update_tasks from sel u g)"
| "graph_command from (SetOrigin sel origin ack) g =
     (let ids = mutable_matching_ids g from sel
      in Some (send_opt ack (CountReply (length ids)) (fold (\<lambda>i. set_origin i origin) ids g)))"
| "graph_command from (Move req ack) g =
     (if can_register g from (mv_space req)
      then map_option (\<lambda>r. case r of
          Inl e \<Rightarrow> send_reply ack (MoveResult (Inl e)) g
        | Inr (n, g') \<Rightarrow> send_reply ack (MoveResult (Inr n)) g') (move_tasks req g)
      else Some (send_reply ack (MoveResult (Inl (NotFound (mv_from req)))) g))"
| "graph_command from (TaskMsg i m) g = Some (send_cmd i (CmdMsg m) g)"
| "graph_command from (Query q) g = Some (handle_query q g)"
| "graph_command from TaskStarted g = Some (on_task_started from g)"
| "graph_command from TaskReady g = Some (on_task_ready from g)"
| "graph_command from (TaskStopped info) g = Some (on_task_stopped from info g)"
| "graph_command from (StateTimeout i epoch) g = on_state_timeout i epoch g"
| "graph_command from (SubscribePath key m) g = Some (subscribe from key m g)"
| "graph_command from (UnsubscribePath key m) g = Some (unsubscribe from key m g)"
| "graph_command from (WatchActive sel ch) g = watch_active sel ch g"
| "graph_command from (Wait r) g = begin_wait from r g"
| "graph_command from (Freeze ch) g = begin_freeze ch g"
| "graph_command from (TaskFrozen number kind) g = Some (on_task_frozen from number kind g)"
| "graph_command from _ g = Some g"

text \<open>The command itself; \<open>Some\<close> is an early return of \<open>dispatch_now\<close>.\<close>

definition run_command :: "kernel_message \<Rightarrow> kernel \<Rightarrow> (bool option \<times> kernel) option" where
  "run_command msg k =
     (let stop = map_option (\<lambda>(b, k'). (if b then Some True else None, k'))
      in case km_command msg of
           Quit \<Rightarrow> stop (quit True None k)
         | QuitWithoutSave \<Rightarrow> stop (quit False None k)
         | QuitWithin save reply \<Rightarrow> stop (quit save (Some reply) k)
         | FreezeTimeout number \<Rightarrow>
             if freezing_for_quit (k_graph k) \<and>
               (case frozen (k_graph k) of None \<Rightarrow> False | Some f \<Rightarrow> fz_number f = number)
             then (let (b, k') = quit_kernel (thaw_kernel k) in Some (Some b, k'))
             else Some (None, k)
         | Thaw \<Rightarrow> Some (None, thaw_kernel k)
         | c \<Rightarrow> map_option (\<lambda>g. (None, k\<lparr>k_graph := g\<rparr>)) (graph_command (km_from msg) c (k_graph k)))"

definition dispatch_now :: "kernel_message \<Rightarrow> kernel \<Rightarrow> (bool \<times> kernel) option" where
  "dispatch_now msg k =
     (case run_command msg k of
        None \<Rightarrow> None
      | Some (Some b, k') \<Rightarrow> Some (b, k')
      | Some (None, k') \<Rightarrow>
          (case finish_freeze_if_complete (k_graph k') of
             (None, g) \<Rightarrow> Some (False, k'\<lparr>k_graph := g\<rparr>)
           | (Some s, g) \<Rightarrow>
               (let k1 = k'\<lparr>k_graph := g, k_saved := (if k_save_set k' then k_saved k' @ [s] else k_saved k')\<rparr>
                in Some (quit_kernel (thaw_kernel k1)))))"

text \<open>What a frozen kernel takes at once: what tasks did before they froze, and reads.\<close>

fun passes_freeze :: "kernel_command \<Rightarrow> bool" where
  "passes_freeze TaskStarted = True"
| "passes_freeze TaskReady = True"
| "passes_freeze (TaskStopped _) = True"
| "passes_freeze (Query _) = True"
| "passes_freeze (Freeze _) = True"
| "passes_freeze (TaskFrozen _ _) = True"
| "passes_freeze (FreezeTimeout _) = True"
| "passes_freeze Thaw = True"
| "passes_freeze _ = False"

definition dispatch :: "kernel_message \<Rightarrow> kernel \<Rightarrow> (bool \<times> kernel) option" where
  "dispatch msg k =
     (let g = k_graph k; for_quit = freezing_for_quit g
      in case frozen g of
           None \<Rightarrow> dispatch_now msg k
         | Some f \<Rightarrow>
             if passes_freeze (km_command msg) then dispatch_now msg k
             else
               (let defer = Some (False, k\<lparr>k_graph := g\<lparr>frozen := Some (f\<lparr>fz_deferred := fz_deferred f @ [msg]\<rparr>)\<rparr>\<rparr>)
                in case km_command msg of
                     Quit \<Rightarrow> if for_quit then Some (False, k) else defer
                   | QuitWithin save reply \<Rightarrow>
                       if for_quit
                       then (if save
                             then map_option (\<lambda>w. (False, with_graph (send_reply reply (QuitBoundReply (save_timeout + w))) k))
                                    (stop_within g)
                             else dispatch_now msg k)
                       else defer
                   | QuitWithoutSave \<Rightarrow> if for_quit then dispatch_now msg k else defer
                   | _ \<Rightarrow> defer))"

section \<open>The loop\<close>

text \<open>
  A turn at a time: the message is dispatched and, unless the loop exits, the graph settled. The
  flag is whether the loop ends.
\<close>

definition turn :: "kernel_message \<Rightarrow> nat \<Rightarrow> nat list \<Rightarrow> kernel \<Rightarrow> (bool \<times> kernel) option" where
  "turn msg t cl k =
     do {
       (stop, k1) \<leftarrow> dispatch msg (with_graph (\<lambda>g. g\<lparr>now := t, closed := cl\<rparr>) k);
       if stop then Some (True, k1)
       else do {
         k2 \<leftarrow> after_dispatch k1;
         Some (quitting (k_graph k2) \<and> no_active_tasks (k_graph k2), k2)
       }
     }"

definition clock_ok :: "nat \<Rightarrow> nat list \<Rightarrow> kernel \<Rightarrow> bool" where
  "clock_ok t cl k = (now (k_graph k) \<le> t \<and> set (closed (k_graph k)) \<subseteq> set cl)"

inductive kernel_step :: "(kernel_message \<Rightarrow> bool) \<Rightarrow> kernel \<Rightarrow> kernel \<Rightarrow> bool" for sends where
  replayed: "k_replay k = msg # rest \<Longrightarrow> clock_ok t cl k \<Longrightarrow>
     turn msg t cl (k\<lparr>k_replay := rest\<rparr>) = Some (False, k') \<Longrightarrow> kernel_step sends k k'"
| received: "k_replay k = [] \<Longrightarrow> sends msg \<Longrightarrow> clock_ok t cl k \<Longrightarrow>
     turn msg t cl k = Some (False, k') \<Longrightarrow> kernel_step sends k k'"
| expired: "k_replay k = [] \<Longrightarrow> hm_get (k_timers k) i = Some (epoch, due) \<Longrightarrow> due \<le> t \<Longrightarrow> clock_ok t cl k \<Longrightarrow>
     turn \<lparr>km_from = init_task_id, km_command = StateTimeout i epoch\<rparr> t cl (k\<lparr>k_timers := hm_del i (k_timers k)\<rparr>) =
       Some (False, k') \<Longrightarrow> kernel_step sends k k'"
| slept: "k_replay k = [] \<Longrightarrow> (due, number) \<in> set (k_sleeps k) \<Longrightarrow> due \<le> t \<Longrightarrow> clock_ok t cl k \<Longrightarrow>
     turn \<lparr>km_from = init_task_id, km_command = FreezeTimeout number\<rparr> t cl
       (k\<lparr>k_sleeps := remove1 (due, number) (k_sleeps k)\<rparr>) = Some (False, k') \<Longrightarrow> kernel_step sends k k'"

section \<open>Restoring\<close>

fun registration_id :: "registration \<Rightarrow> nat" where
  "registration_id (RegTask r) = reg_id r"
| "registration_id (RegFolder d) = fd_id d"

definition missing_dep :: "nat list \<Rightarrow> registration \<Rightarrow> string option" where
  "missing_dep ids r =
     (if list_ex (\<lambda>s. case s of SelId d \<Rightarrow> d \<notin> set ids | _ \<Rightarrow> False) (registration_deps r)
      then Some (''task '' @ show_nat (registration_id r) @ '' has a dependency that is not in the snapshot'')
      else None)"

definition restore :: "nat \<Rightarrow> (snap_task option \<times> registration) list \<Rightarrow> nat \<Rightarrow> kernel \<Rightarrow> (string option \<times> kernel) option" where
  "restore next batch t k =
     (let g = (k_graph k)\<lparr>next_task_id := next, now := t\<rparr>;
          ids = map (registration_id \<circ> snd) batch
      in case find_map (missing_dep ids) (map snd batch) of
           Some e \<Rightarrow> Some (Some e, k\<lparr>k_graph := g\<rparr>)
         | None \<Rightarrow>
             map_option (\<lambda>(results, g').
               (find_map (\<lambda>(i, e). map_option (\<lambda>e. ''restoring task '' @ show_nat i @ '': '' @ show_register_error e) e)
                  (zip ids results), k\<lparr>k_graph := g'\<rparr>)) (register_tasks batch g))"

end
