(* ===== verification/Kernel_Frame.thy ===== *)
theory Kernel_Frame
  imports Kernel_Changes Kernel_Loop
begin

text \<open>
  What no operation on the graph touches but the few that are for it: the freeze in progress, and
  the next id, which only goes up.
\<close>

definition env :: "graph \<Rightarrow> nat \<times> frozen_state option" where
  "env g = (next_task_id g, frozen g)"

lemma env_rest: "rest g' = rest g \<Longrightarrow> env g' = env g"
  using rest_fields[of g' g] by (simp add: env_def)

lemma env_fold: "(\<And>x g. env (f x g) = env g) \<Longrightarrow> env (fold f xs g) = env g"
  by (induction xs arbitrary: g) simp_all

lemma env_fold_opt: "(\<And>x g g'. f x g = Some g' \<Longrightarrow> env g' = env g) \<Longrightarrow> fold_opt f xs g = Some g' \<Longrightarrow> env g' = env g"
  by (induction xs arbitrary: g) (auto simp: bind_eq_Some_conv)

lemma env_updates [simp]:
  "env (g\<lparr>tasks := ts\<rparr>) = env g" "env (g\<lparr>ns := nn\<rparr>) = env g" "env (g\<lparr>folders := fs\<rparr>) = env g"
  "env (g\<lparr>tags := tg\<rparr>) = env g" "env (g\<lparr>edges := es\<rparr>) = env g" "env (g\<lparr>redges := rs\<rparr>) = env g"
  "env (g\<lparr>state_changed := b\<rparr>) = env g" "env (g\<lparr>timer_changes := tc\<rparr>) = env g" "env (g\<lparr>dirty := d\<rparr>) = env g"
  "env (g\<lparr>in_queue := q\<rparr>) = env g" "env (g\<lparr>quitting := qt\<rparr>) = env g" "env (g\<lparr>outbox := ob\<rparr>) = env g"
  "env (g\<lparr>waits := w\<rparr>) = env g" "env (g\<lparr>active_watches := aw\<rparr>) = env g" "env (g\<lparr>pending_effects := pe\<rparr>) = env g"
  "env (g\<lparr>transitions := tr\<rparr>) = env g" "env (g\<lparr>freezes := fz\<rparr>) = env g" "env (g\<lparr>now := t\<rparr>) = env g"
  "env (g\<lparr>closed := cl\<rparr>) = env g" "env (g\<lparr>sent := sn\<rparr>) = env g"
  by (simp_all add: env_def)

lemma env_steps [simp]:
  "env (upd_task i f g) = env g" "env (enqueue i g) = env g" "env (enqueue_parents i g) = env g"
  "env (give_cmd i c g) = env g" "env (send_cmd i c g) = env g" "env (notify_subscribers i s p n g) = env g"
  "env (notify_changed i g) = env g" "env (schedule_state_timeout i d g) = env g"
  "env (set_state i st g) = env g" "env (set_vetoed i b g) = env g" "env (recompute_caches i g) = env g"
  by (rule env_rest, simp)+

lemma env_deliver [simp]: "env (deliver i n ts g) = env g"
  unfolding deliver_def by (rule env_fold) simp

lemma env_send_reply [simp]: "env (send_reply ch r g) = env g"
  by (simp add: send_reply_def)

section \<open>Reconciliation\<close>

lemma env_pop_dirty: "pop_dirty g = Some (i, g') \<Longrightarrow> env g' = env g"
  by (rule env_rest) (rule rest_pop_dirty)

lemma env_propagate: "propagate td g = Some (td', g') \<Longrightarrow> env g' = env g"
proof -
  assume run: "propagate td g = Some (td', g')"
  have "env (snd (td', g')) = env g"
  proof (rule propagate.raw_induct [where P = "\<lambda>td g r. env (snd r) = env g", rotated], rule run)
    fix f td g r
    assume hyp: "\<And>td g r. f td g = Some r \<Longrightarrow> env (snd r) = env g"
      and step: "(case pop_dirty g of None \<Rightarrow> Some (td, g)
        | Some (i, g') \<Rightarrow> f (if i \<in> set td then td else td @ [i]) (recompute_caches i g')) = Some r"
    show "env (snd r) = env g"
    proof (cases "pop_dirty g")
      case (Some p)
      then obtain i g1 where p: "pop_dirty g = Some (i, g1)" by (cases p) auto
      then have "env (snd r) = env (recompute_caches i g1)" using step by (auto dest: hyp)
      then show ?thesis using env_pop_dirty[OF p] by simp
    qed (use step in auto)
  qed
  then show ?thesis by simp
qed

lemma env_start_task: "start_task i g = Some g' \<Longrightarrow> env g' = env g"
  by (auto simp: start_task_def Let_def split: option.splits prod.splits if_splits)

lemma env_stop_task: "stop_task i b g = Some g' \<Longrightarrow> env g' = env g"
  by (auto simp: stop_task_def Let_def split: option.splits)

lemma env_hard_kill: "hard_kill i g = Some g' \<Longrightarrow> env g' = env g"
  by (auto simp: hard_kill_def split: option.splits)

lemma env_drive_task: "drive_task i g = Some g' \<Longrightarrow> env g' = env g"
  by (auto simp: drive_task_def dest: env_start_task env_stop_task split: option.splits if_splits task_state.splits)

lemma env_drive_all: "fold_opt drive_task xs g = Some g' \<Longrightarrow> env g' = env g"
  by (rule env_fold_opt[OF env_drive_task])

lemma env_reconcile_round: "reconcile_round g = Some g' \<Longrightarrow> env g' = env g"
  by (auto simp: reconcile_round_def bind_eq_Some_conv dest!: env_propagate env_drive_all)

lemma env_land_exit [simp]: "env (land_exit i e g) = env g"
  by (simp add: land_exit_def Let_def split: option.splits task_state.splits)

lemma env_land_stop [simp]: "env (land_stop i e g) = env g"
  by (simp add: land_stop_def split: option.splits)

lemma env_reports [simp]:
  "env (on_task_started i g) = env g" "env (on_task_ready i g) = env g" "env (on_task_stopped i e g) = env g"
  by (simp_all add: on_task_started_def on_task_ready_def on_task_stopped_def Let_def split: option.splits task_state.splits)

lemma env_apply_effect [simp]: "env (apply_effect i e g) = env g"
  by (cases e) simp_all

lemma env_settle_steps: "settle_steps n g = Some g' \<Longrightarrow> env g' = env g"
proof (induction n g rule: settle_steps.induct)
  case (2 n g)
  then show ?case
    by (auto simp: bind_eq_Some_conv split: list.splits prod.splits if_splits dest: env_reconcile_round)
qed simp

lemma env_settle: "settle g = Some g' \<Longrightarrow> env g' = env g"
  unfolding settle_def by (rule env_settle_steps)

lemma env_on_state_timeout: "on_state_timeout i e g = Some g' \<Longrightarrow> env g' = env g"
  by (auto simp: on_state_timeout_def Let_def fail_start_def dest: env_hard_kill env_stop_task split: option.splits if_splits task_state.splits)

section \<open>Verbs\<close>

lemma env_edges [simp]: "env (add_edge a b g) = env g" "env (remove_edge a b g) = env g"
  by (simp_all add: add_edge_def remove_edge_def Let_def)

lemma env_set_pin [simp]: "env (set_pin i b g) = env g"
  by (simp add: set_pin_def Let_def)

lemma env_demand [simp]: "env (demand i b g) = env g"
  unfolding demand_def by (rule env_fold) (simp add: demand_one_def Let_def split: option.splits task_state.splits)

lemma env_stop_if_active: "stop_if_active i g = Some g' \<Longrightarrow> env g' = env g"
  by (auto simp: stop_if_active_def dest: env_stop_task split: option.splits task_state.splits)

lemma env_cmds [simp]: "env (cmd_start i g) = env g" "env (cmd_up i g) = env g" "env (cmd_veto i g) = env g"
  by (simp_all add: cmd_start_def cmd_up_def cmd_veto_def)

lemma env_cmd_restart: "cmd_restart i g = Some g' \<Longrightarrow> env g' = env g"
  using env_stop_if_active by (fastforce simp: cmd_restart_def)

lemma env_act_one: "act_one verb i g = Some g' \<Longrightarrow> env g' = env g"
  by (cases verb)
    (fastforce simp: cmd_restart_def cmd_kill_def cmd_stop_def Let_def dest: env_hard_kill env_stop_if_active
      split: option.splits task_state.splits)+

lemma env_act_all: "fold_opt (act_one verb) xs g = Some g' \<Longrightarrow> env g' = env g"
  by (rule env_fold_opt[OF env_act_one])

lemma env_act: "act verb s sel g = Some (ids, g') \<Longrightarrow> env g' = env g"
  by (auto simp: act_def Let_def dest: env_act_all)

lemma env_begin_quit [simp]: "env (snd (begin_quit g)) = env g"
  by (simp add: begin_quit_def env_fold)

section \<open>Members\<close>

lemma env_tag_index [simp]: "env (index_tags i ts g) = env g" "env (unindex_tags i ts g) = env g"
  unfolding index_tags_def unindex_tags_def by (rule env_fold, simp add: Let_def split: option.splits)+

lemma env_set_tags [simp]: "env (set_tags i ts g) = env g"
  by (simp add: set_tags_def Let_def split: option.splits)

lemma env_install_task [simp]: "env (install_task i d f s deps g) = env g"
  unfolding install_task_def Let_def by (simp add: env_fold split: option.splits)

lemma env_register: "register_task_with_id i d f s g = Some (e, g') \<Longrightarrow> env g' = env g"
  by (auto simp: register_task_with_id_def Let_def split: if_splits sum.splits option.splits prod.splits)

lemma env_register_folder: "register_folder d g = Some (e, g') \<Longrightarrow> env g' = env g"
  by (auto simp: register_folder_def Let_def split: if_splits option.splits prod.splits)

lemma env_register_in_order: "register_in_order order batch rs g = Some (rs', g') \<Longrightarrow> env g' = env g"
proof (induction order batch rs g rule: register_in_order.induct)
  case (2 i order batch results g)
  then show ?case
    by (fastforce simp: bind_eq_Some_conv register_one_def dest: env_register env_register_folder split: option.splits registration.splits)
qed simp

lemma env_register_tasks: "register_tasks batch g = Some (rs, g') \<Longrightarrow> env g' = env g"
  by (auto simp: register_tasks_def Let_def bind_eq_Some_conv dest!: env_register_in_order)

lemma env_register_batch: "register_batch s rs g = Some (res, g') \<Longrightarrow> env g' = env g"
  by (auto simp: register_batch_def Let_def bind_eq_Some_conv dest: env_register_tasks)

lemma env_remove_folder [simp]: "env (snd (remove_folder i g)) = env g"
  by (simp add: remove_folder_def split: option.splits)

lemma env_set_folder [simp]: "env (snd (set_folder i s g)) = env g"
  by (simp add: set_folder_def)

lemma env_remove_task [simp]: "env (remove_task i g) = env g"
proof -
  have "env (forget_task i h g) = env g" for h and g :: graph by (simp add: forget_task_def Let_def split: option.splits)
  moreover have "env (cut_deps i h g) = env g" for h and g :: graph
    by (simp add: cut_deps_def env_fold drop_requirer_def)
  moreover have "env (cut_requirers i g) = env g" for g :: graph
    by (simp add: cut_requirers_def env_fold drop_dep_def)
  ultimately show ?thesis by (simp add: remove_task_def Let_def split: option.splits)
qed

lemma env_remove_selected [simp]: "env (snd (remove_selected s sel g)) = env g"
  by (simp add: remove_selected_def Let_def split_def env_fold)

lemma env_changes [simp]:
  "env (set_task_label i l g) = env g" "env (set_origin i origin g) = env g" "env (repath m g) = env g"
  "env (announce_move sp m g) = env g" "env (unsubscribe s key md g) = env g"
  by (simp_all add: set_task_label_def set_origin_def repath_def announce_move_def unsubscribe_def Let_def split: option.splits)

lemma env_subscribe [simp]: "env (subscribe s key md g) = env g"
  unfolding subscribe_def Let_def by (subst env_fold) (auto split: option.splits)

lemma env_move_tasks: "move_tasks req g = Some (Inr (n, g')) \<Longrightarrow> env g' = env g"
  by (auto simp: move_tasks_def Let_def env_fold split: option.splits sum.splits)

lemma env_update_task: "update_task i deps u g = Some g' \<Longrightarrow> env g' = env g"
  by (auto simp: update_task_def Let_def env_fold dest!: env_cmd_restart split: option.splits if_splits)

lemma env_update_tasks: "update_tasks s sel u g = Some (Inr (n, g')) \<Longrightarrow> env g' = env g"
proof -
  have "fold_opt (\<lambda>(i, deps). update_task i deps u) xs g = Some g' \<Longrightarrow> env g' = env g" for xs
    by (rule env_fold_opt) (auto dest: env_update_task)
  then show "update_tasks s sel u g = Some (Inr (n, g')) \<Longrightarrow> env g' = env g"
    by (auto simp: update_tasks_def Let_def split: if_splits option.splits sum.splits)
qed

lemma env_duplicate: "duplicate i req g = Some (e, g') \<Longrightarrow> frozen g' = frozen g \<and> next_task_id g \<le> next_task_id g'"
proof -
  assume d: "duplicate i req g = Some (e, g')"
  have "env g' = env g \<or> env g' = env (snd (alloc_id g))"
    using d by (auto simp: duplicate_def alloc_id_def Let_def dest!: env_register split: option.splits sum.splits)
  then show ?thesis by (auto simp: env_def alloc_id_def)
qed

end
