(* ===== verification/Kernel_Safe.thy ===== *)
theory Kernel_Safe
  imports Kernel_Frame
begin

text \<open>
  The kernel as a whole stays good: the commands it takes, what it defers while frozen and replays
  once thawed, the timers it sets, and the turn that settles the graph after each message.
\<close>

section \<open>Reads, watches and waits\<close>

definition calm :: "graph \<Rightarrow> graph \<Rightarrow> bool" where
  "calm g g' \<longleftrightarrow> core g' = core g \<and> env g' = env g"

lemma calm_refl [simp]: "calm g g"
  by (simp add: calm_def)

lemma calm_trans: "calm g g1 \<Longrightarrow> calm g1 g2 \<Longrightarrow> calm g g2"
  by (simp add: calm_def)

lemma calm_send_reply [simp]: "calm g (send_reply ch r g') = calm g g'" "calm (send_reply ch r g) g' = calm g g'"
  by (simp_all add: calm_def)

lemma calm_updates [simp]:
  "calm g (g'\<lparr>waits := w\<rparr>) = calm g g'" "calm g (g'\<lparr>active_watches := aw\<rparr>) = calm g g'"
  "calm g (g'\<lparr>state_changed := b\<rparr>) = calm g g'" "calm g (g'\<lparr>timer_changes := tc\<rparr>) = calm g g'"
  by (simp_all add: calm_def)

lemma calm_good: "calm g g' \<Longrightarrow> good g' = good g"
  unfolding calm_def by (metis good_core_iff)

lemma calm_send_opt [simp]: "calm g (send_opt ch r g') = calm g g'"
  by (cases ch) simp_all

lemma calm_handle_query: "calm g (handle_query q g)"
  by (cases q) (simp_all add: Let_def)

lemma calm_check_watches: "check_watches ws g = Some (ws', g') \<Longrightarrow> calm g g'"
proof (induction ws arbitrary: g ws' g')
  case (Cons w ws)
  obtain a where a: "any_active g (aw_selector w) = Some a" using Cons.prems by (auto simp: bind_eq_Some_conv)
  consider ws1 where "check_watches ws g = Some (ws1, g')"
    | ws1 where "check_watches ws (send_reply (aw_sender w) (ActiveReply a) g) = Some (ws1, g')"
    using Cons.prems a by (cases "a = aw_active w"; cases "is_open g (aw_sender w)") auto
  then show ?case by cases (auto dest: Cons.IH)
qed simp

lemma calm_check_active_watches: "check_active_watches g = Some g' \<Longrightarrow> calm g g'"
  by (auto simp: check_active_watches_def dest: calm_check_watches)

lemma calm_report_changes: "report_changes cond ch sds prev memo g = Some (told, prev', memo', g') \<Longrightarrow> calm g g'"
proof (induction cond ch sds prev memo g arbitrary: told prev' memo' g' rule: report_changes.induct)
  case (2 cond ch i sd rest prev memo g)
  then show ?case by (auto simp: bind_eq_Some_conv split: if_splits option.splits)
qed simp

lemma calm_finish_wait: "finish_wait w sds memo g = Some (k, w', m', g') \<Longrightarrow> calm g g'"
  by (auto simp: finish_wait_def bind_eq_Some_conv split: option.splits if_splits)

lemma calm_advance_wait: "advance_wait w memo g = Some (k, w', m', g') \<Longrightarrow> calm g g'"
  by (auto simp: advance_wait_def bind_eq_Some_conv split: if_splits
      dest!: calm_finish_wait calm_report_changes intro: calm_trans)

lemma calm_advance_waits: "advance_waits changed ws memo g = Some (ws', g') \<Longrightarrow> calm g g'"
proof (induction ws arbitrary: memo g ws' g')
  case (Cons w ws)
  consider ws1 where "advance_waits changed ws memo g = Some (ws1, g')"
    | keep w' m g1 ws1 where "advance_wait w memo g = Some (keep, w', m, g1)" "advance_waits changed ws m g1 = Some (ws1, g')"
    using Cons.prems by (cases "\<not> changed \<and> ww_begun w") (auto simp: bind_eq_Some_conv)
  then show ?case by cases (use Cons.IH calm_advance_wait calm_trans in blast)+
qed simp

lemma calm_check_waits: "check_waits changed g = Some g' \<Longrightarrow> calm g g'"
  by (auto simp: check_waits_def dest: calm_advance_waits)

section \<open>What comes in\<close>

text \<open>The ids registrations bring are given out by the kernel: none is the id of the kernel itself.\<close>

fun command_ok :: "kernel_command \<Rightarrow> bool" where
  "command_ok (RegisterTask r _) = (reg_id r \<noteq> init_task_id)"
| "command_ok (RegisterTasks rs _) = list_all registration_ok rs"
| "command_ok _ = True"

definition msg_ok :: "kernel_message \<Rightarrow> bool" where
  "msg_ok m = command_ok (km_command m)"

definition deferred :: "graph \<Rightarrow> kernel_message list" where
  "deferred g = (case frozen g of None \<Rightarrow> [] | Some f \<Rightarrow> fz_deferred f)"

definition graph_good :: "graph \<Rightarrow> bool" where
  "graph_good g \<longleftrightarrow> good g \<and> 0 < next_task_id g \<and> list_all msg_ok (deferred g)"

lemma graph_good_step: "graph_good g \<Longrightarrow> good g' \<Longrightarrow> env g' = env g \<Longrightarrow> graph_good g'"
  by (simp add: graph_good_def env_def deferred_def)

lemma graph_good_calm: "graph_good g \<Longrightarrow> calm g g' \<Longrightarrow> graph_good g'"
  using graph_good_step[of g g'] calm_good[of g g'] by (simp add: graph_good_def calm_def)

lemma graph_goodD: "graph_good g \<Longrightarrow> good g"
  by (simp add: graph_good_def)

lemma graph_good_send [simp]:
  "graph_good (send_reply ch r g) = graph_good g" "graph_good (send_opt c r g) = graph_good g"
proof -
  show *: "graph_good (send_reply ch r g) = graph_good g" for ch and r and g :: graph
    using env_send_reply[of ch r g] by (simp add: graph_good_def deferred_def env_def)
  show "graph_good (send_opt c r g) = graph_good g" by (cases c) (simp_all add: *)
qed

lemma send_opt_same [simp]: "good (send_opt c r g) = good g" "env (send_opt c r g) = env g"
  by (cases c; simp)+

section \<open>Commands on the graph\<close>

lemma resolve_new_deps_ok:
  assumes "resolve_new_deps g i sels = Some (Inr deps)"
  shows "resolve_deps g sels = Inr deps \<and> (\<forall>d \<in> set deps. (d, i) \<notin> (edge_set g)\<^sup>*)"
proof (cases "resolve_deps g sels")
  case (Inr ds)
  have "find (\<lambda>dep. requires g dep i) ds = None \<and> ds = deps"
    using assms Inr by (cases "find (\<lambda>dep. requires g dep i) ds") (auto simp: resolve_new_deps_def)
  then show ?thesis using Inr by (auto simp: requires_reach find_None_iff)
qed (use assms in \<open>simp add: resolve_new_deps_def\<close>)

lemma check_update_ok:
  assumes "check_update g u i = Some (Inr p)"
  shows "\<exists>deps. p = (i, deps) \<and> resolve_new_deps g i (tu_deps u) = Some (Inr deps)"
proof -
  obtain z where "resolve_new_deps g i (tu_deps u) = Some z" "case_sum Inl (\<lambda>deps. Inr (i, deps)) z = Inr p"
    using assms by (auto simp: check_update_def split: option.splits if_splits)
  then show ?thesis by (cases z) auto
qed

lemma check_updates_ok:
  assumes "check_updates g u ids = Some (Inr resolved)" "(i, deps) \<in> set resolved"
  shows "resolve_deps g (tu_deps u) = Inr deps \<and> (\<forall>d \<in> set deps. (d, i) \<notin> (edge_set g)\<^sup>*)"
  using assms
proof (induction ids arbitrary: resolved)
  case (Cons j ids)
  obtain p where p: "check_update g u j = Some (Inr p)" using Cons.prems(1) by (auto split: option.splits sum.splits)
  obtain z where z: "check_updates g u ids = Some z" "map_sum id (\<lambda>rs. p # rs) z = Inr resolved"
    using Cons.prems(1) p by auto
  then obtain rest where rest: "check_updates g u ids = Some (Inr rest)" "resolved = p # rest" by (cases z) auto
  show ?case
  proof (cases "(i, deps) = p")
    case True
    then show ?thesis using check_update_ok[OF p] resolve_new_deps_ok[of g i "tu_deps u" deps] by auto
  next
    case False
    then show ?thesis using Cons.IH[OF rest(1)] Cons.prems(2) rest(2) by simp
  qed
qed simp

lemma good_update_tasks:
  assumes inv: "good g" and u: "update_tasks sender sel u g = Some (Inr (n, g'))"
  shows "good g'"
proof -
  obtain resolved where checks: "check_updates g u (mutable_matching_ids g sender sel) = Some (Inr resolved)"
      and run: "fold_opt (\<lambda>(i, deps). update_task i deps u) resolved g = Some g'"
    using u by (auto simp: update_tasks_def Let_def split: if_splits option.splits sum.splits)
  note c = check_updates_ok[OF checks]
  show ?thesis
  proof (cases resolved)
    case Nil
    then show ?thesis using run inv by simp
  next
    case (Cons p ps)
    obtain deps where deps: "resolve_deps g (tu_deps u) = Inr deps" using c[of "fst p" "snd p"] Cons by auto
    have same: "ds = deps" if "(i, ds) \<in> set resolved" for i ds using c[OF that] deps by simp
    let ?ids = "fst ` set resolved"
    have none: "leads_none (set deps) ?ids g" unfolding leads_none_def using c same by fastforce
    have "good g'" if "fold_opt (\<lambda>(i, deps). update_task i deps u) xs g = Some g'" "good g"
      "leads_none (set deps) ?ids g" "set xs \<subseteq> set resolved" for xs and g :: graph
      using that
    proof (induction xs arbitrary: g)
      case (Cons x xs)
      obtain i ds where x: "x = (i, ds)" by (cases x)
      have i: "i \<in> ?ids" "set ds \<subseteq> set deps" using Cons.prems(4) same x by (force, auto)
      obtain g1 where g1: "update_task i ds u g = Some g1" "good g1" "leads_none (set deps) ?ids g1"
        using good_update_task[OF Cons.prems(2,3) i] by blast
      then show ?case using Cons.IH[of g1] Cons.prems(1,4) x by simp
    qed simp
    from this[OF run inv none] show ?thesis by simp
  qed
qed

lemma good_duplicate:
  assumes "good g" "0 < next_task_id g" "duplicate i req g = Some (e, g')"
  shows "good g'"
proof -
  have "good (snd (alloc_id g))" "fst (alloc_id g) \<noteq> init_task_id"
    using assms(1,2) by (simp_all add: alloc_id_def init_task_id_def)
  then show ?thesis using assms(1,3)
    by (auto simp: duplicate_def Let_def split: option.splits sum.splits prod.splits
        elim!: good_register[rotated 3])
qed


section \<open>Freezes\<close>

lemma core_freeze_one [simp]: "core (snd (freeze_one n i s)) = core (snd s)"
  by (simp add: freeze_one_def split_def Let_def)

lemma env_freeze_one [simp]: "env (snd (freeze_one n i s)) = env (snd s)"
  by (simp add: freeze_one_def split_def Let_def)

lemma freeze_fold: "core (snd (fold (freeze_one n) xs s)) = core (snd s) \<and> env (snd (fold (freeze_one n) xs s)) = env (snd s)"
  by (induction xs arbitrary: s) simp_all

lemma graph_good_frozen:
  assumes "graph_good g" "core g' = core g" "next_task_id g' = next_task_id g" "list_all msg_ok (deferred g')"
  shows "graph_good g'"
  using assms good_core_iff[of g' g] by (simp add: graph_good_def)

lemma graph_good_freeze:
  assumes inv: "graph_good g" and f: "freeze reply g = Some g'"
  shows "graph_good g'"
proof -
  obtain dead g1 where run: "fold (freeze_one (freezes g + 1)) (hm_keys (tasks g)) (None, g\<lparr>freezes := freezes g + 1\<rparr>) = (dead, g1)"
    by (cases "fold (freeze_one (freezes g + 1)) (hm_keys (tasks g)) (None, g\<lparr>freezes := freezes g + 1\<rparr>)")
  have g1: "core g1 = core g" "env g1 = env g"
    using freeze_fold[of "freezes g + 1" "hm_keys (tasks g)" "(None, g\<lparr>freezes := freezes g + 1\<rparr>)"] run by simp_all
  have held: "graph_good (g2\<lparr>frozen := Some f\<rparr>)"
    if "fz_deferred f = []" "core g2 = core g1" "next_task_id g2 = next_task_id g1" for g2 f
    by (rule graph_good_frozen[OF inv]) (use g1 that in \<open>simp_all add: env_def deferred_def\<close>)
  have sent: "next_task_id (send_reply ch r g1) = next_task_id g1" for ch r by (simp add: send_reply_def)
  show ?thesis using f run
    by (cases dead; cases reply) (auto simp: freeze_def Let_def intro!: held sent)
qed

lemma graph_good_on_task_frozen: "graph_good g \<Longrightarrow> graph_good (on_task_frozen i n kind g)"
proof (rule graph_good_frozen)
  assume inv: "graph_good g"
  then show "graph_good g" .
  show "list_all msg_ok (deferred (on_task_frozen i n kind g))"
    using inv by (cases "frozen g") (auto simp: on_task_frozen_def deferred_def graph_good_def)
qed (auto simp: on_task_frozen_def split: option.splits)

lemma graph_good_finish_freeze:
  assumes "graph_good g"
  shows "graph_good (snd (finish_freeze_if_complete g))"
proof (rule graph_good_frozen[OF assms])
  show "core (snd (finish_freeze_if_complete g)) = core g"
    by (simp add: finish_freeze_if_complete_def Let_def split: option.splits freeze_reply.splits)
  show "next_task_id (snd (finish_freeze_if_complete g)) = next_task_id g"
    by (simp add: finish_freeze_if_complete_def Let_def send_reply_def split: option.splits freeze_reply.splits)
  show "list_all msg_ok (deferred (snd (finish_freeze_if_complete g)))"
    using assms
    by (cases "frozen g"; cases "fz_reply (the (frozen g))")
      (auto simp: graph_good_def finish_freeze_if_complete_def Let_def send_reply_def deferred_def split: freeze_reply.splits)
qed

lemma graph_good_thaw:
  assumes "graph_good g" "thaw g = (msgs, g')"
  shows "graph_good g' \<and> list_all msg_ok msgs"
proof (cases "frozen g")
  case None
  then show ?thesis using assms by (simp add: thaw_def)
next
  case (Some f)
  have c: "core (fold (\<lambda>i. send_cmd i CmdThaw) xs g) = core g \<and> env (fold (\<lambda>i. send_cmd i CmdThaw) xs g) = env g" for xs and g :: graph
    by (induction xs arbitrary: g) simp_all
  have "graph_good g'"
    by (rule graph_good_frozen[OF assms(1)]) (use assms(2) Some c in \<open>auto simp: thaw_def env_def deferred_def\<close>)
  then show ?thesis using assms Some by (simp add: thaw_def graph_good_def deferred_def)
qed

section \<open>Each command\<close>

lemma graph_good_duplicate: "graph_good g \<Longrightarrow> duplicate i req g = Some (e, g') \<Longrightarrow> graph_good g'"
  using good_duplicate[of g i req e g'] env_duplicate[of i req g e g'] by (simp add: graph_good_def deferred_def)

lemma graph_good_duplicate_all: "graph_good g \<Longrightarrow> duplicate_all req ids g = Some (e, g') \<Longrightarrow> graph_good g'"
proof (induction ids arbitrary: g)
  case (Cons i ids)
  obtain e1 g1 where d: "duplicate i req g = Some (e1, g1)" using Cons.prems(2) by (auto split: option.splits)
  have "graph_good g1" by (rule graph_good_duplicate[OF Cons.prems(1) d])
  then show ?case using Cons.IH Cons.prems(2) d by (cases e1) auto
qed simp

lemma good_register_batch:
  assumes "good g" "list_all registration_ok rs" "register_batch sender rs g = Some (res, g')"
  shows "good g'"
proof -
  obtain reg where "register_tasks (map (Pair None) (filter (\<lambda>r. can_register g sender (registration_space r)) rs)) g = Some (reg, g')"
    using assms(3) by (auto simp: register_batch_def Let_def bind_eq_Some_conv)
  then show ?thesis
    by (rule good_register_tasks[OF assms(1), rotated]) (use assms(2) in \<open>auto simp: list_all_iff entry_ok_def\<close>)
qed

lemma good_remove_selected: "good g \<Longrightarrow> good (snd (remove_selected sender sel g))"
  by (auto simp: remove_selected_def Let_def split_def intro!: good_folds good_remove_folder good_remove_task)

lemma good_on_reports:
  assumes "good g"
  shows "good (on_task_started i g)" "good (on_task_ready i g)" "good (on_task_stopped i e g)"
  using assms apply_effect_good[of g i EffStarted] apply_effect_good[of g i EffReady] apply_effect_good[of g i "EffStopped e"]
  by simp_all

lemma graph_good_command:
  assumes inv: "graph_good g" and ok: "command_ok c" and run: "graph_command from c g = Some g'"
  shows "graph_good g'"
proof -
  note good = graph_goodD[OF inv]
  note step = graph_good_step[OF inv]
  show ?thesis
  proof (cases c)
    case (RegisterTask r ack)
    then show ?thesis using run ok inv good
      by (auto split: if_splits dest: good_register[OF good _ _, where saved = None] env_register intro!: step)
  next
    case (RegisterTasks rs ack)
    then show ?thesis using run ok inv
      by (auto intro!: step dest: good_register_batch[OF good] env_register_batch)
  next
    case (Act verb sel ack)
    then show ?thesis using run good_act[OF good, of verb "from" sel]
      by (auto intro!: step dest: env_act)
  next
    case (Unpin sel ack)
    have "good (fold (\<lambda>i. set_pin i False) xs g)" for xs
      by (rule good_folds[OF good]) (simp add: good_def good_set_pin)
    then show ?thesis using run Unpin by (auto simp: Let_def intro!: step env_fold)
  next
    case (Remove sel ack)
    then show ?thesis using run good_remove_selected[OF good, of "from" sel] env_remove_selected[of "from" sel g]
      by (auto simp: Let_def split_def intro!: step)
  next
    case (DropFolder i ack)
    then show ?thesis using run inv good good_remove_folder[OF good, of i] env_remove_folder[of i g]
      by (auto simp: Let_def split_def split: if_splits intro!: step)
  next
    case (SetFolder i s ack)
    then show ?thesis using run inv good good_set_folder[OF good, of i s] env_set_folder[of i s g]
      by (auto simp: Let_def split_def split: if_splits intro!: step)
  next
    case (SetLabel sel l ack)
    have "good (fold (\<lambda>i. set_task_label i l) xs g)" for xs
      by (rule good_folds[OF good]) (rule good_set_task_label)
    then show ?thesis using run SetLabel by (auto simp: Let_def intro!: step env_fold)
  next
    case (Duplicate sel req ack)
    then show ?thesis using run by (auto simp: Let_def dest: graph_good_duplicate_all[OF inv])
  next
    case (Update sel u ack)
    then obtain z where z: "update_tasks from sel u g = Some z"
      "g' = (case z of Inl e \<Rightarrow> send_reply ack (CountResult (Inl e)) g | Inr (n, g1) \<Rightarrow> send_reply ack (CountResult (Inr n)) g1)"
      using run by auto
    show ?thesis
      using z good by (cases z) (auto intro!: step dest: good_update_tasks[OF good] env_update_tasks)
  next
    case (SetOrigin sel origin ack)
    have "good (fold (\<lambda>i. set_origin i origin) xs g)" for xs
      by (rule good_folds[OF good]) (rule good_set_origin)
    then show ?thesis using run SetOrigin by (auto simp: Let_def intro!: step env_fold)
  next
    case (Move req ack)
    show ?thesis
    proof (cases "can_register g from (mv_space req)")
      case True
      then obtain z where z: "move_tasks req g = Some z"
        "g' = (case z of Inl e \<Rightarrow> send_reply ack (MoveResult (Inl e)) g | Inr (n, g1) \<Rightarrow> send_reply ack (MoveResult (Inr n)) g1)"
        using run Move by auto
      show ?thesis
        using z good by (cases z) (auto intro!: step dest: good_move_tasks[OF good] env_move_tasks)
    next
      case False
      then show ?thesis using run Move good by (auto intro!: step)
    qed
  next
    case (TaskMsg i m)
    then show ?thesis using run good by (auto intro!: step)
  next
    case (Query q)
    then show ?thesis using run graph_good_calm[OF inv calm_handle_query[of g q]] by simp
  next
    case TaskStarted
    then show ?thesis using run good_on_reports[OF good] by (auto intro!: step)
  next
    case TaskReady
    then show ?thesis using run good_on_reports[OF good] by (auto intro!: step)
  next
    case (TaskStopped e)
    then show ?thesis using run good_on_reports[OF good] by (auto intro!: step)
  next
    case (StateTimeout i epoch)
    then show ?thesis using run on_state_timeout_good[OF good, of i epoch] by (auto intro!: step dest: env_on_state_timeout)
  next
    case (SubscribePath key m)
    then show ?thesis using run good_subscribe[OF good] by (auto intro!: step)
  next
    case (UnsubscribePath key m)
    then show ?thesis using run good_unsubscribe[OF good] by (auto intro!: step)
  next
    case (WatchActive sel ch)
    then show ?thesis using run good by (auto simp: watch_active_def intro!: step)
  next
    case (Wait r)
    have acts: "good g1 \<and> env g1 = env g" if "act verb from sel g = Some (ids, g1)" for verb sel ids g1
      using that good_act[OF good, of verb "from" sel] env_act[OF that] by auto
    show ?thesis using run Wait acts good
      by (cases "wr_on r") (auto simp: begin_wait_def Let_def bind_eq_Some_conv intro!: step)
  next
    case (Freeze ch)
    then show ?thesis using run inv graph_good_freeze by (auto simp: begin_freeze_def split: if_splits)
  next
    case (TaskFrozen number kind)
    then show ?thesis using run graph_good_on_task_frozen[OF inv] by auto
  qed (use run inv in auto)
qed


section \<open>The kernel\<close>

definition kernel_good :: "kernel \<Rightarrow> bool" where
  "kernel_good k \<longleftrightarrow> graph_good (k_graph k) \<and> list_all msg_ok (k_replay k)"

lemma kernel_good_thaw: "kernel_good k \<Longrightarrow> kernel_good (thaw_kernel k)"
  using graph_good_thaw[of "k_graph k"] by (auto simp: kernel_good_def thaw_kernel_def split: prod.splits)

lemma graph_good_begin_quit: "graph_good g \<Longrightarrow> graph_good (snd (begin_quit g))"
  using graph_good_step[of g "snd (begin_quit g)"] good_begin_quit[of g] by (simp add: graph_good_def)

lemma kernel_good_quit_kernel: "kernel_good k \<Longrightarrow> kernel_good (snd (quit_kernel k))"
  using graph_good_begin_quit[of "k_graph k"] by (simp add: kernel_good_def quit_kernel_def Let_def split_def)

lemma kernel_good_fields [simp]:
  "kernel_good (k\<lparr>k_sleeps := sl\<rparr>) = kernel_good k" "kernel_good (k\<lparr>k_saved := sv\<rparr>) = kernel_good k"
  "kernel_good (k\<lparr>k_timers := ti\<rparr>) = kernel_good k"
  by (simp_all add: kernel_good_def)

lemma kernel_good_graph: "kernel_good k \<Longrightarrow> graph_good g \<Longrightarrow> kernel_good (k\<lparr>k_graph := g\<rparr>)"
  by (simp add: kernel_good_def)

lemma kernel_good_graphD: "kernel_good k \<Longrightarrow> graph_good (k_graph k)"
  by (simp add: kernel_good_def)

lemma kernel_good_quit:
  assumes inv: "kernel_good k" and run: "quit save reply k = Some (b, k')"
  shows "kernel_good k'"
proof (cases "save \<and> k_save_set k \<and> \<not> quitting (k_graph k)")
  case True
  obtain g1 number g2 where g1: "(case reply of
            None \<Rightarrow> Some (k_graph k)
          | Some ch \<Rightarrow> map_option (\<lambda>w. send_reply ch (QuitBoundReply (save_timeout + w)) (k_graph k)) (stop_within (k_graph k))) = Some g1"
      and g2: "begin_quit_freeze g1 = Some (number, g2)" and k': "k' = k\<lparr>k_graph := g2, k_sleeps := k_sleeps k @ [(now g2 + save_timeout, number)]\<rparr>"
    using run True by (auto simp: quit_def bind_eq_Some_conv)
  have "graph_good g1" using g1 kernel_good_graphD[OF inv] by (auto split: option.splits)
  then have "graph_good g2" using g2 graph_good_freeze by (auto simp: begin_quit_freeze_def)
  then show ?thesis using inv by (simp add: k' kernel_good_def)
next
  case False
  define k2 where "k2 = snd (quit_kernel (if freezing_for_quit (k_graph k) then thaw_kernel k else k))"
  have "kernel_good k2" using inv kernel_good_thaw kernel_good_quit_kernel by (simp add: k2_def)
  moreover have "k' = k2 \<or> (\<exists>ch r. k' = with_graph (send_reply ch r) k2)"
    using run False by (auto simp: quit_def Let_def split_def k2_def split: option.splits if_splits)
  ultimately show ?thesis by (auto simp: kernel_good_def with_graph_def)
qed

lemma kernel_good_run_command:
  assumes inv: "kernel_good k" and ok: "msg_ok msg" and run: "run_command msg k = Some (b, k')"
  shows "kernel_good k'"
proof -
  have commands: "kernel_good k'" if "map_option (\<lambda>g. (None, k\<lparr>k_graph := g\<rparr>)) (graph_command (km_from msg) (km_command msg) (k_graph k)) = Some (b, k')"
    using that kernel_good_graph[OF inv] graph_good_command[OF kernel_good_graphD[OF inv]] ok by (auto simp: msg_ok_def)
  show ?thesis
    using run commands inv kernel_good_thaw[OF inv] kernel_good_quit[OF inv] kernel_good_quit_kernel[OF kernel_good_thaw[OF inv]]
    by (cases "km_command msg") (auto simp: run_command_def Let_def split_def split: if_splits)
qed

lemma kernel_good_dispatch_now:
  assumes inv: "kernel_good k" and ok: "msg_ok msg" and run: "dispatch_now msg k = Some (b, k')"
  shows "kernel_good k'"
proof -
  obtain r k1 where k1: "run_command msg k = Some (r, k1)" using run by (auto simp: dispatch_now_def split: option.splits)
  have good1: "kernel_good k1" by (rule kernel_good_run_command[OF inv ok k1])
  define g where "g = snd (finish_freeze_if_complete (k_graph k1))"
  have good2: "kernel_good (k1\<lparr>k_graph := g\<rparr>)"
    using kernel_good_graph[OF good1] graph_good_finish_freeze[OF kernel_good_graphD[OF good1]] by (simp add: g_def)
  have "k' = k1 \<or> k' = k1\<lparr>k_graph := g\<rparr> \<or> (\<exists>sv. k' = snd (quit_kernel (thaw_kernel ((k1\<lparr>k_graph := g\<rparr>)\<lparr>k_saved := sv\<rparr>))))"
    using run k1 by (auto simp: dispatch_now_def g_def Let_def split: option.splits prod.splits) (metis snd_conv)+
  then show ?thesis
    using good1 good2 kernel_good_thaw kernel_good_quit_kernel by (auto simp del: kernel.update_convs)
qed


lemma kernel_good_with_graph: "kernel_good k \<Longrightarrow> graph_good (f (k_graph k)) \<Longrightarrow> kernel_good (with_graph f k)"
  by (simp add: kernel_good_def with_graph_def)

lemma kernel_good_dispatch:
  assumes inv: "kernel_good k" and ok: "msg_ok msg" and run: "dispatch msg k = Some (b, k')"
  shows "kernel_good k'"
proof (cases "frozen (k_graph k)")
  case None
  then show ?thesis using run kernel_good_dispatch_now[OF inv ok] by (simp add: dispatch_def Let_def)
next
  case (Some f)
  define kd where "kd = k\<lparr>k_graph := (k_graph k)\<lparr>frozen := Some (f\<lparr>fz_deferred := fz_deferred f @ [msg]\<rparr>)\<rparr>\<rparr>"
  have "graph_good ((k_graph k)\<lparr>frozen := Some (f\<lparr>fz_deferred := fz_deferred f @ [msg]\<rparr>)\<rparr>)"
    by (rule graph_good_frozen[OF kernel_good_graphD[OF inv]])
      (use kernel_good_graphD[OF inv] Some ok in \<open>simp_all add: graph_good_def deferred_def\<close>)
  then have late: "kernel_good kd" unfolding kd_def by (rule kernel_good_graph[OF inv])
  have told: "kernel_good (with_graph (send_reply ch r) k)" for ch r
    by (rule kernel_good_with_graph[OF inv]) (simp add: kernel_good_graphD[OF inv])
  have "dispatch_now msg k = Some (b, k') \<or> k' = kd \<or> k' = k \<or> (\<exists>ch r. k' = with_graph (send_reply ch r) k)"
    using run Some by (cases "km_command msg") (auto simp: dispatch_def Let_def kd_def split: if_splits)
  then show ?thesis using kernel_good_dispatch_now[OF inv ok] late inv told by auto
qed

lemma kernel_good_after_dispatch:
  assumes inv: "kernel_good k" and run: "after_dispatch k = Some k'"
  shows "kernel_good k'"
proof (cases "frozen (k_graph k)")
  case None
  obtain g1 g3 g4 where g1: "settle (k_graph k) = Some g1"
      and g3: "(if state_changed g1 then check_active_watches (g1\<lparr>state_changed := False\<rparr>) else Some (g1\<lparr>state_changed := False\<rparr>)) = Some g3"
      and g4: "check_waits (state_changed g1) g3 = Some g4" and k': "k' = update_timers (k\<lparr>k_graph := g4\<rparr>)"
    using run None by (auto simp: after_dispatch_def Let_def bind_eq_Some_conv)
  have "graph_good g1"
    using graph_good_step[OF kernel_good_graphD[OF inv] _ env_settle[OF g1]] settle_good[of "k_graph k"] g1
      graph_goodD[OF kernel_good_graphD[OF inv]] by auto
  moreover have "calm g1 g3" using g3 calm_check_active_watches[of "g1\<lparr>state_changed := False\<rparr>" g3]
    by (auto simp: calm_def split: if_splits)
  ultimately have "graph_good g4" using graph_good_calm calm_check_waits[OF g4] by blast
  then have "graph_good (g4\<lparr>timer_changes := []\<rparr>)" by (rule graph_good_calm) simp
  then show ?thesis using inv by (simp add: k' update_timers_def Let_def kernel_good_def)
qed (use run inv in \<open>simp add: after_dispatch_def\<close>)

lemma graph_good_clock: "graph_good g \<Longrightarrow> graph_good (g\<lparr>now := t, closed := cl\<rparr>)"
  by (simp add: graph_good_def deferred_def)

lemma kernel_good_turn:
  assumes inv: "kernel_good k" and ok: "msg_ok msg" and run: "turn msg t cl k = Some (b, k')"
  shows "kernel_good k'"
proof -
  obtain stop k1 where k1: "dispatch msg (with_graph (\<lambda>g. g\<lparr>now := t, closed := cl\<rparr>) k) = Some (stop, k1)"
      and k': "k' = k1 \<or> after_dispatch k1 = Some k'"
    using run by (auto simp: turn_def Let_def bind_eq_Some_conv split: if_splits)
  have "kernel_good k1"
    using kernel_good_dispatch[OF kernel_good_with_graph[OF inv] ok k1] graph_good_clock kernel_good_graphD[OF inv] by blast
  then show ?thesis using k' kernel_good_after_dispatch by auto
qed

lemma kernel_good_step:
  assumes step: "kernel_step sends k k'" and sends: "\<And>msg. sends msg \<Longrightarrow> msg_ok msg" and inv: "kernel_good k"
  shows "kernel_good k'"
  using step
proof cases
  case (replayed msg rest t cl)
  have "kernel_good (k\<lparr>k_replay := rest\<rparr>)" "msg_ok msg" using inv replayed(1) by (simp_all add: kernel_good_def)
  then show ?thesis using kernel_good_turn replayed(3) by blast
next
  case (received msg t cl)
  then show ?thesis using kernel_good_turn[OF inv sends] by blast
next
  case (expired i epoch due t cl)
  then show ?thesis using kernel_good_turn[OF _ _ expired(5)] inv by (simp add: msg_ok_def)
next
  case (slept due number t cl)
  then show ?thesis using kernel_good_turn[OF _ _ slept(5)] inv by (simp add: msg_ok_def)
qed

end
