(* ===== verification/Runs.thy ===== *)
theory Runs
  imports Main
begin

text \<open>
  Runs of a step system: the states reached from its starting states, and the contract of a system
  with an invariant. The kernel's loop (\<open>Kernel_Runs\<close>) and a program's task (\<open>Process_Reports\<close>) keep it.
\<close>

inductive reachable :: "('s \<Rightarrow> bool) \<Rightarrow> ('s \<Rightarrow> 's \<Rightarrow> bool) \<Rightarrow> 's \<Rightarrow> bool" for start step where
  start: "start s \<Longrightarrow> reachable start step s"
| step: "reachable start step s \<Longrightarrow> step s t \<Longrightarrow> reachable start step t"

locale safe_runs =
  fixes start :: "'s \<Rightarrow> bool" and step :: "'s \<Rightarrow> 's \<Rightarrow> bool" and safe :: "'s \<Rightarrow> bool"
  assumes start_safe: "start s \<Longrightarrow> safe s"
    and step_safe: "step s t \<Longrightarrow> safe s \<Longrightarrow> safe t"
begin

lemma always: "reachable start step s \<Longrightarrow> safe s"
  by (induction rule: reachable.induct) (auto intro: start_safe step_safe)

lemma always_then: "reachable start step s \<Longrightarrow> step s t \<Longrightarrow> safe t"
  using always reachable.step by metis

end

end
