(* ===== verification/Kernel_Runs.thy ===== *)
theory Kernel_Runs
  imports Kernel_Safe Runs
begin

text \<open>
  Runs of the kernel: whatever it is told, in whatever order, and whatever its timers do, the
  states it comes through obey the invariant. What that says of tasks, edges, counts, caches and
  timers is read off here.
\<close>

section \<open>Where the kernel starts\<close>

text \<open>
  A new kernel, or one into which a snapshot was restored: its entries are what a kernel saved, and
  the ids it goes on from are past the kernel's own.
\<close>

inductive booted :: "kernel \<Rightarrow> bool" where
  fresh: "booted (kernel_new t save)"
| restored: "0 < next \<Longrightarrow> list_all entry_ok batch \<Longrightarrow>
     restore next batch t (kernel_new t0 save) = Some (e, k) \<Longrightarrow> booted k"

lemma good_graph_new: "good (graph_new t)"
proof -
  have none: "vw (graph_new t) i = None" for i by (simp add: vw_def graph_new_def)
  have deps: "deps_of (graph_new t) i = []" "requirers_of (graph_new t) i = []" for i
    by (simp_all add: deps_of_def requirers_of_def graph_new_def)
  have "edge_set (graph_new t) = {}" by (simp add: edge_set_def deps)
  then have "graph_ok (graph_new t)" by (simp add: graph_ok_def deps none dom_def acyclic_def) (simp add: graph_new_def)
  moreover have "queue_ok (graph_new t)" by (simp add: queue_ok_def graph_new_def)
  ultimately show ?thesis
    by (simp add: good_def good_but_def kinv_def counts_ok_def caches_ok_def handles_ok_def driven_but_def lawful_but_def legal_log_def none)
      (simp add: graph_new_def)
qed

lemma graph_good_new: "graph_good (graph_new t)"
  using good_graph_new by (simp add: graph_good_def deferred_def graph_new_def)

lemma kernel_good_booted: "booted k \<Longrightarrow> kernel_good k"
proof (induction rule: booted.induct)
  case (fresh t save)
  then show ?case using graph_good_new by (simp add: kernel_good_def kernel_new_def)
next
  case (restored n batch t t0 save e k)
  let ?g = "(graph_new t0)\<lparr>next_task_id := n, now := t\<rparr>"
  have "good ?g" using good_graph_new[of t0] good_core_iff[of ?g "graph_new t0"] by (simp add: core_def vw_def[abs_def] task_ids_def)
  then have inv: "graph_good ?g" using restored(1) by (simp add: graph_good_def deferred_def graph_new_def)
  have "graph_good (k_graph k) \<and> k_replay k = []"
    using restored(3) inv good_register_tasks[OF graph_goodD[OF inv] restored(2)] graph_good_step[OF inv] env_register_tasks
    by (auto simp: restore_def Let_def kernel_new_def split: option.splits)
  then show ?case by (simp add: kernel_good_def)
qed

interpretation kernel_runs: safe_runs booted "kernel_step msg_ok" kernel_good
  by unfold_locales (auto intro: kernel_good_booted kernel_good_step)

abbreviation kernel_reached :: "kernel \<Rightarrow> bool" where
  "kernel_reached \<equiv> reachable booted (kernel_step msg_ok)"

lemma reached_good: "kernel_reached k \<Longrightarrow> good (k_graph k)"
  using kernel_runs.always[of k] by (simp add: kernel_good_def graph_good_def)

section \<open>What every reached kernel obeys\<close>

lemma task_vw: "task_at g i = Some h \<Longrightarrow> vw g i = Some (hview h)"
  by (rule vwI)

lemma good_counts:
  assumes "good g" "task_at g i = Some h"
  shows "h_wanted_parents h = int (length (filter (parent_wanted g) (requirers_of g i)))"
    "h_active_dependents h = int (length (filter (parent_active g) (requirers_of g i)))"
  using kinvD(3)[OF good_kinv[OF assms(1)], unfolded counts_ok_def, rule_format, OF task_vw[OF assms(2)]] by simp_all

lemma has_timer_hview [simp]: "has_timer (hview h) = has_timer h"
  by (rule has_timer_fields) simp_all

lemma good_deadline: "good g \<Longrightarrow> task_at g i = Some h \<Longrightarrow> h_deadline h \<noteq> None \<longleftrightarrow> has_timer h"
  using good_lawful_at[of g i "hview h"] task_vw[of g i h] by (auto simp: lawful_def)

end
