(* ===== verification/Kernel_Demo.thy ===== *)
theory Kernel_Demo
  imports Kernel_Runs
begin

text \<open>
  A run evaluated in the kernel of the prover, to apply the theorems to: a pinned target, then a
  pinned service that needs it and reports when it is ready, then that service starting.
\<close>

section \<open>Evaluation\<close>

lemma settle_steps_numeral:
  "settle_steps (numeral n) g =
     (case pending_effects g of
        (i, e) # fx \<Rightarrow> settle_steps (pred_numeral n) (apply_effect i e (g\<lparr>pending_effects := fx\<rparr>))
      | [] \<Rightarrow>
          if dirty g \<noteq> [] then Option.bind (reconcile_round g) (settle_steps (pred_numeral n))
          else Some g)"
  by (simp add: numeral_eq_Suc)

lemma propagate_case:
  "propagate td g =
     (case dirty g of
        [] \<Rightarrow> Some (td, g)
      | i # d \<Rightarrow> propagate (if i \<in> set td then td else td @ [i])
          (recompute_caches i (g\<lparr>dirty := d, in_queue := hs_del i (in_queue g)\<rparr>)))"
  by (subst propagate.simps) (simp add: pop_dirty_def split: list.splits)

lemma bind_weak_cong: "x = y \<Longrightarrow> Option.bind x f = Option.bind y f"
  by simp

lemmas run_simps =
  install_task_def task_def_default_def Let_def graph_new_def new_handle_def restored_timer_def
  set_tags_def index_tags_def unindex_tags_def handle_def_spec_def hm_put_def hm_del_def upd_task_def hm_adj_def enqueue_def
  notify_subscribers_def init_task_id_def deliver_def turn_def dispatch_def dispatch_now_def run_command_def
  finish_freeze_if_complete_def with_graph_def kernel_new_def register_task_with_id_def resolve_deps_def matching_ids_def
  can_register_def is_reserved_def send_reply_def default_space_def dekit_space_def hs_ins_def hs_del_def
  hs_extend_def after_dispatch_def settle_def reconcile_round_def pop_dirty_def recompute_caches_def
  recompute_wanted_def recompute_supported_def compute_wanted_def compute_supported_def count_wanted_def
  enqueue_parents_def deps_of_def requirers_of_def add_edge_def parent_wanted_def parent_active_def
  add_counts_def drive_task_def start_task_def set_state_def send_cmd_def give_cmd_def queue_effects_def
  target_effects_def enter_state_def notify_changed_def is_satisfied_def on_task_started_def
  started_state_def count_active_def check_active_watches_def check_waits_def update_timers_def
  update_timer_def timer_of_def schedule_state_timeout_def
  propagate_case settle_steps_numeral dep_holds_def no_active_tasks_def

section \<open>The run\<close>

text \<open>Messages fed one after the other, with when they are taken.\<close>

fun feed :: "(kernel_message \<times> nat) list \<Rightarrow> kernel \<Rightarrow> kernel option" where
  "feed [] k = Some k"
| "feed ((msg, t) # msgs) k =
     (if k_replay k = [] \<and> clock_ok t [] k
      then Option.bind (turn msg t [] k) (\<lambda>(stop, k'). if stop then None else feed msgs k')
      else None)"

lemma feed_reached:
  "kernel_reached k \<Longrightarrow> list_all (\<lambda>(msg, t). msg_ok msg) msgs \<Longrightarrow> feed msgs k = Some k' \<Longrightarrow> kernel_reached k'"
proof (induction msgs arbitrary: k)
  case (Cons m msgs)
  obtain msg t where m: "m = (msg, t)" by (cases m)
  obtain k1 where k1: "k_replay k = []" "clock_ok t [] k" "turn msg t [] k = Some (False, k1)" "feed msgs k1 = Some k'"
    using Cons.prems(3) by (auto simp: m bind_eq_Some_conv split: if_splits)
  have "kernel_step msg_ok k k1" by (rule kernel_step.received[OF k1(1) _ k1(2,3)]) (use Cons.prems(2) m in simp)
  then show ?case using Cons.IH[OF reachable.step[OF Cons.prems(1)]] Cons.prems(2) k1(4) m by simp
qed simp

definition demo_target :: task_def where
  "demo_target = TaskDef ((def_of task_def_default)\<lparr>def_pinned := True\<rparr>) None"

definition demo_service :: task_def where
  "demo_service = TaskDef ((def_of task_def_default)
     \<lparr>def_pinned := True, def_ready := Reported (Some 9), def_deps := [SelId 5]\<rparr>) None"

definition demo_register :: "nat \<Rightarrow> task_def \<Rightarrow> task_obj \<Rightarrow> kernel_message" where
  "demo_register i d obj = \<lparr>km_from = 0, km_command = RegisterTask (TaskRegistration i d (\<lambda>_. obj)) 7\<rparr>"

definition demo_msgs :: "(kernel_message \<times> nat) list" where
  "demo_msgs =
     [(demo_register 5 demo_target target_task, 20),
      (demo_register 6 demo_service (channel_task (\<lambda>_. True) 0), 30),
      (\<lparr>km_from = 6, km_command = TaskStarted\<rparr>, 40)]"

definition demo_up :: task_handle where
  "demo_up = (new_handle (def_of demo_target) None target_task)
     \<lparr>h_state := Ready, h_epoch := 2, h_last_start := Some 20, h_wanted := True, h_supported := True,
      h_wanted_parents := 2, h_active_dependents := 1\<rparr>"

definition demo_running :: task_handle where
  "demo_running = (new_handle (def_of demo_service) None (channel_task (\<lambda>_. True) 1))
     \<lparr>h_state := Running, h_epoch := 2, h_last_start := Some 30, h_deadline := Some 49, h_wanted := True,
      h_supported := True, h_wanted_parents := 1\<rparr>"

definition demo_graph :: graph where
  "demo_graph = (graph_new 40)
     \<lparr>tasks := [(5, demo_up), (6, demo_running)],
      edges := [(0, [5, 6]), (6, [5])], redges := [(5, [0, 6]), (6, [0])],
      transitions := [(5, Idle, Starting, False), (5, Starting, Ready, False),
        (6, Idle, Starting, False), (6, Starting, Running, False)],
      sent := [(5, SentStart), (6, SentStart)], outbox := [(7, RegisterReply None), (7, RegisterReply None)]\<rparr>"

definition demo_kernel :: kernel where
  "demo_kernel = (kernel_new 0 False)\<lparr>k_graph := demo_graph, k_timers := [(6, 2, 49)]\<rparr>"

lemmas demo_simps = run_simps demo_target_def demo_service_def demo_register_def demo_graph_def demo_kernel_def
  demo_up_def demo_running_def

lemma demo_feed: "feed demo_msgs (kernel_new 0 False) = Some demo_kernel"
  by (simp add: demo_msgs_def clock_ok_def demo_simps cong: let_weak_cong bind_weak_cong)

lemma demo_reached: "kernel_reached demo_kernel"
proof (rule feed_reached[OF reachable.start[of booted "kernel_new 0 False"] _ demo_feed])
  show "list_all (\<lambda>(msg, t). msg_ok msg) demo_msgs"
    by (simp add: demo_msgs_def demo_register_def msg_ok_def init_task_id_def)
qed (rule booted.fresh)

lemma demo_good: "good demo_graph"
  using reached_good[OF demo_reached] by (simp add: demo_kernel_def)

lemma demo_fields:
  "k_graph demo_kernel = demo_graph" "dirty demo_graph = []" "quitting demo_graph = False"
  "deps_of demo_graph 6 = [5]" "deps_of demo_graph 5 = []" "deps_of demo_graph 0 = [5, 6]"
  "task_at demo_graph 5 = Some demo_up" "task_at demo_graph 6 = Some demo_running"
  "requirers_of demo_graph 5 = [0, 6]" "requirers_of demo_graph 6 = [0]" "hm_keys (tasks demo_graph) = [5, 6]"
  by (simp_all add: demo_kernel_def demo_graph_def kernel_new_def graph_new_def deps_of_def requirers_of_def)

end
