(* ===== verification/Kernel_Live.thy ===== *)
theory Kernel_Live
  imports Kernel_Runs
begin

text \<open>
  The memoised searches along the edges: on a graph without cycles \<open>is_live\<close>, \<open>first_dead\<close>,
  \<open>dead_root\<close> and \<open>stop_within\<close> return, and give what their plain recursive readings say.
\<close>

section \<open>Liveness\<close>

text \<open>A task is live when it may run and each of its deps is satisfied or live.\<close>

inductive live_task :: "graph \<Rightarrow> nat \<Rightarrow> bool" for g where
  "may_run g i \<Longrightarrow> (\<And>d. d \<in> set (deps_of g i) \<Longrightarrow> \<not> satisfied_at g d \<Longrightarrow> live_task g d) \<Longrightarrow> live_task g i"

inductive_simps live_task_iff: "live_task g i"

definition memo_ok :: "graph \<Rightarrow> live_memo \<Rightarrow> bool" where
  "memo_ok g memo \<longleftrightarrow> (\<forall>i l. hm_get memo i = Some l \<longrightarrow> l = live_task g i)"

lemma memo_ok_nil [simp]: "memo_ok g []"
  by (simp add: memo_ok_def)

lemma memo_ok_put: "memo_ok g m \<Longrightarrow> l = live_task g i \<Longrightarrow> memo_ok g (hm_put i l m)"
  by (simp add: memo_ok_def)

lemma all_live_spec:
  assumes "\<And>d m. d \<in> set ds \<Longrightarrow> memo_ok g m \<Longrightarrow> \<exists>m'. is_live g d m = Some (live_task g d, m') \<and> memo_ok g m'"
    and "memo_ok g m"
  shows "\<exists>m'. all_live g ds m = Some (list_all (\<lambda>d. satisfied_at g d \<or> live_task g d) ds, m') \<and> memo_ok g m'"
  using assms
proof (induction ds arbitrary: m)
  case (Cons d ds)
  show ?case
  proof (cases "satisfied_at g d")
    case True
    then show ?thesis using Cons by simp
  next
    case False
    obtain m1 where m1: "is_live g d m = Some (live_task g d, m1)" "memo_ok g m1" using Cons.prems by force
    show ?thesis
    proof (cases "live_task g d")
      case True
      then show ?thesis using m1 False Cons.IH[OF _ m1(2)] Cons.prems(1) by simp
    qed (use m1 False in simp)
  qed
qed simp

lemma is_live_spec:
  assumes wf: "wf ((edge_set g)\<inverse>)"
  shows "memo_ok g m \<Longrightarrow> \<exists>m'. is_live g i m = Some (live_task g i, m') \<and> memo_ok g m'"
proof (induction i arbitrary: m rule: wf_induct_rule[OF wf])
  case (1 i)
  show ?case
  proof (cases "hm_get m i")
    case (Some l)
    then show ?thesis using 1(2) by (simp add: is_live_def memo_ok_def)
  next
    case None
    have "\<exists>m'. (if may_run g i then all_live g (deps_of g i) m else Some (False, m)) = Some (live_task g i, m') \<and> memo_ok g m'"
    proof (cases "may_run g i")
      case True
      have "\<exists>m'. is_live g d m = Some (live_task g d, m') \<and> memo_ok g m'" if "d \<in> set (deps_of g i)" "memo_ok g m" for d m
        using 1(1)[of d m] that by (simp add: edge_set_def)
      from all_live_spec[OF this 1(2)]
      obtain m' where m': "all_live g (deps_of g i) m = Some (list_all (\<lambda>d. satisfied_at g d \<or> live_task g d) (deps_of g i), m')" "memo_ok g m'"
        by blast
      moreover have "list_all (\<lambda>d. satisfied_at g d \<or> live_task g d) (deps_of g i) = live_task g i"
        using True unfolding live_task_iff[of g i] list_all_iff by blast
      ultimately show ?thesis using True by simp
    next
      case False
      then have "\<not> live_task g i" using live_task_iff[of g i] by blast
      then show ?thesis using False 1(2) by simp
    qed
    then obtain m' where "(if may_run g i then all_live g (deps_of g i) m else Some (False, m)) = Some (live_task g i, m')" "memo_ok g m'"
      by blast
    then show ?thesis using None memo_ok_put by (simp add: is_live_def)
  qed
qed

lemma good_wf_deps: "good g \<Longrightarrow> wf ((edge_set g)\<inverse>)"
  using finite_acyclic_wf_converse[OF finite_edge_set graph_okD(11)] kinvD(1)[OF good_kinv] by blast

lemma first_dead_spec:
  assumes wf: "wf ((edge_set g)\<inverse>)" and "memo_ok g m"
  shows "\<exists>m'. first_dead g ds m = Some (find (\<lambda>d. \<not> satisfied_at g d \<and> \<not> live_task g d) ds, m') \<and> memo_ok g m'"
  using assms(2)
proof (induction ds arbitrary: m)
  case (Cons d ds)
  obtain m1 where "is_live g d m = Some (live_task g d, m1)" "memo_ok g m1" using is_live_spec[OF wf Cons.prems] by blast
  then show ?case using Cons by auto
qed simp

text \<open>Down the first dead dep of each, in the order they are listed, to the task that is to blame.\<close>

inductive blame :: "graph \<Rightarrow> nat \<Rightarrow> nat \<Rightarrow> bool" for g where
  here: "\<not> may_run g i \<Longrightarrow> blame g i i"
| sound: "may_run g i \<Longrightarrow> find (\<lambda>d. \<not> satisfied_at g d \<and> \<not> live_task g d) (sort_key (list_key g) (deps_of g i)) = None \<Longrightarrow> blame g i i"
| below: "may_run g i \<Longrightarrow> find (\<lambda>d. \<not> satisfied_at g d \<and> \<not> live_task g d) (sort_key (list_key g) (deps_of g i)) = Some d \<Longrightarrow>
     blame g d r \<Longrightarrow> blame g i r"

lemma dead_root_spec:
  assumes wf: "wf ((edge_set g)\<inverse>)"
  shows "memo_ok g m \<Longrightarrow> \<exists>r m'. dead_root g i m = Some (r, m') \<and> blame g i r \<and> memo_ok g m'"
proof (induction i arbitrary: m rule: wf_induct_rule[OF wf])
  case (1 i)
  show ?case
  proof (cases "may_run g i")
    case False
    then show ?thesis using 1(2) blame.here by (subst dead_root.simps) auto
  next
    case True
    let ?f = "find (\<lambda>d. \<not> satisfied_at g d \<and> \<not> live_task g d) (sort_key (list_key g) (deps_of g i))"
    obtain m1 where m1: "first_dead g (sort_key (list_key g) (deps_of g i)) m = Some (?f, m1)" "memo_ok g m1"
      using first_dead_spec[OF wf 1(2)] by blast
    show ?thesis
    proof (cases ?f)
      case None
      then show ?thesis using True m1 blame.sound[OF True None] by (subst dead_root.simps) simp
    next
      case (Some d)
      then have "d \<in> set (deps_of g i)" by (auto simp: find_Some_iff) (metis nth_mem length_sort set_sort)
      then obtain r m2 where "dead_root g d m1 = Some (r, m2)" "blame g d r" "memo_ok g m2"
        using 1(1)[of d m1] m1(2) by (auto simp: edge_set_def)
      then show ?thesis using True m1 Some blame.below[OF True Some] by (subst dead_root.simps) simp
    qed
  qed
qed

text \<open>The task to blame is not live itself, when the one it is asked of is not.\<close>

lemma blame_dead: "blame g i r \<Longrightarrow> \<not> live_task g i \<Longrightarrow> \<not> may_run g r \<and> (i, r) \<in> (edge_set g)\<^sup>*"
proof (induction rule: blame.induct)
  case (sound i)
  then have "live_task g i" using live_task_iff[of g i] unfolding find_None_iff set_sort by blast
  then show ?case using sound by simp
next
  case (below i d r)
  have d: "d \<in> set (deps_of g i)" "\<not> live_task g d"
    using below(2) by (auto simp: find_Some_iff) (metis nth_mem length_sort set_sort)
  have "(i, d) \<in> edge_set g" using d(1) by (simp add: edge_set_def)
  then show ?case using below(4)[OF d(2)] by (auto intro: converse_rtrancl_into_rtrancl)
qed simp

section \<open>The bound of a quit\<close>

text \<open>The weight of a chain of tasks each needing the next.\<close>

inductive stop_chain :: "graph \<Rightarrow> nat list \<Rightarrow> bool" for g where
  one: "stop_chain g [i]"
| more: "j \<in> set (deps_of g i) \<Longrightarrow> stop_chain g (j # c) \<Longrightarrow> stop_chain g (i # j # c)"

inductive_cases stop_chain_cons: "stop_chain g (i # c)"

definition chain_cost :: "graph \<Rightarrow> nat list \<Rightarrow> nat" where
  "chain_cost g c = sum_list (map (own_stop g) c)"

text \<open>The heaviest of the chains from a task.\<close>

definition heaviest :: "graph \<Rightarrow> nat \<Rightarrow> nat \<Rightarrow> bool" where
  "heaviest g i w \<longleftrightarrow> (\<exists>c. stop_chain g (i # c) \<and> chain_cost g (i # c) = w) \<and>
     (\<forall>c. stop_chain g (i # c) \<longrightarrow> chain_cost g (i # c) \<le> w)"

definition costs_ok :: "graph \<Rightarrow> (nat, nat) hm \<Rightarrow> bool" where
  "costs_ok g memo \<longleftrightarrow> (\<forall>i w. hm_get memo i = Some w \<longrightarrow> heaviest g i w)"

text \<open>The maximum over a list, from a least value on.\<close>

definition top_of :: "graph \<Rightarrow> nat list \<Rightarrow> nat \<Rightarrow> nat \<Rightarrow> bool" where
  "top_of g ds acc w \<longleftrightarrow> acc \<le> w \<and> (\<forall>d \<in> set ds. \<forall>c. stop_chain g (d # c) \<longrightarrow> chain_cost g (d # c) \<le> w) \<and>
     (w = acc \<or> (\<exists>d \<in> set ds. \<exists>c. stop_chain g (d # c) \<and> chain_cost g (d # c) = w))"

lemma heaviest_deps:
  assumes "top_of g (deps_of g i) 0 w"
  shows "heaviest g i (own_stop g i + w)"
  unfolding heaviest_def
proof (intro conjI allI impI)
  show "\<exists>c. stop_chain g (i # c) \<and> chain_cost g (i # c) = own_stop g i + w"
  proof (cases "w = 0")
    case True
    then show ?thesis using stop_chain.one[of g i] by (intro exI[of _ "[]"]) (simp add: chain_cost_def)
  next
    case False
    then obtain d c where "d \<in> set (deps_of g i)" "stop_chain g (d # c)" "chain_cost g (d # c) = w"
      using assms by (auto simp: top_of_def)
    then show ?thesis using stop_chain.more[of d g i c] by (intro exI[of _ "d # c"]) (simp add: chain_cost_def)
  qed
next
  fix c
  assume "stop_chain g (i # c)"
  then show "chain_cost g (i # c) \<le> own_stop g i + w"
    by (cases rule: stop_chain_cons) (use assms in \<open>auto simp: chain_cost_def top_of_def\<close>)
qed

lemma chain_max_spec:
  assumes wf: "wf ((edge_set g)\<inverse>)"
    and down: "\<And>d m. d \<in> set ds \<Longrightarrow> costs_ok g m \<Longrightarrow>
      \<exists>w m'. chain_max g (deps_of g d) m 0 = Some (w, m') \<and> top_of g (deps_of g d) 0 w \<and> costs_ok g m'"
    and "costs_ok g m"
  shows "\<exists>w m'. chain_max g ds m acc = Some (w, m') \<and> top_of g ds acc w \<and> costs_ok g m'"
  using assms(2,3)
proof (induction ds arbitrary: m acc)
  case Nil
  then show ?case by (subst chain_max.simps) (simp add: top_of_def)
next
  case (Cons d ds)
  have "\<exists>c m1. (case hm_get m d of Some c \<Rightarrow> Some (c, m)
      | None \<Rightarrow> Option.bind (chain_max g (deps_of g d) m 0)
          (\<lambda>(c, m). Some (own_stop g d + c, hm_put d (own_stop g d + c) m))) = Some (c, m1) \<and> heaviest g d c \<and> costs_ok g m1"
  proof (cases "hm_get m d")
    case None
    obtain w m1 where w: "chain_max g (deps_of g d) m 0 = Some (w, m1)" "top_of g (deps_of g d) 0 w" "costs_ok g m1"
      using Cons.prems by force
    then show ?thesis using None heaviest_deps[OF w(2)] by (simp add: costs_ok_def)
  next
    case (Some c)
    then show ?thesis using Cons.prems(2) by (auto simp: costs_ok_def)
  qed
  then obtain c m1 where c: "(case hm_get m d of Some c \<Rightarrow> Some (c, m)
      | None \<Rightarrow> Option.bind (chain_max g (deps_of g d) m 0)
          (\<lambda>(c, m). Some (own_stop g d + c, hm_put d (own_stop g d + c) m))) = Some (c, m1)" "heaviest g d c" "costs_ok g m1"
    by blast
  obtain w m2 where w: "chain_max g ds m1 (max acc c) = Some (w, m2)" "top_of g ds (max acc c) w" "costs_ok g m2"
    using Cons.IH[OF _ c(3)] Cons.prems(1) by (metis list.set_intros(2))
  have "top_of g (d # ds) acc w"
    using w(2) c(2) unfolding top_of_def heaviest_def by (auto simp: max_def split: if_splits intro: order_trans)
  then show ?case using c w by (subst chain_max.simps) simp
qed

lemma chain_max_total:
  assumes wf: "wf ((edge_set g)\<inverse>)"
  shows "costs_ok g m \<Longrightarrow> \<exists>w m'. chain_max g (deps_of g i) m acc = Some (w, m') \<and> top_of g (deps_of g i) acc w \<and> costs_ok g m'"
proof (induction i arbitrary: m acc rule: wf_induct_rule[OF wf])
  case (1 i)
  show ?case by (rule chain_max_spec[OF wf _ 1(2)]) (use 1(1) in \<open>simp add: edge_set_def\<close>)
qed

lemma stop_within_total:
  assumes "good g"
  shows "\<exists>w. stop_within g = Some w \<and> top_of g (hm_keys (tasks g)) 0 w"
proof -
  note wf = good_wf_deps[OF assms]
  have "costs_ok g []" by (simp add: costs_ok_def)
  from chain_max_spec[OF wf chain_max_total[OF wf] this, of "hm_keys (tasks g)" 0]
  show ?thesis by (auto simp: stop_within_def)
qed

end
