(* ===== verification/Kernel_Theorems.thy ===== *)
theory Kernel_Theorems
  imports Kernel_Demo Kernel_Live
begin

text \<open>
  What the kernel keeps, whatever it is told and whatever its tasks and timers do, each applied to
  the run of \<open>Kernel_Demo\<close>; and what its parts do, by themselves.
\<close>

section \<open>Every reached state\<close>

text \<open>
  C7. In every state the kernel comes through, the edges close no cycle, the two edge maps say the
  same, and an edge ends at a task that is there; only the kernel itself requires without being one.
\<close>

theorem kernel_edges_sound:
  assumes "kernel_reached k" "g = k_graph k"
  shows "acyclic {(a, b). b \<in> set (deps_of g a)} \<and>
    (\<forall>a b. (b \<in> set (deps_of g a)) = (a \<in> set (requirers_of g b))) \<and>
    {a. deps_of g a \<noteq> []} \<subseteq> insert init_task_id {a. task_at g a \<noteq> None} \<and>
    {b. requirers_of g b \<noteq> []} \<subseteq> {b. task_at g b \<noteq> None} \<and> task_at g init_task_id = None"
proof -
  have ok: "graph_ok g" using reached_good[OF assms(1)] kinvD(1)[OF good_kinv] assms(2) by blast
  have dom: "a \<in> dom (vw g) \<longleftrightarrow> task_at g a \<noteq> None" for a by (simp add: vw_def dom_def)
  have "{a. deps_of g a \<noteq> []} \<subseteq> insert init_task_id {a. task_at g a \<noteq> None}"
  proof
    fix a
    assume "a \<in> {a. deps_of g a \<noteq> []}"
    then obtain b where "(a, b) \<in> edge_set g" by (cases "deps_of g a") (auto simp: edge_set_def)
    then show "a \<in> insert init_task_id {a. task_at g a \<noteq> None}" using edge_ends[OF ok] dom by blast
  qed
  moreover have "{b. requirers_of g b \<noteq> []} \<subseteq> {b. task_at g b \<noteq> None}"
  proof
    fix b
    assume "b \<in> {b. requirers_of g b \<noteq> []}"
    then obtain a where "a \<in> set (requirers_of g b)" by (cases "requirers_of g b") auto
    then have "(a, b) \<in> edge_set g" using graph_okD(8)[OF ok] by (auto simp: edge_set_def)
    then show "b \<in> {b. task_at g b \<noteq> None}" using edge_ends[OF ok] dom by blast
  qed
  moreover have "task_at g init_task_id = None" using graph_okD(2)[OF ok] dom by blast
  moreover have "acyclic {(a, b). b \<in> set (deps_of g a)}" using graph_okD(11)[OF ok] by (simp add: edge_set_def)
  ultimately show ?thesis using graph_okD(8)[OF ok] by blast
qed

theorem kernel_edges_sound_witness:
  "acyclic {(a, b). b \<in> set (deps_of demo_graph a)} \<and> 5 \<in> set (deps_of demo_graph 6)"
proof
  show "acyclic {(a, b). b \<in> set (deps_of demo_graph a)}"
    using kernel_edges_sound[OF demo_reached refl] unfolding demo_fields(1) by (rule conjunct1)
qed (simp add: demo_fields)

text \<open>
  C1. In every state the kernel comes through, each task counts exactly the requirers that are
  wanted (the kernel among them) and those that are active: the counts the commands, the state
  changes and the removals keep up by ones never drift.
\<close>

theorem kernel_counts_exact:
  assumes "kernel_reached k" "task_at (k_graph k) i = Some h"
  shows "h_wanted_parents h = int (length (filter (parent_wanted (k_graph k)) (requirers_of (k_graph k) i))) \<and>
    h_active_dependents h = int (length (filter (parent_active (k_graph k)) (requirers_of (k_graph k) i)))"
  using good_counts[OF reached_good[OF assms(1)] assms(2)] by simp

theorem kernel_counts_exact_witness:
  "h_active_dependents demo_up = int (length (filter (parent_active demo_graph) [0, 6]))"
  using kernel_counts_exact[OF demo_reached, of 5 demo_up] by (simp add: demo_fields)



text \<open>
  C5. In every state the kernel comes through, a task has a deadline exactly in the states that
  time out: a stop, a backoff, and a start whose readiness is timed.
\<close>

theorem kernel_deadlines_exact:
  assumes "kernel_reached k" "task_at (k_graph k) i = Some h"
  shows "(h_deadline h \<noteq> None) = has_timer h"
  using good_deadline[OF reached_good[OF assms(1)] assms(2)] by simp

theorem kernel_deadlines_exact_witness: "(h_deadline demo_running \<noteq> None) = has_timer demo_running \<and> h_deadline demo_running = Some 49"
  using kernel_deadlines_exact[OF demo_reached, of 6 demo_running] by (simp add: demo_fields) (simp add: demo_running_def)

text \<open>
  C2. Once nothing is queued, the cached intent of a task is what the pins, vetoes and edges say:
  it is wanted exactly if a pin reaches it down unvetoed requirers and the kernel is not quitting,
  and supported exactly if besides all it needs is supported and satisfied.
\<close>

theorem kernel_caches_exact:
  assumes "kernel_reached k" "dirty (k_graph k) = []" "task_at (k_graph k) i = Some h"
  shows "h_wanted h = demanded (k_graph k) i \<and> h_supported h = can_run (k_graph k) i"
  using wanted_demanded[OF good_kinv[OF reached_good[OF assms(1)]] assms(2,3)]
    supported_can_run[OF good_kinv[OF reached_good[OF assms(1)]] assms(2,3)] by simp

theorem kernel_caches_exact_witness: "demanded demo_graph 6 \<and> can_run demo_graph 6"
  using kernel_caches_exact[OF demo_reached, of 6 demo_running] by (simp add: demo_fields demo_running_def)

text \<open>
  C6. Once nothing is queued, every task is where its intent drives it: a supported one is not
  idle, and one that is not supported neither waits to retry nor stays up, but for the dependents
  it has to outlive.
\<close>

theorem kernel_driven:
  assumes "kernel_reached k" "dirty (k_graph k) = []" "task_at (k_graph k) i = Some h"
  shows "if h_supported h then h_state h \<noteq> Idle
    else h_state h \<notin> range Backoff \<and> (h_state h \<in> {Starting, Running, Ready} \<longrightarrow> h_active_dependents h > 0)"
proof -
  have "driven (hview h)"
    using good_butD(2)[OF goodD[OF reached_good[OF assms(1)]]] assms(2) task_vw[OF assms(3)] by (auto simp: driven_but_def)
  then show ?thesis by (auto simp: driven_def)
qed

theorem kernel_driven_witness: "h_state demo_up \<noteq> Idle"
  using kernel_driven[OF demo_reached, of 5 demo_up] by (simp add: demo_fields demo_up_def split: if_splits)

section \<open>Steps that return\<close>

text \<open>
  C8. \<open>settle\<close> returns, from every graph that obeys the invariant: its propagation ends, no
  \<open>expect\<close> on the way is without its task, and the graph it gives obeys the invariant again.
\<close>

theorem settle_returns:
  assumes "good g"
  shows "\<exists>g'. settle g = Some g' \<and> good g'"
  using settle_good[OF assms] .

theorem settle_returns_witness: "\<exists>g'. settle (cmd_veto 5 demo_graph) = Some g' \<and> good g'"
  using settle_returns[OF good_cmd_veto[OF demo_good]] .

text \<open>
  C9. Propagation ends and leaves the queue empty, with every cached intent at what the pins,
  vetoes and edges say, whatever order the queue was in; it changes nothing but intents and counts.
\<close>

theorem propagate_exact:
  assumes "good g"
  shows "\<exists>to_drive g'. propagate [] g = Some (to_drive, g') \<and> dirty g' = [] \<and> transitions g' = transitions g \<and>
    map (\<lambda>(i, h). (i, h_wanted h, h_supported h)) (tasks g') = map (\<lambda>(i, h). (i, demanded g' i, can_run g' i)) (tasks g')"
proof -
  obtain td g' where run: "propagate [] g = Some (td, g')" "propagated [] g td g'"
    using propagate_ends[OF good_kinv[OF assms]] by blast
  then have p: "kinv g'" "dirty g' = []" "transitions g' = transitions g" by (simp_all add: propagated_def logs_def)
  have "(\<lambda>(i, h). (i, h_wanted h, h_supported h)) e = (\<lambda>(i, h). (i, demanded g' i, can_run g' i)) e"
    if "e \<in> set (tasks g')" for e
  proof -
    have "task_at g' (fst e) = Some (snd e)" using that graph_okD(1)[OF kinvD(1)[OF p(1)]] by simp
    then show ?thesis
      using wanted_demanded[OF p(1,2)] supported_can_run[OF p(1,2)] by (simp add: split_def)
  qed
  then have "map (\<lambda>(i, h). (i, h_wanted h, h_supported h)) (tasks g') = map (\<lambda>(i, h). (i, demanded g' i, can_run g' i)) (tasks g')"
    by (rule map_cong[OF refl])
  then show ?thesis using run(1) p by blast
qed

theorem propagate_exact_witness:
  "\<exists>to_drive g'. propagate [] (cmd_veto 5 demo_graph) = Some (to_drive, g') \<and> dirty g' = []"
  using propagate_exact[OF good_cmd_veto[OF demo_good]] by blast

text \<open>
  C17. Every verb returns, whoever asks for it of whatever tasks, and keeps the invariant.
\<close>

theorem act_returns:
  assumes "good g"
  shows "\<exists>ids g'. act verb sender sel g = Some (ids, g') \<and> good g'"
  using good_act[OF assms] .

theorem act_returns_witness: "\<exists>ids g'. act ForceRestart 0 (SelId 6) demo_graph = Some (ids, g') \<and> good g'"
  using act_returns[OF demo_good] .



section \<open>Quitting\<close>

lemma quitting_unsupported:
  assumes "good g" "quitting g" "dirty g = []" "task_at g i = Some h"
  shows "\<not> h_supported h"
proof -
  have "h_wanted h = demanded g i" "h_supported h = can_run g i"
    using wanted_demanded[OF good_kinv[OF assms(1)] assms(3,4)] supported_can_run[OF good_kinv[OF assms(1)] assms(3,4)] .
  moreover have "\<not> demanded g i" using assms(2) demanded_not_quitting by blast
  ultimately show ?thesis using can_run_iff by blast
qed

text \<open>
  C4. A quit never stalls: as long as a task is active in a settled graph, some task is stopping,
  with the deadline after which it is killed or given up.
\<close>

theorem quit_makes_progress:
  assumes "good g" "quitting g" "dirty g = []" "\<not> no_active_tasks g"
  shows "\<exists>i h. task_at g i = Some h \<and> h_state h = Stopping \<and> h_deadline h \<noteq> None"
proof -
  note ok = kinvD[OF good_kinv[OF assms(1)]]
  have wf: "wf (edge_set g)" using finite_edge_set[OF ok(1)] graph_okD(11)[OF ok(1)] by (rule finite_acyclic_wf)
  define A where "A = {i. \<exists>h. task_at g i = Some h \<and> is_active (h_state h)}"
  obtain p where "p \<in> set (tasks g)" "is_active (h_state (snd p))"
    using assms(4) by (auto simp: no_active_tasks_def list_all_iff)
  then have "fst p \<in> A" using graph_okD(1)[OF ok(1)] by (cases p) (auto simp: A_def)
  then obtain i where i: "i \<in> A" "\<And>y. (y, i) \<in> edge_set g \<Longrightarrow> y \<notin> A"
    by (rule wfE_min[OF wf]) blast
  then obtain h where h: "task_at g i = Some h" "is_active (h_state h)" by (auto simp: A_def)
  have "\<not> parent_active g a" if "a \<in> set (requirers_of g i)" for a
  proof -
    have "(a, i) \<in> edge_set g" using graph_okD(8)[OF ok(1)] that by (simp add: edge_set_def)
    then show ?thesis using i(2)[of a] by (auto simp: parent_active_def A_def split: option.splits)
  qed
  then have "h_active_dependents h = 0" using good_counts(2)[OF assms(1) h(1)] by (simp add: filter_False)
  moreover have "driven (hview h)"
    using good_butD(2)[OF goodD[OF assms(1)]] assms(3) task_vw[OF h(1)] by (auto simp: driven_but_def)
  ultimately have "h_state h = Stopping"
    using quitting_unsupported[OF assms(1-3) h(1)] h(2) unfolding driven_def
    by (cases "h_state h") simp_all
  then have "h_deadline h \<noteq> None" using good_deadline[OF assms(1) h(1)] by (simp add: has_timer_def)
  then show ?thesis using h(1) \<open>h_state h = Stopping\<close> by blast
qed

definition demo_quitting :: graph where
  "demo_quitting = demo_graph
     \<lparr>quitting := True, next_task_id := 1,
      tasks := [(5, demo_up\<lparr>h_wanted := False, h_supported := False, h_wanted_parents := 1\<rparr>),
        (6, demo_running\<lparr>h_state := Stopping, h_epoch := 3, h_deadline := Some (40 + stop_timeout_default),
            h_task := channel_task (\<lambda>_. True) (Suc (Suc 0)), h_wanted := False, h_supported := False\<rparr>)],
      transitions := transitions demo_graph @ [(6, Running, Stopping, False)],
      sent := sent demo_graph @ [(6, SentStop)], timer_changes := [6, 6], state_changed := True\<rparr>"

lemma demo_quit: "settle (snd (begin_quit demo_graph)) = Some demo_quitting"
  by (simp add: begin_quit_def stop_task_def has_active_dependent_def demo_quitting_def demo_simps cong: let_weak_cong bind_weak_cong)

theorem quit_makes_progress_witness: "\<exists>i h. task_at demo_quitting i = Some h \<and> h_state h = Stopping \<and> h_deadline h \<noteq> None"
proof (rule quit_makes_progress)
  show "good demo_quitting" using settle_good[OF good_begin_quit[OF demo_good]] demo_quit by auto
qed (simp_all add: demo_quitting_def demo_graph_def graph_new_def no_active_tasks_def)

section \<open>Searches along the edges\<close>

text \<open>
  \<open>closure\<close> lists each task reached along the edges, once, from any task and whatever the
  edges are; so \<open>requires\<close> is reachability.
\<close>

theorem closure_exact:
  "distinct (closure g i) \<and> set (closure g i) = {j. (i, j) \<in> {(a, b). b \<in> set (deps_of g a)}\<^sup>*}"
  using distinct_closure[of g i] set_closure[of g i] by (simp add: edge_set_def)

text \<open>
  C10. The memoised \<open>is_live\<close> returns, and answers what its reading without the memo says: the
  task may run, and each of its deps is satisfied or live.
\<close>

theorem is_live_exact:
  assumes "good g"
  shows "map_option fst (is_live g i []) = Some (live_task g i)"
  using is_live_spec[OF good_wf_deps[OF assms] memo_ok_nil, of i] by auto

theorem is_live_exact_witness: "map_option fst (is_live demo_graph 6 []) = Some (live_task demo_graph 6)"
  using is_live_exact[OF demo_good] .

text \<open>
  C31. The blame a failed wait reports lands on a task that is needed, directly or not, and that
  may not run itself; finding it ends.
\<close>

theorem dead_root_blames:
  assumes "good g" "\<not> live_task g i"
  shows "\<exists>r memo. dead_root g i [] = Some (r, memo) \<and> \<not> may_run g r \<and> requires g i r"
  using dead_root_spec[OF good_wf_deps[OF assms(1)] memo_ok_nil, of i] blame_dead[OF _ assms(2)]
  by (auto simp: requires_reach)

theorem dead_root_blames_witness:
  "\<exists>r memo. dead_root demo_quitting 6 [] = Some (r, memo) \<and> \<not> may_run demo_quitting r \<and> requires demo_quitting 6 r"
proof (rule dead_root_blames)
  show "good demo_quitting" using settle_good[OF good_begin_quit[OF demo_good]] demo_quit by auto
  show "\<not> live_task demo_quitting 6"
    by (subst live_task_iff) (simp add: may_run_def demo_quitting_def demo_running_def)
qed

text \<open>
  C12. The bound a quit is answered with returns and is the heaviest chain of tasks each needing
  the next, weighed by what each may take to stop: no chain is heavier, and one is as heavy.
\<close>

theorem stop_within_exact:
  assumes "good g" "tasks g \<noteq> []"
  shows "\<exists>w. stop_within g = Some w \<and>
    w = Max {chain_cost g (i # c) | i c. i \<in> set (hm_keys (tasks g)) \<and> stop_chain g (i # c)}"
proof -
  obtain w where w: "stop_within g = Some w" "top_of g (hm_keys (tasks g)) 0 w"
    using stop_within_total[OF assms(1)] by blast
  let ?C = "{chain_cost g (i # c) | i c. i \<in> set (hm_keys (tasks g)) \<and> stop_chain g (i # c)}"
  have le: "x \<le> w" if "x \<in> ?C" for x using w(2) that by (auto simp: top_of_def)
  have fin: "finite ?C" using le by (meson finite_nat_set_iff_bounded_le)
  obtain i where i: "i \<in> set (hm_keys (tasks g))" using assms(2) by (cases "tasks g") auto
  have some: "chain_cost g [i] \<in> ?C" using i stop_chain.one[of g i] by blast
  have "w \<in> ?C"
  proof (cases "w = 0")
    case True
    then show ?thesis using some le[OF some] by simp
  next
    case False
    then show ?thesis using w(2) by (auto simp: top_of_def)
  qed
  then have "Max ?C = w" using fin le by (intro Max_eqI) auto
  then show ?thesis using w(1) by simp
qed

theorem stop_within_exact_witness:
  "\<exists>w. stop_within demo_graph = Some w \<and>
    w = Max {chain_cost demo_graph (i # c) | i c. i \<in> set (hm_keys (tasks demo_graph)) \<and> stop_chain demo_graph (i # c)}"
  by (rule stop_within_exact[OF demo_good]) (simp add: demo_graph_def)

text \<open>
  C11. A batch is registered in an order of all its slots, each once: first those whose needs all
  come before them, then those that wait on a cycle, each with a need that is not among the first.
\<close>

theorem batch_order_exact:
  "\<exists>order n. batch_order rs = Some order \<and> distinct order \<and> set order = {..<length rs} \<and> n \<le> length order \<and>
     list_all (\<lambda>k. if k < n then set (slots_needed rs (order ! k)) \<subseteq> set (take k order)
        else \<not> set (slots_needed rs (order ! k)) \<subseteq> set (take n order)) [0..<length order]"
proof -
  obtain order n where "batch_order rs = Some order" "distinct order" "set order = {..<length rs}" "n \<le> length order"
    "\<forall>k < length order. if k < n then set (slots_needed rs (order ! k)) \<subseteq> set (take k order)
        else \<not> set (slots_needed rs (order ! k)) \<subseteq> set (take n order)"
    using batch_order_total[of rs] by blast
  then show ?thesis by (intro exI[of _ order] exI[of _ n]) (simp add: list_all_iff)
qed

section \<open>Registering and removing\<close>

lemma deps_of_add_edges:
  "i \<noteq> init_task_id \<Longrightarrow> init_task_id \<notin> dom (vw g) \<Longrightarrow> i \<in> dom (vw g) \<Longrightarrow>
   set (deps_of (fold (add_edge i) deps g) i) = set (deps_of g i) \<union> {d \<in> set deps. d \<in> dom (vw g) \<and> d \<noteq> i}"
proof (induction deps arbitrary: g)
  case (Cons d deps)
  have dom: "dom (vw (add_edge i d g)) = dom (vw g)" by (simp add: add_edge_def Let_def)
  have "set (deps_of (add_edge i d g) i) = set (deps_of g i) \<union> (if d \<in> dom (vw g) \<and> d \<noteq> i then {d} else {})"
  proof (cases "d \<in> dom (vw g) \<and> d \<noteq> i")
    case True
    then have "d \<noteq> init_task_id" "task_at g d \<noteq> None" "task_at g i \<noteq> None" using Cons.prems by (auto simp: vw_def dom_def)
    then show ?thesis using True by (auto simp: add_edge_def Let_def deps_of_def)
  next
    case False
    then have "d = i \<or> task_at g d = None" by (auto simp: vw_def dom_def)
    then have "add_edge i d g = g" by (auto simp: add_edge_def)
    then show ?thesis unfolding if_not_P[OF False] by simp
  qed
  then show ?case using Cons.IH[of "add_edge i d g"] Cons.prems dom by auto
qed simp

lemma deps_of_install:
  assumes "good g" "task_at g i = None" "i \<noteq> init_task_id"
  shows "set (deps_of (install_task i def factory saved deps g) i) = {d \<in> set deps. task_at g d \<noteq> None}"
proof -
  note ok = kinvD(1)[OF good_kinv[OF assms(1)]]
  have other: "deps_of (add_edge init_task_id b g) i = deps_of g i" for b and g :: graph
    using assms(3) by (simp add: add_edge_def Let_def) (simp add: deps_of_def)
  have tags: "dom (vw (set_tags j ts g)) = dom (vw g)" for j ts and g :: graph
    using core_fields(1)[OF core_index_tags] core_fields(1)[OF core_unindex_tags]
    by (simp add: set_tags_def Let_def split: option.splits)
  define h where "h = (case saved of None \<Rightarrow> new_handle (def_of def) (def_make_copy def) (factory i)
    | Some s \<Rightarrow> restored (now g) s (new_handle (def_of def) (def_make_copy def) (factory i)))"
  define g1 where "g1 = g\<lparr>tasks := hm_put i h (tasks g), state_changed := True\<rparr>"
  define g3 where "g3 = set_tags i (def_tags (def_of def))
    (case restored_timer (now g) saved h of None \<Rightarrow> g1 | Some delay \<Rightarrow> schedule_state_timeout i delay g1)"
  have "vw g1 = (vw g)(i := Some (hview h))" by (auto simp: g1_def fun_eq_iff vw_def)
  then have dom: "dom (vw g3) = insert i (dom (vw g))" by (simp add: g3_def tags split: option.splits)
  have "deps_of g3 i = []"
    using fresh_no_edges(1)[OF ok _ assms(3)] assms(2) by (simp add: g3_def g1_def vw_None split: option.splits)
  then have "set (deps_of (fold (add_edge i) deps g3) i) = {d \<in> set deps. d \<in> insert i (dom (vw g)) \<and> d \<noteq> i}"
    using deps_of_add_edges[OF assms(3), of g3 deps] graph_okD(2)[OF ok] assms(3) dom by auto
  also have "\<dots> = {d \<in> set deps. task_at g d \<noteq> None}" using assms(2) by (auto simp: vw_def dom_def)
  finally show ?thesis
    unfolding install_task_def Let_def h_def[symmetric] g1_def[symmetric] g3_def[symmetric] by (simp add: other)
qed



text \<open>
  A refused registration changes nothing but the namespace, where the walk to its path may
  have left nodes.
\<close>

theorem register_refused:
  assumes "register_task_with_id i def factory saved g = Some (Some e, g')"
  shows "g' = g\<lparr>ns := ns g'\<rparr>"
  using assms by (auto simp: register_task_with_id_def Let_def split: if_splits sum.splits option.splits prod.splits)

theorem register_refused_witness:
  "register_task_with_id 5 demo_service (\<lambda>_. target_task) None demo_graph = Some (Some IdTaken, demo_graph) \<and>
   demo_graph = demo_graph\<lparr>ns := ns demo_graph\<rparr>"
proof
  show run: "register_task_with_id 5 demo_service (\<lambda>_. target_task) None demo_graph = Some (Some IdTaken, demo_graph)"
    by (simp add: register_task_with_id_def demo_fields)
  show "demo_graph = demo_graph\<lparr>ns := ns demo_graph\<rparr>" by (rule register_refused[OF run])
qed

text \<open>
  C15. Removing a task takes it and exactly its edges out: it is gone with its deps and requirers,
  no other task is, every edge between others stays, and the invariant holds.
\<close>

theorem remove_task_exact:
  assumes "good g" "task_at g i = Some h"
  shows "good (remove_task i g) \<and> set (hm_keys (tasks (remove_task i g))) = set (hm_keys (tasks g)) - {i} \<and>
    deps_of (remove_task i g) = (\<lambda>j. if j = i then [] else hs_del i (deps_of g j)) \<and>
    requirers_of (remove_task i g) = (\<lambda>j. if j = i then [] else hs_del i (requirers_of g j))"
proof -
  let ?c = "cut_requirers i (cut_deps i h (forget_task i h g))"
  have r: "removed_from i h g ?c" by (rule removed_from_cut[OF _ _ assms(2)]) (use kinvD[OF good_kinv[OF assms(1)]] in simp_all)
  have "core (remove_task i g) = core ?c" using assms(2) by (simp add: remove_task_def Let_def)
  note c = core_fields[OF this]
  have "task_ids (remove_task i g) = removeAll i (task_ids g)" using r c(4) by (simp only: removed_from_def)
  then have "set (hm_keys (tasks (remove_task i g))) = set (hm_keys (tasks g)) - {i}" by (simp add: task_ids_def)
  moreover have "deps_of (remove_task i g) = (\<lambda>j. if j = i then [] else hs_del i (deps_of g j))"
    "requirers_of (remove_task i g) = (\<lambda>j. if j = i then [] else hs_del i (requirers_of g j))"
    using r c(9,10) by (simp_all only: removed_from_def)
  ultimately show ?thesis using good_remove_task[OF assms(1), of i] by simp
qed

theorem remove_task_exact_witness:
  "good (remove_task 5 demo_graph) \<and> set (hm_keys (tasks (remove_task 5 demo_graph))) = {6} \<and> deps_of (remove_task 5 demo_graph) 6 = []"
  using remove_task_exact[OF demo_good, of 5 demo_up] by (simp add: demo_fields hs_del_def)

lemma retain_new_spec:
  "set (fst (retain_new ok ids seen)) \<subseteq> Collect ok"
proof (induction ids arbitrary: seen)
  case (Cons i ids)
  then show ?case by (auto simp: Let_def split_def)
qed simp

lemma ids_remove_task:
  assumes "good g"
  shows "set (task_ids (remove_task t g)) = set (task_ids g) - {t}"
proof (cases "task_at g t")
  case None
  then have "t \<notin> set (task_ids g)" unfolding task_ids_def hm_keys_get by simp
  then show ?thesis using None by (simp add: remove_task_def)
next
  case (Some h)
  have r: "removed_from t h g (cut_requirers t (cut_deps t h (forget_task t h g)))"
    by (rule removed_from_cut[OF _ _ Some]) (use kinvD[OF good_kinv[OF assms]] in simp_all)
  have "core (remove_task t g) = core (cut_requirers t (cut_deps t h (forget_task t h g)))"
    using Some by (simp add: remove_task_def Let_def)
  note c = core_fields(4)[OF this]
  have "task_ids (remove_task t g) = removeAll t (task_ids g)" unfolding c using r by (simp only: removed_from_def)
  then show ?thesis by simp
qed

lemma ids_remove_tasks:
  "good g \<Longrightarrow> set (task_ids (fold remove_task ts g)) = set (task_ids g) - set ts"
proof (induction ts arbitrary: g)
  case (Cons t ts)
  show ?case using Cons.IH[OF good_remove_task[OF Cons.prems]] ids_remove_task[OF Cons.prems, of t] by auto
qed simp

text \<open>
  C19. A removal leaves every task its sender may not change, whatever it selects: those of a
  reserved space the sender is not in stay.
\<close>

theorem remove_spares_reserved:
  assumes "good g" "task_at g i = Some h" "is_reserved (h_space h)" "sender_space g sender \<noteq> h_space h"
  shows "task_at (snd (remove_selected sender sel g)) i \<noteq> None"
proof -
  obtain ts fs where r: "removal g sender sel = (ts, fs)" by (cases "removal g sender sel")
  have "\<exists>ids. ts = fst (retain_new (can_mutate g sender) ids [])"
    using r unfolding removal_def Let_def split_def prod.inject by blast
  then have "set ts \<subseteq> Collect (can_mutate g sender)" using retain_new_spec by metis
  moreover have "\<not> can_mutate g sender i" using assms(2-4) by (simp add: can_mutate_def)
  ultimately have "i \<notin> set ts" by blast
  moreover have "i \<in> set (task_ids g)" using assms(2) unfolding task_ids_def hm_keys_get by simp
  ultimately have "i \<in> set (task_ids (fold remove_task ts g))" using ids_remove_tasks[OF assms(1), of ts] by simp
  moreover have "task_ids (fold (\<lambda>i g. snd (remove_folder i g)) fs g) = task_ids g" for g :: graph
  proof -
    have "core (fold (\<lambda>i g. snd (remove_folder i g)) fs g) = core g"
      by (rule core_fold) (simp add: remove_folder_def split: option.splits)
    then show ?thesis by (rule core_fields(4))
  qed
  ultimately have "i \<in> set (task_ids (snd (remove_selected sender sel g)))" using r by (simp add: remove_selected_def)
  then show ?thesis unfolding task_ids_def hm_keys_get .
qed

theorem remove_spares_reserved_witness:
  "task_at (snd (remove_selected 6 (SelId 9) (install_task 9 (TaskDef ((def_of task_def_default)\<lparr>def_space := dekit_space\<rparr>) None)
      (\<lambda>_. target_task) None [] demo_graph))) 9 \<noteq> None"
proof -
  let ?d = "TaskDef ((def_of task_def_default)\<lparr>def_space := dekit_space\<rparr>) None"
  let ?g = "install_task 9 ?d (\<lambda>_. target_task) None [] demo_graph"
  have "good ?g" by (rule good_install[OF demo_good]) (simp_all add: demo_fields init_task_id_def, simp add: demo_graph_def)
  moreover have "\<exists>h. task_at ?g 9 = Some h \<and> h_space h = dekit_space"
    by (simp add: demo_simps cong: let_weak_cong)
  moreover have "sender_space ?g 6 = default_space" by (simp add: sender_space_def demo_simps cong: let_weak_cong)
  moreover have "is_reserved dekit_space" "default_space \<noteq> dekit_space" by (simp_all add: is_reserved_def dekit_space_def default_space_def)
  ultimately show ?thesis using remove_spares_reserved[of ?g 9 _ 6 "SelId 9"] by metis
qed

section \<open>Backoff, waits and freezes\<close>

text \<open>
  The delay before a retry doubles from 100 ms with each attempt up to 30 s: the shift in 32
  bits never wraps, whatever the count of attempts.
\<close>

theorem backoff_delay_exact:
  "backoff_delay attempts = min (backoff_min * 2 ^ (unat attempts - 1)) backoff_max"
proof -
  let ?e = "min (saturating_sub attempts 1) 16"
  have sub: "unat (saturating_sub attempts 1) = unat attempts - 1"
    by (auto simp: saturating_sub_def word_le_nat_alt unat_sub unat_eq_0 not_le)
  have e: "unat ?e = min (unat attempts - 1) 16" using sub by (simp add: min_def word_le_nat_alt)
  have "unat (push_bit (unat ?e) (1 :: 32 word)) = 2 ^ unat ?e"
  proof -
    have "unat ?e < 32" using e by simp
    then have "(2 :: nat) ^ unat ?e < 2 ^ 32" by (intro power_strict_increasing) simp_all
    moreover have "push_bit (unat ?e) (1 :: 32 word) = of_nat (2 ^ unat ?e)" by simp
    ultimately show ?thesis by (simp only: unat_of_nat) simp
  qed
  then have d: "backoff_delay attempts = min (backoff_min * 2 ^ min (unat attempts - 1) 16) backoff_max"
    using e by (simp add: backoff_delay_def Let_def)
  show ?thesis
  proof (cases "unat attempts - 1 \<le> 16")
    case False
    have "backoff_max \<le> backoff_min * 2 ^ 16" by (simp add: backoff_max_def backoff_min_def secs_def millis_def)
    moreover have "(2 :: nat) ^ 16 \<le> 2 ^ (unat attempts - 1)" using False by (intro power_increasing) simp_all
    then have "backoff_min * 2 ^ 16 \<le> backoff_min * 2 ^ (unat attempts - 1)" by (rule mult_le_mono2)
    ultimately have "backoff_max \<le> backoff_min * 2 ^ (unat attempts - 1)" by (rule order_trans)
    moreover have "min (unat attempts - 1) 16 = 16" using False by simp
    ultimately show ?thesis using d \<open>backoff_max \<le> backoff_min * 2 ^ 16\<close> by (simp only: min_absorb2)
  qed (use d in \<open>simp add: min_def\<close>)
qed

text \<open>
  A wait is decided as met exactly when each of its tasks stands as met, and is left open
  exactly when one is pending and, for a wait that fails early, none has failed.
\<close>

theorem verdict_exact:
  "(verdict_of cond sds = Some VerdictMet) = list_all (\<lambda>s. sd_mark s = Met) sds \<and>
   (verdict_of cond sds = None) =
     (list_ex (\<lambda>s. sd_mark s = Pending) sds \<and> (cond = WaitExit \<or> list_all (\<lambda>s. sd_mark s \<noteq> Failed) sds))"
proof -
  have met: "list_all (\<lambda>s. sd_mark s = Met) sds \<longleftrightarrow>
      \<not> list_ex (\<lambda>s. sd_mark s = Failed) sds \<and> \<not> list_ex (\<lambda>s. sd_mark s = Pending) sds"
    by (auto simp: list_all_iff list_ex_iff) (metis wait_mark.exhaust)
  have "list_all (\<lambda>s. sd_mark s \<noteq> Failed) sds \<longleftrightarrow> \<not> list_ex (\<lambda>s. sd_mark s = Failed) sds"
    by (auto simp: list_all_iff list_ex_iff)
  then show ?thesis unfolding met by (cases cond) (auto simp: verdict_of_def Let_def)
qed

fun deferrable :: "kernel_command \<Rightarrow> bool" where
  "deferrable Quit = False"
| "deferrable QuitWithoutSave = False"
| "deferrable (QuitWithin _ _) = False"
| "deferrable c = (\<not> passes_freeze c)"



end
