(* ===== verification/Wire_Frames.thy ===== *)
theory Wire_Frames
  imports Prelude "HOL-Library.Word"
begin

text \<open>
  The frames of the protocol (\<open>src/src/protocol/wire.rs\<close>): four bytes of length, big end first, a
  byte of kind and the payload. Bytes are \<open>8 word\<close>s, a buffer is a list of them.
\<close>

section \<open>Frames\<close>

type_synonym byte = "8 word"

definition max_frame :: nat where
  "max_frame = 16 * 1024 * 1024"

definition out_frame_bytes :: nat where
  "out_frame_bytes = 1024 * 1024"

definition kind_ctl :: byte where
  "kind_ctl = 0"

definition kind_out :: byte where
  "kind_out = 1"

record raw_frame =
  rf_kind :: byte
  rf_payload :: "byte list"

datatype frame_error = BadLength nat | TooLarge nat

text \<open>\<open>u32::from_be_bytes\<close> and \<open>put_u32\<close>.\<close>

definition from_be :: "byte list \<Rightarrow> nat" where
  "from_be bs = foldl (\<lambda>n b. n * 256 + unat b) 0 bs"

definition to_be :: "32 word \<Rightarrow> byte list" where
  "to_be w = map (\<lambda>k. ucast (drop_bit k w)) [24, 16, 8, 0]"

text \<open>A frame is taken only once it is complete; what is not taken stays in the buffer.\<close>

definition decode_frame :: "byte list \<Rightarrow> frame_error + raw_frame option \<times> byte list" where
  "decode_frame src =
     (if length src < 4 then Inr (None, src)
      else
        (let len = from_be (take 4 src)
         in if len < 1 \<or> len > max_frame then Inl (BadLength len)
            else if length src < 4 + len then Inr (None, src)
            else
              (let frame = take len (drop 4 src)
               in Inr (Some \<lparr>rf_kind = hd frame, rf_payload = tl frame\<rparr>, drop len (drop 4 src)))))"

definition encode_frame :: "raw_frame \<Rightarrow> byte list \<Rightarrow> frame_error + byte list" where
  "encode_frame frame dst =
     (let len = length (rf_payload frame) + 1
      in if len > max_frame then Inl (TooLarge len)
         else Inr (dst @ to_be (of_nat len) @ [rf_kind frame] @ rf_payload frame))"

section \<open>Lengths\<close>

lemma length_to_be [simp]: "length (to_be w) = 4"
  by (simp add: to_be_def)

lemma base_256_step: "n div 2 ^ (k + 8) * 256 + n div 2 ^ k mod 256 = n div 2 ^ k" for n :: nat
proof -
  have "n div 2 ^ (k + 8) = n div 2 ^ k div 256" by (simp add: power_add div_mult2_eq)
  then show ?thesis by (simp add: div_mult_mod_eq)
qed

lemma unat_byte_of:
  assumes "n < 2 ^ 32"
  shows "unat (ucast (drop_bit k (of_nat n :: 32 word)) :: byte) = n div 2 ^ k mod 256"
proof -
  have w: "unat (of_nat n :: 32 word) = n" using assms by (simp add: unat_of_nat)
  have "unat (drop_bit k (of_nat n :: 32 word)) = n div 2 ^ k"
    by (metis drop_bit_eq_div unsigned_drop_bit_eq take_bit_nat_eq_self_iff unsigned_take_bit_eq w unat_drop_bit_eq)
  then show ?thesis by (simp only: unsigned_ucast_eq take_bit_eq_mod) simp
qed

lemma from_be_to_be:
  assumes "n < 2 ^ 32"
  shows "from_be (to_be (of_nat n)) = n"
proof -
  have top: "n div 2 ^ 24 mod 256 = n div 2 ^ 24" using assms by simp
  have "from_be (to_be (of_nat n)) =
      ((n div 2 ^ 24 * 256 + n div 2 ^ 16 mod 256) * 256 + n div 2 ^ 8 mod 256) * 256 + n div 2 ^ 0 mod 256"
    unfolding from_be_def to_be_def list.map foldl.simps unat_byte_of [OF assms] top by simp
  also have "\<dots> = n"
    using base_256_step [of n 16] base_256_step [of n 8] base_256_step [of n 0] by simp
  finally show ?thesis .
qed

section \<open>One frame\<close>

text \<open>What \<open>encode\<close> appends, for a payload that fits a frame.\<close>

definition frame_bytes :: "raw_frame \<Rightarrow> byte list" where
  "frame_bytes f = to_be (of_nat (length (rf_payload f) + 1)) @ rf_kind f # rf_payload f"

definition fits :: "raw_frame \<Rightarrow> bool" where
  "fits f = (length (rf_payload f) + 1 \<le> max_frame)"

lemma encode_frame_eq:
  "encode_frame f dst =
     (if fits f then Inr (dst @ frame_bytes f) else Inl (TooLarge (length (rf_payload f) + 1)))"
  by (simp add: encode_frame_def Let_def fits_def frame_bytes_def)

lemma max_frame_word: "n \<le> max_frame \<Longrightarrow> n < 2 ^ 32"
  by (simp add: max_frame_def)

lemma length_frame_bytes: "length (frame_bytes f) = 5 + length (rf_payload f)"
  by (simp add: frame_bytes_def)

lemma from_be_frame_bytes:
  assumes "fits f"
  shows "from_be (take 4 (frame_bytes f)) = length (rf_payload f) + 1"
  using from_be_to_be [OF max_frame_word [OF assms [unfolded fits_def]]]
  by (simp only: frame_bytes_def) simp

lemma decode_frame_bytes:
  assumes "fits f"
  shows "decode_frame (frame_bytes f @ rest') = Inr (Some f, rest')"
proof -
  have "from_be (take 4 (frame_bytes f @ rest')) = length (rf_payload f) + 1"
    using from_be_frame_bytes [OF assms] length_frame_bytes [of f] by simp
  moreover have "drop 4 (frame_bytes f @ rest') = rf_kind f # rf_payload f @ rest'"
    by (simp add: frame_bytes_def)
  ultimately show ?thesis
    using assms length_frame_bytes [of f] by (simp add: decode_frame_def Let_def fits_def)
qed

lemma decode_frame_waits:
  assumes "fits f" and p: "p @ q = frame_bytes f" and "q \<noteq> []"
  shows "decode_frame p = Inr (None, p)"
proof (cases "length p < 4")
  case False
  then have "take 4 p = take 4 (frame_bytes f)" by (simp flip: p)
  then have len: "from_be (take 4 p) = length (rf_payload f) + 1"
    using from_be_frame_bytes [OF \<open>fits f\<close>] by simp
  have "length p < length (frame_bytes f)" using \<open>q \<noteq> []\<close> by (simp flip: p)
  then show ?thesis
    using False len \<open>fits f\<close> by (simp add: decode_frame_def Let_def fits_def length_frame_bytes)
qed (simp add: decode_frame_def)

text \<open>What the decoder answers is settled by the bytes it has seen: more of them change nothing but
  the rest.\<close>

lemma decode_frame_more:
  assumes "decode_frame a = Inr (Some f, r)"
  shows "decode_frame (a @ b) = Inr (Some f, r @ b)"
  using assms by (auto simp: decode_frame_def Let_def split: if_splits)

lemma decode_frame_error_more:
  assumes "decode_frame a = Inl e"
  shows "decode_frame (a @ b) = Inl e"
  using assms by (auto simp: decode_frame_def Let_def split: if_splits)

lemma decode_frame_none: "decode_frame a = Inr (None, r) \<Longrightarrow> r = a"
  by (auto simp: decode_frame_def Let_def split: if_splits)

lemma decode_frame_consumes: "decode_frame a = Inr (Some f, r) \<Longrightarrow> length r < length a"
  by (auto simp: decode_frame_def Let_def split: if_splits)

end
