(* ===== verification/Connection.thy ===== *)
theory Connection
  imports Wire_Frames "HOL-Library.Sublist"
begin

text \<open>
  The two ends of a connection (\<open>src/src/protocol/conn.rs\<close>): \<open>ConnSender\<close>'s queue and
  \<open>ConnReceiver\<close>. A sender is its write buffer, a receiver the bytes it has read and not decoded.
  The transport is the list of what its reads will give, and \<open>serde_json\<close> is the three functions the
  code calls, fields of a record the receiver's definitions take.
\<close>

section \<open>The sender\<close>

definition queue_frame :: "raw_frame \<Rightarrow> byte list \<Rightarrow> frame_error + byte list" where
  "queue_frame frame buf = encode_frame frame buf"

definition queue_ctl :: "byte list \<Rightarrow> byte list \<Rightarrow> frame_error + byte list" where
  "queue_ctl payload buf = queue_frame \<lparr>rf_kind = kind_ctl, rf_payload = payload\<rparr> buf"

text \<open>Output goes out in frames of at most \<open>out_frame_bytes\<close>.\<close>

function queue_out :: "byte list \<Rightarrow> byte list \<Rightarrow> frame_error + byte list" where
  "queue_out bytes buf =
     (if out_frame_bytes < length bytes
      then (case queue_frame \<lparr>rf_kind = kind_out, rf_payload = take out_frame_bytes bytes\<rparr> buf of
              Inl e \<Rightarrow> Inl e
            | Inr buf' \<Rightarrow> queue_out (drop out_frame_bytes bytes) buf')
      else queue_frame \<lparr>rf_kind = kind_out, rf_payload = bytes\<rparr> buf)"
  by auto
termination
  by (relation "measure (length \<circ> fst)") (auto simp: out_frame_bytes_def)

declare queue_out.simps [simp del]

section \<open>The receiver\<close>

text \<open>One \<open>read_buf\<close>: the bytes it put in the buffer, none of them at the end, or the error.\<close>

datatype read = Read_Bytes "byte list" | Read_Failed

datatype conn_error =
    Frame_Error frame_error
  | Middle_Of_Frame
  | Transport_Failed
  | Invalid_Control
  | Malformed_Control

text \<open>\<open>Poll_Pending\<close>: the transport has nothing more yet, so the receiver waits.\<close>

datatype 'a poll = Poll_Pending | Poll_Closed | Poll_Error conn_error | Poll_Ready 'a

fun next_frame :: "byte list \<Rightarrow> read list \<Rightarrow> raw_frame poll \<times> byte list \<times> read list" where
  "next_frame buf reads =
     (case decode_frame buf of
        Inl e \<Rightarrow> (Poll_Error (Frame_Error e), buf, reads)
      | Inr (Some frame, left) \<Rightarrow> (Poll_Ready frame, left, reads)
      | Inr (None, left) \<Rightarrow>
          (case reads of
             [] \<Rightarrow> (Poll_Pending, left, [])
           | Read_Failed # reads' \<Rightarrow> (Poll_Error Transport_Failed, left, reads')
           | Read_Bytes [] # reads' \<Rightarrow>
               (if left = [] then Poll_Closed else Poll_Error Middle_Of_Frame, left, reads')
           | Read_Bytes (b # bs) # reads' \<Rightarrow> next_frame (left @ b # bs) reads'))"

declare next_frame.simps [simp del]

text \<open>\<open>serde_json\<close>: \<open>from_slice\<close> to a value, \<open>from_value\<close> to a message, and the value's \<open>type\<close> when
  it is a string.\<close>

record ('v, 'm) serde =
  sd_slice :: "byte list \<Rightarrow> 'v option"
  sd_value :: "'v \<Rightarrow> 'm option"
  sd_type :: "'v \<Rightarrow> string option"

datatype 'm msg = Msg_Ctl 'm | Msg_Out "byte list"

definition known_types :: "string list" where
  "known_types = [''hello'', ''request'', ''response'', ''event'', ''bye'']"

text \<open>What \<open>recv\<close> makes of one frame: a message, an error, or (\<open>None\<close>) nothing, and it goes on.\<close>

definition frame_msg :: "('v, 'm) serde \<Rightarrow> raw_frame \<Rightarrow> (conn_error + 'm msg) option" where
  "frame_msg sd frame =
     (if rf_kind frame = kind_ctl
      then (case sd_slice sd (rf_payload frame) of
              None \<Rightarrow> Some (Inl Invalid_Control)
            | Some value \<Rightarrow>
                (case sd_value sd value of
                   Some m \<Rightarrow> Some (Inr (Msg_Ctl m))
                 | None \<Rightarrow>
                     (if (case sd_type sd value of None \<Rightarrow> False | Some t \<Rightarrow> t \<notin> set known_types)
                      then None else Some (Inl Malformed_Control))))
      else if rf_kind frame = kind_out then Some (Inr (Msg_Out (rf_payload frame)))
      else None)"

fun read_size :: "read \<Rightarrow> nat" where
  "read_size (Read_Bytes bs) = length bs"
| "read_size Read_Failed = 0"

lemma next_frame_consumes:
  assumes "next_frame buf reads = (Poll_Ready frame, buf', reads')"
  shows "length buf' + (\<Sum>r\<leftarrow>reads'. read_size r) < length buf + (\<Sum>r\<leftarrow>reads. read_size r)"
  using assms
proof (induction buf reads rule: next_frame.induct)
  case (1 buf reads)
  show ?case
  proof (cases "\<exists>left b bs t. decode_frame buf = Inr (None, left) \<and> reads = Read_Bytes (b # bs) # t")
    case True
    then obtain left b bs t where d: "decode_frame buf = Inr (None, left)"
      and r: "reads = Read_Bytes (b # bs) # t" by blast
    have "next_frame (left @ b # bs) t = (Poll_Ready frame, buf', reads')"
      using "1.prems" d r by (simp add: next_frame.simps [of buf])
    from "1.IH" [OF d refl refl r refl refl this] show ?thesis
      using decode_frame_none [OF d] r by simp
  next
    case False
    then show ?thesis
      using "1.prems" decode_frame_consumes [of buf]
      by (subst (asm) next_frame.simps)
        (auto split: sum.splits option.splits list.splits read.splits if_splits prod.splits)
  qed
qed

function recv :: "('v, 'm) serde \<Rightarrow> byte list \<Rightarrow> read list \<Rightarrow> 'm msg poll \<times> byte list \<times> read list" where
  "recv sd buf reads =
     (case next_frame buf reads of
        (Poll_Pending, buf', reads') \<Rightarrow> (Poll_Pending, buf', reads')
      | (Poll_Closed, buf', reads') \<Rightarrow> (Poll_Closed, buf', reads')
      | (Poll_Error e, buf', reads') \<Rightarrow> (Poll_Error e, buf', reads')
      | (Poll_Ready frame, buf', reads') \<Rightarrow>
          (case frame_msg sd frame of
             Some (Inl e) \<Rightarrow> (Poll_Error e, buf', reads')
           | Some (Inr m) \<Rightarrow> (Poll_Ready m, buf', reads')
           | None \<Rightarrow> recv sd buf' reads'))"
  by auto
termination
  by (relation "measure (\<lambda>(sd, buf, reads). length buf + (\<Sum>r\<leftarrow>reads. read_size r))")
    (auto dest!: next_frame_consumes [OF sym])

declare recv.simps [simp del]

section \<open>Sending and receiving a run of messages\<close>

text \<open>What is handed to a sender: a control message, as \<open>serde_json\<close> wrote it, or terminal output.\<close>

datatype sent = Sent_Ctl "byte list" | Sent_Out "byte list"

fun queue_all :: "sent list \<Rightarrow> byte list \<Rightarrow> frame_error + byte list" where
  "queue_all [] buf = Inr buf"
| "queue_all (Sent_Ctl p # ss) buf = (case queue_ctl p buf of Inl e \<Rightarrow> Inl e | Inr buf' \<Rightarrow> queue_all ss buf')"
| "queue_all (Sent_Out bs # ss) buf = (case queue_out bs buf of Inl e \<Rightarrow> Inl e | Inr buf' \<Rightarrow> queue_all ss buf')"

text \<open>A receiver asked until it has no more: the messages, and the answer that ended it.\<close>

lemma recv_consumes:
  assumes "recv sd buf reads = (Poll_Ready m, buf', reads')"
  shows "length buf' + (\<Sum>r\<leftarrow>reads'. read_size r) < length buf + (\<Sum>r\<leftarrow>reads. read_size r)"
  using assms
proof (induction sd buf reads rule: recv.induct)
  case (1 sd buf reads)
  show ?case
  proof (cases "next_frame buf reads")
    case (fields ans b t)
    show ?thesis
    proof (cases ans)
      case (Poll_Ready frame)
      have less: "length b + (\<Sum>r\<leftarrow>t. read_size r) < length buf + (\<Sum>r\<leftarrow>reads. read_size r)"
        using next_frame_consumes fields Poll_Ready by blast
      show ?thesis
      proof (cases "frame_msg sd frame")
        case None
        then have "recv sd b t = (Poll_Ready m, buf', reads')"
          using "1.prems" fields Poll_Ready by (simp add: recv.simps [of sd buf])
        with "1.IH" fields Poll_Ready None less show ?thesis by fastforce
      next
        case (Some a)
        then show ?thesis
          using "1.prems" fields Poll_Ready less by (simp add: recv.simps [of sd buf] split: sum.splits)
      qed
    qed (use "1.prems" fields in \<open>simp_all add: recv.simps [of sd buf]\<close>)
  qed
qed

function recv_all :: "('v, 'm) serde \<Rightarrow> byte list \<Rightarrow> read list \<Rightarrow> 'm msg list \<times> 'm msg poll" where
  "recv_all sd buf reads =
     (case recv sd buf reads of
        (Poll_Ready m, buf', reads') \<Rightarrow> (let (ms, stop) = recv_all sd buf' reads' in (m # ms, stop))
      | (Poll_Pending, _, _) \<Rightarrow> ([], Poll_Pending)
      | (Poll_Closed, _, _) \<Rightarrow> ([], Poll_Closed)
      | (Poll_Error e, _, _) \<Rightarrow> ([], Poll_Error e))"
  by auto
termination
  by (relation "measure (\<lambda>(sd, buf, reads). length buf + (\<Sum>r\<leftarrow>reads. read_size r))")
    (auto dest!: recv_consumes [OF sym])

declare recv_all.simps [simp del]

section \<open>What the receiver should get\<close>

text \<open>The pieces output is cut in, and the frames a message goes out in.\<close>

function out_pieces :: "byte list \<Rightarrow> byte list list" where
  "out_pieces bs =
     (if out_frame_bytes < length bs then take out_frame_bytes bs # out_pieces (drop out_frame_bytes bs)
      else [bs])"
  by auto
termination
  by (relation "measure length") (auto simp: out_frame_bytes_def)

declare out_pieces.simps [simp del]

fun frames_of :: "sent \<Rightarrow> raw_frame list" where
  "frames_of (Sent_Ctl p) = [\<lparr>rf_kind = kind_ctl, rf_payload = p\<rparr>]"
| "frames_of (Sent_Out bs) = map (\<lambda>p. \<lparr>rf_kind = kind_out, rf_payload = p\<rparr>) (out_pieces bs)"

fun frame_msgs :: "('v, 'm) serde \<Rightarrow> raw_frame list \<Rightarrow> 'm msg poll \<Rightarrow> 'm msg list \<times> 'm msg poll" where
  "frame_msgs sd [] stop = ([], stop)"
| "frame_msgs sd (f # fs) stop =
     (case frame_msg sd f of
        None \<Rightarrow> frame_msgs sd fs stop
      | Some (Inl e) \<Rightarrow> ([], Poll_Error e)
      | Some (Inr m) \<Rightarrow> (let (ms, stop') = frame_msgs sd fs stop in (m # ms, stop')))"

lemma concat_out_pieces: "concat (out_pieces bs) = bs"
  by (induction bs rule: out_pieces.induct) (subst out_pieces.simps, simp)

lemma out_pieces_bound: "p \<in> set (out_pieces bs) \<Longrightarrow> length p \<le> out_frame_bytes"
proof (induction bs rule: out_pieces.induct)
  case (1 bs)
  then show ?case by (subst (asm) out_pieces.simps) (auto split: if_splits)
qed

lemma out_piece_fits: "length p \<le> out_frame_bytes \<Longrightarrow> fits \<lparr>rf_kind = k, rf_payload = p\<rparr>"
  by (simp add: fits_def out_frame_bytes_def max_frame_def)

lemma queue_out_eq:
  "queue_out bs buf = Inr (buf @ concat (map frame_bytes (frames_of (Sent_Out bs))))"
proof (induction bs buf rule: queue_out.induct)
  case (1 bs buf)
  show ?case
  proof (cases "out_frame_bytes < length bs")
    case True
    have q: "queue_frame \<lparr>rf_kind = kind_out, rf_payload = take out_frame_bytes bs\<rparr> buf =
        Inr (buf @ frame_bytes \<lparr>rf_kind = kind_out, rf_payload = take out_frame_bytes bs\<rparr>)"
      by (simp add: queue_frame_def encode_frame_eq out_piece_fits)
    show ?thesis using "1.IH" [OF True q] True q by (simp add: queue_out.simps [of bs] out_pieces.simps [of bs])
  next
    case False
    then show ?thesis
      by (simp add: queue_out.simps [of bs] out_pieces.simps [of bs] queue_frame_def encode_frame_eq out_piece_fits)
  qed
qed

definition wire_of :: "raw_frame list \<Rightarrow> byte list" where
  "wire_of fs = concat (map frame_bytes fs)"

lemma wire_of_simps [simp]:
  "wire_of [] = []" "wire_of (f # fs) = frame_bytes f @ wire_of fs" "wire_of (fs @ gs) = wire_of fs @ wire_of gs"
  by (simp_all add: wire_of_def)

lemma frame_bytes_not_nil [simp]: "frame_bytes f \<noteq> []"
  by (simp add: frame_bytes_def)

lemma queue_all_eq:
  assumes "queue_all ss buf = Inr buf'"
  shows "buf' = buf @ wire_of (concat (map frames_of ss)) \<and> (\<forall>f\<in>set (concat (map frames_of ss)). fits f)"
  using assms
proof (induction ss buf rule: queue_all.induct)
  case (2 p ss buf)
  define f where "f = \<lparr>rf_kind = kind_ctl, rf_payload = p\<rparr>"
  have q: "queue_ctl p buf = (if fits f then Inr (buf @ frame_bytes f) else Inl (TooLarge (length (rf_payload f) + 1)))"
    unfolding queue_ctl_def queue_frame_def encode_frame_eq f_def by simp
  have fit: "fits f"
    using "2.prems" q by (cases "fits f") simp_all
  then have "queue_all ss (buf @ frame_bytes f) = Inr buf'"
    using "2.prems" q by simp
  then have "buf' = (buf @ frame_bytes f) @ wire_of (concat (map frames_of ss)) \<and>
      (\<forall>f\<in>set (concat (map frames_of ss)). fits f)"
    using "2.IH" q fit by simp
  then show ?case using fit by (simp add: f_def [symmetric])
next
  case (3 bs ss buf)
  have "\<forall>f\<in>set (frames_of (Sent_Out bs)). fits f" using out_pieces_bound out_piece_fits by fastforce
  with 3 show ?case by (auto simp: queue_out_eq wire_of_def)
qed simp

section \<open>The receiver, chunk by chunk\<close>

text \<open>However the stream is cut, \<open>next_frame\<close> gives the first whole frame and keeps the rest.\<close>

lemma next_frame_whole:
  assumes "fits f" and "buf @ concat chunks = frame_bytes f @ tail" and "[] \<notin> set chunks"
  shows "\<exists>buf' chunks'. next_frame buf (map Read_Bytes chunks @ t) = (Poll_Ready f, buf', map Read_Bytes chunks' @ t) \<and>
    buf' @ concat chunks' = tail \<and> [] \<notin> set chunks'"
  using assms(2,3)
proof (induction chunks arbitrary: buf)
  case Nil
  then have "next_frame buf (map Read_Bytes [] @ t) = (Poll_Ready f, tail, map Read_Bytes [] @ t)"
    by (subst next_frame.simps) (simp add: decode_frame_bytes [OF \<open>fits f\<close>])
  then show ?case by (intro exI conjI) (assumption, simp_all)
next
  case (Cons c cs)
  show ?case
  proof (cases "\<exists>left. buf = frame_bytes f @ left")
    case True
    then obtain left where b: "buf = frame_bytes f @ left" ..
    then have "next_frame buf (map Read_Bytes (c # cs) @ t) = (Poll_Ready f, left, map Read_Bytes (c # cs) @ t)"
      by (subst next_frame.simps) (simp add: decode_frame_bytes [OF \<open>fits f\<close>])
    moreover have "left @ concat (c # cs) = tail" using Cons.prems b by simp
    ultimately show ?thesis using Cons.prems(2) by blast
  next
    case False
    from Cons.prems(1) [unfolded append_eq_append_conv2] False
    obtain q where q: "buf @ q = frame_bytes f" by blast
    with False have "q \<noteq> []" by (cases q) auto
    note q = q this
    obtain x xs where c: "c = x # xs" using Cons.prems(2) by (cases c) auto
    have "next_frame buf (map Read_Bytes (c # cs) @ t) = next_frame (buf @ c) (map Read_Bytes cs @ t)"
      using decode_frame_waits [OF \<open>fits f\<close> q] by (simp add: next_frame.simps [of buf] c)
    then show ?thesis using Cons.IH [of "buf @ c"] Cons.prems by simp
  qed
qed

text \<open>A stream that stops inside a frame, and then ends.\<close>

lemma next_frame_cut:
  assumes "fits f" and "(buf @ concat chunks) @ q = frame_bytes f" and "q \<noteq> []" and "[] \<notin> set chunks"
  shows "fst (next_frame buf (map Read_Bytes chunks @ [Read_Bytes []])) =
    (if buf @ concat chunks = [] then Poll_Closed else Poll_Error Middle_Of_Frame)"
  using assms(2,4)
proof (induction chunks arbitrary: buf)
  case Nil
  then show ?case
    using decode_frame_waits [OF \<open>fits f\<close>, of buf q] \<open>q \<noteq> []\<close> by (simp add: next_frame.simps [of buf])
next
  case (Cons c cs)
  obtain x xs where c: "c = x # xs" using Cons.prems(2) by (cases c) auto
  have "decode_frame buf = Inr (None, buf)"
    using decode_frame_waits [OF \<open>fits f\<close>, of buf "concat (c # cs) @ q"] Cons.prems(1) \<open>q \<noteq> []\<close> by simp
  then have "next_frame buf (map Read_Bytes (c # cs) @ [Read_Bytes []]) =
      next_frame (buf @ c) (map Read_Bytes cs @ [Read_Bytes []])"
    by (simp add: next_frame.simps [of buf] c)
  then show ?case using Cons.IH [of "buf @ c"] Cons.prems by (simp add: c)
qed

text \<open>A receiver step over one frame.\<close>

lemma recv_all_frame:
  assumes "next_frame buf reads = (Poll_Ready f, buf', reads')"
  shows "recv_all sd buf reads =
    (case frame_msg sd f of
       None \<Rightarrow> recv_all sd buf' reads'
     | Some (Inl e) \<Rightarrow> ([], Poll_Error e)
     | Some (Inr m) \<Rightarrow> (let (ms, stop) = recv_all sd buf' reads' in (m # ms, stop)))"
  using assms
  by (cases "frame_msg sd f")
    (simp_all add: recv_all.simps [of sd buf] recv_all.simps [of sd buf'] recv.simps [of sd buf] split: sum.splits)

lemma recv_all_stop:
  assumes "fst (next_frame buf reads) = Poll_Closed \<or> (\<exists>e. fst (next_frame buf reads) = Poll_Error e)"
  shows "recv_all sd buf reads = ([], case fst (next_frame buf reads) of Poll_Closed \<Rightarrow> Poll_Closed | Poll_Error e \<Rightarrow> Poll_Error e)"
  using assms
  by (cases "next_frame buf reads")
    (auto simp: recv_all.simps [of sd buf] recv.simps [of sd buf])

lemma recv_all_frames:
  assumes "\<forall>f\<in>set fs. fits f" and "buf @ concat chunks = wire_of fs" and "[] \<notin> set chunks"
  shows "recv_all sd buf (map Read_Bytes chunks @ [Read_Bytes []]) = frame_msgs sd fs Poll_Closed"
  using assms
proof (induction fs arbitrary: buf chunks)
  case Nil
  then have "buf = []" "chunks = []" by (cases chunks; auto)+
  then show ?case by (simp add: recv_all.simps recv.simps next_frame.simps decode_frame_def)
next
  case (Cons f fs)
  from next_frame_whole [of f buf chunks "wire_of fs" "[Read_Bytes []]"] Cons.prems
  obtain buf' chunks' where n: "next_frame buf (map Read_Bytes chunks @ [Read_Bytes []]) =
      (Poll_Ready f, buf', map Read_Bytes chunks' @ [Read_Bytes []])"
    and r: "buf' @ concat chunks' = wire_of fs" "[] \<notin> set chunks'" by auto
  have "recv_all sd buf' (map Read_Bytes chunks' @ [Read_Bytes []]) = frame_msgs sd fs Poll_Closed"
    using Cons.IH [OF _ r] Cons.prems(1) by simp
  then show ?case by (simp add: recv_all_frame [OF n] split: option.splits sum.splits)
qed

lemma recv_all_prefix:
  assumes "\<forall>f\<in>set fs. fits f" and "(buf @ concat chunks) @ missing = wire_of fs" and "[] \<notin> set chunks"
  shows "\<exists>gs hs stop. fs = gs @ hs \<and> stop \<in> {Poll_Closed, Poll_Error Middle_Of_Frame} \<and>
    recv_all sd buf (map Read_Bytes chunks @ [Read_Bytes []]) = frame_msgs sd gs stop"
  using assms
proof (induction fs arbitrary: buf chunks)
  case Nil
  then have "recv_all sd buf (map Read_Bytes chunks @ [Read_Bytes []]) = frame_msgs sd [] Poll_Closed"
    by (intro recv_all_frames) simp_all
  then show ?case by blast
next
  case (Cons f fs)
  let ?reads = "map Read_Bytes chunks @ [Read_Bytes []]"
  have "\<exists>us. buf @ concat chunks = frame_bytes f @ us \<and> us @ missing = wire_of fs \<or>
      (buf @ concat chunks) @ us = frame_bytes f \<and> missing = us @ wire_of fs"
    using Cons.prems(2) unfolding wire_of_simps append_eq_append_conv2 [of "buf @ concat chunks"] .
  then consider (whole) tail where "buf @ concat chunks = frame_bytes f @ tail" "tail @ missing = wire_of fs"
    | (cut) q where "(buf @ concat chunks) @ q = frame_bytes f" "q \<noteq> []"
    by (metis append_Nil2 append_Nil)
  then show ?case
  proof cases
    case whole
    from next_frame_whole [of f, OF _ whole(1) Cons.prems(3), of "[Read_Bytes []]"] Cons.prems(1)
    obtain buf' chunks' where n: "next_frame buf ?reads = (Poll_Ready f, buf', map Read_Bytes chunks' @ [Read_Bytes []])"
      and r: "buf' @ concat chunks' = tail" "[] \<notin> set chunks'" by auto
    have "(buf' @ concat chunks') @ missing = wire_of fs" using r(1) whole(2) by simp
    from Cons.IH [OF _ this r(2)] Cons.prems(1) obtain gs hs stop where
      g: "fs = gs @ hs" "stop \<in> {Poll_Closed, Poll_Error Middle_Of_Frame}"
        "recv_all sd buf' (map Read_Bytes chunks' @ [Read_Bytes []]) = frame_msgs sd gs stop" by auto
    then have "recv_all sd buf ?reads = frame_msgs sd (f # gs) stop"
      by (simp add: recv_all_frame [OF n] split: option.splits sum.splits)
    with g(1,2) show ?thesis by (metis append_Cons)
  next
    case cut
    then have c: "fst (next_frame buf ?reads) =
        (if buf @ concat chunks = [] then Poll_Closed else Poll_Error Middle_Of_Frame)"
      using next_frame_cut [of f] Cons.prems(1,3) by simp
    have "\<exists>stop. stop \<in> {Poll_Closed, Poll_Error Middle_Of_Frame} \<and>
        recv_all sd buf ?reads = frame_msgs sd [] stop"
    proof (cases "buf @ concat chunks = []")
      case True
      then have k: "fst (next_frame buf ?reads) = Poll_Closed" using c by simp
      then show ?thesis using recv_all_stop [of buf ?reads sd] by simp
    next
      case False
      then have k: "fst (next_frame buf ?reads) = Poll_Error Middle_Of_Frame" using c by (simp only: if_False)
      then show ?thesis using recv_all_stop [of buf ?reads sd] by simp
    qed
    then show ?thesis by blast
  qed
qed

section \<open>What was sent, byte by byte\<close>

text \<open>A run of messages as one sequence: the control messages and the bytes of output, in order.\<close>

fun msg_items :: "'m msg \<Rightarrow> ('m + byte) list" where
  "msg_items (Msg_Ctl m) = [Inl m]"
| "msg_items (Msg_Out bs) = map Inr bs"

fun sent_items :: "(byte list \<Rightarrow> 'm) \<Rightarrow> sent \<Rightarrow> ('m + byte) list" where
  "sent_items m (Sent_Ctl p) = [Inl (m p)]"
| "sent_items m (Sent_Out bs) = map Inr bs"

definition understood :: "('v, 'm) serde \<Rightarrow> (byte list \<Rightarrow> 'm) \<Rightarrow> byte list \<Rightarrow> bool" where
  "understood sd m p = (case sd_slice sd p of None \<Rightarrow> False | Some v \<Rightarrow> sd_value sd v = Some (m p))"

fun frame_item :: "(byte list \<Rightarrow> 'm) \<Rightarrow> raw_frame \<Rightarrow> 'm msg" where
  "frame_item m f = (if rf_kind f = kind_ctl then Msg_Ctl (m (rf_payload f)) else Msg_Out (rf_payload f))"

definition plain_frame :: "('v, 'm) serde \<Rightarrow> (byte list \<Rightarrow> 'm) \<Rightarrow> raw_frame \<Rightarrow> bool" where
  "plain_frame sd m f =
     (rf_kind f = kind_out \<or> rf_kind f = kind_ctl \<and> understood sd m (rf_payload f))"

lemma frame_msgs_plain:
  "\<forall>f\<in>set fs. plain_frame sd m f \<Longrightarrow> frame_msgs sd fs stop = (map (frame_item m) fs, stop)"
  by (induction fs)
    (auto simp: plain_frame_def understood_def frame_msg_def kind_ctl_def kind_out_def split: option.splits)

lemma plain_frames_of:
  "(\<And>p. s = Sent_Ctl p \<Longrightarrow> understood sd m p) \<Longrightarrow> f \<in> set (frames_of s) \<Longrightarrow> plain_frame sd m f"
  by (cases s) (auto simp: plain_frame_def)

lemma plain_all:
  assumes "\<And>p. Sent_Ctl p \<in> set ss \<Longrightarrow> understood sd m p"
  shows "\<forall>f\<in>set (concat (map frames_of ss)). plain_frame sd m f"
proof
  fix f assume "f \<in> set (concat (map frames_of ss))"
  then obtain s where s: "s \<in> set ss" "f \<in> set (frames_of s)" by auto
  show "plain_frame sd m f"
    by (rule plain_frames_of [OF _ s(2)]) (use assms s(1) in blast)
qed

lemma items_frames_of:
  "concat (map (msg_items \<circ> frame_item m) (frames_of s)) = sent_items m s"
proof (cases s)
  case (Sent_Out bs)
  have "concat (map (map Inr) (out_pieces bs)) = map Inr (concat (out_pieces bs))"
    by (simp add: map_concat)
  then show ?thesis
    by (simp add: Sent_Out comp_def kind_ctl_def kind_out_def concat_out_pieces)
qed simp

lemma items_all:
  "concat (map msg_items (map (frame_item m) (concat (map frames_of ss)))) = concat (map (sent_items m) ss)"
  by (induction ss) (simp_all del: frame_item.simps flip: items_frames_of)

section \<open>The connection's theorems\<close>

text \<open>
  C32. Whatever one end of a connection queues - control messages and terminal output of any size, in any
  order - the other end receives in that order and byte for byte, however the transport cuts the stream
  into reads, and then sees the connection closed.
\<close>

theorem conn_delivers:
  assumes "queue_all ss [] = Inr wire"
    and "\<And>p. Sent_Ctl p \<in> set ss \<Longrightarrow> understood sd m p"
    and "concat chunks = wire" and "[] \<notin> set chunks"
  shows "\<exists>ms. recv_all sd [] (map Read_Bytes chunks @ [Read_Bytes []]) = (ms, Poll_Closed) \<and>
    concat (map msg_items ms) = concat (map (sent_items m) ss)"
proof -
  let ?fs = "concat (map frames_of ss)"
  have w: "wire = wire_of ?fs" and fit: "\<forall>f\<in>set ?fs. fits f"
    using queue_all_eq [OF assms(1)] by simp_all
  have "recv_all sd [] (map Read_Bytes chunks @ [Read_Bytes []]) = frame_msgs sd ?fs Poll_Closed"
    using recv_all_frames [OF fit, of "[]" chunks] w assms(3,4) by simp
  also have "\<dots> = (map (frame_item m) ?fs, Poll_Closed)"
    by (rule frame_msgs_plain [OF plain_all]) (rule assms(2))
  finally show ?thesis using items_all by blast
qed



text \<open>A control message and three bytes of output, read in two pieces.\<close>

definition demo_serde :: "(byte list, byte list) serde" where
  "demo_serde = \<lparr>sd_slice = Some, sd_value = Some, sd_type = (\<lambda>_. None)\<rparr>"

definition demo_sent :: "sent list" where
  "demo_sent = [Sent_Ctl [123, 125], Sent_Out [1, 2, 3]]"

definition demo_wire :: "byte list" where
  "demo_wire = [0, 0, 0, 3, 0, 123, 125, 0, 0, 0, 4, 1, 1, 2, 3]"

lemma demo_queued: "queue_all demo_sent [] = Inr demo_wire"
  by (simp add: demo_sent_def queue_ctl_def queue_frame_def queue_out.simps out_frame_bytes_def
      encode_frame_def max_frame_def kind_ctl_def kind_out_def to_be_def demo_wire_def)

lemma demo_understood: "understood demo_serde id p"
  by (simp add: understood_def demo_serde_def)

lemma conn_delivers_witness:
  "\<exists>ms. recv_all demo_serde [] (map Read_Bytes [take 6 demo_wire, drop 6 demo_wire] @ [Read_Bytes []]) = (ms, Poll_Closed) \<and>
    concat (map msg_items ms) = [Inl [123, 125], Inr 1, Inr 2, Inr 3]"
  using conn_delivers [OF demo_queued, of demo_serde id "[take 6 demo_wire, drop 6 demo_wire]"]
  by (simp add: demo_understood demo_sent_def) (simp add: demo_wire_def)


end
