(* ===== verification/Shell_Words.thy ===== *)
theory Shell_Words
  imports Prelude
begin

text \<open>
  Command lines as words (\<open>src/src/parse_shell.rs\<close>, and \<open>join_argv\<close> of \<open>src/src/spec.rs\<close>).
  A line is its UTF-8 bytes: every character the code singles out is ASCII, so reading it by bytes
  or by characters is the same, and a byte from 128 up is part of a non-ASCII character.
\<close>

section \<open>Characters\<close>

abbreviation "squote \<equiv> CHR 0x27"
abbreviation "dquote \<equiv> CHR 0x22"
abbreviation "backslash \<equiv> CHR 0x5C"
abbreviation "newline \<equiv> CHR 0x0A"
abbreviation "tabchar \<equiv> CHR 0x09"
abbreviation "backtick \<equiv> CHR 0x60"

definition ascii_alpha :: "char \<Rightarrow> bool" where
  "ascii_alpha c = (let n = (of_char c :: nat) in 65 \<le> n \<and> n \<le> 90 \<or> 97 \<le> n \<and> n \<le> 122)"

definition ascii_digit :: "char \<Rightarrow> bool" where
  "ascii_digit c = (let n = (of_char c :: nat) in 48 \<le> n \<and> n \<le> 57)"

definition is_ascii :: "char \<Rightarrow> bool" where
  "is_ascii c = ((of_char c :: nat) < 128)"

definition blank_chars :: string where
  "blank_chars = [CHR '' '', tabchar, newline]"

definition operator_chars :: string where
  "operator_chars = ''|&;<>()$'' @ [backtick] @ ''*?[''"

definition expanding :: string where
  "expanding = [CHR ''$'', backtick]"

definition escapable :: string where
  "escapable = [dquote, backslash, CHR ''$'', backtick]"

section \<open>Splitting a line\<close>

datatype shell_error =
    EndsCommand
  | MissingSingle
  | MissingDouble
  | Expands char
  | TrailingBackslash
  | Unsupported char
  | Assignment string
  | Keyword string
  | EmptyCommand

definition reserved :: "string list" where
  "reserved = [''!'', ''{'', ''}'', ''case'', ''do'', ''done'', ''elif'', ''else'', ''esac'', ''fi'', ''for'',
    ''if'', ''in'', ''then'', ''until'', ''while'']"

definition is_name :: "string \<Rightarrow> bool" where
  "is_name word =
     (case word of
        [] \<Rightarrow> False
      | c # cs \<Rightarrow> (ascii_alpha c \<or> c = CHR ''_'') \<and>
          (\<forall>d\<in>set cs. ascii_alpha d \<or> ascii_digit d \<or> d = CHR ''_''))"

definition end_word :: "string list \<Rightarrow> string \<Rightarrow> bool \<Rightarrow> shell_error + string list" where
  "end_word args word quoted =
     (if args = [] \<and> \<not> quoted \<and> word \<in> set reserved then Inl (Keyword word) else Inr (args @ [word]))"

text \<open>The loop inside \<open>'...'\<close>, and the one inside double quotes: the word so far and what is left.\<close>

fun in_single :: "string \<Rightarrow> string \<Rightarrow> shell_error + string \<times> string" where
  "in_single cur [] = Inl MissingSingle"
| "in_single cur (c # cs) = (if c = squote then Inr (cur, cs) else in_single (cur @ [c]) cs)"

fun in_double :: "string \<Rightarrow> string \<Rightarrow> shell_error + string \<times> string" where
  "in_double cur [] = Inl MissingDouble"
| "in_double cur [c] =
     (if c = dquote then Inr (cur, [])
      else if c = backslash then Inl MissingDouble
      else if c \<in> set expanding then Inl (Expands c)
      else Inl MissingDouble)"
| "in_double cur (c # d # cs) =
     (if c = dquote then Inr (cur, d # cs)
      else if c = backslash
        then (if d \<in> set escapable then in_double (cur @ [d]) cs
              else if d = newline then in_double cur cs
              else in_double (cur @ [backslash, d]) cs)
      else if c \<in> set expanding then Inl (Expands c)
      else in_double (cur @ [c]) (d # cs))"

lemma in_single_shrinks: "in_single cur cs = Inr (w, left) \<Longrightarrow> length left < length cs"
  by (induction cur cs rule: in_single.induct) (auto split: if_splits)

lemma in_double_shrinks: "in_double cur cs = Inr (w, left) \<Longrightarrow> length left < length cs"
  by (induction cur cs rule: in_double.induct) (auto split: if_splits)

text \<open>The loop of \<open>split_argv\<close>: the words so far, the word being read, whether it has a quote.\<close>

function split_loop :: "string list \<Rightarrow> string \<Rightarrow> bool \<Rightarrow> string \<Rightarrow> shell_error + string list" where
  "split_loop args cur quoted [] =
     (case (if quoted \<or> cur \<noteq> [] then end_word args cur quoted else Inr args) of
        Inl e \<Rightarrow> Inl e
      | Inr args' \<Rightarrow> if args' = [] then Inl EmptyCommand else Inr args')"
| "split_loop args cur quoted (c # cs) =
     (if c \<in> set blank_chars
      then (let word = quoted \<or> cur \<noteq> []
            in case (if word then end_word args cur quoted else Inr args) of
                 Inl e \<Rightarrow> Inl e
               | Inr args' \<Rightarrow>
                   if c = newline \<and> args' \<noteq> [] \<and> \<not> (\<forall>d\<in>set cs. d \<in> set blank_chars) then Inl EndsCommand
                   else split_loop args' [] (if word then False else quoted) cs)
      else if c = squote
      then (case in_single cur cs of Inl e \<Rightarrow> Inl e | Inr (w, left) \<Rightarrow> split_loop args w True left)
      else if c = dquote
      then (case in_double cur cs of Inl e \<Rightarrow> Inl e | Inr (w, left) \<Rightarrow> split_loop args w True left)
      else if c = backslash
      then (case cs of
              [] \<Rightarrow> Inl TrailingBackslash
            | d # left \<Rightarrow> if d = newline then split_loop args cur quoted left
                          else split_loop args (cur @ [d]) True left)
      else if (c = CHR ''#'' \<or> c = CHR ''~'') \<and> \<not> quoted \<and> cur = [] then Inl (Unsupported c)
      else if c \<in> set operator_chars then Inl (Unsupported c)
      else if c = CHR ''='' \<and> args = [] \<and> \<not> quoted \<and> is_name cur then Inl (Assignment cur)
      else split_loop args (cur @ [c]) quoted cs)"
  by pat_completeness auto
termination
  by (relation "measure (\<lambda>(args, cur, quoted, cs). length cs)")
    (auto dest: in_single_shrinks in_double_shrinks)

declare split_loop.simps [simp del]

definition split_argv :: "string \<Rightarrow> shell_error + string list" where
  "split_argv s = split_loop [] [] False s"

definition system_argv :: "string \<Rightarrow> string list" where
  "system_argv line = [''/bin/sh'', ''-c'', line]"

definition typed_argv :: "string \<Rightarrow> bool \<Rightarrow> shell_error + string list" where
  "typed_argv line system_shell = (if system_shell then Inr (system_argv line) else split_argv line)"

section \<open>Joining an argv\<close>

definition plain_char :: "char \<Rightarrow> bool" where
  "plain_char c = (ascii_alpha c \<or> ascii_digit c \<or> c \<in> set ''-_./:=,+@%^~'' \<or> \<not> is_ascii c)"

definition plain_word :: "nat \<Rightarrow> string \<Rightarrow> bool" where
  "plain_word i arg =
     (arg \<noteq> [] \<and> hd arg \<noteq> CHR ''~'' \<and> (\<forall>c\<in>set arg. plain_char c) \<and>
      (0 < i \<or> split_argv arg = Inr [arg]))"

fun escape :: "string \<Rightarrow> string" where
  "escape [] = []"
| "escape (c # cs) = (if c \<in> set escapable then backslash # c # escape cs else c # escape cs)"

definition join_word :: "nat \<Rightarrow> string \<Rightarrow> string" where
  "join_word i arg =
     (if plain_word i arg then arg
      else if squote \<notin> set arg then squote # arg @ [squote]
      else dquote # escape arg @ [dquote])"

fun join_from :: "nat \<Rightarrow> string list \<Rightarrow> string" where
  "join_from i [] = []"
| "join_from i [arg] = join_word i arg"
| "join_from i (arg # arg' # args) = join_word i arg @ CHR '' '' # join_from (Suc i) (arg' # args)"

definition join_argv :: "string list \<Rightarrow> string" where
  "join_argv argv = join_from 0 argv"

section \<open>Reading a word back\<close>

lemma in_single_word: "squote \<notin> set w \<Longrightarrow> in_single cur (w @ squote # t) = Inr (cur @ w, t)"
  by (induction w arbitrary: cur) auto

lemma in_double_step:
  "c \<noteq> dquote \<Longrightarrow> c \<noteq> backslash \<Longrightarrow> c \<notin> set expanding \<Longrightarrow> cs \<noteq> [] \<Longrightarrow>
    in_double cur (c # cs) = in_double (cur @ [c]) cs"
  by (cases cs) auto

lemma in_double_word: "in_double cur (escape w @ dquote # t) = Inr (cur @ w, t)"
proof (induction w arbitrary: cur)
  case Nil
  show ?case by (cases t) auto
next
  case (Cons c w)
  show ?case
  proof (cases "c \<in> set escapable")
    case False
    then have "c \<noteq> dquote" "c \<noteq> backslash" "c \<notin> set expanding" by (auto simp: escapable_def expanding_def)
    then show ?thesis using Cons False by (simp add: in_double_step)
  qed (use Cons in simp)
qed

text \<open>What \<open>split_loop\<close> does with an ordinary character of an unquoted word.\<close>

lemma plain_char_facts:
  assumes "plain_char c"
  shows "c \<notin> set blank_chars" "c \<noteq> squote" "c \<noteq> dquote" "c \<noteq> backslash" "c \<noteq> CHR ''#''"
    "c \<notin> set operator_chars"
  using assms
  by (auto simp: plain_char_def ascii_alpha_def ascii_digit_def is_ascii_def blank_chars_def operator_chars_def)

lemma split_loop_plain:
  assumes "plain_char c" and "c = CHR ''~'' \<Longrightarrow> cur \<noteq> []"
  shows "split_loop args cur False (c # cs) =
    (if c = CHR ''='' \<and> args = [] \<and> is_name cur then Inl (Assignment cur)
     else split_loop args (cur @ [c]) False cs)"
proof -
  have start: "((c = CHR ''#'' \<or> c = CHR ''~'') \<and> \<not> False \<and> cur = []) = False"
    using plain_char_facts(5) [OF assms(1)] assms(2) by blast
  show ?thesis
    unfolding split_loop.simps(2) [of args cur False c cs] start
    using plain_char_facts [OF assms(1)] by (simp only: if_False simp_thms)
qed

lemma split_loop_plain_word:
  assumes "\<forall>c\<in>set w. plain_char c" and "w \<noteq> [] \<Longrightarrow> cur \<noteq> [] \<or> hd w \<noteq> CHR ''~''"
    and "args \<noteq> [] \<or> (\<exists>r. split_loop args cur False w = Inr r)"
  shows "split_loop args cur False (w @ t) = split_loop args (cur @ w) False t"
  using assms
proof (induction w arbitrary: cur)
  case (Cons c w)
  have t: "c = CHR ''~'' \<Longrightarrow> cur \<noteq> []" using Cons.prems(2) by auto
  have s: "split_loop args cur False (c # cs) =
      (if c = CHR ''='' \<and> args = [] \<and> is_name cur then Inl (Assignment cur)
       else split_loop args (cur @ [c]) False cs)" for cs
    using split_loop_plain [OF _ t] Cons.prems(1) by simp
  have ok: "\<not> (c = CHR ''='' \<and> args = [] \<and> is_name cur)" using Cons.prems(3) s [of w] by (auto split: if_splits)
  have "split_loop args (cur @ [c]) False (w @ t) = split_loop args ((cur @ [c]) @ w) False t"
    by (rule Cons.IH) (use Cons.prems ok s [of w] in auto)
  then show ?case using s [of "w @ t"] ok by simp
qed simp

text \<open>A word read whole: it ends at the space after it, or at the line's end.\<close>

definition word_read :: "string list \<Rightarrow> string \<Rightarrow> string \<Rightarrow> bool" where
  "word_read args q w =
     (\<exists>quoted. (quoted \<or> w \<noteq> []) \<and> end_word args w quoted = Inr (args @ [w]) \<and>
       (\<forall>t. split_loop args [] False (q @ t) = split_loop args w quoted t))"

lemma word_read_quoted:
  "(\<And>t. split_loop args [] False (q @ t) = split_loop args w True t) \<Longrightarrow> word_read args q w"
  by (auto simp: word_read_def end_word_def)

lemma word_read_join_word: "word_read args (join_word (length args) w) w"
proof (cases "plain_word (length args) w")
  case True
  then have p: "w \<noteq> []" "hd w \<noteq> CHR ''~''" "\<forall>c\<in>set w. plain_char c"
    and ok: "args \<noteq> [] \<or> split_argv w = Inr [w]"
    by (simp_all add: plain_word_def)
  then have r: "split_loop args [] False (w @ t) = split_loop args w False t" for t
    using split_loop_plain_word [of w "[]" args t] by (auto simp: split_argv_def)
  have "end_word args w False = Inr (args @ [w])"
  proof (cases "args = []")
    case True
    then have "split_loop [] w False [] = Inr [w]" using ok r [of "[]"] by (simp add: split_argv_def)
    then show ?thesis using p(1) True by (subst (asm) split_loop.simps) (simp add: end_word_def split: if_splits)
  qed (simp add: end_word_def)
  with r p(1) True show ?thesis by (auto simp: word_read_def join_word_def)
next
  case False
  show ?thesis
  proof (rule word_read_quoted)
    fix t
    show "split_loop args [] False (join_word (length args) w @ t) = split_loop args w True t"
    proof (cases "squote \<in> set w")
      case True
      then have "join_word (length args) w @ t = dquote # escape w @ dquote # t"
        using False by (simp add: join_word_def)
      then show ?thesis
        using in_double_word [of "[]" w t] by (simp add: blank_chars_def split_loop.simps(2) [of args "[]" False dquote])
    next
      case no_quote: False
      then have "join_word (length args) w @ t = squote # w @ squote # t"
        using False by (simp add: join_word_def)
      then show ?thesis
        using in_single_word [OF no_quote, of "[]" t] by (simp add: blank_chars_def split_loop.simps(2) [of args "[]" False squote])
    qed
  qed
qed

lemma split_join_from:
  "argv \<noteq> [] \<Longrightarrow> split_loop args [] False (join_from (length args) argv) = Inr (args @ argv)"
proof (induction "length args" argv arbitrary: args rule: join_from.induct)
  case (2 w)
  obtain quoted where q: "quoted \<or> w \<noteq> []" "end_word args w quoted = Inr (args @ [w])"
    "split_loop args [] False (join_word (length args) w @ t) = split_loop args w quoted t" for t
    using word_read_join_word [of args w] by (auto simp: word_read_def)
  show ?case using q(1,2) q(3) [of "[]"] by (simp add: split_loop.simps(1))
next
  case (3 w w' ws)
  obtain quoted where q: "quoted \<or> w \<noteq> []" "end_word args w quoted = Inr (args @ [w])"
    "split_loop args [] False (join_word (length args) w @ t) = split_loop args w quoted t" for t
    using word_read_join_word [of args w] by (auto simp: word_read_def)
  have "split_loop args w quoted (CHR '' '' # t) = split_loop (args @ [w]) [] False t" for t
    using q(1,2) by (subst split_loop.simps) (simp add: blank_chars_def)
  then show ?case using q(3) "3.hyps" [of "args @ [w]"] by simp
qed simp

text \<open>
  C34. An argv written as one line reads back as the same argv: whatever the words hold - spaces, quotes,
  shell operators, newlines, a keyword or an assignment for a program - \<open>join_argv\<close> quotes what needs it
  and \<open>split_argv\<close> undoes it.
\<close>

theorem argv_roundtrip:
  assumes "argv \<noteq> []"
  shows "split_argv (join_argv argv) = Inr argv"
  using split_join_from [of argv "[]"] assms by (simp add: split_argv_def join_argv_def)

lemma argv_roundtrip_witness:
  "split_argv (join_argv [''if'', ''a b'', [squote, dquote, CHR ''$''], ''--x=1'']) =
    Inr [''if'', ''a b'', [squote, dquote, CHR ''$''], ''--x=1'']"
  by (rule argv_roundtrip) simp

end
