(* ===== verification/Durations.thy ===== *)
theory Durations
  imports Prelude
begin

text \<open>
  Durations as a config writes them (\<open>src/src/config/duration.rs\<close>, and \<open>format_duration\<close> of
  \<open>src/src/spec.rs\<close>). A \<open>Duration\<close> is its nanoseconds, a natural number.
\<close>

section \<open>Reading\<close>

definition from_millis :: "nat \<Rightarrow> nat" where
  "from_millis n = n * 1000000"

definition from_secs :: "nat \<Rightarrow> nat" where
  "from_secs n = n * 1000000000"

definition as_millis :: "nat \<Rightarrow> nat" where
  "as_millis d = d div 1000000"

definition max_duration :: nat where
  "max_duration = from_secs (24 * 3600)"

definition u64_max :: nat where
  "u64_max = 2 ^ 64 - 1"

text \<open>\<open>u64::saturating_mul\<close>, and \<open>str::parse::<u64>\<close> of a run of digits.\<close>

definition saturating_mul :: "nat \<Rightarrow> nat \<Rightarrow> nat" where
  "saturating_mul m n = min (m * n) u64_max"

definition parse_u64 :: "string \<Rightarrow> nat option" where
  "parse_u64 ds =
     (if ds = [] then None
      else (let n = read_digits 0 ds in if n \<le> u64_max then Some n else None))"

definition is_digit :: "char \<Rightarrow> bool" where
  "is_digit c = (let n = (of_char c :: nat) in 48 \<le> n \<and> n \<le> 57)"

datatype duration_error = Not_A_Duration string | Too_Long string

definition duration_of :: "nat option \<Rightarrow> string \<Rightarrow> nat option" where
  "duration_of number unit =
     (case number of
        None \<Rightarrow> None
      | Some n \<Rightarrow>
          if unit = ''ms'' then Some (from_millis n)
          else if unit = ''s'' then Some (from_secs n)
          else if unit = ''m'' then Some (from_secs (saturating_mul n 60))
          else if unit = ''h'' then Some (from_secs (saturating_mul n 3600))
          else None)"

definition parse_duration :: "string \<Rightarrow> duration_error + nat" where
  "parse_duration text =
     (let number = takeWhile is_digit text;
          unit = dropWhile is_digit text;
          n = (case parse_u64 number of
                 None \<Rightarrow> None
               | Some n \<Rightarrow> if 0 < n \<and> take 1 number \<noteq> ''0'' then Some n else None)
      in case duration_of n unit of
           None \<Rightarrow> Inl (Not_A_Duration text)
         | Some d \<Rightarrow> if max_duration < d then Inl (Too_Long text) else Inr d)"

section \<open>Writing\<close>

definition format_duration :: "nat \<Rightarrow> string" where
  "format_duration d =
     (let ms = as_millis d
      in if ms = 0 \<or> ms mod 1000 \<noteq> 0 then show_nat ms @ ''ms''
         else (let s = ms div 1000
               in if s mod 3600 = 0 then show_nat (s div 3600) @ ''h''
                  else if s mod 60 = 0 then show_nat (s div 60) @ ''m''
                  else show_nat s @ ''s''))"

section \<open>Digits\<close>

lemma show_nat_is_digit: "c \<in> set (show_nat n) \<Longrightarrow> is_digit c"
  using show_nat_digits by (simp add: is_digit_def Let_def)

lemma show_nat_no_zero: "0 < n \<Longrightarrow> take 1 (show_nat n) \<noteq> ''0''"
proof (induction n rule: show_nat.induct)
  case (1 n)
  show ?case
  proof (cases "n < 10")
    case True
    have "of_char (digit_char n) = (48 + n :: nat)" using True by (simp add: digit_char_def)
    then have "digit_char n \<noteq> CHR ''0''" using 1 by auto
    then show ?thesis using True by (subst show_nat.simps) simp
  next
    case False
    then have "take 1 (show_nat (n div 10)) \<noteq> ''0''" using 1 by simp
    then show ?thesis using False show_nat_nonempty [of "n div 10"]
      by (subst show_nat.simps) (cases "show_nat (n div 10)"; simp)
  qed
qed

lemma zero_digit: "digit_char 0 = CHR ''0''"
  by (simp add: digit_char_def char_of_def bit_iff_odd)

lemma digit_of_value: "is_digit c \<Longrightarrow> digit_char (of_char c - 48) = c"
  by (simp add: is_digit_def digit_char_def Let_def)

lemma show_read_digits:
  assumes "ds \<noteq> []" and "\<forall>c\<in>set ds. is_digit c" and "take 1 ds \<noteq> ''0''"
  shows "show_nat (read_digits 0 ds) = ds"
  using assms
proof (induction ds rule: rev_induct)
  case (snoc c ds)
  have c: "is_digit c" "of_char c - 48 < (10 :: nat)" using snoc.prems(2) by (auto simp: is_digit_def Let_def)
  show ?case
  proof (cases "ds = []")
    case True
    then show ?thesis using c digit_of_value [OF c(1)] by (subst show_nat.simps) simp
  next
    case False
    then have ih: "show_nat (read_digits 0 ds) = ds" using snoc by (cases ds) simp_all
    have "0 < read_digits 0 ds"
    proof (rule ccontr)
      assume "\<not> 0 < read_digits 0 ds"
      then have "ds = show_nat 0" using ih by simp
      then show False using snoc.prems(3) False by (subst (asm) show_nat.simps) (simp add: zero_digit)
    qed
    then show ?thesis
      using ih c digit_of_value [OF c(1)] by (subst show_nat.simps) (simp add: read_digits_append)
  qed
qed simp

section \<open>What a text means\<close>

definition unit_nanos :: "(string \<times> nat) list" where
  "unit_nanos = [(''ms'', 1000000), (''s'', 1000000000), (''m'', 60000000000), (''h'', 3600000000000)]"

lemma unit_nanos_iff:
  "(u, k) \<in> set unit_nanos \<longleftrightarrow>
    u = ''ms'' \<and> k = 1000000 \<or> u = ''s'' \<and> k = 1000000000 \<or> u = ''m'' \<and> k = 60000000000 \<or>
    u = ''h'' \<and> k = 3600000000000"
  by (auto simp: unit_nanos_def)

lemma max_duration_value: "max_duration = 86400000000000"
  by (simp add: max_duration_def from_secs_def)

lemma number_of_show:
  assumes "(u, k) \<in> set unit_nanos"
  shows "takeWhile is_digit (show_nat n @ u) = show_nat n" "dropWhile is_digit (show_nat n @ u) = u"
proof -
  have "takeWhile is_digit u = []" "dropWhile is_digit u = u"
    using assms by (auto simp: unit_nanos_def is_digit_def)
  then show "takeWhile is_digit (show_nat n @ u) = show_nat n" "dropWhile is_digit (show_nat n @ u) = u"
    using show_nat_is_digit [of _ n] by (simp_all add: takeWhile_append2 dropWhile_append2)
qed

lemma duration_of_unit:
  assumes "(u, k) \<in> set unit_nanos" and "n * k \<le> max_duration"
  shows "duration_of (Some n) u = Some (n * k)"
  using assms
  by (auto simp: unit_nanos_def duration_of_def from_millis_def from_secs_def saturating_mul_def u64_max_def
      max_duration_value)

lemma parse_duration_show:
  assumes u: "(u, k) \<in> set unit_nanos" and "0 < n" and d: "n * k \<le> max_duration"
  shows "parse_duration (show_nat n @ u) = Inr (n * k)"
proof -
  have "n \<le> u64_max" using u d by (auto simp: unit_nanos_def u64_max_def max_duration_value)
  then have "parse_u64 (show_nat n) = Some n" by (simp add: parse_u64_def read_show_nat)
  then show ?thesis
    using show_nat_no_zero [OF \<open>0 < n\<close>] \<open>0 < n\<close> d
    by (simp add: parse_duration_def Let_def number_of_show [OF u] duration_of_unit [OF u d])
qed

lemma duration_of_some:
  assumes "duration_of number u = Some d" and "d \<le> max_duration"
  shows "\<exists>n k. number = Some n \<and> (u, k) \<in> set unit_nanos \<and> d = n * k"
proof -
  obtain n where n: "number = Some n" using assms(1) by (cases number) (auto simp: duration_of_def)
  have sat: "from_secs (saturating_mul n m) = d \<Longrightarrow> d = n * (m * 1000000000)" for m
    using assms(2) by (auto simp: from_secs_def saturating_mul_def u64_max_def max_duration_value min_def split: if_splits)
  show ?thesis
    using assms(1) n sat [of 60] sat [of 3600]
    by (auto simp: duration_of_def unit_nanos_iff from_millis_def from_secs_def split: if_splits)
qed

text \<open>
  C35. The durations a config accepts are exactly a positive whole number, written without leading zeros,
  and one of the four units, at most a day in all; the value is their product, never one that a
  saturated multiplication made.
\<close>

theorem parse_duration_exact:
  "parse_duration text = Inr d \<longleftrightarrow>
     (\<exists>n u k. (u, k) \<in> set unit_nanos \<and> 0 < n \<and> text = show_nat n @ u \<and> d = n * k \<and> d \<le> max_duration)"
proof
  assume p: "parse_duration text = Inr d"
  define ds where "ds = takeWhile is_digit text"
  define number where "number = (case parse_u64 ds of None \<Rightarrow> None
    | Some n \<Rightarrow> if 0 < n \<and> take 1 ds \<noteq> ''0'' then Some n else None)"
  have "duration_of number (dropWhile is_digit text) = Some d" "d \<le> max_duration"
    using p by (auto simp: parse_duration_def Let_def number_def ds_def split: option.splits if_splits)
  from duration_of_some [OF this] this(2) obtain n k where
    n: "number = Some n" "(dropWhile is_digit text, k) \<in> set unit_nanos" "d = n * k" "d \<le> max_duration" by blast
  then have ds: "ds \<noteq> []" "0 < n" "take 1 ds \<noteq> ''0''" "read_digits 0 ds = n"
    by (auto simp: number_def parse_u64_def Let_def split: if_splits)
  have "\<forall>c\<in>set ds. is_digit c" by (auto simp: ds_def dest: set_takeWhileD)
  then have "show_nat n = ds" using show_read_digits [of ds] ds by simp
  then have "text = show_nat n @ dropWhile is_digit text" by (simp add: ds_def)
  with n ds(2) show "\<exists>n u k. (u, k) \<in> set unit_nanos \<and> 0 < n \<and> text = show_nat n @ u \<and> d = n * k \<and> d \<le> max_duration"
    by blast
qed (use parse_duration_show in blast)

text \<open>
  C36. A duration of at least a millisecond and at most a day, written as a spec writes it, reads back as
  itself down to the millisecond, so saving and loading a config does not change an interval or a timeout.
\<close>

theorem duration_roundtrip:
  assumes "1000000 \<le> d" and "d \<le> max_duration"
  shows "parse_duration (format_duration d) = Inr (as_millis d * 1000000)"
proof -
  let ?ms = "as_millis d"
  have ms: "0 < ?ms" "?ms * 1000000 \<le> max_duration" using assms by (simp_all add: as_millis_def)
  have unit: "parse_duration (show_nat n @ u) = Inr (?ms * 1000000)"
    if "(u, k) \<in> set unit_nanos" "n * k = ?ms * 1000000" for n u k
    using parse_duration_show [OF that(1), of n] that(2) ms by (cases n) simp_all
  consider "?ms mod 1000 \<noteq> 0" | s where "?ms = s * 1000"
    by (metis dvd_div_mult_self mod_eq_0_iff_dvd)
  then show ?thesis
  proof cases
    case 1
    then show ?thesis using unit [of "''ms''" 1000000 ?ms] by (simp add: format_duration_def Let_def unit_nanos_iff)
  next
    case (2 s)
    then have f: "format_duration d = (if s mod 3600 = 0 then show_nat (s div 3600) @ ''h''
        else if s mod 60 = 0 then show_nat (s div 60) @ ''m'' else show_nat s @ ''s'')"
      using ms(1) by (simp add: format_duration_def Let_def)
    have "s div 3600 * 3600000000000 = ?ms * 1000000" if "s mod 3600 = 0" using 2 that by auto
    moreover have "s div 60 * 60000000000 = ?ms * 1000000" if "s mod 60 = 0" using 2 that by auto
    ultimately show ?thesis
      using unit [of "''h''" 3600000000000 "s div 3600"] unit [of "''m''" 60000000000 "s div 60"]
        unit [of "''s''" 1000000000 s] 2
      unfolding f by (simp add: unit_nanos_iff)
  qed
qed

lemma duration_roundtrip_witness: "parse_duration (format_duration 90000000000) = Inr 90000000000"
  using duration_roundtrip [of 90000000000] by (simp add: max_duration_value as_millis_def)

end
