(* ===== verification/Process_Task.thy ===== *)
theory Process_Task
  imports Task_Model
begin

text \<open>
  The task that runs a program (\<open>src/src/task/process_task.rs\<close>, on Unix): the loop of
  \<open>process_main\<close> between the kernel's commands, the child's output and exit, and the ready check.
  A state is what the loop keeps while it waits, an event is what its \<open>select!\<close> wakes up with, and a
  turn is the handling of one event up to the next wait, with the actions it takes, in order. The
  terminal is the record of the functions of \<open>TaskScreen\<close> the loop calls; what the operating system
  and the config answer during a turn is the record \<open>env\<close>. Output is a string of bytes.
\<close>

section \<open>Signals and stops\<close>

datatype sig =
    SigHup | SigInt | SigQuit | SigIll | SigTrap | SigAbrt | SigBus | SigFpe | SigKill | SigUsr1 | SigSegv
  | SigUsr2 | SigPipe | SigAlrm | SigTerm | SigChld | SigCont | SigStop | SigTstp | SigTtin | SigTtou
  | SigUrg | SigXcpu | SigXfsz | SigVtalrm | SigProf | SigWinch | SigSys

definition signals :: "(string \<times> sig) list" where
  "signals =
     [(''SIGHUP'', SigHup), (''SIGINT'', SigInt), (''SIGQUIT'', SigQuit), (''SIGILL'', SigIll),
      (''SIGTRAP'', SigTrap), (''SIGABRT'', SigAbrt), (''SIGBUS'', SigBus), (''SIGFPE'', SigFpe),
      (''SIGKILL'', SigKill), (''SIGUSR1'', SigUsr1), (''SIGSEGV'', SigSegv), (''SIGUSR2'', SigUsr2),
      (''SIGPIPE'', SigPipe), (''SIGALRM'', SigAlrm), (''SIGTERM'', SigTerm), (''SIGCHLD'', SigChld),
      (''SIGCONT'', SigCont), (''SIGSTOP'', SigStop), (''SIGTSTP'', SigTstp), (''SIGTTIN'', SigTtin),
      (''SIGTTOU'', SigTtou), (''SIGURG'', SigUrg), (''SIGXCPU'', SigXcpu), (''SIGXFSZ'', SigXfsz),
      (''SIGVTALRM'', SigVtalrm), (''SIGPROF'', SigProf), (''SIGWINCH'', SigWinch), (''SIGSYS'', SigSys)]"

definition sig_from_name :: "string \<Rightarrow> sig option" where
  "sig_from_name name = map_of signals name"

definition sig_name :: "sig \<Rightarrow> string" where
  "sig_name s = the (map_of (map (\<lambda>(n, t). (t, n)) signals) s)"

datatype 'k stop_signal = StopWith sig bool | StopKeys "'k list" | StopProgram "string list"

definition default_stop :: "'k stop_signal" where
  "default_stop = StopWith SigTerm True"

fun kill_group :: "'k stop_signal \<Rightarrow> bool" where
  "kill_group (StopWith _ whole) = whole"
| "kill_group (StopKeys _) = True"
| "kill_group (StopProgram _) = True"

section \<open>What a run is made of\<close>

record process_spec =
  ps_prog :: string
  ps_args :: "string list"
  ps_cwd :: "string option"
  ps_env :: "(string \<times> string option) list"

text \<open>\<open>ProcessSpec::env\<close>: the environment is a map sorted by name.\<close>

fun env_put :: "string \<Rightarrow> string option \<Rightarrow> (string \<times> string option) list \<Rightarrow> (string \<times> string option) list" where
  "env_put k v [] = [(k, v)]"
| "env_put k v ((j, w) # env) =
     (if k = j then (k, v) # env else if k < j then (k, v) # (j, w) # env else (j, w) # env_put k v env)"

definition spec_env :: "string \<Rightarrow> string \<Rightarrow> process_spec \<Rightarrow> process_spec" where
  "spec_env k v spec = spec\<lparr>ps_env := env_put k (Some v) (ps_env spec)\<rparr>"

record http_url =
  hu_url :: string
  hu_authority :: string
  hu_host :: string
  hu_port :: nat
  hu_path :: string

datatype probe =
    ProbeTcp "string option" nat
  | ProbeHttp http_url
  | ProbeCmd "string list"
  | ProbeFile string

datatype ready_check = CheckLog string | CheckProbe probe nat | CheckSdNotify

record ready_config =
  rc_check :: ready_check
  rc_timeout :: "nat option"

text \<open>A log file's name and settings; \<open>file_path\<close> of the settings is answered by \<open>env\<close>.\<close>

record log_spec =
  ls_name :: string
  ls_enabled :: "bool option"
  ls_dir :: "string option"
  ls_file :: "string option"
  ls_truncate :: bool

record log_sink =
  lk_path :: string
  lk_append :: bool

record 'k process_run =
  pr_spec :: process_spec
  pr_stop :: "'k stop_signal"
  pr_log :: "log_spec option"
  pr_ready :: "ready_config option"
  pr_scrollback :: nat
  pr_mouse :: nat

fun contains_text :: "string \<Rightarrow> string \<Rightarrow> bool" where
  "contains_text needle [] = (needle = [])"
| "contains_text needle (c # cs) = (take (length needle) (c # cs) = needle \<or> contains_text needle cs)"

definition line_ready :: "string \<Rightarrow> string \<Rightarrow> bool" where
  "line_ready needle line = (needle \<noteq> [] \<and> contains_text needle line)"

definition has_sd_notify_check :: "'k process_run \<Rightarrow> bool" where
  "has_sd_notify_check run =
     (case pr_ready run of Some rc \<Rightarrow> rc_check rc = CheckSdNotify | None \<Rightarrow> False)"

definition watches_lines :: "'k process_run \<Rightarrow> bool" where
  "watches_lines run =
     (case pr_ready run of Some rc \<Rightarrow> (case rc_check rc of CheckLog _ \<Rightarrow> True | _ \<Rightarrow> False) | None \<Rightarrow> False)"

section \<open>The terminal\<close>

record winsize =
  ws_y :: nat
  ws_x :: nat
  ws_x_px :: nat
  ws_y_px :: nat

datatype 'k screen_effect = FxWrite string | FxResize winsize | FxKey 'k | FxPaste string

text \<open>The functions of \<open>TaskScreen\<close>; \<open>tm_command\<close> is \<open>None\<close> for a message that is not for the screen.\<close>

record ('s, 'k) terminal =
  tm_output :: "string \<Rightarrow> 's \<Rightarrow> 's \<times> 'k screen_effect list"
  tm_command :: "task_msg \<Rightarrow> 's \<Rightarrow> ('s \<times> 'k screen_effect list) option"
  tm_drag_scroll :: "'s \<Rightarrow> 's"
  tm_sync_timeout :: "'s \<Rightarrow> 's"
  tm_line_tap :: "bool \<Rightarrow> 's \<Rightarrow> 's"
  tm_finished :: "'s \<Rightarrow> 's \<times> string list"
  tm_cursor_line :: "'s \<Rightarrow> string"
  tm_reset :: "nat \<Rightarrow> nat \<Rightarrow> 's \<Rightarrow> 's"
  tm_winsize :: "'s \<Rightarrow> winsize"
  tm_add_logger :: "log_sink \<Rightarrow> 's \<Rightarrow> 's \<times> nat"
  tm_remove_logger :: "nat \<Rightarrow> 's \<Rightarrow> 's"
  tm_key :: "'s \<Rightarrow> 'k \<Rightarrow> string"
  tm_paste :: "'s \<Rightarrow> string \<Rightarrow> string"

section \<open>The state and the actions\<close>

record child =
  ch_pid :: nat
  ch_fd :: int

record sd_socket =
  so_path :: string
  so_fd :: int

text \<open>\<open>in_exits\<close>: the channel the reaper hands the exit to is there.\<close>

record instance_state =
  in_exits :: bool
  in_exit :: "exit_info option"
  in_eof :: bool
  in_ready_sent :: bool
  in_stop_sent :: bool
  in_log :: "(string \<times> nat) option"

definition instance_default :: instance_state where
  "instance_default = \<lparr>in_exits = False, in_exit = None, in_eof = False, in_ready_sent = False,
     in_stop_sent = False, in_log = None\<rparr>"

datatype waiting = WaitProbe probe nat process_spec | WaitNotify sd_socket

record ('s, 'k) ptask =
  pt_config :: "'k process_run"
  pt_child :: "child option"
  pt_instance :: instance_state
  pt_frozen :: bool
  pt_probe :: "waiting option"
  pt_notify :: "sd_socket option"
  pt_screen :: 's

abbreviation pt_ready_sent where "pt_ready_sent st \<equiv> in_ready_sent (pt_instance st)"
abbreviation pt_stop_sent where "pt_stop_sent st \<equiv> in_stop_sent (pt_instance st)"
abbreviation pt_exit where "pt_exit st \<equiv> in_exit (pt_instance st)"
abbreviation pt_eof where "pt_eof st \<equiv> in_eof (pt_instance st)"
abbreviation pt_exits where "pt_exits st \<equiv> in_exits (pt_instance st)"

text \<open>What is saved of a task for an upgrade (\<open>snap::ProcessTask\<close>).\<close>

datatype saved_check =
    SavedTcp "string option" nat
  | SavedHttp string
  | SavedCmd "string list"
  | SavedFile string

datatype 'k saved_stop =
    SavedShutdown
  | SavedKill
  | SavedSignal string bool
  | SavedKeys "'k list"
  | SavedLine string
  | SavedProgram "string list"

record saved_instance =
  si_pid :: nat
  si_fd :: int
  si_exit :: "exit_info option"
  si_eof :: bool
  si_ready_sent :: bool
  si_stop_sent :: bool
  si_ready_line :: string
  si_log_path :: "string option"

record ('s, 'k) saved_process =
  sp_spec :: process_spec
  sp_stop :: "'k saved_stop"
  sp_log :: "log_spec option"
  sp_ready_log :: "string option"
  sp_ready_probe :: "(saved_check \<times> nat) option"
  sp_notify :: "sd_socket option"
  sp_scrollback :: nat
  sp_mouse :: nat
  sp_instance :: "saved_instance option"
  sp_screen :: 's

datatype ('s, 'k) action =
    TellStarted
  | TellReady
  | TellStopped exit_info
  | TellFrozen nat "('s, 'k) saved_process"
  | WriteTo nat string
  | ResizeTo nat winsize
  | SignalTo nat sig bool
  | KillNow nat bool
  | RunStop "string list" process_spec
  | DrainSocket sd_socket

text \<open>
  What a turn is answered by the config and the operating system: the reading of a definition at a
  path, a new socket, the start of a program in a terminal of a size, an exit the reaper had queued,
  and where a log goes for a pid. An error is its message.
\<close>

record 'k env =
  en_read :: "string \<Rightarrow> task_spec \<Rightarrow> string + 'k process_run"
  en_bind :: "string + sd_socket"
  en_spawn :: "process_spec \<Rightarrow> winsize \<Rightarrow> string + child"
  en_queued :: "exit_info option"
  en_log_path :: "log_spec \<Rightarrow> nat \<Rightarrow> string option"

section \<open>Readiness\<close>

text \<open>
  \<open>Instance::log_ready\<close>: the finished lines, the line so far, and \<open>also\<close>, against the text of a log
  check; the lines are not kept for a check that is over.
\<close>

definition log_ready ::
  "('s, 'k) terminal \<Rightarrow> ready_config option \<Rightarrow> string option \<Rightarrow> instance_state \<times> 's \<Rightarrow> (instance_state \<times> 's) \<times> bool" where
  "log_ready tm ready also = (\<lambda>(inst, scr).
     case ready of
       None \<Rightarrow> ((inst, scr), False)
     | Some rc \<Rightarrow>
         (case rc_check rc of
            CheckLog needle \<Rightarrow>
              (if in_ready_sent inst then ((inst, tm_line_tap tm False scr), False)
               else
                 (let (scr1, lines) = tm_finished tm scr;
                      found = (case also of None \<Rightarrow> False | Some line \<Rightarrow> line_ready needle line) \<or>
                        list_ex (line_ready needle) lines \<or> line_ready needle (tm_cursor_line tm scr1)
                  in if found then ((inst\<lparr>in_ready_sent := True\<rparr>, tm_line_tap tm False scr1), True)
                     else ((inst, scr1), False)))
          | CheckProbe _ _ \<Rightarrow> ((inst, scr), False)
          | CheckSdNotify \<Rightarrow> ((inst, scr), False)))"

definition start_probe :: "'k process_run \<Rightarrow> instance_state \<Rightarrow> sd_socket option \<Rightarrow> waiting option" where
  "start_probe run inst notify =
     (if in_ready_sent inst \<or> in_stop_sent inst \<or> in_exit inst \<noteq> None then None
      else
        (case pr_ready run of
           None \<Rightarrow> None
         | Some rc \<Rightarrow>
             (case rc_check rc of
                CheckProbe probe interval \<Rightarrow> Some (WaitProbe probe interval (pr_spec run))
              | CheckSdNotify \<Rightarrow> map_option WaitNotify notify
              | CheckLog _ \<Rightarrow> None)))"

section \<open>Starting\<close>

abbreviation (input) esc :: string where "esc \<equiv> [CHR 0x1B]"
abbreviation (input) crlf :: string where "crlf \<equiv> [CHR 0x0D, CHR 0x0A]"

text \<open>\<open>sd_notify_spec\<close>: the socket kept, the spec with its name, or the message that it cannot be bound.\<close>

definition sd_notify_spec ::
  "'k env \<Rightarrow> 'k process_run \<Rightarrow> sd_socket option \<Rightarrow> sd_socket option \<times> (string + process_spec) \<times> ('s, 'k) action list" where
  "sd_notify_spec env config notify =
     (if \<not> has_sd_notify_check config then (None, Inr (pr_spec config), [])
      else
        (case (case notify of Some socket \<Rightarrow> Inr socket | None \<Rightarrow> en_bind env) of
           Inl err \<Rightarrow>
             (None, Inl (esc @ ''[31mCannot bind the sd_notify socket: '' @ err @ esc @ ''[0m'' @ crlf), [])
         | Inr socket \<Rightarrow>
             (Some socket, Inr (spec_env ''NOTIFY_SOCKET'' (so_path socket) (pr_spec config)), [DrainSocket socket])))"

definition log_resolve :: "'k env \<Rightarrow> log_spec \<Rightarrow> nat \<Rightarrow> log_sink option" where
  "log_resolve env log pid =
     map_option (\<lambda>path. \<lparr>lk_path = path, lk_append = \<not> ls_truncate log\<rparr>) (en_log_path env log pid)"

definition update_log_observer ::
  "('s, 'k) terminal \<Rightarrow> 'k env \<Rightarrow> log_spec option \<Rightarrow> nat \<Rightarrow> (string \<times> nat) option \<times> 's \<Rightarrow> (string \<times> nat) option \<times> 's" where
  "update_log_observer tm env log pid = (\<lambda>(current, scr).
     case log of
       None \<Rightarrow> (current, scr)
     | Some l \<Rightarrow>
         (case log_resolve env l pid of
            None \<Rightarrow> (current, scr)
          | Some sink \<Rightarrow>
              (if map_option fst current = Some (lk_path sink) then (current, scr)
               else
                 (let scr1 = (case current of None \<Rightarrow> scr | Some (_, n) \<Rightarrow> tm_remove_logger tm n scr);
                      (scr2, n) = tm_add_logger tm sink scr1
                  in (Some (lk_path sink, n), scr2)))))"

definition spawn_error_message :: "process_spec \<Rightarrow> string \<Rightarrow> string" where
  "spawn_error_message spec err =
     esc @ ''[31mCannot start '' @ [CHR 0x60] @ ps_prog spec @ [CHR 0x60] @ '': '' @ err @ esc @ ''[0m'' @ crlf"

definition start_instance ::
  "('s, 'k) terminal \<Rightarrow> 'k env \<Rightarrow> 'k process_run \<Rightarrow> process_spec \<Rightarrow> 's \<Rightarrow> 's \<times> (string + child) \<times> ('s, 'k) action list" where
  "start_instance tm env config spec scr =
     (let size = tm_winsize tm scr;
          scr1 = tm_reset tm (pr_scrollback config) (pr_mouse config) scr
      in case en_spawn env spec size of
           Inr c \<Rightarrow> (scr1, Inr c, [TellStarted])
         | Inl err \<Rightarrow> (scr1, Inl (spawn_error_message spec err), [TellStopped exit_error]))"

text \<open>A complaint on the screen; what the screen answers is dropped.\<close>

definition show_message :: "('s, 'k) terminal \<Rightarrow> string \<Rightarrow> ('s, 'k) ptask \<Rightarrow> ('s, 'k) ptask" where
  "show_message tm text st = st\<lparr>pt_screen := fst (tm_output tm text (pt_screen st))\<rparr>"

definition start_child ::
  "('s, 'k) terminal \<Rightarrow> 'k env \<Rightarrow> ('s, 'k) ptask \<Rightarrow> ('s, 'k) ptask \<times> ('s, 'k) action list" where
  "start_child tm env st =
     (case sd_notify_spec env (pt_config st) (pt_notify st) of
        (notify, Inl message, acts) \<Rightarrow>
          (show_message tm message (st\<lparr>pt_notify := notify\<rparr>), acts @ [TellStopped exit_error])
      | (notify, Inr spec, acts) \<Rightarrow>
          (case start_instance tm env (pt_config st) spec (pt_screen st) of
             (scr, Inl message, acts') \<Rightarrow>
               (show_message tm message (st\<lparr>pt_notify := notify, pt_screen := scr\<rparr>), acts @ acts')
           | (scr, Inr c, acts') \<Rightarrow>
               (let inst = (pt_instance st)\<lparr>in_exit := None, in_eof := False, in_ready_sent := False,
                      in_stop_sent := False\<rparr>;
                    scr1 = tm_line_tap tm (watches_lines (pt_config st)) scr;
                    probe = start_probe (pt_config st) inst notify;
                    (current, scr2) = update_log_observer tm env (pr_log (pt_config st)) (ch_pid c) (in_log inst, scr1)
                in (st\<lparr>pt_notify := notify, pt_screen := scr2, pt_probe := probe, pt_child := Some c,
                      pt_instance := inst\<lparr>in_log := current, in_exits := True\<rparr>\<rparr>, acts @ acts'))))"

definition pt_cmd_start ::
  "('s, 'k) terminal \<Rightarrow> 'k env \<Rightarrow> run option \<Rightarrow> ('s, 'k) ptask \<Rightarrow> ('s, 'k) ptask \<times> ('s, 'k) action list" where
  "pt_cmd_start tm env r st =
     (if pt_child st \<noteq> None then (st, [])
      else
        (case r of
           None \<Rightarrow> start_child tm env st
         | Some r \<Rightarrow>
             (case en_read env (case run_path r of None \<Rightarrow> [] | Some p \<Rightarrow> p) (run_spec r) of
                Inr config \<Rightarrow> start_child tm env (st\<lparr>pt_config := config\<rparr>)
              | Inl err \<Rightarrow>
                  (show_message tm (crlf @ ''[dekit: can'' @ [CHR 0x27] @ ''t run it: '' @ err @ '']'' @ crlf) st,
                   [TellStopped exit_error]))))"

section \<open>Stopping\<close>

definition send_key :: "('s, 'k) terminal \<Rightarrow> nat \<Rightarrow> 's \<Rightarrow> 'k \<Rightarrow> ('s, 'k) action list" where
  "send_key tm pid scr key = (let bs = tm_key tm scr key in if bs = [] then [] else [WriteTo pid bs])"

fun stop_process :: "('s, 'k) terminal \<Rightarrow> child \<Rightarrow> 'k stop_signal \<Rightarrow> 's \<Rightarrow> process_spec \<Rightarrow> ('s, 'k) action list" where
  "stop_process tm c (StopWith s whole) scr spec = [SignalTo (ch_pid c) s whole]"
| "stop_process tm c (StopKeys ks) scr spec = concat (map (send_key tm (ch_pid c) scr) ks)"
| "stop_process tm c (StopProgram argv) scr spec = [RunStop argv spec]"

definition pt_cmd_stop :: "('s, 'k) terminal \<Rightarrow> ('s, 'k) ptask \<Rightarrow> ('s, 'k) ptask \<times> ('s, 'k) action list" where
  "pt_cmd_stop tm st =
     (st\<lparr>pt_probe := None, pt_instance := (pt_instance st)\<lparr>in_stop_sent := True\<rparr>\<rparr>,
      case pt_child st of
        None \<Rightarrow> []
      | Some c \<Rightarrow> stop_process tm c (pr_stop (pt_config st)) (pt_screen st) (pr_spec (pt_config st)))"

definition pt_cmd_kill :: "('s, 'k) ptask \<Rightarrow> ('s, 'k) ptask \<times> ('s, 'k) action list" where
  "pt_cmd_kill st =
     (st\<lparr>pt_probe := None, pt_instance := (pt_instance st)\<lparr>in_stop_sent := True\<rparr>\<rparr>,
      case pt_child st of
        None \<Rightarrow> []
      | Some c \<Rightarrow> [KillNow (ch_pid c) (kill_group (pr_stop (pt_config st)))])"

section \<open>Freezing for an upgrade\<close>

fun saved_stop_of :: "'k stop_signal \<Rightarrow> 'k saved_stop" where
  "saved_stop_of (StopWith s whole) = SavedSignal (sig_name s) whole"
| "saved_stop_of (StopKeys ks) = SavedKeys ks"
| "saved_stop_of (StopProgram argv) = SavedProgram argv"

fun saved_check_of :: "probe \<Rightarrow> saved_check" where
  "saved_check_of (ProbeTcp host port) = SavedTcp host port"
| "saved_check_of (ProbeHttp url) = SavedHttp (hu_url url)"
| "saved_check_of (ProbeCmd argv) = SavedCmd argv"
| "saved_check_of (ProbeFile path) = SavedFile path"

definition saved_ready_log :: "ready_config option \<Rightarrow> string option" where
  "saved_ready_log ready =
     (case ready of None \<Rightarrow> None | Some rc \<Rightarrow> (case rc_check rc of CheckLog text \<Rightarrow> Some text | _ \<Rightarrow> None))"

text \<open>An interval is kept in whole milliseconds.\<close>

definition saved_ready_probe :: "ready_config option \<Rightarrow> (saved_check \<times> nat) option" where
  "saved_ready_probe ready =
     (case ready of
        None \<Rightarrow> None
      | Some rc \<Rightarrow>
          (case rc_check rc of
             CheckProbe probe interval \<Rightarrow> Some (saved_check_of probe, interval div 1000000)
           | _ \<Rightarrow> None))"

text \<open>\<open>stop_sent\<close> is written only where a check still waiting would read it.\<close>

definition stop_matters :: "'k process_run \<Rightarrow> instance_state \<Rightarrow> bool" where
  "stop_matters config inst =
     ((saved_ready_probe (pr_ready config) \<noteq> None \<or> has_sd_notify_check config) \<and>
      \<not> in_ready_sent inst \<and> in_exit inst = None)"

definition saved_instance_of :: "'k process_run \<Rightarrow> instance_state \<Rightarrow> child \<Rightarrow> saved_instance" where
  "saved_instance_of config inst c =
     \<lparr>si_pid = ch_pid c, si_fd = ch_fd c, si_exit = in_exit inst, si_eof = in_eof inst,
      si_ready_sent = in_ready_sent inst,
      si_stop_sent = (in_stop_sent inst \<and> stop_matters config inst),
      si_ready_line = [], si_log_path = map_option fst (in_log inst)\<rparr>"

definition pt_snapshot :: "('s, 'k) ptask \<Rightarrow> ('s, 'k) saved_process" where
  "pt_snapshot st =
     (let config = pt_config st
      in \<lparr>sp_spec = pr_spec config, sp_stop = saved_stop_of (pr_stop config), sp_log = pr_log config,
          sp_ready_log = saved_ready_log (pr_ready config),
          sp_ready_probe = saved_ready_probe (pr_ready config), sp_notify = pt_notify st,
          sp_scrollback = pr_scrollback config, sp_mouse = pr_mouse config,
          sp_instance = map_option (saved_instance_of config (pt_instance st)) (pt_child st),
          sp_screen = pt_screen st\<rparr>)"

definition set_exited :: "exit_info \<Rightarrow> instance_state \<Rightarrow> instance_state" where
  "set_exited info inst = inst\<lparr>in_exit := Some info, in_exits := False\<rparr>"

definition pt_cmd_freeze :: "'k env \<Rightarrow> nat \<Rightarrow> ('s, 'k) ptask \<Rightarrow> ('s, 'k) ptask \<times> ('s, 'k) action list" where
  "pt_cmd_freeze env number st =
     (let inst = (case (if pt_exits st then en_queued env else None) of
                    None \<Rightarrow> pt_instance st
                  | Some info \<Rightarrow> set_exited info (pt_instance st));
          st1 = st\<lparr>pt_instance := inst, pt_frozen := True, pt_probe := None\<rparr>
      in (st1, [TellFrozen number (pt_snapshot st1)]))"

definition pt_cmd_thaw :: "('s, 'k) ptask \<Rightarrow> ('s, 'k) ptask" where
  "pt_cmd_thaw st =
     (let st1 = st\<lparr>pt_frozen := False\<rparr>
      in if pt_child st1 \<noteq> None
         then st1\<lparr>pt_probe := start_probe (pt_config st1) (pt_instance st1) (pt_notify st1)\<rparr> else st1)"

section \<open>Input and output\<close>

fun effect_actions :: "('s, 'k) terminal \<Rightarrow> child option \<Rightarrow> 's \<Rightarrow> 'k screen_effect \<Rightarrow> ('s, 'k) action list" where
  "effect_actions tm None scr fx = []"
| "effect_actions tm (Some c) scr (FxWrite s) = [WriteTo (ch_pid c) s]"
| "effect_actions tm (Some c) scr (FxKey key) = send_key tm (ch_pid c) scr key"
| "effect_actions tm (Some c) scr (FxPaste text) = [WriteTo (ch_pid c) (tm_paste tm scr text)]"
| "effect_actions tm (Some c) scr (FxResize wsz) = [ResizeTo (ch_pid c) wsz]"

definition apply_effects ::
  "('s, 'k) terminal \<Rightarrow> ('s, 'k) ptask \<Rightarrow> 'k screen_effect list \<Rightarrow> ('s, 'k) action list" where
  "apply_effects tm st fxs = concat (map (effect_actions tm (pt_child st) (pt_screen st)) fxs)"

definition pt_cmd_msg :: "('s, 'k) terminal \<Rightarrow> task_msg \<Rightarrow> ('s, 'k) ptask \<Rightarrow> ('s, 'k) ptask \<times> ('s, 'k) action list" where
  "pt_cmd_msg tm msg st =
     (case tm_command tm msg (pt_screen st) of
        None \<Rightarrow> (st, [])
      | Some (scr, fxs) \<Rightarrow> (let st1 = st\<lparr>pt_screen := scr\<rparr> in (st1, apply_effects tm st1 fxs)))"

text \<open>Output: onto the screen, searched for the ready line, then what the screen answers.\<close>

definition on_output :: "('s, 'k) terminal \<Rightarrow> string \<Rightarrow> ('s, 'k) ptask \<Rightarrow> ('s, 'k) ptask \<times> ('s, 'k) action list" where
  "on_output tm text st =
     (let (scr, fxs) = tm_output tm text (pt_screen st);
          ((inst, scr1), ready) = log_ready tm (pr_ready (pt_config st)) None (pt_instance st, scr);
          st1 = st\<lparr>pt_instance := inst, pt_screen := scr1\<rparr>
      in (st1, (if ready then [TellReady] else []) @ apply_effects tm st1 fxs))"

definition on_eof :: "('s, 'k) terminal \<Rightarrow> ('s, 'k) ptask \<Rightarrow> ('s, 'k) ptask" where
  "on_eof tm st =
     st\<lparr>pt_instance := (pt_instance st)\<lparr>in_eof := True\<rparr>, pt_screen := tm_sync_timeout tm (pt_screen st)\<rparr>"

section \<open>The loop\<close>

text \<open>\<open>Next\<close>; a read is \<open>None\<close> when it fails, and the exit is \<open>None\<close> when the reaper is gone.\<close>

datatype event =
    EvCmd task_cmd
  | EvRead "string option"
  | EvExited "exit_info option"
  | EvReady
  | EvDragScroll
  | EvSyncTimeout

text \<open>What \<open>select!\<close> can wake up with.\<close>

fun can_wake :: "('s, 'k) ptask \<Rightarrow> event \<Rightarrow> bool" where
  "can_wake st (EvCmd _) = True"
| "can_wake st (EvRead _) = (pt_child st \<noteq> None \<and> \<not> pt_eof st \<and> \<not> pt_frozen st)"
| "can_wake st (EvExited _) = pt_exits st"
| "can_wake st EvReady = (pt_probe st \<noteq> None)"
| "can_wake st EvDragScroll = True"
| "can_wake st EvSyncTimeout = True"

text \<open>The head of the loop: the run is over once the exit and the end of the output are both in.\<close>

definition loop_head :: "('s, 'k) ptask \<Rightarrow> ('s, 'k) ptask \<times> ('s, 'k) action list" where
  "loop_head st =
     (case pt_exit st of
        Some info \<Rightarrow>
          (if pt_eof st \<and> pt_child st \<noteq> None then (st\<lparr>pt_child := None\<rparr>, [TellStopped info]) else (st, []))
      | None \<Rightarrow> (st, []))"

fun pt_command ::
  "('s, 'k) terminal \<Rightarrow> 'k env \<Rightarrow> task_cmd \<Rightarrow> ('s, 'k) ptask \<Rightarrow> ('s, 'k) ptask \<times> ('s, 'k) action list" where
  "pt_command tm env (CmdStart r) st = pt_cmd_start tm env r st"
| "pt_command tm env CmdStop st = pt_cmd_stop tm st"
| "pt_command tm env CmdKill st = pt_cmd_kill st"
| "pt_command tm env (CmdFreeze n) st = pt_cmd_freeze env n st"
| "pt_command tm env CmdThaw st = (pt_cmd_thaw st, [])"
| "pt_command tm env (CmdMsg msg) st = pt_cmd_msg tm msg st"

fun on_event ::
  "('s, 'k) terminal \<Rightarrow> 'k env \<Rightarrow> event \<Rightarrow> ('s, 'k) ptask \<Rightarrow> ('s, 'k) ptask \<times> ('s, 'k) action list" where
  "on_event tm env (EvCmd cmd) st = pt_command tm env cmd st"
| "on_event tm env (EvExited (Some info)) st =
     (st\<lparr>pt_probe := None, pt_instance := set_exited info (pt_instance st)\<rparr>, [])"
| "on_event tm env (EvExited None) st = (st\<lparr>pt_instance := (pt_instance st)\<lparr>in_exits := False\<rparr>\<rparr>, [])"
| "on_event tm env EvReady st =
     (st\<lparr>pt_probe := None, pt_instance := (pt_instance st)\<lparr>in_ready_sent := True\<rparr>\<rparr>, [TellReady])"
| "on_event tm env EvDragScroll st = (st\<lparr>pt_screen := tm_drag_scroll tm (pt_screen st)\<rparr>, [])"
| "on_event tm env EvSyncTimeout st = (st\<lparr>pt_screen := tm_sync_timeout tm (pt_screen st)\<rparr>, [])"
| "on_event tm env (EvRead None) st = (on_eof tm st, [])"
| "on_event tm env (EvRead (Some text)) st = (if text = [] then (on_eof tm st, []) else on_output tm text st)"

definition pt_turn ::
  "('s, 'k) terminal \<Rightarrow> 'k env \<Rightarrow> event \<Rightarrow> ('s, 'k) ptask \<Rightarrow> ('s, 'k) ptask \<times> ('s, 'k) action list" where
  "pt_turn tm env ev st =
     (let (st1, acts1) = on_event tm env ev st; (st2, acts2) = loop_head st1 in (st2, acts1 @ acts2))"

section \<open>Where the loop begins\<close>

definition pt_fresh :: "('s, 'k) terminal \<Rightarrow> 'k process_run \<Rightarrow> 's \<Rightarrow> ('s, 'k) ptask" where
  "pt_fresh tm config scr =
     \<lparr>pt_config = config, pt_child = None, pt_instance = instance_default, pt_frozen = False,
      pt_probe = None, pt_notify = None, pt_screen = tm_line_tap tm (watches_lines config) scr\<rparr>"

text \<open>
  The kernel waits for a ready report only in \<open>Running\<close>, so in any other saved state the instance is
  resumed as one that has sent it.
\<close>

definition resumed_instance :: "task_state \<Rightarrow> ('s, 'k) saved_process \<Rightarrow> saved_instance option" where
  "resumed_instance state saved =
     map_option (\<lambda>inst. if state = Running then inst else inst\<lparr>si_ready_sent := True\<rparr>) (sp_instance saved)"

text \<open>
  A resumed task: its child is adopted, unless that fails (\<open>adopted\<close>), and its socket (\<open>notify\<close>
  is what became of it). \<open>ready_line\<close> is decoded by then.
\<close>

definition pt_resume ::
  "('s, 'k) terminal \<Rightarrow> bool \<Rightarrow> 'k process_run \<Rightarrow> 's \<Rightarrow> sd_socket option \<Rightarrow> saved_instance option \<Rightarrow>
    ('s, 'k) ptask \<times> ('s, 'k) action list" where
  "pt_resume tm adopted config scr notify saved =
     (let st = (pt_fresh tm config scr)\<lparr>pt_notify := notify\<rparr>;
          (st1, acts1) =
            (case saved of
               None \<Rightarrow> (st, [])
             | Some s \<Rightarrow>
                 (if \<not> adopted then (st, [TellStopped exit_error])
                  else
                    (let inst = \<lparr>in_exits = (si_exit s = None), in_exit = si_exit s, in_eof = si_eof s,
                           in_ready_sent = si_ready_sent s, in_stop_sent = si_stop_sent s, in_log = None\<rparr>;
                         ((inst1, scr1), ready) =
                           log_ready tm (pr_ready config) (Some (si_ready_line s)) (inst, pt_screen st);
                         probe = start_probe config inst1 notify;
                         (current, scr2) =
                           (case si_log_path s of
                              None \<Rightarrow> (None, scr1)
                            | Some path \<Rightarrow>
                                (let (scr2, n) = tm_add_logger tm \<lparr>lk_path = path, lk_append = True\<rparr> scr1
                                 in (Some (path, n), scr2)))
                     in (st\<lparr>pt_child := Some \<lparr>ch_pid = si_pid s, ch_fd = si_fd s\<rparr>, pt_instance := inst1\<lparr>in_log := current\<rparr>,
                           pt_probe := probe, pt_screen := scr2\<rparr>, if ready then [TellReady] else []))));
          (st2, acts2) = loop_head st1
      in (st2, acts1 @ acts2))"

end
