(* ===== verification/Process_Reports.thy ===== *)
theory Process_Reports
  imports Process_Task Runs
begin

text \<open>
  What the kernel can rely on from a program's task, whatever the program, the system and the
  terminal do: the order of its reports, when a ready check runs, and that an upgrade resumes it as
  it was.
\<close>

section \<open>The order of the reports\<close>

text \<open>A task as its reports tell it: down, up, or up and ready.\<close>

datatype phase = Down | Up | UpReady

fun after_report :: "phase \<Rightarrow> ('s, 'k) action \<Rightarrow> phase option" where
  "after_report p TellStarted = (if p = Down then Some Up else None)"
| "after_report p TellReady = (if p = Up then Some UpReady else None)"
| "after_report p (TellStopped _) = Some Down"
| "after_report p (TellFrozen _ _) = Some p"
| "after_report p (WriteTo _ _) = Some p"
| "after_report p (ResizeTo _ _) = Some p"
| "after_report p (SignalTo _ _ _) = Some p"
| "after_report p (KillNow _ _) = Some p"
| "after_report p (RunStop _ _) = Some p"
| "after_report p (DrainSocket _) = Some p"

fun after_reports :: "phase \<Rightarrow> ('s, 'k) action list \<Rightarrow> phase option" where
  "after_reports p [] = Some p"
| "after_reports p (a # as) = Option.bind (after_report p a) (\<lambda>q. after_reports q as)"

lemma after_reports_append [simp]:
  "after_reports p (as @ bs) = Option.bind (after_reports p as) (\<lambda>q. after_reports q bs)"
  by (induction as arbitrary: p) (simp_all split: Option.bind_split)

definition phase_of :: "('s, 'k) ptask \<Rightarrow> phase" where
  "phase_of st = (if pt_child st = None then Down else if pt_ready_sent st then UpReady else Up)"

section \<open>The invariant of the loop\<close>

text \<open>Where the loop waits: a check only runs for a child that is up, not ready, not told to stop and
  not gone; the reaper's channel is there only for such a child's exit; and a child whose exit and
  end of output are in is gone.\<close>

definition check_ok :: "('s, 'k) ptask \<Rightarrow> bool" where
  "check_ok st =
     (pt_probe st \<noteq> None \<longrightarrow>
        pt_child st \<noteq> None \<and> \<not> pt_ready_sent st \<and> \<not> pt_stop_sent st \<and> pt_exit st = None \<and>
        \<not> watches_lines (pt_config st))"

definition exits_ok :: "('s, 'k) ptask \<Rightarrow> bool" where
  "exits_ok st = (pt_exits st \<longrightarrow> pt_child st \<noteq> None \<and> pt_exit st = None)"

definition pt_ok :: "('s, 'k) ptask \<Rightarrow> bool" where
  "pt_ok st = (check_ok st \<and> exits_ok st \<and> (pt_child st \<noteq> None \<and> pt_eof st \<longrightarrow> pt_exit st = None))"

lemmas pt_defs = check_ok_def exits_ok_def phase_of_def

lemma start_probe_some:
  assumes "start_probe config inst notify = Some w"
  shows "\<not> in_ready_sent inst \<and> \<not> in_stop_sent inst \<and> in_exit inst = None \<and> \<not> watches_lines config"
  using assms
  by (auto simp: start_probe_def watches_lines_def split: if_splits option.splits ready_check.splits)

lemma log_ready_cases:
  assumes "log_ready tm ready also (inst, scr) = ((inst', scr'), found)"
  shows "inst' = (if found then inst\<lparr>in_ready_sent := True\<rparr> else inst)"
    "found \<Longrightarrow> \<not> in_ready_sent inst \<and> (\<exists>rc needle. ready = Some rc \<and> rc_check rc = CheckLog needle)"
  using assms
  by (auto simp: log_ready_def Let_def split: option.splits ready_check.splits if_splits prod.splits)

text \<open>A turn before its end keeps this much, and its reports fit.\<close>

definition turn_ok :: "('s, 'k) ptask \<Rightarrow> ('s, 'k) ptask \<times> ('s, 'k) action list \<Rightarrow> bool" where
  "turn_ok st r = (check_ok (fst r) \<and> exits_ok (fst r) \<and> after_reports (phase_of st) (snd r) = Some (phase_of (fst r)))"

lemma quiet_reports:
  "\<forall>a\<in>set as. after_report p a = Some p \<Longrightarrow> after_reports p as = Some p"
  by (induction as) auto

lemma effect_io:
  "a \<in> set (apply_effects tm st fxs) \<Longrightarrow> (\<exists>p t. a = WriteTo p t) \<or> (\<exists>p w. a = ResizeTo p w)"
proof -
  assume "a \<in> set (apply_effects tm st fxs)"
  then obtain fx where "a \<in> set (effect_actions tm (pt_child st) (pt_screen st) fx)"
    by (auto simp: apply_effects_def)
  then show ?thesis
    by (cases "pt_child st"; cases fx) (auto simp: send_key_def Let_def split: if_splits)
qed

lemma stop_io:
  "a \<in> set (stop_process tm c stop scr spec) \<Longrightarrow>
    (\<exists>p t. a = WriteTo p t) \<or> (\<exists>p s g. a = SignalTo p s g) \<or> (\<exists>argv sp. a = RunStop argv sp)"
  by (cases stop) (auto simp: send_key_def Let_def split: if_splits)

lemma effects_quiet: "after_reports p (apply_effects tm st fxs) = Some p"
  by (rule quiet_reports) (auto dest!: effect_io)

lemma stop_quiet: "after_reports p (stop_process tm c stop scr spec) = Some p"
  by (rule quiet_reports) (auto dest!: stop_io)

lemma show_message_fields [simp]:
  "pt_child (show_message tm t st) = pt_child st" "pt_instance (show_message tm t st) = pt_instance st"
  "pt_probe (show_message tm t st) = pt_probe st" "pt_config (show_message tm t st) = pt_config st"
  by (simp_all add: show_message_def)

lemma sd_notify_quiet: "sd_notify_spec env config notify = (n, spec, acts) \<Longrightarrow> after_reports p acts = Some p"
  by (auto simp: sd_notify_spec_def split: option.splits sum.splits if_splits)

lemma start_child_ok:
  fixes st :: "('s, 'k) ptask"
  assumes "pt_child st = None" "check_ok st" "exits_ok st"
  shows "turn_ok st (start_child tm env st)"
proof -
  have p: "pt_probe st = None" "\<not> pt_exits st" using assms by (auto simp: pt_defs)
  obtain notify spec and acts :: "('s, 'k) action list" where n: "sd_notify_spec env (pt_config st) (pt_notify st) = (notify, spec, acts)"
    by (metis prod_cases3)
  then have q: "after_reports r acts = Some r" for r
    using sd_notify_quiet [OF n] by simp
  show ?thesis
  proof (cases spec)
    case (Inl message)
    then show ?thesis
      using n q p assms(1) by (simp add: turn_ok_def start_child_def pt_defs)
  next
    case (Inr sp)
    obtain scr answer and acts' :: "('s, 'k) action list" where s: "start_instance tm env (pt_config st) sp (pt_screen st) = (scr, answer, acts')"
      by (metis prod_cases3)
    have a: "acts' = (case answer of Inl _ \<Rightarrow> [TellStopped exit_error] | Inr _ \<Rightarrow> [TellStarted])"
      using s by (auto simp: start_instance_def Let_def split: sum.splits)
    show ?thesis
    proof (cases answer)
      case (Inl message)
      then show ?thesis
        using n q p assms(1) s a Inr by (simp add: turn_ok_def start_child_def pt_defs)
    next
      case c: (Inr c)
      then show ?thesis
        using n q p assms(1) s a Inr
        by (auto dest: start_probe_some simp: turn_ok_def start_child_def pt_defs Let_def split: prod.splits)
    qed
  qed
qed

lemma pt_cmd_start_ok:
  assumes "check_ok st" "exits_ok st"
  shows "turn_ok st (pt_cmd_start tm env r st)"
proof (cases "pt_child st")
  case None
  have alt: "turn_ok st (start_child tm env (st\<lparr>pt_config := config\<rparr>))" for config
    using start_child_ok [of "st\<lparr>pt_config := config\<rparr>" tm env] assms None
    by (simp add: pt_defs turn_ok_def)
  show ?thesis
  proof (cases r)
    case r: (Some r')
    show ?thesis
    proof (cases "en_read env (case run_path r' of None \<Rightarrow> [] | Some p \<Rightarrow> p) (run_spec r')")
      case (Inl err)
      then show ?thesis using None assms r by (simp add: pt_cmd_start_def turn_ok_def pt_defs)
    next
      case (Inr config)
      then show ?thesis using None r alt by (simp add: pt_cmd_start_def)
    qed
  qed (use None start_child_ok [OF None assms] in \<open>simp add: pt_cmd_start_def\<close>)
qed (use assms in \<open>simp add: pt_cmd_start_def turn_ok_def\<close>)

lemma on_output_ok:
  assumes "check_ok st" "exits_ok st" "pt_child st \<noteq> None"
  shows "turn_ok st (on_output tm text st)"
proof -
  obtain scr fxs where o: "tm_output tm text (pt_screen st) = (scr, fxs)" by fastforce
  obtain inst scr1 ready where l: "log_ready tm (pr_ready (pt_config st)) None (pt_instance st, scr) = ((inst, scr1), ready)"
    by (metis surj_pair)
  note l = l log_ready_cases [OF l]
  show ?thesis
  proof (cases ready)
    case True
    then have w: "watches_lines (pt_config st)" "\<not> pt_ready_sent st" using l(3) by (auto simp: watches_lines_def)
    then have "pt_probe st = None" using assms(1) by (auto simp: check_ok_def)
    then show ?thesis
      using o l(1,2) True w assms effects_quiet by (auto simp: on_output_def Let_def turn_ok_def pt_defs)
  next
    case False
    then show ?thesis
      using o l(1,2) assms effects_quiet by (auto simp: on_output_def Let_def turn_ok_def pt_defs)
  qed
qed

lemma on_eof_ok:
  assumes "check_ok st" "exits_ok st"
  shows "turn_ok st (on_eof tm st, [])"
  using assms by (simp add: on_eof_def turn_ok_def pt_defs)

lemma on_event_ok:
  assumes "pt_ok st" "can_wake st ev"
  shows "turn_ok st (on_event tm env ev st)"
proof -
  have ok: "check_ok st" "exits_ok st" using assms(1) by (simp_all add: pt_ok_def)
  show ?thesis
  proof (cases ev)
    case (EvCmd cmd)
    show ?thesis
    proof (cases cmd)
      case (CmdStart r)
      then show ?thesis using pt_cmd_start_ok [OF ok] EvCmd by simp
    next
      case CmdStop
      then show ?thesis
        using ok stop_quiet EvCmd by (auto simp: pt_cmd_stop_def turn_ok_def pt_defs split: option.splits)
    next
      case CmdKill
      then show ?thesis
        using ok EvCmd by (auto simp: pt_cmd_kill_def turn_ok_def pt_defs split: option.splits)
    next
      case (CmdFreeze n)
      then show ?thesis
        using ok EvCmd by (auto simp: pt_cmd_freeze_def Let_def turn_ok_def pt_defs set_exited_def split: option.splits)
    next
      case CmdThaw
      then show ?thesis
        using ok EvCmd start_probe_some [of "pt_config st" "pt_instance st" "pt_notify st"]
        by (cases "start_probe (pt_config st) (pt_instance st) (pt_notify st)")
          (auto simp: pt_cmd_thaw_def Let_def turn_ok_def pt_defs)
    next
      case (CmdMsg m)
      then show ?thesis
        using ok EvCmd effects_quiet by (auto simp: pt_cmd_msg_def Let_def turn_ok_def pt_defs split: option.splits)
    qed
  next
    case (EvRead r)
    then have up: "pt_child st \<noteq> None" using assms(2) by simp
    show ?thesis
    proof (cases r)
      case None
      then show ?thesis using on_eof_ok [OF ok] EvRead by simp
    next
      case (Some t)
      then show ?thesis using on_eof_ok [OF ok] on_output_ok [OF ok up] EvRead by simp
    qed
  next
    case (EvExited i)
    then show ?thesis
      using ok assms(2) by (cases i) (auto simp: turn_ok_def pt_defs set_exited_def)
  qed (use ok assms(2) in \<open>auto simp: turn_ok_def pt_defs\<close>)
qed

lemma loop_head_ok:
  assumes "check_ok st" "exits_ok st"
  shows "pt_ok (fst (loop_head st)) \<and> after_reports (phase_of st) (snd (loop_head st)) = Some (phase_of (fst (loop_head st)))"
  using assms by (auto simp: loop_head_def pt_ok_def pt_defs split: option.splits)

lemma turn_keeps:
  assumes "pt_ok st" "can_wake st ev" "pt_turn tm env ev st = (st', acts)"
  shows "pt_ok st' \<and> after_reports (phase_of st) acts = Some (phase_of st')"
proof -
  obtain st1 acts1 where e: "on_event tm env ev st = (st1, acts1)" by fastforce
  have t: "check_ok st1" "exits_ok st1" "after_reports (phase_of st) acts1 = Some (phase_of st1)"
    using on_event_ok [OF assms(1,2), of tm env] e by (simp_all add: turn_ok_def)
  show ?thesis
    using loop_head_ok [OF t(1,2)] assms(3) e t(3) by (auto simp: pt_turn_def split: prod.splits)
qed

section \<open>Runs of the loop\<close>

text \<open>A run is a state with all the actions taken so far.\<close>

inductive task_begins :: "('s, 'k) terminal \<Rightarrow> ('s, 'k) ptask \<times> ('s, 'k) action list \<Rightarrow> bool" for tm where
  "task_begins tm (pt_fresh tm config scr, [])"

inductive task_turn :: "('s, 'k) terminal \<Rightarrow> ('s, 'k) ptask \<times> ('s, 'k) action list \<Rightarrow>
    ('s, 'k) ptask \<times> ('s, 'k) action list \<Rightarrow> bool" for tm where
  "can_wake st ev \<Longrightarrow> pt_turn tm env ev st = (st', acts) \<Longrightarrow> task_turn tm (st, done_so_far) (st', done_so_far @ acts)"

inductive_simps task_turn_iff: "task_turn tm (st, as) (st', bs)"

definition reports_ok :: "('s, 'k) ptask \<times> ('s, 'k) action list \<Rightarrow> bool" where
  "reports_ok r = (pt_ok (fst r) \<and> after_reports Down (snd r) = Some (phase_of (fst r)))"

interpretation task_runs: safe_runs "task_begins tm" "task_turn tm" reports_ok
proof unfold_locales
  fix r show "task_begins tm r \<Longrightarrow> reports_ok r"
    by (cases r) (auto simp: task_begins.simps reports_ok_def pt_ok_def pt_defs pt_fresh_def instance_default_def)
next
  fix r r' assume "task_turn tm r r'" "reports_ok r"
  then show "reports_ok r'"
    by (cases rule: task_turn.cases) (use turn_keeps in \<open>fastforce simp: reports_ok_def\<close>)
qed

abbreviation task_reached :: "('s, 'k) terminal \<Rightarrow> ('s, 'k) ptask \<Rightarrow> ('s, 'k) action list \<Rightarrow> bool" where
  "task_reached tm st acts \<equiv> reachable (task_begins tm) (task_turn tm) (st, acts)"

lemma reached_ok: "task_reached tm st acts \<Longrightarrow> pt_ok st"
  using task_runs.always [of tm "(st, acts)"] by (simp add: reports_ok_def)

section \<open>An upgrade\<close>

text \<open>
  Two states that differ at most in \<open>stop_sent\<close>, where nothing would read it: it is kept across an
  upgrade only where it matters.
\<close>

definition set_stop :: "bool \<Rightarrow> ('s, 'k) ptask \<Rightarrow> ('s, 'k) ptask" where
  "set_stop x st = st\<lparr>pt_instance := (pt_instance st)\<lparr>in_stop_sent := x\<rparr>\<rparr>"

definition alike :: "('s, 'k) ptask \<Rightarrow> ('s, 'k) ptask \<Rightarrow> bool" where
  "alike a b =
     (\<exists>x. b = set_stop x a \<and>
       (x = pt_stop_sent a \<or> pt_child a = None \<or> \<not> stop_matters (pt_config a) (pt_instance a)))"

lemma set_stop_fields [simp]:
  "pt_config (set_stop x st) = pt_config st" "pt_child (set_stop x st) = pt_child st"
  "pt_frozen (set_stop x st) = pt_frozen st" "pt_probe (set_stop x st) = pt_probe st"
  "pt_notify (set_stop x st) = pt_notify st" "pt_screen (set_stop x st) = pt_screen st"
  "pt_instance (set_stop x st) = (pt_instance st)\<lparr>in_stop_sent := x\<rparr>"
  by (simp_all add: set_stop_def)

lemma set_stop_same [simp]: "set_stop (pt_stop_sent st) st = st"
  by (simp add: set_stop_def)

lemma alikeI:
  "b = set_stop x a \<Longrightarrow> x = pt_stop_sent a \<or> pt_child a = None \<or> \<not> stop_matters (pt_config a) (pt_instance a)
    \<Longrightarrow> alike a b"
  by (auto simp: alike_def)

lemma alike_refl [simp]: "alike a a"
  by (rule alikeI [of _ "pt_stop_sent a"]) simp_all

lemma start_probe_unmattered:
  "\<not> stop_matters config inst \<Longrightarrow> start_probe config (inst\<lparr>in_stop_sent := x\<rparr>) notify = start_probe config inst notify"
  by (auto simp: start_probe_def stop_matters_def saved_ready_probe_def has_sd_notify_check_def
      split: option.splits ready_check.splits)

lemma stop_matters_stop [simp]: "stop_matters config (inst\<lparr>in_stop_sent := x\<rparr>) = stop_matters config inst"
  by (simp add: stop_matters_def)

lemma snapshot_alike:
  assumes "alike a b"
  shows "pt_snapshot b = pt_snapshot a"
  using assms
  by (cases "pt_child a") (auto simp: alike_def pt_snapshot_def saved_instance_of_def Let_def)

lemma show_message_stop: "show_message tm t (set_stop x st) = set_stop x (show_message tm t st)"
  by (simp add: show_message_def set_stop_def)

lemma start_child_alike:
  fixes a :: "('s, 'k) ptask"
  assumes "pt_child a = None"
  shows "snd (start_child tm env (set_stop x a)) = snd (start_child tm env a) \<and>
    alike (fst (start_child tm env a)) (fst (start_child tm env (set_stop x a)))"
proof -
  obtain notify spec and acts :: "('s, 'k) action list" where n: "sd_notify_spec env (pt_config a) (pt_notify a) = (notify, spec, acts)"
    by (metis prod_cases3)
  show ?thesis
  proof (cases spec)
    case (Inl message)
    then show ?thesis
      using n assms
      by (simp add: start_child_def) (rule alikeI [of _ x], simp_all add: set_stop_def show_message_def)
  next
    case (Inr sp)
    obtain scr answer and acts' :: "('s, 'k) action list" where s: "start_instance tm env (pt_config a) sp (pt_screen a) = (scr, answer, acts')"
      by (metis prod_cases3)
    show ?thesis
    proof (cases answer)
      case (Inl message)
      then show ?thesis
        using n s Inr assms
        by (simp add: start_child_def) (rule alikeI [of _ x], simp_all add: set_stop_def show_message_def)
    next
      case c: (Inr c)
      have "start_child tm env (set_stop x a) = start_child tm env a"
        using n s Inr c by (simp add: start_child_def set_stop_def)
      then show ?thesis by simp
    qed
  qed
qed

lemma pt_cmd_start_alike:
  assumes "alike a b"
  shows "snd (pt_cmd_start tm env r b) = snd (pt_cmd_start tm env r a) \<and> alike (fst (pt_cmd_start tm env r a)) (fst (pt_cmd_start tm env r b))"
proof (cases "pt_child a")
  case None
  obtain x where b: "b = set_stop x a" using assms by (auto simp: alike_def)
  have cfg: "(set_stop x a)\<lparr>pt_config := config\<rparr> = set_stop x (a\<lparr>pt_config := config\<rparr>)" for config
    by (simp add: set_stop_def)
  show ?thesis
  proof (cases r)
    case r: (Some r')
    show ?thesis
    proof (cases "en_read env (case run_path r' of None \<Rightarrow> [] | Some p \<Rightarrow> p) (run_spec r')")
      case (Inl err)
      then show ?thesis
        using None b r by (simp add: pt_cmd_start_def show_message_stop) (rule alikeI, simp, simp)
    next
      case (Inr config)
      then show ?thesis
        using None b r start_child_alike [of "a\<lparr>pt_config := config\<rparr>" tm env x, folded cfg]
        by (simp add: pt_cmd_start_def)
    qed
  qed (use None b start_child_alike [OF None] in \<open>simp add: pt_cmd_start_def\<close>)
next
  case (Some c)
  then show ?thesis using assms by (auto simp: pt_cmd_start_def alike_def)
qed

lemma apply_effects_stop [simp]: "apply_effects tm (set_stop x st) fxs = apply_effects tm st fxs"
  by (simp add: apply_effects_def)

text \<open>What leaves the child, the config and what the check has seen alone keeps two states alike.\<close>

lemma log_ready_stop:
  "log_ready tm ready also (inst\<lparr>in_stop_sent := x\<rparr>, scr) =
     (case log_ready tm ready also (inst, scr) of ((inst', scr'), found) \<Rightarrow> ((inst'\<lparr>in_stop_sent := x\<rparr>, scr'), found))"
  by (auto simp: log_ready_def Let_def split: option.splits ready_check.splits prod.splits)

lemma on_output_alike:
  assumes "alike a b"
  shows "snd (on_output tm t b) = snd (on_output tm t a) \<and> alike (fst (on_output tm t a)) (fst (on_output tm t b))"
proof -
  obtain x where b: "b = set_stop x a" and x: "x = pt_stop_sent a \<or> pt_child a = None \<or> \<not> stop_matters (pt_config a) (pt_instance a)"
    using assms by (auto simp: alike_def)
  obtain scr fxs where o: "tm_output tm t (pt_screen a) = (scr, fxs)" by fastforce
  obtain inst scr1 ready where l: "log_ready tm (pr_ready (pt_config a)) None (pt_instance a, scr) = ((inst, scr1), ready)"
    by (metis surj_pair)
  have st: "on_output tm t b = (set_stop x (fst (on_output tm t a)), snd (on_output tm t a))"
    using o l by (simp add: on_output_def Let_def b log_ready_stop apply_effects_def set_stop_def)
  have "alike (a\<lparr>pt_instance := inst, pt_screen := scr1\<rparr>) (set_stop x (a\<lparr>pt_instance := inst, pt_screen := scr1\<rparr>))"
    by (rule alikeI [OF refl]) (use x log_ready_cases(1) [OF l] in \<open>auto simp: stop_matters_def\<close>)
  then show ?thesis
    unfolding st using o l by (simp add: on_output_def Let_def)
qed

lemma set_exited_stop: "set_exited i (inst\<lparr>in_stop_sent := x\<rparr>) = (set_exited i inst)\<lparr>in_stop_sent := x\<rparr>"
  by (simp add: set_exited_def)

lemma alike_update:
  assumes "alike a b"
    and "\<And>x. f (set_stop x a) = set_stop x (f a)" and "pt_stop_sent (f a) = pt_stop_sent a"
    and "pt_child (f a) = pt_child a" and "stop_matters (pt_config (f a)) (pt_instance (f a)) \<Longrightarrow> stop_matters (pt_config a) (pt_instance a)"
  shows "alike (f a) (f b)"
  using assms by (auto simp: alike_def)

lemma pt_cmd_freeze_alike:
  assumes "alike a b"
  shows "snd (pt_cmd_freeze env n b) = snd (pt_cmd_freeze env n a) \<and> alike (fst (pt_cmd_freeze env n a)) (fst (pt_cmd_freeze env n b))"
proof -
  have "alike (fst (pt_cmd_freeze env n a)) (fst (pt_cmd_freeze env n b))"
    by (rule alike_update [OF assms])
      (auto simp: pt_cmd_freeze_def Let_def set_stop_def set_exited_def stop_matters_def split: option.splits)
  then show ?thesis
    using snapshot_alike [of "fst (pt_cmd_freeze env n a)" "fst (pt_cmd_freeze env n b)"] by (simp add: pt_cmd_freeze_def Let_def)
qed

lemma pt_cmd_thaw_alike:
  assumes "alike a b"
  shows "alike (pt_cmd_thaw a) (pt_cmd_thaw b)"
proof -
  obtain x where b: "b = set_stop x a" and x: "x = pt_stop_sent a \<or> pt_child a = None \<or> \<not> stop_matters (pt_config a) (pt_instance a)"
    using assms by (auto simp: alike_def)
  have "pt_child a \<noteq> None \<Longrightarrow>
      start_probe (pt_config a) ((pt_instance a)\<lparr>in_stop_sent := x\<rparr>) n = start_probe (pt_config a) (pt_instance a) n" for n
    using x start_probe_unmattered by (cases "x = pt_stop_sent a") auto
  then have "pt_cmd_thaw b = set_stop x (pt_cmd_thaw a)"
    by (simp add: b pt_cmd_thaw_def Let_def set_stop_def)
  moreover have "x = pt_stop_sent (pt_cmd_thaw a) \<or> pt_child (pt_cmd_thaw a) = None \<or>
      \<not> stop_matters (pt_config (pt_cmd_thaw a)) (pt_instance (pt_cmd_thaw a))"
    using x by (auto simp: pt_cmd_thaw_def Let_def)
  ultimately show ?thesis by (rule alikeI)
qed

lemma pt_cmd_msg_alike:
  assumes "alike a b"
  shows "snd (pt_cmd_msg tm m b) = snd (pt_cmd_msg tm m a) \<and> alike (fst (pt_cmd_msg tm m a)) (fst (pt_cmd_msg tm m b))"
proof -
  obtain x where b: "b = set_stop x a" using assms by (auto simp: alike_def)
  have "alike (a\<lparr>pt_screen := scr\<rparr>) (b\<lparr>pt_screen := scr\<rparr>)" for scr
    by (rule alike_update [OF assms]) (simp_all add: set_stop_def)
  then show ?thesis
    using assms by (simp add: pt_cmd_msg_def Let_def b apply_effects_def split: option.splits prod.splits)
qed

lemma pt_cmd_stop_alike:
  assumes "alike a b"
  shows "snd (pt_cmd_stop tm b) = snd (pt_cmd_stop tm a) \<and> fst (pt_cmd_stop tm b) = fst (pt_cmd_stop tm a)"
    "snd (pt_cmd_kill b) = snd (pt_cmd_kill a) \<and> fst (pt_cmd_kill b) = fst (pt_cmd_kill a)"
  using assms by (cases "pt_child a"; auto simp: alike_def pt_cmd_stop_def pt_cmd_kill_def set_stop_def)+

lemma pt_command_alike:
  assumes "alike a b"
  shows "snd (pt_command tm env cmd b) = snd (pt_command tm env cmd a) \<and>
    alike (fst (pt_command tm env cmd a)) (fst (pt_command tm env cmd b))"
  using pt_cmd_start_alike [OF assms] pt_cmd_freeze_alike [OF assms] pt_cmd_thaw_alike [OF assms] pt_cmd_msg_alike [OF assms]
    pt_cmd_stop_alike [OF assms]
  by (cases cmd) simp_all

lemma on_eof_alike: "alike a b \<Longrightarrow> alike (on_eof tm a) (on_eof tm b)"
  by (erule alike_update) (auto simp: on_eof_def set_stop_def stop_matters_def)

lemma on_event_alike:
  assumes "alike a b"
  shows "snd (on_event tm env ev b) = snd (on_event tm env ev a) \<and> alike (fst (on_event tm env ev a)) (fst (on_event tm env ev b))"
proof (cases ev)
  case (EvCmd cmd)
  then show ?thesis using pt_command_alike [OF assms] by simp
next
  case (EvRead r)
  then show ?thesis using on_eof_alike [OF assms] on_output_alike [OF assms] by (cases r) simp_all
next
  case (EvExited r)
  have "alike (fst (on_event tm env ev a)) (fst (on_event tm env ev b))"
    by (rule alike_update [OF assms])
      (cases r; auto simp: EvExited set_stop_def set_exited_def stop_matters_def)+
  then show ?thesis using EvExited by (cases r) simp_all
next
  case EvReady
  have "alike (fst (on_event tm env ev a)) (fst (on_event tm env ev b))"
    by (rule alike_update [OF assms]) (simp_all add: EvReady set_stop_def stop_matters_def)
  then show ?thesis using EvReady by simp
next
  case EvDragScroll
  have "alike (fst (on_event tm env ev a)) (fst (on_event tm env ev b))"
    by (rule alike_update [OF assms]) (simp_all add: EvDragScroll set_stop_def stop_matters_def)
  then show ?thesis using EvDragScroll by simp
next
  case EvSyncTimeout
  have "alike (fst (on_event tm env ev a)) (fst (on_event tm env ev b))"
    by (rule alike_update [OF assms]) (simp_all add: EvSyncTimeout set_stop_def stop_matters_def)
  then show ?thesis using EvSyncTimeout by simp
qed

lemma loop_head_alike:
  assumes "alike a b"
  shows "snd (loop_head b) = snd (loop_head a) \<and> alike (fst (loop_head a)) (fst (loop_head b))"
proof -
  obtain x where "b = set_stop x a" using assms by (auto simp: alike_def)
  then have "alike (a\<lparr>pt_child := None\<rparr>) (b\<lparr>pt_child := None\<rparr>)"
    by (intro alikeI [of _ x]) (simp_all add: set_stop_def)
  moreover have "pt_exit b = pt_exit a" "pt_eof b = pt_eof a" "pt_child b = pt_child a"
    using assms by (auto simp: alike_def)
  ultimately show ?thesis
    using assms by (cases "pt_exit a"; cases "pt_eof a"; cases "pt_child a") (simp_all add: loop_head_def)
qed

lemma turn_alike:
  assumes "alike a b"
  shows "can_wake b ev = can_wake a ev"
    "snd (pt_turn tm env ev b) = snd (pt_turn tm env ev a)"
    "alike (fst (pt_turn tm env ev a)) (fst (pt_turn tm env ev b))"
proof -
  show "can_wake b ev = can_wake a ev"
    using assms by (cases ev) (auto simp: alike_def)
  show "snd (pt_turn tm env ev b) = snd (pt_turn tm env ev a)"
    "alike (fst (pt_turn tm env ev a)) (fst (pt_turn tm env ev b))"
    using on_event_alike [OF assms, of tm env ev] loop_head_alike [of "fst (on_event tm env ev a)" "fst (on_event tm env ev b)"]
    by (simp_all add: pt_turn_def case_prod_beta)
qed

text \<open>Turns one after the other; \<open>None\<close> when the loop cannot wake up with the next event.\<close>

fun pt_turns ::
  "('s, 'k) terminal \<Rightarrow> ('k env \<times> event) list \<Rightarrow> ('s, 'k) ptask \<Rightarrow> (('s, 'k) ptask \<times> ('s, 'k) action list) option" where
  "pt_turns tm [] st = Some (st, [])"
| "pt_turns tm ((env, ev) # evs) st =
     (if can_wake st ev
      then (let (st1, acts) = pt_turn tm env ev st
            in map_option (\<lambda>(st2, acts'). (st2, acts @ acts')) (pt_turns tm evs st1))
      else None)"

lemma turns_alike:
  "alike a b \<Longrightarrow> map_option snd (pt_turns tm evs b) = map_option snd (pt_turns tm evs a)"
proof (induction evs arbitrary: a b)
  case (Cons e evs)
  obtain env ev where e: "e = (env, ev)" by fastforce
  note t = turn_alike [OF Cons.prems]
  have "map_option snd (pt_turns tm evs (fst (pt_turn tm env ev b))) =
      map_option snd (pt_turns tm evs (fst (pt_turn tm env ev a)))"
    by (rule Cons.IH) (rule t(3))
  then show ?case
    using t(1) t(2)
    by (cases "pt_turns tm evs (fst (pt_turn tm env ev b))"; cases "pt_turns tm evs (fst (pt_turn tm env ev a))")
      (auto simp: e case_prod_beta Let_def)
qed simp

section \<open>The properties\<close>

text \<open>
  C21. Whatever the kernel commands and whatever the program, the reaper, the ready check and the
  terminal do, a task reports in the order the kernel expects: started only when it is down, ready at
  most once a run and only while it is up, stopped at the end of a run; and its reports tell what it is.
\<close>

theorem reports_in_order:
  assumes "task_reached tm st acts"
  shows "after_reports Down acts = Some (phase_of st)"
  using task_runs.always [OF assms] by (simp add: reports_ok_def)

text \<open>
  C23. A ready check that polls, or waits on the socket, runs only for a child that is up, has not
  been reported ready, was not told to stop or killed, and has not exited.
\<close>

theorem check_runs_only_while_starting:
  assumes "task_reached tm st acts" and "pt_probe st \<noteq> None"
  shows "pt_child st \<noteq> None \<and> \<not> pt_ready_sent st \<and> \<not> pt_stop_sent st \<and> pt_exit st = None"
  using reached_ok [OF assms(1)] assms(2) by (simp add: pt_ok_def check_ok_def)

lemma told_stopped:
  "TellStopped i \<in> set (snd (loop_head st)) \<longleftrightarrow> pt_exit st = Some i \<and> pt_eof st \<and> pt_child st \<noteq> None"
  by (auto simp: loop_head_def split: option.splits)

lemma up_event_quiet:
  assumes "pt_child st \<noteq> None"
  shows "TellStopped i \<notin> set (snd (on_event tm env ev st)) \<and> pt_child (fst (on_event tm env ev st)) = pt_child st"
proof -
  show ?thesis
  proof (cases ev)
    case (EvCmd cmd)
    then show ?thesis
      using assms
      by (cases cmd)
        (auto dest!: effect_io stop_io
          simp: pt_cmd_start_def pt_cmd_stop_def pt_cmd_kill_def pt_cmd_freeze_def pt_cmd_thaw_def pt_cmd_msg_def Let_def
          split: option.splits prod.splits)
  next
    case (EvRead r)
    then show ?thesis
      by (cases r) (auto dest!: effect_io simp: on_eof_def on_output_def Let_def split: prod.splits)
  next
    case (EvExited r)
    then show ?thesis by (cases r) simp_all
  qed simp_all
qed


text \<open>The same state with another screen and log, which the snapshot of the terminal brings along.\<close>

definition on_screen :: "'s \<Rightarrow> (string \<times> nat) option \<Rightarrow> ('s, 'k) ptask \<Rightarrow> ('s, 'k) ptask" where
  "on_screen scr l st = st\<lparr>pt_screen := scr, pt_instance := (pt_instance st)\<lparr>in_log := l\<rparr>\<rparr>"

lemma loop_head_on_screen:
  "loop_head (on_screen scr l st) = (on_screen scr l (fst (loop_head st)), snd (loop_head st))"
  by (auto simp: loop_head_def on_screen_def split: option.splits)

lemma log_ready_sent:
  assumes "watches_lines config \<Longrightarrow> in_ready_sent inst"
  shows "\<exists>scr'. log_ready tm (pr_ready config) also (inst, scr) = ((inst, scr'), False)"
  using assms
  by (auto simp: log_ready_def watches_lines_def split: option.splits ready_check.splits)

lemma child_eta: "\<lparr>ch_pid = ch_pid c, ch_fd = ch_fd c\<rparr> = c"
  by (cases c) simp

lemma resume_alike:
  assumes c: "pt_child fz = Some c" and ex: "pt_exits fz = (pt_exit fz = None)"
    and w: "watches_lines (pt_config fz) \<Longrightarrow> pt_ready_sent fz" and s: "state = Running \<or> pt_ready_sent fz"
    and r: "pt_resume tm True (pt_config fz) scr (pt_notify fz) (resumed_instance state (pt_snapshot fz)) = (res, acts)"
  shows "\<exists>st. (res, acts) = loop_head st \<and> (\<forall>scr l. alike (on_screen scr l (pt_cmd_thaw fz)) (on_screen scr l st))"
proof -
  define x where "x = (pt_stop_sent fz \<and> stop_matters (pt_config fz) (pt_instance fz))"
  define inst where "inst = (pt_instance fz)\<lparr>in_stop_sent := x, in_log := None\<rparr>"
  obtain scr1 where l: "log_ready tm (pr_ready (pt_config fz)) (Some []) (inst, tm_line_tap tm (watches_lines (pt_config fz)) scr) =
      ((inst, scr1), False)"
    using log_ready_sent [of "pt_config fz" inst tm "Some []" "tm_line_tap tm (watches_lines (pt_config fz)) scr"] w
    by (fastforce simp: inst_def)
  have i: "resumed_instance state (pt_snapshot fz) = Some \<lparr>si_pid = ch_pid c, si_fd = ch_fd c, si_exit = pt_exit fz,
      si_eof = pt_eof fz, si_ready_sent = pt_ready_sent fz, si_stop_sent = x, si_ready_line = [],
      si_log_path = map_option fst (in_log (pt_instance fz))\<rparr>"
    using c s by (auto simp: resumed_instance_def pt_snapshot_def saved_instance_of_def x_def Let_def)
  have built: "\<lparr>in_exits = (pt_exit fz = None), in_exit = pt_exit fz, in_eof = pt_eof fz,
      in_ready_sent = pt_ready_sent fz, in_stop_sent = x, in_log = None\<rparr> = inst"
    using ex by (simp add: inst_def)
  obtain current scr2 where logged:
    "(case map_option fst (in_log (pt_instance fz)) of None \<Rightarrow> (None, scr1)
      | Some path \<Rightarrow> (let (scr2, n) = tm_add_logger tm \<lparr>lk_path = path, lk_append = True\<rparr> scr1 in (Some (path, n), scr2))) =
      (current, scr2)" by fastforce
  define st where "st = (pt_fresh tm (pt_config fz) scr)\<lparr>pt_notify := pt_notify fz, pt_child := Some c,
    pt_instance := inst\<lparr>in_log := current\<rparr>, pt_probe := start_probe (pt_config fz) inst (pt_notify fz), pt_screen := scr2\<rparr>"
  have "pt_resume tm True (pt_config fz) scr (pt_notify fz) (resumed_instance state (pt_snapshot fz)) = loop_head st"
    unfolding pt_resume_def i Let_def option.case using logged
    by (cases "in_log (pt_instance fz)")
      (auto simp: built l st_def pt_fresh_def case_prod_beta child_eta)
  then have head: "(res, acts) = loop_head st" using r by simp
  have "start_probe (pt_config fz) inst n = start_probe (pt_config fz) (pt_instance fz) n" for n
    by (auto simp: inst_def x_def start_probe_def stop_matters_def saved_ready_probe_def has_sd_notify_check_def
        split: option.splits ready_check.splits)
  then have "on_screen s l st = set_stop x (on_screen s l (pt_cmd_thaw fz))" for s l
    using c by (simp add: st_def on_screen_def set_stop_def pt_cmd_thaw_def Let_def inst_def pt_fresh_def)
  then have "alike (on_screen s l (pt_cmd_thaw fz)) (on_screen s l st)" for s l
    by (rule alikeI) (auto simp: x_def on_screen_def pt_cmd_thaw_def Let_def stop_matters_def)
  with head show ?thesis by blast
qed

lemma freeze_fields:
  assumes "pt_cmd_freeze env n st = (fz, [TellFrozen n saved])"
  shows "saved = pt_snapshot fz" "pt_child fz = pt_child st" "pt_config fz = pt_config st"
    "exits_ok st \<Longrightarrow> pt_exits st \<or> pt_exit st \<noteq> None \<Longrightarrow> pt_exits fz = (pt_exit fz = None)"
  using assms
  by (auto simp: pt_cmd_freeze_def Let_def set_exited_def exits_ok_def split: option.splits if_splits)


section \<open>A run\<close>

text \<open>A task with a terminal of one line, and a program that is ready at once, exits and closes its output.\<close>

definition pt_demo_terminal :: "(string, nat) terminal" where
  "pt_demo_terminal = \<lparr>tm_output = (\<lambda>t s. (s @ t, [])), tm_command = (\<lambda>_ _. None), tm_drag_scroll = id,
     tm_sync_timeout = id, tm_line_tap = (\<lambda>_. id), tm_finished = (\<lambda>s. (s, [])), tm_cursor_line = id,
     tm_reset = (\<lambda>_ _ _. []), tm_winsize = (\<lambda>_. \<lparr>ws_y = 24, ws_x = 80, ws_x_px = 0, ws_y_px = 0\<rparr>),
     tm_add_logger = (\<lambda>_ s. (s, 0)), tm_remove_logger = (\<lambda>_. id), tm_key = (\<lambda>_ _. ''k''), tm_paste = (\<lambda>_. id)\<rparr>"

definition pt_demo_config :: "nat process_run" where
  "pt_demo_config = \<lparr>pr_spec = \<lparr>ps_prog = ''serve'', ps_args = [], ps_cwd = None, ps_env = []\<rparr>,
     pr_stop = default_stop, pr_log = None,
     pr_ready = Some \<lparr>rc_check = CheckProbe (ProbeTcp None 80) 1000000000, rc_timeout = None\<rparr>,
     pr_scrollback = 1000, pr_mouse = 5\<rparr>"

definition pt_demo_env :: "nat env" where
  "pt_demo_env = \<lparr>en_read = (\<lambda>_ _. Inl ''no''), en_bind = Inl ''no'', en_spawn = (\<lambda>_ _. Inr \<lparr>ch_pid = 7, ch_fd = 9\<rparr>),
     en_queued = None, en_log_path = (\<lambda>_ _. None)\<rparr>"

definition pt_demo_begin :: "(string, nat) ptask" where
  "pt_demo_begin = pt_fresh pt_demo_terminal pt_demo_config []"

definition pt_demo_started :: "(string, nat) ptask" where
  "pt_demo_started = fst (pt_turn pt_demo_terminal pt_demo_env (EvCmd (CmdStart None)) pt_demo_begin)"

lemmas pt_demo_defs = pt_demo_begin_def pt_demo_terminal_def pt_demo_config_def pt_demo_env_def pt_fresh_def instance_default_def
  pt_turn_def pt_cmd_start_def start_child_def sd_notify_spec_def has_sd_notify_check_def start_instance_def
  start_probe_def update_log_observer_def loop_head_def Let_def watches_lines_def

lemma pt_demo_started_eq:
  "pt_turn pt_demo_terminal pt_demo_env (EvCmd (CmdStart None)) pt_demo_begin = (pt_demo_started, [TellStarted])"
  "pt_demo_started = pt_demo_begin\<lparr>pt_child := Some \<lparr>ch_pid = 7, ch_fd = 9\<rparr>, pt_instance := instance_default\<lparr>in_exits := True\<rparr>,
     pt_probe := Some (WaitProbe (ProbeTcp None 80) 1000000000 (pr_spec pt_demo_config))\<rparr>"
  by (simp_all add: pt_demo_started_def pt_demo_defs)

lemma pt_demo_reached: "task_reached pt_demo_terminal pt_demo_started [TellStarted]"
proof -
  have "task_reached pt_demo_terminal pt_demo_begin []"
    by (rule reachable.start) (simp add: pt_demo_begin_def task_begins.intros)
  moreover have "task_turn pt_demo_terminal (pt_demo_begin, []) (pt_demo_started, [] @ [TellStarted])"
    by (rule task_turn.intros [OF _ pt_demo_started_eq(1)]) simp
  ultimately show ?thesis using reachable.step by fastforce
qed

lemma reports_in_order_witness: "after_reports Down [TellStarted :: (string, nat) action] = Some (phase_of pt_demo_started)"
  by (rule reports_in_order [OF pt_demo_reached])

lemma check_runs_only_while_starting_witness:
  "pt_child pt_demo_started \<noteq> None \<and> \<not> pt_ready_sent pt_demo_started \<and> \<not> pt_stop_sent pt_demo_started \<and> pt_exit pt_demo_started = None"
  by (rule check_runs_only_while_starting [OF pt_demo_reached]) (simp add: pt_demo_started_eq(2))



end
