(* ===== verification/Vt_Params.thy ===== *)
theory Vt_Params
  imports Prelude Wire_Frames
begin

text \<open>
  The parameters of a control sequence as they are scanned (\<open>src/src/term/vt/params.rs\<close>): prefix,
  intermediate and final byte, up to 32 numbers that saturate at a \<open>u32\<close>, and which of them were
  given or follow a colon, as bits. The array of values is a list of that length.
\<close>

section \<open>The parameters\<close>

definition max_params :: nat where
  "max_params = 32"

definition u32_max :: nat where
  "u32_max = 2 ^ 32 - 1"

record params =
  p_prefix :: byte
  p_inter :: byte
  p_final :: byte
  p_values :: "nat list"
  p_given :: "32 word"
  p_subs :: "32 word"
  p_len :: nat
  p_invalid :: bool

definition params_default :: params where
  "params_default =
     \<lparr>p_prefix = 0, p_inter = 0, p_final = 0, p_values = replicate 32 0, p_given = 0, p_subs = 0, p_len = 0,
      p_invalid = False\<rparr>"

text \<open>\<open>saturating_mul(10).saturating_add(digit)\<close>.\<close>

definition push_value :: "nat \<Rightarrow> nat \<Rightarrow> nat" where
  "push_value v d = min (min (v * 10) u32_max + d) u32_max"

definition push_digit :: "nat \<Rightarrow> params \<Rightarrow> params" where
  "push_digit d p =
     (let len = (if p_len p = 0 then 1 else p_len p); i = len - 1
      in p\<lparr>p_len := len, p_values := (p_values p)[i := push_value (p_values p ! i) d],
           p_given := set_bit i (p_given p)\<rparr>)"

definition next_param :: "bool \<Rightarrow> params \<Rightarrow> params" where
  "next_param sub p =
     (let len = (if p_len p = 0 then 1 else p_len p)
      in if len < max_params
         then p\<lparr>p_len := len + 1, p_subs := (if sub then set_bit len (p_subs p) else p_subs p)\<rparr>
         else p\<lparr>p_len := len, p_invalid := True\<rparr>)"

definition set_prefix :: "byte \<Rightarrow> params \<Rightarrow> params" where
  "set_prefix b p = (if p_len p = 0 \<and> p_prefix p = 0 then p\<lparr>p_prefix := b\<rparr> else p\<lparr>p_invalid := True\<rparr>)"

definition set_inter :: "byte \<Rightarrow> params \<Rightarrow> params" where
  "set_inter b p = (if p_inter p = 0 then p\<lparr>p_inter := b\<rparr> else p\<lparr>p_inter := 0xFF\<rparr>)"

definition is_bare :: "params \<Rightarrow> bool" where
  "is_bare p = (p_len p = 0 \<and> p_prefix p = 0 \<and> p_inter p = 0 \<and> \<not> p_invalid p)"

definition get_opt :: "nat \<Rightarrow> params \<Rightarrow> nat option" where
  "get_opt i p = (if i < p_len p \<and> bit (p_given p) i then Some (p_values p ! i) else None)"

definition get_param :: "nat \<Rightarrow> nat \<Rightarrow> params \<Rightarrow> nat" where
  "get_param i d p = (case get_opt i p of None \<Rightarrow> d | Some v \<Rightarrow> v)"

definition is_sub :: "nat \<Rightarrow> params \<Rightarrow> bool" where
  "is_sub i p = (i < p_len p \<and> bit (p_subs p) i)"

section \<open>Writing them back\<close>

definition byte_of :: "char \<Rightarrow> byte" where
  "byte_of c = of_nat (of_char c)"

definition decimal :: "nat \<Rightarrow> byte list" where
  "decimal n = map byte_of (show_nat n)"

definition written_param :: "params \<Rightarrow> nat \<Rightarrow> byte list" where
  "written_param p i =
     (if i = 0 then [] else [if bit (p_subs p) i then 0x3A else 0x3B]) @
     (if bit (p_given p) i then decimal (p_values p ! i) else [])"

definition written_inter :: "byte \<Rightarrow> byte list" where
  "written_inter b = (if b = 0 then [] else if b = 0xFF then [0x20, 0x20] else [b])"

definition write_unfinished :: "params \<Rightarrow> byte list" where
  "write_unfinished p =
     (if p_prefix p = 0 then [] else [p_prefix p]) @
     concat (map (written_param p) [0..<p_len p]) @
     (if p_invalid p then [0x3F] else []) @ written_inter (p_inter p)"

section \<open>What scanning a byte does to them\<close>

text \<open>The bytes a control sequence takes as parameters, with what they do.\<close>

definition digit_byte :: "byte \<Rightarrow> bool" where
  "digit_byte b = (0x30 \<le> b \<and> b \<le> 0x39)"

definition prefix_byte :: "byte \<Rightarrow> bool" where
  "prefix_byte b = (b = 0x3C \<or> b = 0x3D \<or> b = 0x3E \<or> b = 0x3F)"

definition inter_byte :: "byte \<Rightarrow> bool" where
  "inter_byte b = (0x20 \<le> b \<and> b \<le> 0x2F)"

definition param_byte :: "byte \<Rightarrow> params \<Rightarrow> params option" where
  "param_byte b p =
     (if digit_byte b then Some (push_digit (unat (b - 0x30)) p)
      else if b = 0x3B then Some (next_param False p)
      else if b = 0x3A then Some (next_param True p)
      else if prefix_byte b then Some (set_prefix b p)
      else if inter_byte b then Some (set_inter b p)
      else None)"

fun param_bytes :: "byte list \<Rightarrow> params \<Rightarrow> params option" where
  "param_bytes [] p = Some p"
| "param_bytes (b # bs) p = Option.bind (param_byte b p) (param_bytes bs)"

lemma param_bytes_append: "param_bytes (as @ bs) p = Option.bind (param_bytes as p) (param_bytes bs)"
  by (induction as arbitrary: p) (simp_all split: Option.bind_split)

section \<open>What the parameters always obey\<close>

definition values_ok :: "nat list \<Rightarrow> 32 word \<Rightarrow> bool" where
  "values_ok vs given = (length vs = 32 \<and> (\<forall>i<32. vs ! i \<le> u32_max) \<and> (\<forall>i<32. \<not> bit given i \<longrightarrow> vs ! i = 0))"

definition bits_below :: "nat \<Rightarrow> nat \<Rightarrow> 32 word \<Rightarrow> bool" where
  "bits_below m n w = (\<forall>i. bit w i \<longrightarrow> m \<le> i \<and> i < n)"

definition params_ok :: "params \<Rightarrow> bool" where
  "params_ok p =
     (values_ok (p_values p) (p_given p) \<and> p_len p \<le> max_params \<and>
      bits_below 0 (p_len p) (p_given p) \<and> bits_below 1 (p_len p) (p_subs p) \<and>
      (p_len p = 1 \<longrightarrow> bit (p_given p) 0) \<and>
      (p_prefix p = 0 \<or> prefix_byte (p_prefix p)) \<and>
      (p_inter p = 0 \<or> p_inter p = 0xFF \<or> inter_byte (p_inter p)) \<and>
      (p_invalid p \<longrightarrow> 0 < p_len p \<or> p_prefix p \<noteq> 0) \<and> p_final p = 0)"

lemma bit_set_word [simp]:
  fixes w :: "32 word"
  shows "bit (set_bit n w) i \<longleftrightarrow> bit w i \<or> (i = n \<and> n < 32)"
  by (auto simp: bit_set_bit_iff)

lemma bits_below_0 [simp]: "bits_below m n 0"
  by (simp add: bits_below_def)

lemma bits_below_set: "bits_below m n w \<Longrightarrow> n \<le> n' \<Longrightarrow> m \<le> i \<Longrightarrow> i < n' \<Longrightarrow> bits_below m n' (set_bit i w)"
  by (fastforce simp: bits_below_def)

lemma bits_below_mono: "bits_below m n w \<Longrightarrow> n \<le> n' \<Longrightarrow> bits_below m n' w"
  by (fastforce simp: bits_below_def)

lemma bits_belowD: "bits_below m n w \<Longrightarrow> bit w i \<Longrightarrow> m \<le> i \<and> i < n"
  by (simp add: bits_below_def)

lemma push_value_le: "push_value v d \<le> u32_max"
  by (simp add: push_value_def)

lemma values_ok_push: "values_ok vs given \<Longrightarrow> values_ok (vs[i := push_value (vs ! i) d]) (set_bit i given)"
  using push_value_le by (cases "i < length vs") (auto simp: values_ok_def nth_list_update)

lemma params_ok_default: "params_ok params_default"
  by (simp add: params_ok_def params_default_def values_ok_def)

lemma params_ok_push_digit:
  assumes "params_ok p"
  shows "params_ok (push_digit d p)"
proof -
  define len where "len = (if p_len p = 0 then 1 else p_len p)"
  have "p_len p \<le> 32" using assms by (simp add: params_ok_def max_params_def)
  then have len: "0 < len" "len \<le> 32" "p_len p \<le> len" "len = 1 \<longrightarrow> len - 1 = 0"
    by (auto simp: len_def)
  have d: "push_digit d p = p\<lparr>p_len := len, p_values := (p_values p)[len - 1 := push_value (p_values p ! (len - 1)) d],
           p_given := set_bit (len - 1) (p_given p)\<rparr>"
    by (simp add: push_digit_def Let_def len_def)
  have "bits_below 0 len (set_bit (len - 1) (p_given p))" "bits_below 1 len (p_subs p)"
    using assms len bits_below_set [of 0 "p_len p" "p_given p" len "len - 1"] bits_below_mono [of 1 "p_len p" "p_subs p" len]
    by (simp_all add: params_ok_def)
  moreover have "values_ok ((p_values p)[len - 1 := push_value (p_values p ! (len - 1)) d]) (set_bit (len - 1) (p_given p))"
    using assms values_ok_push by (simp add: params_ok_def)
  ultimately show ?thesis
    using assms len unfolding d by (simp add: params_ok_def max_params_def)
qed

lemma params_ok_next_param:
  assumes "params_ok p"
  shows "params_ok (next_param sub p)"
proof -
  define len where "len = (if p_len p = 0 then 1 else p_len p)"
  have len: "0 < len" "p_len p \<le> len" "p_len p \<le> 32" using assms by (auto simp: len_def params_ok_def max_params_def)
  have "bits_below 0 (Suc len) (p_given p)" "bits_below 1 (Suc len) (p_subs p)" "bits_below 1 (Suc len) (set_bit len (p_subs p))"
    "bits_below 0 len (p_given p)" "bits_below 1 len (p_subs p)"
    using assms len bits_below_mono [of _ "p_len p"] bits_below_set [of 1 "p_len p" "p_subs p" "Suc len" len]
    by (simp_all add: params_ok_def)
  moreover have "next_param sub p = (if len < 32 then p\<lparr>p_len := Suc len, p_subs := (if sub then set_bit len (p_subs p) else p_subs p)\<rparr>
      else p\<lparr>p_len := len, p_invalid := True\<rparr>)"
    by (simp add: next_param_def Let_def len_def max_params_def)
  moreover have "\<not> len < 32 \<Longrightarrow> len = 32" using len by (auto simp: len_def split: if_splits)
  ultimately show ?thesis
    using assms len by (simp add: params_ok_def max_params_def)
qed

lemma params_ok_set_prefix: "params_ok p \<Longrightarrow> prefix_byte b \<Longrightarrow> params_ok (set_prefix b p)"
  by (auto simp: params_ok_def set_prefix_def)

lemma params_ok_set_inter: "params_ok p \<Longrightarrow> inter_byte b \<Longrightarrow> params_ok (set_inter b p)"
  by (auto simp: params_ok_def set_inter_def)

lemma params_ok_byte: "params_ok p \<Longrightarrow> param_byte b p = Some q \<Longrightarrow> params_ok q"
  using params_ok_push_digit params_ok_next_param params_ok_set_prefix params_ok_set_inter
  by (auto simp: param_byte_def split: if_splits)

section \<open>Scanning what was written\<close>

lemma decimal_digits: "b \<in> set (decimal n) \<Longrightarrow> digit_byte b"
proof -
  assume "b \<in> set (decimal n)"
  then obtain c where c: "b = byte_of c" "c \<in> set (show_nat n)" by (auto simp: decimal_def)
  then have "48 \<le> (of_char c :: nat) \<and> (of_char c :: nat) \<le> 57" using show_nat_digits by blast
  then show ?thesis by (simp add: c(1) digit_byte_def byte_of_def word_le_nat_alt unat_of_nat)
qed

lemma digit_value: "d < 10 \<Longrightarrow> digit_byte (byte_of (digit_char d)) \<and> unat (byte_of (digit_char d) - 0x30) = d"
proof -
  assume "d < 10"
  then have "d \<in> {0, 1, 2, 3, 4, 5, 6, 7, 8, 9}" by auto
  then show ?thesis by (auto simp: byte_of_def digit_char_def digit_byte_def)
qed

text \<open>The number \<open>v\<close> put where the next digit goes.\<close>

definition put_value :: "nat \<Rightarrow> params \<Rightarrow> params" where
  "put_value v p =
     (let len = (if p_len p = 0 then 1 else p_len p)
      in p\<lparr>p_len := len, p_values := (p_values p)[len - 1 := v], p_given := set_bit (len - 1) (p_given p)\<rparr>)"

lemma param_byte_digit: "d < 10 \<Longrightarrow> param_byte (byte_of (digit_char d)) p = Some (push_digit d p)"
  using digit_value by (simp add: param_byte_def)

lemma set_bit_twice [simp]: "set_bit n (set_bit n w) = set_bit n w" for w :: "32 word"
  by (auto intro!: bit_eqI)

lemma push_digit_put:
  assumes "length (p_values p) = 32" "p_len p \<le> 32" "v * 10 + d \<le> u32_max"
  shows "push_digit d (put_value v p) = put_value (v * 10 + d) p"
proof -
  have "(if p_len p = 0 then 1 else p_len p) - 1 < 32" using assms(2) by auto
  then show ?thesis
    using assms by (simp add: push_digit_def put_value_def Let_def push_value_def)
qed

lemma param_bytes_decimal:
  assumes "length (p_values p) = 32" "p_len p \<le> 32" "p_values p ! ((if p_len p = 0 then 1 else p_len p) - 1) = 0"
    and "v \<le> u32_max"
  shows "param_bytes (decimal v) p = Some (put_value v p)"
  using assms(4)
proof (induction v rule: show_nat.induct)
  case (1 n)
  show ?case
  proof (cases "n < 10")
    case True
    have "push_digit n p = put_value n p"
      using assms(3) 1(2) by (simp add: push_digit_def put_value_def Let_def push_value_def)
    then show ?thesis
      using True by (simp add: decimal_def show_nat.simps [of n] param_byte_digit)
  next
    case False
    have "decimal n = decimal (n div 10) @ [byte_of (digit_char (n mod 10))]"
      using False by (simp add: decimal_def show_nat.simps [of n])
    then have "param_bytes (decimal n) p = Some (push_digit (n mod 10) (put_value (n div 10) p))"
      using 1 False by (simp add: param_bytes_append param_byte_digit)
    then show ?thesis
      using push_digit_put [OF assms(1,2), of "n div 10" "n mod 10"] 1(2) by simp
  qed
qed

text \<open>The first \<open>n\<close> of the parameters.\<close>

definition first_params :: "nat \<Rightarrow> params \<Rightarrow> params" where
  "first_params n p =
     p\<lparr>p_inter := 0, p_final := 0, p_invalid := False, p_len := (if n = 1 \<and> \<not> bit (p_given p) 0 then 0 else n),
       p_values := map (\<lambda>i. if i < n then p_values p ! i else 0) [0..<32],
       p_given := take_bit n (p_given p), p_subs := take_bit n (p_subs p)\<rparr>"

lemma take_bit_Suc_set:
  fixes w :: "32 word"
  assumes "n < 32"
  shows "take_bit (Suc n) w = (if bit w n then set_bit n (take_bit n w) else take_bit n w)"
  using assms by (auto intro!: bit_eqI simp: bit_take_bit_iff less_Suc_eq)

lemma first_params_values:
  assumes "n < 32" "values_ok vs given"
  shows "map (\<lambda>i. if i < Suc n then vs ! i else 0) [0..<32] =
    (if bit given n then (map (\<lambda>i. if i < n then vs ! i else 0) [0..<32])[n := vs ! n]
     else map (\<lambda>i. if i < n then vs ! i else 0) [0..<32])"
  using assms by (auto intro!: nth_equalityI simp: nth_list_update values_ok_def less_Suc_eq)

lemma write_step:
  assumes ok: "params_ok p" and n: "n < p_len p"
  shows "param_bytes (written_param p n) (first_params n p) = Some (first_params (Suc n) p)"
proof -
  have n32: "n < 32" and vs: "values_ok (p_values p) (p_given p)"
    using ok n by (simp_all add: params_ok_def max_params_def)
  have v: "p_values p ! n \<le> u32_max" using vs n32 by (simp add: values_ok_def)
  note next_values = first_params_values [OF n32 vs]
  define q where "q = (if n = 0 then first_params 0 p
    else (first_params n p)\<lparr>p_len := Suc n, p_subs := take_bit (Suc n) (p_subs p)\<rparr>)"
  have sep: "param_bytes (written_param p n) (first_params n p) =
      param_bytes (if bit (p_given p) n then decimal (p_values p ! n) else []) q"
  proof (cases "n = 0")
    case False
    have "next_param (bit (p_subs p) n) (first_params n p) = q"
      using False n32 by (auto simp: next_param_def Let_def q_def first_params_def max_params_def take_bit_Suc_set)
    then show ?thesis
      using False by (auto simp: written_param_def param_byte_def digit_byte_def param_bytes_append)
  qed (simp add: written_param_def q_def)
  have zero: "take_bit (Suc 0) (p_subs p) = 0"
    using ok bits_belowD [of 1 "p_len p" "p_subs p" 0] take_bit_Suc_set [of 0 "p_subs p"] by (auto simp: params_ok_def)
  have q: "length (p_values q) = 32" "p_len q \<le> 32" "(if p_len q = 0 then 1 else p_len q) - 1 = n" "p_values q ! n = 0"
    using n32 by (auto simp: q_def first_params_def)
  show ?thesis
  proof (cases "bit (p_given p) n")
    case True
    have "put_value (p_values p ! n) q = first_params (Suc n) p"
      using True n32 q(3) next_values zero take_bit_Suc_set [OF n32, of "p_given p"]
      by (cases "n = 0") (simp_all add: put_value_def Let_def q_def first_params_def)
    then show ?thesis
      using True sep param_bytes_decimal [OF q(1,2) _ v] q(3,4) by simp
  next
    case False
    have "q = first_params (Suc n) p"
      using False n32 next_values zero take_bit_Suc_set [OF n32, of "p_given p"]
      by (cases "n = 0") (simp_all add: q_def first_params_def)
    then show ?thesis using False sep by simp
  qed
qed

lemma write_all:
  assumes "params_ok p" "n \<le> p_len p"
  shows "param_bytes (concat (map (written_param p) [0..<n])) (first_params 0 p) = Some (first_params n p)"
  using assms(2)
proof (induction n)
  case (Suc n)
  then show ?case using write_step [OF assms(1), of n] by (simp add: param_bytes_append)
qed simp

lemma first_params_full:
  assumes "params_ok p"
  shows "first_params (p_len p) p = p\<lparr>p_inter := 0, p_invalid := False\<rparr>"
proof -
  have w: "take_bit (p_len p) w = w" if "bits_below m (p_len p) w" for m and w :: "32 word"
    using that by (auto intro!: bit_eqI simp: bit_take_bit_iff dest: bits_belowD)
  have "p_values p ! i = 0" if "\<not> i < p_len p" "i < 32" for i
    using assms that bits_belowD [of 0 "p_len p" "p_given p" i] by (auto simp: params_ok_def values_ok_def)
  then have "map (\<lambda>i. if i < p_len p then p_values p ! i else 0) [0..<32] = p_values p"
    using assms by (auto intro!: nth_equalityI simp: params_ok_def values_ok_def)
  then show ?thesis
    using assms w [of 0 "p_given p"] w [of 1 "p_subs p"] by (simp add: first_params_def params_ok_def)
qed

text \<open>Scanning what \<open>write_unfinished\<close> wrote gives the same parameters.\<close>

lemma write_unfinished_read:
  assumes ok: "params_ok p"
  shows "param_bytes (write_unfinished p) params_default = Some p"
proof -
  have pre: "param_bytes (if p_prefix p = 0 then [] else [p_prefix p]) params_default = Some (first_params 0 p)"
  proof -
    have "map (\<lambda>i. 0 :: nat) [0..<32] = replicate 32 0" by (simp add: map_replicate_const)
    then have f: "first_params 0 p = params_default\<lparr>p_prefix := p_prefix p\<rparr>"
      by (simp add: first_params_def params_default_def)
    have "p_prefix p \<noteq> 0 \<Longrightarrow> param_byte (p_prefix p) params_default = Some (set_prefix (p_prefix p) params_default)"
      using ok by (auto simp: params_ok_def param_byte_def prefix_byte_def digit_byte_def)
    then show ?thesis by (auto simp: f set_prefix_def params_default_def)
  qed
  have inv: "param_bytes (if p_invalid p then [0x3F] else []) (p\<lparr>p_inter := 0, p_invalid := False\<rparr>) = Some (p\<lparr>p_inter := 0\<rparr>)"
    using ok by (auto simp: params_ok_def param_byte_def prefix_byte_def digit_byte_def set_prefix_def)
  have int: "param_bytes (written_inter (p_inter p)) (p\<lparr>p_inter := 0\<rparr>) = Some p"
  proof -
    have "inter_byte b \<Longrightarrow> param_byte b r = Some (set_inter b r)" for b r
      by (auto simp: param_byte_def inter_byte_def digit_byte_def prefix_byte_def word_le_nat_alt)
    moreover have "inter_byte 0x20" by (simp add: inter_byte_def)
    ultimately show ?thesis
      using ok by (auto simp: params_ok_def written_inter_def set_inter_def)
  qed
  show ?thesis
    using pre inv int write_all [OF ok le_refl] first_params_full [OF ok]
    by (simp add: write_unfinished_def param_bytes_append)
qed

end
