(* ===== verification/Vt_Scan.thy ===== *)
theory Vt_Scan
  imports Vt_Params
begin

text \<open>
  The scanner of terminal byte streams (\<open>src/src/term/vt/scan.rs\<close>): text, control bytes and escape
  sequences out of bytes that come in chunks. A step of its loop is a function of the state and of what
  is left of the chunk; it gives the state, what is left then, and the items it hands on.
\<close>

section \<open>UTF-8\<close>

definition cont_byte :: "byte \<Rightarrow> bool" where
  "cont_byte b = (0x80 \<le> b \<and> b \<le> 0xBF)"

definition print_byte :: "byte \<Rightarrow> bool" where
  "print_byte b = (0x20 \<le> b \<and> b \<le> 0x7E)"

definition utf8_need :: "byte \<Rightarrow> nat" where
  "utf8_need b =
     (if 0xC2 \<le> b \<and> b \<le> 0xDF then 2 else if 0xE0 \<le> b \<and> b \<le> 0xEF then 3
      else if 0xF0 \<le> b \<and> b \<le> 0xF4 then 4 else 0)"

text \<open>
  \<open>std::str::from_utf8\<close>: well-formed characters one after the other, by the table of the Unicode
  standard.
\<close>

fun utf8_char :: "byte list \<Rightarrow> bool" where
  "utf8_char [a] = (a < 0x80)"
| "utf8_char [a, b] = (0xC2 \<le> a \<and> a \<le> 0xDF \<and> cont_byte b)"
| "utf8_char [a, b, c] =
     ((a = 0xE0 \<and> 0xA0 \<le> b \<and> b \<le> 0xBF \<or> 0xE1 \<le> a \<and> a \<le> 0xEC \<and> cont_byte b \<or>
       a = 0xED \<and> 0x80 \<le> b \<and> b \<le> 0x9F \<or> 0xEE \<le> a \<and> a \<le> 0xEF \<and> cont_byte b) \<and> cont_byte c)"
| "utf8_char [a, b, c, d] =
     ((a = 0xF0 \<and> 0x90 \<le> b \<and> b \<le> 0xBF \<or> 0xF1 \<le> a \<and> a \<le> 0xF3 \<and> cont_byte b \<or>
       a = 0xF4 \<and> 0x80 \<le> b \<and> b \<le> 0x8F) \<and> cont_byte c \<and> cont_byte d)"
| "utf8_char _ = False"

definition utf8_len :: "byte \<Rightarrow> nat" where
  "utf8_len b = (if b < 0x80 then 1 else utf8_need b)"

function from_utf8 :: "byte list \<Rightarrow> bool" where
  "from_utf8 [] = True"
| "from_utf8 (b # bs) =
     (if utf8_len b = 0 \<or> length (b # bs) < utf8_len b then False
      else utf8_char (take (utf8_len b) (b # bs)) \<and> from_utf8 (drop (utf8_len b) (b # bs)))"
  by pat_completeness auto
termination
  by (relation "measure length") auto

declare from_utf8.simps(2) [simp del]

text \<open>The code point of a character.\<close>

fun code_point :: "byte list \<Rightarrow> nat" where
  "code_point [a] = unat a"
| "code_point [a, b] = (unat a - 0xC0) * 64 + (unat b - 0x80)"
| "code_point [a, b, c] = (unat a - 0xE0) * 4096 + (unat b - 0x80) * 64 + (unat c - 0x80)"
| "code_point [a, b, c, d] =
     (unat a - 0xF0) * 262144 + (unat b - 0x80) * 4096 + (unat c - 0x80) * 64 + (unat d - 0x80)"
| "code_point _ = 0"

section \<open>The scanner\<close>

definition max_osc_bytes :: nat where "max_osc_bytes = 1024 * 1024"
definition max_dcs_bytes :: nat where "max_dcs_bytes = 16 * 1024 * 1024"
definition max_apc_bytes :: nat where "max_apc_bytes = 1024 * 1024"
definition max_skip_bytes :: nat where "max_skip_bytes = 64 * 1024"
definition max_input_reply_bytes :: nat where "max_input_reply_bytes = 8 * 1024"

datatype seq =
    Text "byte list"
  | Ctl byte
  | EscSeq byte byte
  | CsiSeq params
  | OscSeq "byte list"
  | DcsSeq "byte list"
  | ApcSeq "byte list"
  | EscChar nat
  | Ss3Seq byte
  | X10Seq byte byte byte

datatype scan_mode = ModeOutput | ModeInput

datatype scan_state =
    Ground | Utf8 | InEsc | EscInter | EscUtf8 | Csi | Osc | OscEsc | Dcs | DcsEsc | Apc | ApcEsc | Skip | SkipEsc
  | Ss3 | X10Mouse | MaybeApc | MaybeDcs | MaybeOsc

record scanner =
  sc_mode :: scan_mode
  sc_state :: scan_state
  sc_params :: params
  sc_inter :: byte
  sc_body :: "byte list"
  sc_utf8 :: "byte list"
  sc_utf8_len :: nat
  sc_utf8_need :: nat
  sc_x10 :: "byte list"
  sc_x10_len :: nat

definition scanner_new :: "scan_mode \<Rightarrow> scanner" where
  "scanner_new mode =
     \<lparr>sc_mode = mode, sc_state = Ground, sc_params = params_default, sc_inter = 0, sc_body = [],
      sc_utf8 = [0, 0, 0, 0], sc_utf8_len = 0, sc_utf8_need = 0, sc_x10 = [0, 0], sc_x10_len = 0\<rparr>"

abbreviation "go st s \<equiv> s\<lparr>sc_state := st\<rparr>"

abbreviation stashed :: "scanner \<Rightarrow> byte list" where
  "stashed s \<equiv> take (sc_utf8_len s) (sc_utf8 s)"

definition body_cap :: "nat \<Rightarrow> scanner \<Rightarrow> nat" where
  "body_cap output s = (case sc_mode s of ModeOutput \<Rightarrow> output | ModeInput \<Rightarrow> max_input_reply_bytes)"

definition push_body :: "byte \<Rightarrow> nat \<Rightarrow> scanner \<Rightarrow> scanner" where
  "push_body b cap s =
     (if cap \<le> length (sc_body s) then s\<lparr>sc_body := [], sc_state := Ground\<rparr>
      else s\<lparr>sc_body := sc_body s @ [b]\<rparr>)"

definition open_body :: "scan_state \<Rightarrow> scanner \<Rightarrow> scanner" where
  "open_body st s = s\<lparr>sc_body := [], sc_state := st\<rparr>"

definition params_inter_extra :: "scanner \<Rightarrow> scanner" where
  "params_inter_extra s = (if sc_inter s = 0 then s else s\<lparr>sc_inter := 0xFF\<rparr>)"

section \<open>Text\<close>

text \<open>The longest run of printable ASCII and whole valid characters; the byte after it ends it.\<close>

function text_run :: "byte list \<Rightarrow> byte list" where
  "text_run [] = []"
| "text_run (b # bs) =
     (if print_byte b then b # text_run bs
      else if 0xC2 \<le> b
        then (let need = utf8_need b
              in if need = 0 \<or> length (b # bs) < need then []
                 else if from_utf8 (take need (b # bs)) then take need (b # bs) @ text_run (drop need (b # bs))
                 else [])
      else [])"
  by pat_completeness auto
termination
  by (relation "measure length") auto

declare text_run.simps(2) [simp del]

definition controls_of :: "byte list \<Rightarrow> seq list" where
  "controls_of bs = map Ctl (filter (\<lambda>b. b = 0x8D) bs)"

definition ground_step :: "scanner \<Rightarrow> byte \<Rightarrow> byte list \<Rightarrow> scanner \<times> byte list \<times> seq list" where
  "ground_step s b bs =
     (if b = 0x1B then (go InEsc s, bs, [])
      else if print_byte b \<or> 0xC2 \<le> b
      then (let run = text_run (b # bs)
            in if run \<noteq> [] then (s, drop (length run) (b # bs), [Text run])
               else (let need = utf8_need b
                     in if 0 < need \<and> length (b # bs) < need \<and> list_all cont_byte bs
                        then (s\<lparr>sc_utf8 := b # bs @ drop (length (b # bs)) (sc_utf8 s), sc_utf8_len := length (b # bs),
                                sc_utf8_need := need, sc_state := Utf8\<rparr>, [], [])
                        else (s, bs, [])))
      else (s, bs, if b < 0x20 \<or> b = 0x7F \<or> b = 0x8D then [Ctl b] else []))"

definition utf8_step :: "scanner \<Rightarrow> byte \<Rightarrow> byte list \<Rightarrow> scanner \<times> byte list \<times> seq list" where
  "utf8_step s b bs =
     (if \<not> cont_byte b
      then (s\<lparr>sc_utf8_len := 0, sc_state := Ground\<rparr>, b # bs, controls_of (tl (stashed s)))
      else
        (let s1 = s\<lparr>sc_utf8 := (sc_utf8 s)[sc_utf8_len s := b], sc_utf8_len := sc_utf8_len s + 1\<rparr>
         in if sc_utf8_len s1 = sc_utf8_need s1
            then (let char = stashed s1
                  in (s1\<lparr>sc_utf8_len := 0, sc_state := Ground\<rparr>, bs,
                      if from_utf8 char
                      then [if sc_state s = EscUtf8 then EscChar (code_point char) else Text char]
                      else controls_of (tl char)))
            else (s1, bs, [])))"

section \<open>Escapes\<close>

definition esc_output :: "scanner \<Rightarrow> byte \<Rightarrow> scanner \<times> seq list" where
  "esc_output s b =
     (if inter_byte b then (s\<lparr>sc_inter := b, sc_state := EscInter\<rparr>, [])
      else if b = 0x5D then (open_body Osc s, [])
      else if b = 0x50 then (open_body Dcs s, [])
      else if b = 0x5F then (open_body Apc s, [])
      else if b = 0x58 \<or> b = 0x5E then (open_body Skip s, [])
      else if 0x30 \<le> b \<and> b \<le> 0x7E then (go Ground s, [EscSeq 0 b])
      else (go Ground s, if b < 0x20 \<or> b = 0x7F then [Ctl b] else []))"

definition esc_input :: "scanner \<Rightarrow> byte \<Rightarrow> scanner \<times> seq list" where
  "esc_input s b =
     (if b = 0x5F then (go MaybeApc s, [])
      else if b = 0x50 then (go MaybeDcs s, [])
      else if b = 0x5D then (go MaybeOsc s, [])
      else if b < 0x80 then (go Ground s, [EscChar (unat b)])
      else if 0 < utf8_need b
      then (s\<lparr>sc_utf8 := (sc_utf8 s)[0 := b], sc_utf8_len := 1, sc_utf8_need := utf8_need b, sc_state := EscUtf8\<rparr>, [])
      else (go Ground s, []))"

definition esc_step :: "scanner \<Rightarrow> byte \<Rightarrow> scanner \<times> seq list" where
  "esc_step s b =
     (if b = 0x5B then (s\<lparr>sc_params := params_default, sc_state := Csi\<rparr>, [])
      else if b = 0x1B
      then (case sc_mode s of ModeOutput \<Rightarrow> (s, []) | ModeInput \<Rightarrow> (go Ground s, [Ctl 0x1B]))
      else if b = 0x4F \<and> sc_mode s = ModeInput then (go Ss3 s, [])
      else (case sc_mode s of ModeOutput \<Rightarrow> esc_output s b | ModeInput \<Rightarrow> esc_input s b))"

definition esc_inter_step :: "scanner \<Rightarrow> byte \<Rightarrow> scanner \<times> seq list" where
  "esc_inter_step s b =
     (if inter_byte b then (params_inter_extra s, [])
      else if 0x30 \<le> b \<and> b \<le> 0x7E then (go Ground s, [EscSeq (sc_inter s) b])
      else (go Ground s, if b < 0x20 \<or> b = 0x7F then [Ctl b] else []))"

definition csi_step :: "scanner \<Rightarrow> byte \<Rightarrow> scanner \<times> seq list" where
  "csi_step s b =
     (case param_byte b (sc_params s) of
        Some p \<Rightarrow> (s\<lparr>sc_params := p\<rparr>, [])
      | None \<Rightarrow>
          (if b = 0x4D \<and> sc_mode s = ModeInput \<and> is_bare (sc_params s)
           then (s\<lparr>sc_x10_len := 0, sc_state := X10Mouse\<rparr>, [])
           else if 0x40 \<le> b \<and> b \<le> 0x7E
           then (let p = (sc_params s)\<lparr>p_final := b\<rparr> in (s\<lparr>sc_params := p, sc_state := Ground\<rparr>, [CsiSeq p]))
           else if b = 0x1B then (go InEsc s, [])
           else if b < 0x20 then (s, [Ctl b])
           else if b \<noteq> 0x7F then (go Ground s, [])
           else (s, [])))"

section \<open>Bodies\<close>

definition osc_step :: "scanner \<Rightarrow> byte \<Rightarrow> scanner \<times> seq list" where
  "osc_step s b =
     (if b = 0x07 \<or> b = 0x9C then (go Ground s, [OscSeq (sc_body s)])
      else if b = 0x1B then (go OscEsc s, [])
      else (push_body b (body_cap max_osc_bytes s) s, []))"

text \<open>A DCS, an APC or what is skipped, with the state an \<open>ESC\<close> leads to and the cap.\<close>

definition body_step :: "scan_state \<Rightarrow> nat \<Rightarrow> scanner \<Rightarrow> byte \<Rightarrow> scanner \<times> seq list" where
  "body_step esc cap s b = (if b = 0x1B then (go esc s, []) else (push_body b cap s, []))"

text \<open>After that \<open>ESC\<close>: the end, or the \<open>ESC\<close> was part of the body and the byte is taken again.\<close>

definition body_esc_step ::
  "scan_state \<Rightarrow> nat \<Rightarrow> (scanner \<Rightarrow> scanner \<times> seq list) \<Rightarrow> scanner \<Rightarrow> byte \<Rightarrow> byte list \<Rightarrow> scanner \<times> byte list \<times> seq list" where
  "body_esc_step st cap finish s b bs =
     (if b = 0x5C then (let (s1, out) = finish s in (s1, bs, out)) else (push_body 0x1B cap (go st s), b # bs, []))"

definition maybe_step ::
  "bool \<Rightarrow> scanner \<Rightarrow> nat \<Rightarrow> scanner \<Rightarrow> byte list \<Rightarrow> scanner \<times> byte list \<times> seq list" where
  "maybe_step reply opened c s bs = (if reply then (opened, bs, []) else (go Ground s, bs, [EscChar c]))"

definition consumed :: "byte list \<Rightarrow> scanner \<times> seq list \<Rightarrow> scanner \<times> byte list \<times> seq list" where
  "consumed bs r = (fst r, bs, snd r)"

text \<open>One turn of the loop of \<open>feed\<close>.\<close>

definition scan_step :: "scanner \<Rightarrow> byte \<Rightarrow> byte list \<Rightarrow> scanner \<times> byte list \<times> seq list" where
  "scan_step s b bs =
     (case sc_state s of
        Ground \<Rightarrow> ground_step s b bs
      | Utf8 \<Rightarrow> utf8_step s b bs
      | EscUtf8 \<Rightarrow> utf8_step s b bs
      | InEsc \<Rightarrow> consumed bs (esc_step s b)
      | EscInter \<Rightarrow> consumed bs (esc_inter_step s b)
      | Csi \<Rightarrow> consumed bs (csi_step s b)
      | Osc \<Rightarrow> consumed bs (osc_step s b)
      | OscEsc \<Rightarrow> body_esc_step Osc (body_cap max_osc_bytes s) (\<lambda>s. (go Ground s, [OscSeq (sc_body s)])) s b bs
      | Dcs \<Rightarrow> consumed bs (body_step DcsEsc (body_cap max_dcs_bytes s) s b)
      | DcsEsc \<Rightarrow> body_esc_step Dcs (body_cap max_dcs_bytes s) (\<lambda>s. (go Ground s, [DcsSeq (sc_body s)])) s b bs
      | Apc \<Rightarrow> consumed bs (body_step ApcEsc (body_cap max_apc_bytes s) s b)
      | ApcEsc \<Rightarrow> body_esc_step Apc (body_cap max_apc_bytes s) (\<lambda>s. (go Ground s, [ApcSeq (sc_body s)])) s b bs
      | Skip \<Rightarrow> consumed bs (body_step SkipEsc max_skip_bytes s b)
      | SkipEsc \<Rightarrow> body_esc_step Skip max_skip_bytes (\<lambda>s. (s\<lparr>sc_body := [], sc_state := Ground\<rparr>, [])) s b bs
      | MaybeApc \<Rightarrow>
          (if b = 0x47 then (s\<lparr>sc_body := [b], sc_state := Apc\<rparr>, bs, [])
           else (go Ground s, b # bs, [EscChar 0x5F]))
      | MaybeDcs \<Rightarrow> maybe_step (b = 0x3E) (open_body Dcs s) 0x50 s (b # bs)
      | MaybeOsc \<Rightarrow> maybe_step (digit_byte b) (open_body Osc s) 0x5D s (b # bs)
      | Ss3 \<Rightarrow> (go Ground s, bs, [Ss3Seq b])
      | X10Mouse \<Rightarrow>
          (if sc_x10_len s < 2
           then (s\<lparr>sc_x10 := (sc_x10 s)[sc_x10_len s := b], sc_x10_len := sc_x10_len s + 1\<rparr>, bs, [])
           else (go Ground s, bs, [X10Seq (sc_x10 s ! 0) (sc_x10 s ! 1) b])))"

text \<open>A turn that takes no byte goes to a state of a lower rank, so the loop ends.\<close>

fun state_rank :: "scan_state \<Rightarrow> nat" where
  "state_rank Ground = 0"
| "state_rank OscEsc = 2"
| "state_rank DcsEsc = 2"
| "state_rank ApcEsc = 2"
| "state_rank SkipEsc = 2"
| "state_rank MaybeApc = 2"
| "state_rank MaybeDcs = 2"
| "state_rank MaybeOsc = 2"
| "state_rank _ = 1"

lemma length_text_run: "length (text_run bs) \<le> length bs"
proof (induction bs rule: text_run.induct)
  case (2 b bs)
  then show ?case by (subst text_run.simps) (auto simp: Let_def)
qed simp

lemma push_body_state: "sc_state (push_body b cap s) = Ground \<or> sc_state (push_body b cap s) = sc_state s"
  by (simp add: push_body_def)

lemma scan_step_progress:
  assumes "scan_step s b bs = (s', left, out)"
  shows "length left \<le> length bs \<or> left = b # bs \<and> state_rank (sc_state s') < state_rank (sc_state s)"
proof -
  have esc: "length left' \<le> length bs \<or> left' = b # bs \<and> state_rank (sc_state s'') < 2"
    if "body_esc_step st cap fin s b bs = (s'', left', out')" "state_rank st = 1" for st cap fin s'' left' out'
    using that push_body_state [of "0x1B" cap "go st s"]
    by (auto simp: body_esc_step_def Let_def split: if_splits prod.splits)
  show ?thesis
  proof (cases "sc_state s")
    case Ground
    then show ?thesis
      using assms
      by (cases "text_run (b # bs)") (auto simp: scan_step_def ground_step_def Let_def split: if_splits)
  qed (use assms esc in
    \<open>auto simp: scan_step_def utf8_step_def consumed_def maybe_step_def open_body_def Let_def split: if_splits\<close>)
qed

function scan_feed :: "scanner \<Rightarrow> byte list \<Rightarrow> scanner \<times> seq list" where
  "scan_feed s [] = (s, [])"
| "scan_feed s (b # bs) =
     (case scan_step s b bs of (s1, left, out) \<Rightarrow>
        (case scan_feed s1 left of (s2, out') \<Rightarrow> (s2, out @ out')))"
  by pat_completeness auto
termination
  by (relation "inv_image (measure length <*lex*> measure state_rank) (\<lambda>(s, bs). (bs, sc_state s))")
    (auto dest!: scan_step_progress [OF sym])

declare scan_feed.simps(2) [simp del]

text \<open>\<open>flush\<close>: a lone escape at the end of the input is a key press, or an Alt chord.\<close>

definition scan_flush :: "scanner \<Rightarrow> scanner \<times> seq list" where
  "scan_flush s =
     (case sc_state s of
        InEsc \<Rightarrow> (go Ground s, [Ctl 0x1B])
      | MaybeApc \<Rightarrow> (go Ground s, [EscChar 0x5F])
      | MaybeDcs \<Rightarrow> (go Ground s, [EscChar 0x50])
      | MaybeOsc \<Rightarrow> (go Ground s, [EscChar 0x5D])
      | _ \<Rightarrow> (s, []))"

definition esc_pending :: "scanner \<Rightarrow> bool" where
  "esc_pending s = (sc_state s \<in> {InEsc, MaybeApc, MaybeDcs, MaybeOsc})"

text \<open>The bytes that bring a fresh scanner to where this one is.\<close>

definition pending :: "scanner \<Rightarrow> byte list" where
  "pending s =
     (case sc_state s of
        Ground \<Rightarrow> []
      | Utf8 \<Rightarrow> stashed s
      | InEsc \<Rightarrow> [0x1B]
      | EscInter \<Rightarrow> 0x1B # (if sc_inter s = 0xFF then [0x20, 0x20] else [sc_inter s])
      | EscUtf8 \<Rightarrow> 0x1B # stashed s
      | Csi \<Rightarrow> [0x1B, 0x5B] @ write_unfinished (sc_params s)
      | Osc \<Rightarrow> [0x1B, 0x5D] @ sc_body s
      | OscEsc \<Rightarrow> [0x1B, 0x5D] @ sc_body s @ [0x1B]
      | Dcs \<Rightarrow> [0x1B, 0x50] @ sc_body s
      | DcsEsc \<Rightarrow> [0x1B, 0x50] @ sc_body s @ [0x1B]
      | Apc \<Rightarrow> [0x1B, 0x5F] @ sc_body s
      | ApcEsc \<Rightarrow> [0x1B, 0x5F] @ sc_body s @ [0x1B]
      | MaybeApc \<Rightarrow> [0x1B, 0x5F]
      | MaybeDcs \<Rightarrow> [0x1B, 0x50]
      | MaybeOsc \<Rightarrow> [0x1B, 0x5D]
      | Skip \<Rightarrow> [0x1B, 0x58] @ sc_body s
      | SkipEsc \<Rightarrow> [0x1B, 0x58] @ sc_body s @ [0x1B]
      | Ss3 \<Rightarrow> [0x1B, 0x4F]
      | X10Mouse \<Rightarrow> [0x1B, 0x5B, 0x4D] @ take (sc_x10_len s) (sc_x10 s))"

end
