(* ===== verification/Vt_Bytes.thy ===== *)
theory Vt_Bytes
  imports Vt_Scan
begin

text \<open>
  The scanner byte by byte: what it knows is a view, and one byte takes a view to the next. The loop of
  \<open>feed\<close>, which takes text by runs and takes some bytes twice, does the same over a chunk, however the
  stream is cut into chunks.
\<close>

section \<open>Views\<close>

datatype body_kind = KOsc | KDcs | KApc | KSkip

datatype view =
    VGround
  | VUtf8 "byte list" bool
  | VEsc
  | VEscInter byte
  | VCsi params
  | VBody body_kind "byte list"
  | VBodyEsc body_kind "byte list"
  | VMaybe body_kind
  | VSs3
  | VX10 "byte list"

definition view_of :: "scanner \<Rightarrow> view" where
  "view_of s =
     (case sc_state s of
        Ground \<Rightarrow> VGround
      | Utf8 \<Rightarrow> VUtf8 (stashed s) False
      | EscUtf8 \<Rightarrow> VUtf8 (stashed s) True
      | InEsc \<Rightarrow> VEsc
      | EscInter \<Rightarrow> VEscInter (sc_inter s)
      | Csi \<Rightarrow> VCsi (sc_params s)
      | Osc \<Rightarrow> VBody KOsc (sc_body s)
      | OscEsc \<Rightarrow> VBodyEsc KOsc (sc_body s)
      | Dcs \<Rightarrow> VBody KDcs (sc_body s)
      | DcsEsc \<Rightarrow> VBodyEsc KDcs (sc_body s)
      | Apc \<Rightarrow> VBody KApc (sc_body s)
      | ApcEsc \<Rightarrow> VBodyEsc KApc (sc_body s)
      | Skip \<Rightarrow> VBody KSkip (sc_body s)
      | SkipEsc \<Rightarrow> VBodyEsc KSkip (sc_body s)
      | MaybeApc \<Rightarrow> VMaybe KApc
      | MaybeDcs \<Rightarrow> VMaybe KDcs
      | MaybeOsc \<Rightarrow> VMaybe KOsc
      | Ss3 \<Rightarrow> VSs3
      | X10Mouse \<Rightarrow> VX10 (take (sc_x10_len s) (sc_x10 s)))"

fun kind_cap :: "scan_mode \<Rightarrow> body_kind \<Rightarrow> nat" where
  "kind_cap m KOsc = (case m of ModeOutput \<Rightarrow> max_osc_bytes | ModeInput \<Rightarrow> max_input_reply_bytes)"
| "kind_cap m KDcs = (case m of ModeOutput \<Rightarrow> max_dcs_bytes | ModeInput \<Rightarrow> max_input_reply_bytes)"
| "kind_cap m KApc = (case m of ModeOutput \<Rightarrow> max_apc_bytes | ModeInput \<Rightarrow> max_input_reply_bytes)"
| "kind_cap m KSkip = max_skip_bytes"

fun kind_seq :: "body_kind \<Rightarrow> byte list \<Rightarrow> seq list" where
  "kind_seq KOsc bs = [OscSeq bs]"
| "kind_seq KDcs bs = [DcsSeq bs]"
| "kind_seq KApc bs = [ApcSeq bs]"
| "kind_seq KSkip bs = []"

section \<open>One byte\<close>

definition v_ground :: "byte \<Rightarrow> view \<times> seq list" where
  "v_ground b =
     (if b = 0x1B then (VEsc, [])
      else if print_byte b then (VGround, [Text [b]])
      else if 0 < utf8_need b then (VUtf8 [b] False, [])
      else (VGround, if b < 0x20 \<or> b = 0x7F \<or> b = 0x8D then [Ctl b] else []))"

definition then_out :: "seq list \<Rightarrow> view \<times> seq list \<Rightarrow> view \<times> seq list" where
  "then_out out r = (fst r, out @ snd r)"

definition v_utf8 :: "byte list \<Rightarrow> bool \<Rightarrow> byte \<Rightarrow> view \<times> seq list" where
  "v_utf8 cs esc b =
     (if \<not> cont_byte b then then_out (controls_of (tl cs)) (v_ground b)
      else if length cs + 1 = utf8_need (hd cs)
      then (VGround,
            if from_utf8 (cs @ [b]) then [if esc then EscChar (code_point (cs @ [b])) else Text (cs @ [b])]
            else controls_of (tl (cs @ [b])))
      else (VUtf8 (cs @ [b]) esc, []))"

definition v_push :: "scan_mode \<Rightarrow> body_kind \<Rightarrow> byte list \<Rightarrow> byte \<Rightarrow> view" where
  "v_push m k body b = (if kind_cap m k \<le> length body then VGround else VBody k (body @ [b]))"

definition v_body :: "scan_mode \<Rightarrow> body_kind \<Rightarrow> byte list \<Rightarrow> byte \<Rightarrow> view \<times> seq list" where
  "v_body m k body b =
     (if k = KOsc \<and> (b = 0x07 \<or> b = 0x9C) then (VGround, kind_seq k body)
      else if b = 0x1B then (VBodyEsc k body, [])
      else (v_push m k body b, []))"

definition v_body_esc :: "scan_mode \<Rightarrow> body_kind \<Rightarrow> byte list \<Rightarrow> byte \<Rightarrow> view \<times> seq list" where
  "v_body_esc m k body b =
     (if b = 0x5C then (VGround, kind_seq k body)
      else if kind_cap m k \<le> length body then v_ground b
      else v_body m k (body @ [0x1B]) b)"

definition v_esc :: "scan_mode \<Rightarrow> byte \<Rightarrow> view \<times> seq list" where
  "v_esc m b =
     (if b = 0x5B then (VCsi params_default, [])
      else case m of
        ModeOutput \<Rightarrow>
          (if b = 0x1B then (VEsc, [])
           else if inter_byte b then (VEscInter b, [])
           else if b = 0x5D then (VBody KOsc [], [])
           else if b = 0x50 then (VBody KDcs [], [])
           else if b = 0x5F then (VBody KApc [], [])
           else if b = 0x58 \<or> b = 0x5E then (VBody KSkip [], [])
           else (VGround, if 0x30 \<le> b \<and> b \<le> 0x7E then [EscSeq 0 b] else if b < 0x20 \<or> b = 0x7F then [Ctl b] else []))
      | ModeInput \<Rightarrow>
          (if b = 0x1B then (VGround, [Ctl 0x1B])
           else if b = 0x4F then (VSs3, [])
           else if b = 0x5F then (VMaybe KApc, [])
           else if b = 0x50 then (VMaybe KDcs, [])
           else if b = 0x5D then (VMaybe KOsc, [])
           else if b < 0x80 then (VGround, [EscChar (unat b)])
           else if 0 < utf8_need b then (VUtf8 [b] True, [])
           else (VGround, [])))"

definition v_csi :: "scan_mode \<Rightarrow> params \<Rightarrow> byte \<Rightarrow> view \<times> seq list" where
  "v_csi m p b =
     (case param_byte b p of
        Some q \<Rightarrow> (VCsi q, [])
      | None \<Rightarrow>
          (if b = 0x4D \<and> m = ModeInput \<and> is_bare p then (VX10 [], [])
           else if 0x40 \<le> b \<and> b \<le> 0x7E then (VGround, [CsiSeq (p\<lparr>p_final := b\<rparr>)])
           else if b = 0x1B then (VEsc, [])
           else if b < 0x20 then (VCsi p, [Ctl b])
           else if b \<noteq> 0x7F then (VGround, [])
           else (VCsi p, [])))"

fun v_maybe :: "scan_mode \<Rightarrow> body_kind \<Rightarrow> byte \<Rightarrow> view \<times> seq list" where
  "v_maybe m KApc b = (if b = 0x47 then (VBody KApc [b], []) else then_out [EscChar 0x5F] (v_ground b))"
| "v_maybe m KDcs b = (if b = 0x3E then v_body m KDcs [] b else then_out [EscChar 0x50] (v_ground b))"
| "v_maybe m KOsc b = (if digit_byte b then v_body m KOsc [] b else then_out [EscChar 0x5D] (v_ground b))"
| "v_maybe m KSkip b = (VGround, [])"

fun v_step :: "scan_mode \<Rightarrow> view \<Rightarrow> byte \<Rightarrow> view \<times> seq list" where
  "v_step m VGround b = v_ground b"
| "v_step m (VUtf8 cs esc) b = v_utf8 cs esc b"
| "v_step m VEsc b = v_esc m b"
| "v_step m (VEscInter i) b =
     (if inter_byte b then (VEscInter 0xFF, [])
      else (VGround, if 0x30 \<le> b \<and> b \<le> 0x7E then [EscSeq i b] else if b < 0x20 \<or> b = 0x7F then [Ctl b] else []))"
| "v_step m (VCsi p) b = v_csi m p b"
| "v_step m (VBody k body) b = v_body m k body b"
| "v_step m (VBodyEsc k body) b = v_body_esc m k body b"
| "v_step m (VMaybe k) b = v_maybe m k b"
| "v_step m VSs3 b = (VGround, [Ss3Seq b])"
| "v_step m (VX10 xs) b = (if length xs < 2 then (VX10 (xs @ [b]), []) else (VGround, [X10Seq (xs ! 0) (xs ! 1) b]))"

fun v_feed :: "scan_mode \<Rightarrow> view \<Rightarrow> byte list \<Rightarrow> view \<times> seq list" where
  "v_feed m v [] = (v, [])"
| "v_feed m v (b # bs) = then_out (snd (v_step m v b)) (v_feed m (fst (v_step m v b)) bs)"

lemma v_feed_append:
  "v_feed m v (as @ bs) = then_out (snd (v_feed m v as)) (v_feed m (fst (v_feed m v as)) bs)"
  by (induction as arbitrary: v) (simp_all add: then_out_def)

text \<open>Items byte by byte: text that comes in two pieces is the same text.\<close>

fun seq_items :: "seq \<Rightarrow> (byte + seq) list" where
  "seq_items (Text bs) = map Inl bs"
| "seq_items s = [Inr s]"

definition items :: "seq list \<Rightarrow> (byte + seq) list" where
  "items out = concat (map seq_items out)"

lemma items_simps [simp]:
  "items [] = []" "items (s # out) = seq_items s @ items out" "items (out @ out') = items out @ items out'"
  by (simp_all add: items_def)

section \<open>What a scanner obeys\<close>

text \<open>The buffers have their sizes, and what is stashed of a character waits for more of it.\<close>

definition scan_ok :: "scanner \<Rightarrow> bool" where
  "scan_ok s =
     (length (sc_utf8 s) = 4 \<and> length (sc_x10 s) = 2 \<and>
      (sc_state s \<in> {Utf8, EscUtf8} \<longrightarrow>
         0 < sc_utf8_len s \<and> sc_utf8_len s < sc_utf8_need s \<and> sc_utf8_need s = utf8_need (sc_utf8 s ! 0)) \<and>
      (sc_state s = X10Mouse \<longrightarrow> sc_x10_len s \<le> 2) \<and>
      (sc_state s = EscInter \<longrightarrow> sc_inter s \<noteq> 0))"

lemma v_feed_then:
  "fst (v_feed m v (b # bs)) = fst (v_feed m (fst (v_step m v b)) bs)"
  "snd (v_feed m v (b # bs)) = snd (v_step m v b) @ snd (v_feed m (fst (v_step m v b)) bs)"
  by (simp_all add: then_out_def)

text \<open>Two ways to go on that end in the same view with the same items.\<close>

definition agrees :: "scan_mode \<Rightarrow> view \<Rightarrow> byte list \<Rightarrow> seq list \<Rightarrow> view \<Rightarrow> byte list \<Rightarrow> bool" where
  "agrees m v bs out v' left =
     (fst (v_feed m v bs) = fst (v_feed m v' left) \<and>
      items (snd (v_feed m v bs)) = items out @ items (snd (v_feed m v' left)))"

lemma agrees_step:
  "v_step m v b = (v', out') \<Longrightarrow> items out' = items out \<Longrightarrow> agrees m v (b # bs) out v' bs"
  by (simp add: agrees_def then_out_def)

lemma agrees_one:
  "v_step m v b = (v', out) \<Longrightarrow> agrees m v (b # bs) out v' bs"
  by (simp add: agrees_def then_out_def)

lemma agrees_again:
  "v_step m v b = then_out out (v_step m v' b) \<Longrightarrow> agrees m v (b # bs) out v' (b # bs)"
  by (simp add: agrees_def then_out_def)

lemma agrees_prefix:
  "v_feed m v as = (v', out') \<Longrightarrow> items out' = items out \<Longrightarrow> agrees m v (as @ bs) out v' bs"
  by (simp add: agrees_def v_feed_append then_out_def)

section \<open>Characters\<close>

lemma byte_facts:
  "cont_byte b \<Longrightarrow> b \<noteq> 0x1B \<and> \<not> print_byte b \<and> utf8_need b = 0 \<and> \<not> b < 0x20 \<and> b \<noteq> 0x7F"
  "0 < utf8_need b \<Longrightarrow> b \<noteq> 0x1B \<and> \<not> print_byte b \<and> \<not> b < 0x80 \<and> 0xC2 \<le> b"
  "print_byte b \<Longrightarrow> b \<noteq> 0x1B \<and> b < 0x80"
  "0xC2 \<le> b \<Longrightarrow> \<not> print_byte b \<and> b \<noteq> 0x1B \<and> \<not> b < 0x20 \<and> b \<noteq> 0x7F \<and> b \<noteq> 0x8D"
  by (auto simp: cont_byte_def print_byte_def utf8_need_def word_le_nat_alt word_less_nat_alt split: if_splits)

lemma utf8_need_le: "utf8_need b \<le> 4"
  by (simp add: utf8_need_def)

lemma v_ground_cont: "cont_byte b \<Longrightarrow> v_ground b = (VGround, controls_of [b])"
  using byte_facts(1) [of b] by (auto simp: v_ground_def controls_of_def)

lemma controls_append: "controls_of (as @ bs) = controls_of as @ controls_of bs"
  by (simp add: controls_of_def)

lemma v_feed_stash:
  "list_all cont_byte bs \<Longrightarrow> length cs + length bs < utf8_need (hd cs) \<Longrightarrow> cs \<noteq> [] \<Longrightarrow>
    v_feed m (VUtf8 cs e) bs = (VUtf8 (cs @ bs) e, [])"
  by (induction bs arbitrary: cs) (simp_all add: v_utf8_def then_out_def)

text \<open>A character that does not come to a valid end: its lead byte is dropped.\<close>

lemma v_feed_broken:
  assumes "length cs < utf8_need (hd cs)" and "cs \<noteq> []"
    and "\<not> (utf8_need (hd cs) \<le> length (cs @ bs) \<and> from_utf8 (take (utf8_need (hd cs)) (cs @ bs)))"
    and "\<not> (length (cs @ bs) < utf8_need (hd cs) \<and> list_all cont_byte bs)"
  shows "agrees m (VUtf8 cs e) bs (controls_of (tl cs)) VGround bs"
  using assms
proof (induction bs arbitrary: cs)
  case (Cons b bs)
  show ?case
  proof (cases "cont_byte b")
    case False
    then show ?thesis by (intro agrees_again) (simp add: v_utf8_def)
  next
    case cont: True
    have ground: "agrees m VGround (b # bs) (controls_of [b]) VGround bs"
      by (rule agrees_step [of _ _ _ _ "controls_of [b]"]) (simp_all add: v_ground_cont [OF cont])
    show ?thesis
    proof (cases "length cs + 1 = utf8_need (hd cs)")
      case True
      then have one: "utf8_need (hd cs) - length cs = 1" by simp
      then have "\<not> from_utf8 (cs @ [b])" using Cons.prems(3) True by auto
      then have "v_step m (VUtf8 cs e) b = (VGround, controls_of (tl cs) @ controls_of [b])"
        using cont True Cons.prems(2) by (simp add: v_utf8_def flip: controls_append) 
      then show ?thesis
        using ground by (simp add: agrees_def then_out_def)
    next
      case False
      then have s: "v_step m (VUtf8 cs e) b = (VUtf8 (cs @ [b]) e, [])"
        using cont by (simp add: v_utf8_def)
      have "agrees m (VUtf8 (cs @ [b]) e) bs (controls_of (tl (cs @ [b]))) VGround bs"
        by (rule Cons.IH) (use Cons.prems False cont in auto)
      then show ?thesis
        using s ground Cons.prems(2) by (simp add: agrees_def then_out_def controls_append)
    qed
  qed
qed simp

lemma utf8_char_length: "utf8_char cs \<Longrightarrow> hd cs \<ge> 0x80 \<Longrightarrow> length cs = utf8_need (hd cs) \<and> list_all cont_byte (tl cs) \<and> cs \<noteq> []"
  by (cases cs rule: utf8_char.cases)
    (auto simp: utf8_need_def cont_byte_def word_le_nat_alt word_less_nat_alt)

lemma from_utf8_char:
  assumes "from_utf8 cs" "length cs = utf8_need (hd cs)" "0 < utf8_need (hd cs)"
  shows "utf8_char cs"
proof -
  obtain b bs where "cs = b # bs" using assms(2,3) by (cases cs) auto
  then show ?thesis
    using assms byte_facts(2) [of b] by (auto simp: from_utf8.simps(2) utf8_len_def split: if_splits)
qed

lemma v_feed_char:
  assumes "from_utf8 cs" "length cs = utf8_need (hd cs)" "0 < utf8_need (hd cs)"
  shows "v_feed m VGround cs = (VGround, [Text cs])"
proof -
  obtain b bs where b: "cs = b # bs" using assms(2,3) by (cases cs) auto
  have need: "0 < utf8_need b" "2 \<le> utf8_need b" using assms(3) b by (auto simp: utf8_need_def split: if_splits)
  have "list_all cont_byte bs"
    using utf8_char_length [OF from_utf8_char [OF assms]] byte_facts(2) [OF need(1)] b by (auto simp: not_less)
  moreover obtain ds d where bs: "bs = ds @ [d]" using assms(2) b need(2) by (cases bs rule: rev_cases) auto
  moreover have "v_feed m (VUtf8 [b] False) ds = (VUtf8 ([b] @ ds) False, [])"
    by (rule v_feed_stash) (use calculation assms(2) b in auto)
  moreover have "v_ground b = (VUtf8 [b] False, [])"
    using need(1) byte_facts(2) [OF need(1)] by (auto simp: v_ground_def)
  ultimately show ?thesis
    using assms b by (simp add: v_feed_append then_out_def v_utf8_def)
qed

section \<open>Runs of text\<close>

lemma text_run_cases:
  obtains (print) "print_byte b" "text_run (b # bs) = b # text_run bs"
    | (char) "\<not> print_byte b" "0xC2 \<le> b" "utf8_need b \<noteq> 0" "utf8_need b \<le> length (b # bs)"
      "from_utf8 (take (utf8_need b) (b # bs))"
      "text_run (b # bs) = take (utf8_need b) (b # bs) @ text_run (drop (utf8_need b) (b # bs))"
    | (stop) "text_run (b # bs) = []"
proof -
  consider "print_byte b"
    | "\<not> print_byte b" "0xC2 \<le> b" "utf8_need b \<noteq> 0" "utf8_need b \<le> length (b # bs)" "from_utf8 (take (utf8_need b) (b # bs))"
    | "\<not> print_byte b" "\<not> (0xC2 \<le> b \<and> utf8_need b \<noteq> 0 \<and> utf8_need b \<le> length (b # bs) \<and> from_utf8 (take (utf8_need b) (b # bs)))"
    by blast
  then show thesis
  proof cases
    case 1
    then show thesis using print by (simp add: text_run.simps(2) [of b])
  next
    case 2
    then show thesis using char by (simp add: text_run.simps(2) [of b] Let_def)
  next
    case 3
    then have "text_run (b # bs) = []" by (auto simp: text_run.simps(2) [of b] Let_def)
    then show thesis by (rule stop)
  qed
qed

lemma text_run_prefix: "text_run bs @ drop (length (text_run bs)) bs = bs"
proof (induction bs rule: length_induct)
  case (1 bs)
  show ?case
  proof (cases bs)
    case (Cons b cs)
    show ?thesis
    proof (cases rule: text_run_cases [of b cs])
      case char
      let ?n = "utf8_need b"
      have "text_run (drop ?n bs) @ drop (length (text_run (drop ?n bs))) (drop ?n bs) = drop ?n bs"
        by (rule 1 [rule_format]) (use char Cons in simp)
      then show ?thesis
        using char Cons by (simp add: add.commute)
    qed (use 1 Cons in simp_all)
  qed simp
qed

lemma text_run_feed: "fst (v_feed m VGround (text_run bs)) = VGround \<and> items (snd (v_feed m VGround (text_run bs))) = map Inl (text_run bs)"
proof (induction bs rule: length_induct)
  case (1 bs)
  show ?case
  proof (cases bs)
    case (Cons b cs)
    show ?thesis
    proof (cases rule: text_run_cases [of b cs])
      case print
      then show ?thesis
        using 1 [rule_format, of cs] Cons byte_facts(3) [of b] by (simp add: then_out_def v_ground_def)
    next
      case char
      let ?n = "utf8_need b"
      have hd: "hd (take ?n (b # cs)) = b" using char by (cases ?n) auto
      have "v_feed m VGround (take ?n (b # cs)) = (VGround, [Text (take ?n (b # cs))])"
        by (rule v_feed_char) (use char hd in \<open>auto simp: min_def\<close>)
      moreover have "length (drop ?n (b # cs)) < length bs" using char Cons by simp
      ultimately show ?thesis
        using 1 [rule_format, of "drop ?n (b # cs)"] char(6) Cons by (simp add: v_feed_append then_out_def)
    qed (use Cons in simp)
  qed simp
qed

section \<open>A step of the loop\<close>

definition step_ok :: "scanner \<Rightarrow> byte list \<Rightarrow> scanner \<times> byte list \<times> seq list \<Rightarrow> bool" where
  "step_ok s bs r =
     (case r of (s', left, out) \<Rightarrow>
        scan_ok s' \<and> sc_mode s' = sc_mode s \<and> agrees (sc_mode s) (view_of s) bs out (view_of s') left)"

lemma text_run_Nil:
  assumes "text_run (b # bs) = []" "print_byte b \<or> 0xC2 \<le> b"
  shows "\<not> print_byte b \<and> 0xC2 \<le> b \<and> (utf8_need b = 0 \<or> length (b # bs) < utf8_need b \<or>
    \<not> from_utf8 (take (utf8_need b) (b # bs)))"
proof -
  have "utf8_need b \<noteq> 0 \<Longrightarrow> take (utf8_need b) (b # bs) \<noteq> []" by simp
  then show ?thesis
    using assms by (cases rule: text_run_cases [of b bs]) (auto simp: text_run.simps(2) [of b] Let_def split: if_splits)
qed

lemma v_ground_none: "0xC2 \<le> b \<Longrightarrow> utf8_need b = 0 \<Longrightarrow> v_ground b = (VGround, [])"
  using byte_facts(4) [of b] by (auto simp: v_ground_def)

lemma ground_step_ok:
  assumes "scan_ok s" "sc_state s = Ground"
  shows "step_ok s (b # bs) (ground_step s b bs)"
proof -
  have v: "view_of s = VGround" using assms(2) by (simp add: view_of_def)
  note four = byte_facts(4) [of b]
  show ?thesis
  proof (cases "b = 0x1B \<or> \<not> (print_byte b \<or> 0xC2 \<le> b)")
    case True
    have "\<not> print_byte b \<Longrightarrow> \<not> 0xC2 \<le> b \<Longrightarrow> utf8_need b = 0" using byte_facts(2) [of b] by auto
    then show ?thesis
      using True assms v
      by (auto simp: ground_step_def step_ok_def scan_ok_def view_of_def v_ground_def print_byte_def intro!: agrees_step)
  next
    case False
    then have b: "b \<noteq> 0x1B" "print_byte b \<or> 0xC2 \<le> b" by auto
    show ?thesis
    proof (cases "text_run (b # bs) = []")
      case False
      have "agrees (sc_mode s) VGround (text_run (b # bs) @ drop (length (text_run (b # bs))) (b # bs))
          [Text (text_run (b # bs))] VGround (drop (length (text_run (b # bs))) (b # bs))"
        using text_run_feed [of "sc_mode s" "b # bs"]
        by (intro agrees_prefix [of _ _ _ _ "snd (v_feed (sc_mode s) VGround (text_run (b # bs)))"]) (auto simp: prod_eq_iff)
      then show ?thesis
        using False b assms v by (simp add: ground_step_def step_ok_def text_run_prefix Let_def)
    next
      case empty: True
      note none = text_run_Nil [OF empty b(2)]
      show ?thesis
      proof (cases "utf8_need b = 0")
        case True
        then show ?thesis
          using empty b assms v none v_ground_none [of b]
          by (auto simp: ground_step_def step_ok_def Let_def intro!: agrees_step)
      next
        case need: False
        then have lead: "v_ground b = (VUtf8 [b] False, [])"
          using byte_facts(2) [of b] by (auto simp: v_ground_def)
        show ?thesis
        proof (cases "length (b # bs) < utf8_need b \<and> list_all cont_byte bs")
          case True
          have "v_feed (sc_mode s) (VUtf8 [b] False) bs = (VUtf8 (b # bs) False, [])"
            using v_feed_stash [of bs "[b]"] True by simp
          then have "agrees (sc_mode s) VGround (b # bs) [] (VUtf8 (b # bs) False) []"
            using lead by (simp add: agrees_def then_out_def)
          moreover have "length (b # bs) < 4" using True utf8_need_le [of b] by linarith
          ultimately show ?thesis
            using True empty b need assms v
            by (auto simp: ground_step_def step_ok_def Let_def scan_ok_def view_of_def)
        next
          case False
          have "agrees (sc_mode s) (VUtf8 [b] False) bs (controls_of (tl [b])) VGround bs"
            by (rule v_feed_broken) (use False none need utf8_need_def [of b] in \<open>auto split: if_splits\<close>)
          then have "agrees (sc_mode s) VGround (b # bs) [] VGround bs"
            using lead by (simp add: agrees_def then_out_def controls_of_def)
          then show ?thesis
            using False empty b need assms v by (auto simp: ground_step_def step_ok_def Let_def)
        qed
      qed
    qed
  qed
qed

lemma take_update_snoc:
  "n < length xs \<Longrightarrow> take (Suc n) (xs[n := x]) = take n xs @ [x]"
  by (simp add: take_Suc_conv_app_nth)

lemma stash_hd: "scan_ok s \<Longrightarrow> sc_state s \<in> {Utf8, EscUtf8} \<Longrightarrow>
    hd (stashed s) = sc_utf8 s ! 0 \<and> length (stashed s) = sc_utf8_len s \<and> sc_utf8_len s < 4 \<and> 0 < sc_utf8_len s"
  using utf8_need_le [of "sc_utf8 s ! 0"]
  by (cases "sc_utf8 s") (auto simp: scan_ok_def take_Cons' min_def)

lemma utf8_step_ok:
  assumes "scan_ok s" "sc_state s \<in> {Utf8, EscUtf8}"
  shows "step_ok s (b # bs) (utf8_step s b bs)"
proof -
  define e where "e = (sc_state s = EscUtf8)"
  have v: "view_of s = VUtf8 (stashed s) e" using assms(2) by (auto simp: view_of_def e_def)
  note h = stash_hd [OF assms]
  have need: "sc_utf8_need s = utf8_need (hd (stashed s))" "length (sc_utf8 s) = 4"
    using assms h by (auto simp: scan_ok_def)
  show ?thesis
  proof (cases "cont_byte b")
    case False
    have "agrees (sc_mode s) (VUtf8 (stashed s) e) (b # bs) (controls_of (tl (stashed s))) VGround (b # bs)"
      by (rule agrees_again) (simp add: v_utf8_def False)
    then show ?thesis
      using False assms(1) v by (simp add: utf8_step_def step_ok_def scan_ok_def view_of_def)
  next
    case True
    define s1 where "s1 = s\<lparr>sc_utf8 := (sc_utf8 s)[sc_utf8_len s := b], sc_utf8_len := sc_utf8_len s + 1\<rparr>"
    have st: "stashed s1 = stashed s @ [b]"
      using h need(2) by (simp add: s1_def take_update_snoc)
    show ?thesis
    proof (cases "sc_utf8_len s + 1 = utf8_need (hd (stashed s))")
      case full: True
      define out where "out = (if from_utf8 (stashed s @ [b]) then [if e then EscChar (code_point (stashed s @ [b])) else Text (stashed s @ [b])]
        else controls_of (tl (stashed s @ [b])))"
      have "v_step (sc_mode s) (VUtf8 (stashed s) e) b = (VGround, out)"
        using True full h by (simp add: v_utf8_def out_def)
      then have "agrees (sc_mode s) (VUtf8 (stashed s) e) (b # bs) out VGround bs"
        by (rule agrees_step) simp
      moreover have "utf8_step s b bs = (s1\<lparr>sc_utf8_len := 0, sc_state := Ground\<rparr>, bs, out)"
        using True full need st unfolding utf8_step_def by (simp add: out_def e_def s1_def Let_def)
      ultimately show ?thesis
        using assms(1) v by (simp add: step_ok_def scan_ok_def view_of_def s1_def)
    next
      case False
      have "v_step (sc_mode s) (VUtf8 (stashed s) e) b = (VUtf8 (stashed s @ [b]) e, [])"
        using True False h by (simp add: v_utf8_def)
      then have "agrees (sc_mode s) (VUtf8 (stashed s) e) (b # bs) [] (VUtf8 (stashed s @ [b]) e) bs"
        by (rule agrees_step) simp
      moreover have "utf8_step s b bs = (s1, bs, [])"
        using True False need unfolding utf8_step_def by (simp add: s1_def Let_def)
      moreover have "view_of s1 = VUtf8 (stashed s @ [b]) e"
        using assms(2) st by (auto simp: view_of_def s1_def e_def)
      moreover have "scan_ok s1"
        using assms False need h by (auto simp: scan_ok_def s1_def nth_list_update)
      ultimately show ?thesis
        using v by (simp add: step_ok_def s1_def)
    qed
  qed
qed

lemma consumed_ok:
  assumes "v_step (sc_mode s) (view_of s) b = (view_of (fst r), snd r)" "scan_ok (fst r)" "sc_mode (fst r) = sc_mode s"
  shows "step_ok s (b # bs) (consumed bs r)"
  using assms agrees_step [of "sc_mode s" "view_of s" b "view_of (fst r)" "snd r" "snd r" bs]
  by (simp add: step_ok_def consumed_def)

lemma body_cap_kind:
  "body_cap max_osc_bytes s = kind_cap (sc_mode s) KOsc" "body_cap max_dcs_bytes s = kind_cap (sc_mode s) KDcs"
  "body_cap max_apc_bytes s = kind_cap (sc_mode s) KApc" "max_skip_bytes = kind_cap (sc_mode s) KSkip"
  by (simp_all add: body_cap_def)

text \<open>The state of a body, and the one after an \<open>ESC\<close> in it.\<close>

fun body_state :: "body_kind \<Rightarrow> scan_state" where
  "body_state KOsc = Osc"
| "body_state KDcs = Dcs"
| "body_state KApc = Apc"
| "body_state KSkip = Skip"

fun body_esc_state :: "body_kind \<Rightarrow> scan_state" where
  "body_esc_state KOsc = OscEsc"
| "body_esc_state KDcs = DcsEsc"
| "body_esc_state KApc = ApcEsc"
| "body_esc_state KSkip = SkipEsc"

lemma view_of_body [simp]:
  "sc_state s = body_state k \<Longrightarrow> view_of s = VBody k (sc_body s)"
  "sc_state s = body_esc_state k \<Longrightarrow> view_of s = VBodyEsc k (sc_body s)"
  "sc_state s = Ground \<Longrightarrow> view_of s = VGround"
  by (cases k; simp add: view_of_def)+

lemma body_state_neq [simp]:
  "body_state k \<noteq> Utf8" "body_state k \<noteq> EscUtf8" "body_state k \<noteq> X10Mouse" "body_state k \<noteq> EscInter" "body_state k \<noteq> Ground"
  "body_esc_state k \<noteq> Utf8" "body_esc_state k \<noteq> EscUtf8" "body_esc_state k \<noteq> X10Mouse" "body_esc_state k \<noteq> EscInter"
  by (cases k; simp)+

lemma push_body_view:
  assumes "sc_state s = body_state k"
  shows "view_of (push_body b (kind_cap (sc_mode s) k) s) = v_push (sc_mode s) k (sc_body s) b"
  using assms view_of_body(1) [of "s\<lparr>sc_body := sc_body s @ [b]\<rparr>" k] by (simp add: push_body_def v_push_def)

lemma push_body_fields [simp]:
  "sc_mode (push_body b cap s) = sc_mode s" "sc_utf8 (push_body b cap s) = sc_utf8 s" "sc_x10 (push_body b cap s) = sc_x10 s"
  by (simp_all add: push_body_def)

lemma push_body_ok: "scan_ok s \<Longrightarrow> sc_state s = body_state k \<Longrightarrow> scan_ok (push_body b cap s)"
  by (auto simp: scan_ok_def push_body_def)

lemma body_step_ok:
  assumes "scan_ok s" "sc_state s = body_state k"
    and "k = KOsc \<Longrightarrow> b \<noteq> 0x07 \<and> b \<noteq> 0x9C"
  shows "step_ok s (b # bs) (consumed bs (body_step (body_esc_state k) (kind_cap (sc_mode s) k) s b))"
proof (rule consumed_ok)
  have "view_of (go (body_esc_state k) s) = VBodyEsc k (sc_body s)" by simp
  then show "v_step (sc_mode s) (view_of s) b =
      (view_of (fst (body_step (body_esc_state k) (kind_cap (sc_mode s) k) s b)), snd (body_step (body_esc_state k) (kind_cap (sc_mode s) k) s b))"
    using assms push_body_view [OF assms(2), of b] by (auto simp: body_step_def v_body_def)
  show "scan_ok (fst (body_step (body_esc_state k) (kind_cap (sc_mode s) k) s b))"
  proof (cases "b = 0x1B")
    case True
    then show ?thesis using assms(1) by (simp add: body_step_def scan_ok_def)
  qed (simp add: body_step_def push_body_ok [OF assms(1,2)])
qed (simp add: body_step_def)

lemma body_esc_step_ok:
  assumes "scan_ok s" "sc_state s = body_esc_state k"
    and "\<And>t. t = s \<Longrightarrow> sc_state (fst (finish t)) = Ground \<and> snd (finish t) = kind_seq k (sc_body s) \<and>
      scan_ok (fst (finish t)) \<and> sc_mode (fst (finish t)) = sc_mode s"
  shows "step_ok s (b # bs) (body_esc_step (body_state k) (kind_cap (sc_mode s) k) finish s b bs)"
proof (cases "b = 0x5C")
  case True
  have "agrees (sc_mode s) (VBodyEsc k (sc_body s)) (b # bs) (kind_seq k (sc_body s)) VGround bs"
    by (rule agrees_step) (simp_all add: v_body_esc_def True)
  then show ?thesis
    using True assms by (auto simp: body_esc_step_def step_ok_def case_prod_beta Let_def)
next
  case False
  define t where "t = push_body 0x1B (kind_cap (sc_mode s) k) (go (body_state k) s)"
  have t: "view_of t = v_push (sc_mode s) k (sc_body s) 0x1B"
    using push_body_view [of "go (body_state k) s" k "0x1B"] by (simp add: t_def)
  have "agrees (sc_mode s) (VBodyEsc k (sc_body s)) (b # bs) [] (view_of t) (b # bs)"
    by (rule agrees_again) (simp add: v_body_esc_def False t v_push_def then_out_def)
  moreover have "scan_ok t"
    unfolding t_def by (rule push_body_ok [of _ k]) (use assms(1) in \<open>auto simp: scan_ok_def\<close>)
  ultimately show ?thesis
    using False assms(2) by (simp add: body_esc_step_def step_ok_def t_def)
qed


lemma osc_step_ok:
  assumes "scan_ok s" "sc_state s = Osc"
  shows "step_ok s (b # bs) (consumed bs (osc_step s b))"
proof (cases "b = 0x07 \<or> b = 0x9C")
  case True
  then show ?thesis
    using assms by (intro consumed_ok) (auto simp: osc_step_def v_body_def view_of_def scan_ok_def)
next
  case False
  then have "osc_step s b = body_step OscEsc (kind_cap (sc_mode s) KOsc) s b"
    by (simp add: osc_step_def body_step_def body_cap_kind)
  then show ?thesis
    using body_step_ok [OF assms(1), of KOsc b bs] assms(2) False by simp
qed

lemma esc_step_ok:
  assumes "scan_ok s" "sc_state s = InEsc"
  shows "step_ok s (b # bs) (consumed bs (esc_step s b))"
proof (rule consumed_ok)
  have v: "view_of s = VEsc" using assms(2) by (simp add: view_of_def)
  have four: "length (sc_utf8 s) = 4" using assms(1) by (simp add: scan_ok_def)
  then have st: "take (Suc 0) ((sc_utf8 s)[0 := b]) = [b]" by (cases "sc_utf8 s") auto
  have i: "inter_byte b \<Longrightarrow> b \<noteq> 0" by (auto simp: inter_byte_def)
  note n = byte_facts(2) [of b]
  have two: "0 < utf8_need b \<Longrightarrow> 1 < utf8_need b" by (auto simp: utf8_need_def split: if_splits)
  show "v_step (sc_mode s) (view_of s) b = (view_of (fst (esc_step s b)), snd (esc_step s b))"
    using assms(2) v st
    by (cases "sc_mode s") (auto simp: esc_step_def esc_output_def esc_input_def v_esc_def open_body_def view_of_def)
  show "scan_ok (fst (esc_step s b))"
    using assms four i two
    by (cases "sc_mode s") (auto simp: esc_step_def esc_output_def esc_input_def open_body_def scan_ok_def)
  show "sc_mode (fst (esc_step s b)) = sc_mode s"
    by (cases "sc_mode s") (auto simp: esc_step_def esc_output_def esc_input_def open_body_def)
qed

lemma esc_inter_step_ok:
  assumes "scan_ok s" "sc_state s = EscInter"
  shows "step_ok s (b # bs) (consumed bs (esc_inter_step s b))"
proof (rule consumed_ok)
  have "sc_inter s \<noteq> 0" using assms by (simp add: scan_ok_def)
  then show "v_step (sc_mode s) (view_of s) b = (view_of (fst (esc_inter_step s b)), snd (esc_inter_step s b))"
    using assms(2) by (auto simp: esc_inter_step_def view_of_def params_inter_extra_def)
  show "scan_ok (fst (esc_inter_step s b))"
    using assms by (auto simp: esc_inter_step_def params_inter_extra_def scan_ok_def)
qed (auto simp: esc_inter_step_def params_inter_extra_def)

lemma csi_step_ok:
  assumes "scan_ok s" "sc_state s = Csi"
  shows "step_ok s (b # bs) (consumed bs (csi_step s b))"
proof (rule consumed_ok)
  show "v_step (sc_mode s) (view_of s) b = (view_of (fst (csi_step s b)), snd (csi_step s b))"
    using assms(2) by (auto simp: csi_step_def v_csi_def view_of_def Let_def split: option.splits)
  show "scan_ok (fst (csi_step s b))"
    using assms by (auto simp: csi_step_def scan_ok_def Let_def split: option.splits)
  show "sc_mode (fst (csi_step s b)) = sc_mode s"
    by (auto simp: csi_step_def Let_def split: option.splits)
qed

lemma maybe_apc_ok:
  assumes "scan_ok s" "sc_state s = MaybeApc"
  shows "step_ok s (b # bs) (scan_step s b bs)"
proof -
  have "agrees (sc_mode s) (VMaybe KApc) (b # bs) [] (VBody KApc [b]) bs" if "b = 0x47"
    by (rule agrees_one) (simp_all add: that)
  moreover have "agrees (sc_mode s) (VMaybe KApc) (b # bs) [EscChar 0x5F] VGround (b # bs)" if "b \<noteq> 0x47"
    by (rule agrees_again) (simp add: that)
  ultimately show ?thesis
    using assms by (auto simp: scan_step_def step_ok_def view_of_def scan_ok_def)
qed

lemma maybe_step_ok:
  assumes "scan_ok s" "sc_state s \<in> {MaybeDcs, MaybeOsc}"
  shows "step_ok s (b # bs) (scan_step s b bs)"
proof -
  have dcs: "agrees (sc_mode s) (VMaybe KDcs) (b # bs) out v (b # bs)"
    if "(v, out) = (if b = 0x3E then (VBody KDcs [], []) else (VGround, [EscChar 0x50]))" for v out
    by (rule agrees_again) (use that in \<open>simp add: then_out_def split: if_splits\<close>)
  have osc: "agrees (sc_mode s) (VMaybe KOsc) (b # bs) out v (b # bs)"
    if "(v, out) = (if digit_byte b then (VBody KOsc [], []) else (VGround, [EscChar 0x5D]))" for v out
    by (rule agrees_again) (use that in \<open>simp add: then_out_def split: if_splits\<close>)
  have keep: "scan_ok (go Ground s)" "scan_ok (s\<lparr>sc_body := [], sc_state := Osc\<rparr>)" "scan_ok (s\<lparr>sc_body := [], sc_state := Dcs\<rparr>)"
    using assms(1) by (simp_all add: scan_ok_def)
  consider "sc_state s = MaybeDcs" | "sc_state s = MaybeOsc" using assms(2) by auto
  then show ?thesis
  proof cases
    case 1
    then show ?thesis
      using keep dcs [of "view_of (open_body Dcs s)" "[]"] dcs [of VGround "[EscChar 0x50]"]
      by (cases "b = 0x3E") (simp_all add: scan_step_def maybe_step_def step_ok_def view_of_def open_body_def)
  next
    case 2
    then show ?thesis
      using keep osc [of "view_of (open_body Osc s)" "[]"] osc [of VGround "[EscChar 0x5D]"]
      by (cases "digit_byte b") (simp_all add: scan_step_def maybe_step_def step_ok_def view_of_def open_body_def)
  qed
qed

lemma ss3_ok:
  assumes "scan_ok s" "sc_state s = Ss3"
  shows "step_ok s (b # bs) (scan_step s b bs)"
proof -
  have "agrees (sc_mode s) VSs3 (b # bs) [Ss3Seq b] VGround bs" by (rule agrees_one) simp_all
  then show ?thesis
    using assms by (simp add: scan_step_def step_ok_def view_of_def scan_ok_def)
qed

lemma x10_ok:
  assumes "scan_ok s" "sc_state s = X10Mouse"
  shows "step_ok s (b # bs) (scan_step s b bs)"
proof -
  define xs where "xs = take (sc_x10_len s) (sc_x10 s)"
  have len: "length (sc_x10 s) = 2" "length xs = sc_x10_len s" "sc_x10_len s \<le> 2"
    using assms by (auto simp: scan_ok_def xs_def)
  have all: "sc_x10_len s = 2 \<Longrightarrow> xs = sc_x10 s" using len by (simp add: xs_def)
  have "agrees (sc_mode s) (VX10 xs) (b # bs) [] (VX10 (xs @ [b])) bs" if "sc_x10_len s < 2"
    by (rule agrees_one) (use that len in simp_all)
  moreover have "agrees (sc_mode s) (VX10 xs) (b # bs) [X10Seq (sc_x10 s ! 0) (sc_x10 s ! 1) b] VGround bs" if "\<not> sc_x10_len s < 2"
    by (rule agrees_one) (use that len all in simp_all)
  moreover have "sc_x10_len s < 2 \<Longrightarrow> take (Suc (sc_x10_len s)) ((sc_x10 s)[sc_x10_len s := b]) = xs @ [b]"
    using len by (simp add: take_update_snoc xs_def)
  ultimately show ?thesis
    using assms len by (auto simp: scan_step_def step_ok_def view_of_def scan_ok_def simp flip: xs_def)
qed

lemma scan_step_ok:
  assumes "scan_ok s"
  shows "step_ok s (b # bs) (scan_step s b bs)"
proof (cases "sc_state s")
  case Osc
  then show ?thesis using osc_step_ok [OF assms] by (simp add: scan_step_def)
next
  case OscEsc
  then show ?thesis
    using body_esc_step_ok [OF assms, of KOsc "\<lambda>s. (go Ground s, [OscSeq (sc_body s)])" b bs] assms
    by (simp add: scan_step_def body_cap_kind scan_ok_def)
next
  case Dcs
  then show ?thesis using body_step_ok [OF assms, of KDcs b bs] by (simp add: scan_step_def body_cap_kind)
next
  case DcsEsc
  then show ?thesis
    using body_esc_step_ok [OF assms, of KDcs "\<lambda>s. (go Ground s, [DcsSeq (sc_body s)])" b bs] assms
    by (simp add: scan_step_def body_cap_kind scan_ok_def)
next
  case Apc
  then show ?thesis using body_step_ok [OF assms, of KApc b bs] by (simp add: scan_step_def body_cap_kind)
next
  case ApcEsc
  then show ?thesis
    using body_esc_step_ok [OF assms, of KApc "\<lambda>s. (go Ground s, [ApcSeq (sc_body s)])" b bs] assms
    by (simp add: scan_step_def body_cap_kind scan_ok_def)
next
  case Skip
  then show ?thesis using body_step_ok [OF assms, of KSkip b bs] by (simp add: scan_step_def)
next
  case SkipEsc
  then show ?thesis
    using body_esc_step_ok [OF assms, of KSkip "\<lambda>s. (s\<lparr>sc_body := [], sc_state := Ground\<rparr>, [])" b bs] assms
    by (simp add: scan_step_def scan_ok_def)
next
  case Ground
  then show ?thesis using ground_step_ok [OF assms] by (simp add: scan_step_def)
next
  case Utf8
  then show ?thesis using utf8_step_ok [OF assms] by (simp add: scan_step_def)
next
  case EscUtf8
  then show ?thesis using utf8_step_ok [OF assms] by (simp add: scan_step_def)
next
  case InEsc
  then show ?thesis using esc_step_ok [OF assms] by (simp add: scan_step_def)
next
  case EscInter
  then show ?thesis using esc_inter_step_ok [OF assms] by (simp add: scan_step_def)
next
  case Csi
  then show ?thesis using csi_step_ok [OF assms] by (simp add: scan_step_def)
qed (use maybe_apc_ok [OF assms] maybe_step_ok [OF assms] ss3_ok [OF assms] x10_ok [OF assms] in simp_all)

section \<open>A chunk\<close>

text \<open>Feeding a chunk is feeding its bytes one by one.\<close>

lemma feed_bytes:
  assumes "scan_ok s"
  shows "scan_ok (fst (scan_feed s bs)) \<and> sc_mode (fst (scan_feed s bs)) = sc_mode s \<and>
    view_of (fst (scan_feed s bs)) = fst (v_feed (sc_mode s) (view_of s) bs) \<and>
    items (snd (scan_feed s bs)) = items (snd (v_feed (sc_mode s) (view_of s) bs))"
  using assms
proof (induction s bs rule: scan_feed.induct)
  case (2 s b bs)
  obtain s1 left out where step: "scan_step s b bs = (s1, left, out)" by (cases "scan_step s b bs")
  have ok: "scan_ok s1" "sc_mode s1 = sc_mode s" "agrees (sc_mode s) (view_of s) (b # bs) out (view_of s1) left"
    using scan_step_ok [OF 2(2), of b bs] step by (simp_all add: step_ok_def)
  note IH = 2(1) [OF step [symmetric] refl ok(1)]
  show ?case
    using IH ok by (simp add: scan_feed.simps(2) step case_prod_beta agrees_def)
qed simp

end
