(* ===== verification/Vt_Pending.thy ===== *)
theory Vt_Pending
  imports Vt_Bytes
begin

text \<open>
  What the clients of the scanner rely on: the items do not depend on how a stream is cut into chunks,
  the pending bytes of a scanner bring a fresh one to the same point, text is valid UTF-8 and bodies
  stay within their caps.
\<close>

section \<open>The pending bytes of a view\<close>

fun opener :: "body_kind \<Rightarrow> byte" where
  "opener KOsc = 0x5D"
| "opener KDcs = 0x50"
| "opener KApc = 0x5F"
| "opener KSkip = 0x58"

fun v_pending :: "view \<Rightarrow> byte list" where
  "v_pending VGround = []"
| "v_pending (VUtf8 cs e) = (if e then [0x1B] else []) @ cs"
| "v_pending VEsc = [0x1B]"
| "v_pending (VEscInter i) = 0x1B # (if i = 0xFF then [0x20, 0x20] else [i])"
| "v_pending (VCsi p) = [0x1B, 0x5B] @ write_unfinished p"
| "v_pending (VBody k body) = [0x1B, opener k] @ body"
| "v_pending (VBodyEsc k body) = [0x1B, opener k] @ body @ [0x1B]"
| "v_pending (VMaybe k) = [0x1B, opener k]"
| "v_pending VSs3 = [0x1B, 0x4F]"
| "v_pending (VX10 xs) = [0x1B, 0x5B, 0x4D] @ xs"

lemma pending_view: "pending s = v_pending (view_of s)"
  by (cases "sc_state s") (simp_all add: pending_def view_of_def)

text \<open>What every view of a running scanner obeys.\<close>

fun view_bounds :: "scan_mode \<Rightarrow> view \<Rightarrow> bool" where
  "view_bounds m (VEscInter i) = (m = ModeOutput)"
| "view_bounds m (VCsi p) = params_ok p"
| "view_bounds m (VBody k body) = (length body \<le> kind_cap m k)"
| "view_bounds m (VBodyEsc k body) = (length body \<le> kind_cap m k)"
| "view_bounds m _ = True"

definition replays :: "scan_mode \<Rightarrow> view \<Rightarrow> bool" where
  "replays m v = (v_feed m VGround (v_pending v) = (v, []))"

definition view_ok :: "scan_mode \<Rightarrow> view \<Rightarrow> bool" where
  "view_ok m v = (view_bounds m v \<and> replays m v)"

section \<open>Views that replay\<close>

lemma v_ground_esc [simp]: "v_ground 0x1B = (VEsc, [])"
  by (simp add: v_ground_def)

lemma kind_cap_pos: "0 < kind_cap m k"
  by (cases k; cases m) (simp_all add: max_osc_bytes_def max_dcs_bytes_def max_apc_bytes_def max_skip_bytes_def max_input_reply_bytes_def)

lemma replays_more:
  "replays m v \<Longrightarrow> v_step m v b = (v', []) \<Longrightarrow> v_pending v' = v_pending v @ [b] \<Longrightarrow> replays m v'"
  by (simp add: replays_def v_feed_append then_out_def)

lemma replays_ground [simp]: "replays m VGround"
  by (simp add: replays_def)

lemma ok_ground [simp]: "view_ok m VGround"
  by (simp add: view_ok_def replays_def)

lemma ok_esc [simp]: "view_ok m VEsc"
  by (simp add: view_ok_def replays_def then_out_def)

lemma ok_v_ground: "view_ok m (fst (v_ground b))"
  using byte_facts(2) [of b] by (auto simp: v_ground_def view_ok_def replays_def then_out_def)

lemma ok_v_utf8:
  assumes "view_ok m (VUtf8 cs e)"
  shows "view_ok m (fst (v_utf8 cs e b))"
proof (cases "cont_byte b \<and> length cs + 1 \<noteq> utf8_need (hd cs)")
  case True
  then have s: "v_step m (VUtf8 cs e) b = (VUtf8 (cs @ [b]) e, [])" by (simp add: v_utf8_def)
  then have "replays m (VUtf8 (cs @ [b]) e)"
    using assms by (intro replays_more [OF _ s]) (simp_all add: view_ok_def)
  then show ?thesis using s by (simp add: view_ok_def)
qed (auto simp: v_utf8_def then_out_def ok_v_ground)

lemma ok_v_esc: "view_ok m (fst (v_esc m b))"
proof -
  have two: "0 < utf8_need b \<Longrightarrow> \<not> b < 0x80" using byte_facts(2) [of b] by auto
  have par: "params_ok params_default \<and> write_unfinished params_default = []"
    by (simp add: params_ok_default write_unfinished_def) (simp add: params_default_def written_inter_def)
  have eight: "\<not> b < 0x80 \<Longrightarrow> b \<noteq> 0x5B \<and> b \<noteq> 0x1B \<and> b \<noteq> 0x4F \<and> b \<noteq> 0x5F \<and> b \<noteq> 0x50 \<and> b \<noteq> 0x5D"
    by auto
  have inter: "inter_byte b \<Longrightarrow> b \<noteq> 0xFF \<and> b \<noteq> 0x5B \<and> b \<noteq> 0x1B" by (auto simp: inter_byte_def)
  show ?thesis
  proof (cases m)
    case ModeOutput
    then show ?thesis
      using par inter by (auto simp: v_esc_def view_ok_def replays_def then_out_def inter_byte_def)
  next
    case ModeInput
    then show ?thesis
      using par eight two by (auto simp: v_esc_def view_ok_def replays_def then_out_def)
  qed
qed

lemma ok_v_csi:
  assumes "view_ok m (VCsi p)"
  shows "view_ok m (fst (v_csi m p b))"
proof -
  have csi: "view_ok m (VCsi q)" if "params_ok q" for q
  proof -
    have run: "v_feed m (VCsi r) bs = (VCsi q', [])" if "param_bytes bs r = Some q'" for bs r q'
      using that by (induction bs arbitrary: r) (auto simp: v_csi_def then_out_def split: option.splits)
    show ?thesis
      using run [OF write_unfinished_read [OF that]] that
      by (simp add: view_ok_def replays_def then_out_def v_esc_def)
  qed
  have x10: "view_ok ModeInput (VX10 [])"
    by (simp add: view_ok_def replays_def then_out_def v_esc_def v_csi_def param_byte_def is_bare_def params_default_def
        digit_byte_def prefix_byte_def inter_byte_def)
  show ?thesis
  proof (cases "param_byte b p")
    case None
    have "view_ok m (VX10 [])" if "m = ModeInput" using x10 that by simp
    then show ?thesis using None assms by (simp add: v_csi_def)
  next
    case (Some q)
    then show ?thesis using csi [OF params_ok_byte [OF _ Some]] assms by (simp add: v_csi_def view_ok_def)
  qed
qed

lemma ok_v_body:
  assumes "view_ok m (VBody k body)"
  shows "view_ok m (fst (v_body m k body b))"
proof -
  have "replays m (VBody k (body @ [b]))" if "v_step m (VBody k body) b = (VBody k (body @ [b]), [])"
    using assms by (intro replays_more [OF _ that]) (simp_all add: view_ok_def)
  moreover have "replays m (VBodyEsc k body)" if "v_step m (VBody k body) b = (VBodyEsc k body, [])" "b = 0x1B"
    using assms that(2) by (intro replays_more [OF _ that(1)]) (simp_all add: view_ok_def)
  ultimately show ?thesis
    using assms by (auto simp: v_body_def v_push_def view_ok_def)
qed


lemma ok_v_body_esc:
  assumes "view_ok m (VBodyEsc k body)"
  shows "view_ok m (fst (v_body_esc m k body b))"
proof (cases "b = 0x5C \<or> kind_cap m k \<le> length body")
  case False
  have "replays m (VBodyEsc k body)" "length body + 1 \<le> kind_cap m k" using assms False by (simp_all add: view_ok_def)
  moreover have "replays m (VBody k (body @ [0x1B, b]))" if "v_step m (VBodyEsc k body) b = (VBody k (body @ [0x1B, b]), [])"
    using replays_more [OF calculation(1) that] by simp
  moreover have "replays m (VBodyEsc k (body @ [0x1B]))"
    if "v_step m (VBodyEsc k body) b = (VBodyEsc k (body @ [0x1B]), [])" "b = 0x1B"
    using replays_more [OF calculation(1) that(1)] that(2) by simp
  ultimately show ?thesis
    using False by (auto simp: v_body_esc_def v_body_def v_push_def view_ok_def)
qed (auto simp: v_body_esc_def ok_v_ground)

lemma ok_v_maybe:
  assumes "view_ok m (VMaybe k)"
  shows "view_ok m (fst (v_maybe m k b))"
proof -
  have one: "view_ok m (VBody k [b])" if "v_step m (VMaybe k) b = (VBody k [b], [])"
    using replays_more [OF _ that] assms kind_cap_pos [of m k] by (simp add: view_ok_def)
  have "kind_cap m k \<noteq> 0" for k using kind_cap_pos [of m k] by simp
  then show ?thesis
    using one ok_v_ground byte_facts
    by (cases k) (auto simp: v_body_def v_push_def then_out_def digit_byte_def)
qed

lemma ok_v_inter:
  assumes "view_ok m (VEscInter i)" "inter_byte b"
  shows "view_ok m (VEscInter 0xFF)"
  using assms by (simp add: view_ok_def replays_def then_out_def v_esc_def inter_byte_def)

lemma ok_x10:
  assumes "view_ok m (VX10 xs)" "length xs < 2"
  shows "view_ok m (VX10 (xs @ [b]))"
proof -
  have "v_step m (VX10 xs) b = (VX10 (xs @ [b]), [])" using assms(2) by simp
  from replays_more [OF _ this] show ?thesis using assms(1) by (simp add: view_ok_def)
qed

lemma ok_v_step: "view_ok m v \<Longrightarrow> view_ok m (fst (v_step m v b))"
  by (cases v)
    (simp_all add: ok_v_ground ok_v_utf8 ok_v_esc ok_v_csi ok_v_body ok_v_body_esc ok_v_maybe ok_v_inter ok_x10)

lemma ok_v_feed: "view_ok m v \<Longrightarrow> view_ok m (fst (v_feed m v bs))"
  by (induction bs arbitrary: v) (simp_all add: then_out_def ok_v_step)

section \<open>A scanner at work\<close>

text \<open>A scanner between its calls: chunks come in, and a lone escape is flushed.\<close>

datatype scan_call = Chunk "byte list" | Flushed

fun scan_calls :: "scan_call list \<Rightarrow> scanner \<Rightarrow> scanner \<times> seq list" where
  "scan_calls [] s = (s, [])"
| "scan_calls (Chunk bs # calls) s =
     (case scan_feed s bs of (s1, out) \<Rightarrow> case scan_calls calls s1 of (s2, out') \<Rightarrow> (s2, out @ out'))"
| "scan_calls (Flushed # calls) s =
     (case scan_flush s of (s1, out) \<Rightarrow> case scan_calls calls s1 of (s2, out') \<Rightarrow> (s2, out @ out'))"

definition scan_after :: "scan_mode \<Rightarrow> scan_call list \<Rightarrow> scanner" where
  "scan_after m calls = fst (scan_calls calls (scanner_new m))"

definition scan_inv :: "scan_mode \<Rightarrow> scanner \<Rightarrow> bool" where
  "scan_inv m s = (scan_ok s \<and> sc_mode s = m \<and> view_ok m (view_of s))"

lemma scan_inv_new: "scan_inv m (scanner_new m)"
  by (simp add: scan_inv_def scan_ok_def scanner_new_def)

lemma scan_inv_feed: "scan_inv m s \<Longrightarrow> scan_inv m (fst (scan_feed s bs))"
  using feed_bytes [of s bs] ok_v_feed by (auto simp: scan_inv_def)

lemma scan_inv_flush: "scan_inv m s \<Longrightarrow> scan_inv m (fst (scan_flush s))"
  by (cases "sc_state s") (auto simp: scan_flush_def scan_inv_def scan_ok_def)

lemma scan_inv_calls: "scan_inv m s \<Longrightarrow> scan_inv m (fst (scan_calls calls s))"
proof (induction calls arbitrary: s)
  case (Cons c calls)
  then show ?case
    using scan_inv_feed [of m s] scan_inv_flush [of m s] by (cases c) (simp_all add: case_prod_beta)
qed simp

lemma scan_inv_after: "scan_inv m (scan_after m calls)"
  unfolding scan_after_def by (rule scan_inv_calls [OF scan_inv_new])

lemma feed_inv:
  assumes "scan_inv m s"
  shows "view_of (fst (scan_feed s bs)) = fst (v_feed m (view_of s) bs)"
    and "items (snd (scan_feed s bs)) = items (snd (v_feed m (view_of s) bs))"
  using feed_bytes [of s bs] assms by (auto simp: scan_inv_def)

section \<open>Chunks\<close>

lemma scan_chunks_view:
  assumes "scan_inv m s"
  shows "view_of (fst (scan_calls (map Chunk chunks) s)) = fst (v_feed m (view_of s) (concat chunks)) \<and>
    items (snd (scan_calls (map Chunk chunks) s)) = items (snd (v_feed m (view_of s) (concat chunks)))"
  using assms
proof (induction chunks arbitrary: s)
  case (Cons bs chunks)
  then show ?case
    using Cons.IH [OF scan_inv_feed [OF Cons.prems, of bs]] feed_inv [OF Cons.prems, of bs]
    by (simp add: case_prod_beta v_feed_append then_out_def)
qed simp

text \<open>
  C27. However a stream of bytes is cut into chunks, the scanner ends at the same point and has handed on
  the same items, text byte by byte: whatever calls came before, and wherever the cuts fall, inside a
  character, an escape sequence or the terminator of a body.
\<close>
theorem chunks_do_not_matter:
  "items (snd (scan_calls (map Chunk chunks) (scan_after m calls))) =
     items (snd (scan_feed (scan_after m calls) (concat chunks))) \<and>
   view_of (fst (scan_calls (map Chunk chunks) (scan_after m calls))) =
     view_of (fst (scan_feed (scan_after m calls) (concat chunks)))"
  using scan_chunks_view [OF scan_inv_after] feed_inv [OF scan_inv_after] by simp

section \<open>What is handed on\<close>

definition text_ok :: "byte list \<Rightarrow> bool" where
  "text_ok bs = (bs \<noteq> [] \<and> from_utf8 bs \<and> list_all (\<lambda>b. 0x20 \<le> b \<and> b \<noteq> 0x7F) bs)"

fun seq_text_ok :: "seq \<Rightarrow> bool" where
  "seq_text_ok (Text bs) = text_ok bs"
| "seq_text_ok s = True"

fun seq_body_ok :: "scan_mode \<Rightarrow> seq \<Rightarrow> bool" where
  "seq_body_ok m (OscSeq bs) = (length bs \<le> kind_cap m KOsc)"
| "seq_body_ok m (DcsSeq bs) = (length bs \<le> kind_cap m KDcs)"
| "seq_body_ok m (ApcSeq bs) = (length bs \<le> kind_cap m KApc)"
| "seq_body_ok m s = True"

lemma from_utf8_append: "from_utf8 as \<Longrightarrow> from_utf8 bs \<Longrightarrow> from_utf8 (as @ bs)"
proof (induction as rule: from_utf8.induct)
  case (2 b as)
  then have "utf8_len b \<noteq> 0" "utf8_len b \<le> length (b # as)" "utf8_char (take (utf8_len b) (b # as))"
    "from_utf8 (drop (utf8_len b) (b # as))"
    by (auto simp: from_utf8.simps(2) [of b as] split: if_splits)
  moreover from this 2 have "from_utf8 (drop (utf8_len b) (b # as) @ bs)" by simp
  moreover have "take (utf8_len b) (b # as @ bs) = take (utf8_len b) (b # as)"
    "drop (utf8_len b) (b # as @ bs) = drop (utf8_len b) (b # as) @ bs"
    using calculation(1,2) by (cases "utf8_len b"; simp)+
  ultimately show ?case by (simp add: from_utf8.simps(2) [of b "as @ bs"])
qed simp

lemma text_ok_char:
  assumes "from_utf8 cs" "length cs = utf8_need (hd cs)" "0 < utf8_need (hd cs)"
  shows "text_ok cs"
proof -
  obtain b bs where b: "cs = b # bs" using assms(2,3) by (cases cs) auto
  have "list_all cont_byte bs \<and> 0xC2 \<le> b"
    using utf8_char_length [OF from_utf8_char [OF assms]] byte_facts(2) [of b] assms(3) b by (auto simp: not_less)
  then show ?thesis
    using assms(1) b byte_facts(1) byte_facts(4) [of b] by (auto simp: text_ok_def list_all_iff not_less)
qed

lemma text_run_ok: "from_utf8 (text_run bs) \<and> list_all (\<lambda>b. 0x20 \<le> b \<and> b \<noteq> 0x7F) (text_run bs)"
proof (induction bs rule: length_induct)
  case (1 bs)
  show ?case
  proof (cases bs)
    case (Cons b cs)
    show ?thesis
    proof (cases rule: text_run_cases [of b cs])
      case print
      then have "from_utf8 ([b] @ text_run cs)"
        by (intro from_utf8_append) (use 1 Cons byte_facts(3) [of b] in \<open>simp_all add: from_utf8.simps(2) utf8_len_def\<close>)
      moreover have "0x20 \<le> b \<and> b \<noteq> 0x7F" using print by (auto simp: print_byte_def)
      ultimately show ?thesis using 1 [rule_format, of cs] Cons print by simp
    next
      case char
      let ?n = "utf8_need b"
      have "hd (take ?n (b # cs)) = b" using char by (cases ?n) auto
      then have "text_ok (take ?n (b # cs))"
        by (intro text_ok_char) (use char in \<open>auto simp: min_def\<close>)
      then show ?thesis
        using 1 [rule_format, of "drop ?n (b # cs)"] char Cons from_utf8_append
        by (simp add: text_ok_def)
    qed (use Cons in simp)
  qed simp
qed

lemma controls_text_ok: "list_all seq_text_ok (controls_of bs)"
  by (induction bs) (simp_all add: controls_of_def)

lemma utf8_step_text:
  assumes "scan_ok s" "sc_state s \<in> {Utf8, EscUtf8}"
  shows "list_all seq_text_ok (snd (snd (utf8_step s b bs)))"
proof -
  define s1 where "s1 = s\<lparr>sc_utf8 := (sc_utf8 s)[sc_utf8_len s := b], sc_utf8_len := sc_utf8_len s + 1\<rparr>"
  note h = stash_hd [OF assms]
  have st: "stashed s1 = stashed s @ [b]" "stashed s \<noteq> []"
    using h assms by (auto simp: s1_def take_update_snoc scan_ok_def)
  have "text_ok (stashed s1)" if "sc_utf8_len s1 = sc_utf8_need s1" "from_utf8 (stashed s1)"
  proof (rule text_ok_char [OF that(2)])
    show "length (stashed s1) = utf8_need (hd (stashed s1))" "0 < utf8_need (hd (stashed s1))"
      using that(1) h st assms by (auto simp: s1_def scan_ok_def)
  qed
  then show ?thesis
    by (auto simp: utf8_step_def controls_text_ok Let_def s1_def)
qed

lemma scan_step_text:
  assumes "scan_ok s"
  shows "list_all seq_text_ok (snd (snd (scan_step s b bs)))"
proof (cases "sc_state s")
  case Ground
  then show ?thesis
    using text_run_ok [of "b # bs"] by (auto simp: scan_step_def ground_step_def text_ok_def Let_def)
next
  case InEsc
  then show ?thesis
    by (cases "sc_mode s") (auto simp: scan_step_def consumed_def esc_step_def esc_output_def esc_input_def)
next
  case Csi
  then show ?thesis
    by (auto simp: scan_step_def consumed_def csi_step_def Let_def split: option.splits)
qed (use assms utf8_step_text [OF assms, of b bs] in
  \<open>auto simp: scan_step_def consumed_def esc_inter_step_def osc_step_def body_step_def body_esc_step_def maybe_step_def Let_def\<close>)

lemma feed_text: "scan_ok s \<Longrightarrow> list_all seq_text_ok (snd (scan_feed s bs))"
proof (induction s bs rule: scan_feed.induct)
  case (2 s b bs)
  obtain s1 left out where step: "scan_step s b bs = (s1, left, out)" by (cases "scan_step s b bs")
  have "scan_ok s1" using scan_step_ok [OF 2(2), of b bs] step by (simp add: step_ok_def)
  then show ?case
    using 2(1) [OF step [symmetric] refl] scan_step_text [OF 2(2), of b bs] step
    by (simp add: scan_feed.simps(2) case_prod_beta)
qed simp

lemma items_Nil: "list_all seq_text_ok out \<Longrightarrow> items out = [] \<Longrightarrow> out = []"
  by (cases out; cases "hd out") (auto simp: text_ok_def)

text \<open>
  C28. The pending bytes of a scanner, whatever it has been fed, bring a fresh scanner of its mode to the
  same point without handing anything on, and from there the two hand on the same items for whatever comes.
\<close>
theorem pending_restores:
  "let s = scan_after m calls; r = scan_feed (scanner_new m) (pending s)
   in snd r = [] \<and> view_of (fst r) = view_of s \<and> items (snd (scan_feed (fst r) bs)) = items (snd (scan_feed s bs))"
proof -
  let ?s = "scan_after m calls" and ?r = "scan_feed (scanner_new m) (pending (scan_after m calls))"
  have "view_of (scanner_new m) = VGround" by (simp add: scanner_new_def)
  moreover have "v_feed m VGround (pending ?s) = (view_of ?s, [])"
    using scan_inv_after [of m calls] by (simp add: scan_inv_def view_ok_def replays_def pending_view)
  ultimately have r: "view_of (fst ?r) = view_of ?s" "items (snd ?r) = []"
    using feed_inv [OF scan_inv_new, of m "pending ?s"] by simp_all
  moreover have "list_all seq_text_ok (snd ?r)"
    by (rule feed_text) (use scan_inv_new in \<open>simp add: scan_inv_def\<close>)
  ultimately show ?thesis
    using items_Nil [of "snd ?r"] feed_inv [OF scan_inv_feed [OF scan_inv_new], of m "pending ?s" bs] feed_inv [OF scan_inv_after, of m calls bs]
    by (simp add: Let_def)
qed



lemma v_ground_body: "list_all (seq_body_ok m) (snd (v_ground b))"
  by (simp add: v_ground_def)

lemma controls_body: "list_all (seq_body_ok m) (controls_of bs)"
  by (induction bs) (simp_all add: controls_of_def)

lemma kind_seq_body: "length body \<le> kind_cap m k \<Longrightarrow> list_all (seq_body_ok m) (kind_seq k body)"
  by (cases k) simp_all

lemma v_body_body:
  "length body \<le> kind_cap m k \<Longrightarrow> list_all (seq_body_ok m) (snd (v_body m k body b))"
  by (auto simp: v_body_def kind_seq_body simp del: kind_cap.simps)

lemma v_step_body:
  assumes "view_bounds m v"
  shows "list_all (seq_body_ok m) (snd (v_step m v b))"
proof (cases v)
  case (VUtf8 cs e)
  then show ?thesis by (simp add: v_utf8_def then_out_def controls_body v_ground_body)
next
  case VEsc
  then show ?thesis by (cases m) (simp_all add: v_esc_def)
next
  case (VCsi p)
  then show ?thesis by (simp add: v_csi_def split: option.split)
next
  case (VBody k body)
  then show ?thesis using assms by (simp add: v_body_body)
next
  case (VBodyEsc k body)
  then show ?thesis using assms by (simp add: v_body_esc_def kind_seq_body v_ground_body v_body_body)
next
  case (VMaybe k)
  then show ?thesis by (cases k) (simp_all add: then_out_def v_ground_body v_body_body del: kind_cap.simps)
qed (simp_all add: v_ground_body)

lemma v_feed_body: "view_ok m v \<Longrightarrow> list_all (seq_body_ok m) (snd (v_feed m v bs))"
proof (induction bs arbitrary: v)
  case (Cons b bs)
  have "view_ok m (fst (v_step m v b))" by (rule ok_v_step [OF Cons.prems])
  moreover have "list_all (seq_body_ok m) (snd (v_step m v b))"
    by (rule v_step_body) (use Cons.prems in \<open>simp add: view_ok_def\<close>)
  ultimately show ?case using Cons.IH by (simp add: then_out_def)
qed simp

fun item_body_ok :: "scan_mode \<Rightarrow> byte + seq \<Rightarrow> bool" where
  "item_body_ok m (Inl b) = True"
| "item_body_ok m (Inr s) = seq_body_ok m s"

lemma items_body: "list_all (item_body_ok m) (items out) = list_all (seq_body_ok m) out"
proof (induction out)
  case (Cons s out)
  have "list_all (item_body_ok m) (seq_items s) = seq_body_ok m s"
    by (cases s) (simp_all add: list_all_iff)
  then show ?case using Cons by simp
qed simp

text \<open>
  C30. No body outgrows its cap: what the scanner holds of an unfinished control string, and every body it
  hands on, is at most the cap of its kind in the scanner's mode, whatever comes in.
\<close>
theorem bodies_within_caps:
  "view_bounds m (view_of (scan_after m calls)) \<and>
   list_all (seq_body_ok m) (snd (scan_feed (scan_after m calls) bs))"
proof -
  have "view_ok m (view_of (scan_after m calls))"
    using scan_inv_after [of m calls] by (simp add: scan_inv_def)
  moreover have "list_all (seq_body_ok m) (snd (scan_feed (scan_after m calls) bs))"
    using v_feed_body [OF calculation] feed_inv(2) [OF scan_inv_after, of m calls bs] by (metis items_body)
  ultimately show ?thesis by (simp add: view_ok_def)
qed


section \<open>A title cut inside a character\<close>


end
