(* ===== verification/Term_Cell.thy ===== *)
theory Term_Cell
  imports Vt_Scan
begin

unbundle bit_operations_syntax

text \<open>
  The text of one cell of a terminal (\<open>src/src/term/cell.rs\<close>): a scalar, an interned cluster, half of a
  wide character or part of an image, packed into 32 bits. A string is its UTF-8 bytes and a scalar its
  code point. How scalars make cells and how wide they are (\<open>src/src/term/unicode.rs\<close>) rests on the tables
  of a library: the width of a scalar is an argument, \<open>cw\<close>.
\<close>

section \<open>Scalars and strings\<close>

definition char_ok :: "nat \<Rightarrow> bool" where
  "char_ok c = (c < 0xD800 \<or> 0xE000 \<le> c \<and> c < 0x110000)"

text \<open>\<open>char::encode_utf8\<close> and \<open>str::chars\<close>.\<close>

definition encode_char :: "nat \<Rightarrow> byte list" where
  "encode_char c =
     (if c < 0x80 then [of_nat c]
      else if c < 0x800 then [of_nat (0xC0 + c div 64), of_nat (0x80 + c mod 64)]
      else if c < 0x10000
      then [of_nat (0xE0 + c div 4096), of_nat (0x80 + c div 64 mod 64), of_nat (0x80 + c mod 64)]
      else [of_nat (0xF0 + c div 262144), of_nat (0x80 + c div 4096 mod 64), of_nat (0x80 + c div 64 mod 64),
            of_nat (0x80 + c mod 64)])"

function str_chars :: "byte list \<Rightarrow> nat list" where
  "str_chars [] = []"
| "str_chars (b # bs) =
     (let n = max 1 (utf8_len b) in code_point (take n (b # bs)) # str_chars (drop n (b # bs)))"
  by pat_completeness auto
termination
  by (relation "measure length") auto

declare str_chars.simps(2) [simp del]

section \<open>Scalars and cells\<close>

definition is_regional_indicator :: "nat \<Rightarrow> bool" where
  "is_regional_indicator c = (0x1F1E6 \<le> c \<and> c \<le> 0x1F1FF)"

definition is_emoji_modifier :: "nat \<Rightarrow> bool" where
  "is_emoji_modifier c = (0x1F3FB \<le> c \<and> c \<le> 0x1F3FF)"

definition scalar_width :: "(nat \<Rightarrow> nat option) \<Rightarrow> nat \<Rightarrow> nat option" where
  "scalar_width cw c =
     (if c < 0x20 \<or> 0x7F \<le> c \<and> c < 0xA0 then None
      else case cw c of Some 0 \<Rightarrow> Some 0 | Some (Suc 0) \<Rightarrow> Some 1 | Some _ \<Rightarrow> Some 2 | None \<Rightarrow> Some 1)"

datatype attach = NewCell nat | Join | JoinWide

record prev_info =
  pv_exists :: bool
  pv_after_zwj :: bool
  pv_lone_ri :: bool
  pv_emoji_base :: bool
  pv_width :: nat

definition no_prev :: prev_info where
  "no_prev = \<lparr>pv_exists = False, pv_after_zwj = False, pv_lone_ri = False, pv_emoji_base = False, pv_width = 0\<rparr>"

definition is_emoji_base :: "nat \<Rightarrow> bool" where
  "is_emoji_base c =
     (c \<in> {0x203C, 0x2049, 0x2122, 0x2139} \<or> 0x2194 \<le> c \<and> c \<le> 0x2199 \<or> 0x21A9 \<le> c \<and> c \<le> 0x21AA \<or>
      0x231A \<le> c \<and> c \<le> 0x231B \<or> c = 0x2328 \<or> c = 0x23CF \<or> 0x23E9 \<le> c \<and> c \<le> 0x23F3 \<or>
      0x23F8 \<le> c \<and> c \<le> 0x23FA \<or> c = 0x24C2 \<or> 0x25AA \<le> c \<and> c \<le> 0x25AB \<or> c = 0x25B6 \<or> c = 0x25C0 \<or>
      0x25FB \<le> c \<and> c \<le> 0x25FE \<or> 0x2600 \<le> c \<and> c \<le> 0x27BF \<or> 0x2934 \<le> c \<and> c \<le> 0x2935 \<or>
      0x2B05 \<le> c \<and> c \<le> 0x2B07 \<or> 0x2B1B \<le> c \<and> c \<le> 0x2B1C \<or> c \<in> {0x2B50, 0x2B55, 0x3030, 0x303D, 0x3297, 0x3299} \<or>
      0x1F000 \<le> c \<and> c \<le> 0x1FAFF)"

definition zwj :: nat where "zwj = 0x200D"
definition vs16 :: nat where "vs16 = 0xFE0F"

definition attach_char :: "(nat \<Rightarrow> nat option) \<Rightarrow> nat \<Rightarrow> prev_info \<Rightarrow> attach" where
  "attach_char cw c prev =
     (let width = (case scalar_width cw c of None \<Rightarrow> 0 | Some w \<Rightarrow> w)
      in if \<not> pv_exists prev then NewCell (max width (if width = 0 then 1 else width))
         else if pv_after_zwj prev \<and> (width = 0 \<or> is_emoji_base c)
         then (if width = 2 \<and> pv_width prev < 2 then JoinWide else Join)
         else if c = vs16 then (if pv_width prev < 2 \<and> pv_emoji_base prev then JoinWide else Join)
         else if width = 0 then Join
         else if is_regional_indicator c \<and> pv_lone_ri prev then JoinWide
         else if is_emoji_modifier c \<and> pv_emoji_base prev then (if pv_width prev < 2 then JoinWide else Join)
         else NewCell width)"

fun cluster_step :: "(nat \<Rightarrow> nat option) \<Rightarrow> nat \<Rightarrow> nat \<times> prev_info \<Rightarrow> nat \<times> prev_info" where
  "cluster_step cw c (width, prev) =
     (case attach_char cw c prev of
        NewCell w \<Rightarrow>
          (w, \<lparr>pv_exists = True, pv_after_zwj = (c = zwj), pv_lone_ri = is_regional_indicator c,
               pv_emoji_base = is_emoji_base c, pv_width = w\<rparr>)
      | Join \<Rightarrow> (width, prev\<lparr>pv_lone_ri := False, pv_after_zwj := (c = zwj)\<rparr>)
      | JoinWide \<Rightarrow> (2, prev\<lparr>pv_width := 2, pv_lone_ri := False, pv_after_zwj := (c = zwj)\<rparr>))"

definition cluster_width :: "(nat \<Rightarrow> nat option) \<Rightarrow> byte list \<Rightarrow> nat" where
  "cluster_width cw text = fst (fold (cluster_step cw) (str_chars text) (0, no_prev))"

section \<open>The text of a cell\<close>

type_synonym cell_text = "32 word"

datatype text_kind = EmptyText | Scalar nat | Grapheme nat | Continuation | ImageText nat nat nat

definition ct_empty :: cell_text where "ct_empty = 0"
definition ct_filler :: cell_text where "ct_filler = 1"
definition ct_continuation :: cell_text where "ct_continuation = push_bit 29 3"

definition ct_scalar :: "nat \<Rightarrow> nat \<Rightarrow> cell_text" where
  "ct_scalar c width = push_bit 29 1 OR push_bit 21 (of_nat width AND 3) OR of_nat c"

definition ct_grapheme :: "nat \<Rightarrow> nat \<Rightarrow> cell_text" where
  "ct_grapheme i width = push_bit 29 2 OR push_bit 24 (of_nat width AND 3) OR (of_nat i AND 0xFFFFFF)"

definition ct_image :: "nat \<Rightarrow> nat \<Rightarrow> nat \<Rightarrow> cell_text" where
  "ct_image slot r c =
     push_bit 29 4 OR push_bit 19 (of_nat c AND 0x1FF) OR push_bit 10 (of_nat r AND 0x1FF) OR (of_nat slot AND 0x3FF)"

definition ct_tag :: "cell_text \<Rightarrow> nat" where
  "ct_tag t = unat (drop_bit 29 t)"

definition char_or_replacement :: "nat \<Rightarrow> nat" where
  "char_or_replacement c = (if char_ok c then c else 0xFFFD)"

definition ct_kind :: "cell_text \<Rightarrow> text_kind" where
  "ct_kind t =
     (if ct_tag t = 0 then EmptyText
      else if ct_tag t = 1 then Scalar (char_or_replacement (unat (t AND 0x1FFFFF)))
      else if ct_tag t = 2 then Grapheme (unat (t AND 0xFFFFFF))
      else if ct_tag t = 3 then Continuation
      else ImageText (unat (t AND 0x3FF)) (unat (drop_bit 10 t AND 0x1FF)) (unat (drop_bit 19 t AND 0x1FF)))"

definition ct_is_empty :: "cell_text \<Rightarrow> bool" where
  "ct_is_empty t = (ct_tag t = 0)"

definition ct_is_filler :: "cell_text \<Rightarrow> bool" where
  "ct_is_filler t = (t = ct_filler)"

definition ct_is_continuation :: "cell_text \<Rightarrow> bool" where
  "ct_is_continuation t = (ct_tag t = 3)"

definition ct_is_image :: "cell_text \<Rightarrow> bool" where
  "ct_is_image t = (ct_tag t = 4)"

definition ct_width :: "cell_text \<Rightarrow> nat" where
  "ct_width t =
     (if ct_tag t = 1 then unat (drop_bit 21 t AND 3) else if ct_tag t = 2 then unat (drop_bit 24 t AND 3)
      else if ct_tag t = 4 then 1 else 0)"

definition ct_is_wide :: "cell_text \<Rightarrow> bool" where
  "ct_is_wide t = (2 \<le> ct_width t)"

definition ct_with_width :: "nat \<Rightarrow> cell_text \<Rightarrow> cell_text" where
  "ct_with_width width t =
     (if ct_tag t = 1 then (t AND NOT (push_bit 21 3)) OR push_bit 21 (of_nat width AND 3)
      else if ct_tag t = 2 then (t AND NOT (push_bit 24 3)) OR push_bit 24 (of_nat width AND 3)
      else t)"

section \<open>Clusters\<close>

definition max_graphemes :: nat where "max_graphemes = 2 ^ 24"

record grapheme_table =
  gt_items :: "byte list list"
  gt_index :: "(byte list, nat) hm"

definition gt_empty :: grapheme_table where
  "gt_empty = \<lparr>gt_items = [], gt_index = []\<rparr>"

definition gt_intern :: "byte list \<Rightarrow> grapheme_table \<Rightarrow> nat option \<times> grapheme_table" where
  "gt_intern text gt =
     (case hm_get (gt_index gt) text of
        Some i \<Rightarrow> (Some i, gt)
      | None \<Rightarrow>
          (if max_graphemes \<le> length (gt_items gt) then (None, gt)
           else (let i = length (gt_items gt)
                 in (Some i, \<lparr>gt_items = gt_items gt @ [text], gt_index = hm_put text i (gt_index gt)\<rparr>))))"

definition replacement_str :: "byte list" where
  "replacement_str = [0xEF, 0xBF, 0xBD]"

definition gt_get :: "nat \<Rightarrow> grapheme_table \<Rightarrow> byte list" where
  "gt_get i gt = (if i < length (gt_items gt) then gt_items gt ! i else replacement_str)"

definition placeholder_str :: "byte list" where
  "placeholder_str = encode_char 0x10EEEE"

definition ct_str :: "grapheme_table \<Rightarrow> cell_text \<Rightarrow> byte list" where
  "ct_str gt t =
     (case ct_kind t of
        EmptyText \<Rightarrow> []
      | Continuation \<Rightarrow> []
      | Scalar c \<Rightarrow> encode_char c
      | Grapheme i \<Rightarrow> gt_get i gt
      | ImageText _ _ _ \<Rightarrow> placeholder_str)"

text \<open>The cell of a string: nothing, one scalar, or a cluster.\<close>

definition ct_of :: "byte list \<Rightarrow> nat \<Rightarrow> grapheme_table \<Rightarrow> cell_text \<times> grapheme_table" where
  "ct_of text width gt =
     (case str_chars text of
        [] \<Rightarrow> (ct_empty, gt)
      | [c] \<Rightarrow> (ct_scalar c width, gt)
      | _ \<Rightarrow>
          (case gt_intern text gt of
             (Some i, gt') \<Rightarrow> (ct_grapheme i width, gt')
           | (None, gt') \<Rightarrow> (ct_scalar 0xFFFD 1, gt')))"

section \<open>Cells\<close>

record cell =
  c_text :: cell_text
  c_style :: nat

definition cell_new :: "cell_text \<Rightarrow> nat \<Rightarrow> cell" where
  "cell_new t st = \<lparr>c_text = t, c_style = st\<rparr>"

definition cell_blank :: "nat \<Rightarrow> cell" where
  "cell_blank st = \<lparr>c_text = ct_empty, c_style = st\<rparr>"

definition cell_empty :: cell where
  "cell_empty = \<lparr>c_text = ct_empty, c_style = 0\<rparr>"

definition cell_filler :: "nat \<Rightarrow> cell" where
  "cell_filler st = \<lparr>c_text = ct_filler, c_style = st\<rparr>"

abbreviation "is_wide c \<equiv> ct_is_wide (c_text c)"
abbreviation "is_continuation c \<equiv> ct_is_continuation (c_text c)"

definition has_contents :: "cell \<Rightarrow> bool" where
  "has_contents c = (\<not> ct_is_empty (c_text c) \<and> \<not> is_continuation c)"

section \<open>The packing is read back\<close>

lemma low_bits: "x < 2 ^ n \<Longrightarrow> bit (of_nat x :: 32 word) i \<Longrightarrow> i < n"
  by (metis bit_take_bit_iff bit_of_nat_iff take_bit_nat_eq_self)

lemma masks: "(0x1FFFFF :: 32 word) = mask 21" "(0xFFFFFF :: 32 word) = mask 24" "(3 :: 32 word) = mask 2"
  "(0x3FF :: 32 word) = mask 10" "(0x1FF :: 32 word) = mask 9"
  by (simp_all add: mask_eq_exp_minus_1)


text \<open>A word put together from a tag and a body below it, and a field within the body.\<close>

lemma bits_high: "t < 8 \<Longrightarrow> bit (t :: 32 word) i \<Longrightarrow> i < 3"
  using low_bits [of "unat t" 3 i] by (simp add: word_less_nat_alt)

lemma below_take: "k < 32 \<Longrightarrow> x < (2 ^ k :: 32 word) \<longleftrightarrow> take_bit k x = x"
proof -
  assume k: "k < 32"
  have "(2 :: nat) ^ k < 2 ^ 32" by (rule power_strict_increasing) (use k in auto)
  then have "unat (2 ^ k :: 32 word) = 2 ^ k"
    using unat_of_nat [where 'a = 32, of "2 ^ k"] by (simp add: take_bit_nat_eq_self_iff)
  moreover have "take_bit k x = x \<longleftrightarrow> take_bit k (unat x) = unat x"
    by (metis unsigned_take_bit_eq unsigned_word_eqI)
  ultimately show ?thesis by (simp add: word_less_nat_alt take_bit_nat_eq_self_iff)
qed

lemma bits_in: "x < 2 ^ k \<Longrightarrow> k < 32 \<Longrightarrow> bit (x :: 32 word) i \<Longrightarrow> i < k"
  by (metis below_take bit_take_bit_iff)

lemma pack_high:
  assumes "(t :: 32 word) < 8" "x < 2 ^ 29"
  shows "drop_bit 29 (push_bit 29 t OR x) = t"
proof (rule bit_word_eqI)
  fix n assume "n < LENGTH(32)"
  then show "bit (drop_bit 29 (push_bit 29 t OR x)) n = bit t n"
    using bits_high [OF assms(1), of n] bits_in [OF assms(2), of "29 + n"] bit_imp_le_length [of t n]
    by (auto simp: bit_simps)
qed

lemma pack_field:
  assumes "x < 2 ^ k" "k + w \<le> 32" "f < 2 ^ w" "0 < w" "k < 32"
  shows "drop_bit k (push_bit (k + w) t OR push_bit k f OR x) AND mask w = (f :: 32 word)"
proof (rule bit_word_eqI)
  have w: "w < 32 \<or> w = 32" using assms(2) by auto
  fix n assume n: "n < LENGTH(32)"
  have f: "bit f n \<Longrightarrow> n < w" using bits_in [OF assms(3), of n] w n by auto
  show "bit (drop_bit k (push_bit (k + w) t OR push_bit k f OR x) AND mask w) n = bit f n"
    using f bits_in [OF assms(1,5), of "k + n"] assms(2) n by (auto simp: bit_simps)
qed

lemma pack_low:
  assumes "x < 2 ^ k" "k < 32"
  shows "(push_bit k t OR x) AND mask k = (x :: 32 word)"
proof (rule bit_word_eqI)
  fix n assume "n < LENGTH(32)"
  then show "bit ((push_bit k t OR x) AND mask k) n = bit x n"
    using bits_in [OF assms, of n] by (auto simp: bit_simps)
qed

lemma or_below: "k < 32 \<Longrightarrow> x < 2 ^ k \<Longrightarrow> y < 2 ^ k \<Longrightarrow> x OR y < (2 ^ k :: 32 word)"
  by (simp add: below_take)

lemma push_below:
  assumes "f < (2 ^ w :: 32 word)" "k + w \<le> m" "m < 32"
  shows "push_bit k f < 2 ^ m"
proof -
  have w: "w < 32" "k + w \<le> m" using assms by auto
  have "take_bit m (push_bit k f) = push_bit k (take_bit (m - k) (take_bit w f))"
    using assms below_take [OF w(1)] by (simp add: take_bit_push_bit)
  also have "take_bit (m - k) (take_bit w f) = take_bit w f"
  proof -
    have "min (m - k) w = w" using w by simp
    then show ?thesis by (simp only: take_bit_take_bit)
  qed
  also have "\<dots> = f" using assms below_take [OF w(1), of f] by simp
  finally show ?thesis using below_take [OF assms(3)] by simp
qed

lemma and_mask_below: "w < 32 \<Longrightarrow> (x :: 32 word) AND mask w < 2 ^ w"
  by (simp add: below_take flip: take_bit_eq_mask)

lemma unat_and_mask: "w < 32 \<Longrightarrow> unat ((of_nat n :: 32 word) AND mask w) = n mod 2 ^ w"
  by (simp add: unsigned_take_bit_eq unsigned_of_nat flip: take_bit_eq_mask) (simp add: take_bit_eq_mod)

lemma ct_scalar_fields:
  assumes "c < 2 ^ 21"
  shows "ct_tag (ct_scalar c w) = 1" "unat (ct_scalar c w AND 0x1FFFFF) = c" "unat (drop_bit 21 (ct_scalar c w) AND 3) = w mod 4"
proof -
  let ?c = "of_nat c :: 32 word" and ?w = "of_nat w AND 3 :: 32 word"
  have un: "unat ?c = c" using assms by (simp add: unsigned_of_nat take_bit_nat_eq_self)
  then have c: "?c < 2 ^ 21" using assms by (simp add: word_less_nat_alt)
  have w: "?w < 2 ^ 2" using and_mask_below [of 2 "of_nat w"] by (simp add: masks)
  have body: "push_bit 21 ?w OR ?c < 2 ^ 29"
    by (rule or_below) (use push_below [OF w, of 21 29] push_below [OF c, of 0 29] in simp_all)
  show "ct_tag (ct_scalar c w) = 1"
    using pack_high [OF _ body, of 1] unfolding ct_tag_def ct_scalar_def or.assoc by simp
  show "unat (ct_scalar c w AND 0x1FFFFF) = c"
    using pack_low [OF c, of "push_bit 8 1 OR ?w"] un by (simp add: ct_scalar_def masks push_bit_or or.assoc)
  show "unat (drop_bit 21 (ct_scalar c w) AND 3) = w mod 4"
    using pack_field [OF c, of 2 ?w "push_bit 6 1"] w unat_and_mask [of 2 w]
    by (simp add: ct_scalar_def masks)
qed

lemma ct_grapheme_fields:
  assumes "i < 2 ^ 24"
  shows "ct_tag (ct_grapheme i w) = 2" "unat (ct_grapheme i w AND 0xFFFFFF) = i"
    "unat (drop_bit 24 (ct_grapheme i w) AND 3) = w mod 4"
proof -
  let ?i = "of_nat i AND 0xFFFFFF :: 32 word" and ?w = "of_nat w AND 3 :: 32 word"
  have i: "?i < 2 ^ 24" using and_mask_below [of 24 "of_nat i"] by (simp add: masks)
  have un: "unat ?i = i" using unat_and_mask [of 24 i] assms by (simp add: masks)
  have w: "?w < 2 ^ 2" using and_mask_below [of 2 "of_nat w"] by (simp add: masks)
  have body: "push_bit 24 ?w OR ?i < 2 ^ 29"
    by (rule or_below) (use push_below [OF w, of 24 29] push_below [OF i, of 0 29] in simp_all)
  show "ct_tag (ct_grapheme i w) = 2"
    using pack_high [OF _ body, of 2] unfolding ct_tag_def ct_grapheme_def by simp
  show "unat (ct_grapheme i w AND 0xFFFFFF) = i"
    using pack_low [OF i, of "push_bit 5 2 OR ?w"] un by (simp add: ct_grapheme_def masks push_bit_or or.assoc)
  show "unat (drop_bit 24 (ct_grapheme i w) AND 3) = w mod 4"
    using pack_field [OF i, of 2 ?w "push_bit 3 2"] w unat_and_mask [of 2 w]
    by (simp add: ct_grapheme_def masks)
qed

lemma ct_image_fields:
  assumes "slot < 2 ^ 10" "r < 2 ^ 9" "c < 2 ^ 9"
  shows "ct_tag (ct_image slot r c) = 4" "unat (ct_image slot r c AND 0x3FF) = slot"
    "unat (drop_bit 10 (ct_image slot r c) AND 0x1FF) = r" "unat (drop_bit 19 (ct_image slot r c) AND 0x1FF) = c"
proof -
  let ?s = "of_nat slot AND 0x3FF :: 32 word" and ?r = "of_nat r AND 0x1FF :: 32 word" and ?c = "of_nat c AND 0x1FF :: 32 word"
  have s: "?s < 2 ^ 10" and r: "?r < 2 ^ 9" and c: "?c < 2 ^ 9"
    using and_mask_below [of 10 "of_nat slot"] and_mask_below [of 9 "of_nat r"] and_mask_below [of 9 "of_nat c"]
    by (simp_all add: masks)
  have un: "unat ?s = slot" "unat ?r = r" "unat ?c = c"
    using unat_and_mask [of 10 slot] unat_and_mask [of 9 r] unat_and_mask [of 9 c] assms by (simp_all add: masks)
  have low: "push_bit 10 ?r OR ?s < 2 ^ 19"
    by (rule or_below) (use push_below [OF r, of 10 19] push_below [OF s, of 0 19] in simp_all)
  have body: "push_bit 19 ?c OR push_bit 10 ?r OR ?s < 2 ^ 29"
    by (rule or_below) (use push_below [OF c, of 19 29] push_below [OF low, of 0 29] in simp_all)
  show "ct_tag (ct_image slot r c) = 4"
    using pack_high [OF _ body, of 4] unfolding ct_tag_def ct_image_def by simp
  show "unat (ct_image slot r c AND 0x3FF) = slot"
    using pack_low [OF s, of "push_bit 19 4 OR push_bit 9 ?c OR ?r"] un(1)
    by (simp add: ct_image_def masks push_bit_or or.assoc)
  show "unat (drop_bit 10 (ct_image slot r c) AND 0x1FF) = r"
    using pack_field [OF s, of 9 ?r "push_bit 10 4 OR ?c"] r un(2)
    by (simp add: ct_image_def masks push_bit_or or.assoc)
  show "unat (drop_bit 19 (ct_image slot r c) AND 0x1FF) = c"
    using pack_field [OF low, of 9 ?c "push_bit 1 4"] c un(3)
    by (simp add: ct_image_def masks push_bit_or or.assoc)
qed

text \<open>
  What is packed into a cell is what is read back: the kind with all its fields, and the width.
\<close>

theorem cell_text_roundtrip:
  assumes "char_ok c" "w < 4" "i < 2 ^ 24" "slot < 2 ^ 10" "r < 2 ^ 9" "k < 2 ^ 9"
  shows "ct_kind (ct_scalar c w) = Scalar c \<and> ct_width (ct_scalar c w) = w"
    and "ct_kind (ct_grapheme i w) = Grapheme i \<and> ct_width (ct_grapheme i w) = w"
    and "ct_kind (ct_image slot r k) = ImageText slot r k \<and> ct_width (ct_image slot r k) = 1"
    and "ct_kind ct_continuation = Continuation \<and> ct_kind ct_empty = EmptyText \<and> ct_kind ct_filler = EmptyText"
proof -
  have c: "c < 2 ^ 21" using assms(1) by (auto simp: char_ok_def)
  show "ct_kind (ct_scalar c w) = Scalar c \<and> ct_width (ct_scalar c w) = w"
    using ct_scalar_fields [OF c, of w] assms by (simp add: ct_kind_def ct_width_def char_or_replacement_def)
  show "ct_kind (ct_grapheme i w) = Grapheme i \<and> ct_width (ct_grapheme i w) = w"
    using ct_grapheme_fields [of i w] assms by (simp add: ct_kind_def ct_width_def)
  show "ct_kind (ct_image slot r k) = ImageText slot r k \<and> ct_width (ct_image slot r k) = 1"
    using ct_image_fields [OF assms(4-6)] by (simp add: ct_kind_def ct_width_def)
qed (simp add: ct_kind_def ct_tag_def ct_continuation_def ct_empty_def ct_filler_def)

end
