(* ===== verification/Term_Row.thy ===== *)
theory Term_Row
  imports Term_Cell
begin

text \<open>
  A row of the screen (\<open>src/src/term/row.rs\<close>): its cells, and whether its line goes on in the next row.
  A wide character takes two cells, and no operation on a whole row leaves one half without the other.
\<close>

section \<open>Rows\<close>

record row =
  r_cells :: "cell list"
  r_wrapped :: bool

definition row_new :: "nat \<Rightarrow> row" where
  "row_new cols = \<lparr>r_cells = replicate cols cell_empty, r_wrapped = False\<rparr>"

definition row_blank :: "nat \<Rightarrow> nat \<Rightarrow> row" where
  "row_blank cols st = \<lparr>r_cells = replicate cols (cell_blank st), r_wrapped = False\<rparr>"

definition row_clear :: "nat \<Rightarrow> row \<Rightarrow> row" where
  "row_clear st r = \<lparr>r_cells = map (\<lambda>_. cell_blank st) (r_cells r), r_wrapped = False\<rparr>"

definition row_get :: "nat \<Rightarrow> row \<Rightarrow> cell option" where
  "row_get i r = (if i < length (r_cells r) then Some (r_cells r ! i) else None)"

text \<open>\<open>clear_wide\<close>: the other half of the wide cell at a column, if it is one half, becomes a blank.\<close>

definition other_half :: "nat \<Rightarrow> cell list \<Rightarrow> nat option" where
  "other_half i cs =
     (if is_wide (cs ! i) then Some (i + 1)
      else if is_continuation (cs ! i) \<and> 0 < i then Some (i - 1) else None)"

definition blank_half :: "nat \<Rightarrow> cell \<Rightarrow> cell" where
  "blank_half st other = cell_blank (if st = 0 then c_style other else st)"

definition clear_wide_cells :: "nat \<Rightarrow> nat \<Rightarrow> cell list \<Rightarrow> cell list" where
  "clear_wide_cells i st cs =
     (if length cs \<le> i then cs
      else case other_half i cs of
        None \<Rightarrow> cs
      | Some j \<Rightarrow> if j < length cs then cs[j := blank_half st (cs ! j)] else cs)"

definition clear_wide :: "nat \<Rightarrow> nat \<Rightarrow> row \<Rightarrow> row" where
  "clear_wide i st r = r\<lparr>r_cells := clear_wide_cells i st (r_cells r)\<rparr>"

definition row_set :: "nat \<Rightarrow> cell \<Rightarrow> row \<Rightarrow> row" where
  "row_set i c r =
     (if length (r_cells r) \<le> i then r
      else r\<lparr>r_cells := (clear_wide_cells i (c_style (r_cells r ! i)) (r_cells r))[i := c]\<rparr>)"

definition row_insert :: "nat \<Rightarrow> cell \<Rightarrow> row \<Rightarrow> row" where
  "row_insert i c r =
     (if length (r_cells r) < i then r
      else \<lparr>r_cells = take i (r_cells r) @ c # drop i (r_cells r), r_wrapped = False\<rparr>)"

definition row_remove :: "nat \<Rightarrow> row \<Rightarrow> row" where
  "row_remove i r =
     (if length (r_cells r) \<le> i then r
      else (let cs = clear_wide_cells i (c_style (r_cells r ! i)) (r_cells r)
            in \<lparr>r_cells = take i cs @ drop (i + 1) cs, r_wrapped = False\<rparr>))"

definition row_erase :: "nat \<Rightarrow> nat \<Rightarrow> row \<Rightarrow> row" where
  "row_erase i st r =
     (if length (r_cells r) \<le> i then r
      else (let wide = is_wide (r_cells r ! i);
                cs = (clear_wide_cells i st (r_cells r))[i := cell_blank st]
            in \<lparr>r_cells = cs, r_wrapped = (r_wrapped r \<and> i + (if wide then 2 else 1) \<noteq> length cs)\<rparr>))"

definition rotate_right :: "nat \<Rightarrow> 'a list \<Rightarrow> 'a list" where
  "rotate_right n xs = drop (length xs - n) xs @ take (length xs - n) xs"

definition rotate_left :: "nat \<Rightarrow> 'a list \<Rightarrow> 'a list" where
  "rotate_left n xs = drop n xs @ take n xs"

text \<open>What an operation does to the columns \<open>a..=b\<close> of a list.\<close>

definition on_range :: "nat \<Rightarrow> nat \<Rightarrow> ('a list \<Rightarrow> 'a list) \<Rightarrow> 'a list \<Rightarrow> 'a list" where
  "on_range a b f xs = take a xs @ f (take (b + 1 - a) (drop a xs)) @ drop (b + 1) xs"

definition insert_blanks :: "nat \<Rightarrow> nat \<Rightarrow> nat \<Rightarrow> nat \<Rightarrow> row \<Rightarrow> row" where
  "insert_blanks col n right st r =
     (if right < col \<or> length (r_cells r) \<le> right then r
      else (let n = min n (right + 1 - col); cs = r_cells r
            in if n = 0 then r
               else (let cs1 = (if is_continuation (cs ! col) then (clear_wide_cells col st cs)[col := cell_blank st] else cs);
                         cs2 = on_range col right (rotate_right n) cs1;
                         cs3 = on_range col (col + n - 1) (map (\<lambda>_. cell_blank st)) cs2;
                         cs4 = (if is_wide (cs3 ! right) then cs3[right := cell_blank st] else cs3)
                     in \<lparr>r_cells = cs4, r_wrapped = False\<rparr>)))"

definition delete_cells :: "nat \<Rightarrow> nat \<Rightarrow> nat \<Rightarrow> nat \<Rightarrow> row \<Rightarrow> row" where
  "delete_cells col n right st r =
     (if right < col \<or> length (r_cells r) \<le> right then r
      else (let n = min n (right + 1 - col)
            in if n = 0 then r
               else (let cs1 = clear_wide_cells (col + n - 1) st (clear_wide_cells col st (r_cells r));
                         cs2 = on_range col right (rotate_left n) cs1;
                         cs3 = on_range (right + 1 - n) right (map (\<lambda>_. cell_blank st)) cs2
                     in \<lparr>r_cells = cs3, r_wrapped = False\<rparr>)))"

definition row_wrap :: "bool \<Rightarrow> row \<Rightarrow> row" where
  "row_wrap w r = r\<lparr>r_wrapped := w\<rparr>"

text \<open>\<open>used_len\<close>: the cells up to the last one that shows something.\<close>

definition used_len :: "(nat \<Rightarrow> bool) \<Rightarrow> row \<Rightarrow> nat" where
  "used_len visible r =
     length (dropWhile (\<lambda>c. \<not> (has_contents c \<or> visible (c_style c))) (rev (r_cells r)))"

definition row_from_cells :: "cell list \<Rightarrow> nat \<Rightarrow> row" where
  "row_from_cells cs cols = \<lparr>r_cells = take cols cs @ replicate (cols - length cs) cell_empty, r_wrapped = False\<rparr>"

definition push_text :: "nat \<Rightarrow> nat \<Rightarrow> grapheme_table \<Rightarrow> row \<Rightarrow> byte list" where
  "push_text a b gt r =
     concat (map (\<lambda>c. if is_continuation c \<or> ct_is_filler (c_text c) then []
                      else (let text = ct_str gt (c_text c) in if text = [] then [0x20] else text))
               (take (b - a) (drop a (r_cells r))))"

section \<open>Lengths\<close>

lemma length_clear_wide [simp]: "length (clear_wide_cells i st cs) = length cs"
  by (simp add: clear_wide_cells_def split: option.split)

lemma length_on_range [simp]:
  "(\<And>ys. length (f ys) = length ys) \<Longrightarrow> a \<le> Suc b \<Longrightarrow> length (on_range a b f xs) = length xs"
  by (simp add: on_range_def)

lemma length_rotate [simp]: "length (rotate_right n xs) = length xs" "length (rotate_left n xs) = length xs"
  by (simp_all add: rotate_right_def rotate_left_def)

lemma row_lengths [simp]:
  "length (r_cells (row_new n)) = n" "length (r_cells (row_blank n st)) = n"
  "length (r_cells (row_clear st r)) = length (r_cells r)"
  "length (r_cells (clear_wide i st r)) = length (r_cells r)"
  "length (r_cells (row_set i c r)) = length (r_cells r)"
  "length (r_cells (row_erase i st r)) = length (r_cells r)"
  "length (r_cells (insert_blanks col n right st r)) = length (r_cells r)"
  "length (r_cells (delete_cells col n right st r)) = length (r_cells r)"
  "length (r_cells (row_wrap w r)) = length (r_cells r)"
  "length (r_cells (row_from_cells cs n)) = n"
  by (simp_all add: row_new_def row_blank_def row_clear_def clear_wide_def row_set_def row_erase_def insert_blanks_def
      delete_cells_def row_wrap_def row_from_cells_def Let_def)

lemma row_clear_is_blank: "row_clear st r = row_blank (length (r_cells r)) st"
  by (simp add: row_clear_def row_blank_def map_replicate_const)

lemma used_len_le: "used_len visible r \<le> length (r_cells r)"
  by (metis length_dropWhile_le length_rev used_len_def)

section \<open>Whole characters\<close>

definition left_half :: "cell list \<Rightarrow> nat \<Rightarrow> bool" where
  "left_half cs i = (i < length cs \<and> is_wide (cs ! i))"

definition right_half :: "cell list \<Rightarrow> nat \<Rightarrow> bool" where
  "right_half cs i = (i < length cs \<and> is_continuation (cs ! i))"

text \<open>A row is whole when its right halves are just after its left halves.\<close>

definition whole :: "cell list \<Rightarrow> bool" where
  "whole cs = (\<not> right_half cs 0 \<and> list_all (\<lambda>i. left_half cs i = right_half cs (Suc i)) [0..<length cs])"

definition plain_cell :: "cell \<Rightarrow> bool" where
  "plain_cell c = (\<not> is_wide c \<and> \<not> is_continuation c)"

lemma whole_iff: "whole cs \<longleftrightarrow> \<not> right_half cs 0 \<and> (\<forall>i. left_half cs i = right_half cs (Suc i))"
proof -
  have "\<not> i < length cs \<Longrightarrow> left_half cs i = right_half cs (Suc i)" for i by (simp add: left_half_def right_half_def)
  then show ?thesis by (auto simp: whole_def list_all_iff)
qed

lemma not_both: "is_wide c \<Longrightarrow> \<not> is_continuation c"
  by (auto simp: ct_is_wide_def ct_width_def ct_is_continuation_def split: if_splits)

lemma plain_blank [simp]: "\<not> is_wide (cell_blank st)" "\<not> is_continuation (cell_blank st)"
  by (simp_all add: cell_blank_def ct_is_wide_def ct_width_def ct_is_continuation_def ct_tag_def ct_empty_def)

lemma plain_filler [simp]: "\<not> is_wide (cell_filler st)" "\<not> is_continuation (cell_filler st)"
  by (simp_all add: cell_filler_def ct_is_wide_def ct_width_def ct_is_continuation_def ct_tag_def ct_filler_def)

lemma plain_empty [simp]: "\<not> is_wide cell_empty" "\<not> is_continuation cell_empty"
  by (simp_all add: cell_empty_def ct_is_wide_def ct_width_def ct_is_continuation_def ct_tag_def ct_empty_def)

lemma plain_half [simp]: "\<not> is_wide (blank_half st c)" "\<not> is_continuation (blank_half st c)"
  by (simp_all add: blank_half_def)

lemma continuation_cell [simp]: "is_continuation (cell_new ct_continuation st)" "\<not> is_wide (cell_new ct_continuation st)"
  by (simp_all add: cell_new_def ct_is_wide_def ct_width_def ct_is_continuation_def ct_tag_def ct_continuation_def)


lemma nth_on_range:
  assumes f: "\<And>ys. length (f ys) = length ys" and "a \<le> b" "b < length xs" "i < length xs"
  shows "on_range a b f xs ! i = (if a \<le> i \<and> i \<le> b then f (take (b + 1 - a) (drop a xs)) ! (i - a) else xs ! i)"
proof -
  let ?ys = "f (take (b + 1 - a) (drop a xs))"
  have len: "length (take a xs) = a" "length ?ys = b + 1 - a" using assms by simp_all
  consider "i < a" | "a \<le> i" "i \<le> b" | "b < i" by linarith
  then show ?thesis
  proof cases
    case 1
    then show ?thesis using len by (simp add: on_range_def nth_append)
  next
    case 2
    then have "i - a < b + 1 - a" by simp
    then show ?thesis using 2 len unfolding on_range_def by (simp add: nth_append del: length_take)
  next
    case 3
    then have "i - a - (b + 1 - a) = i - Suc b" "\<not> i < a" "\<not> i - a < b + 1 - a" using assms(2) by simp_all
    then show ?thesis using len 3 assms(4) unfolding on_range_def by (simp add: nth_append del: length_take)
  qed
qed

lemma nth_rotate:
  assumes "j < length ys" "n \<le> length ys"
  shows "rotate_right n ys ! j = (if j < n then ys ! (length ys - n + j) else ys ! (j - n))"
    and "rotate_left n ys ! j = (if j + n < length ys then ys ! (j + n) else ys ! (j + n - length ys))"
proof -
  show "rotate_right n ys ! j = (if j < n then ys ! (length ys - n + j) else ys ! (j - n))"
    using assms by (simp add: rotate_right_def nth_append)
  have "n + j = j + n" "j - (length ys - n) = j + n - length ys" using assms by simp_all
  then show "rotate_left n ys ! j = (if j + n < length ys then ys ! (j + n) else ys ! (j + n - length ys))"
    using assms by (auto simp: rotate_left_def nth_append add.commute)
qed

lemma on_range_rotate_right:
  assumes "a \<le> b" "b < length xs" "i < length xs" "n \<le> b + 1 - a"
  shows "on_range a b (rotate_right n) xs ! i =
    (if a \<le> i \<and> i \<le> b then (if i < a + n then xs ! (b + 1 - n + (i - a)) else xs ! (i - n)) else xs ! i)"
proof (cases "a \<le> i \<and> i \<le> b")
  case True
  let ?ys = "take (b + 1 - a) (drop a xs)"
  have seg: "?ys ! j = xs ! (a + j)" if "j < b + 1 - a" for j using that assms(2) by simp
  have len: "length ?ys = b + 1 - a" using assms(2) by simp
  have ia: "i - a < length ?ys" "n \<le> length ?ys" using True assms len by linarith+
  have "on_range a b (rotate_right n) xs ! i = rotate_right n ?ys ! (i - a)"
    by (subst nth_on_range) (use True assms in simp_all)
  also have "\<dots> = (if i - a < n then ?ys ! (b + 1 - a - n + (i - a)) else ?ys ! (i - a - n))"
    unfolding nth_rotate(1) [OF ia] len by (rule refl)
  also have "\<dots> = (if i < a + n then xs ! (b + 1 - n + (i - a)) else xs ! (i - n))"
  proof (cases "i < a + n")
    case c: True
    then have cond: "i - a < n" "b + 1 - a - n + (i - a) < b + 1 - a" "a + (b + 1 - a - n + (i - a)) = b + 1 - n + (i - a)"
      using True assms by arith+
    show ?thesis unfolding if_P [OF cond(1)] if_P [OF c] seg [OF cond(2)] cond(3) ..
  next
    case c: False
    then have cond: "\<not> i - a < n" "i - a - n < b + 1 - a" "a + (i - a - n) = i - n" using True assms by arith+
    show ?thesis unfolding if_not_P [OF cond(1)] if_not_P [OF c] seg [OF cond(2)] cond(3) ..
  qed
  finally show ?thesis using True by simp
next
  case False
  then show ?thesis by (subst nth_on_range) (use assms in auto)
qed

lemma on_range_rotate_left:
  assumes "a \<le> b" "b < length xs" "i < length xs" "n \<le> b + 1 - a"
  shows "on_range a b (rotate_left n) xs ! i =
    (if a \<le> i \<and> i \<le> b then (if i + n \<le> b then xs ! (i + n) else xs ! (i + n - (b + 1 - a))) else xs ! i)"
proof (cases "a \<le> i \<and> i \<le> b")
  case True
  let ?ys = "take (b + 1 - a) (drop a xs)"
  have seg: "?ys ! j = xs ! (a + j)" if "j < b + 1 - a" for j using that assms(2) by simp
  have len: "length ?ys = b + 1 - a" using assms(2) by simp
  have ia: "i - a < length ?ys" "n \<le> length ?ys" using True assms len by linarith+
  have "on_range a b (rotate_left n) xs ! i = rotate_left n ?ys ! (i - a)"
    by (subst nth_on_range) (use True assms in simp_all)
  also have "\<dots> = (if i - a + n < b + 1 - a then ?ys ! (i - a + n) else ?ys ! (i - a + n - (b + 1 - a)))"
    unfolding nth_rotate(2) [OF ia] len by (rule refl)
  also have "\<dots> = (if i + n \<le> b then xs ! (i + n) else xs ! (i + n - (b + 1 - a)))"
  proof (cases "i + n \<le> b")
    case c: True
    then have cond: "i - a + n < b + 1 - a" "a + (i - a + n) = i + n" using True assms by arith+
    show ?thesis unfolding if_P [OF cond(1)] if_P [OF c] seg [OF cond(1)] cond(2) ..
  next
    case c: False
    then have cond: "\<not> i - a + n < b + 1 - a" "i - a + n - (b + 1 - a) < b + 1 - a"
      "a + (i - a + n - (b + 1 - a)) = i + n - (b + 1 - a)" using True assms by arith+
    show ?thesis unfolding if_not_P [OF cond(1)] if_not_P [OF c] seg [OF cond(2)] cond(3) ..
  qed
  finally show ?thesis using True by simp
next
  case False
  then show ?thesis by (subst nth_on_range) (use assms in auto)
qed

lemma on_range_const:
  assumes "a \<le> b" "b < length xs" "i < length xs"
  shows "on_range a b (map (\<lambda>_. c)) xs ! i = (if a \<le> i \<and> i \<le> b then c else xs ! i)"
  by (subst nth_on_range) (use assms in auto)

lemma nth_clear_wide:
  assumes "i < length cs" "j < length cs"
  shows "clear_wide_cells i st cs ! j = (if other_half i cs = Some j then blank_half st (cs ! j) else cs ! j)"
  using assms by (auto simp: clear_wide_cells_def split: option.split)

lemma halves_update [simp]:
  "left_half (cs[i := c]) j = (if i = j \<and> i < length cs then is_wide c else left_half cs j)"
  "right_half (cs[i := c]) j = (if i = j \<and> i < length cs then is_continuation c else right_half cs j)"
  by (auto simp: left_half_def right_half_def nth_list_update)

lemma not_both_halves: "left_half cs i \<Longrightarrow> \<not> right_half cs i"
  using not_both by (auto simp: left_half_def right_half_def)

lemma halves_clear_wide [simp]:
  shows "left_half (clear_wide_cells i st cs) j = (left_half cs j \<and> \<not> (left_half cs i \<and> j = Suc i) \<and> \<not> (right_half cs i \<and> Suc j = i))"
    and "right_half (clear_wide_cells i st cs) j = (right_half cs j \<and> \<not> (left_half cs i \<and> j = Suc i) \<and> \<not> (right_half cs i \<and> Suc j = i))"
proof -
  have o: "i < length cs \<Longrightarrow> other_half i cs = Some j \<longleftrightarrow> left_half cs i \<and> j = Suc i \<or> right_half cs i \<and> Suc j = i"
    using not_both [of "cs ! i"] by (auto simp: other_half_def left_half_def right_half_def)
  have out: "\<not> i < length cs \<Longrightarrow> clear_wide_cells i st cs = cs \<and> \<not> left_half cs i \<and> \<not> right_half cs i"
    by (simp add: clear_wide_cells_def left_half_def right_half_def)
  show "left_half (clear_wide_cells i st cs) j = (left_half cs j \<and> \<not> (left_half cs i \<and> j = Suc i) \<and> \<not> (right_half cs i \<and> Suc j = i))"
    using o out nth_clear_wide [of i cs j st] by (cases "i < length cs"; cases "j < length cs") (auto simp: left_half_def [of _ j])
  show "right_half (clear_wide_cells i st cs) j = (right_half cs j \<and> \<not> (left_half cs i \<and> j = Suc i) \<and> \<not> (right_half cs i \<and> Suc j = i))"
    using o out nth_clear_wide [of i cs j st] by (cases "i < length cs"; cases "j < length cs") (auto simp: right_half_def [of _ j])
qed

lemma whole_blanks: "whole (replicate n cell_empty)" "whole (replicate n (cell_blank st))"
  by (auto simp: whole_iff left_half_def right_half_def)

lemma whole_row_clear: "whole (r_cells (row_clear st r))"
  by (simp add: row_clear_def map_replicate_const whole_blanks)

lemma whole_set_plain:
  assumes "whole cs" "plain_cell c" "i < length cs"
  shows "whole ((clear_wide_cells i st cs)[i := c])"
  using assms not_both_halves [of cs] unfolding whole_iff plain_cell_def by auto

lemma whole_row_set: "whole (r_cells r) \<Longrightarrow> plain_cell c \<Longrightarrow> whole (r_cells (row_set i c r))"
  by (simp add: row_set_def whole_set_plain)

lemma whole_row_erase: "whole (r_cells r) \<Longrightarrow> whole (r_cells (row_erase i st r))"
  by (simp add: row_erase_def Let_def whole_set_plain plain_cell_def)

text \<open>A wide character is set by its two halves.\<close>

lemma whole_set_wide:
  assumes "whole cs" "is_wide c" "is_continuation d" "Suc i < length cs"
  shows "whole ((clear_wide_cells (Suc i) st' ((clear_wide_cells i st cs)[i := c]))[Suc i := d])"
proof -
  let ?cs = "(clear_wide_cells i st cs)[i := c]"
  have i: "i < length cs" "Suc i < length ?cs" using assms(4) by simp_all
  have nr: "\<not> right_half ?cs (Suc i)"
    using assms(1,4) by (auto simp: whole_iff)
  show ?thesis
    using assms not_both [OF assms(2)] not_both [of d] nr not_both_halves [of cs] i unfolding whole_iff
    by auto
qed


lemma insert_blanks_nth:
  assumes "col \<le> right" "right < length cs" "0 < n" "n \<le> right + 1 - col" "j < length cs"
  shows "on_range col (col + n - 1) (map (\<lambda>_. c)) (on_range col right (rotate_right n) cs) ! j =
    (if col \<le> j \<and> j < col + n then c else if col + n \<le> j \<and> j \<le> right then cs ! (j - n) else cs ! j)"
proof -
  have a: "col \<le> col + n - 1" "col + n - 1 < length (on_range col right (rotate_right n) cs)"
    "j < length (on_range col right (rotate_right n) cs)"
    using assms by simp_all
  have lt: "col \<le> j \<and> j \<le> col + n - 1 \<longleftrightarrow> col \<le> j \<and> j < col + n" using assms(3) by auto
  have no: "\<not> (col \<le> j \<and> j < col + n) \<Longrightarrow> on_range col right (rotate_right n) cs ! j =
      (if col + n \<le> j \<and> j \<le> right then cs ! (j - n) else cs ! j)"
    using on_range_rotate_right [OF assms(1,2,5,4)] by auto
  show ?thesis using on_range_const [OF a, of c] no unfolding lt by auto
qed

lemma delete_cells_nth:
  assumes "col \<le> right" "right < length cs" "0 < n" "n \<le> right + 1 - col" "j < length cs"
  shows "on_range (right + 1 - n) right (map (\<lambda>_. c)) (on_range col right (rotate_left n) cs) ! j =
    (if right + 1 - n \<le> j \<and> j \<le> right then c else if col \<le> j \<and> j \<le> right then cs ! (j + n) else cs ! j)"
proof -
  have a: "right + 1 - n \<le> right" "right < length (on_range col right (rotate_left n) cs)"
    "j < length (on_range col right (rotate_left n) cs)"
    using assms by simp_all
  have "\<not> (right + 1 - n \<le> j \<and> j \<le> right) \<Longrightarrow> on_range col right (rotate_left n) cs ! j =
      (if col \<le> j \<and> j \<le> right then cs ! (j + n) else cs ! j)"
    using on_range_rotate_left [OF assms(1,2,5,4)] by auto
  then show ?thesis using on_range_const [OF a, of c] by auto
qed

lemma whole_insert_blanks:
  assumes "whole (r_cells r)" "right + 1 = length (r_cells r)"
  shows "whole (r_cells (insert_blanks col n right st r))"
proof (cases "right < col \<or> min n (right + 1 - col) = 0")
  case False
  define m where "m = min n (right + 1 - col)"
  define cs1 where "cs1 = (if is_continuation (r_cells r ! col) then (clear_wide_cells col st (r_cells r))[col := cell_blank st] else r_cells r)"
  define cs3 where "cs3 = on_range col (col + m - 1) (map (\<lambda>_. cell_blank st)) (on_range col right (rotate_right m) cs1)"
  have b: "col \<le> right" "right < length cs1" "0 < m" "m \<le> right + 1 - col" "length cs1 = right + 1" "length cs3 = right + 1"
    using False assms(2) by (auto simp: m_def cs1_def cs3_def)
  have w: "whole cs1" "\<not> right_half cs1 col"
    using assms(1) b whole_set_plain [of "r_cells r" "cell_blank st" col st]
    by (auto simp: cs1_def plain_cell_def right_half_def)
  have nth: "cs3 ! j = (if col \<le> j \<and> j < col + m then cell_blank st else if col + m \<le> j then cs1 ! (j - m) else cs1 ! j)"
    if "j < right + 1" for j
    using insert_blanks_nth [OF b(1-4), of j "cell_blank st"] that b by (auto simp: cs3_def)
  have left: "left_half cs3 j = (j \<le> right \<and> \<not> (col \<le> j \<and> j < col + m) \<and> left_half cs1 (if col \<le> j then j - m else j))" for j
    using nth [of j] b by (auto simp: left_half_def split: if_splits)
  have rt: "right_half cs3 j = (j \<le> right \<and> \<not> (col \<le> j \<and> j < col + m) \<and> right_half cs1 (if col \<le> j then j - m else j))" for j
    using nth [of j] b by (auto simp: right_half_def split: if_splits)
  have shift: "left_half cs1 (j - m) = right_half cs1 (Suc j - m)" if "col + m \<le> j" for j
    using w(1) that by (simp add: whole_iff Suc_diff_le)
  have edge: "right_half cs1 (Suc j - m) = False" if "Suc j = col + m" for j
    using w(2) that by simp
  have col: "left_half cs1 j = False" if "Suc j = col" for j using w that by (simp add: whole_iff)
  have eq: "left_half cs3 j = right_half cs3 (Suc j)" if "j < right" for j
  proof -
    consider "Suc j < col" | "Suc j = col" | "col \<le> j" "Suc j < col + m" | "col \<le> j" "Suc j = col + m" | "col + m \<le> j" by linarith
    then show ?thesis
    proof cases
      case 1
      then show ?thesis using w(1) that by (simp add: left rt whole_iff)
    next
      case 2
      then show ?thesis using col [OF 2] b by (simp add: left rt)
    next
      case 3
      then show ?thesis by (simp add: left rt)
    next
      case 4
      then show ?thesis using edge [OF 4(2)] b by (simp add: left rt)
    next
      case 5
      then show ?thesis using shift [OF 5] that b by (simp add: left rt)
    qed
  qed
  have zero: "\<not> right_half cs3 0" using w(1) b by (simp add: rt whole_iff)
  have "whole (if is_wide (cs3 ! right) then cs3[right := cell_blank st] else cs3)"
  proof (cases "is_wide (cs3 ! right)")
    case True
    have "left_half (cs3[right := cell_blank st]) j = right_half (cs3[right := cell_blank st]) (Suc j)" for j
    proof (cases "j < right")
      case l: True
      have "Suc j = right \<Longrightarrow> \<not> right_half cs3 right" using True b not_both by (simp add: right_half_def)
      then show ?thesis using eq [OF l] l b by auto
    qed (use b in \<open>auto simp: left_half_def right_half_def nth_list_update\<close>)
    moreover have "\<not> right_half (cs3[right := cell_blank st]) 0" using zero by simp
    ultimately show ?thesis using True by (simp add: whole_iff)
  next
    case n: False
    have "left_half cs3 j = right_half cs3 (Suc j)" for j
    proof (cases "j < right")
      case False
      then show ?thesis using n b by (cases "j = right") (auto simp: left_half_def right_half_def)
    qed (rule eq)
    then show ?thesis using n zero by (simp add: whole_iff)
  qed
  moreover have "r_cells (insert_blanks col n right st r) = (if is_wide (cs3 ! right) then cs3[right := cell_blank st] else cs3)"
    using False assms(2) unfolding insert_blanks_def Let_def m_def cs1_def cs3_def by auto
  ultimately show ?thesis by simp
qed (use assms in \<open>auto simp: insert_blanks_def Let_def\<close>)

lemma whole_delete_cells:
  assumes "whole (r_cells r)" "right + 1 = length (r_cells r)"
  shows "whole (r_cells (delete_cells col n right st r))"
proof (cases "right < col \<or> min n (right + 1 - col) = 0")
  case False
  define m where "m = min n (right + 1 - col)"
  define cs1 where "cs1 = clear_wide_cells (col + m - 1) st (clear_wide_cells col st (r_cells r))"
  define cs3 where "cs3 = on_range (right + 1 - m) right (map (\<lambda>_. cell_blank st)) (on_range col right (rotate_left m) cs1)"
  have b: "col \<le> right" "right < length cs1" "0 < m" "m \<le> right + 1 - col" "length cs1 = right + 1" "length cs3 = right + 1"
    using False assms(2) by (auto simp: m_def cs1_def cs3_def)
  note w = assms(1) [unfolded whole_iff]
  have both: "left_half (r_cells r) j \<Longrightarrow> \<not> right_half (r_cells r) j" for j by (rule not_both_halves)
  have nth: "cs3 ! j = (if right + 1 - m \<le> j then cell_blank st else if col \<le> j then cs1 ! (j + m) else cs1 ! j)"
    if "j < right + 1" for j
    using delete_cells_nth [OF b(1-4), of j "cell_blank st"] that b by (auto simp: cs3_def)
  have left: "left_half cs3 j = (j + m \<le> right \<and> left_half cs1 (if col \<le> j then j + m else j) \<or>
      right < j + m \<and> j < col \<and> j + m < right + 1 \<and> left_half cs1 j)" for j
    using nth [of j] b by (auto simp: left_half_def split: if_splits)
  have rt: "right_half cs3 j = (j + m \<le> right \<and> right_half cs1 (if col \<le> j then j + m else j))" for j
    using nth [of j] b by (auto simp: right_half_def split: if_splits)
  have edge1: "\<not> left_half cs1 j" if "Suc j = col" for j
    using that w by (auto simp: cs1_def)
  have edge2: "\<not> right_half cs1 (col + m)"
    using w both [of col] both [of "Suc col"] b(3) by (cases m) (auto simp: cs1_def)
  have edge3: "\<not> right_half cs1 0 \<or> col = 0" using w by (auto simp: cs1_def)
  have mid: "left_half cs1 j = right_half cs1 (Suc j)" if "Suc j < col \<or> col + m \<le> j" for j
  proof -
    have w0: "left_half (r_cells r) i = right_half (r_cells r) (Suc i)" for i using w by simp
    note h = w0 [of col] w0 [of j] w0 [of "Suc j"] w0 [of "col + m - 1"] both [of "Suc j"] both [of j] both [of "col + m - 1"]
    from that show ?thesis
    proof
      assume "Suc j < col"
      then show ?thesis using h b(3) by (auto simp: cs1_def)
    next
      assume "col + m \<le> j"
      then show ?thesis using h b(3) by (auto simp: cs1_def)
    qed
  qed
  have last: "\<not> left_half cs1 right" if "col + m \<le> right" using mid [of right] that b by (simp add: right_half_def)
  have "left_half cs3 j = right_half cs3 (Suc j)" for j
  proof -
    consider "Suc j < col" | "Suc j = col" | "col \<le> j" by linarith
    then show ?thesis
    proof cases
      case 1
      then show ?thesis using mid [of j] b by (auto simp: left rt)
    next
      case 2
      then show ?thesis using edge1 [OF 2] edge2 by (auto simp: left rt)
    next
      case 3
      then show ?thesis using mid [of "j + m"] last b by (cases "j + m = right") (auto simp: left rt)
    qed
  qed
  moreover have "\<not> right_half cs3 0" using edge2 edge3 b by (auto simp: rt)
  moreover have "r_cells (delete_cells col n right st r) = cs3"
    using False assms(2) unfolding delete_cells_def Let_def m_def cs1_def cs3_def by auto
  ultimately show ?thesis by (simp add: whole_iff)
qed (use assms in \<open>auto simp: delete_cells_def Let_def\<close>)

end
