(* ===== verification/Term_Style.thy ===== *)
theory Term_Style
  imports Term_Row
begin

text \<open>
  What a cell looks like (\<open>src/src/term/style.rs\<close>, \<open>src/src/term/color.rs\<close>): colors and attribute bits, and
  the table styles are interned in. An id is a number into that table; tables only grow.
\<close>

section \<open>Styles\<close>

datatype color = DefaultColor | Idx byte | Rgb byte byte byte

datatype underline = NoUnderline | SingleUnderline | DoubleUnderline | Curly | Dotted | Dashed

record style =
  st_fg :: color
  st_bg :: color
  st_ul :: color
  st_link :: nat
  st_attrs :: "16 word"

definition style_default :: style where
  "style_default = \<lparr>st_fg = DefaultColor, st_bg = DefaultColor, st_ul = DefaultColor, st_link = 0, st_attrs = 0\<rparr>"

definition attr_bold :: nat where "attr_bold = 0"
definition attr_italic :: nat where "attr_italic = 1"
definition attr_underline :: nat where "attr_underline = 2"
definition attr_inverse :: nat where "attr_inverse = 3"
definition attr_dim :: nat where "attr_dim = 8"
definition attr_blink :: nat where "attr_blink = 9"
definition attr_hidden :: nat where "attr_hidden = 10"
definition attr_strike :: nat where "attr_strike = 11"
definition attr_overline :: nat where "attr_overline = 12"
definition ul_shift :: nat where "ul_shift = 13"

text \<open>An attribute is the bit of that number.\<close>

definition style_flag :: "nat \<Rightarrow> style \<Rightarrow> bool" where
  "style_flag n st = bit (st_attrs st) n"

definition set_flag :: "nat \<Rightarrow> bool \<Rightarrow> style \<Rightarrow> style" where
  "set_flag n on st = st\<lparr>st_attrs := (if on then set_bit n (st_attrs st) else unset_bit n (st_attrs st))\<rparr>"

fun underline_code :: "underline \<Rightarrow> nat" where
  "underline_code NoUnderline = 0"
| "underline_code SingleUnderline = 1"
| "underline_code DoubleUnderline = 2"
| "underline_code Curly = 3"
| "underline_code Dotted = 4"
| "underline_code Dashed = 5"

definition underline_of :: "nat \<Rightarrow> underline" where
  "underline_of n =
     (if n = 1 then SingleUnderline else if n = 2 then DoubleUnderline else if n = 3 then Curly
      else if n = 4 then Dotted else if n = 5 then Dashed else NoUnderline)"

definition style_underline :: "style \<Rightarrow> underline" where
  "style_underline st =
     (if style_flag attr_underline st
      then (case underline_of (unat (drop_bit ul_shift (st_attrs st AND push_bit ul_shift 7))) of
              NoUnderline \<Rightarrow> SingleUnderline
            | u \<Rightarrow> u)
      else NoUnderline)"

definition set_underline :: "underline \<Rightarrow> style \<Rightarrow> style" where
  "set_underline u st =
     (let st = st\<lparr>st_attrs := st_attrs st AND NOT (push_bit ul_shift 7)\<rparr>
      in if u = NoUnderline then set_flag attr_underline False st
         else set_flag attr_underline True (st\<lparr>st_attrs := st_attrs st OR push_bit ul_shift (of_nat (underline_code u))\<rparr>))"

definition is_visible_blank :: "style \<Rightarrow> bool" where
  "is_visible_blank st =
     (st_bg st \<noteq> DefaultColor \<or> style_flag attr_inverse st \<or> style_flag attr_underline st \<or>
      style_flag attr_strike st \<or> style_flag attr_overline st)"

section \<open>The table of styles\<close>

record style_table =
  tab_styles :: "style list"
  tab_index :: "(style, nat) hm"

definition style_lookup :: "style \<Rightarrow> style_table \<Rightarrow> nat option" where
  "style_lookup st tab = hm_get (tab_index tab) st"

definition style_intern :: "style \<Rightarrow> style_table \<Rightarrow> nat \<times> style_table" where
  "style_intern st tab =
     (case style_lookup st tab of
        Some i \<Rightarrow> (i, tab)
      | None \<Rightarrow>
          (let i = length (tab_styles tab)
           in (i, \<lparr>tab_styles = tab_styles tab @ [st], tab_index = hm_put st i (tab_index tab)\<rparr>)))"

definition style_table_new :: style_table where
  "style_table_new = snd (style_intern style_default \<lparr>tab_styles = [], tab_index = []\<rparr>)"

definition style_get :: "nat \<Rightarrow> style_table \<Rightarrow> style" where
  "style_get i tab = (if i < length (tab_styles tab) then tab_styles tab ! i else style_default)"

section \<open>The tables of a grid\<close>

record link =
  lk_uri :: "byte list"
  lk_id :: "byte list option"

record link_table =
  lt_links :: "link list"
  lt_index :: "(link, nat) hm"

definition max_links :: nat where "max_links = 2 ^ 16"

definition link_intern :: "link \<Rightarrow> link_table \<Rightarrow> nat \<times> link_table" where
  "link_intern l tab =
     (case hm_get (lt_index tab) l of
        Some i \<Rightarrow> (i, tab)
      | None \<Rightarrow>
          (if max_links \<le> length (lt_links tab) then (0, tab)
           else (let i = length (lt_links tab) + 1
                 in (i, \<lparr>lt_links = lt_links tab @ [l], lt_index = hm_put l i (lt_index tab)\<rparr>))))"

definition link_get :: "nat \<Rightarrow> link_table \<Rightarrow> link option" where
  "link_get i tab = (if i = 0 then None else if i - 1 < length (lt_links tab) then Some (lt_links tab ! (i - 1)) else None)"

record tables =
  tb_styles :: style_table
  tb_graphemes :: grapheme_table
  tb_links :: link_table

definition tables_new :: tables where
  "tables_new = \<lparr>tb_styles = style_table_new, tb_graphemes = gt_empty, tb_links = \<lparr>lt_links = [], lt_index = []\<rparr>\<rparr>"

definition intern_style_in :: "style \<Rightarrow> tables \<Rightarrow> nat \<times> tables" where
  "intern_style_in st t = (let (i, tab) = style_intern st (tb_styles t) in (i, t\<lparr>tb_styles := tab\<rparr>))"

section \<open>Interning\<close>

text \<open>The index has each style of the table, at its place.\<close>

definition style_table_ok :: "style_table \<Rightarrow> bool" where
  "style_table_ok tab =
     (distinct (tab_styles tab) \<and> tab_styles tab \<noteq> [] \<and> hd (tab_styles tab) = style_default \<and>
      (\<forall>st i. hm_get (tab_index tab) st = Some i \<longleftrightarrow> i < length (tab_styles tab) \<and> tab_styles tab ! i = st))"

lemma style_table_new_ok: "style_table_ok style_table_new"
  by (auto simp: style_table_ok_def style_table_new_def style_intern_def style_lookup_def Let_def)

lemma style_intern_ok:
  assumes "style_table_ok tab" "style_intern st tab = (i, tab')"
  shows "style_table_ok tab' \<and> style_get i tab' = st \<and> i < length (tab_styles tab') \<and>
    (\<exists>more. tab_styles tab' = tab_styles tab @ more)"
proof (cases "style_lookup st tab")
  case (Some j)
  then show ?thesis using assms by (auto simp: style_intern_def style_table_ok_def style_lookup_def style_get_def)
next
  case None
  then have new: "st \<notin> set (tab_styles tab)"
    using assms(1) unfolding style_table_ok_def style_lookup_def by (metis in_set_conv_nth option.distinct(1))
  have t: "i = length (tab_styles tab)" "tab' = \<lparr>tab_styles = tab_styles tab @ [st], tab_index = hm_put st i (tab_index tab)\<rparr>"
    using assms(2) None by (auto simp: style_intern_def Let_def)
  have "hm_get (tab_index tab') u = Some j \<longleftrightarrow> j < length (tab_styles tab') \<and> tab_styles tab' ! j = u" for u j
    using assms(1) new None unfolding t style_table_ok_def style_lookup_def
    by (auto simp: nth_append less_Suc_eq)
  then show ?thesis using assms(1) new t by (auto simp: style_table_ok_def style_get_def)
qed

text \<open>An id that was handed out keeps its style whatever is interned later.\<close>

lemma style_get_intern:
  assumes "style_table_ok tab" "style_intern st tab = (i, tab')" "j < length (tab_styles tab)"
  shows "style_get j tab' = style_get j tab"
  using style_intern_ok [OF assms(1,2)] assms(3) by (auto simp: style_get_def nth_append)

lemma style_flag_set: "n < 16 \<Longrightarrow> style_flag m (set_flag n on st) = (if m = n then on else style_flag m st)"
  by (auto simp: style_flag_def set_flag_def bit_simps)

end
