(* ===== verification/Term_History.thy ===== *)
theory Term_History
  imports Term_Style
begin

text \<open>
  The scrollback (\<open>src/src/term/history.rs\<close>): rows that left the screen, joined into the lines they were
  wrapped from, as text with run-length cells and styles, and wrapped again for any width. The width of
  a scalar is the argument \<open>cw\<close>, as in \<open>Term_Cell\<close>.
\<close>

section \<open>Wrapping\<close>

text \<open>Where each cell of a list of widths starts, and the position after the last.\<close>

fun wrap_from :: "nat \<Rightarrow> nat \<Rightarrow> nat \<Rightarrow> nat list \<Rightarrow> (nat \<times> nat) list \<times> nat \<times> nat" where
  "wrap_from width r c [] = ([], r, c)"
| "wrap_from width r c (w # ws) =
     (if w = 0 then (let (ps, e) = wrap_from width r c ws in ((r, c - 1) # ps, e))
      else if width < c + w \<and> 0 < c
      then (let (ps, e) = wrap_from width (r + 1) w ws in ((r + 1, 0) # ps, e))
      else (let (ps, e) = wrap_from width r (c + w) ws in ((r, c) # ps, e)))"

definition wrap_cells :: "nat \<Rightarrow> nat list \<Rightarrow> (nat \<times> nat) list \<times> nat \<times> nat" where
  "wrap_cells width ws = wrap_from (max width 1) 0 0 ws"

abbreviation "wrap_positions width ws \<equiv> fst (wrap_cells width ws)"
abbreviation "wrap_end width ws \<equiv> snd (wrap_cells width ws)"

section \<open>Lines\<close>

record line =
  l_text :: "byte list"
  l_cells :: "(nat \<times> nat) list"
  l_styles :: "(style \<times> nat) list"

definition line_empty :: line where
  "line_empty = \<lparr>l_text = [], l_cells = [], l_styles = []\<rparr>"

definition max_line_cells :: nat where "max_line_cells = 2 ^ 16"
definition max_cell_bytes :: nat where "max_cell_bytes = 255"
definition u16_max :: nat where "u16_max = 65535"

text \<open>Runs of equal values, each no longer than a \<open>u16\<close> counts.\<close>

definition push_run :: "'a \<Rightarrow> ('a \<times> nat) list \<Rightarrow> ('a \<times> nat) list" where
  "push_run v runs =
     (if runs \<noteq> [] \<and> fst (List.last runs) = v \<and> snd (List.last runs) < u16_max
      then butlast runs @ [(v, snd (List.last runs) + 1)] else runs @ [(v, 1)])"

definition expand_runs :: "('a \<times> nat) list \<Rightarrow> 'a list" where
  "expand_runs runs = concat (map (\<lambda>(v, n). replicate n v) runs)"

definition cell_count :: "line \<Rightarrow> nat" where
  "cell_count l = sum_list (map snd (l_cells l))"

definition line_cell_text :: "grapheme_table \<Rightarrow> cell \<Rightarrow> byte list" where
  "line_cell_text gt c =
     (let text = (if ct_is_image (c_text c) then [0x20] else ct_str gt (c_text c));
          text = (if text = [] then [0x20] else text)
      in if max_cell_bytes < length text then replacement_str else text)"

definition push_cell :: "style_table \<Rightarrow> grapheme_table \<Rightarrow> cell \<Rightarrow> line \<Rightarrow> line" where
  "push_cell tab gt c l =
     (if ct_is_filler (c_text c) then l
      else (let l1 = (if is_continuation c then l\<lparr>l_cells := push_run 0 (l_cells l)\<rparr>
                      else (let text = line_cell_text gt c
                            in l\<lparr>l_text := l_text l @ text, l_cells := push_run (length text) (l_cells l)\<rparr>))
            in l1\<lparr>l_styles := push_run (style_get (c_style c) tab) (l_styles l1)\<rparr>))"

definition push_cells :: "cell list \<Rightarrow> style_table \<Rightarrow> grapheme_table \<Rightarrow> line \<Rightarrow> line" where
  "push_cells cs tab gt l = fold (push_cell tab gt) cs l"

record line_cell =
  lc_text :: "byte list"
  lc_style :: style
  lc_width :: nat

text \<open>\<open>str::get\<close> of a range: it has to start and end between characters.\<close>

definition char_boundary :: "byte list \<Rightarrow> nat \<Rightarrow> bool" where
  "char_boundary text i = (i = 0 \<or> i = length text \<or> i < length text \<and> \<not> cont_byte (text ! i))"

definition str_range :: "byte list \<Rightarrow> nat \<Rightarrow> nat \<Rightarrow> byte list option" where
  "str_range text a b =
     (if a \<le> b \<and> b \<le> length text \<and> char_boundary text a \<and> char_boundary text b
      then Some (take (b - a) (drop a text)) else None)"

definition line_cell_width :: "(nat \<Rightarrow> nat option) \<Rightarrow> nat \<Rightarrow> byte list \<Rightarrow> nat" where
  "line_cell_width cw n text =
     (if n = 0 then 0 else if text = [0x20] then 1 else max (cluster_width cw text) 1)"

text \<open>The iterator over the cells: lengths in bytes and styles, one after the other.\<close>

fun line_cells_from :: "(nat \<Rightarrow> nat option) \<Rightarrow> byte list \<Rightarrow> nat \<Rightarrow> nat list \<Rightarrow> style list \<Rightarrow> line_cell list" where
  "line_cells_from cw text at [] sts = []"
| "line_cells_from cw text at (n # ns) sts =
     (let stop = min (at + n) (length text);
          t = (case str_range text at stop of None \<Rightarrow> [] | Some t \<Rightarrow> t);
          st = (case sts of [] \<Rightarrow> style_default | st # _ \<Rightarrow> st)
      in \<lparr>lc_text = t, lc_style = st, lc_width = line_cell_width cw n t\<rparr> # line_cells_from cw text stop ns (tl sts))"

definition line_cells :: "(nat \<Rightarrow> nat option) \<Rightarrow> line \<Rightarrow> line_cell list" where
  "line_cells cw l = line_cells_from cw (l_text l) 0 (expand_runs (l_cells l)) (expand_runs (l_styles l))"

definition line_widths :: "(nat \<Rightarrow> nat option) \<Rightarrow> line \<Rightarrow> nat list" where
  "line_widths cw l = map lc_width (line_cells cw l)"

definition line_rows_at :: "(nat \<Rightarrow> nat option) \<Rightarrow> nat \<Rightarrow> line \<Rightarrow> nat" where
  "line_rows_at cw width l =
     (if cell_count l \<le> max width 1 then 1
      else (let ps = wrap_positions width (line_widths cw l) in if ps = [] then 1 else fst (List.last ps) + 1))"

fun position_of :: "nat \<Rightarrow> (nat \<times> nat) list \<Rightarrow> nat option" where
  "position_of r [] = None"
| "position_of r (p # ps) = (if fst p = r then Some 0 else map_option Suc (position_of r ps))"

definition offset_of_row :: "(nat \<Rightarrow> nat option) \<Rightarrow> nat \<Rightarrow> nat \<Rightarrow> line \<Rightarrow> nat" where
  "offset_of_row cw width r l =
     (if r = 0 then 0
      else case position_of r (wrap_positions width (line_widths cw l)) of None \<Rightarrow> cell_count l | Some i \<Rightarrow> i)"

definition row_col_of :: "(nat \<Rightarrow> nat option) \<Rightarrow> nat \<Rightarrow> nat \<Rightarrow> line \<Rightarrow> nat \<times> nat" where
  "row_col_of cw width offset l =
     (let width = max width 1; ps = wrap_positions width (line_widths cw l)
      in if offset < length ps then ps ! offset
         else (let (r, c) = wrap_end width (line_widths cw l); extra = offset - length ps; room = width - c
               in if extra < room then (r, c + extra)
                  else (r + 1 + (extra - room) div width, (extra - room) mod width)))"

text \<open>The rows of a line at a width, as rows of a screen.\<close>

record line_build =
  lb_rows :: "row list"
  lb_cells :: "cell list"
  lb_current :: nat
  lb_last :: "style \<times> nat"
  lb_tables :: tables

definition blank_cell_text :: "byte list \<Rightarrow> nat \<Rightarrow> grapheme_table \<Rightarrow> cell_text \<times> grapheme_table" where
  "blank_cell_text text width gt = (if text = [0x20] then (ct_empty, gt) else ct_of text width gt)"

definition finish_row :: "nat \<Rightarrow> nat \<Rightarrow> line_build \<Rightarrow> line_build" where
  "finish_row width r lb =
     (if r = lb_current lb then lb
      else (let pad = (if lb_cells lb = [] then 0 else c_style (List.last (lb_cells lb)));
                full = lb_cells lb @ replicate (width - length (lb_cells lb)) (cell_filler pad)
            in lb\<lparr>lb_rows := lb_rows lb @ [row_wrap True (row_from_cells full width)], lb_cells := [], lb_current := r\<rparr>))"

definition line_style :: "style \<Rightarrow> line_build \<Rightarrow> nat \<times> line_build" where
  "line_style st lb =
     (if st = fst (lb_last lb) then (snd (lb_last lb), lb)
      else (let (i, t) = intern_style_in st (lb_tables lb) in (i, lb\<lparr>lb_tables := t, lb_last := (st, i)\<rparr>)))"

definition build_cell :: "nat \<Rightarrow> line_cell \<times> (nat \<times> nat) \<Rightarrow> line_build \<Rightarrow> line_build" where
  "build_cell width cp lb =
     (case cp of (c, (r, _)) \<Rightarrow>
        if lc_width c = 0 then lb
        else (let (st, lb) = line_style (lc_style c) (finish_row width r lb);
                  (t, gt) = blank_cell_text (lc_text c) (lc_width c) (tb_graphemes (lb_tables lb));
                  cells = lb_cells lb @ [cell_new t st] @ (if lc_width c = 2 then [cell_new ct_continuation st] else [])
              in lb\<lparr>lb_cells := cells, lb_tables := (lb_tables lb)\<lparr>tb_graphemes := gt\<rparr>\<rparr>))"

definition line_rows :: "(nat \<Rightarrow> nat option) \<Rightarrow> nat \<Rightarrow> line \<Rightarrow> tables \<Rightarrow> row list \<times> tables" where
  "line_rows cw width l t =
     (let width = max width 1;
          lb = fold (build_cell width) (zip (line_cells cw l) (wrap_positions width (line_widths cw l)))
                 \<lparr>lb_rows = [], lb_cells = [], lb_current = 0, lb_last = (style_default, 0), lb_tables = t\<rparr>
      in (lb_rows lb @ [row_from_cells (lb_cells lb) width], lb_tables lb))"

section \<open>The scrollback of a grid\<close>

record history =
  sb_lines :: "line list"
  sb_capacity :: nat
  sb_open :: bool
  sb_rows :: "(nat \<times> nat) option"

definition history_new :: "nat \<Rightarrow> history" where
  "history_new capacity = \<lparr>sb_lines = [], sb_capacity = capacity, sb_open = False, sb_rows = None\<rparr>"

text \<open>\<open>MemoryStore::push\<close>: the line dropped at the front to make room, if one was.\<close>

definition store_push :: "line \<Rightarrow> history \<Rightarrow> line option \<times> history" where
  "store_push l h =
     (if sb_capacity h = 0 then (None, h)
      else (let lines = sb_lines h @ [l]
            in if sb_capacity h < length lines then (Some (hd lines), h\<lparr>sb_lines := tl lines\<rparr>)
               else (None, h\<lparr>sb_lines := lines\<rparr>)))"

definition rows_added :: "(nat \<Rightarrow> nat option) \<Rightarrow> line \<Rightarrow> history \<Rightarrow> history" where
  "rows_added cw l h = h\<lparr>sb_rows := map_option (\<lambda>(w, n). (w, n + line_rows_at cw w l)) (sb_rows h)\<rparr>"

definition rows_removed :: "(nat \<Rightarrow> nat option) \<Rightarrow> line \<Rightarrow> history \<Rightarrow> history" where
  "rows_removed cw l h = h\<lparr>sb_rows := map_option (\<lambda>(w, n). (w, n - line_rows_at cw w l)) (sb_rows h)\<rparr>"

definition history_commit :: "(nat \<Rightarrow> nat option) \<Rightarrow> row \<Rightarrow> tables \<Rightarrow> history \<Rightarrow> history" where
  "history_commit cw r t h =
     (if sb_capacity h = 0 then h
      else
        (let len = (if r_wrapped r then length (r_cells r)
                    else used_len (\<lambda>i. is_visible_blank (style_get i (tb_styles t))) r);
             cells = take len (r_cells r);
             appending = (sb_open h \<and> sb_lines h \<noteq> []);
             (l, h1) = (if appending
                        then (List.last (sb_lines h),
                              rows_removed cw (List.last (sb_lines h)) (h\<lparr>sb_lines := butlast (sb_lines h)\<rparr>))
                        else (line_empty, h));
             l = push_cells cells (tb_styles t) (tb_graphemes t) l;
             h2 = rows_added cw l h1;
             (dropped, h3) = store_push l h2;
             h4 = (case dropped of None \<Rightarrow> h3 | Some d \<Rightarrow> rows_removed cw d h3)
         in h4\<lparr>sb_open := (r_wrapped r \<and> cell_count l < max_line_cells)\<rparr>))"

definition history_pop_last :: "(nat \<Rightarrow> nat option) \<Rightarrow> history \<Rightarrow> line option \<times> history" where
  "history_pop_last cw h =
     (let h1 = h\<lparr>sb_open := False\<rparr>
      in if sb_lines h1 = [] then (None, h1)
         else (let l = List.last (sb_lines h1)
               in (Some l, rows_removed cw l (h1\<lparr>sb_lines := butlast (sb_lines h1)\<rparr>))))"

definition history_pop_open :: "(nat \<Rightarrow> nat option) \<Rightarrow> history \<Rightarrow> line option \<times> history" where
  "history_pop_open cw h = (if sb_open h then history_pop_last cw h else (None, h))"

definition history_clear :: "history \<Rightarrow> history" where
  "history_clear h = h\<lparr>sb_lines := [], sb_open := False, sb_rows := map_option (\<lambda>(w, _). (w, 0)) (sb_rows h)\<rparr>"

definition count_rows :: "(nat \<Rightarrow> nat option) \<Rightarrow> nat \<Rightarrow> history \<Rightarrow> nat" where
  "count_rows cw width h = sum_list (map (line_rows_at cw width) (sb_lines h))"

definition history_set_width :: "(nat \<Rightarrow> nat option) \<Rightarrow> nat \<Rightarrow> history \<Rightarrow> history" where
  "history_set_width cw width h =
     (case sb_rows h of
        Some (w, n) \<Rightarrow> if w = width then h else h\<lparr>sb_rows := Some (width, count_rows cw width h)\<rparr>
      | None \<Rightarrow> h\<lparr>sb_rows := Some (width, count_rows cw width h)\<rparr>)"

definition history_rows_at :: "(nat \<Rightarrow> nat option) \<Rightarrow> nat \<Rightarrow> history \<Rightarrow> nat" where
  "history_rows_at cw width h =
     (case sb_rows h of
        Some (w, n) \<Rightarrow> if w = width then n else count_rows cw width h
      | None \<Rightarrow> count_rows cw width h)"

text \<open>The line and the row in it that is so many rows above the screen; the lines last first.\<close>

fun locate_from :: "(line \<Rightarrow> nat) \<Rightarrow> nat \<Rightarrow> nat \<Rightarrow> line list \<Rightarrow> (nat \<times> nat) option" where
  "locate_from rows_of up covered [] = None"
| "locate_from rows_of up covered (l # ls) =
     (let covered = covered + rows_of l
      in if up \<le> covered then Some (length ls, covered - up) else locate_from rows_of up covered ls)"

definition history_locate :: "(nat \<Rightarrow> nat option) \<Rightarrow> nat \<Rightarrow> nat \<Rightarrow> history \<Rightarrow> (nat \<times> nat) option" where
  "history_locate cw up width h =
     (if up = 0 then None else locate_from (line_rows_at cw width) up 0 (rev (sb_lines h)))"

definition rows_below :: "(nat \<Rightarrow> nat option) \<Rightarrow> nat \<Rightarrow> nat \<Rightarrow> nat \<Rightarrow> history \<Rightarrow> nat" where
  "rows_below cw index r width h =
     (let own = (if index < length (sb_lines h) then line_rows_at cw width (sb_lines h ! index) else 1)
      in sum_list (map (line_rows_at cw width) (drop (index + 1) (sb_lines h))) + (own - (r + 1)))"

text \<open>\<open>rows_above\<close>: back over the lines until enough rows are covered, then their rows forward.\<close>

fun cover_back :: "(line \<Rightarrow> nat) \<Rightarrow> nat \<Rightarrow> nat \<Rightarrow> line list \<Rightarrow> nat \<times> nat" where
  "cover_back rows_of offset covered [] = (0, covered)"
| "cover_back rows_of offset covered (l # ls) =
     (if covered < offset then cover_back rows_of offset (covered + rows_of l) ls else (length (l # ls), covered))"

fun take_rows :: "nat \<Rightarrow> nat \<Rightarrow> nat \<Rightarrow> row list \<Rightarrow> row list \<Rightarrow> bool \<times> nat \<times> row list" where
  "take_rows want skip skipped acc [] = (False, skipped, acc)"
| "take_rows want skip skipped acc (r # rs) =
     (if skipped < skip then take_rows want skip (skipped + 1) acc rs
      else if length (acc @ [r]) = want then (True, skipped, acc @ [r])
      else take_rows want skip skipped (acc @ [r]) rs)"

fun rows_of_lines ::
  "(nat \<Rightarrow> nat option) \<Rightarrow> nat \<Rightarrow> nat \<Rightarrow> nat \<Rightarrow> nat \<Rightarrow> row list \<Rightarrow> line list \<Rightarrow> tables \<Rightarrow> row list \<times> tables" where
  "rows_of_lines cw width want skip skipped acc [] t = (acc, t)"
| "rows_of_lines cw width want skip skipped acc (l # ls) t =
     (let (rs, t) = line_rows cw width l t; (stop, skipped, acc) = take_rows want skip skipped acc rs
      in if stop then (acc, t) else rows_of_lines cw width want skip skipped acc ls t)"

definition rows_above :: "(nat \<Rightarrow> nat option) \<Rightarrow> nat \<Rightarrow> nat \<Rightarrow> nat \<Rightarrow> tables \<Rightarrow> history \<Rightarrow> row list \<times> tables" where
  "rows_above cw offset want width t h =
     (let (first, covered) = cover_back (line_rows_at cw width) offset 0 (rev (sb_lines h))
      in rows_of_lines cw width want (covered - offset) 0 [] (drop first (sb_lines h)) t)"

end
