(* ===== verification/Term_Grid.thy ===== *)
theory Term_Grid
  imports Term_History
begin

text \<open>
  The live screen (\<open>src/src/term/grid.rs\<close>): rows, cursor, margins, tab stops, the history rows scroll into
  and the view over it, and where images are. Every operation that indexes a row, a cell or a tab stop,
  or clamps, may panic: its result is \<open>None\<close> then. Columns and rows are natural numbers; additions the
  code saturates at a \<open>u16\<close> saturate here, and the others stay below it, as a screen is at most
  \<open>u16::MAX - 3\<close> columns wide. What a frame shares of the rows and tables is not modelled: sharing only
  decides what is copied.
\<close>

section \<open>The grid\<close>

record pos =
  pos_row :: nat
  pos_col :: nat

abbreviation "pos_at r c \<equiv> \<lparr>pos_row = r, pos_col = c\<rparr>"

record image_placement =
  pm_key :: nat
  pm_id :: nat
  pm_row :: nat
  pm_col :: nat
  pm_cols :: nat
  pm_rows :: nat
  pm_src :: "nat \<times> nat \<times> nat \<times> nat"
  pm_offset_x :: nat
  pm_offset_y :: nat
  pm_z :: int
  pm_virtual :: bool
  pm_cells :: bool

record grid =
  gd_height :: nat
  gd_width :: nat
  gd_rows :: "row list"
  gd_history :: history
  gd_view_offset :: nat
  gd_view_above :: "row list"
  gd_view_stale :: bool
  gd_tables :: tables
  gd_pos :: pos
  gd_saved_pos :: pos
  gd_top :: nat
  gd_bottom :: nat
  gd_left :: nat
  gd_right :: nat
  gd_origin :: bool
  gd_saved_origin :: bool
  gd_tabs :: "bool list"
  gd_style_cache :: "style \<times> nat"
  gd_row_base :: nat
  gd_placements :: "image_placement list"
  gd_slots :: "(nat \<times> nat) list"
  gd_dropped :: "nat list"
  gd_extra_images :: "nat list"

definition default_tabs :: "nat \<Rightarrow> bool list" where
  "default_tabs width = map (\<lambda>c. c mod 8 = 0 \<and> c \<noteq> 0) [0..<width]"

definition grid_new :: "(nat \<Rightarrow> nat option) \<Rightarrow> nat \<Rightarrow> nat \<Rightarrow> nat \<Rightarrow> grid" where
  "grid_new cw height width scrollback =
     (let height = max height 1; width = max width 1
      in \<lparr>gd_height = height, gd_width = width, gd_rows = replicate height (row_new width),
          gd_history = history_set_width cw width (history_new scrollback),
          gd_view_offset = 0, gd_view_above = [], gd_view_stale = False, gd_tables = tables_new,
          gd_pos = pos_at 0 0, gd_saved_pos = pos_at 0 0, gd_top = 0, gd_bottom = height - 1,
          gd_left = 0, gd_right = width - 1, gd_origin = False, gd_saved_origin = False,
          gd_tabs = default_tabs width, gd_style_cache = (style_default, 0), gd_row_base = 0,
          gd_placements = [], gd_slots = [], gd_dropped = [], gd_extra_images = []\<rparr>)"

section \<open>Small things\<close>

definition sat_add :: "nat \<Rightarrow> nat \<Rightarrow> nat" where
  "sat_add a b = min (a + b) u16_max"

definition clamp :: "nat \<Rightarrow> nat \<Rightarrow> nat \<Rightarrow> nat option" where
  "clamp lo hi x = (if lo \<le> hi then Some (max lo (min hi x)) else None)"

definition row_mut :: "nat \<Rightarrow> (row \<Rightarrow> row) \<Rightarrow> grid \<Rightarrow> grid option" where
  "row_mut r f g = (if r < length (gd_rows g) then Some (g\<lparr>gd_rows := (gd_rows g)[r := f (gd_rows g ! r)]\<rparr>) else None)"

definition intern_style :: "style \<Rightarrow> grid \<Rightarrow> nat \<times> grid" where
  "intern_style st g =
     (if fst (gd_style_cache g) = st then (snd (gd_style_cache g), g)
      else (let (i, t) = intern_style_in st (gd_tables g) in (i, g\<lparr>gd_tables := t, gd_style_cache := (st, i)\<rparr>)))"

definition drawing_row :: "nat \<Rightarrow> grid \<Rightarrow> row option" where
  "drawing_row r g = (if r < length (gd_rows g) then Some (gd_rows g ! r) else None)"

definition drawing_cell :: "pos \<Rightarrow> grid \<Rightarrow> cell option" where
  "drawing_cell p g = Option.bind (drawing_row (pos_row p) g) (row_get (pos_col p))"

definition visible_rows :: "grid \<Rightarrow> row list" where
  "visible_rows g =
     (if gd_view_offset g = 0 then gd_rows g
      else gd_view_above g @ take (gd_height g - length (gd_view_above g)) (gd_rows g))"

definition margins_active :: "grid \<Rightarrow> bool" where
  "margins_active g = (gd_left g \<noteq> 0 \<or> gd_right g \<noteq> gd_width g - 1)"

definition scroll_region_active :: "grid \<Rightarrow> bool" where
  "scroll_region_active g = (gd_top g \<noteq> 0 \<or> gd_bottom g \<noteq> gd_height g - 1)"

definition in_scroll_region :: "grid \<Rightarrow> bool" where
  "in_scroll_region g = (gd_top g \<le> pos_row (gd_pos g) \<and> pos_row (gd_pos g) \<le> gd_bottom g)"

definition in_margins :: "grid \<Rightarrow> bool" where
  "in_margins g = (gd_left g \<le> pos_col (gd_pos g) \<and> pos_col (gd_pos g) \<le> gd_right g)"

abbreviation "set_row r g \<equiv> g\<lparr>gd_pos := (gd_pos g)\<lparr>pos_row := r\<rparr>\<rparr>"
abbreviation "set_col c g \<equiv> g\<lparr>gd_pos := (gd_pos g)\<lparr>pos_col := c\<rparr>\<rparr>"

section \<open>Images\<close>

definition placement_hit :: "nat \<Rightarrow> nat \<Rightarrow> nat \<Rightarrow> image_placement \<Rightarrow> bool" where
  "placement_hit row a b p =
     (pm_cells p \<and> pm_row p \<le> row \<and> row < pm_row p + pm_rows p \<and> pm_col p < b \<and> a < sat_add (pm_col p) (pm_cols p))"

definition touch :: "nat \<Rightarrow> nat \<Rightarrow> nat \<Rightarrow> grid \<Rightarrow> grid" where
  "touch r a b g =
     (if gd_placements g = [] \<or> b \<le> a then g
      else (let hit = placement_hit (gd_row_base g + r) a b
            in g\<lparr>gd_dropped := gd_dropped g @ map pm_key (filter hit (gd_placements g)),
                 gd_placements := filter (\<lambda>p. \<not> hit p) (gd_placements g)\<rparr>))"

definition shift_placements :: "nat \<Rightarrow> nat \<Rightarrow> int \<Rightarrow> grid \<Rightarrow> grid" where
  "shift_placements upper lower delta g =
     (let upper = gd_row_base g + upper; lower = gd_row_base g + lower;
          move = (\<lambda>p. if pm_virtual p \<or> pm_row p < upper \<or> lower < pm_row p then [p]
                      else (let moved = int (pm_row p) + delta
                            in if moved < int upper \<or> int lower < moved then [] else [p\<lparr>pm_row := nat moved\<rparr>]))
      in g\<lparr>gd_placements := concat (map move (gd_placements g))\<rparr>)"

definition max_scrollback :: "(nat \<Rightarrow> nat option) \<Rightarrow> grid \<Rightarrow> nat" where
  "max_scrollback cw g = history_rows_at cw (gd_width g) (gd_history g)"

definition drop_scrolled_placements :: "(nat \<Rightarrow> nat option) \<Rightarrow> grid \<Rightarrow> grid" where
  "drop_scrolled_placements cw g =
     (if list_all pm_virtual (gd_placements g) then g
      else (let first = gd_row_base g - max_scrollback cw g
            in g\<lparr>gd_placements := filter (\<lambda>p. pm_virtual p \<or> first < pm_row p + pm_rows p) (gd_placements g)\<rparr>))"

text \<open>The slot that placeholder cells of an image refer to.\<close>

fun slot_index :: "nat \<times> nat \<Rightarrow> (nat \<times> nat) list \<Rightarrow> nat option" where
  "slot_index p [] = None"
| "slot_index p (q # qs) = (if q = p then Some 0 else map_option Suc (slot_index p qs))"

definition max_placeholder_slots :: nat where "max_placeholder_slots = 2 ^ 10"

definition placeholder_slot :: "nat \<Rightarrow> nat \<Rightarrow> grid \<Rightarrow> nat option \<times> grid" where
  "placeholder_slot image_id placement_id g =
     (case slot_index (image_id, placement_id) (gd_slots g) of
        Some i \<Rightarrow> (Some i, g)
      | None \<Rightarrow>
          (if max_placeholder_slots \<le> length (gd_slots g) then (None, g)
           else (Some (length (gd_slots g)), g\<lparr>gd_slots := gd_slots g @ [(image_id, placement_id)]\<rparr>)))"

section \<open>Writing\<close>

text \<open>A character in a row of some width: both halves of a wide one, or a filler where only one fits.\<close>

definition write_in_row :: "nat \<Rightarrow> nat \<Rightarrow> cell_text \<Rightarrow> nat \<Rightarrow> row \<Rightarrow> row" where
  "write_in_row width col t st r =
     (let r1 = row_set col (cell_new t st) r
      in if ct_is_wide t
         then (if col + 1 < width then row_set (col + 1) (cell_new ct_continuation st) r1
               else row_set col (cell_filler st) r1)
         else r1)"

definition write_cell :: "pos \<Rightarrow> cell_text \<Rightarrow> nat \<Rightarrow> grid \<Rightarrow> grid option" where
  "write_cell p t st g =
     (let width = gd_width g; col = pos_col p
      in if width \<le> col \<or> gd_height g \<le> pos_row p then Some g
         else row_mut (pos_row p) (write_in_row width col t st)
                (touch (pos_row p) col (col + (if ct_is_wide t then 2 else 1)) g))"

text \<open>A run of ASCII: the wide cells cut at either end lose their other half, then the cells are written.\<close>

definition write_ascii_cells :: "nat \<Rightarrow> byte list \<Rightarrow> nat \<Rightarrow> nat \<Rightarrow> cell list \<Rightarrow> cell list" where
  "write_ascii_cells col bs last_col st cs =
     (let cs1 = clear_wide_cells col (c_style (cs ! col)) cs;
          cs2 = (if 0 < last_col then clear_wide_cells (last_col - 1) (c_style (cs1 ! (last_col - 1))) cs1 else cs1);
          new = map (\<lambda>b. cell_new (ct_scalar (unat b) 1) st) (take (last_col - col) bs)
      in take col cs2 @ new @ drop (col + length new) cs2)"

definition write_ascii_row :: "pos \<Rightarrow> byte list \<Rightarrow> nat \<Rightarrow> grid \<Rightarrow> grid option" where
  "write_ascii_row p bs st g =
     (if bs = [] \<or> gd_height g \<le> pos_row p then Some g
      else (let col = pos_col p; last_col = min (col + length bs) (gd_width g); g1 = touch (pos_row p) col last_col g
            in case drawing_row (pos_row p) g1 of
                 None \<Rightarrow> None
               | Some r \<Rightarrow>
                   if length (r_cells r) \<le> col \<or> length (r_cells r) < last_col then None
                   else row_mut (pos_row p) (\<lambda>r. r\<lparr>r_cells := write_ascii_cells col bs last_col st (r_cells r)\<rparr>) g1))"


section \<open>The cursor\<close>

definition set_pos_absolute :: "pos \<Rightarrow> grid \<Rightarrow> grid" where
  "set_pos_absolute p g =
     g\<lparr>gd_pos := pos_at (min (pos_row p) (gd_height g - 1)) (min (pos_col p) (gd_width g - 1))\<rparr>"

text \<open>The clamps: to the scroll region when asked, with how many rows over it was.\<close>

definition row_clamp_top :: "bool \<Rightarrow> grid \<Rightarrow> nat \<times> grid" where
  "row_clamp_top limit g =
     (if limit \<and> pos_row (gd_pos g) < gd_top g then (gd_top g - pos_row (gd_pos g), set_row (gd_top g) g) else (0, g))"

definition row_clamp_bottom :: "bool \<Rightarrow> grid \<Rightarrow> nat \<times> grid" where
  "row_clamp_bottom limit g =
     (let lower = (if limit then gd_bottom g else gd_height g - 1)
      in if lower < pos_row (gd_pos g) then (pos_row (gd_pos g) - lower, set_row lower g) else (0, g))"

definition row_clamp :: "grid \<Rightarrow> grid" where
  "row_clamp g = (if gd_height g - 1 < pos_row (gd_pos g) then set_row (gd_height g - 1) g else g)"

definition col_clamp :: "grid \<Rightarrow> grid" where
  "col_clamp g = (if gd_width g - 1 < pos_col (gd_pos g) then set_col (gd_width g - 1) g else g)"

definition clamp_to_margins :: "grid \<Rightarrow> grid option" where
  "clamp_to_margins g = map_option (\<lambda>c. set_col c g) (clamp (gd_left g) (gd_right g) (pos_col (gd_pos g)))"

definition set_pos :: "pos \<Rightarrow> grid \<Rightarrow> grid option" where
  "set_pos p g =
     (let p = (if gd_origin g then pos_at (sat_add (pos_row p) (gd_top g)) (sat_add (pos_col p) (gd_left g)) else p);
          g1 = snd (row_clamp_top (gd_origin g) (g\<lparr>gd_pos := p\<rparr>));
          g2 = snd (row_clamp_bottom (gd_origin g) g1)
      in if gd_origin g then clamp_to_margins g2 else Some (col_clamp g2))"

definition grid_save_cursor :: "grid \<Rightarrow> grid" where
  "grid_save_cursor g = g\<lparr>gd_saved_pos := gd_pos g, gd_saved_origin := gd_origin g\<rparr>"

definition grid_restore_cursor :: "grid \<Rightarrow> grid" where
  "grid_restore_cursor g = col_clamp (row_clamp (g\<lparr>gd_pos := gd_saved_pos g, gd_origin := gd_saved_origin g\<rparr>))"

definition row_set_to :: "nat \<Rightarrow> grid \<Rightarrow> grid" where
  "row_set_to r g =
     (if gd_origin g
      then snd (row_clamp_bottom True (snd (row_clamp_top True (set_row (sat_add r (gd_top g)) g))))
      else row_clamp (set_row r g))"

definition col_set_to :: "nat \<Rightarrow> grid \<Rightarrow> grid option" where
  "col_set_to c g =
     (if gd_origin g then clamp_to_margins (set_col (sat_add c (gd_left g)) g) else Some (col_clamp (set_col c g)))"

definition row_inc_clamp :: "nat \<Rightarrow> grid \<Rightarrow> grid" where
  "row_inc_clamp n g =
     snd (row_clamp_bottom (in_scroll_region g) (set_row (sat_add (pos_row (gd_pos g)) n) g))"

definition row_dec_clamp :: "nat \<Rightarrow> grid \<Rightarrow> grid" where
  "row_dec_clamp n g = snd (row_clamp_top (in_scroll_region g) (set_row (pos_row (gd_pos g) - n) g))"

definition col_inc :: "nat \<Rightarrow> grid \<Rightarrow> grid" where
  "col_inc n g = set_col (sat_add (pos_col (gd_pos g)) n) g"

definition col_inc_clamp :: "nat \<Rightarrow> grid \<Rightarrow> grid" where
  "col_inc_clamp n g =
     (let g1 = set_col (sat_add (pos_col (gd_pos g)) n) g
      in if in_margins g then set_col (min (pos_col (gd_pos g1)) (gd_right g)) g1 else col_clamp g1)"

definition col_dec :: "nat \<Rightarrow> grid \<Rightarrow> grid" where
  "col_dec n g =
     (let c = min (pos_col (gd_pos g)) (gd_width g - 1) - n
      in set_col (if in_margins g then max c (gd_left g) else c) g)"

definition col_stay :: "grid \<Rightarrow> grid" where
  "col_stay g = set_col (min (pos_col (gd_pos g)) (gd_right g)) g"

section \<open>Tabs\<close>

text \<open>The first of some columns that has a stop.\<close>

fun find_tab :: "bool list \<Rightarrow> nat list \<Rightarrow> nat option option" where
  "find_tab tabs [] = Some None"
| "find_tab tabs (c # cs) =
     (if length tabs \<le> c then None else if tabs ! c then Some (Some c) else find_tab tabs cs)"

definition tab_step_forward :: "bool list \<Rightarrow> nat \<Rightarrow> nat \<Rightarrow> nat option" where
  "tab_step_forward tabs right c =
     map_option (\<lambda>found. case found of None \<Rightarrow> right | Some c \<Rightarrow> c) (find_tab tabs [c + 1..<right + 1])"

definition tab_step_back :: "bool list \<Rightarrow> nat \<Rightarrow> nat \<Rightarrow> nat option" where
  "tab_step_back tabs left c =
     map_option (\<lambda>found. case found of None \<Rightarrow> left | Some c \<Rightarrow> c) (find_tab tabs (rev [left..<c]))"

fun times_opt :: "nat \<Rightarrow> ('a \<Rightarrow> 'a option) \<Rightarrow> 'a \<Rightarrow> 'a option" where
  "times_opt 0 f x = Some x"
| "times_opt (Suc n) f x = Option.bind (f x) (times_opt n f)"

definition tab_forward :: "nat \<Rightarrow> grid \<Rightarrow> grid option" where
  "tab_forward n g =
     (let right = min (gd_right g) (gd_width g - 1)
      in map_option (\<lambda>c. set_col c g)
           (times_opt (max n 1) (tab_step_forward (gd_tabs g) right) (min (pos_col (gd_pos g)) right)))"

definition tab_back :: "nat \<Rightarrow> grid \<Rightarrow> grid option" where
  "tab_back n g =
     map_option (\<lambda>c. set_col c g)
       (times_opt (max n 1) (tab_step_back (gd_tabs g) (gd_left g)) (min (pos_col (gd_pos g)) (gd_width g - 1)))"

definition put_tab :: "bool \<Rightarrow> grid \<Rightarrow> grid option" where
  "put_tab on g =
     (let c = min (pos_col (gd_pos g)) (gd_width g - 1)
      in if c < length (gd_tabs g) then Some (g\<lparr>gd_tabs := (gd_tabs g)[c := on]\<rparr>) else None)"

definition clear_all_tabs :: "grid \<Rightarrow> grid" where
  "clear_all_tabs g = g\<lparr>gd_tabs := map (\<lambda>_. False) (gd_tabs g)\<rparr>"

definition tab_stops :: "grid \<Rightarrow> nat list" where
  "tab_stops g = filter (\<lambda>c. gd_tabs g ! c) [0..<length (gd_tabs g)]"

definition set_tab_stops :: "nat list \<Rightarrow> grid \<Rightarrow> grid" where
  "set_tab_stops stops g =
     g\<lparr>gd_tabs := fold (\<lambda>c tabs. if c < length tabs then tabs[c := True] else tabs) stops (map (\<lambda>_. False) (gd_tabs g))\<rparr>"

section \<open>Regions\<close>

definition set_scroll_region :: "nat \<Rightarrow> nat \<Rightarrow> grid \<Rightarrow> grid option" where
  "set_scroll_region upper lower g =
     (let lower = min lower (gd_height g - 1)
      in set_pos (pos_at 0 0)
           (if upper < lower then g\<lparr>gd_top := upper, gd_bottom := lower\<rparr>
            else g\<lparr>gd_top := 0, gd_bottom := gd_height g - 1\<rparr>))"

definition set_margins :: "nat \<Rightarrow> nat \<Rightarrow> grid \<Rightarrow> grid option" where
  "set_margins left right g =
     (let right = min right (gd_width g - 1)
      in set_pos (pos_at 0 0)
           (if left < right then g\<lparr>gd_left := left, gd_right := right\<rparr>
            else g\<lparr>gd_left := 0, gd_right := gd_width g - 1\<rparr>))"

definition set_origin_mode :: "bool \<Rightarrow> grid \<Rightarrow> grid option" where
  "set_origin_mode on g = set_pos (pos_at 0 0) (g\<lparr>gd_origin := on\<rparr>)"

section \<open>Erasing\<close>

text \<open>\<open>blank_in_place\<close>: a row that a frame shares is replaced, which is the same at its width.\<close>

abbreviation "blank_row st \<equiv> row_clear st"

definition erase_all :: "nat \<Rightarrow> grid \<Rightarrow> grid" where
  "erase_all st g =
     g\<lparr>gd_rows := map (blank_row st) (gd_rows g),
       gd_dropped := gd_dropped g @ map pm_key (filter pm_cells (gd_placements g)),
       gd_placements := filter pm_virtual (gd_placements g), gd_extra_images := []\<rparr>"

definition blank_at :: "nat \<Rightarrow> nat \<Rightarrow> grid \<Rightarrow> grid option" where
  "blank_at st r g = row_mut r (blank_row st) (touch r 0 (gd_width g) g)"

definition current_row_mut :: "(row \<Rightarrow> row) \<Rightarrow> grid \<Rightarrow> grid option" where
  "current_row_mut f g = row_mut (pos_row (gd_pos g)) f g"

definition erase_range :: "nat \<Rightarrow> nat \<Rightarrow> nat \<Rightarrow> grid \<Rightarrow> grid option" where
  "erase_range a b st g = current_row_mut (fold (\<lambda>c. row_erase c st) [a..<b]) (touch (pos_row (gd_pos g)) a b g)"

abbreviation "grid_col g \<equiv> min (pos_col (gd_pos g)) (gd_width g - 1)"

definition erase_row :: "nat \<Rightarrow> grid \<Rightarrow> grid option" where
  "erase_row st g = current_row_mut (row_clear st) (touch (pos_row (gd_pos g)) 0 (gd_width g) g)"

definition erase_row_forward :: "nat \<Rightarrow> grid \<Rightarrow> grid option" where
  "erase_row_forward st g = erase_range (grid_col g) (gd_width g) st g"

definition erase_row_backward :: "nat \<Rightarrow> grid \<Rightarrow> grid option" where
  "erase_row_backward st g = erase_range 0 (grid_col g + 1) st g"

definition erase_cells :: "nat \<Rightarrow> nat \<Rightarrow> grid \<Rightarrow> grid option" where
  "erase_cells n st g = erase_range (grid_col g) (min (sat_add (grid_col g) (max n 1)) (gd_width g)) st g"

definition erase_all_forward :: "nat \<Rightarrow> grid \<Rightarrow> grid option" where
  "erase_all_forward st g =
     Option.bind (fold_opt (blank_at st) [pos_row (gd_pos g) + 1..<length (gd_rows g)] g) (erase_row_forward st)"

definition erase_all_backward :: "nat \<Rightarrow> grid \<Rightarrow> grid option" where
  "erase_all_backward st g =
     Option.bind (fold_opt (blank_at st) [0..<min (pos_row (gd_pos g)) (length (gd_rows g))] g) (erase_row_backward st)"

section \<open>Editing within the row\<close>

definition grid_insert_cells :: "nat \<Rightarrow> nat \<Rightarrow> grid \<Rightarrow> grid option" where
  "grid_insert_cells n st g =
     (let col = grid_col g
      in if col < gd_left g \<or> gd_right g < col then Some g
         else current_row_mut (insert_blanks col (max n 1) (gd_right g) st)
                (touch (pos_row (gd_pos g)) col (gd_right g + 1) g))"

definition grid_delete_cells :: "nat \<Rightarrow> nat \<Rightarrow> grid \<Rightarrow> grid option" where
  "grid_delete_cells n st g =
     (let col = grid_col g
      in if col < gd_left g \<or> gd_right g < col then Some g
         else current_row_mut (delete_cells col (max n 1) (gd_right g) st)
                (touch (pos_row (gd_pos g)) col (gd_right g + 1) g))"

text \<open>DECIC and DECDC: blank columns enter, or columns leave, at the cursor in every row of the region.\<close>

definition insert_columns :: "nat \<Rightarrow> nat \<Rightarrow> grid \<Rightarrow> grid option" where
  "insert_columns n st g =
     (let col = grid_col g; right = gd_right g
      in if col < gd_left g \<or> right < col then Some g
         else fold_opt (\<lambda>r g. row_mut r (insert_blanks col (max n 1) right st) (touch r col (right + 1) g))
                [gd_top g..<gd_bottom g + 1] g)"

definition delete_columns :: "nat \<Rightarrow> nat \<Rightarrow> grid \<Rightarrow> grid option" where
  "delete_columns n st g =
     (let col = grid_col g; right = gd_right g
      in if col < gd_left g \<or> right < col then Some g
         else fold_opt (\<lambda>r g. row_mut r (delete_cells col (max n 1) right st) (touch r col (right + 1) g))
                [gd_top g..<gd_bottom g + 1] g)"

section \<open>The view of history\<close>

definition refresh_view :: "(nat \<Rightarrow> nat option) \<Rightarrow> grid \<Rightarrow> grid" where
  "refresh_view cw g =
     (let g = g\<lparr>gd_view_stale := False\<rparr>
      in if gd_view_offset g = 0 then g\<lparr>gd_view_above := []\<rparr>
         else (let (rows, t) = rows_above cw (gd_view_offset g) (min (gd_view_offset g) (gd_height g)) (gd_width g)
                                 (gd_tables g) (gd_history g)
               in g\<lparr>gd_view_above := rows, gd_tables := t\<rparr>))"

definition settle_view :: "(nat \<Rightarrow> nat option) \<Rightarrow> grid \<Rightarrow> grid" where
  "settle_view cw g = (if gd_view_stale g then refresh_view cw g else g)"

definition set_scrollback :: "(nat \<Rightarrow> nat option) \<Rightarrow> nat \<Rightarrow> grid \<Rightarrow> grid" where
  "set_scrollback cw n g = refresh_view cw (g\<lparr>gd_view_offset := min n (max_scrollback cw g)\<rparr>)"

definition clear_history :: "grid \<Rightarrow> grid" where
  "clear_history g =
     g\<lparr>gd_history := history_clear (gd_history g), gd_view_offset := 0, gd_view_above := [],
       gd_placements := filter (\<lambda>p. pm_virtual p \<or> gd_row_base g < pm_row p + pm_rows p) (gd_placements g)\<rparr>"

section \<open>Lines\<close>

text \<open>\<open>shift_cells_up\<close> and \<open>shift_cells_down\<close>: the cells between the margins of the rows of a region.\<close>

definition margin_cells :: "nat \<Rightarrow> grid \<Rightarrow> cell list option" where
  "margin_cells r g =
     (case drawing_row r g of
        None \<Rightarrow> None
      | Some row \<Rightarrow>
          if gd_right g < gd_left g \<or> length (r_cells row) \<le> gd_right g then None
          else Some (take (gd_right g + 1 - gd_left g) (drop (gd_left g) (r_cells row))))"

definition copy_to_margins :: "nat \<Rightarrow> cell list \<Rightarrow> grid \<Rightarrow> grid option" where
  "copy_to_margins r cells g =
     (case margin_cells r g of
        None \<Rightarrow> None
      | Some old \<Rightarrow>
          if length old \<noteq> length cells then None
          else row_mut r (\<lambda>row. \<lparr>r_cells = on_range (gd_left g) (gd_right g) (\<lambda>_. cells) (r_cells row), r_wrapped = False\<rparr>) g)"

definition margin_blanks :: "nat \<Rightarrow> grid \<Rightarrow> cell list" where
  "margin_blanks st g = replicate (gd_right g + 1 - gd_left g) (cell_blank st)"

definition shift_cells_up :: "nat \<Rightarrow> nat \<Rightarrow> nat \<Rightarrow> nat \<Rightarrow> grid \<Rightarrow> grid option" where
  "shift_cells_up upper lower n st g =
     fold_opt
       (\<lambda>r g. let g = touch r (gd_left g) (gd_right g + 1) g
              in Option.bind (if r + n \<le> lower then margin_cells (r + n) g else Some (margin_blanks st g))
                   (\<lambda>cells. copy_to_margins r cells g))
       [upper..<lower + 1] g"

definition shift_cells_down :: "nat \<Rightarrow> nat \<Rightarrow> nat \<Rightarrow> nat \<Rightarrow> grid \<Rightarrow> grid option" where
  "shift_cells_down upper lower n st g =
     fold_opt
       (\<lambda>r g. let g = touch r (gd_left g) (gd_right g + 1) g
              in Option.bind (if upper + n \<le> r then margin_cells (r - n) g else Some (margin_blanks st g))
                   (\<lambda>cells. copy_to_margins r cells g))
       (rev [upper..<lower + 1]) g"

text \<open>The rows \<open>upper..=lower\<close> moved by one; a slice out of range panics.\<close>

definition rotate_rows :: "(row list \<Rightarrow> row list) \<Rightarrow> nat \<Rightarrow> nat \<Rightarrow> grid \<Rightarrow> grid option" where
  "rotate_rows f upper lower g =
     (if lower + 1 < upper \<or> length (gd_rows g) \<le> lower then None
      else Some (g\<lparr>gd_rows := on_range upper lower f (gd_rows g)\<rparr>))"

definition commit_row :: "(nat \<Rightarrow> nat option) \<Rightarrow> nat \<Rightarrow> grid \<Rightarrow> grid option" where
  "commit_row cw r g =
     map_option
       (\<lambda>row. g\<lparr>gd_history := history_commit cw row (gd_tables g) (gd_history g),
                gd_view_offset := (if 0 < gd_view_offset g then gd_view_offset g + 1 else 0)\<rparr>)
       (drawing_row r g)"

definition scroll_once :: "(nat \<Rightarrow> nat option) \<Rightarrow> bool \<Rightarrow> nat \<Rightarrow> nat \<Rightarrow> nat \<Rightarrow> grid \<Rightarrow> grid option" where
  "scroll_once cw to_history upper lower st g =
     Option.bind (rotate_rows (rotate_left 1) upper lower g)
       (\<lambda>g. Option.bind (if to_history then commit_row cw lower g else Some g)
         (row_mut lower (blank_row st)))"

text \<open>How many rows an operation moves: at most the region; a region upside down panics.\<close>

definition region_count :: "nat \<Rightarrow> nat \<Rightarrow> nat \<Rightarrow> nat option" where
  "region_count upper lower n = (if lower < upper then None else Some (min n (lower + 1 - upper)))"

definition scroll_up :: "(nat \<Rightarrow> nat option) \<Rightarrow> nat \<Rightarrow> nat \<Rightarrow> grid \<Rightarrow> grid option" where
  "scroll_up cw n st g =
     (let upper = gd_top g; lower = gd_bottom g
      in Option.bind (region_count upper lower n) (\<lambda>n.
        if n = 0 then Some g
        else if margins_active g then shift_cells_up upper lower n st g
        else
          (let full = \<not> scroll_region_active g; to_history = (full \<and> 0 < sb_capacity (gd_history g))
           in Option.bind (times_opt n (scroll_once cw to_history upper lower st) g) (\<lambda>g.
             let g = (if full then drop_scrolled_placements cw (g\<lparr>gd_row_base := gd_row_base g + n\<rparr>)
                      else shift_placements upper lower (- int n) g)
             in Some (if 0 < gd_view_offset g
                      then g\<lparr>gd_view_offset := min (gd_view_offset g) (max_scrollback cw g), gd_view_stale := True\<rparr>
                      else g)))))"

definition rotate_down :: "nat \<Rightarrow> nat \<Rightarrow> nat \<Rightarrow> nat \<Rightarrow> grid \<Rightarrow> grid option" where
  "rotate_down upper lower n st g =
     Option.bind
       (times_opt n (\<lambda>g. Option.bind (rotate_rows (rotate_right 1) upper lower g) (row_mut upper (blank_row st))) g)
       (\<lambda>g. row_mut (gd_bottom g) (row_wrap False) g)"

definition scroll_down :: "nat \<Rightarrow> nat \<Rightarrow> grid \<Rightarrow> grid option" where
  "scroll_down n st g =
     (let upper = gd_top g; lower = gd_bottom g
      in Option.bind (region_count upper lower n) (\<lambda>n.
        if n = 0 then Some g
        else if margins_active g then shift_cells_down upper lower n st g
        else map_option (shift_placements upper lower (int n)) (rotate_down upper lower n st g)))"

definition insert_lines :: "nat \<Rightarrow> nat \<Rightarrow> grid \<Rightarrow> grid option" where
  "insert_lines n st g =
     (if \<not> in_scroll_region g then Some g
      else (let upper = pos_row (gd_pos g); lower = gd_bottom g
            in Option.bind (region_count upper lower (max n 1)) (\<lambda>n.
              if margins_active g then shift_cells_down upper lower n st g
              else map_option (shift_placements upper lower (int n)) (rotate_down upper lower n st g))))"

definition delete_lines :: "(nat \<Rightarrow> nat option) \<Rightarrow> nat \<Rightarrow> nat \<Rightarrow> grid \<Rightarrow> grid option" where
  "delete_lines cw n st g =
     (if \<not> in_scroll_region g then Some g
      else (let upper = pos_row (gd_pos g); lower = gd_bottom g
            in Option.bind (region_count upper lower (max n 1)) (\<lambda>n.
              if margins_active g then shift_cells_up upper lower n st g
              else map_option (shift_placements upper lower (- int n))
                     (times_opt n (scroll_once cw False upper lower st) g))))"

section \<open>Moving down with the text\<close>

definition row_inc_scroll :: "(nat \<Rightarrow> nat option) \<Rightarrow> nat \<Rightarrow> nat \<Rightarrow> grid \<Rightarrow> (nat \<times> grid) option" where
  "row_inc_scroll cw n st g =
     (let inside = in_scroll_region g;
          (lines, g1) = row_clamp_bottom inside (set_row (sat_add (pos_row (gd_pos g)) n) g)
      in if inside \<and> 0 < lines then map_option (\<lambda>g. (lines, g)) (scroll_up cw lines st g1) else Some (0, g1))"

definition row_dec_scroll :: "nat \<Rightarrow> nat \<Rightarrow> grid \<Rightarrow> grid option" where
  "row_dec_scroll n st g =
     (let inside = in_scroll_region g; extra = n - pos_row (gd_pos g);
          (lines, g1) = row_clamp_top inside (set_row (pos_row (gd_pos g) - n) g)
      in if inside then scroll_down (lines + extra) st g1 else Some g1)"

definition fill_to :: "nat \<Rightarrow> nat \<Rightarrow> nat \<Rightarrow> row \<Rightarrow> row" where
  "fill_to a b st r =
     fold (\<lambda>c r. case row_get c r of
                   Some cell \<Rightarrow> if \<not> has_contents cell \<and> \<not> is_continuation cell then row_set c (cell_filler st) r else r
                 | None \<Rightarrow> r)
       [a..<b + 1] r"

definition col_wrap :: "(nat \<Rightarrow> nat option) \<Rightarrow> nat \<Rightarrow> nat \<Rightarrow> grid \<Rightarrow> grid option" where
  "col_wrap cw w st g =
     (let right = gd_right g; col = pos_col (gd_pos g); prev = pos_row (gd_pos g)
      in if col + w \<le> right + 1 then Some g
         else Option.bind
           (if col \<le> right then row_mut prev (fill_to col right st) (touch prev col (right + 1) g) else Some g)
           (\<lambda>g. Option.bind (row_inc_scroll cw 1 st (set_col (gd_left g) g)) (\<lambda>(scrolled, g).
             let prev = prev - scrolled
             in Some (if prev < length (gd_rows g)
                      then g\<lparr>gd_rows := (gd_rows g)[prev :=
                             row_wrap (\<not> margins_active g \<and> prev + 1 = pos_row (gd_pos g)) (gd_rows g ! prev)]\<rparr>
                      else g))))"


section \<open>Images, snapshots and resets\<close>

definition take_dropped_images :: "grid \<Rightarrow> nat list \<times> grid" where
  "take_dropped_images g = (gd_dropped g, g\<lparr>gd_dropped := []\<rparr>)"

definition add_placement :: "image_placement \<Rightarrow> grid \<Rightarrow> grid" where
  "add_placement p g = g\<lparr>gd_placements := gd_placements g @ [p]\<rparr>"

definition remove_placements :: "(image_placement \<Rightarrow> bool) \<Rightarrow> grid \<Rightarrow> nat list \<times> grid" where
  "remove_placements pick g =
     (map pm_key (filter pick (gd_placements g)), g\<lparr>gd_placements := filter (\<lambda>p. \<not> pick p) (gd_placements g)\<rparr>)"

definition add_image :: "nat \<Rightarrow> grid \<Rightarrow> grid" where
  "add_image key g =
     (if key \<in> set (gd_extra_images g) then g else g\<lparr>gd_extra_images := gd_extra_images g @ [key]\<rparr>)"

definition restore_images ::
  "nat \<Rightarrow> image_placement list \<Rightarrow> (nat \<times> nat) list \<Rightarrow> (nat \<times> nat \<times> nat \<times> nat \<times> nat) list \<Rightarrow> grid \<Rightarrow> grid option" where
  "restore_images base placements slots cells g =
     fold_opt
       (\<lambda>(r, c, slot, img_row, img_col) g.
          case drawing_cell (pos_at r c) g of
            Some cell \<Rightarrow> write_cell (pos_at r c) (ct_image slot img_row img_col) (c_style cell) g
          | None \<Rightarrow> Some g)
       cells (g\<lparr>gd_row_base := base, gd_placements := placements, gd_slots := slots\<rparr>)"

definition image_cells :: "grid \<Rightarrow> (nat \<times> nat \<times> nat \<times> nat \<times> nat) list" where
  "image_cells g =
     (if gd_slots g = [] then []
      else concat (map (\<lambda>(r, row). concat (map (\<lambda>(c, cell).
             case ct_kind (c_text cell) of
               ImageText slot img_row img_col \<Rightarrow> [(r, c, slot, img_row, img_col)]
             | _ \<Rightarrow> []) (List.enumerate 0 (r_cells row)))) (List.enumerate 0 (gd_rows g))))"

definition grid_used_len :: "grid \<Rightarrow> row \<Rightarrow> nat" where
  "grid_used_len g r = used_len (\<lambda>i. is_visible_blank (style_get i (tb_styles (gd_tables g)))) r"

definition used_rows :: "grid \<Rightarrow> nat" where
  "used_rows g =
     max (length (dropWhile (\<lambda>r. grid_used_len g r = 0) (rev (gd_rows g)))) (pos_row (gd_pos g) + 1)"

definition grid_restore :: "(nat \<Rightarrow> nat option) \<Rightarrow> row list \<Rightarrow> row list \<Rightarrow> grid \<Rightarrow> grid" where
  "grid_restore cw rows history_rows g =
     (let h = history_set_width cw (gd_width g) (history_new (sb_capacity (gd_history g)));
          h = fold (\<lambda>r. history_commit cw r (gd_tables g)) history_rows h;
          rows = take (gd_height g) rows
      in g\<lparr>gd_history := h, gd_rows := rows @ replicate (gd_height g - length rows) (row_new (gd_width g))\<rparr>)"

definition restore_cursor_state ::
  "pos \<Rightarrow> pos \<Rightarrow> nat \<Rightarrow> nat \<Rightarrow> (nat \<times> nat) option \<Rightarrow> bool \<Rightarrow> bool \<Rightarrow> grid \<Rightarrow> grid" where
  "restore_cursor_state p saved upper lower margins origin saved_origin g =
     (let g = g\<lparr>gd_pos := p, gd_saved_pos := saved, gd_top := min upper (gd_height g - 1),
                gd_bottom := min lower (gd_height g - 1)\<rparr>;
          g = (if gd_bottom g < gd_top g then g\<lparr>gd_top := 0, gd_bottom := gd_height g - 1\<rparr> else g);
          g = (case margins of
                 None \<Rightarrow> g
               | Some (left, right) \<Rightarrow>
                   (let right = min right (gd_width g - 1)
                    in if left < right then g\<lparr>gd_left := left, gd_right := right\<rparr> else g))
      in g\<lparr>gd_origin := origin, gd_saved_origin := saved_origin\<rparr>)"

definition grid_clear :: "grid \<Rightarrow> grid" where
  "grid_clear g =
     (let g = erase_all 0 (g\<lparr>gd_pos := pos_at 0 0, gd_saved_pos := pos_at 0 0\<rparr>)
      in g\<lparr>gd_placements := [], gd_slots := [], gd_top := 0, gd_bottom := gd_height g - 1,
           gd_left := 0, gd_right := gd_width g - 1, gd_origin := False, gd_saved_origin := False\<rparr>)"

section \<open>The text of a line\<close>

definition is_whitespace :: "nat \<Rightarrow> bool" where
  "is_whitespace c =
     (0x09 \<le> c \<and> c \<le> 0x0D \<or> c \<in> {0x20, 0x85, 0xA0, 0x1680, 0x2028, 0x2029, 0x202F, 0x205F, 0x3000} \<or>
      0x2000 \<le> c \<and> c \<le> 0x200A)"

definition str_trim_end :: "byte list \<Rightarrow> byte list" where
  "str_trim_end bs = concat (map encode_char (rev (dropWhile is_whitespace (rev (str_chars bs)))))"

definition max_line_text :: nat where "max_line_text = 4096"

text \<open>Back over the rows that wrapped into a row.\<close>

fun line_start :: "row list \<Rightarrow> nat \<Rightarrow> nat" where
  "line_start rows 0 = 0"
| "line_start rows (Suc r) = (if r_wrapped (rows ! r) then line_start rows r else Suc r)"

fun boundary_before :: "byte list \<Rightarrow> nat \<Rightarrow> nat" where
  "boundary_before bs 0 = 0"
| "boundary_before bs (Suc n) = (if char_boundary bs (Suc n) then Suc n else boundary_before bs n)"

definition add_row_text :: "grid \<Rightarrow> nat \<Rightarrow> byte list \<Rightarrow> byte list" where
  "add_row_text g r out =
     (if max_line_text \<le> length out then out
      else out @ push_text 0 (length (r_cells (gd_rows g ! r))) (tb_graphemes (gd_tables g)) (gd_rows g ! r))"

definition line_text :: "nat \<Rightarrow> grid \<Rightarrow> byte list option" where
  "line_text r g =
     (let r = min r (length (gd_rows g) - 1)
      in if length (gd_rows g) \<le> r then None
         else (let first = line_start (gd_rows g) r;
                   out = (if first = 0 \<and> sb_open (gd_history g) \<and> sb_lines (gd_history g) \<noteq> []
                          then l_text (List.last (sb_lines (gd_history g))) else []);
                   out = fold (add_row_text g) [first..<r + 1] out;
                   out = (if max_line_text < length out then take (boundary_before out max_line_text) out else out)
               in Some (str_trim_end out)))"

end
