(* ===== verification/Grid_Safe.thy ===== *)
theory Grid_Safe
  imports Term_Grid Runs
begin

text \<open>
  What a grid obeys whatever is done to it: its rows, margins, region and cursor fit its size, so that no
  index is out of range and no clamp is upside down, and its history counts its rows. What else holds of
  every row is an interface, \<open>row_kind\<close>: of any row its length, and without margins that its wide
  characters are whole.
\<close>

section \<open>The invariant\<close>

definition frame_ok :: "grid \<Rightarrow> bool" where
  "frame_ok g =
     (0 < gd_height g \<and> 0 < gd_width g \<and> gd_top g \<le> gd_bottom g \<and> gd_bottom g < gd_height g \<and>
      gd_left g \<le> gd_right g \<and> gd_right g < gd_width g \<and> pos_row (gd_pos g) < gd_height g \<and>
      length (gd_tabs g) = gd_width g)"

definition rows_sat :: "(nat \<Rightarrow> row \<Rightarrow> bool) \<Rightarrow> grid \<Rightarrow> bool" where
  "rows_sat fit g = (length (gd_rows g) = gd_height g \<and> list_all (fit (gd_width g)) (gd_rows g))"

definition history_ok :: "(nat \<Rightarrow> nat option) \<Rightarrow> nat \<Rightarrow> history \<Rightarrow> bool" where
  "history_ok cw width h = (sb_rows h = Some (width, count_rows cw width h) \<and> length (sb_lines h) \<le> sb_capacity h)"

definition grid_sat :: "(nat \<Rightarrow> row \<Rightarrow> bool) \<Rightarrow> bool \<Rightarrow> (nat \<Rightarrow> nat option) \<Rightarrow> grid \<Rightarrow> bool" where
  "grid_sat fit margins cw g =
     (frame_ok g \<and> rows_sat fit g \<and> (margins \<or> \<not> margins_active g) \<and> history_ok cw (gd_width g) (gd_history g))"

definition view_ok_at :: "(nat \<Rightarrow> nat option) \<Rightarrow> grid \<Rightarrow> bool" where
  "view_ok_at cw g = (gd_view_offset g \<le> max_scrollback cw g)"

text \<open>Two grids that differ in their rows and images at most.\<close>

definition same :: "grid \<Rightarrow> grid \<Rightarrow> bool" where
  "same g g' =
     (gd_height g' = gd_height g \<and>
      gd_width g' = gd_width g \<and>
      gd_history g' = gd_history g \<and>
      gd_top g' = gd_top g \<and>
      gd_bottom g' = gd_bottom g \<and>
      gd_left g' = gd_left g \<and>
      gd_right g' = gd_right g \<and>
      gd_pos g' = gd_pos g \<and>
      gd_tabs g' = gd_tabs g \<and>
      gd_view_offset g' = gd_view_offset g \<and>
      gd_tables g' = gd_tables g \<and>
      gd_origin g' = gd_origin g \<and>
      gd_row_base g' = gd_row_base g)"

lemma same_refl [simp]: "same g g"
  by (simp add: same_def)

lemma same_trans: "same g g' \<Longrightarrow> same g' g'' \<Longrightarrow> same g g''"
  by (simp add: same_def)

lemma same_fields:
  assumes "same g g'"
  shows "gd_height g' = gd_height g" "gd_width g' = gd_width g" "gd_history g' = gd_history g" "gd_top g' = gd_top g" "gd_bottom g' = gd_bottom g" "gd_left g' = gd_left g" "gd_right g' = gd_right g" "gd_pos g' = gd_pos g" "gd_tabs g' = gd_tabs g" "gd_view_offset g' = gd_view_offset g" "gd_tables g' = gd_tables g" "gd_origin g' = gd_origin g" "gd_row_base g' = gd_row_base g"
  using assms by (simp_all add: same_def)

lemma same_sat:
  assumes "same g g'" "grid_sat fit m cw g" "rows_sat fit g'"
  shows "grid_sat fit m cw g'"
  using assms(2,3) same_fields [OF assms(1)] by (simp add: grid_sat_def frame_ok_def margins_active_def)

lemma touch_same [simp]: "same g (touch r a b g)"
  by (simp add: same_def touch_def Let_def)

lemma touch_rows [simp]: "gd_rows (touch r a b g) = gd_rows g"
  by (simp add: touch_def Let_def)

lemma touch_rows_sat [simp]: "rows_sat fit (touch r a b g) = rows_sat fit g"
  using same_fields [OF touch_same [of g r a b]] by (simp add: rows_sat_def)

lemma rows_sat_nth: "rows_sat fit g \<Longrightarrow> r < gd_height g \<Longrightarrow> fit (gd_width g) (gd_rows g ! r)"
  by (simp add: rows_sat_def list_all_length)

lemma row_mut_sat:
  assumes "rows_sat fit g" "r < gd_height g"
    and "\<And>row. fit (gd_width g) row \<Longrightarrow> fit (gd_width g) (f row)"
  shows "\<exists>g'. row_mut r f (touch r' a b g) = Some g' \<and> rows_sat fit g' \<and> same g g'"
proof -
  let ?t = "touch r' a b g"
  have s: "same g ?t" by simp
  have r: "r < length (gd_rows ?t)" using assms by (simp add: rows_sat_def)
  let ?g = "?t\<lparr>gd_rows := (gd_rows g)[r := f (gd_rows g ! r)]\<rparr>"
  have "rows_sat fit ?g"
    using assms same_fields [OF s] by (auto simp: rows_sat_def list_all_length nth_list_update)
  moreover have "same ?t ?g" by (simp add: same_def)
  ultimately show ?thesis using r same_trans [OF s] by (simp add: row_mut_def)
qed


section \<open>The contract of rows\<close>

locale row_kind =
  fixes fit :: "nat \<Rightarrow> row \<Rightarrow> bool" and margins :: bool
  assumes fit_length: "fit w r \<Longrightarrow> length (r_cells r) = w"
    and fit_clear: "fit w r \<Longrightarrow> fit w (row_clear st r)"
    and fit_wrap: "fit w r \<Longrightarrow> fit w (row_wrap b r)"
    and fit_erase: "fit w r \<Longrightarrow> fit w (row_erase c st r)"
    and fit_filler: "fit w r \<Longrightarrow> fit w (row_set c (cell_filler st) r)"
    and fit_write: "fit w r \<Longrightarrow> c < w \<Longrightarrow> \<not> ct_is_continuation t \<Longrightarrow> fit w (write_in_row w c t st r)"
    and fit_ascii: "fit w r \<Longrightarrow> c < l \<Longrightarrow> l \<le> w \<Longrightarrow> l \<le> c + length bs \<Longrightarrow>
      fit w (r\<lparr>r_cells := write_ascii_cells c bs l st (r_cells r)\<rparr>)"
    and fit_insert: "fit w r \<Longrightarrow> margins \<or> right + 1 = w \<Longrightarrow> fit w (insert_blanks c n right st r)"
    and fit_delete: "fit w r \<Longrightarrow> margins \<or> right + 1 = w \<Longrightarrow> fit w (delete_cells c n right st r)"
    and fit_copy: "margins \<Longrightarrow> fit w r \<Longrightarrow> left \<le> right \<Longrightarrow> right < w \<Longrightarrow> length cells = right + 1 - left \<Longrightarrow>
      fit w \<lparr>r_cells = on_range left right (\<lambda>_. cells) (r_cells r), r_wrapped = False\<rparr>"
begin

lemma fold_erase: "fit w r \<Longrightarrow> fit w (fold (\<lambda>c. row_erase c st) cs r)"
  by (induction cs arbitrary: r) (simp_all add: fit_erase)

lemma fold_fill: "fit w r \<Longrightarrow> fit w (fill_to a b st r)"
proof -
  have "fit w r \<Longrightarrow> fit w (fold (\<lambda>c r. case row_get c r of
          Some cell \<Rightarrow> if \<not> has_contents cell \<and> \<not> is_continuation cell then row_set c (cell_filler st) r else r
        | None \<Rightarrow> r) cs r)" for cs
    by (induction cs arbitrary: r) (auto simp: fit_filler split: option.splits)
  then show "fit w r \<Longrightarrow> ?thesis" by (simp add: fill_to_def)
qed

lemma sat_row:
  assumes "grid_sat fit margins cw g" "r < gd_height g" "\<And>row. fit (gd_width g) row \<Longrightarrow> fit (gd_width g) (f row)"
  shows "\<exists>g'. row_mut r f (touch r' a b g) = Some g' \<and> grid_sat fit margins cw g' \<and> same g g'"
proof -
  obtain g' where "row_mut r f (touch r' a b g) = Some g'" "rows_sat fit g'" "same g g'"
    using row_mut_sat [of fit g r f r' a b] assms by (auto simp: grid_sat_def)
  then show ?thesis using same_sat [OF _ assms(1)] by auto
qed

lemma sat_current:
  assumes "grid_sat fit margins cw g" "\<And>row. fit (gd_width g) row \<Longrightarrow> fit (gd_width g) (f row)"
  shows "\<exists>g'. current_row_mut f (touch r' a b g) = Some g' \<and> grid_sat fit margins cw g' \<and> same g g'"
  using sat_row [OF assms(1) _ assms(2)] assms(1) same_fields [OF touch_same]
  by (auto simp: current_row_mut_def grid_sat_def frame_ok_def)

lemma sat_rows:
  assumes "grid_sat fit margins cw g" "\<And>r. r \<in> set rs \<Longrightarrow> r < gd_height g"
    and "\<And>r row. r \<in> set rs \<Longrightarrow> fit (gd_width g) row \<Longrightarrow> fit (gd_width g) (f row)"
    and "\<And>r g'. same g g' \<Longrightarrow> step r g' = row_mut r f (touch (r' r) a b g')"
  shows "\<exists>g'. fold_opt step rs g = Some g' \<and> grid_sat fit margins cw g' \<and> same g g'"
proof (rule fold_opt_keeps)
  fix r g' assume r: "r \<in> set rs" and g': "grid_sat fit margins cw g' \<and> same g g'"
  then obtain g'' where "row_mut r f (touch (r' r) a b g') = Some g''" "grid_sat fit margins cw g''" "same g' g''"
    using sat_row [of cw g' r f "r' r" a b] assms(2,3) [OF r] same_fields(1,2) [of g g'] by metis
  then show "\<exists>g''. step r g' = Some g'' \<and> grid_sat fit margins cw g'' \<and> same g g''"
    using g' assms(4) same_trans [of g g' g''] by auto
qed (use assms(1) in simp)

text \<open>Writing.\<close>

lemma sat_write_cell:
  assumes "grid_sat fit margins cw g" "\<not> ct_is_continuation t"
  shows "\<exists>g'. write_cell p t st g = Some g' \<and> grid_sat fit margins cw g' \<and> same g g'"
proof (cases "gd_width g \<le> pos_col p \<or> gd_height g \<le> pos_row p")
  case False
  then show ?thesis
    using sat_row [OF assms(1), of "pos_row p" "write_in_row (gd_width g) (pos_col p) t st"] fit_write assms(2)
    by (simp add: write_cell_def Let_def)
qed (use assms in \<open>auto simp: write_cell_def\<close>)

lemma sat_write_ascii:
  assumes "grid_sat fit margins cw g" "pos_col p < gd_width g"
  shows "\<exists>g'. write_ascii_row p bs st g = Some g' \<and> grid_sat fit margins cw g' \<and> same g g'"
proof (cases "bs = [] \<or> gd_height g \<le> pos_row p")
  case False
  define l where "l = min (pos_col p + length bs) (gd_width g)"
  have l: "pos_col p < l" "l \<le> gd_width g" "l \<le> pos_col p + length bs"
    using assms(2) False by (auto simp: l_def min_def)
  have r: "pos_row p < length (gd_rows g)" "length (r_cells (gd_rows g ! pos_row p)) = gd_width g"
    using assms(1) False fit_length rows_sat_nth [of fit g "pos_row p"] by (auto simp: grid_sat_def rows_sat_def)
  have "\<exists>g'. row_mut (pos_row p) (\<lambda>r. r\<lparr>r_cells := write_ascii_cells (pos_col p) bs l st (r_cells r)\<rparr>)
      (touch (pos_row p) (pos_col p) l g) = Some g' \<and> grid_sat fit margins cw g' \<and> same g g'"
    by (rule sat_row [OF assms(1)]) (use False fit_ascii [OF _ l] in simp_all)
  then show ?thesis
    using False r l by (simp add: write_ascii_row_def Let_def drawing_row_def flip: l_def)
qed (use assms in \<open>auto simp: write_ascii_row_def\<close>)

text \<open>Erasing and editing.\<close>

lemma sat_erase_range:
  "grid_sat fit margins cw g \<Longrightarrow> \<exists>g'. erase_range a b st g = Some g' \<and> grid_sat fit margins cw g' \<and> same g g'"
  unfolding erase_range_def by (rule sat_current) (simp_all add: fold_erase)

lemma sat_erase_row:
  "grid_sat fit margins cw g \<Longrightarrow> \<exists>g'. erase_row st g = Some g' \<and> grid_sat fit margins cw g' \<and> same g g'"
  unfolding erase_row_def by (rule sat_current) (simp_all add: fit_clear)

lemma sat_blank_rows:
  assumes "grid_sat fit margins cw g" "\<And>r. r \<in> set rs \<Longrightarrow> r < gd_height g"
  shows "\<exists>g'. fold_opt (blank_at st) rs g = Some g' \<and> grid_sat fit margins cw g' \<and> same g g'"
  by (rule sat_rows [OF assms, where f = "row_clear st" and r' = "\<lambda>r. r" and a = 0 and b = "gd_width g"])
    (simp_all add: blank_at_def fit_clear same_fields)

lemma sat_bind:
  assumes "\<exists>g'. f g = Some g' \<and> grid_sat fit margins cw g' \<and> same g g'"
    and "\<And>g'. grid_sat fit margins cw g' \<Longrightarrow> same g g' \<Longrightarrow> \<exists>g''. h g' = Some g'' \<and> grid_sat fit margins cw g'' \<and> same g' g''"
  shows "\<exists>g'. Option.bind (f g) h = Some g' \<and> grid_sat fit margins cw g' \<and> same g g'"
  using assms same_trans by fastforce

lemma sat_erase_all_forward:
  assumes "grid_sat fit margins cw g"
  shows "\<exists>g'. erase_all_forward st g = Some g' \<and> grid_sat fit margins cw g' \<and> same g g'"
  unfolding erase_all_forward_def
proof (rule sat_bind)
  show "\<exists>g'. fold_opt (blank_at st) [pos_row (gd_pos g) + 1..<length (gd_rows g)] g = Some g' \<and>
      grid_sat fit margins cw g' \<and> same g g'"
    by (rule sat_blank_rows [OF assms]) (use assms in \<open>simp add: grid_sat_def rows_sat_def\<close>)
qed (simp add: erase_row_forward_def sat_erase_range)

lemma sat_erase_all_backward:
  assumes "grid_sat fit margins cw g"
  shows "\<exists>g'. erase_all_backward st g = Some g' \<and> grid_sat fit margins cw g' \<and> same g g'"
  unfolding erase_all_backward_def
proof (rule sat_bind)
  show "\<exists>g'. fold_opt (blank_at st) [0..<min (pos_row (gd_pos g)) (length (gd_rows g))] g = Some g' \<and>
      grid_sat fit margins cw g' \<and> same g g'"
    by (rule sat_blank_rows [OF assms]) (use assms in \<open>simp add: grid_sat_def rows_sat_def\<close>)
qed (simp add: erase_row_backward_def sat_erase_range)

lemma full_right: "grid_sat fit margins cw g \<Longrightarrow> margins \<or> gd_right g + 1 = gd_width g"
  by (auto simp: grid_sat_def frame_ok_def margins_active_def)

lemma sat_insert_cells:
  assumes "grid_sat fit margins cw g"
  shows "\<exists>g'. grid_insert_cells n st g = Some g' \<and> grid_sat fit margins cw g' \<and> same g g'"
  using sat_current [OF assms, of "insert_blanks (grid_col g) (max n 1) (gd_right g) st"]
    fit_insert full_right [OF assms] assms
  by (auto simp: grid_insert_cells_def Let_def)

lemma sat_delete_cells:
  assumes "grid_sat fit margins cw g"
  shows "\<exists>g'. grid_delete_cells n st g = Some g' \<and> grid_sat fit margins cw g' \<and> same g g'"
  using sat_current [OF assms, of "delete_cells (grid_col g) (max n 1) (gd_right g) st"]
    fit_delete full_right [OF assms] assms
  by (auto simp: grid_delete_cells_def Let_def)

lemma region_rows: "grid_sat fit margins cw g \<Longrightarrow> r \<in> set [gd_top g..<gd_bottom g + 1] \<Longrightarrow> r < gd_height g"
  by (auto simp: grid_sat_def frame_ok_def)

lemma sat_insert_columns:
  assumes "grid_sat fit margins cw g"
  shows "\<exists>g'. insert_columns n st g = Some g' \<and> grid_sat fit margins cw g' \<and> same g g'"
proof (cases "grid_col g < gd_left g \<or> gd_right g < grid_col g")
  case False
  have "\<exists>g'. fold_opt (\<lambda>r g'. row_mut r (insert_blanks (grid_col g) (max n 1) (gd_right g) st) (touch r (grid_col g) (gd_right g + 1) g'))
      [gd_top g..<gd_bottom g + 1] g = Some g' \<and> grid_sat fit margins cw g' \<and> same g g'"
    by (rule sat_rows [OF assms region_rows [OF assms], where r' = "\<lambda>r. r"]) (simp_all add: fit_insert full_right [OF assms, simplified])
  then show ?thesis unfolding insert_columns_def Let_def if_not_P [OF False] .
qed (use assms in \<open>auto simp: insert_columns_def\<close>)

lemma sat_delete_columns:
  assumes "grid_sat fit margins cw g"
  shows "\<exists>g'. delete_columns n st g = Some g' \<and> grid_sat fit margins cw g' \<and> same g g'"
proof (cases "grid_col g < gd_left g \<or> gd_right g < grid_col g")
  case False
  have "\<exists>g'. fold_opt (\<lambda>r g'. row_mut r (delete_cells (grid_col g) (max n 1) (gd_right g) st) (touch r (grid_col g) (gd_right g + 1) g'))
      [gd_top g..<gd_bottom g + 1] g = Some g' \<and> grid_sat fit margins cw g' \<and> same g g'"
    by (rule sat_rows [OF assms region_rows [OF assms], where r' = "\<lambda>r. r"]) (simp_all add: fit_delete full_right [OF assms, simplified])
  then show ?thesis unfolding delete_columns_def Let_def if_not_P [OF False] .
qed (use assms in \<open>auto simp: delete_columns_def\<close>)


text \<open>Lines.\<close>

lemma margin_cells_sat:
  assumes "grid_sat fit margins cw g" "r < gd_height g"
  shows "\<exists>cells. margin_cells r g = Some cells \<and> length cells = gd_right g + 1 - gd_left g"
proof -
  have "r < length (gd_rows g)" "length (r_cells (gd_rows g ! r)) = gd_width g" "gd_left g \<le> gd_right g" "gd_right g < gd_width g"
    using assms fit_length rows_sat_nth [of fit g r] by (auto simp: grid_sat_def rows_sat_def frame_ok_def)
  then show ?thesis by (simp add: margin_cells_def drawing_row_def)
qed

lemma copy_sat:
  assumes "grid_sat fit margins cw g" "r < gd_height g" "length cells = gd_right g + 1 - gd_left g" margins
  shows "\<exists>g'. copy_to_margins r cells g = Some g' \<and> grid_sat fit margins cw g' \<and> same g g'"
proof -
  obtain old where "margin_cells r g = Some old" "length old = length cells"
    using margin_cells_sat [OF assms(1,2)] assms(3) by auto
  moreover have "gd_left g \<le> gd_right g" "gd_right g < gd_width g" using assms(1) by (auto simp: grid_sat_def frame_ok_def)
  then have "fit (gd_width g) \<lparr>r_cells = on_range (gd_left g) (gd_right g) (\<lambda>_. cells) (r_cells row), r_wrapped = False\<rparr>"
    if "fit (gd_width g) row" for row
    using fit_copy [OF assms(4) that _ _ assms(3)] by simp
  then have "\<exists>g'. row_mut r (\<lambda>row. \<lparr>r_cells = on_range (gd_left g) (gd_right g) (\<lambda>_. cells) (r_cells row), r_wrapped = False\<rparr>)
      (touch r 0 0 g) = Some g' \<and> grid_sat fit margins cw g' \<and> same g g'"
    by (intro sat_row [OF assms(1,2)]) simp
  moreover have "touch r 0 0 g = g" by (simp add: touch_def)
  ultimately show ?thesis by (simp add: copy_to_margins_def)
qed

lemma shift_step_sat:
  assumes "grid_sat fit margins cw g" "r < gd_height g" "q < gd_height g" margins
  shows "\<exists>g'. (let g = touch r (gd_left g) (gd_right g + 1) g
              in Option.bind (if fetch then margin_cells q g else Some (margin_blanks st g))
                   (\<lambda>cells. copy_to_margins r cells g)) = Some g' \<and> grid_sat fit margins cw g' \<and> same g g'"
proof -
  define t where "t = touch r (gd_left g) (gd_right g + 1) g"
  have s: "same g t" by (simp add: t_def)
  have sat: "grid_sat fit margins cw t" by (rule same_sat [OF s assms(1)]) (use assms(1) in \<open>simp add: grid_sat_def t_def\<close>)
  have h: "r < gd_height t" "q < gd_height t" using assms(2,3) same_fields(1) [OF s] by simp_all
  obtain cells where "(if fetch then margin_cells q t else Some (margin_blanks st t)) = Some cells"
      "length cells = gd_right t + 1 - gd_left t"
    using margin_cells_sat [OF sat h(2)] by (cases fetch) (auto simp: margin_blanks_def)
  moreover obtain g' where "copy_to_margins r cells t = Some g'" "grid_sat fit margins cw g'" "same t g'"
    using copy_sat [OF sat h(1) calculation(2) assms(4)] by auto
  ultimately have "Option.bind (if fetch then margin_cells q t else Some (margin_blanks st t)) (\<lambda>cells. copy_to_margins r cells t) = Some g' \<and>
      grid_sat fit margins cw g' \<and> same g g'"
    using same_trans [OF s] by simp
  then show ?thesis unfolding Let_def t_def by blast
qed

lemma shift_sat:
  assumes "grid_sat fit margins cw g" margins "\<And>r. r \<in> set rs \<Longrightarrow> r < gd_height g" "\<And>r. r \<in> set rs \<Longrightarrow> c r \<Longrightarrow> q r < gd_height g"
  shows "\<exists>g'. fold_opt (\<lambda>r g. let g = touch r (gd_left g) (gd_right g + 1) g
              in Option.bind (if c r then margin_cells (q r) g else Some (margin_blanks st g))
                   (\<lambda>cells. copy_to_margins r cells g)) rs g = Some g' \<and> grid_sat fit margins cw g' \<and> same g g'"
proof (rule fold_opt_keeps)
  fix r g' assume r: "r \<in> set rs" and g': "grid_sat fit margins cw g' \<and> same g g'"
  have h: "r < gd_height g'" "(if c r then q r else r) < gd_height g'"
    using assms(3,4) [OF r] same_fields(1) [of g g'] g' by auto
  show "\<exists>g''. (let g = touch r (gd_left g') (gd_right g' + 1) g'
              in Option.bind (if c r then margin_cells (q r) g else Some (margin_blanks st g))
                   (\<lambda>cells. copy_to_margins r cells g)) = Some g'' \<and> grid_sat fit margins cw g'' \<and> same g g''"
    using shift_step_sat [OF conjunct1 [OF g'] h assms(2), of "c r" st] g' same_trans [of g g']
    by (cases "c r") auto
qed (use assms(1) in simp)

lemma sat_shift_cells_up:
  assumes "grid_sat fit margins cw g" margins "lower < gd_height g"
  shows "\<exists>g'. shift_cells_up upper lower n st g = Some g' \<and> grid_sat fit margins cw g' \<and> same g g'"
  unfolding shift_cells_up_def by (rule shift_sat [OF assms(1,2)]) (use assms(3) in auto)

lemma sat_shift_cells_down:
  assumes "grid_sat fit margins cw g" margins "lower < gd_height g"
  shows "\<exists>g'. shift_cells_down upper lower n st g = Some g' \<and> grid_sat fit margins cw g' \<and> same g g'"
  unfolding shift_cells_down_def by (rule shift_sat [OF assms(1,2)]) (use assms(3) in auto)

end


section \<open>History keeps its count\<close>

lemma count_rows_snoc: "count_rows cw w (h\<lparr>sb_lines := ls @ [l]\<rparr>) = count_rows cw w (h\<lparr>sb_lines := ls\<rparr>) + line_rows_at cw w l"
  by (simp add: count_rows_def)

lemma history_ok_without_last:
  assumes "history_ok cw w h" "sb_lines h \<noteq> []"
  shows "history_ok cw w (rows_removed cw (List.last (sb_lines h)) (h\<lparr>sb_lines := butlast (sb_lines h)\<rparr>))"
  using assms by (cases "sb_lines h" rule: rev_cases) (simp_all add: history_ok_def rows_removed_def count_rows_def)

lemma history_ok_push:
  assumes "history_ok cw w h" "0 < sb_capacity h" "store_push l (rows_added cw l h) = (dropped, h')"
  shows "history_ok cw w (case dropped of None \<Rightarrow> h' | Some d \<Rightarrow> rows_removed cw d h')"
proof (cases "sb_capacity h < length (sb_lines h @ [l])")
  case True
  then obtain d ls where "sb_lines h = d # ls" using assms(1,2) by (cases "sb_lines h") (auto simp: history_ok_def)
  then show ?thesis
    using True assms by (auto simp: store_push_def rows_added_def rows_removed_def history_ok_def count_rows_def Let_def)
next
  case False
  then show ?thesis
    using assms by (auto simp: store_push_def rows_added_def history_ok_def count_rows_def Let_def)
qed

lemma history_ok_open [simp]: "history_ok cw w (h\<lparr>sb_open := b\<rparr>) = history_ok cw w h"
  by (simp add: history_ok_def count_rows_def)

lemma history_capacity [simp]:
  "sb_capacity (rows_removed cw l h) = sb_capacity h" "sb_capacity (rows_added cw l h) = sb_capacity h"
  by (simp_all add: rows_removed_def rows_added_def)

lemma history_ok_commit:
  assumes "history_ok cw w h"
  shows "history_ok cw w (history_commit cw r t h)"
proof (cases "sb_capacity h = 0")
  case False
  define len where "len = (if r_wrapped r then length (r_cells r) else used_len (\<lambda>i. is_visible_blank (style_get i (tb_styles t))) r)"
  define grows where "grows = (sb_open h \<and> sb_lines h \<noteq> [])"
  define h1 where "h1 = (if grows then rows_removed cw (List.last (sb_lines h)) (h\<lparr>sb_lines := butlast (sb_lines h)\<rparr>) else h)"
  define l where "l = push_cells (take len (r_cells r)) (tb_styles t) (tb_graphemes t) (if grows then List.last (sb_lines h) else line_empty)"
  obtain dropped h3 where push: "store_push l (rows_added cw l h1) = (dropped, h3)" by fastforce
  have h1: "history_ok cw w h1" "0 < sb_capacity h1"
    using assms False history_ok_without_last [OF assms] by (auto simp: h1_def grows_def)
  have "history_commit cw r t h =
      (case dropped of None \<Rightarrow> h3 | Some d \<Rightarrow> rows_removed cw d h3)\<lparr>sb_open := (r_wrapped r \<and> cell_count l < max_line_cells)\<rparr>"
    using False push unfolding history_commit_def Let_def grows_def [symmetric] len_def [symmetric]
    by (cases grows) (simp_all add: l_def h1_def)
  then show ?thesis using history_ok_push [OF h1 push] by simp
qed (use assms in \<open>simp add: history_commit_def\<close>)

lemma history_ok_clear: "history_ok cw w h \<Longrightarrow> history_ok cw w (history_clear h)"
  by (simp add: history_ok_def history_clear_def count_rows_def)

lemma history_ok_set_width: "length (sb_lines h) \<le> sb_capacity h \<Longrightarrow>
    (\<And>w n. sb_rows h = Some (w, n) \<Longrightarrow> n = count_rows cw w h) \<Longrightarrow> history_ok cw w (history_set_width cw w h)"
  by (auto simp: history_set_width_def history_ok_def count_rows_def split: option.splits)

lemma history_rows_exact: "history_ok cw w h \<Longrightarrow> history_rows_at cw width h = count_rows cw width h"
  by (auto simp: history_rows_at_def history_ok_def)

section \<open>Scrolling\<close>

definition fixed :: "grid \<Rightarrow> grid \<Rightarrow> bool" where
  "fixed g g' =
     (gd_height g' = gd_height g \<and> gd_width g' = gd_width g \<and> gd_top g' = gd_top g \<and> gd_bottom g' = gd_bottom g \<and>
      gd_left g' = gd_left g \<and> gd_right g' = gd_right g \<and> gd_pos g' = gd_pos g \<and> gd_tabs g' = gd_tabs g \<and>
      gd_origin g' = gd_origin g)"

lemma fixed_refl [simp]: "fixed g g"
  by (simp add: fixed_def)

lemma fixed_trans: "fixed g g' \<Longrightarrow> fixed g' g'' \<Longrightarrow> fixed g g''"
  by (simp add: fixed_def)

lemma same_fixed: "same g g' \<Longrightarrow> fixed g g'"
  by (simp add: fixed_def same_def)

lemma fixed_sat:
  assumes "fixed g g'" "grid_sat fit m cw g" "rows_sat fit g'" "history_ok cw (gd_width g) (gd_history g')"
  shows "grid_sat fit m cw g'"
  using assms by (simp add: grid_sat_def frame_ok_def margins_active_def fixed_def)

lemma set_on_range_rotate: "a \<le> b \<Longrightarrow> b < length xs \<Longrightarrow> set (on_range a b (rotate_left n) xs) = set xs"
  "a \<le> b \<Longrightarrow> b < length xs \<Longrightarrow> set (on_range a b (rotate_right n) xs) = set xs"
proof -
  have u: "set (drop k ys) \<union> set (take k ys) = set ys" for k and ys :: "'a list"
    by (metis Un_commute append_take_drop_id set_append)
  have r: "set (rotate_left n ys) = set ys" "set (rotate_right n ys) = set ys" for ys :: "'a list"
    by (simp_all add: rotate_left_def rotate_right_def u)
  have split: "xs = take a xs @ take (b + 1 - a) (drop a xs) @ drop (b + 1) xs" if "a \<le> b"
  proof -
    have "drop (b + 1) xs = drop (b + 1 - a) (drop a xs)" using that by simp
    then show ?thesis by (simp only: append_take_drop_id)
  qed
  show "set (on_range a b (rotate_left n) xs) = set xs" if "a \<le> b" "b < length xs"
    using r(1) arg_cong [OF split [OF that(1)], of set] by (simp add: on_range_def)
  show "set (on_range a b (rotate_right n) xs) = set xs" if "a \<le> b" "b < length xs"
    using r(2) arg_cong [OF split [OF that(1)], of set] by (simp add: on_range_def)
qed


lemma times_opt_keeps:
  assumes "\<And>x. P x \<Longrightarrow> \<exists>y. f x = Some y \<and> P y" and "P x"
  shows "\<exists>y. times_opt n f x = Some y \<and> P y"
  using assms(2)
proof (induction n arbitrary: x)
  case (Suc n)
  obtain y where "f x = Some y" "P y" using assms(1) [OF Suc.prems] by auto
  then show ?case using Suc.IH [of y] by simp
qed simp

lemma same_view: "same g g' \<Longrightarrow> view_ok_at cw g' = view_ok_at cw g"
  by (simp add: view_ok_at_def max_scrollback_def same_fields)

definition grid_good :: "(nat \<Rightarrow> row \<Rightarrow> bool) \<Rightarrow> bool \<Rightarrow> (nat \<Rightarrow> nat option) \<Rightarrow> grid \<Rightarrow> bool" where
  "grid_good fit margins cw g = (grid_sat fit margins cw g \<and> view_ok_at cw g)"

text \<open>An operation that does not panic and keeps the invariant.\<close>

definition good_at :: "(nat \<Rightarrow> row \<Rightarrow> bool) \<Rightarrow> bool \<Rightarrow> (nat \<Rightarrow> nat option) \<Rightarrow> grid option \<Rightarrow> bool" where
  "good_at fit margins cw r = (\<exists>g'. r = Some g' \<and> grid_good fit margins cw g')"

lemma good_atI: "grid_good fit m cw g \<Longrightarrow> good_at fit m cw (Some g)"
  by (simp add: good_at_def)

lemma same_good:
  assumes "\<exists>g'. r = Some g' \<and> grid_sat fit m cw g' \<and> same g g'" "grid_good fit m cw g"
  shows "good_at fit m cw r"
  using assms same_view by (auto simp: good_at_def grid_good_def)

context row_kind
begin

lemma sat_scroll_once:
  assumes "grid_sat fit margins cw g" "upper \<le> lower" "lower < gd_height g"
  shows "\<exists>g'. scroll_once cw to_history upper lower st g = Some g' \<and> grid_sat fit margins cw g' \<and> fixed g g'"
proof -
  have len: "lower < length (gd_rows g)" using assms by (simp add: grid_sat_def rows_sat_def)
  define g1 where "g1 = g\<lparr>gd_rows := on_range upper lower (rotate_left 1) (gd_rows g)\<rparr>"
  have rot: "rotate_rows (rotate_left 1) upper lower g = Some g1" using len assms(2) by (simp add: rotate_rows_def g1_def)
  have f1: "fixed g g1" by (simp add: fixed_def g1_def)
  have g1: "grid_sat fit margins cw g1"
    by (rule fixed_sat [OF f1 assms(1)])
      (use assms len set_on_range_rotate(1) [OF assms(2) len, of 1] in
        \<open>auto simp: g1_def grid_sat_def rows_sat_def list_all_iff\<close>)
  obtain g2 where g2: "(if to_history then commit_row cw lower g1 else Some g1) = Some g2"
    "grid_sat fit margins cw g2" "fixed g1 g2"
  proof (cases to_history)
    case True
    have "lower < length (gd_rows g1)" using len assms(2) by (simp add: g1_def)
    then obtain g2 where c: "commit_row cw lower g1 = Some g2" "gd_rows g2 = gd_rows g1" "fixed g1 g2"
      "gd_history g2 = history_commit cw (gd_rows g1 ! lower) (gd_tables g1) (gd_history g1)"
      by (auto simp: commit_row_def drawing_row_def fixed_def)
    have "grid_sat fit margins cw g2"
      by (rule fixed_sat [OF c(3) g1]) (use g1 c in \<open>auto simp: grid_sat_def rows_sat_def fixed_def history_ok_commit\<close>)
    then show thesis using that c True by simp
  qed (use that g1 in simp)
  have h: "lower < gd_height g2" using g2(3) f1 assms(3) by (simp add: fixed_def)
  have "touch 0 0 0 g2 = g2" by (simp add: touch_def)
  then obtain g3 where "row_mut lower (blank_row st) g2 = Some g3" "grid_sat fit margins cw g3" "same g2 g3"
    using sat_row [OF g2(2) h, of "blank_row st" 0 0 0] fit_clear by auto
  then show ?thesis
    using rot g2(1) fixed_trans [OF f1] fixed_trans [OF g2(3)] same_fixed by (auto simp: scroll_once_def)
qed

lemma sat_scroll_times:
  assumes "grid_sat fit margins cw g" "upper \<le> lower" "lower < gd_height g"
  shows "\<exists>g'. times_opt n (scroll_once cw to_history upper lower st) g = Some g' \<and> grid_sat fit margins cw g' \<and> fixed g g'"
proof (rule times_opt_keeps)
  fix x assume x: "grid_sat fit margins cw x \<and> fixed g x"
  then have "lower < gd_height x" using assms(3) by (simp add: fixed_def)
  then show "\<exists>y. scroll_once cw to_history upper lower st x = Some y \<and> grid_sat fit margins cw y \<and> fixed g y"
    using sat_scroll_once [OF _ assms(2), of cw x to_history st] x fixed_trans [of g x] by auto
qed (use assms(1) in simp)

lemma sat_placements:
  assumes "grid_sat fit margins cw g"
  shows "grid_sat fit margins cw (shift_placements a b d g) \<and> fixed g (shift_placements a b d g)"
    and "grid_sat fit margins cw (drop_scrolled_placements cw (g\<lparr>gd_row_base := base\<rparr>)) \<and>
      fixed g (drop_scrolled_placements cw (g\<lparr>gd_row_base := base\<rparr>))"
  using assms
  by (simp_all add: shift_placements_def drop_scrolled_placements_def Let_def grid_sat_def frame_ok_def rows_sat_def
      margins_active_def fixed_def)

lemma sat_view:
  assumes "grid_sat fit margins cw g"
  shows "grid_sat fit margins cw (g\<lparr>gd_view_offset := v, gd_view_stale := b\<rparr>) \<and> fixed g (g\<lparr>gd_view_offset := v, gd_view_stale := b\<rparr>)"
  using assms by (simp add: grid_sat_def frame_ok_def rows_sat_def margins_active_def fixed_def)

lemma good_scroll_up:
  assumes "grid_good fit margins cw g"
  shows "\<exists>g'. scroll_up cw n st g = Some g' \<and> grid_good fit margins cw g' \<and> fixed g g'"
proof -
  have sat: "grid_sat fit margins cw g" using assms by (simp add: grid_good_def)
  have reg: "gd_top g \<le> gd_bottom g" "gd_bottom g < gd_height g" using sat by (auto simp: grid_sat_def frame_ok_def)
  define k where "k = min n (gd_bottom g + 1 - gd_top g)"
  have k: "region_count (gd_top g) (gd_bottom g) n = Some k" using reg by (simp add: region_count_def k_def)
  consider "k = 0" | "k \<noteq> 0" "margins_active g" | "k \<noteq> 0" "\<not> margins_active g" by blast
  then show ?thesis
  proof cases
    case 1
    then show ?thesis using assms k by (simp add: scroll_up_def)
  next
    case 2
    then have margins using sat by (auto simp: grid_sat_def)
    then obtain g' where "shift_cells_up (gd_top g) (gd_bottom g) k st g = Some g'" "grid_sat fit margins cw g'" "same g g'"
      using sat_shift_cells_up [OF sat _ reg(2)] by blast
    then show ?thesis using 2 k assms same_view same_fixed by (auto simp: scroll_up_def grid_good_def)
  next
    case 3
    define full where "full = (\<not> scroll_region_active g)"
    obtain g1 where g1: "times_opt k (scroll_once cw (full \<and> 0 < sb_capacity (gd_history g)) (gd_top g) (gd_bottom g) st) g = Some g1"
      "grid_sat fit margins cw g1" "fixed g g1"
      using sat_scroll_times [OF sat reg] by blast
    define g2 where "g2 = (if full then drop_scrolled_placements cw (g1\<lparr>gd_row_base := gd_row_base g1 + k\<rparr>)
        else shift_placements (gd_top g) (gd_bottom g) (- int k) g1)"
    have g2: "grid_sat fit margins cw g2" "fixed g g2"
      using sat_placements [OF g1(2)] g1(3) fixed_trans by (auto simp: g2_def)
    define g3 where "g3 = (if 0 < gd_view_offset g2
        then g2\<lparr>gd_view_offset := min (gd_view_offset g2) (max_scrollback cw g2), gd_view_stale := True\<rparr> else g2)"
    have "grid_sat fit margins cw g3" "fixed g g3"
      using sat_view [OF g2(1)] g2 fixed_trans by (auto simp: g3_def)
    moreover have "view_ok_at cw g3"
      by (simp add: g3_def view_ok_at_def max_scrollback_def)
    moreover have "scroll_up cw n st g = Some g3"
      using 3 k g1(1) by (simp add: scroll_up_def Let_def g2_def g3_def full_def)
    ultimately show ?thesis by (simp add: grid_good_def)
  qed
qed

end


section \<open>The cursor\<close>

lemma row_clamps:
  "snd (row_clamp_top limit g) = set_row (if limit then max (gd_top g) (pos_row (gd_pos g)) else pos_row (gd_pos g)) g"
  "snd (row_clamp_bottom limit g) = set_row (min (if limit then gd_bottom g else gd_height g - 1) (pos_row (gd_pos g))) g"
  "row_clamp g = set_row (min (gd_height g - 1) (pos_row (gd_pos g))) g"
  "col_clamp g = set_col (min (gd_width g - 1) (pos_col (gd_pos g))) g"
  by (auto simp: row_clamp_top_def row_clamp_bottom_def row_clamp_def col_clamp_def Let_def max_def min_def)

lemma good_pos: "grid_good fit m cw g \<Longrightarrow> pos_row p < gd_height g \<Longrightarrow> grid_good fit m cw (g\<lparr>gd_pos := p\<rparr>)"
  by (simp add: grid_good_def grid_sat_def frame_ok_def rows_sat_def margins_active_def view_ok_at_def max_scrollback_def)

lemma good_frame: "grid_good fit m cw g \<Longrightarrow> frame_ok g"
  by (simp add: grid_good_def grid_sat_def)

lemma frame_less: "frame_ok g \<Longrightarrow> min x (gd_bottom g) < gd_height g" "frame_ok g \<Longrightarrow> min (gd_bottom g) x < gd_height g"
  "frame_ok g \<Longrightarrow> min x (gd_height g - 1) < gd_height g" "frame_ok g \<Longrightarrow> min (gd_height g - 1) x < gd_height g"
  by (auto simp: frame_ok_def)

lemma clamp_margins: "frame_ok g \<Longrightarrow> \<exists>c. clamp_to_margins (g\<lparr>gd_pos := p\<rparr>) = Some (g\<lparr>gd_pos := p\<lparr>pos_col := c\<rparr>\<rparr>)"
  by (auto simp: clamp_to_margins_def clamp_def frame_ok_def)

lemma good_clamp_margins:
  assumes "grid_good fit m cw g" "pos_row p < gd_height g"
  shows "good_at fit m cw (clamp_to_margins (g\<lparr>gd_pos := p\<rparr>))"
proof -
  obtain c where "clamp_to_margins (g\<lparr>gd_pos := p\<rparr>) = Some (g\<lparr>gd_pos := p\<lparr>pos_col := c\<rparr>\<rparr>)"
    using clamp_margins [OF good_frame [OF assms(1)]] by blast
  then show ?thesis using good_pos [OF assms(1), of "p\<lparr>pos_col := c\<rparr>"] assms(2) by (simp add: good_at_def)
qed

lemma good_set_pos:
  assumes "grid_good fit m cw g"
  shows "good_at fit m cw (set_pos p g)"
proof -
  note less = frame_less [OF good_frame [OF assms]]
  show ?thesis
  proof (cases "gd_origin g")
    case True
    then show ?thesis
      using good_clamp_margins [OF assms, of "(pos_at 0 (sat_add (pos_col p) (gd_left g)))\<lparr>pos_row := r\<rparr>" for r] less
      by (simp add: set_pos_def Let_def row_clamps)
  next
    case False
    then show ?thesis
      using good_pos [OF assms] less by (simp add: set_pos_def Let_def row_clamps good_at_def)
  qed
qed

lemma good_cursor_moves:
  assumes "grid_good fit m cw g"
  shows "grid_good fit m cw (set_pos_absolute p g)" "grid_good fit m cw (grid_save_cursor g)"
    "grid_good fit m cw (grid_restore_cursor g)" "grid_good fit m cw (row_set_to r g)"
    "grid_good fit m cw (row_inc_clamp n g)" "grid_good fit m cw (row_dec_clamp n g)"
    "grid_good fit m cw (col_inc n g)" "grid_good fit m cw (col_inc_clamp n g)"
    "grid_good fit m cw (col_dec n g)" "grid_good fit m cw (col_stay g)"
proof -
  note less = frame_less [OF good_frame [OF assms]]
  have row: "pos_row (gd_pos g) < gd_height g" using good_frame [OF assms] by (simp add: frame_ok_def)
  show "grid_good fit m cw (set_pos_absolute p g)" "grid_good fit m cw (col_inc n g)" "grid_good fit m cw (col_dec n g)"
    "grid_good fit m cw (col_stay g)" "grid_good fit m cw (col_inc_clamp n g)" "grid_good fit m cw (row_inc_clamp n g)"
    using good_pos [OF assms] less row
    by (simp_all add: set_pos_absolute_def col_inc_def col_dec_def col_stay_def col_inc_clamp_def row_inc_clamp_def Let_def row_clamps)
  show "grid_good fit m cw (row_set_to r g)"
    using good_pos [OF assms] less by (simp add: row_set_to_def row_clamps)
  show save: "grid_good fit m cw (grid_save_cursor g)"
    using assms by (simp add: grid_save_cursor_def grid_good_def grid_sat_def frame_ok_def rows_sat_def margins_active_def
        view_ok_at_def max_scrollback_def)
  show "grid_good fit m cw (row_dec_clamp n g)"
  proof -
    have "(if in_scroll_region g then max (gd_top g) (pos_row (gd_pos g) - n) else pos_row (gd_pos g) - n) < gd_height g"
      using row good_frame [OF assms] by (auto simp: frame_ok_def)
    then show ?thesis
      using good_pos [OF assms] by (cases "in_scroll_region g") (simp_all add: row_dec_clamp_def row_clamps)
  qed
  have o: "grid_good fit m cw (g\<lparr>gd_origin := b\<rparr>)" for b
    using assms by (simp add: grid_good_def grid_sat_def frame_ok_def rows_sat_def margins_active_def view_ok_at_def max_scrollback_def)
  show "grid_good fit m cw (grid_restore_cursor g)"
    using good_pos [OF o [of "gd_saved_origin g"], of "(gd_saved_pos g)\<lparr>pos_row := min (gd_height g - 1) (pos_row (gd_saved_pos g)),
      pos_col := min (gd_width g - 1) (pos_col (gd_saved_pos g))\<rparr>"] less
    by (simp add: grid_restore_cursor_def row_clamps)
qed

lemma good_col_set: "grid_good fit m cw g \<Longrightarrow> good_at fit m cw (col_set_to c g)"
  using good_clamp_margins [of fit m cw g "(gd_pos g)\<lparr>pos_col := sat_add c (gd_left g)\<rparr>"]
    good_pos [of fit m cw g "(gd_pos g)\<lparr>pos_col := min (gd_width g - 1) c\<rparr>"] good_frame [of fit m cw g]
  by (simp add: col_set_to_def row_clamps good_at_def frame_ok_def)

section \<open>Tabs, regions, views\<close>

lemma find_tab_ok: "list_all (\<lambda>c. c < length tabs) cs \<Longrightarrow> \<exists>r. find_tab tabs cs = Some r"
  by (induction cs) auto

lemma good_tabs:
  assumes "grid_good fit m cw g"
  shows "good_at fit m cw (tab_forward n g)" "good_at fit m cw (tab_back n g)" "good_at fit m cw (put_tab b g)"
    "grid_good fit m cw (clear_all_tabs g)" "grid_good fit m cw (set_tab_stops stops g)"
proof -
  have f: "length (gd_tabs g) = gd_width g" "0 < gd_width g" "gd_right g < gd_width g" "pos_row (gd_pos g) < gd_height g"
    using good_frame [OF assms] by (auto simp: frame_ok_def)
  have "\<exists>c. times_opt k (tab_step_forward (gd_tabs g) (min (gd_right g) (gd_width g - 1))) c0 = Some c \<and> True" for k c0
    by (rule times_opt_keeps [where P = "\<lambda>_. True"])
      (use find_tab_ok f in \<open>force simp: tab_step_forward_def list_all_iff\<close>)+
  then show "good_at fit m cw (tab_forward n g)"
    using good_pos [OF assms] f by (fastforce simp: tab_forward_def Let_def good_at_def)
  have "\<exists>c. times_opt k (tab_step_back (gd_tabs g) (gd_left g)) c0 = Some c \<and> c < gd_width g" if "c0 < gd_width g" for k c0
  proof (rule times_opt_keeps [where P = "\<lambda>c. c < gd_width g"])
    show "c0 < gd_width g" by (rule that)
  next
    fix c assume c: "c < gd_width g"
    obtain r where r: "find_tab (gd_tabs g) (rev [gd_left g..<c]) = Some r"
      using find_tab_ok [of "gd_tabs g" "rev [gd_left g..<c]"] c f by (auto simp: list_all_iff)
    have found: "find_tab tabs cs = Some (Some d) \<Longrightarrow> d < length tabs" for tabs cs d
      by (induction cs) (auto split: if_splits)
    show "\<exists>y. tab_step_back (gd_tabs g) (gd_left g) c = Some y \<and> y < gd_width g"
      using r f good_frame [OF assms] by (auto simp: tab_step_back_def frame_ok_def dest!: found split: option.split)
  qed
  moreover have "grid_col g < gd_width g" using f by (auto simp: min_less_iff_disj)
  ultimately have "\<exists>c. times_opt (max n 1) (tab_step_back (gd_tabs g) (gd_left g)) (grid_col g) = Some c" by blast
  then show "good_at fit m cw (tab_back n g)"
    using good_pos [OF assms] f by (auto simp: tab_back_def good_at_def)
  have tabs: "grid_good fit m cw (g\<lparr>gd_tabs := ts\<rparr>)" if "length ts = gd_width g" for ts
    using assms that by (simp add: grid_good_def grid_sat_def frame_ok_def rows_sat_def margins_active_def view_ok_at_def max_scrollback_def)
  show "good_at fit m cw (put_tab b g)" using tabs f by (simp add: put_tab_def Let_def good_at_def min_less_iff_disj)
  show "grid_good fit m cw (clear_all_tabs g)" using tabs f by (simp add: clear_all_tabs_def)
  have "length (fold (\<lambda>c tabs. if c < length tabs then tabs[c := True] else tabs) cs ts) = length ts" for cs ts
    by (induction cs arbitrary: ts) simp_all
  then show "grid_good fit m cw (set_tab_stops stops g)" using tabs f by (simp add: set_tab_stops_def)
qed

lemma good_region:
  assumes "grid_good fit m cw g"
  shows "good_at fit m cw (set_scroll_region a b g)"
proof -
  have "grid_good fit m cw (g\<lparr>gd_top := t, gd_bottom := l\<rparr>)" if "t \<le> l" "l < gd_height g" for t l
    using assms that by (simp add: grid_good_def grid_sat_def frame_ok_def rows_sat_def margins_active_def view_ok_at_def max_scrollback_def)
  then show ?thesis
    using good_set_pos good_frame [OF assms] by (auto simp: set_scroll_region_def Let_def frame_ok_def)
qed

lemma good_margins:
  assumes "grid_good fit m cw g" m
  shows "good_at fit m cw (set_margins a b g)"
proof -
  have "grid_good fit m cw (g\<lparr>gd_left := l, gd_right := r\<rparr>)" if "l \<le> r" "r < gd_width g" for l r
    using assms that by (simp add: grid_good_def grid_sat_def frame_ok_def rows_sat_def margins_active_def view_ok_at_def max_scrollback_def)
  then show ?thesis
    using good_set_pos good_frame [OF assms(1)] by (auto simp: set_margins_def Let_def frame_ok_def)
qed

lemma good_origin:
  assumes "grid_good fit m cw g"
  shows "good_at fit m cw (set_origin_mode b g)"
  unfolding set_origin_mode_def
  by (rule good_set_pos)
    (use assms in \<open>simp add: grid_good_def grid_sat_def frame_ok_def rows_sat_def margins_active_def view_ok_at_def max_scrollback_def\<close>)

lemma good_views:
  assumes "grid_good fit m cw g"
  shows "grid_good fit m cw (settle_view cw g)" "grid_good fit m cw (set_scrollback cw n g)" "grid_good fit m cw (clear_history g)"
proof -
  have f: "fixed g' (refresh_view cw g') \<and> gd_rows (refresh_view cw g') = gd_rows g' \<and>
      gd_history (refresh_view cw g') = gd_history g' \<and> gd_view_offset (refresh_view cw g') = gd_view_offset g'" for g'
    by (simp add: refresh_view_def Let_def fixed_def case_prod_beta)
  have refresh: "grid_good fit m cw (refresh_view cw g')" if "grid_good fit m cw g'" for g'
    using f [of g'] that fixed_sat [of g' "refresh_view cw g'" fit m cw]
    by (simp add: grid_good_def grid_sat_def rows_sat_def fixed_def view_ok_at_def max_scrollback_def)
  show "grid_good fit m cw (settle_view cw g)" using refresh assms by (simp add: settle_view_def)
  show "grid_good fit m cw (set_scrollback cw n g)"
    unfolding set_scrollback_def
    by (rule refresh) (use assms in \<open>simp add: grid_good_def grid_sat_def frame_ok_def rows_sat_def margins_active_def
      view_ok_at_def max_scrollback_def\<close>)
  show "grid_good fit m cw (clear_history g)"
    using assms history_ok_clear
    by (simp add: clear_history_def grid_good_def grid_sat_def frame_ok_def rows_sat_def margins_active_def view_ok_at_def)
qed

end
