(* ===== verification/Grid_Ops.thy ===== *)
theory Grid_Ops
  imports Grid_Safe
begin

context row_kind
begin

lemma sat_mut:
  assumes "grid_sat fit margins cw g" "r < gd_height g" "\<And>row. fit (gd_width g) row \<Longrightarrow> fit (gd_width g) (f row)"
  shows "\<exists>g'. row_mut r f g = Some g' \<and> grid_sat fit margins cw g' \<and> same g g'"
proof -
  have "touch 0 0 0 g = g" by (simp add: touch_def)
  then show ?thesis using sat_row [OF assms, where r' = 0 and a = 0 and b = 0] by simp
qed

lemma sat_then:
  assumes "\<exists>g'. r = Some g' \<and> grid_sat fit margins cw g' \<and> same g g'"
    and "\<And>g'. grid_sat fit margins cw g' \<Longrightarrow> same g g' \<Longrightarrow> \<exists>g''. h g' = Some g'' \<and> grid_sat fit margins cw g'' \<and> same g' g''"
  shows "\<exists>g'. Option.bind r h = Some g' \<and> grid_sat fit margins cw g' \<and> same g g'"
  using sat_bind [of "\<lambda>_. r" g cw h] assms by simp

lemma sat_rotate:
  assumes "grid_sat fit margins cw g" "upper \<le> lower" "lower < gd_height g" "f = rotate_left 1 \<or> f = rotate_right 1"
  shows "\<exists>g'. rotate_rows f upper lower g = Some g' \<and> grid_sat fit margins cw g' \<and> same g g'"
proof -
  have len: "lower < length (gd_rows g)" using assms(1,3) by (simp add: grid_sat_def rows_sat_def)
  define g1 where "g1 = g\<lparr>gd_rows := on_range upper lower f (gd_rows g)\<rparr>"
  have s: "same g g1" by (simp add: same_def g1_def)
  have f: "set (gd_rows g1) = set (gd_rows g)" "length (gd_rows g1) = length (gd_rows g)"
    using assms(4) set_on_range_rotate [OF assms(2) len] assms(2) by (auto simp: g1_def)
  have "grid_sat fit margins cw g1"
    by (rule same_sat [OF s assms(1)]) (use assms(1) f same_fields [OF s] in \<open>simp add: grid_sat_def rows_sat_def list_all_iff\<close>)
  then show ?thesis using len assms(2) s by (simp add: rotate_rows_def g1_def)
qed

lemma sat_turn:
  assumes "grid_sat fit margins cw g" "upper \<le> lower" "lower < gd_height g" "r < gd_height g"
    "f = rotate_left 1 \<or> f = rotate_right 1"
  shows "\<exists>g'. Option.bind (rotate_rows f upper lower g) (row_mut r (blank_row st)) = Some g' \<and>
    grid_sat fit margins cw g' \<and> same g g'"
proof (rule sat_then [OF sat_rotate [OF assms(1-3,5)]])
  fix g' assume g': "grid_sat fit margins cw g'" "same g g'"
  show "\<exists>g''. row_mut r (blank_row st) g' = Some g'' \<and> grid_sat fit margins cw g'' \<and> same g' g''"
    by (rule sat_mut [OF g'(1)]) (use assms(4) same_fields [OF g'(2)] fit_clear in simp_all)
qed

lemma sat_turns:
  assumes "grid_sat fit margins cw g" "upper \<le> lower" "lower < gd_height g" "r < gd_height g"
    "f = rotate_left 1 \<or> f = rotate_right 1"
  shows "\<exists>g'. times_opt n (\<lambda>g. Option.bind (rotate_rows f upper lower g) (row_mut r (blank_row st))) g = Some g' \<and>
    grid_sat fit margins cw g' \<and> same g g'"
proof (rule times_opt_keeps)
  fix x assume x: "grid_sat fit margins cw x \<and> same g x"
  then have h: "lower < gd_height x" "r < gd_height x" using assms(3,4) same_fields(1) [of g x] by simp_all
  show "\<exists>y. Option.bind (rotate_rows f upper lower x) (row_mut r (blank_row st)) = Some y \<and> grid_sat fit margins cw y \<and> same g y"
    using sat_turn [OF conjunct1 [OF x] assms(2) h assms(5), of st] x same_trans [of g x] by blast
qed (use assms(1) in simp)

lemma sat_rotate_down:
  assumes "grid_sat fit margins cw g" "upper \<le> lower" "lower < gd_height g"
  shows "\<exists>g'. rotate_down upper lower n st g = Some g' \<and> grid_sat fit margins cw g' \<and> same g g'"
  unfolding rotate_down_def
proof (rule sat_then [OF sat_turns [OF assms]])
  fix g' assume g': "grid_sat fit margins cw g'" "same g g'"
  have "gd_bottom g' < gd_height g'" using g'(1) by (simp add: grid_sat_def frame_ok_def)
  then show "\<exists>g''. row_mut (gd_bottom g') (row_wrap False) g' = Some g'' \<and> grid_sat fit margins cw g'' \<and> same g' g''"
    by (rule sat_mut [OF g'(1)]) (rule fit_wrap)
qed (use assms in auto)

lemma sat_turn_up:
  assumes "grid_sat fit margins cw g" "upper \<le> lower" "lower < gd_height g"
  shows "\<exists>g'. times_opt n (scroll_once cw False upper lower st) g = Some g' \<and> grid_sat fit margins cw g' \<and> same g g'"
  using sat_turns [OF assms assms(3), of "rotate_left 1" n st] by (simp add: scroll_once_def [abs_def])

lemma same_placements [simp]: "same g (shift_placements a b d g)"
  by (simp add: same_def shift_placements_def Let_def)

lemma sat_shift: "\<exists>g'. r = Some g' \<and> grid_sat fit margins cw g' \<and> same g g' \<Longrightarrow>
    \<exists>g'. map_option (shift_placements a b d) r = Some g' \<and> grid_sat fit margins cw g' \<and> same g g'"
  using sat_placements(1) same_trans [OF _ same_placements] by fastforce

lemma frame_region: "grid_sat fit margins cw g \<Longrightarrow> gd_top g \<le> gd_bottom g \<and> gd_bottom g < gd_height g"
  by (simp add: grid_sat_def frame_ok_def)

lemma sat_down:
  assumes "grid_sat fit margins cw g" "upper \<le> gd_bottom g"
  shows "\<exists>g'. (if margins_active g then shift_cells_down upper (gd_bottom g) n st g
      else map_option (shift_placements upper (gd_bottom g) d) (rotate_down upper (gd_bottom g) n st g)) = Some g' \<and>
    grid_sat fit margins cw g' \<and> same g g'"
proof (cases "margins_active g")
  case True
  then have margins using assms(1) by (auto simp: grid_sat_def)
  then show ?thesis using sat_shift_cells_down [OF assms(1)] frame_region [OF assms(1)] True by simp
next
  case False
  show ?thesis
    unfolding if_not_P [OF False] using sat_rotate_down [OF assms] frame_region [OF assms(1)] by (intro sat_shift) simp
qed

lemma good_scroll_down:
  assumes "grid_good fit margins cw g"
  shows "good_at fit margins cw (scroll_down n st g)"
proof -
  have sat: "grid_sat fit margins cw g" using assms by (simp add: grid_good_def)
  show ?thesis
    by (rule same_good [OF _ assms])
      (use frame_region [OF sat] sat sat_down [OF sat] in \<open>auto simp: scroll_down_def Let_def region_count_def\<close>)
qed

lemma good_lines:
  assumes "grid_good fit margins cw g"
  shows "good_at fit margins cw (insert_lines n st g)" "good_at fit margins cw (delete_lines cw n st g)"
proof -
  have sat: "grid_sat fit margins cw g" using assms by (simp add: grid_good_def)
  show "good_at fit margins cw (insert_lines n st g)"
    by (rule same_good [OF _ assms])
      (use sat sat_down [OF sat] in \<open>auto simp: insert_lines_def Let_def region_count_def in_scroll_region_def\<close>)
  have up: "\<exists>g'. (if margins_active g then shift_cells_up u (gd_bottom g) k st g
      else map_option (shift_placements u (gd_bottom g) d) (times_opt k (scroll_once cw False u (gd_bottom g) st) g)) = Some g' \<and>
    grid_sat fit margins cw g' \<and> same g g'" if "u \<le> gd_bottom g" for u k d
  proof (cases "margins_active g")
    case True
    then have margins using sat by (auto simp: grid_sat_def)
    then show ?thesis using sat_shift_cells_up [OF sat] frame_region [OF sat] True by simp
  next
    case False
    show ?thesis
      unfolding if_not_P [OF False] using sat_turn_up [OF sat that] frame_region [OF sat] by (intro sat_shift) simp
  qed
  show "good_at fit margins cw (delete_lines cw n st g)"
    by (rule same_good [OF _ assms])
      (use sat up in \<open>auto simp: delete_lines_def Let_def region_count_def in_scroll_region_def\<close>)
qed

end

context row_kind
begin

lemma good_row_inc:
  assumes "grid_good fit margins cw g"
  shows "\<exists>k g'. row_inc_scroll cw n st g = Some (k, g') \<and> grid_good fit margins cw g'"
proof -
  obtain lines g1 where r: "row_clamp_bottom (in_scroll_region g) (set_row (sat_add (pos_row (gd_pos g)) n) g) = (lines, g1)"
    by fastforce
  then have g1: "g1 = snd (row_clamp_bottom (in_scroll_region g) (set_row (sat_add (pos_row (gd_pos g)) n) g))" by simp
  have g1: "grid_good fit margins cw g1"
    unfolding g1 using good_pos [OF assms] frame_less [OF good_frame [OF assms]] by (simp add: row_clamps)
  then show ?thesis using good_scroll_up [OF g1, of lines st] by (auto simp: row_inc_scroll_def Let_def r)
qed

lemma good_row_dec:
  assumes "grid_good fit margins cw g"
  shows "good_at fit margins cw (row_dec_scroll n st g)"
proof -
  obtain lines g1 where r: "row_clamp_top (in_scroll_region g) (set_row (pos_row (gd_pos g) - n) g) = (lines, g1)"
    by fastforce
  then have g1: "g1 = snd (row_clamp_top (in_scroll_region g) (set_row (pos_row (gd_pos g) - n) g))" by simp
  have "gd_top g < gd_height g" "pos_row (gd_pos g) < gd_height g"
    using good_frame [OF assms] by (auto simp: frame_ok_def)
  then have g1: "grid_good fit margins cw g1" unfolding g1 using good_pos [OF assms] by (simp add: row_clamps)
  then show ?thesis using good_scroll_down [OF g1] good_atI by (auto simp: row_dec_scroll_def Let_def r)
qed

lemma good_rows:
  assumes "grid_good fit margins cw g" "r < length (gd_rows g)" "fit (gd_width g) (f (gd_rows g ! r))"
  shows "grid_good fit margins cw (g\<lparr>gd_rows := (gd_rows g)[r := f (gd_rows g ! r)]\<rparr>)"
  using assms by (auto simp: grid_good_def grid_sat_def frame_ok_def rows_sat_def margins_active_def view_ok_at_def
      max_scrollback_def list_all_length nth_list_update)

lemma good_col_wrap:
  assumes "grid_good fit margins cw g"
  shows "good_at fit margins cw (col_wrap cw w st g)"
proof (cases "pos_col (gd_pos g) + w \<le> gd_right g + 1")
  case False
  let ?fill = "if pos_col (gd_pos g) \<le> gd_right g
    then row_mut (pos_row (gd_pos g)) (fill_to (pos_col (gd_pos g)) (gd_right g) st)
      (touch (pos_row (gd_pos g)) (pos_col (gd_pos g)) (gd_right g + 1) g) else Some g"
  have sat: "grid_sat fit margins cw g" "pos_row (gd_pos g) < gd_height g"
    using assms by (auto simp: grid_good_def grid_sat_def frame_ok_def)
  have "\<exists>g'. ?fill = Some g' \<and> grid_sat fit margins cw g' \<and> same g g'"
    using sat_row [OF sat fold_fill] sat(1) by simp
  then obtain g1 where g1: "?fill = Some g1" "grid_good fit margins cw g1"
    using same_good [OF _ assms] unfolding good_at_def by blast
  have "grid_good fit margins cw (set_col (gd_left g1) g1)"
    using good_pos [OF g1(2)] good_frame [OF g1(2)] by (simp add: frame_ok_def)
  then obtain k g2 where g2: "row_inc_scroll cw 1 st (set_col (gd_left g1) g1) = Some (k, g2)" "grid_good fit margins cw g2"
    using good_row_inc by blast
  define p where "p = pos_row (gd_pos g) - k"
  have "grid_good fit margins cw (if p < length (gd_rows g2)
      then g2\<lparr>gd_rows := (gd_rows g2)[p := row_wrap (\<not> margins_active g2 \<and> p + 1 = pos_row (gd_pos g2)) (gd_rows g2 ! p)]\<rparr>
      else g2)"
    using good_rows [OF g2(2), of p] fit_wrap rows_sat_nth [of fit g2 p] g2(2)
    by (auto simp: grid_good_def grid_sat_def rows_sat_def)
  then show ?thesis
    unfolding col_wrap_def Let_def if_not_P [OF False] g1(1) by (cases "p < length (gd_rows g2)") (simp_all add: g2(1) p_def good_at_def del: One_nat_def)
qed (use assms in \<open>simp add: col_wrap_def good_at_def\<close>)

lemma good_erase_all:
  assumes "grid_good fit margins cw g"
  shows "grid_good fit margins cw (erase_all st g)"
  using assms fit_clear
  by (auto simp: erase_all_def grid_good_def grid_sat_def frame_ok_def rows_sat_def margins_active_def view_ok_at_def
      max_scrollback_def list_all_iff)

lemma good_clear:
  assumes "grid_good fit margins cw g"
  shows "grid_good fit margins cw (grid_clear g)"
proof -
  have "grid_good fit margins cw (erase_all 0 (g\<lparr>gd_pos := pos_at 0 0\<rparr>))"
    by (rule good_erase_all, rule good_pos [OF assms]) (use good_frame [OF assms] in \<open>simp add: frame_ok_def\<close>)
  then show ?thesis
    by (auto simp: grid_clear_def Let_def erase_all_def grid_good_def grid_sat_def frame_ok_def rows_sat_def
        margins_active_def view_ok_at_def max_scrollback_def)
qed

lemma good_cursor_region:
  assumes "grid_good fit m cw g" "pos_row p < gd_height g" "t \<le> b" "b < gd_height g"
  shows "grid_good fit m cw (g\<lparr>gd_pos := p, gd_saved_pos := saved, gd_top := t, gd_bottom := b\<rparr>)"
  using assms by (simp add: grid_good_def grid_sat_def frame_ok_def rows_sat_def margins_active_def view_ok_at_def max_scrollback_def)

lemma good_sides:
  assumes "grid_good fit m cw g" "m" "l \<le> r" "r < gd_width g"
  shows "grid_good fit m cw (g\<lparr>gd_left := l, gd_right := r\<rparr>)"
  using assms by (simp add: grid_good_def grid_sat_def frame_ok_def rows_sat_def margins_active_def view_ok_at_def max_scrollback_def)

lemma good_origins:
  assumes "grid_good fit m cw g"
  shows "grid_good fit m cw (g\<lparr>gd_origin := o1, gd_saved_origin := o2\<rparr>)"
  using assms by (simp add: grid_good_def grid_sat_def frame_ok_def rows_sat_def margins_active_def view_ok_at_def max_scrollback_def)

lemma good_restore_cursor_state:
  assumes "grid_good fit margins cw g" "pos_row p < gd_height g" "margins \<or> m = None"
  shows "grid_good fit margins cw (restore_cursor_state p saved upper lower m origin saved_origin g)"
proof -
  define g1 where "g1 = (let g = g\<lparr>gd_pos := p, gd_saved_pos := saved, gd_top := min upper (gd_height g - 1),
                gd_bottom := min lower (gd_height g - 1)\<rparr>
      in if gd_bottom g < gd_top g then g\<lparr>gd_top := 0, gd_bottom := gd_height g - 1\<rparr> else g)"
  have h: "0 < gd_height g" "0 < gd_width g" using good_frame [OF assms(1)] by (auto simp: frame_ok_def)
  have g1: "grid_good fit margins cw g1" "gd_width g1 = gd_width g"
    using good_cursor_region [OF assms(1,2)] h by (auto simp: g1_def Let_def min_def)
  define g2 where "g2 = (case m of None \<Rightarrow> g1 | Some (left, right) \<Rightarrow>
      (let right = min right (gd_width g1 - 1)
       in if left < right then g1\<lparr>gd_left := left, gd_right := right\<rparr> else g1))"
  have "grid_good fit margins cw g2"
    using good_sides [OF g1(1)] g1 assms(3) h by (auto simp: g2_def Let_def split: option.split)
  moreover have "restore_cursor_state p saved upper lower m origin saved_origin g =
      g2\<lparr>gd_origin := origin, gd_saved_origin := saved_origin\<rparr>"
    unfolding restore_cursor_state_def g1_def g2_def Let_def by (rule refl)
  ultimately show ?thesis using good_origins by simp
qed

end

section \<open>Rows of a length\<close>

lemma length_write [simp]: "length (r_cells (write_in_row w c t st r)) = length (r_cells r)"
  by (simp add: write_in_row_def Let_def)

lemma length_ascii:
  assumes "c < l" "l \<le> length cs" "l \<le> c + length bs"
  shows "length (write_ascii_cells c bs l st cs) = length cs"
  using assms by (simp add: write_ascii_cells_def Let_def)

lemma length_copy:
  "left \<le> right \<Longrightarrow> right < length xs \<Longrightarrow> length cells = right + 1 - left \<Longrightarrow>
    length (on_range left right (\<lambda>_. cells) xs) = length xs"
  by (simp add: on_range_def)

definition any_row :: "nat \<Rightarrow> row \<Rightarrow> bool" where
  "any_row w r = (length (r_cells r) = w)"

interpretation any_rows: row_kind any_row True
  by unfold_locales (simp_all add: any_row_def length_ascii length_copy)

section \<open>Whole rows\<close>

lemma plain_ascii: "plain_cell (cell_new (ct_scalar (unat (b :: byte)) 1) st)"
proof -
  have "unat b < 2 ^ LENGTH(8)" by (rule unsigned_less)
  then have "unat b < 2 ^ 21" by simp
  from ct_scalar_fields [OF this, of 1] show ?thesis
    by (simp add: plain_cell_def cell_new_def ct_is_wide_def ct_width_def ct_is_continuation_def)
qed

lemma wide_or_plain: "\<not> ct_is_continuation t \<Longrightarrow> \<not> ct_is_wide t \<Longrightarrow> plain_cell (cell_new t st)"
  by (simp add: plain_cell_def cell_new_def)

lemma whole_write_in_row:
  assumes "whole (r_cells r)" "length (r_cells r) = w" "c < w" "\<not> ct_is_continuation t"
  shows "whole (r_cells (write_in_row w c t st r))"
proof (cases "ct_is_wide t")
  case False
  then show ?thesis using assms whole_row_set wide_or_plain by (simp add: write_in_row_def)
next
  case True
  show ?thesis
  proof (cases "Suc c < w")
    case fits: True
    have wide: "is_wide (cell_new t st)" using True by (simp add: cell_new_def)
    show ?thesis
      using whole_set_wide [OF assms(1) wide continuation_cell(1)] fits assms(2,3) True
      by (simp add: write_in_row_def row_set_def)
  next
    case False
    have twice: "(clear_wide_cells c st2 ((clear_wide_cells c st1 cs)[c := x]))[c := y] = (clear_wide_cells c st1 cs)[c := y]"
      if "Suc c = length cs" "is_wide x" for st1 st2 x y cs
    proof -
      have "other_half c ((clear_wide_cells c st1 cs)[c := x]) = Some (Suc c)"
        using that by (simp add: other_half_def)
      then show ?thesis using that by (simp add: clear_wide_cells_def [of _ st2])
    qed
    have "is_wide (cell_new t st)" using True by (simp add: cell_new_def)
    then have "write_in_row w c t st r = row_set c (cell_filler st) r"
      using twice [of "r_cells r"] False assms(2,3) True by (simp add: write_in_row_def row_set_def)
    then show ?thesis using whole_row_set [OF assms(1)] by (simp add: plain_cell_def)
  qed
qed

lemma whole_ascii:
  assumes "whole cs" "c < l" "l \<le> length cs" "l \<le> c + length bs"
  shows "whole (write_ascii_cells c bs l st cs)"
proof -
  define cs1 where "cs1 = clear_wide_cells c (c_style (cs ! c)) cs"
  define cs2 where "cs2 = clear_wide_cells (l - 1) (c_style (cs1 ! (l - 1))) cs1"
  define new where "new = map (\<lambda>b. cell_new (ct_scalar (unat b) 1) st) (take (l - c) bs)"
  have res: "write_ascii_cells c bs l st cs = take c cs2 @ new @ drop l cs2" (is "_ = ?res")
    using assms(2,4) by (simp add: write_ascii_cells_def Let_def cs1_def cs2_def new_def)
  have len: "length cs2 = length cs" "length new = l - c" "length ?res = length cs"
    using assms(2-4) by (simp_all add: cs1_def cs2_def new_def)
  have nth: "?res ! j = (if j < c then cs2 ! j else if j < l then new ! (j - c) else cs2 ! j)" for j
    using assms(2,3) len by (auto simp: nth_append)
  have new: "plain_cell (new ! (j - c))" if "c \<le> j" "j < l" for j
    using that len plain_ascii by (simp add: new_def)
  have left: "left_half ?res j = (left_half cs2 j \<and> \<not> (c \<le> j \<and> j < l))" for j
    using new [of j] len assms(3) unfolding left_half_def nth by (auto simp: plain_cell_def)
  have right: "right_half ?res j = (right_half cs2 j \<and> \<not> (c \<le> j \<and> j < l))" for j
    using new [of j] len assms(3) unfolding right_half_def nth by (auto simp: plain_cell_def)
  have w: "\<not> right_half cs 0" "left_half cs j = right_half cs (Suc j)" for j using assms(1) by (auto simp: whole_iff)
  have edge1: "\<not> left_half cs2 j" if "Suc j = c" for j
    using w that by (auto simp: cs1_def cs2_def)
  have edge2: "\<not> right_half cs2 l"
    using w(2) [of "l - 1"] w(2) [of c] not_both_halves [of cs "l - 1"] assms(2) by (auto simp: cs1_def cs2_def)
  have mid: "left_half cs2 j = right_half cs2 (Suc j)" if "Suc j < c \<or> l \<le> j" for j
  proof -
    note h = w(2) [of c] w(2) [of j] w(2) [of "Suc j"] w(2) [of "l - 1"] not_both_halves [of cs "Suc j"]
      not_both_halves [of cs j] not_both_halves [of cs "l - 1"]
    from that show ?thesis
    proof
      assume "Suc j < c"
      then show ?thesis using h assms(2) by (auto simp: cs1_def cs2_def)
    next
      assume "l \<le> j"
      then show ?thesis using h assms(2) by (auto simp: cs1_def cs2_def)
    qed
  qed
  have "left_half ?res j = right_half ?res (Suc j)" for j
  proof -
    consider "Suc j < c" | "Suc j = c" | "c \<le> j" "Suc j < l" | "c \<le> j" "Suc j = l" | "l \<le> j" by linarith
    then show ?thesis
      by cases (use mid [of j] edge1 [of j] edge2 assms(2) in \<open>auto simp: left right\<close>)
  qed
  moreover have "\<not> right_half cs2 0" using w(1) by (simp add: cs1_def cs2_def)
  then have "\<not> right_half ?res 0" using right [of 0] by simp
  ultimately show ?thesis by (simp add: res whole_iff)
qed

lemma whole_row_wrap [simp]: "r_cells (row_wrap b r) = r_cells r"
  by (simp add: row_wrap_def)

text \<open>Of a row of one width: margins aside, nothing changes the width of a grid's rows.\<close>

definition whole_row :: "nat \<Rightarrow> nat \<Rightarrow> row \<Rightarrow> bool" where
  "whole_row width w r = (w = width \<and> length (r_cells r) = w \<and> whole (r_cells r))"

interpretation whole_rows: row_kind "whole_row width" False for width
  by unfold_locales
    (simp_all add: whole_row_def length_ascii whole_row_clear whole_row_erase whole_row_set plain_cell_def whole_write_in_row
      whole_ascii whole_insert_blanks whole_delete_cells)

end
