(* ===== verification/Term_Images.thy ===== *)
theory Term_Images
  imports Term_Grid "HOL-Library.While_Combinator"
begin

text \<open>
  The images of a screen (\<open>src/src/term/image/\<close>): the store with its quota, the control data of the kitty
  protocol, what a PNG says of its size, the cells a placement takes, sixel data, and the marks of
  placeholder cells. What is not the repository's comes with a record of arguments, \<open>outside\<close>: the
  width tables, base64, reading a file or shared memory, the size the compiler gives an animation
  command, and the floating-point conversion of a hue.
\<close>

section \<open>Outside\<close>

record command =
  cm_action :: byte
  cm_quiet :: nat
  cm_format :: nat
  cm_medium :: byte
  cm_width :: nat
  cm_height :: nat
  cm_size :: nat
  cm_offset :: nat
  cm_zlib :: bool
  cm_more :: bool
  cm_id :: nat
  cm_number :: nat
  cm_placement :: nat
  cm_x :: nat
  cm_y :: nat
  cm_w :: nat
  cm_h :: nat
  cm_off_x :: nat
  cm_off_y :: nat
  cm_cols :: nat
  cm_rows :: nat
  cm_z :: int
  cm_cursor_stay :: bool
  cm_unicode :: bool
  cm_delete :: byte
  cm_extra :: "byte list"

record outside =
  ou_width :: "nat \<Rightarrow> nat option"
  ou_base64 :: "bool \<Rightarrow> byte list \<Rightarrow> byte list option"
  ou_medium :: "command \<Rightarrow> byte list \<Rightarrow> string + byte list"
  ou_command_size :: nat
  ou_hls :: "nat \<Rightarrow> nat \<Rightarrow> nat \<Rightarrow> byte \<times> byte \<times> byte"

section \<open>Strings\<close>

text \<open>\<open>split\<close> on a byte and \<open>split_once\<close>.\<close>

fun split_byte :: "byte \<Rightarrow> byte list \<Rightarrow> byte list list" where
  "split_byte b [] = [[]]"
| "split_byte b (x # xs) =
     (if x = b then [] # split_byte b xs
      else case split_byte b xs of [] \<Rightarrow> [[x]] | p # ps \<Rightarrow> (x # p) # ps)"

fun split_once_byte :: "byte \<Rightarrow> byte list \<Rightarrow> (byte list \<times> byte list) option" where
  "split_once_byte b [] = None"
| "split_once_byte b (x # xs) =
     (if x = b then Some ([], xs) else map_option (\<lambda>(l, r). (x # l, r)) (split_once_byte b xs))"

text \<open>\<open>parse\<close> of an unsigned number: a plus sign may lead it.\<close>

definition digit_of :: "nat \<Rightarrow> byte \<Rightarrow> nat option" where
  "digit_of radix b =
     (let d = (if 0x30 \<le> b \<and> b \<le> 0x39 then unat b - 0x30
               else if 0x61 \<le> b \<and> b \<le> 0x7A then unat b - 0x61 + 10
               else if 0x41 \<le> b \<and> b \<le> 0x5A then unat b - 0x41 + 10 else radix)
      in if d < radix then Some d else None)"

fun parse_digits :: "nat \<Rightarrow> nat \<Rightarrow> byte list \<Rightarrow> nat option" where
  "parse_digits radix acc [] = Some acc"
| "parse_digits radix acc (b # bs) =
     (case digit_of radix b of None \<Rightarrow> None | Some d \<Rightarrow> parse_digits radix (acc * radix + d) bs)"

definition parse_unsigned :: "nat \<Rightarrow> nat \<Rightarrow> byte list \<Rightarrow> nat option" where
  "parse_unsigned radix limit s =
     (let s = (case s of b # bs \<Rightarrow> if b = 0x2B \<and> bs \<noteq> [] then bs else s | [] \<Rightarrow> s)
      in if s = [] then None
         else case parse_digits radix 0 s of Some n \<Rightarrow> if n \<le> limit then Some n else None | None \<Rightarrow> None)"

definition parse_i64 :: "byte list \<Rightarrow> int option" where
  "parse_i64 s =
     (case s of
        [] \<Rightarrow> None
      | b # bs \<Rightarrow>
          if b = 0x2D
          then (if bs = [] then None
                else case parse_digits 10 0 bs of
                       Some n \<Rightarrow> if n \<le> 2 ^ 63 then Some (- int n) else None
                     | None \<Rightarrow> None)
          else map_option int (parse_unsigned 10 (2 ^ 63 - 1) s))"

text \<open>\<open>String::from_utf8_lossy\<close>: what begins no character becomes a replacement character.\<close>

definition bad_len :: "byte list \<Rightarrow> nat" where
  "bad_len bs =
     (case bs of
        a # b # rest \<Rightarrow>
          (if utf8_len a = 3 \<and> utf8_char [a, b, 0x80] then 2
           else if utf8_len a = 4 \<and> utf8_char [a, b, 0x80, 0x80]
           then (case rest of c # _ \<Rightarrow> if cont_byte c then 3 else 2 | [] \<Rightarrow> 2)
           else 1)
      | _ \<Rightarrow> 1)"

lemma bad_len_pos: "0 < bad_len bs"
  by (simp add: bad_len_def split: list.split)

function from_utf8_lossy :: "byte list \<Rightarrow> byte list" where
  "from_utf8_lossy [] = []"
| "from_utf8_lossy (b # bs) =
     (let n = utf8_len b
      in if 0 < n \<and> n \<le> length (b # bs) \<and> utf8_char (take n (b # bs))
         then take n (b # bs) @ from_utf8_lossy (drop n (b # bs))
         else replacement_str @ from_utf8_lossy (drop (bad_len (b # bs)) (b # bs)))"
  by pat_completeness auto
termination
proof (relation "measure length", goal_cases)
  case (3 b bs n)
  then show ?case using bad_len_pos [of "b # bs"] by auto
qed auto

declare from_utf8_lossy.simps(2) [simp del]

section \<open>The store\<close>

datatype image_format = ImageRgb | ImageRgba | ImagePng

definition format_of_code :: "nat \<Rightarrow> image_format option" where
  "format_of_code c = (if c = 24 then Some ImageRgb else if c = 32 then Some ImageRgba else if c = 100 then Some ImagePng else None)"

definition format_code :: "image_format \<Rightarrow> nat" where
  "format_code f = (case f of ImageRgb \<Rightarrow> 24 | ImageRgba \<Rightarrow> 32 | ImagePng \<Rightarrow> 100)"

definition bytes_per_pixel :: "image_format \<Rightarrow> nat option" where
  "bytes_per_pixel f = (case f of ImageRgb \<Rightarrow> Some 3 | ImageRgba \<Rightarrow> Some 4 | ImagePng \<Rightarrow> None)"

record image_data =
  id_format :: image_format
  id_zlib :: bool
  id_width :: nat
  id_height :: nat
  id_bytes :: "byte list"

datatype animation = FrameCommand image_data "byte list" | ControlCommand "byte list"

record image =
  im_key :: nat
  im_id :: nat
  im_number :: nat
  im_data :: image_data
  im_commands :: "animation list"

definition animation_bytes :: "outside \<Rightarrow> animation \<Rightarrow> nat" where
  "animation_bytes e a =
     ou_command_size e +
     (case a of FrameCommand d control \<Rightarrow> length (id_bytes d) + length control | ControlCommand control \<Rightarrow> length control)"

definition image_bytes :: "outside \<Rightarrow> image \<Rightarrow> nat" where
  "image_bytes e im = length (id_bytes (im_data im)) + sum_list (map (animation_bytes e) (im_commands im))"

definition max_store_bytes :: nat where "max_store_bytes = 320 * 1024 * 1024"
definition max_image_bytes :: nat where "max_image_bytes = 64 * 1024 * 1024"

text \<open>The counter that keys come from is the process's: here its value is kept with the store.\<close>

record image_store =
  is_by_id :: "(nat, nat) hm"
  is_by_number :: "(nat, nat) hm"
  is_images :: "(nat, image) hm"
  is_bytes :: nat
  is_next_id :: nat
  is_next_key :: nat

definition store_new :: "nat \<Rightarrow> image_store" where
  "store_new key = \<lparr>is_by_id = [], is_by_number = [], is_images = [], is_bytes = 0, is_next_id = 0, is_next_key = key\<rparr>"

definition store_get :: "nat \<Rightarrow> image_store \<Rightarrow> image option" where
  "store_get i st = Option.bind (hm_get (is_by_id st) i) (hm_get (is_images st))"

definition store_get_by_number :: "nat \<Rightarrow> image_store \<Rightarrow> image option" where
  "store_get_by_number n st = Option.bind (hm_get (is_by_number st) n) (hm_get (is_images st))"

definition store_get_by_key :: "nat \<Rightarrow> image_store \<Rightarrow> image option" where
  "store_get_by_key k st = hm_get (is_images st) k"

text \<open>The first id that is free; \<open>None\<close> when there is none, where the loop does not end.\<close>

definition allocate_id :: "image_store \<Rightarrow> (nat \<times> image_store) option" where
  "allocate_id st =
     (let cand = (\<lambda>k. (0x80000000 + (is_next_id st + k) mod 2 ^ 32) mod 2 ^ 32);
          taken = (\<lambda>k. hm_get (is_by_id st) (cand k) \<noteq> None \<or> cand k = 0)
      in case while_option (\<lambda>k. taken k) Suc 0 of
           None \<Rightarrow> None
         | Some k \<Rightarrow> Some (cand k, st\<lparr>is_next_id := (is_next_id st + k + 1) mod 2 ^ 32\<rparr>))"

definition retain_not :: "nat \<Rightarrow> (nat, nat) hm \<Rightarrow> (nat, nat) hm" where
  "retain_not key m = filter (\<lambda>(_, k). k \<noteq> key) m"

definition remove_key :: "outside \<Rightarrow> nat \<Rightarrow> image_store \<Rightarrow> image_store" where
  "remove_key e key st =
     (case hm_get (is_images st) key of
        None \<Rightarrow> st
      | Some im \<Rightarrow>
          st\<lparr>is_images := hm_del key (is_images st), is_bytes := is_bytes st - image_bytes e im,
             is_by_id := retain_not key (is_by_id st), is_by_number := retain_not key (is_by_number st)\<rparr>)"

text \<open>The smallest key is the oldest.\<close>

definition oldest_key :: "nat \<Rightarrow> image_store \<Rightarrow> nat option" where
  "oldest_key keep st =
     (let keys = filter (\<lambda>k. k \<noteq> keep) (hm_keys (is_images st)) in if keys = [] then None else Some (Min (set keys)))"

lemma oldest_key_in:
  assumes "oldest_key keep st = Some k"
  shows "k \<in> set (hm_keys (is_images st))" "k \<noteq> keep"
proof -
  define keys where "keys = filter (\<lambda>k. k \<noteq> keep) (hm_keys (is_images st))"
  have "keys \<noteq> []" "k = Min (set keys)" using assms by (auto simp: oldest_key_def keys_def Let_def split: if_splits)
  then have "k \<in> set keys" by simp
  then show "k \<in> set (hm_keys (is_images st))" "k \<noteq> keep" by (auto simp: keys_def)
qed

lemma length_hm_del: "k \<in> set (hm_keys m) \<Longrightarrow> length (hm_del k m) < length m"
  by (auto simp: hm_del_def AList.delete_eq intro!: length_filter_less)

function enforce_quota :: "outside \<Rightarrow> nat \<Rightarrow> image_store \<Rightarrow> image_store" where
  "enforce_quota e keep st =
     (if max_store_bytes < is_bytes st \<and> 1 < length (is_images st)
      then (case oldest_key keep st of None \<Rightarrow> st | Some k \<Rightarrow> enforce_quota e keep (remove_key e k st))
      else st)"
  by pat_completeness auto
termination
proof (relation "measure (\<lambda>(e, keep, st). length (is_images st))", goal_cases)
  case (2 e keep st k)
  then have k: "k \<in> set (hm_keys (is_images st))" using oldest_key_in(1) by simp
  then obtain im where "hm_get (is_images st) k = Some im" using hm_keys_get [THEN iffD1, OF k] by auto
  then show ?case using length_hm_del [OF k] by (simp add: remove_key_def)
qed simp

declare enforce_quota.simps [simp del]

definition store_insert :: "outside \<Rightarrow> nat \<Rightarrow> nat \<Rightarrow> image_data \<Rightarrow> image_store \<Rightarrow> image \<times> image_store" where
  "store_insert e i number data st =
     (let st = (case hm_get (is_by_id st) i of
                  None \<Rightarrow> st
                | Some old \<Rightarrow> remove_key e old (st\<lparr>is_by_id := hm_del i (is_by_id st)\<rparr>));
          im = \<lparr>im_key = is_next_key st, im_id = i, im_number = number, im_data = data, im_commands = []\<rparr>;
          st = st\<lparr>is_next_key := is_next_key st + 1, is_bytes := is_bytes st + image_bytes e im,
                  is_by_id := hm_put i (im_key im) (is_by_id st),
                  is_by_number := (if number \<noteq> 0 then hm_put number (im_key im) (is_by_number st) else is_by_number st),
                  is_images := hm_put (im_key im) im (is_images st)\<rparr>
      in (im, enforce_quota e (im_key im) st))"

definition store_append :: "outside \<Rightarrow> nat \<Rightarrow> animation \<Rightarrow> image_store \<Rightarrow> string + image_store" where
  "store_append e i a st =
     (case hm_get (is_by_id st) i of
        None \<Rightarrow> Inl ''ENOENT:no such image''
      | Some key \<Rightarrow>
          (case hm_get (is_images st) key of
             None \<Rightarrow> Inl ''ENOENT:no such image''
           | Some im \<Rightarrow>
               if max_store_bytes - image_bytes e im < animation_bytes e a
               then Inl ''ENOSPC:animation exceeds image store quota''
               else Inr (enforce_quota e key
                      (st\<lparr>is_images := hm_put key (im\<lparr>im_commands := im_commands im @ [a]\<rparr>) (is_images st),
                          is_bytes := is_bytes st + animation_bytes e a\<rparr>))))"

definition store_remove :: "outside \<Rightarrow> nat \<Rightarrow> image_store \<Rightarrow> nat option \<times> image_store" where
  "store_remove e i st =
     (case hm_get (is_by_id st) i of
        None \<Rightarrow> (None, st)
      | Some key \<Rightarrow> (Some key, remove_key e key (st\<lparr>is_by_id := hm_del i (is_by_id st)\<rparr>)))"

definition store_clear :: "image_store \<Rightarrow> image_store" where
  "store_clear st = store_new (is_next_key st)"

definition insert_restored :: "outside \<Rightarrow> image \<Rightarrow> image_store \<Rightarrow> image_store" where
  "insert_restored e im st =
     st\<lparr>is_bytes := is_bytes st + image_bytes e im, is_by_id := hm_put (im_id im) (im_key im) (is_by_id st),
        is_by_number := (if im_number im \<noteq> 0 then hm_put (im_number im) (im_key im) (is_by_number st) else is_by_number st),
        is_images := hm_put (im_key im) im (is_images st)\<rparr>"

section \<open>The kitty protocol\<close>

definition command_default :: command where
  "command_default =
     \<lparr>cm_action = 0, cm_quiet = 0, cm_format = 0, cm_medium = 0, cm_width = 0, cm_height = 0, cm_size = 0, cm_offset = 0,
      cm_zlib = False, cm_more = False, cm_id = 0, cm_number = 0, cm_placement = 0, cm_x = 0, cm_y = 0, cm_w = 0, cm_h = 0,
      cm_off_x = 0, cm_off_y = 0, cm_cols = 0, cm_rows = 0, cm_z = 0, cm_cursor_stay = False, cm_unicode = False,
      cm_delete = 0, cm_extra = []\<rparr>"

text \<open>One pair of the control data: a key of one byte and its value.\<close>

definition uint_value :: "byte list \<Rightarrow> string + nat" where
  "uint_value v =
     (case parse_i64 v of
        Some n \<Rightarrow> if 0 \<le> n \<and> n \<le> 2 ^ 32 - 1 then Inr (nat n) else Inl ''EINVAL:bad number''
      | None \<Rightarrow> Inl ''EINVAL:bad number'')"

definition with_uint :: "byte list \<Rightarrow> (nat \<Rightarrow> command) \<Rightarrow> string + command" where
  "with_uint v f = (case uint_value v of Inl err \<Rightarrow> Inl err | Inr n \<Rightarrow> Inr (f n))"

definition set_key :: "byte \<Rightarrow> byte list \<Rightarrow> command \<Rightarrow> string + command" where
  "set_key k v c =
     (if k = 0x61 then Inr (c\<lparr>cm_action := hd v\<rparr>)
      else if k = 0x71 then with_uint v (\<lambda>n. c\<lparr>cm_quiet := min n 2\<rparr>)
      else if k = 0x66 then with_uint v (\<lambda>n. c\<lparr>cm_format := n\<rparr>)
      else if k = 0x74 then Inr (c\<lparr>cm_medium := hd v\<rparr>)
      else if k = 0x73 then with_uint v (\<lambda>n. c\<lparr>cm_width := n\<rparr>)
      else if k = 0x76 then with_uint v (\<lambda>n. c\<lparr>cm_height := n\<rparr>)
      else if k = 0x53 then with_uint v (\<lambda>n. c\<lparr>cm_size := n\<rparr>)
      else if k = 0x4F then with_uint v (\<lambda>n. c\<lparr>cm_offset := n\<rparr>)
      else if k = 0x6F then Inr (c\<lparr>cm_zlib := (hd v = 0x7A)\<rparr>)
      else if k = 0x6D then with_uint v (\<lambda>n. c\<lparr>cm_more := (n \<noteq> 0)\<rparr>)
      else if k = 0x69 then with_uint v (\<lambda>n. c\<lparr>cm_id := n\<rparr>)
      else if k = 0x49 then with_uint v (\<lambda>n. c\<lparr>cm_number := n\<rparr>)
      else if k = 0x70 then with_uint v (\<lambda>n. c\<lparr>cm_placement := n\<rparr>)
      else if k = 0x78 then with_uint v (\<lambda>n. c\<lparr>cm_x := n\<rparr>)
      else if k = 0x79 then with_uint v (\<lambda>n. c\<lparr>cm_y := n\<rparr>)
      else if k = 0x77 then with_uint v (\<lambda>n. c\<lparr>cm_w := n\<rparr>)
      else if k = 0x68 then with_uint v (\<lambda>n. c\<lparr>cm_h := n\<rparr>)
      else if k = 0x58 then with_uint v (\<lambda>n. c\<lparr>cm_off_x := n\<rparr>)
      else if k = 0x59 then with_uint v (\<lambda>n. c\<lparr>cm_off_y := n\<rparr>)
      else if k = 0x63 then with_uint v (\<lambda>n. c\<lparr>cm_cols := n\<rparr>)
      else if k = 0x72 then with_uint v (\<lambda>n. c\<lparr>cm_rows := n\<rparr>)
      else if k = 0x7A
      then (case parse_i64 v of
              Some n \<Rightarrow> Inr (c\<lparr>cm_z := max (- (2 ^ 31)) (min (2 ^ 31 - 1) n)\<rparr>)
            | None \<Rightarrow> Inl ''EINVAL:bad number'')
      else if k = 0x43 then with_uint v (\<lambda>n. c\<lparr>cm_cursor_stay := (n \<noteq> 0)\<rparr>)
      else if k = 0x55 then with_uint v (\<lambda>n. c\<lparr>cm_unicode := (n \<noteq> 0)\<rparr>)
      else if k = 0x64 then Inr (c\<lparr>cm_delete := hd v\<rparr>)
      else Inr c)"

definition replayed_key :: "byte \<Rightarrow> bool" where
  "replayed_key k = (k \<notin> {0x61, 0x71, 0x69, 0x49, 0x6D, 0x74, 0x53, 0x4F})"

definition join_bytes :: "byte \<Rightarrow> byte list list \<Rightarrow> byte list" where
  "join_bytes sep ps = (case ps of [] \<Rightarrow> [] | p # ps \<Rightarrow> p @ concat (map (\<lambda>q. sep # q) ps))"

fun parse_pairs :: "byte list list \<Rightarrow> command \<Rightarrow> byte list list \<Rightarrow> string + command" where
  "parse_pairs [] c extra = Inr (c\<lparr>cm_extra := join_bytes 0x2C extra\<rparr>)"
| "parse_pairs (p # ps) c extra =
     (if p = [] then parse_pairs ps c extra
      else case split_once_byte 0x3D p of
        None \<Rightarrow> Inl ''EINVAL:malformed control data''
      | Some (key, v) \<Rightarrow>
          if length key \<noteq> 1 \<or> v = [] then Inl ''EINVAL:malformed control data''
          else if \<not> from_utf8 v then Inl ''EINVAL:bad value''
          else case set_key (hd key) v c of
                 Inl err \<Rightarrow> Inl err
               | Inr c \<Rightarrow> parse_pairs ps c (if replayed_key (hd key) then extra @ [from_utf8_lossy p] else extra))"

definition parse_command :: "byte list \<Rightarrow> string + command" where
  "parse_command control =
     parse_pairs (split_byte 0x2C control)
       (command_default\<lparr>cm_action := 0x74, cm_format := 32, cm_medium := 0x64\<rparr>) []"

record pending_image =
  pi_command :: command
  pi_data :: "byte list"

definition decode_payload :: "outside \<Rightarrow> byte list \<Rightarrow> byte list \<Rightarrow> byte list" where
  "decode_payload e payload out =
     (if payload = [] then out
      else case ou_base64 e True payload of
        Some bs \<Rightarrow> out @ bs
      | None \<Rightarrow> (case ou_base64 e False payload of Some bs \<Rightarrow> out @ bs | None \<Rightarrow> out))"

section \<open>PNG\<close>

definition png_signature :: "byte list" where
  "png_signature = [0x89, 0x50, 0x4E, 0x47, 0x0D, 0x0A, 0x1A, 0x0A]"

definition png_dimensions :: "byte list \<Rightarrow> (nat \<times> nat) option" where
  "png_dimensions data =
     (if length data < 24 \<or> take 8 data \<noteq> png_signature \<or> take 4 (drop 12 data) \<noteq> [0x49, 0x48, 0x44, 0x52] then None
      else (let w = from_be (take 4 (drop 16 data)); h = from_be (take 4 (drop 20 data))
            in if w = 0 \<or> h = 0 then None else Some (w, h)))"

section \<open>Placements\<close>

type_synonym src_rect = "nat \<times> nat \<times> nat \<times> nat"

definition src_resolve :: "src_rect \<Rightarrow> nat \<Rightarrow> nat \<Rightarrow> src_rect" where
  "src_resolve r width height =
     (case r of (x, y, w, h) \<Rightarrow>
        (let x = min x width; y = min y height
         in (x, y, if w = 0 then width - x else min w (width - x), if h = 0 then height - y else min h (height - y))))"

definition clamp_u16 :: "nat \<Rightarrow> nat" where
  "clamp_u16 n = max 1 (min u16_max n)"

definition div_ceil :: "nat \<Rightarrow> nat \<Rightarrow> nat" where
  "div_ceil a b = (a + b - 1) div b"

text \<open>The products are of \<open>u64\<close> values, and wrap: nothing in the code keeps them below.\<close>

definition mul_u64 :: "nat \<Rightarrow> nat \<Rightarrow> nat" where
  "mul_u64 a b = (a * b) mod 2 ^ 64"

definition cell_size :: "src_rect \<Rightarrow> nat \<Rightarrow> nat \<Rightarrow> nat \<times> nat \<Rightarrow> nat \<times> nat" where
  "cell_size src cols rows cell_px =
     (case src of (_, _, w, h) \<Rightarrow>
        (let cw = max (fst cell_px) 1; ch = max (snd cell_px) 1; w = max w 1; h = max h 1
         in if 0 < cols \<and> 0 < rows then (clamp_u16 cols, clamp_u16 rows)
            else if 0 < cols
            then (clamp_u16 cols, clamp_u16 (div_ceil (mul_u64 h (mul_u64 cols cw) div w) ch))
            else if 0 < rows
            then (clamp_u16 (div_ceil (mul_u64 w (mul_u64 rows ch) div h) cw), clamp_u16 rows)
            else (clamp_u16 (div_ceil w cw), clamp_u16 (div_ceil h ch))))"

section \<open>Sixels\<close>

record sixel =
  sx_canvas :: "nat list"
  sx_width :: nat
  sx_height :: nat
  sx_declared :: "(nat \<times> nat) option"
  sx_palette :: "(byte \<times> byte \<times> byte) list"
  sx_color :: nat
  sx_x :: nat
  sx_y :: nat
  sx_transparent :: bool

definition max_pixels :: nat where "max_pixels = 64 * 1024 * 1024"

definition sixel_palette :: "(byte \<times> byte \<times> byte) list" where
  "sixel_palette =
     [(0, 0, 0), (51, 51, 204), (204, 36, 36), (51, 204, 51), (204, 51, 204), (51, 204, 204), (204, 204, 51), (120, 120, 120),
      (69, 69, 69), (84, 84, 153), (153, 66, 66), (84, 153, 84), (153, 84, 153), (84, 153, 153), (153, 153, 84), (204, 204, 204)]"

definition sixel_new :: "bool \<Rightarrow> sixel" where
  "sixel_new transparent =
     \<lparr>sx_canvas = [], sx_width = 0, sx_height = 0, sx_declared = None, sx_palette = sixel_palette, sx_color = 0, sx_x = 0,
      sx_y = 0, sx_transparent = transparent\<rparr>"

text \<open>Numbers with semicolons, and the bytes after them.\<close>

fun read_params :: "nat option \<Rightarrow> byte list \<Rightarrow> nat list \<times> byte list" where
  "read_params cur [] = ((case cur of None \<Rightarrow> [] | Some n \<Rightarrow> [n]), [])"
| "read_params cur (b # bs) =
     (if digit_byte b then read_params (Some (push_value (unwrap_or 0 cur) (unat b - 0x30))) bs
      else if b = 0x3B then (let (ps, left) = read_params None bs in (unwrap_or 0 cur # ps, left))
      else ((case cur of None \<Rightarrow> [] | Some n \<Rightarrow> [n]), b # bs))"

lemma read_params_shorter: "length (snd (read_params cur bs)) \<le> length bs"
  by (induction cur bs rule: read_params.induct) (auto simp: case_prod_beta)

lemma read_params_left: "(ps, left) = read_params cur bs \<Longrightarrow> length left < Suc (length bs)"
  using read_params_shorter [of cur bs] by (metis le_imp_less_Suc snd_conv)

definition percent :: "nat \<Rightarrow> byte" where
  "percent v = of_nat (min v 100 * 255 div 100)"

definition sixel_ensure :: "nat \<Rightarrow> nat \<Rightarrow> sixel \<Rightarrow> sixel option" where
  "sixel_ensure width height d =
     (if width \<le> sx_width d \<and> height \<le> sx_height d then Some d
      else (let w = max width (sx_width d); h = max height (sx_height d)
            in if max_pixels < w * h then None
               else Some (d\<lparr>sx_canvas :=
                        concat (map (\<lambda>y. take (sx_width d) (drop (y * sx_width d) (sx_canvas d)) @
                                         replicate (w - sx_width d) 0) [0..<sx_height d]) @
                        replicate ((h - sx_height d) * w) 0,
                      sx_width := w, sx_height := h\<rparr>)))"

text \<open>A sixel repeated: the six pixels of a column, where bits are set. Additions on the pen are of \<open>u32\<close>.\<close>

definition paint_cells :: "nat list \<Rightarrow> nat \<Rightarrow> nat list \<Rightarrow> nat list" where
  "paint_cells is v canvas = fold (\<lambda>i c. c[i := v]) is canvas"

definition sixel_paint :: "nat \<Rightarrow> nat \<Rightarrow> sixel \<Rightarrow> sixel option" where
  "sixel_paint bits reps d =
     map_option (\<lambda>d. d\<lparr>sx_x := (sx_x d + reps) mod 2 ^ 32\<rparr>)
       (if bits = 0 then Some d
        else if 2 ^ 32 \<le> sx_x d + reps \<or> 2 ^ 32 \<le> sx_y d + 6 then None
        else map_option
          (\<lambda>d. d\<lparr>sx_canvas := fold (\<lambda>n. if bit bits n
                 then paint_cells (map (\<lambda>x. (sx_y d + n) * sx_width d + x) [sx_x d..<sx_x d + reps]) (sx_color d + 1)
                 else id) [0..<6] (sx_canvas d)\<rparr>)
          (sixel_ensure (sx_x d + reps) (sx_y d + 6) d))"

definition raster_attributes :: "nat list \<Rightarrow> sixel \<Rightarrow> sixel option" where
  "raster_attributes ps d =
     (if 3 < length ps \<and> 0 < ps ! 2 \<and> 0 < ps ! 3 \<and> ps ! 2 * ps ! 3 \<le> max_pixels
      then sixel_ensure (ps ! 2) (ps ! 3) (d\<lparr>sx_declared := Some (ps ! 2, ps ! 3)\<rparr>) else Some d)"

definition select_color :: "outside \<Rightarrow> nat list \<Rightarrow> sixel \<Rightarrow> sixel" where
  "select_color e ps d =
     (case ps of
        [] \<Rightarrow> d
      | p # _ \<Rightarrow>
          (let i = min p 255;
               d = (if 5 \<le> length ps
                    then (let rgb = (if ps ! 1 = 1 then ou_hls e (ps ! 2) (ps ! 3) (ps ! 4)
                                     else (percent (ps ! 2), percent (ps ! 3), percent (ps ! 4)));
                              palette = sx_palette d @ replicate (i + 1 - length (sx_palette d)) (0, 0, 0)
                          in d\<lparr>sx_palette := palette[i := rgb]\<rparr>)
                    else d)
           in d\<lparr>sx_color := i\<rparr>))"

function sixel_run :: "outside \<Rightarrow> nat option \<Rightarrow> byte list \<Rightarrow> sixel \<Rightarrow> sixel option" where
  "sixel_run e again [] d = Some d"
| "sixel_run e again (b # bs) d =
     (if b = 0x22
      then (let (ps, left) = read_params None bs in Option.bind (raster_attributes ps d) (sixel_run e again left))
      else if b = 0x23
      then (let (ps, left) = read_params None bs in sixel_run e again left (select_color e ps d))
      else if b = 0x21
      then (let (ps, left) = read_params None bs in sixel_run e (Some (max 1 (case ps of [] \<Rightarrow> 1 | p # _ \<Rightarrow> p))) left d)
      else if b = 0x24 then sixel_run e again bs (d\<lparr>sx_x := 0\<rparr>)
      else if b = 0x2D then sixel_run e again bs (d\<lparr>sx_x := 0, sx_y := (sx_y d + 6) mod 2 ^ 32\<rparr>)
      else if 0x3F \<le> b \<and> b \<le> 0x7E
      then Option.bind (sixel_paint (unat (b - 0x3F)) (unwrap_or 1 again) d) (sixel_run e None bs)
      else sixel_run e again bs d)"
  by pat_completeness auto
termination
  by (relation "measure (\<lambda>(e, again, bs, d). length bs)") (auto dest: read_params_left)

declare sixel_run.simps(2) [simp del]

definition sixel_pixel :: "sixel \<Rightarrow> nat \<Rightarrow> byte list" where
  "sixel_pixel d i =
     (if i = 0
      then (if sx_transparent d then [0, 0, 0, 0]
            else (case sx_palette d of [] \<Rightarrow> [0, 0, 0, 255] | (r, g, b) # _ \<Rightarrow> [r, g, b, 255]))
      else if i - 1 < length (sx_palette d) then (case sx_palette d ! (i - 1) of (r, g, b) \<Rightarrow> [r, g, b, 255])
      else [0, 0, 0, 255])"

definition sixel_finish :: "sixel \<Rightarrow> (nat \<times> nat \<times> byte list) option" where
  "sixel_finish d =
     (let (width, height) = (case sx_declared d of
                               Some (w, h) \<Rightarrow> (min w (sx_width d), min h (sx_height d))
                             | None \<Rightarrow> (sx_width d, sx_height d))
      in if width = 0 \<or> height = 0 then None
         else Some (width, height,
                concat (map (\<lambda>y. concat (map (\<lambda>x. sixel_pixel d (sx_canvas d ! (y * sx_width d + x))) [0..<width])) [0..<height])))"

definition sixel_decode :: "outside \<Rightarrow> byte list \<Rightarrow> (nat \<times> nat \<times> byte list) option" where
  "sixel_decode e body =
     (case split_once_byte 0x71 body of
        None \<Rightarrow> None
      | Some (intro, data) \<Rightarrow>
          (let params = map (\<lambda>p. unwrap_or 0 (if from_utf8 p then parse_unsigned 10 (2 ^ 32 - 1) p else None)) (split_byte 0x3B intro);
               transparent = (1 < length params \<and> params ! 1 = 1)
           in Option.bind (sixel_run e None data (sixel_new transparent)) sixel_finish))"

section \<open>Placeholder marks\<close>

text \<open>The 297 marks, in order.\<close>

definition mark_table :: "nat list" where
  "mark_table =
     [0x305, 0x30D, 0x30E, 0x310, 0x312, 0x33D, 0x33E, 0x33F, 0x346, 0x34A, 0x34B, 0x34C, 0x350, 0x351, 0x352,
      0x357, 0x35B, 0x363, 0x364, 0x365, 0x366, 0x367, 0x368, 0x369, 0x36A, 0x36B, 0x36C, 0x36D, 0x36E,
      0x36F, 0x483, 0x484, 0x485, 0x486, 0x487, 0x592, 0x593, 0x594, 0x595, 0x597, 0x598, 0x599, 0x59C,
      0x59D, 0x59E, 0x59F, 0x5A0, 0x5A1, 0x5A8, 0x5A9, 0x5AB, 0x5AC, 0x5AF, 0x5C4, 0x610, 0x611, 0x612,
      0x613, 0x614, 0x615, 0x616, 0x617, 0x657, 0x658, 0x659, 0x65A, 0x65B, 0x65D, 0x65E, 0x6D6, 0x6D7,
      0x6D8, 0x6D9, 0x6DA, 0x6DB, 0x6DC, 0x6DF, 0x6E0, 0x6E1, 0x6E2, 0x6E4, 0x6E7, 0x6E8, 0x6EB, 0x6EC,
      0x730, 0x732, 0x733, 0x735, 0x736, 0x73A, 0x73D, 0x73F, 0x740, 0x741, 0x743, 0x745, 0x747, 0x749,
      0x74A, 0x7EB, 0x7EC, 0x7ED, 0x7EE, 0x7EF, 0x7F0, 0x7F1, 0x7F3, 0x816, 0x817, 0x818, 0x819, 0x81B,
      0x81C, 0x81D, 0x81E, 0x81F, 0x820, 0x821, 0x822, 0x823, 0x825, 0x826, 0x827, 0x829, 0x82A, 0x82B,
      0x82C, 0x82D, 0x951, 0x953, 0x954, 0xF82, 0xF83, 0xF86, 0xF87, 0x135D, 0x135E, 0x135F, 0x17DD, 0x193A,
      0x1A17, 0x1A75, 0x1A76, 0x1A77, 0x1A78, 0x1A79, 0x1A7A, 0x1A7B, 0x1A7C, 0x1B6B, 0x1B6D, 0x1B6E, 0x1B6F,
      0x1B70, 0x1B71, 0x1B72, 0x1B73, 0x1CD0, 0x1CD1, 0x1CD2, 0x1CDA, 0x1CDB, 0x1CE0, 0x1DC0, 0x1DC1, 0x1DC3,
      0x1DC4, 0x1DC5, 0x1DC6, 0x1DC7, 0x1DC8, 0x1DC9, 0x1DCB, 0x1DCC, 0x1DD1, 0x1DD2, 0x1DD3, 0x1DD4, 0x1DD5,
      0x1DD6, 0x1DD7, 0x1DD8, 0x1DD9, 0x1DDA, 0x1DDB, 0x1DDC, 0x1DDD, 0x1DDE, 0x1DDF, 0x1DE0, 0x1DE1, 0x1DE2,
      0x1DE3, 0x1DE4, 0x1DE5, 0x1DE6, 0x1DFE, 0x20D0, 0x20D1, 0x20D4, 0x20D5, 0x20D6, 0x20D7, 0x20DB, 0x20DC,
      0x20E1, 0x20E7, 0x20E9, 0x20F0, 0x2CEF, 0x2CF0, 0x2CF1, 0x2DE0, 0x2DE1, 0x2DE2, 0x2DE3, 0x2DE4, 0x2DE5,
      0x2DE6, 0x2DE7, 0x2DE8, 0x2DE9, 0x2DEA, 0x2DEB, 0x2DEC, 0x2DED, 0x2DEE, 0x2DEF, 0x2DF0, 0x2DF1, 0x2DF2,
      0x2DF3, 0x2DF4, 0x2DF5, 0x2DF6, 0x2DF7, 0x2DF8, 0x2DF9, 0x2DFA, 0x2DFB, 0x2DFC, 0x2DFD, 0x2DFE, 0x2DFF,
      0xA66F, 0xA67C, 0xA67D, 0xA6F0, 0xA6F1, 0xA8E0, 0xA8E1, 0xA8E2, 0xA8E3, 0xA8E4, 0xA8E5, 0xA8E6, 0xA8E7,
      0xA8E8, 0xA8E9, 0xA8EA, 0xA8EB, 0xA8EC, 0xA8ED, 0xA8EE, 0xA8EF, 0xA8F0, 0xA8F1, 0xAAB0, 0xAAB2, 0xAAB3,
      0xAAB7, 0xAAB8, 0xAABE, 0xAABF, 0xAAC1, 0xFE20, 0xFE21, 0xFE22, 0xFE23, 0xFE24, 0xFE25, 0xFE26,
      0x10A0F, 0x10A38, 0x1D185, 0x1D186, 0x1D187, 0x1D188, 0x1D189, 0x1D1AA, 0x1D1AB, 0x1D1AC, 0x1D1AD,
      0x1D242, 0x1D243, 0x1D244]"

text \<open>The search of the sorted table.\<close>

fun index_in :: "nat \<Rightarrow> nat \<Rightarrow> nat list \<Rightarrow> nat option" where
  "index_in c i [] = None"
| "index_in c i (m # ms) = (if m = c then Some i else index_in c (i + 1) ms)"

definition mark_index :: "nat \<Rightarrow> nat option" where
  "mark_index c = (if c < 0x300 then None else index_in c 0 mark_table)"

definition mark_char :: "nat \<Rightarrow> nat option" where
  "mark_char n = (if n < length mark_table then Some (mark_table ! n) else None)"

end
