(* ===== verification/Term_Emit.thy ===== *)
theory Term_Emit
  imports Term_Style
begin

text \<open>
  The sequences the emulator and the painter write (\<open>src/src/term/vt/emit.rs\<close>): what a screen replies, and
  the change from one style to another. A sequence is its bytes.
\<close>

section \<open>Bytes\<close>

abbreviation bytes_of :: "string \<Rightarrow> byte list" where
  "bytes_of s \<equiv> map byte_of s"

definition csi_bytes :: "string \<Rightarrow> byte list" where
  "csi_bytes s = 0x1B # 0x5B # bytes_of s"

definition st_bytes :: "byte list" where
  "st_bytes = [0x1B, 0x5C]"

text \<open>Numbers after each other, with a separator.\<close>

fun numbers :: "byte \<Rightarrow> nat list \<Rightarrow> byte list" where
  "numbers sep [] = []"
| "numbers sep [n] = decimal n"
| "numbers sep (n # ns) = decimal n @ sep # numbers sep ns"

definition hex_digit :: "bool \<Rightarrow> nat \<Rightarrow> byte" where
  "hex_digit upper d = (if d < 10 then of_nat (0x30 + d) else if upper then of_nat (0x41 + d - 10) else of_nat (0x61 + d - 10))"

definition hex_byte :: "bool \<Rightarrow> byte \<Rightarrow> byte list" where
  "hex_byte upper b = [hex_digit upper (unat b div 16), hex_digit upper (unat b mod 16)]"

section \<open>Replies\<close>

definition kitty_flags_reply :: "byte \<Rightarrow> byte list" where
  "kitty_flags_reply flags = csi_bytes ''?'' @ decimal (unat flags) @ bytes_of ''u''"

definition da1_reply :: "byte list" where
  "da1_reply = csi_bytes ''?65;6;22;52c''"

text \<open>The version of the crate, and as xterm's patch number.\<close>

definition crate_version :: string where
  "crate_version = ''0.10.3''"

definition version_number :: nat where
  "version_number = 0 * 10000 + 10 * 100 + 3"

definition da2_reply :: "byte list" where
  "da2_reply = csi_bytes ''>41;'' @ decimal version_number @ bytes_of '';0c''"

definition da3_reply :: "byte list" where
  "da3_reply = 0x1B # bytes_of ''P!|00000000'' @ st_bytes"

definition xtversion_reply :: "byte list" where
  "xtversion_reply = 0x1B # bytes_of ''P>|dekit '' @ bytes_of crate_version @ st_bytes"

definition cpr :: "nat \<Rightarrow> nat \<Rightarrow> byte list" where
  "cpr r c = csi_bytes '''' @ decimal (r + 1) @ bytes_of '';'' @ decimal (c + 1) @ bytes_of ''R''"

definition decxcpr :: "nat \<Rightarrow> nat \<Rightarrow> byte list" where
  "decxcpr r c = csi_bytes ''?'' @ decimal (r + 1) @ bytes_of '';'' @ decimal (c + 1) @ bytes_of '';1R''"

definition decrqm_reply :: "bool \<Rightarrow> nat \<Rightarrow> nat \<Rightarrow> byte list" where
  "decrqm_reply dec mode state =
     csi_bytes (if dec then ''?'' else '''') @ decimal mode @ bytes_of '';'' @ decimal state @ bytes_of ''$y''"

definition window_report :: "nat \<Rightarrow> nat \<Rightarrow> nat \<Rightarrow> byte list" where
  "window_report code a b = csi_bytes '''' @ numbers 0x3B [code, a, b] @ bytes_of ''t''"

definition inband_resize :: "nat \<Rightarrow> nat \<Rightarrow> nat \<Rightarrow> nat \<Rightarrow> byte list" where
  "inband_resize rows cols height_px width_px =
     csi_bytes ''48;'' @ numbers 0x3B [rows, cols, height_px, width_px] @ bytes_of ''t''"

type_synonym rgb = "byte \<times> byte \<times> byte"

definition osc_color_reply :: "nat \<Rightarrow> byte option \<Rightarrow> rgb \<Rightarrow> byte list" where
  "osc_color_reply code idx rgb =
     (case rgb of (r, g, b) \<Rightarrow>
        0x1B # bytes_of '']'' @ decimal code @ bytes_of '';'' @
        (case idx of None \<Rightarrow> [] | Some i \<Rightarrow> decimal (unat i) @ bytes_of '';'') @
        bytes_of ''rgb:'' @ hex_byte False r @ hex_byte False r @ bytes_of ''/'' @ hex_byte False g @ hex_byte False g @
        bytes_of ''/'' @ hex_byte False b @ hex_byte False b @ st_bytes)"

definition xtgettcap_reply :: "byte list \<Rightarrow> byte list option \<Rightarrow> byte list" where
  "xtgettcap_reply name_hex value =
     (case value of
        None \<Rightarrow> 0x1B # bytes_of ''P0+r'' @ st_bytes
      | Some v \<Rightarrow> 0x1B # bytes_of ''P1+r'' @ name_hex @ 0x3D # concat (map (hex_byte True) v) @ st_bytes)"

definition decrqss_reply :: "bool \<Rightarrow> byte list \<Rightarrow> byte list" where
  "decrqss_reply valid payload =
     (if valid then 0x1B # bytes_of ''P1$r'' @ payload @ st_bytes else 0x1B # bytes_of ''P0$r'' @ st_bytes)"

definition kitty_graphics :: "byte list \<Rightarrow> byte list \<Rightarrow> byte list" where
  "kitty_graphics control payload =
     0x1B # bytes_of ''_G'' @ control @ (if payload = [] then [] else 0x3B # payload) @ st_bytes"

section \<open>Styles\<close>

definition color_params :: "nat \<Rightarrow> color \<Rightarrow> byte list" where
  "color_params base c =
     (let (extended, plain_cell) = (if base = 58 then (58, 59) else (base + 8, base + 9))
      in case c of
           DefaultColor \<Rightarrow> decimal plain_cell
         | Idx i \<Rightarrow>
             if i < 8 \<and> base \<noteq> 58 then decimal (base + unat i)
             else if i < 16 \<and> base \<noteq> 58 then decimal (base + 60 + unat i - 8)
             else decimal extended @ bytes_of (if base = 58 then '':5:'' else '';5;'') @ decimal (unat i)
         | Rgb r g b \<Rightarrow>
             decimal extended @ bytes_of (if base = 58 then '':2::'' else '';2;'') @
             numbers (if base = 58 then 0x3A else 0x3B) [unat r, unat g, unat b])"

definition underline_params :: "underline \<Rightarrow> byte list" where
  "underline_params u =
     (case u of
        NoUnderline \<Rightarrow> decimal 24
      | SingleUnderline \<Rightarrow> decimal 4
      | _ \<Rightarrow> bytes_of ''4:'' @ decimal (underline_code u))"

abbreviation "style_bold \<equiv> style_flag attr_bold"
abbreviation "style_dim \<equiv> style_flag attr_dim"

definition with_link :: "nat \<Rightarrow> style \<Rightarrow> style" where
  "with_link l st = st\<lparr>st_link := l\<rparr>"

text \<open>What is written for an attribute that changes.\<close>

definition flag_change :: "nat \<Rightarrow> nat \<Rightarrow> nat \<Rightarrow> style \<Rightarrow> style \<Rightarrow> byte list list" where
  "flag_change n on off from to =
     (if style_flag n from \<noteq> style_flag n to then [decimal (if style_flag n to then on else off)] else [])"

definition style_changes :: "style \<Rightarrow> style \<Rightarrow> byte list list" where
  "style_changes from to =
     (let intensity_off = (style_bold from \<and> \<not> style_bold to \<or> style_dim from \<and> \<not> style_dim to)
      in (if intensity_off then [decimal 22] else []) @
         (if style_bold to \<and> (intensity_off \<or> \<not> style_bold from) then [decimal 1] else []) @
         (if style_dim to \<and> (intensity_off \<or> \<not> style_dim from) then [decimal 2] else []) @
         flag_change attr_italic 3 23 from to @
         (if style_underline from \<noteq> style_underline to then [underline_params (style_underline to)] else []) @
         flag_change attr_blink 5 25 from to @ flag_change attr_inverse 7 27 from to @
         flag_change attr_hidden 8 28 from to @ flag_change attr_strike 9 29 from to @
         flag_change attr_overline 53 55 from to @
         (if st_fg from \<noteq> st_fg to then [color_params 30 (st_fg to)] else []) @
         (if st_bg from \<noteq> st_bg to then [color_params 40 (st_bg to)] else []) @
         (if st_ul from \<noteq> st_ul to then [color_params 58 (st_ul to)] else []))"

fun separated :: "byte \<Rightarrow> byte list list \<Rightarrow> byte list" where
  "separated sep [] = []"
| "separated sep [x] = x"
| "separated sep (x # xs) = x @ sep # separated sep xs"

definition emit_sgr :: "style \<Rightarrow> style \<Rightarrow> byte list" where
  "emit_sgr from to =
     (let from = with_link 0 from; to = with_link 0 to
      in if from = to then []
         else if to = style_default then csi_bytes ''0m''
         else csi_bytes '''' @ separated 0x3B (style_changes from to) @ bytes_of ''m'')"

text \<open>The parameters between the introducer and the final byte.\<close>

definition sgr_params :: "byte list \<Rightarrow> byte list option" where
  "sgr_params seq =
     (if take 2 seq = [0x1B, 0x5B] \<and> 2 < length seq \<and> List.last seq = 0x6D then Some (butlast (drop 2 seq)) else None)"

definition sgr_full :: "style \<Rightarrow> byte list" where
  "sgr_full st =
     bytes_of ''0'' @
     (case sgr_params (emit_sgr style_default st) of
        Some params \<Rightarrow> if params \<noteq> [] \<and> params \<noteq> bytes_of ''0'' then 0x3B # params else []
      | None \<Rightarrow> []) @ bytes_of ''m''"

end
