(* ===== verification/Term_Screen.thy ===== *)
theory Term_Screen
  imports Term_Images Term_Emit "HOL-Library.Monad_Syntax"
begin

text \<open>
  The emulator's state (\<open>src/src/term/screen/mod.rs\<close>) and how printable text gets into its cells
  (\<open>src/src/term/screen/text.rs\<close>). An operation that may panic gives \<open>None\<close> then. The cache of shown styles
  is left out: it changes nothing but what is computed again.
\<close>

section \<open>Character sets\<close>

datatype charset = AsciiSet | UkSet | DecSet

definition charset_of_final :: "byte \<Rightarrow> charset option" where
  "charset_of_final b =
     (if b = 0x41 then Some UkSet else if b \<in> {0x42, 0x31, 0x32} then Some AsciiSet
      else if b = 0x30 then Some DecSet else None)"

text \<open>The DEC set from \<open>_\<close> to \<open>~\<close>.\<close>

definition dec_drawings :: "nat list" where
  "dec_drawings =
     [0x20, 0x25C6, 0x2592, 0x2409, 0x240C, 0x240D, 0x240A, 0xB0, 0xB1, 0x2424, 0x240B, 0x2518, 0x2510, 0x250C, 0x2514,
      0x253C, 0x23BA, 0x23BB, 0x2500, 0x23BC, 0x23BD, 0x251C, 0x2524, 0x2534, 0x252C, 0x2502, 0x2264, 0x2265, 0x3C0,
      0x2260, 0xA3, 0xB7]"

definition dec_line_drawing :: "nat \<Rightarrow> nat" where
  "dec_line_drawing c = (if 0x5F \<le> c \<and> c \<le> 0x7E then dec_drawings ! (c - 0x5F) else c)"

definition charset_translate :: "charset \<Rightarrow> nat \<Rightarrow> nat" where
  "charset_translate cs c =
     (case cs of AsciiSet \<Rightarrow> c | UkSet \<Rightarrow> if c = 0x23 then 0xA3 else c | DecSet \<Rightarrow> dec_line_drawing c)"

section \<open>The screen\<close>

datatype mouse_mode = MouseNone | MousePress | MousePressRelease | MouseButtonMotion | MouseAnyMotion

datatype mouse_encoding = EncDefault | EncUtf8 | EncSgr | EncUrxvt | EncSgrPixels

datatype cursor_style =
  DefaultCursor | BlinkingBlock | SteadyBlock | BlinkingUnderline | SteadyUnderline | BlinkingBar | SteadyBar

record modes =
  md_app_keypad :: bool
  md_app_cursor :: bool
  md_hide_cursor :: bool
  md_alt_screen :: bool
  md_bracketed_paste :: bool
  md_autowrap :: bool
  md_insert :: bool
  md_newline :: bool
  md_focus_report :: bool
  md_alt_scroll :: bool
  md_sync :: bool
  md_grapheme_clusters :: bool
  md_inband_resize :: bool
  md_reverse_video :: bool
  md_cursor_blink :: bool
  md_margins :: bool
  md_alt_saved_cursor :: bool
  md_meta_sends_esc :: bool
  md_keyboard_locked :: bool

definition modes_default :: modes where
  "modes_default =
     \<lparr>md_app_keypad = False, md_app_cursor = False, md_hide_cursor = False, md_alt_screen = False,
      md_bracketed_paste = False, md_autowrap = True, md_insert = False, md_newline = False, md_focus_report = False,
      md_alt_scroll = True, md_sync = False, md_grapheme_clusters = False, md_inband_resize = False,
      md_reverse_video = False, md_cursor_blink = True, md_margins = False, md_alt_saved_cursor = False,
      md_meta_sends_esc = True, md_keyboard_locked = False\<rparr>"

datatype vt_event = Bell | Reply "byte list" | SetClipboard "byte list" | Notify "byte list" "byte list"

record palette =
  pl_fg :: rgb
  pl_bg :: rgb
  pl_ansi :: "rgb list"

definition palette_dark :: palette where
  "palette_dark =
     \<lparr>pl_fg = (0xd1, 0xd7, 0xe0), pl_bg = (0x16, 0x1b, 0x22),
      pl_ansi =
       [(0x48, 0x4f, 0x58), (0xff, 0x7b, 0x72), (0x3f, 0xb9, 0x50), (0xd2, 0x99, 0x22), (0x58, 0xa6, 0xff),
        (0xbc, 0x8c, 0xff), (0x39, 0xc5, 0xcf), (0xb1, 0xba, 0xc4), (0x6e, 0x76, 0x81), (0xff, 0xa1, 0x98),
        (0x56, 0xd3, 0x64), (0xe3, 0xb3, 0x41), (0x79, 0xc0, 0xff), (0xd2, 0xa8, 0xff), (0x56, 0xd4, 0xdd),
        (0xff, 0xff, 0xff)]\<rparr>"

definition cube_levels :: "byte list" where
  "cube_levels = [0, 95, 135, 175, 215, 255]"

definition palette_idx :: "byte \<Rightarrow> palette \<Rightarrow> rgb" where
  "palette_idx i p =
     (if i \<le> 15 then pl_ansi p ! unat i
      else if i \<le> 231
      then (let i = unat i - 16 in (cube_levels ! (i div 36), cube_levels ! (i div 6 mod 6), cube_levels ! (i mod 6)))
      else (let v = 8 + (i - 232) * 10 in (v, v, v)))"

record screen =
  sn_scanner :: scanner
  sn_grid :: grid
  sn_alt_grid :: grid
  sn_style :: style
  sn_saved_style :: style
  sn_link :: "link option"
  sn_link_ids :: "nat option \<times> nat option"
  sn_sgr_stack :: "style list"
  sn_modes :: modes
  sn_mouse_mode :: mouse_mode
  sn_mouse_encoding :: mouse_encoding
  sn_cursor_style :: cursor_style
  sn_charsets :: "charset list"
  sn_gl :: nat
  sn_single_shift :: "nat option"
  sn_kitty :: "byte list"
  sn_alt_kitty :: "byte list"
  sn_title :: "byte list"
  sn_title_stack :: "byte list list"
  sn_cwd :: "byte list option"
  sn_palette :: palette
  sn_dynamic_fg :: "rgb option"
  sn_dynamic_bg :: "rgb option"
  sn_dynamic_cursor :: "rgb option"
  sn_cell_pixels :: "nat \<times> nat"
  sn_last_char :: "nat option"
  sn_placeholder_marks :: nat
  sn_images :: image_store
  sn_pending_image :: "pending_image option"
  sn_events :: "vt_event list"
  sn_line_tap :: bool
  sn_finished :: "byte list list"

definition screen_new :: "(nat \<Rightarrow> nat option) \<Rightarrow> nat \<Rightarrow> nat \<Rightarrow> nat \<Rightarrow> nat \<Rightarrow> screen" where
  "screen_new cw height width scrollback key =
     \<lparr>sn_scanner = scanner_new ModeOutput, sn_grid = grid_new cw height width scrollback,
      sn_alt_grid = grid_new cw height width 0, sn_style = style_default, sn_saved_style = style_default,
      sn_link = None, sn_link_ids = (None, None), sn_sgr_stack = [], sn_modes = modes_default,
      sn_mouse_mode = MouseNone, sn_mouse_encoding = EncDefault, sn_cursor_style = DefaultCursor,
      sn_charsets = replicate 4 AsciiSet, sn_gl = 0, sn_single_shift = None, sn_kitty = [], sn_alt_kitty = [],
      sn_title = [], sn_title_stack = [], sn_cwd = None, sn_palette = palette_dark, sn_dynamic_fg = None,
      sn_dynamic_bg = None, sn_dynamic_cursor = None, sn_cell_pixels = (8, 16), sn_last_char = None,
      sn_placeholder_marks = 0, sn_images = store_new key, sn_pending_image = None, sn_events = [],
      sn_line_tap = False, sn_finished = []\<rparr>"

section \<open>Grids and styles\<close>

definition active_grid :: "screen \<Rightarrow> grid" where
  "active_grid s = (if md_alt_screen (sn_modes s) then sn_alt_grid s else sn_grid s)"

text \<open>\<open>grid_mut\<close>: what is done to the active grid.\<close>

definition put_grid :: "grid \<Rightarrow> screen \<Rightarrow> screen" where
  "put_grid g s = (if md_alt_screen (sn_modes s) then s\<lparr>sn_alt_grid := g\<rparr> else s\<lparr>sn_grid := g\<rparr>)"

definition on_grid :: "(grid \<Rightarrow> grid option) \<Rightarrow> screen \<Rightarrow> screen option" where
  "on_grid f s = map_option (\<lambda>g. put_grid g s) (f (active_grid s))"

definition at_grid :: "(grid \<Rightarrow> grid) \<Rightarrow> screen \<Rightarrow> screen" where
  "at_grid f s = put_grid (f (active_grid s)) s"

definition emit_event :: "vt_event \<Rightarrow> screen \<Rightarrow> screen" where
  "emit_event ev s = s\<lparr>sn_events := sn_events s @ [ev]\<rparr>"

definition gl_set :: "screen \<Rightarrow> charset" where
  "gl_set s = sn_charsets s ! (sn_gl s mod 4)"

definition intern_link_in :: "link \<Rightarrow> grid \<Rightarrow> nat \<times> grid" where
  "intern_link_in l g =
     (let (i, tab) = link_intern l (tb_links (gd_tables g)) in (i, g\<lparr>gd_tables := (gd_tables g)\<lparr>tb_links := tab\<rparr>\<rparr>))"

definition current_link_id :: "screen \<Rightarrow> nat \<times> screen" where
  "current_link_id s =
     (case sn_link s of
        None \<Rightarrow> (0, s)
      | Some l \<Rightarrow>
          (let alt = md_alt_screen (sn_modes s)
           in case (if alt then snd (sn_link_ids s) else fst (sn_link_ids s)) of
                Some i \<Rightarrow> (i, s)
              | None \<Rightarrow>
                  (let (i, g) = intern_link_in l (active_grid s)
                   in (i, (put_grid g s)\<lparr>sn_link_ids :=
                             (if alt then (fst (sn_link_ids s), Some i) else (Some i, snd (sn_link_ids s)))\<rparr>))))"

definition style_id :: "screen \<Rightarrow> nat \<times> screen" where
  "style_id s =
     (let (l, s) = current_link_id s; (i, g) = intern_style (with_link l (sn_style s)) (active_grid s)
      in (i, put_grid g s))"

definition set_link :: "link option \<Rightarrow> screen \<Rightarrow> screen" where
  "set_link l s = (if sn_link s = l then s else s\<lparr>sn_link := l, sn_link_ids := (None, None)\<rparr>)"

section \<open>Cells before the cursor\<close>

definition prev_pos :: "screen \<Rightarrow> pos option" where
  "prev_pos s =
     (let g = active_grid s; r = pos_row (gd_pos g); c = pos_col (gd_pos g)
      in if gd_left g < c \<and> c \<le> gd_width g then Some (pos_at r (c - 1))
         else if 0 < r \<and> c = gd_left g \<and> (case drawing_row (r - 1) g of Some row \<Rightarrow> r_wrapped row | None \<Rightarrow> False)
         then Some (pos_at (r - 1) (gd_width g - 1))
         else None)"

definition prev_of_cell :: "grid \<Rightarrow> cell \<Rightarrow> prev_info" where
  "prev_of_cell g cell =
     (let cs = str_chars (ct_str (tb_graphemes (gd_tables g)) (c_text cell));
          first = (case cs of [] \<Rightarrow> 0x20 | c # _ \<Rightarrow> c); final = (if cs = [] then 0x20 else List.last cs)
      in \<lparr>pv_exists = True, pv_after_zwj = (final = zwj),
          pv_lone_ri = (is_regional_indicator first \<and> length cs \<le> 1), pv_emoji_base = is_emoji_base first,
          pv_width = ct_width (c_text cell)\<rparr>)"

definition prev_cell :: "screen \<Rightarrow> pos option \<times> prev_info" where
  "prev_cell s =
     (let g = active_grid s
      in case Option.bind (prev_pos s) (\<lambda>p. map_option (Pair p) (drawing_cell p g)) of
           None \<Rightarrow> (None, no_prev)
         | Some (p, cell) \<Rightarrow>
             (case (if is_continuation cell \<and> 0 < pos_col p
                    then (let p = pos_at (pos_row p) (pos_col p - 1) in map_option (Pair p) (drawing_cell p g))
                    else Some (p, cell)) of
                None \<Rightarrow> (None, no_prev)
              | Some (p, cell) \<Rightarrow>
                  if \<not> has_contents cell \<or> ct_is_image (c_text cell) then (None, no_prev)
                  else (Some p, prev_of_cell g cell)))"

section \<open>Writing text\<close>

definition max_cluster_bytes :: nat where "max_cluster_bytes = 64"

definition placeholder :: nat where "placeholder = 0x10EEEE"

definition grid_cell_text :: "byte list \<Rightarrow> nat \<Rightarrow> grid \<Rightarrow> cell_text \<times> grid" where
  "grid_cell_text text width g =
     (let (t, gt) = ct_of text width (tb_graphemes (gd_tables g))
      in (t, g\<lparr>gd_tables := (gd_tables g)\<lparr>tb_graphemes := gt\<rparr>\<rparr>))"

text \<open>\<open>join\<close>: a scalar added to the cell before.\<close>

definition join_in :: "pos \<Rightarrow> nat \<Rightarrow> nat option \<Rightarrow> grid \<Rightarrow> grid option" where
  "join_in p c widen g =
     (case drawing_cell p g of
        None \<Rightarrow> Some g
      | Some cell \<Rightarrow>
          (let text = ct_str (tb_graphemes (gd_tables g)) (c_text cell)
           in if max_cluster_bytes < length text + length (encode_char c) then Some g
              else
                (let width = (case widen of None \<Rightarrow> max (ct_width (c_text cell)) 1 | Some w \<Rightarrow> w);
                     (t, g) = grid_cell_text (text @ encode_char c) width g
                 in if width = 2 \<and> ct_width (c_text cell) < 2
                    then (if gd_width g \<le> pos_col p + 1 then write_cell p (ct_with_width 1 t) (c_style cell) g
                          else map_option
                            (\<lambda>g'. if pos_row (gd_pos g) = pos_row p \<and> pos_col (gd_pos g) = pos_col p + 1
                                  then col_inc 1 g' else g')
                            (write_cell p t (c_style cell) g))
                    else write_cell p t (c_style cell) g)))"

text \<open>\<open>write_new\<close>: wrap, insert, write, advance. The flag says whether a cell was written.\<close>

definition write_new_in ::
  "(nat \<Rightarrow> nat option) \<Rightarrow> bool \<Rightarrow> bool \<Rightarrow> nat \<Rightarrow> nat \<Rightarrow> nat \<Rightarrow> grid \<Rightarrow> (bool \<times> grid) option" where
  "write_new_in cw autowrap ins c w st g =
     (let over = (gd_right g + 1 < pos_col (gd_pos g) + w)
      in do {
           g \<leftarrow> (if over then (if autowrap then col_wrap cw w st g else Some (col_stay g)) else Some g);
           if over \<and> \<not> autowrap \<and> w = 2 \<and> gd_right g < pos_col (gd_pos g) + 1 then Some (False, g)
           else do {
             g \<leftarrow> (if ins then grid_insert_cells w st g else Some g);
             g \<leftarrow> write_cell (gd_pos g) (ct_scalar c w) st g;
             Some (True, col_inc w g)
           }
         })"

definition write_new :: "(nat \<Rightarrow> nat option) \<Rightarrow> nat \<Rightarrow> nat \<Rightarrow> screen \<Rightarrow> screen option" where
  "write_new cw c w s =
     (let (st, s) = style_id s
      in map_option
           (\<lambda>(written, g).
              if written then (put_grid g s)\<lparr>sn_last_char := Some c, sn_placeholder_marks := 0\<rparr> else put_grid g s)
           (write_new_in cw (md_autowrap (sn_modes s)) (md_insert (sn_modes s)) c w st (active_grid s)))"

definition color_id :: "color \<Rightarrow> nat" where
  "color_id c = (case c of DefaultColor \<Rightarrow> 0 | Idx i \<Rightarrow> unat i | Rgb r g b \<Rightarrow> unat r * 2 ^ 16 + unat g * 2 ^ 8 + unat b)"

text \<open>\<open>write_placeholder\<close>: the cell continues the part of the image to its left.\<close>

definition placeholder_part :: "nat \<Rightarrow> grid \<Rightarrow> nat \<times> nat" where
  "placeholder_part slot g =
     (let p = gd_pos g
      in case (if 0 < pos_col p then drawing_cell (pos_at (pos_row p) (pos_col p - 1)) g else None) of
           Some cell \<Rightarrow>
             (case ct_kind (c_text cell) of
                ImageText sl r c \<Rightarrow> if sl = slot then (r, sat_add c 1) else (0, 0)
              | _ \<Rightarrow> (0, 0))
         | None \<Rightarrow> (0, 0))"

definition write_placeholder :: "(nat \<Rightarrow> nat option) \<Rightarrow> screen \<Rightarrow> screen option" where
  "write_placeholder cw s =
     (let image = color_id (st_fg (sn_style s)); place = color_id (st_ul (sn_style s));
          autowrap = md_autowrap (sn_modes s); (st, s) = style_id s; g = active_grid s
      in do {
           g \<leftarrow> (if gd_right g < pos_col (gd_pos g)
                  then (if autowrap then col_wrap cw 1 st g else Some (col_stay g)) else Some g);
           case placeholder_slot image place g of
             (None, g) \<Rightarrow> Some (put_grid g s)
           | (Some slot, g) \<Rightarrow>
               (let (r, c) = placeholder_part slot g
                in map_option
                     (\<lambda>g. (put_grid (col_inc 1 g) s)\<lparr>sn_placeholder_marks := 0, sn_last_char := None\<rparr>)
                     (write_cell (gd_pos g) (ct_image slot r c) st g))
         })"

text \<open>\<open>mark_placeholder\<close>: \<open>None\<close> inside when the cell is no placeholder.\<close>

definition mark_text :: "nat \<Rightarrow> nat \<Rightarrow> nat \<Rightarrow> nat \<Rightarrow> nat \<Rightarrow> grid \<Rightarrow> cell_text option \<times> grid" where
  "mark_text marks m slot r c g =
     (if marks = 0 then (Some (ct_image slot m c), g)
      else if marks = 1 then (Some (ct_image slot r m), g)
      else if marks = 2
      then (if slot < length (gd_slots g)
            then (let (image, place) = gd_slots g ! slot; image = image mod 2 ^ 24 + (m mod 2 ^ 8) * 2 ^ 24
                  in case placeholder_slot image place g of
                       (Some slot, g) \<Rightarrow> (Some (ct_image slot r c), g)
                     | (None, g) \<Rightarrow> (None, g))
            else (None, g))
      else (None, g))"

definition mark_placeholder :: "pos \<Rightarrow> nat \<Rightarrow> screen \<Rightarrow> screen option option" where
  "mark_placeholder p m s =
     (let g = active_grid s
      in case drawing_cell p g of
           None \<Rightarrow> None
         | Some cell \<Rightarrow>
             (case ct_kind (c_text cell) of
                ImageText slot r c \<Rightarrow>
                  Some (case mark_text (sn_placeholder_marks s) m slot r c g of
                          (None, g) \<Rightarrow> Some (put_grid g s)
                        | (Some t, g) \<Rightarrow>
                            map_option (\<lambda>g. (put_grid g s)\<lparr>sn_placeholder_marks := sn_placeholder_marks s + 1\<rparr>)
                              (write_cell p t (c_style cell) g))
              | _ \<Rightarrow> None))"

definition join_char :: "pos option \<Rightarrow> nat \<Rightarrow> nat option \<Rightarrow> screen \<Rightarrow> screen option" where
  "join_char p c widen s = (case p of None \<Rightarrow> Some s | Some p \<Rightarrow> on_grid (join_in p c widen) s)"

definition put_scalar :: "(nat \<Rightarrow> nat option) \<Rightarrow> nat \<Rightarrow> screen \<Rightarrow> screen option" where
  "put_scalar cw c s =
     (let (p, prev) = prev_cell s
      in case attach_char cw c prev of
           NewCell w \<Rightarrow> write_new cw c w s
         | Join \<Rightarrow> join_char p c None s
         | JoinWide \<Rightarrow> join_char p c (Some 2) s)"

text \<open>The set of the next character; a slot there is not panics.\<close>

definition next_set :: "screen \<Rightarrow> charset option" where
  "next_set s =
     (case sn_single_shift s of
        Some g \<Rightarrow> if g < length (sn_charsets s) then Some (sn_charsets s ! g) else None
      | None \<Rightarrow> Some (gl_set s))"

definition put_char :: "(nat \<Rightarrow> nat option) \<Rightarrow> nat \<Rightarrow> screen \<Rightarrow> screen option" where
  "put_char cw c s =
     (case next_set s of
        None \<Rightarrow> None
      | Some cs \<Rightarrow>
          (let s = s\<lparr>sn_single_shift := None\<rparr>; c = (if c < 0x80 then charset_translate cs c else c)
           in if scalar_width cw c = None then Some s
              else if c = placeholder then write_placeholder cw s
              else case Option.bind (mark_index c) (\<lambda>m. Option.bind (prev_pos s) (\<lambda>p. mark_placeholder p m s)) of
                     Some r \<Rightarrow> r
                   | None \<Rightarrow> put_scalar cw c s))"

text \<open>The run of ASCII after a character of ASCII goes to the cells of the row at once.\<close>

definition ascii_run :: "byte list \<Rightarrow> screen \<Rightarrow> (nat \<times> screen) option" where
  "ascii_run run s =
     (let g = active_grid s
      in if run = [] \<or> gd_right g < pos_col (gd_pos g) then Some (0, s)
         else (let p = gd_pos g; n = min (length run) (gd_right g + 1 - pos_col p); (st, s) = style_id s
               in map_option
                    (\<lambda>g. (n, (put_grid (col_inc n g) s)\<lparr>sn_last_char := Some (unat (run ! (n - 1))), sn_placeholder_marks := 0\<rparr>))
                    (write_ascii_row p (take n run) st (active_grid s))))"

function text_run_on :: "(nat \<Rightarrow> nat option) \<Rightarrow> byte list \<Rightarrow> screen \<Rightarrow> screen option" where
  "text_run_on cw [] s = Some s"
| "text_run_on cw (b # bs) s =
     (let k = max 1 (utf8_len b); c = code_point (take k (b # bs)); left = drop k (b # bs)
      in case put_char cw c s of
           None \<Rightarrow> None
         | Some s \<Rightarrow>
             if \<not> (0x20 \<le> c \<and> c \<le> 0x7E) \<or> md_insert (sn_modes s) \<or> gl_set s \<noteq> AsciiSet then text_run_on cw left s
             else (case ascii_run (takeWhile print_byte left) s of
                     None \<Rightarrow> None
                   | Some (n, s) \<Rightarrow> text_run_on cw (drop n left) s))"
  by pat_completeness auto
termination
  by (relation "measure (\<lambda>(cw, bs, s). length bs)") auto

declare text_run_on.simps(2) [simp del]

text \<open>REP.\<close>

definition repeat_last :: "(nat \<Rightarrow> nat option) \<Rightarrow> nat \<Rightarrow> screen \<Rightarrow> screen option" where
  "repeat_last cw n s =
     (case sn_last_char s of
        None \<Rightarrow> Some s
      | Some c \<Rightarrow>
          times_opt (min (max n 1) (gd_width (active_grid s)))
            (write_new cw c (max (unwrap_or 1 (scalar_width cw c)) 1)) s)"

end
