(* ===== verification/Term_Csi.thy ===== *)
theory Term_Csi
  imports Term_Screen
begin

text \<open>
  Control sequences as they act on a screen: modes (\<open>src/src/term/screen/modes.rs\<close>), SGR
  (\<open>src/src/term/screen/sgr.rs\<close>), the flag stack of the kitty keyboard protocol
  (\<open>src/src/term/screen/keyboard.rs\<close>), and the dispatch (\<open>src/src/term/screen/csi.rs\<close>).
\<close>

section \<open>Parameters\<close>

definition get16 :: "nat \<Rightarrow> nat \<Rightarrow> params \<Rightarrow> nat" where
  "get16 i d p = min (get_param i d p) u16_max"

definition screen_reply :: "byte list \<Rightarrow> screen \<Rightarrow> screen" where
  "screen_reply bs = emit_event (Reply bs)"

abbreviation with_modes :: "(modes \<Rightarrow> modes) \<Rightarrow> screen \<Rightarrow> screen" where
  "with_modes f s \<equiv> s\<lparr>sn_modes := f (sn_modes s)\<rparr>"

section \<open>The cursor and the screens\<close>

definition save_cursor :: "screen \<Rightarrow> screen" where
  "save_cursor s =
     (at_grid grid_save_cursor s)\<lparr>sn_saved_style := sn_style s, sn_modes := (sn_modes s)\<lparr>md_alt_saved_cursor := True\<rparr>\<rparr>"

definition restore_cursor :: "screen \<Rightarrow> screen" where
  "restore_cursor s = (at_grid grid_restore_cursor s)\<lparr>sn_style := with_link (st_link (sn_style s)) (sn_saved_style s)\<rparr>"

definition enter_alternate_grid :: "(nat \<Rightarrow> nat option) \<Rightarrow> bool \<Rightarrow> screen \<Rightarrow> screen option" where
  "enter_alternate_grid cw clear s =
     (let s = s\<lparr>sn_grid := set_scrollback cw 0 (sn_grid s)\<rparr>;
          s = (if md_alt_screen (sn_modes s) then s
               else s\<lparr>sn_modes := (sn_modes s)\<lparr>md_alt_screen := True\<rparr>, sn_kitty := sn_alt_kitty s, sn_alt_kitty := sn_kitty s\<rparr>)
      in if clear
         then (let (st, g) = intern_style style_default (sn_alt_grid s); g = snd (remove_placements (\<lambda>_. True) (erase_all st g))
               in map_option (\<lambda>g. s\<lparr>sn_alt_grid := g\<rparr>) (set_pos (pos_at 0 0) g))
         else Some s)"

definition exit_alternate_grid :: "screen \<Rightarrow> screen" where
  "exit_alternate_grid s =
     (if md_alt_screen (sn_modes s)
      then s\<lparr>sn_modes := (sn_modes s)\<lparr>md_alt_screen := False\<rparr>, sn_kitty := sn_alt_kitty s, sn_alt_kitty := sn_kitty s\<rparr>
      else s)"

definition report_size_inband :: "screen \<Rightarrow> screen" where
  "report_size_inband s =
     (let g = sn_grid s
      in screen_reply (inband_resize (gd_height g) (gd_width g) (gd_height g * snd (sn_cell_pixels s))
                  (gd_width g * fst (sn_cell_pixels s))) s)"

text \<open>DECSTR.\<close>

definition plain_grid :: "nat \<Rightarrow> nat \<Rightarrow> grid \<Rightarrow> grid option" where
  "plain_grid height width g =
     do { g \<leftarrow> set_scroll_region 0 (height - 1) g; g \<leftarrow> set_margins 0 (width - 1) g; set_origin_mode False g }"

definition soft_reset :: "screen \<Rightarrow> screen option" where
  "soft_reset s =
     (let width = gd_width (sn_grid s); height = gd_height (sn_grid s);
          s = s\<lparr>sn_modes := modes_default\<lparr>md_alt_screen := md_alt_screen (sn_modes s)\<rparr>, sn_style := style_default,
                sn_saved_style := style_default, sn_link := None, sn_link_ids := (None, None),
                sn_cursor_style := DefaultCursor, sn_charsets := replicate 4 AsciiSet, sn_gl := 0,
                sn_single_shift := None, sn_mouse_mode := MouseNone, sn_mouse_encoding := EncDefault\<rparr>
      in do {
           g \<leftarrow> plain_grid height width (sn_grid s);
           a \<leftarrow> plain_grid height width (sn_alt_grid s);
           on_grid (set_pos (gd_pos g)) (s\<lparr>sn_grid := g, sn_alt_grid := a\<rparr>)
         })"

section \<open>Modes\<close>

definition set_ansi_mode :: "nat \<Rightarrow> bool \<Rightarrow> screen \<Rightarrow> screen" where
  "set_ansi_mode mode on s =
     (if mode = 2 then with_modes (\<lambda>m. m\<lparr>md_keyboard_locked := on\<rparr>) s
      else if mode = 4 then with_modes (\<lambda>m. m\<lparr>md_insert := on\<rparr>) s
      else if mode = 20 then with_modes (\<lambda>m. m\<lparr>md_newline := on\<rparr>) s
      else s)"

definition set_mouse_mode :: "mouse_mode \<Rightarrow> bool \<Rightarrow> screen \<Rightarrow> screen" where
  "set_mouse_mode m on s =
     (if on then s\<lparr>sn_mouse_mode := m\<rparr> else if sn_mouse_mode s = m then s\<lparr>sn_mouse_mode := MouseNone\<rparr> else s)"

definition set_mouse_encoding :: "mouse_encoding \<Rightarrow> bool \<Rightarrow> screen \<Rightarrow> screen" where
  "set_mouse_encoding m on s =
     (if on then s\<lparr>sn_mouse_encoding := m\<rparr> else if sn_mouse_encoding s = m then s\<lparr>sn_mouse_encoding := EncDefault\<rparr> else s)"

text \<open>The private modes that are flags, and those that act on a grid.\<close>

definition set_dec_flag :: "nat \<Rightarrow> bool \<Rightarrow> screen \<Rightarrow> screen" where
  "set_dec_flag mode on s =
     (if mode = 1 then with_modes (\<lambda>m. m\<lparr>md_app_cursor := on\<rparr>) s
      else if mode = 5 then with_modes (\<lambda>m. m\<lparr>md_reverse_video := on\<rparr>) s
      else if mode = 7 then with_modes (\<lambda>m. m\<lparr>md_autowrap := on\<rparr>) s
      else if mode = 9 then set_mouse_mode MousePress on s
      else if mode = 12 then with_modes (\<lambda>m. m\<lparr>md_cursor_blink := on\<rparr>) s
      else if mode = 25 then with_modes (\<lambda>m. m\<lparr>md_hide_cursor := \<not> on\<rparr>) s
      else if mode = 66 then with_modes (\<lambda>m. m\<lparr>md_app_keypad := on\<rparr>) s
      else if mode = 1000 then set_mouse_mode MousePressRelease on s
      else if mode = 1002 then set_mouse_mode MouseButtonMotion on s
      else if mode = 1003 then set_mouse_mode MouseAnyMotion on s
      else if mode = 1004 then with_modes (\<lambda>m. m\<lparr>md_focus_report := on\<rparr>) s
      else if mode = 1005 then set_mouse_encoding EncUtf8 on s
      else if mode = 1006 then set_mouse_encoding EncSgr on s
      else if mode = 1007 then with_modes (\<lambda>m. m\<lparr>md_alt_scroll := on\<rparr>) s
      else if mode = 1015 then set_mouse_encoding EncUrxvt on s
      else if mode = 1016 then set_mouse_encoding EncSgrPixels on s
      else if mode = 1034 then with_modes (\<lambda>m. m\<lparr>md_meta_sends_esc := on\<rparr>) s
      else if mode = 2004 then with_modes (\<lambda>m. m\<lparr>md_bracketed_paste := on\<rparr>) s
      else if mode = 2026 then with_modes (\<lambda>m. m\<lparr>md_sync := on\<rparr>) s
      else if mode = 2027 then with_modes (\<lambda>m. m\<lparr>md_grapheme_clusters := on\<rparr>) s
      else if mode = 2048
      then (let s = with_modes (\<lambda>m. m\<lparr>md_inband_resize := on\<rparr>) s in if on then report_size_inband s else s)
      else s)"

definition set_dec_mode :: "(nat \<Rightarrow> nat option) \<Rightarrow> nat \<Rightarrow> bool \<Rightarrow> screen \<Rightarrow> screen option" where
  "set_dec_mode cw mode on s =
     (if mode = 6 then on_grid (set_origin_mode on) s
      else if mode = 69
      then (let s = with_modes (\<lambda>m. m\<lparr>md_margins := on\<rparr>) s
            in if on then Some s else on_grid (\<lambda>g. set_margins 0 (gd_width g - 1) g) s)
      else if mode = 47 \<or> mode = 1047
      then (if on then enter_alternate_grid cw False s else Some (exit_alternate_grid s))
      else if mode = 1048 then Some (if on then save_cursor s else restore_cursor s)
      else if mode = 1049
      then (if on then enter_alternate_grid cw True (save_cursor s) else Some (restore_cursor (exit_alternate_grid s)))
      else Some (set_dec_flag mode on s))"

definition set_modes :: "(nat \<Rightarrow> nat option) \<Rightarrow> params \<Rightarrow> screen \<Rightarrow> screen option" where
  "set_modes cw p s =
     fold_opt
       (\<lambda>i s. if is_sub i p then Some s
              else case get_opt i p of
                None \<Rightarrow> Some s
              | Some mode \<Rightarrow>
                  if p_prefix p = 0x3F then set_dec_mode cw mode (p_final p = 0x68) s
                  else Some (set_ansi_mode mode (p_final p = 0x68) s))
       [0..<p_len p] s"

text \<open>DECRQM: 0 is not recognized, 1 set, 2 reset, 3 and 4 permanently so.\<close>

definition mode_state :: "bool \<Rightarrow> nat" where
  "mode_state on = (if on then 1 else 2)"

definition ansi_mode_state :: "nat \<Rightarrow> screen \<Rightarrow> nat" where
  "ansi_mode_state mode s =
     (let m = sn_modes s
      in if mode = 2 then mode_state (md_keyboard_locked m) else if mode = 4 then mode_state (md_insert m)
         else if mode = 20 then mode_state (md_newline m) else if mode = 34 then 4 else 0)"

definition dec_mode_state :: "nat \<Rightarrow> screen \<Rightarrow> nat" where
  "dec_mode_state mode s =
     (let m = sn_modes s
      in if mode = 1 then mode_state (md_app_cursor m)
         else if mode = 2 then 3
         else if mode \<in> {3, 4, 8} then 4
         else if mode = 5 then mode_state (md_reverse_video m)
         else if mode = 6 then mode_state (gd_origin (active_grid s))
         else if mode = 7 then mode_state (md_autowrap m)
         else if mode = 9 then mode_state (sn_mouse_mode s = MousePress)
         else if mode = 12 then mode_state (md_cursor_blink m)
         else if mode = 25 then mode_state (\<not> md_hide_cursor m)
         else if mode = 66 then mode_state (md_app_keypad m)
         else if mode = 67 then 4
         else if mode = 69 then mode_state (md_margins m)
         else if mode \<in> {47, 1047, 1049} then mode_state (md_alt_screen m)
         else if mode = 1048 then mode_state (md_alt_saved_cursor m)
         else if mode = 1000 then mode_state (sn_mouse_mode s = MousePressRelease)
         else if mode = 1001 then 4
         else if mode = 1002 then mode_state (sn_mouse_mode s = MouseButtonMotion)
         else if mode = 1003 then mode_state (sn_mouse_mode s = MouseAnyMotion)
         else if mode = 1004 then mode_state (md_focus_report m)
         else if mode = 1005 then mode_state (sn_mouse_encoding s = EncUtf8)
         else if mode = 1006 then mode_state (sn_mouse_encoding s = EncSgr)
         else if mode = 1007 then mode_state (md_alt_scroll m)
         else if mode = 1015 then mode_state (sn_mouse_encoding s = EncUrxvt)
         else if mode = 1016 then mode_state (sn_mouse_encoding s = EncSgrPixels)
         else if mode = 1034 then mode_state (md_meta_sends_esc m)
         else if mode = 2004 then mode_state (md_bracketed_paste m)
         else if mode = 2026 then mode_state (md_sync m)
         else if mode = 2027 then mode_state (md_grapheme_clusters m)
         else if mode = 2048 then mode_state (md_inband_resize m)
         else 0)"

definition request_mode :: "params \<Rightarrow> screen \<Rightarrow> screen" where
  "request_mode p s =
     (case get_opt 0 p of
        None \<Rightarrow> s
      | Some mode \<Rightarrow>
          (let dec = (p_prefix p = 0x3F); state = (if dec then dec_mode_state mode s else ansi_mode_state mode s)
           in screen_reply (decrqm_reply dec mode state) s))"

text \<open>The modes as the bits of a snapshot: those that differ from power-on.\<close>

definition mode_flags :: "modes \<Rightarrow> bool list" where
  "mode_flags m =
     [md_app_keypad m, md_app_cursor m, md_hide_cursor m, md_alt_screen m, md_bracketed_paste m, md_autowrap m,
      md_newline m, md_focus_report m, md_alt_scroll m, md_sync m, md_grapheme_clusters m, md_inband_resize m,
      md_reverse_video m, md_cursor_blink m, md_margins m, md_alt_saved_cursor m, md_meta_sends_esc m,
      md_keyboard_locked m]"

definition set_mode_flags :: "bool list \<Rightarrow> modes \<Rightarrow> modes" where
  "set_mode_flags f m =
     m\<lparr>md_app_keypad := f ! 0, md_app_cursor := f ! 1, md_hide_cursor := f ! 2, md_alt_screen := f ! 3,
       md_bracketed_paste := f ! 4, md_autowrap := f ! 5, md_newline := f ! 6, md_focus_report := f ! 7,
       md_alt_scroll := f ! 8, md_sync := f ! 9, md_grapheme_clusters := f ! 10, md_inband_resize := f ! 11,
       md_reverse_video := f ! 12, md_cursor_blink := f ! 13, md_margins := f ! 14, md_alt_saved_cursor := f ! 15,
       md_meta_sends_esc := f ! 16, md_keyboard_locked := f ! 17\<rparr>"

definition mode_bit :: "nat \<Rightarrow> nat" where
  "mode_bit i = (if i < 5 then i else i + 3)"

definition modes_to_bits :: "modes \<Rightarrow> 32 word" where
  "modes_to_bits m =
     fold (\<lambda>i bits. if mode_flags m ! i \<noteq> mode_flags modes_default ! i then set_bit (mode_bit i) bits else bits) [0..<18] 0"

definition modes_from_bits :: "32 word \<Rightarrow> modes" where
  "modes_from_bits bits =
     set_mode_flags (map (\<lambda>i. mode_flags modes_default ! i \<noteq> bit bits (mode_bit i)) [0..<18]) modes_default"

section \<open>SGR\<close>

definition reset_style :: "style \<Rightarrow> style" where
  "reset_style st = with_link (st_link st) style_default"

definition byte_param :: "nat \<Rightarrow> params \<Rightarrow> byte" where
  "byte_param i p = of_nat (min (get_param i 0 p) 255)"

definition sgr_color :: "params \<Rightarrow> nat \<Rightarrow> color \<times> nat" where
  "sgr_color p i =
     (let kind = get_param (i + 1) 2 p
      in if kind = 2
         then (let i = (if is_sub (i + 2) p \<and> get_opt (i + 2) p = None then i + 1 else i)
               in (Rgb (byte_param (i + 2) p) (byte_param (i + 3) p) (byte_param (i + 4) p), i + 5))
         else if kind = 5 then (Idx (byte_param (i + 2) p), i + 3)
         else (DefaultColor, i + 2))"

text \<open>An attribute that takes no more than the next parameter.\<close>

definition sgr_attr :: "params \<Rightarrow> nat \<Rightarrow> nat \<Rightarrow> style \<Rightarrow> style" where
  "sgr_attr p i n st =
     (if n = 0 then reset_style st
      else if n = 1 then set_flag attr_bold True st
      else if n = 2 then set_flag attr_dim True st
      else if n = 3 then set_flag attr_italic True st
      else if n = 4
      then set_underline (if is_sub (i + 1) p then underline_of (min (get_param (i + 1) 1 p) 255) else SingleUnderline) st
      else if n = 5 \<or> n = 6 then set_flag attr_blink True st
      else if n = 7 then set_flag attr_inverse True st
      else if n = 8 then set_flag attr_hidden True st
      else if n = 9 then set_flag attr_strike True st
      else if n = 21 then set_underline DoubleUnderline st
      else if n = 22 then set_flag attr_dim False (set_flag attr_bold False st)
      else if n = 23 then set_flag attr_italic False st
      else if n = 24 then set_underline NoUnderline st
      else if n = 25 then set_flag attr_blink False st
      else if n = 27 then set_flag attr_inverse False st
      else if n = 28 then set_flag attr_hidden False st
      else if n = 29 then set_flag attr_strike False st
      else if 30 \<le> n \<and> n \<le> 37 then st\<lparr>st_fg := Idx (of_nat (n - 30))\<rparr>
      else if n = 39 then st\<lparr>st_fg := DefaultColor\<rparr>
      else if 40 \<le> n \<and> n \<le> 47 then st\<lparr>st_bg := Idx (of_nat (n - 40))\<rparr>
      else if n = 49 then st\<lparr>st_bg := DefaultColor\<rparr>
      else if n = 53 then set_flag attr_overline True st
      else if n = 55 then set_flag attr_overline False st
      else if n = 59 then st\<lparr>st_ul := DefaultColor\<rparr>
      else if 90 \<le> n \<and> n \<le> 97 then st\<lparr>st_fg := Idx (of_nat (n - 90 + 8))\<rparr>
      else if 100 \<le> n \<and> n \<le> 107 then st\<lparr>st_bg := Idx (of_nat (n - 100 + 8))\<rparr>
      else st)"

text \<open>One turn of the loop: the style and the index it goes on at.\<close>

definition sgr_step :: "params \<Rightarrow> nat \<Rightarrow> style \<Rightarrow> style \<times> nat" where
  "sgr_step p i st =
     (if is_sub i p then (st, i + 1)
      else
        (let n = get_param i 0 p; (color, next) = sgr_color p i
         in if n = 38 then (st\<lparr>st_fg := color\<rparr>, next)
            else if n = 48 then (st\<lparr>st_bg := color\<rparr>, next)
            else if n = 58 then (st\<lparr>st_ul := color\<rparr>, next)
            else (sgr_attr p i n st, i + 1)))"

lemma sgr_color_next: "i < snd (sgr_color p i)"
  by (simp add: sgr_color_def Let_def)

lemma sgr_step_next: "i < snd (sgr_step p i st)"
  using sgr_color_next [of i p] by (auto simp: sgr_step_def Let_def case_prod_beta)

function sgr_loop :: "params \<Rightarrow> nat \<Rightarrow> style \<Rightarrow> style" where
  "sgr_loop p i st = (if p_len p \<le> i then st else sgr_loop p (snd (sgr_step p i st)) (fst (sgr_step p i st)))"
  by pat_completeness auto
termination
  by (relation "measure (\<lambda>(p, i, st). p_len p - i)") (auto intro!: diff_less_mono2 sgr_step_next)

declare sgr_loop.simps [simp del]

definition sgr_style :: "params \<Rightarrow> style \<Rightarrow> style" where
  "sgr_style p st = (if p_len p = 0 then reset_style st else sgr_loop p 0 st)"

section \<open>The kitty keyboard protocol\<close>

definition kitty_all_flags :: byte where "kitty_all_flags = 31"

definition max_depth :: nat where "max_depth = 16"

definition kitty_active :: "byte list \<Rightarrow> byte" where
  "kitty_active flags = (if flags = [] then 0 else List.last flags)"

definition kitty_push :: "byte \<Rightarrow> byte list \<Rightarrow> byte list" where
  "kitty_push f flags = (if max_depth \<le> length flags then tl flags else flags) @ [f AND kitty_all_flags]"

definition kitty_pop :: "nat \<Rightarrow> byte list \<Rightarrow> byte list" where
  "kitty_pop n flags = take (length flags - max n 1) flags"

definition kitty_set :: "byte \<Rightarrow> nat \<Rightarrow> byte list \<Rightarrow> byte list" where
  "kitty_set f mode flags =
     (let f = f AND kitty_all_flags; flags = (if flags = [] then [0] else flags); top = List.last flags
      in butlast flags @ [if mode = 2 then top OR f else if mode = 3 then top AND NOT f else f])"

definition kitty_keyboard :: "params \<Rightarrow> screen \<Rightarrow> screen" where
  "kitty_keyboard p s =
     (if p_prefix p = 0x3F then screen_reply (kitty_flags_reply (kitty_active (sn_kitty s))) s
      else if p_prefix p = 0x3E then s\<lparr>sn_kitty := kitty_push (byte_param 0 p) (sn_kitty s)\<rparr>
      else if p_prefix p = 0x3C then s\<lparr>sn_kitty := kitty_pop (max (get_param 0 1 p) 1) (sn_kitty s)\<rparr>
      else if p_prefix p = 0x3D then s\<lparr>sn_kitty := kitty_set (byte_param 0 p) (get_param 1 1 p) (sn_kitty s)\<rparr>
      else s)"

section \<open>Erasing and reports\<close>

definition erase_display :: "nat \<Rightarrow> screen \<Rightarrow> screen option" where
  "erase_display mode s =
     (let (st, s) = style_id s
      in if mode = 0 then on_grid (erase_all_forward st) s
         else if mode = 1 then on_grid (erase_all_backward st) s
         else if mode = 2 then Some (at_grid (erase_all st) s)
         else if mode = 3 then Some (at_grid clear_history s)
         else Some s)"

definition erase_line :: "nat \<Rightarrow> screen \<Rightarrow> screen option" where
  "erase_line mode s =
     (let (st, s) = style_id s
      in if mode = 0 then on_grid (erase_row_forward st) s
         else if mode = 1 then on_grid (erase_row_backward st) s
         else if mode = 2 then on_grid (erase_row st) s
         else Some s)"

definition cursor_report_pos :: "screen \<Rightarrow> nat \<times> nat" where
  "cursor_report_pos s =
     (let g = active_grid s; r = pos_row (gd_pos g); c = min (pos_col (gd_pos g)) (gd_width g - 1)
      in if gd_origin g then (r - gd_top g, c - gd_left g) else (r, c))"

definition window_op :: "params \<Rightarrow> screen \<Rightarrow> screen" where
  "window_op p s =
     (let op = get_param 0 0 p; width = gd_width (active_grid s); height = gd_height (active_grid s);
          (cw, ch) = sn_cell_pixels s
      in if op = 14 then screen_reply (window_report 4 (height * ch) (width * cw)) s
         else if op = 15 then screen_reply (window_report 5 (height * ch) (width * cw)) s
         else if op = 16 then screen_reply (window_report 6 ch cw) s
         else if op = 18 then screen_reply (window_report 8 height width) s
         else if op = 19 then screen_reply (window_report 9 height width) s
         else if op = 20 \<or> op = 21
         then screen_reply ([0x1B, 0x5D, if op = 20 then 0x4C else 0x6C] @ sn_title s @ st_bytes) s
         else if op = 22
         then (if length (sn_title_stack s) < 16 then s\<lparr>sn_title_stack := sn_title_stack s @ [sn_title s]\<rparr> else s)
         else if op = 23
         then (if sn_title_stack s = [] then s
               else s\<lparr>sn_title := List.last (sn_title_stack s), sn_title_stack := butlast (sn_title_stack s)\<rparr>)
         else s)"

definition graphics_attributes :: "params \<Rightarrow> screen \<Rightarrow> screen" where
  "graphics_attributes p s =
     (let item = get_param 0 0 p; action = get_param 1 0 p
      in if item = 1 \<and> (action = 1 \<or> action = 4) then screen_reply (csi_bytes ''?1;0;256S'') s
         else if item = 2 \<and> (action = 1 \<or> action = 4) then screen_reply (csi_bytes ''?2;0;4096;4096S'') s
         else if item = 3 then screen_reply (csi_bytes ''?3;3;0S'') s
         else s)"

definition dsr :: "nat \<Rightarrow> screen \<Rightarrow> screen" where
  "dsr n s =
     (if n = 5 then screen_reply (csi_bytes ''0n'') s
      else if n = 6 then screen_reply (cpr (fst (cursor_report_pos s)) (snd (cursor_report_pos s))) s
      else s)"

definition dec_dsr :: "nat \<Rightarrow> screen \<Rightarrow> screen" where
  "dec_dsr n s =
     (if n = 6 then screen_reply (decxcpr (fst (cursor_report_pos s)) (snd (cursor_report_pos s))) s
      else if n = 15 then screen_reply (csi_bytes ''?13n'') s
      else if n = 25 then screen_reply (csi_bytes ''?21n'') s
      else if n = 26 then screen_reply (csi_bytes ''?27;1;0;0n'') s
      else if n = 53 \<or> n = 55 then screen_reply (csi_bytes ''?53n'') s
      else s)"

section \<open>The dispatch\<close>

text \<open>SL and SR: columns leave or enter at the left margin of the region.\<close>

definition shift_columns :: "(grid \<Rightarrow> grid option) \<Rightarrow> grid \<Rightarrow> grid option" where
  "shift_columns f g =
     map_option (set_pos_absolute (gd_pos g)) (f (set_pos_absolute (pos_at (gd_top g) (gd_left g)) g))"

definition set_region :: "params \<Rightarrow> grid \<Rightarrow> grid option" where
  "set_region p g =
     set_scroll_region (max (get16 0 1 p) 1 - 1)
       ((case get_opt 1 p of Some _ \<Rightarrow> max (get16 1 1 p) 1 | None \<Rightarrow> gd_height g) - 1) g"

definition set_sides :: "params \<Rightarrow> grid \<Rightarrow> grid option" where
  "set_sides p g =
     set_margins (max (get16 0 1 p) 1 - 1) ((case get_opt 1 p of Some _ \<Rightarrow> max (get16 1 1 p) 1 | None \<Rightarrow> gd_width g) - 1) g"

text \<open>Sequences without prefix and intermediate that act on the grid; \<open>None\<close> for another final byte.\<close>

definition csi_grid :: "(nat \<Rightarrow> nat option) \<Rightarrow> nat \<Rightarrow> params \<Rightarrow> (grid \<Rightarrow> grid option) option" where
  "csi_grid cw st p =
     (let f = p_final p; n = max (get16 0 1 p) 1
      in if f = 0x40 then Some (grid_insert_cells (get16 0 1 p) st)
         else if f = 0x41 then Some (Some \<circ> row_dec_clamp n)
         else if f = 0x42 then Some (Some \<circ> row_inc_clamp n)
         else if f = 0x43 then Some (Some \<circ> col_inc_clamp n)
         else if f = 0x44 then Some (Some \<circ> col_dec n)
         else if f = 0x45 then Some (col_set_to 0 \<circ> row_inc_clamp n)
         else if f = 0x46 then Some (col_set_to 0 \<circ> row_dec_clamp n)
         else if f = 0x47 \<or> f = 0x60 then Some (col_set_to (n - 1))
         else if f = 0x48 \<or> f = 0x66 then Some (set_pos (pos_at (n - 1) (max (get16 1 1 p) 1 - 1)))
         else if f = 0x49 then Some (tab_forward n)
         else if f = 0x4C then Some (insert_lines n st)
         else if f = 0x4D then Some (delete_lines cw n st)
         else if f = 0x50 then Some (grid_delete_cells n st)
         else if f = 0x53 then Some (scroll_up cw n st)
         else if f = 0x54 then Some (if p_len p \<le> 1 then scroll_down n st else Some)
         else if f = 0x58 then Some (erase_cells n st)
         else if f = 0x5A then Some (tab_back n)
         else if f = 0x64 then Some (Some \<circ> row_set_to (n - 1))
         else if f = 0x65 then Some (Some \<circ> row_inc_clamp n)
         else if f = 0x67
         then Some (if get_param 0 0 p = 0 then put_tab False
                    else if get_param 0 0 p = 3 then Some \<circ> clear_all_tabs else Some)
         else if f = 0x72 then Some (set_region p)
         else None)"

text \<open>The others without prefix and intermediate.\<close>

definition csi_screen :: "(nat \<Rightarrow> nat option) \<Rightarrow> params \<Rightarrow> screen \<Rightarrow> screen option" where
  "csi_screen cw p s =
     (let f = p_final p; n = max (get16 0 1 p) 1
      in if f = 0x4A then erase_display (get16 0 0 p) s
         else if f = 0x4B then erase_line (get16 0 0 p) s
         else if f = 0x62 then repeat_last cw n s
         else if f = 0x63 then Some (screen_reply da1_reply s)
         else if f = 0x68 \<or> f = 0x6C then set_modes cw p s
         else if f = 0x6D then Some (s\<lparr>sn_style := sgr_style p (sn_style s)\<rparr>)
         else if f = 0x6E then Some (dsr (get_param 0 0 p) s)
         else if f = 0x73
         then (if md_margins (sn_modes s) then on_grid (set_sides p) s else Some (save_cursor s))
         else if f = 0x75 \<and> p_len p = 0 then Some (restore_cursor s)
         else if f = 0x74 then Some (window_op p s)
         else Some s)"

text \<open>Those with a prefix.\<close>

definition csi_prefixed :: "(nat \<Rightarrow> nat option) \<Rightarrow> params \<Rightarrow> screen \<Rightarrow> screen option" where
  "csi_prefixed cw p s =
     (let pre = p_prefix p; f = p_final p
      in if pre = 0x3F \<and> f = 0x4A then erase_display (get16 0 0 p) s
         else if pre = 0x3F \<and> f = 0x4B then erase_line (get16 0 0 p) s
         else if pre = 0x3F \<and> f = 0x53 then Some (graphics_attributes p s)
         else if pre = 0x3E \<and> f = 0x63 then Some (screen_reply da2_reply s)
         else if pre = 0x3D \<and> f = 0x63 then Some (screen_reply da3_reply s)
         else if pre = 0x3F \<and> (f = 0x68 \<or> f = 0x6C) then set_modes cw p s
         else if pre = 0x3F \<and> f = 0x6E then Some (dec_dsr (get_param 0 0 p) s)
         else if pre = 0x3E \<and> f = 0x71 then Some (screen_reply xtversion_reply s)
         else if pre \<in> {0x3F, 0x3E, 0x3C, 0x3D} \<and> f = 0x75 then Some (kitty_keyboard p s)
         else Some s)"

text \<open>And those with an intermediate byte.\<close>

definition csi_inter :: "nat \<Rightarrow> params \<Rightarrow> screen \<Rightarrow> screen option" where
  "csi_inter st p s =
     (let inter = p_inter p; f = p_final p; n = max (get16 0 1 p) 1
      in if (p_prefix p = 0 \<or> p_prefix p = 0x3F) \<and> inter = 0x24 \<and> f = 0x70 then Some (request_mode p s)
         else if p_prefix p \<noteq> 0 then Some s
         else if inter = 0x20 \<and> f = 0x40 then on_grid (shift_columns (delete_columns n st)) s
         else if inter = 0x20 \<and> f = 0x41 then on_grid (shift_columns (insert_columns n st)) s
         else if inter = 0x21 \<and> f = 0x70 then soft_reset s
         else if inter = 0x20 \<and> f = 0x71
         then Some (s\<lparr>sn_cursor_style :=
                (let n = get16 0 0 p
                 in if n = 1 then BlinkingBlock else if n = 2 then SteadyBlock else if n = 3 then BlinkingUnderline
                    else if n = 4 then SteadyUnderline else if n = 5 then BlinkingBar else if n = 6 then SteadyBar
                    else DefaultCursor)\<rparr>)
         else if inter = 0x27 \<and> f = 0x7D then on_grid (insert_columns n st) s
         else if inter = 0x27 \<and> f = 0x7E then on_grid (delete_columns n st) s
         else if inter = 0x23 \<and> (f = 0x7B \<or> f = 0x70)
         then Some (if length (sn_sgr_stack s) < 16 then s\<lparr>sn_sgr_stack := sn_sgr_stack s @ [sn_style s]\<rparr> else s)
         else if inter = 0x23 \<and> (f = 0x7D \<or> f = 0x71)
         then Some (if sn_sgr_stack s = [] then s
                    else s\<lparr>sn_style := with_link (st_link (sn_style s)) (List.last (sn_sgr_stack s)),
                           sn_sgr_stack := butlast (sn_sgr_stack s)\<rparr>)
         else Some s)"

definition csi :: "(nat \<Rightarrow> nat option) \<Rightarrow> params \<Rightarrow> screen \<Rightarrow> screen option" where
  "csi cw p s =
     (if p_invalid p then Some s
      else (let (st, s) = style_id s
            in if p_inter p \<noteq> 0 then csi_inter st p s
               else if p_prefix p \<noteq> 0 then csi_prefixed cw p s
               else case csi_grid cw st p of Some f \<Rightarrow> on_grid f s | None \<Rightarrow> csi_screen cw p s))"

end
