(* ===== verification/Term_Strings.thy ===== *)
theory Term_Strings
  imports Term_Csi
begin

text \<open>
  Control strings as they act on a screen: operating system commands (\<open>src/src/term/screen/osc.rs\<close>),
  device control strings (\<open>src/src/term/screen/dcs.rs\<close>) and the kitty graphics protocol
  (\<open>src/src/term/screen/graphics.rs\<close>).
\<close>

section \<open>Operating system commands\<close>

definition osc_hyperlink :: "byte list \<Rightarrow> screen \<Rightarrow> screen" where
  "osc_hyperlink pt s =
     (let (params, uri) = (case split_once_byte 0x3B pt of Some r \<Rightarrow> r | None \<Rightarrow> ([], pt));
          pairs = List.map_filter (split_once_byte 0x3D) (split_byte 0x3A params)
      in set_link (if uri = [] then None else Some \<lparr>lk_uri = uri, lk_id = map_of pairs (bytes_of ''id'')\<rparr>) s)"

text \<open>One channel of a color, of one to four hexadecimal digits.\<close>

definition color_channel :: "byte list \<Rightarrow> byte option" where
  "color_channel part =
     (if part = [] \<or> 4 < length part then None
      else map_option (\<lambda>v. of_nat (v * 255 div (2 ^ (4 * length part) - 1))) (parse_unsigned 16 (2 ^ 32 - 1) part))"

fun strip_prefix_bytes :: "byte list \<Rightarrow> byte list \<Rightarrow> byte list option" where
  "strip_prefix_bytes [] s = Some s"
| "strip_prefix_bytes (p # ps) [] = None"
| "strip_prefix_bytes (p # ps) (b # bs) = (if b = p then strip_prefix_bytes ps bs else None)"

definition parse_color_spec :: "byte list \<Rightarrow> rgb option" where
  "parse_color_spec spec =
     (case strip_prefix_bytes [0x23] spec of
        Some hex \<Rightarrow>
          if length hex \<noteq> 6 then None
          else map_option (\<lambda>v. (of_nat (v div 2 ^ 16), of_nat (v div 2 ^ 8), of_nat v)) (parse_unsigned 16 (2 ^ 32 - 1) hex)
      | None \<Rightarrow>
          (case strip_prefix_bytes (bytes_of ''rgb:'') spec of
             None \<Rightarrow> None
           | Some rest \<Rightarrow>
               (case split_byte 0x2F rest of
                  r # g # b # _ \<Rightarrow>
                    do { r \<leftarrow> color_channel r; g \<leftarrow> color_channel g; b \<leftarrow> color_channel b; Some (r, g, b) }
                | _ \<Rightarrow> None)))"

text \<open>The specs of \<open>OSC 4\<close>, in pairs.\<close>

fun osc_palette :: "byte list list \<Rightarrow> screen \<Rightarrow> screen" where
  "osc_palette (i # spec # parts) s =
     osc_palette parts
       (case parse_unsigned 10 255 i of
          None \<Rightarrow> s
        | Some i \<Rightarrow>
            if spec = bytes_of ''?''
            then screen_reply (osc_color_reply 4 (Some (of_nat i)) (palette_idx (of_nat i) (sn_palette s))) s
            else (case parse_color_spec spec of
                    Some c \<Rightarrow> if i < 16 then s\<lparr>sn_palette := (sn_palette s)\<lparr>pl_ansi := (pl_ansi (sn_palette s))[i := c]\<rparr>\<rparr> else s
                  | None \<Rightarrow> s))"
| "osc_palette _ s = s"

definition reset_palette :: "byte list \<Rightarrow> palette \<Rightarrow> palette" where
  "reset_palette pt p =
     (let plain_cell = pl_ansi palette_dark
      in if pt = [] then p\<lparr>pl_ansi := plain_cell\<rparr>
         else p\<lparr>pl_ansi := fold (\<lambda>i ansi. if i < 16 then ansi[i := plain_cell ! i] else ansi)
                  (List.map_filter (parse_unsigned 10 255) (split_byte 0x3B pt)) (pl_ansi p)\<rparr>)"

definition dynamic_color :: "nat \<Rightarrow> screen \<Rightarrow> rgb" where
  "dynamic_color code s =
     (let p = sn_palette s
      in if code = 10 then unwrap_or (pl_fg p) (sn_dynamic_fg s)
         else if code = 11 then unwrap_or (pl_bg p) (sn_dynamic_bg s)
         else if code = 12 then unwrap_or (pl_fg p) (sn_dynamic_cursor s)
         else pl_fg p)"

definition set_dynamic_color :: "nat \<Rightarrow> rgb \<Rightarrow> screen \<Rightarrow> screen" where
  "set_dynamic_color code c s =
     (if code = 10 then s\<lparr>sn_dynamic_fg := Some c\<rparr> else if code = 11 then s\<lparr>sn_dynamic_bg := Some c\<rparr>
      else if code = 12 then s\<lparr>sn_dynamic_cursor := Some c\<rparr> else s)"

fun osc_dynamic_color :: "nat \<Rightarrow> byte list list \<Rightarrow> screen \<Rightarrow> screen" where
  "osc_dynamic_color code [] s = s"
| "osc_dynamic_color code (spec # specs) s =
     osc_dynamic_color (code + 1) specs
       (if spec = bytes_of ''?'' then screen_reply (osc_color_reply code None (dynamic_color code s)) s
        else case parse_color_spec spec of Some c \<Rightarrow> set_dynamic_color code c s | None \<Rightarrow> s)"

definition osc_clipboard :: "outside \<Rightarrow> byte list \<Rightarrow> screen \<Rightarrow> screen" where
  "osc_clipboard e pt s =
     (case split_once_byte 0x3B pt of
        None \<Rightarrow> s
      | Some (_, data) \<Rightarrow>
          if data = bytes_of ''?'' then s
          else case ou_base64 e True data of
                 None \<Rightarrow> s
               | Some bs \<Rightarrow> emit_event (SetClipboard (from_utf8_lossy bs)) s)"

definition osc_notify :: "byte list \<Rightarrow> screen \<Rightarrow> screen" where
  "osc_notify pt s =
     (let (what, rest) = (case split_once_byte 0x3B pt of Some r \<Rightarrow> r | None \<Rightarrow> (pt, []));
          (title, body) = (case split_once_byte 0x3B rest of Some r \<Rightarrow> r | None \<Rightarrow> (rest, []))
      in if what = bytes_of ''notify'' then emit_event (Notify title body) s else s)"

definition osc_code :: "outside \<Rightarrow> nat \<Rightarrow> byte list \<Rightarrow> screen \<Rightarrow> screen" where
  "osc_code e code pt s =
     (if code = 0 \<or> code = 2 then s\<lparr>sn_title := pt\<rparr>
      else if code = 4 then osc_palette (split_byte 0x3B pt) s
      else if code = 7 then s\<lparr>sn_cwd := Some pt\<rparr>
      else if code = 8 then osc_hyperlink pt s
      else if code = 9 then emit_event (Notify [] pt) s
      else if code \<in> {10, 11, 12, 17, 19} then osc_dynamic_color code (split_byte 0x3B pt) s
      else if code = 52 then osc_clipboard e pt s
      else if code = 104 then s\<lparr>sn_palette := reset_palette pt (sn_palette s)\<rparr>
      else if code = 110 then s\<lparr>sn_dynamic_fg := None\<rparr>
      else if code = 111 then s\<lparr>sn_dynamic_bg := None\<rparr>
      else if code = 112 then s\<lparr>sn_dynamic_cursor := None\<rparr>
      else if code = 777 then osc_notify pt s
      else s)"

definition osc :: "outside \<Rightarrow> byte list \<Rightarrow> screen \<Rightarrow> screen" where
  "osc e data s =
     (if \<not> from_utf8 data then s
      else (let (ps, pt) = (case split_once_byte 0x3B data of Some r \<Rightarrow> r | None \<Rightarrow> (data, []))
            in case parse_unsigned 10 (2 ^ 32 - 1) ps of None \<Rightarrow> s | Some code \<Rightarrow> osc_code e code pt s))"

section \<open>Queries in control strings\<close>

fun unhex :: "byte list \<Rightarrow> byte list option" where
  "unhex [] = Some []"
| "unhex [b] = None"
| "unhex (a # b # bs) =
     (if \<not> from_utf8 [a, b] then None
      else case parse_unsigned 16 255 [a, b] of
             None \<Rightarrow> None
           | Some v \<Rightarrow> map_option (\<lambda>vs. of_nat v # vs) (unhex bs))"

definition esc_str :: "string \<Rightarrow> byte list" where
  "esc_str t = 0x1B # bytes_of t"

definition termcap :: "byte list \<Rightarrow> byte list option" where
  "termcap name =
     map_of
       (map (\<lambda>(n, v). (bytes_of n, v))
         [(''TN'', bytes_of ''xterm-256color''), (''name'', bytes_of ''xterm-256color''), (''Co'', bytes_of ''256''),
          (''colors'', bytes_of ''256''), (''RGB'', bytes_of ''8/8/8''), (''Tc'', []),
          (''setrgbf'', esc_str ''[38:2::%p1%d:%p2%d:%p3%dm''), (''setrgbb'', esc_str ''[48:2::%p1%d:%p2%d:%p3%dm''),
          (''setaf'', esc_str ''[%?%p1%{8}%<%t3%p1%d%e%p1%{16}%<%t9%p1%{8}%-%d%e38;5;%p1%d%;m''),
          (''setab'', esc_str ''[%?%p1%{8}%<%t4%p1%d%e%p1%{16}%<%t10%p1%{8}%-%d%e48;5;%p1%d%;m''),
          (''Smulx'', esc_str ''[4:%p1%dm''),
          (''Setulc'', esc_str ''[58:2::%p1%{65536}%/%d:%p1%{256}%/%{255}%&%d:%p1%{255}%&%dm''), (''Su'', []),
          (''Sync'', esc_str ''[?2026%?%p1%{1}%-%tl%eh%;''), (''Ms'', esc_str '']52;%p1%s;%p2%s'' @ st_bytes),
          (''Se'', esc_str ''[ q''), (''Ss'', esc_str ''[%p1%d q''), (''Cs'', esc_str '']12;%p1%s'' @ st_bytes),
          (''Cr'', esc_str '']112'' @ st_bytes), (''smcup'', esc_str ''[?1049h'' @ esc_str ''[22;0;0t''),
          (''rmcup'', esc_str ''[?1049l'' @ esc_str ''[23;0;0t''), (''smkx'', esc_str ''[?1h'' @ esc_str ''=''),
          (''rmkx'', esc_str ''[?1l'' @ esc_str ''>''), (''kbs'', [0x7F]), (''kdch1'', esc_str ''[3~''),
          (''khome'', esc_str ''OH''), (''kend'', esc_str ''OF''), (''kcuu1'', esc_str ''OA''), (''kcud1'', esc_str ''OB''),
          (''kcuf1'', esc_str ''OC''), (''kcub1'', esc_str ''OD''), (''cols'', bytes_of ''80''), (''lines'', bytes_of ''24''),
          (''XF'', []), (''fsl'', []), (''tsl'', []), (''dsl'', []), (''bel'', [0x07]), (''u8'', esc_str ''[?%[;0123456789]c''),
          (''u7'', esc_str ''[6n''), (''u6'', esc_str ''[%i%d;%dR'')]) name"

definition xtgettcap_one :: "byte list \<Rightarrow> byte list" where
  "xtgettcap_one name =
     (case unhex name of
        None \<Rightarrow> []
      | Some decoded \<Rightarrow> if from_utf8 decoded then xtgettcap_reply name (termcap decoded) else [])"

definition xtgettcap :: "byte list \<Rightarrow> screen \<Rightarrow> screen" where
  "xtgettcap names s =
     (let out = concat (map xtgettcap_one (split_byte 0x3B names)) in if out = [] then s else screen_reply out s)"

fun cursor_style_code :: "cursor_style \<Rightarrow> nat" where
  "cursor_style_code DefaultCursor = 0"
| "cursor_style_code BlinkingBlock = 1"
| "cursor_style_code SteadyBlock = 2"
| "cursor_style_code BlinkingUnderline = 3"
| "cursor_style_code SteadyUnderline = 4"
| "cursor_style_code BlinkingBar = 5"
| "cursor_style_code SteadyBar = 6"

definition decrqss_payload :: "byte list \<Rightarrow> screen \<Rightarrow> byte list option" where
  "decrqss_payload what s =
     (let g = active_grid s
      in if what = bytes_of ''m'' then Some (sgr_full (sn_style s))
         else if what = bytes_of ''r'' then Some (numbers 0x3B [gd_top g + 1, gd_bottom g + 1] @ bytes_of ''r'')
         else if what = bytes_of ''s'' then Some (numbers 0x3B [gd_left g + 1, gd_right g + 1] @ bytes_of ''s'')
         else if what = bytes_of '' q'' then Some (decimal (cursor_style_code (sn_cursor_style s)) @ bytes_of '' q'')
         else if what = [0x22, 0x70] then Some (bytes_of ''64;1'' @ [0x22, 0x70])
         else if what = [0x22, 0x71] then Some (bytes_of ''0'' @ [0x22, 0x71])
         else None)"

definition decrqss :: "byte list \<Rightarrow> screen \<Rightarrow> screen" where
  "decrqss what s =
     (case decrqss_payload what s of
        Some payload \<Rightarrow> screen_reply (decrqss_reply True payload) s
      | None \<Rightarrow> screen_reply (decrqss_reply False []) s)"

section \<open>Images at the cursor\<close>

definition place_image :: "outside \<Rightarrow> image \<Rightarrow> command \<Rightarrow> bool \<Rightarrow> screen \<Rightarrow> screen option" where
  "place_image e im c cells s =
     (let src = src_resolve (cm_x c, cm_y c, cm_w c, cm_h c) (id_width (im_data im)) (id_height (im_data im));
          (cols, rows) = cell_size src (cm_cols c) (cm_rows c) (sn_cell_pixels s);
          place = \<lparr>pm_key = im_key im, pm_id = cm_placement c, pm_row = 0, pm_col = 0, pm_cols = cols, pm_rows = rows,
                   pm_src = src, pm_offset_x = min (cm_off_x c) u16_max, pm_offset_y = min (cm_off_y c) u16_max,
                   pm_z = cm_z c, pm_virtual = cm_unicode c, pm_cells = cells\<rparr>
      in if cm_unicode c
         then Some (at_grid (\<lambda>g. add_placement place
                (snd (remove_placements (\<lambda>p. pm_virtual p \<and> pm_key p = im_key im \<and> pm_id p = cm_placement c) g))) s)
         else
           (let (st, s) = style_id s
            in on_grid (\<lambda>g.
                 (let row = pos_row (gd_pos g); col = min (pos_col (gd_pos g)) (gd_width g - 1);
                      scroll = min (row + rows - gd_height g) row
                  in do {
                       g \<leftarrow> (if 0 < scroll then scroll_up (ou_width e) scroll st g else Some g);
                       let row = row - scroll;
                       let g = (if cm_placement c \<noteq> 0
                                then snd (remove_placements (\<lambda>p. pm_key p = im_key im \<and> pm_id p = cm_placement c \<and> \<not> pm_virtual p) g)
                                else g);
                       let g = add_placement (place\<lparr>pm_row := gd_row_base g + row, pm_col := col\<rparr>) g;
                       if cm_cursor_stay c then Some g
                       else map_option (\<lambda>g. if gd_width g \<le> sat_add col cols then col_inc 1 g else g)
                              (set_pos (pos_at (min (row + rows - 1) (gd_height g - 1))
                                               (min (sat_add col cols) (gd_width g - 1))) g)
                     })) s))"

section \<open>Sixel images\<close>

text \<open>Digits and semicolons, then \<open>q\<close>.\<close>

definition is_sixel :: "byte list \<Rightarrow> bool" where
  "is_sixel data = (case dropWhile (\<lambda>b. digit_byte b \<or> b = 0x3B) data of b # _ \<Rightarrow> b = 0x71 | [] \<Rightarrow> False)"

definition sixel_string :: "outside \<Rightarrow> byte list \<Rightarrow> screen \<Rightarrow> screen option" where
  "sixel_string e data s =
     (case sixel_decode e data of
        None \<Rightarrow> Some s
      | Some (w, h, pixels) \<Rightarrow>
          do {
            (i, st) \<leftarrow> allocate_id (sn_images s);
            let (im, st) = store_insert e i 0
              \<lparr>id_format = ImageRgba, id_zlib = False, id_width = w, id_height = h, id_bytes = pixels\<rparr> st;
            s \<leftarrow> place_image e im (command_default\<lparr>cm_action := 0x54, cm_quiet := 2, cm_id := i\<rparr>) True (s\<lparr>sn_images := st\<rparr>);
            let (style, s) = style_id s;
            on_grid (\<lambda>g. Option.bind (row_inc_scroll (ou_width e) 1 style g) (\<lambda>(_, g'). col_set_to (gd_left g) g')) s
          })"

definition dcs :: "outside \<Rightarrow> byte list \<Rightarrow> screen \<Rightarrow> screen option" where
  "dcs e data s =
     (case strip_prefix_bytes (bytes_of ''+q'') data of
        Some rest \<Rightarrow> Some (xtgettcap rest s)
      | None \<Rightarrow>
          (case strip_prefix_bytes (bytes_of ''$q'') data of
             Some rest \<Rightarrow> Some (decrqss rest s)
           | None \<Rightarrow> if is_sixel data then sixel_string e data s else Some s))"

section \<open>The kitty graphics protocol\<close>

definition graphics_reply :: "command \<Rightarrow> string \<Rightarrow> screen \<Rightarrow> screen" where
  "graphics_reply c status s =
     (if 2 \<le> cm_quiet c \<or> cm_quiet c = 1 \<and> status = ''OK'' then s
      else (let keys = (if cm_id c \<noteq> 0 then [bytes_of ''i='' @ decimal (cm_id c)] else []) @
                       (if cm_number c \<noteq> 0 then [bytes_of ''I='' @ decimal (cm_number c)] else []) @
                       (if cm_placement c \<noteq> 0 then [bytes_of ''p='' @ decimal (cm_placement c)] else [])
            in screen_reply (kitty_graphics (join_bytes 0x2C keys) (bytes_of status)) s))"

text \<open>
  The checks of a whole transmission: its size, or what is wrong with it. The product is of \<open>usize\<close>
  values, and wraps.
\<close>

definition transmission_size :: "command \<Rightarrow> byte list \<Rightarrow> string + image_format \<times> nat \<times> nat" where
  "transmission_size c data =
     (case format_of_code (cm_format c) of
        None \<Rightarrow> Inl ''EINVAL:unknown format''
      | Some ImagePng \<Rightarrow>
          (case png_dimensions data of Some (w, h) \<Rightarrow> Inr (ImagePng, w, h) | None \<Rightarrow> Inl ''EINVAL:not a PNG'')
      | Some f \<Rightarrow>
          if cm_width c = 0 \<or> cm_height c = 0 then Inl ''EINVAL:missing image size''
          else if \<not> cm_zlib c \<and> length data \<noteq> (cm_width c * cm_height c * unwrap_or 4 (bytes_per_pixel f)) mod 2 ^ 64
          then Inl ''EINVAL:data size does not match''
          else Inr (f, cm_width c, cm_height c))"

definition show_image :: "outside \<Rightarrow> image \<Rightarrow> command \<Rightarrow> screen \<Rightarrow> screen option" where
  "show_image e im c s = (if cm_action c = 0x54 then place_image e im c False s else Some s)"

definition store_transmission :: "outside \<Rightarrow> command \<Rightarrow> image_data \<Rightarrow> screen \<Rightarrow> screen option" where
  "store_transmission e c data s =
     (if cm_action c = 0x71 then Some (graphics_reply c ''OK'' s)
      else if cm_action c = 0x66
      then Some (case store_append e (cm_id c) (FrameCommand data (cm_extra c)) (sn_images s) of
                   Inl err \<Rightarrow> graphics_reply c err s
                 | Inr st \<Rightarrow> graphics_reply c ''OK'' (s\<lparr>sn_images := st\<rparr>))
      else do {
        (c, st) \<leftarrow> (if cm_id c = 0 \<and> cm_number c \<noteq> 0
                     then map_option (\<lambda>(i, st). (c\<lparr>cm_id := i\<rparr>, st)) (allocate_id (sn_images s))
                     else Some (c, sn_images s));
        if cm_id c = 0
        then do {
          (i, st) \<leftarrow> allocate_id st;
          let (im, st) = store_insert e i 0 data st;
          s \<leftarrow> show_image e im (c\<lparr>cm_id := i\<rparr>) (s\<lparr>sn_images := st\<rparr>);
          Some (graphics_reply c ''OK'' s)
        }
        else do {
          let (im, st) = store_insert e (cm_id c) (cm_number c) data st;
          s \<leftarrow> show_image e im c (s\<lparr>sn_images := st\<rparr>);
          Some (graphics_reply c ''OK'' s)
        }
      })"

definition finish_transmission :: "outside \<Rightarrow> command \<Rightarrow> byte list \<Rightarrow> screen \<Rightarrow> screen option" where
  "finish_transmission e c data s =
     (case (if cm_medium c = 0x64 then Inr data
            else if cm_medium c \<in> {0x66, 0x74, 0x73} then ou_medium e c data
            else Inl ''EINVAL:unknown transmission medium'') of
        Inl err \<Rightarrow> Some (graphics_reply c err s)
      | Inr data \<Rightarrow>
          (case transmission_size c data of
             Inl err \<Rightarrow> Some (graphics_reply c err s)
           | Inr (f, w, h) \<Rightarrow>
               if max_image_bytes < length data then Some (graphics_reply c ''EFBIG:image too large'' s)
               else store_transmission e c
                 \<lparr>id_format = f, id_zlib = cm_zlib c, id_width = w, id_height = h, id_bytes = data\<rparr> s))"

definition graphics_put :: "outside \<Rightarrow> command \<Rightarrow> screen \<Rightarrow> screen option" where
  "graphics_put e c s =
     (case (if cm_id c \<noteq> 0 then store_get (cm_id c) (sn_images s)
            else if cm_number c \<noteq> 0 then store_get_by_number (cm_number c) (sn_images s) else None) of
        Some im \<Rightarrow>
          (let c = c\<lparr>cm_id := im_id im\<rparr> in map_option (graphics_reply c ''OK'') (place_image e im c False s))
      | None \<Rightarrow> Some (graphics_reply c ''ENOENT:no such image'' s))"

definition lower_byte :: "byte \<Rightarrow> byte" where
  "lower_byte b = (if 0x41 \<le> b \<and> b \<le> 0x5A then b + 0x20 else b)"

definition placement_at :: "nat \<Rightarrow> nat \<Rightarrow> image_placement \<Rightarrow> bool" where
  "placement_at col row p =
     (pm_row p \<le> row \<and> row < pm_row p + pm_rows p \<and> pm_col p \<le> col \<and> col < sat_add (pm_col p) (pm_cols p))"

definition placed_anywhere :: "nat \<Rightarrow> screen \<Rightarrow> bool" where
  "placed_anywhere key s =
     (list_ex (\<lambda>p. pm_key p = key) (gd_placements (sn_grid s)) \<or> list_ex (\<lambda>p. pm_key p = key) (gd_placements (sn_alt_grid s)))"

text \<open>The data of an image that nothing shows any more goes.\<close>

definition free_image :: "outside \<Rightarrow> nat \<Rightarrow> screen \<Rightarrow> screen" where
  "free_image e key s =
     (if placed_anywhere key s then s
      else case store_get_by_key key (sn_images s) of
             None \<Rightarrow> s
           | Some im \<Rightarrow> s\<lparr>sn_images := snd (store_remove e (im_id im) (sn_images s))\<rparr>)"

definition delete_reply :: "command \<Rightarrow> byte \<Rightarrow> screen \<Rightarrow> screen" where
  "delete_reply c what s = (if cm_quiet c = 0 \<and> cm_id c \<noteq> 0 \<and> what = 0x69 then graphics_reply c ''OK'' s else s)"

definition one_based :: "nat \<Rightarrow> nat" where
  "one_based n = min (n - 1) u16_max"

text \<open>What a deletion picks, but of one image or a range of them.\<close>

definition delete_pick :: "byte \<Rightarrow> command \<Rightarrow> grid \<Rightarrow> image_placement \<Rightarrow> bool" where
  "delete_pick what c g p =
     (let base = gd_row_base g
      in if what = 0x61 \<or> what = 0 then True
         else if what = 0x63
         then \<not> pm_virtual p \<and> placement_at (pos_col (gd_pos g)) (base + pos_row (gd_pos g)) p
         else if what = 0x70 \<or> what = 0x71
         then \<not> pm_virtual p \<and> placement_at (one_based (cm_x c)) (base + one_based (cm_y c)) p \<and>
              (what = 0x71 \<longrightarrow> pm_z p = cm_z c)
         else if what = 0x78
         then \<not> pm_virtual p \<and> pm_col p \<le> one_based (cm_x c) \<and> one_based (cm_x c) < sat_add (pm_col p) (pm_cols p)
         else if what = 0x79
         then \<not> pm_virtual p \<and> pm_row p \<le> base + one_based (cm_y c) \<and> base + one_based (cm_y c) < pm_row p + pm_rows p
         else if what = 0x7A then \<not> pm_virtual p \<and> pm_z p = cm_z c
         else False)"

definition key_of :: "nat \<Rightarrow> image_store \<Rightarrow> nat option" where
  "key_of i st = map_option im_key (store_get i st)"

definition remove_picked :: "(image_placement \<Rightarrow> bool) \<Rightarrow> screen \<Rightarrow> nat list \<times> screen" where
  "remove_picked pick s = (let (keys, g) = remove_placements pick (active_grid s) in (keys, put_grid g s))"

definition graphics_delete :: "outside \<Rightarrow> command \<Rightarrow> screen \<Rightarrow> screen" where
  "graphics_delete e c s =
     (let what = lower_byte (cm_delete c); free = (what \<noteq> cm_delete c);
          freed = (\<lambda>(keys, s). delete_reply c what (if free then fold (free_image e) keys s else s))
      in if what = 0x69 \<or> what = 0x6E
         then (case (if what = 0x69 then key_of (cm_id c) (sn_images s)
                     else map_option im_key (store_get_by_number (cm_number c) (sn_images s))) of
                 None \<Rightarrow> delete_reply c what s
               | Some key \<Rightarrow>
                   freed ([key], snd (remove_picked
                     (\<lambda>p. pm_key p = key \<and> (cm_placement c = 0 \<or> pm_id p = cm_placement c)) s)))
         else if what = 0x72
         then (let keys = List.map_filter (\<lambda>i. key_of i (sn_images s)) [min (cm_x c) (cm_y c)..<max (cm_x c) (cm_y c) + 1]
               in freed (keys, snd (remove_picked (\<lambda>p. pm_key p \<in> set keys) s)))
         else freed (remove_picked (delete_pick what c (active_grid s)) s))"

definition graphics_control :: "outside \<Rightarrow> command \<Rightarrow> screen \<Rightarrow> screen" where
  "graphics_control e c s =
     (case store_append e (cm_id c) (ControlCommand (bytes_of ''a='' @ [cm_action c] @ bytes_of '','' @ cm_extra c)) (sn_images s) of
        Inl err \<Rightarrow> graphics_reply c err s
      | Inr st \<Rightarrow> graphics_reply c ''OK'' (s\<lparr>sn_images := st\<rparr>))"

definition new_command :: "outside \<Rightarrow> byte list \<Rightarrow> byte list \<Rightarrow> screen \<Rightarrow> screen option" where
  "new_command e control payload s =
     (case parse_command control of
        Inl err \<Rightarrow> Some (screen_reply (kitty_graphics [] (bytes_of err)) s)
      | Inr c \<Rightarrow>
          if cm_action c \<in> {0x74, 0x54, 0x71, 0x66}
          then (let data = decode_payload e payload []
                in if cm_more c \<and> cm_medium c = 0x64
                   then Some (s\<lparr>sn_pending_image := Some \<lparr>pi_command = c, pi_data = data\<rparr>\<rparr>)
                   else finish_transmission e c data s)
          else if cm_action c = 0x70 then graphics_put e c s
          else if cm_action c = 0x64 then Some (graphics_delete e c s)
          else if cm_action c = 0x61 \<or> cm_action c = 0x63 then Some (graphics_control e c s)
          else Some (graphics_reply c ''EINVAL:unknown action'' s))"

definition graphics_command :: "outside \<Rightarrow> byte list \<Rightarrow> screen \<Rightarrow> screen option" where
  "graphics_command e body s =
     (let (control, payload) = (case split_once_byte 0x3B body of Some r \<Rightarrow> r | None \<Rightarrow> (body, []))
      in case sn_pending_image s of
           None \<Rightarrow> new_command e control payload s
         | Some pend \<Rightarrow>
             (let more = (bytes_of ''m=1'' \<in> set (split_byte 0x2C control)); data = decode_payload e payload (pi_data pend)
              in if max_image_bytes < length data
                 then Some (graphics_reply (pi_command pend) ''EFBIG:image too large'' (s\<lparr>sn_pending_image := None\<rparr>))
                 else if more then Some (s\<lparr>sn_pending_image := Some (pend\<lparr>pi_data := data\<rparr>)\<rparr>)
                 else finish_transmission e (pi_command pend) data (s\<lparr>sn_pending_image := None\<rparr>)))"

end
