(* ===== verification/Term_Apply.thy ===== *)
theory Term_Apply
  imports Term_Strings
begin

text \<open>
  What the emulator does with each piece of output (\<open>src/src/term/screen/mod.rs\<close>): control characters,
  escapes, and the loop over what the scanner finds in a chunk.
\<close>

section \<open>Lines\<close>

definition max_finished :: nat where "max_finished = 4096"

definition line_finished :: "nat \<Rightarrow> screen \<Rightarrow> screen option" where
  "line_finished r s =
     (if \<not> sn_line_tap s \<or> max_finished \<le> length (sn_finished s) then Some s
      else map_option
        (\<lambda>text. if sn_finished s \<noteq> [] \<and> List.last (sn_finished s) = text then s
                else s\<lparr>sn_finished := sn_finished s @ [text]\<rparr>)
        (line_text r (active_grid s)))"

definition scroll_in :: "(nat \<Rightarrow> nat option) \<Rightarrow> screen \<Rightarrow> screen option" where
  "scroll_in cw s = (let (st, s) = style_id s in on_grid (\<lambda>g. map_option snd (row_inc_scroll cw 1 st g)) s)"

definition col_set_in :: "screen \<Rightarrow> screen option" where
  "col_set_in s = on_grid (col_set_to (gd_left (active_grid s))) s"

definition linefeed :: "(nat \<Rightarrow> nat option) \<Rightarrow> screen \<Rightarrow> screen option" where
  "linefeed cw s =
     do {
       s \<leftarrow> line_finished (pos_row (gd_pos (active_grid s))) s;
       s \<leftarrow> scroll_in cw s;
       if md_newline (sn_modes s) then col_set_in s else Some s
     }"

definition reverse_index :: "screen \<Rightarrow> screen option" where
  "reverse_index s = (let (st, s) = style_id s in on_grid (row_dec_scroll 1 st) s)"

definition carriage_return :: "screen \<Rightarrow> screen option" where
  "carriage_return s =
     do {
       s \<leftarrow> (if sn_line_tap s \<and> 0 < pos_col (gd_pos (active_grid s))
              then line_finished (pos_row (gd_pos (active_grid s))) s else Some s);
       on_grid (\<lambda>g. col_set_to (if gd_left g \<le> pos_col (gd_pos g) then gd_left g else 0) g) s
     }"

definition control :: "(nat \<Rightarrow> nat option) \<Rightarrow> byte \<Rightarrow> screen \<Rightarrow> screen option" where
  "control cw b s =
     (if b = 0x07 then Some (emit_event Bell s)
      else if b = 0x08 then Some (at_grid (col_dec 1) s)
      else if b = 0x09 then on_grid (tab_forward 1) s
      else if 0x0A \<le> b \<and> b \<le> 0x0C then linefeed cw s
      else if b = 0x0D then carriage_return s
      else if b = 0x0E then Some (s\<lparr>sn_gl := 1\<rparr>)
      else if b = 0x0F then Some (s\<lparr>sn_gl := 0\<rparr>)
      else if b = 0x8D then reverse_index s
      else Some s)"

section \<open>Escapes\<close>

text \<open>RIS: a fresh screen of the same size, but for what the owner set and what is still owed.\<close>

definition reset_with :: "(nat \<Rightarrow> nat option) \<Rightarrow> nat \<Rightarrow> screen \<Rightarrow> screen" where
  "reset_with cw scrollback s =
     (screen_new cw (gd_height (sn_grid s)) (gd_width (sn_grid s)) scrollback (is_next_key (sn_images s)))
       \<lparr>sn_palette := sn_palette s, sn_cell_pixels := sn_cell_pixels s, sn_line_tap := sn_line_tap s,
        sn_events := sn_events s, sn_finished := sn_finished s\<rparr>"

definition screen_escape :: "(nat \<Rightarrow> nat option) \<Rightarrow> byte \<Rightarrow> screen \<Rightarrow> screen option" where
  "screen_escape cw b s =
     (if b = 0x37 then Some (save_cursor s)
      else if b = 0x38 then Some (restore_cursor s)
      else if b = 0x3D then Some (with_modes (\<lambda>m. m\<lparr>md_app_keypad := True\<rparr>) s)
      else if b = 0x3E then Some (with_modes (\<lambda>m. m\<lparr>md_app_keypad := False\<rparr>) s)
      else if b = 0x44 then scroll_in cw s
      else if b = 0x45
      then do {
        s \<leftarrow> line_finished (pos_row (gd_pos (active_grid s))) s;
        s \<leftarrow> scroll_in cw s;
        col_set_in s
      }
      else if b = 0x48 then on_grid (put_tab True) s
      else if b = 0x4D then reverse_index s
      else if b = 0x4E then Some (s\<lparr>sn_single_shift := Some 2\<rparr>)
      else if b = 0x4F then Some (s\<lparr>sn_single_shift := Some 3\<rparr>)
      else if b = 0x6E then Some (s\<lparr>sn_gl := 2\<rparr>)
      else if b = 0x6F then Some (s\<lparr>sn_gl := 3\<rparr>)
      else if b = 0x63 then Some (reset_with cw (sb_capacity (gd_history (sn_grid s))) s)
      else Some s)"

text \<open>DECALN fills the screen with the letter E.\<close>

definition screen_alignment :: "screen \<Rightarrow> screen option" where
  "screen_alignment s =
     (let g = active_grid s; height = gd_height g; width = gd_width g; (st, g) = intern_style style_default g
      in map_option (\<lambda>g. put_grid g s)
           (do {
              g \<leftarrow> set_scroll_region 0 (height - 1) g;
              g \<leftarrow> set_margins 0 (width - 1) g;
              g \<leftarrow> fold_opt (\<lambda>r. fold_opt (\<lambda>c. write_cell (pos_at r c) (ct_scalar 0x45 1) st) [0..<width]) [0..<height] g;
              set_pos (pos_at 0 0) g
            }))"

definition escape_nf :: "byte \<Rightarrow> byte \<Rightarrow> screen \<Rightarrow> screen option" where
  "escape_nf pre b s =
     (if pre \<in> {0x28, 0x29, 0x2A, 0x2B}
      then Some (s\<lparr>sn_charsets := (sn_charsets s)[(if pre = 0x28 then 0 else if pre = 0x29 then 1 else if pre = 0x2A then 2 else 3) :=
                     unwrap_or AsciiSet (charset_of_final b)]\<rparr>)
      else if pre \<in> {0x2D, 0x2E, 0x2F}
      then Some (s\<lparr>sn_charsets := (sn_charsets s)[(if pre = 0x2D then 1 else if pre = 0x2E then 2 else 3) := AsciiSet]\<rparr>)
      else if pre = 0x23 then (if b = 0x38 then screen_alignment s else Some s)
      else Some s)"

section \<open>A chunk of output\<close>

definition apply_seq :: "outside \<Rightarrow> seq \<Rightarrow> screen \<Rightarrow> screen option" where
  "apply_seq e q s =
     (case q of
        Text text \<Rightarrow> text_run_on (ou_width e) text s
      | Ctl b \<Rightarrow> control (ou_width e) b s
      | EscSeq pre b \<Rightarrow> if pre = 0 then screen_escape (ou_width e) b s else escape_nf pre b s
      | CsiSeq p \<Rightarrow> csi (ou_width e) p s
      | OscSeq data \<Rightarrow> Some (osc e data s)
      | DcsSeq data \<Rightarrow> dcs e data s
      | ApcSeq data \<Rightarrow>
          (case data of b # body \<Rightarrow> if b = 0x47 then graphics_command e body s else Some s | [] \<Rightarrow> Some s)
      | EscChar _ \<Rightarrow> Some s
      | Ss3Seq _ \<Rightarrow> Some s
      | X10Seq _ _ _ \<Rightarrow> Some s)"

text \<open>\<open>settle_views\<close>: the views, and the images whose cells were written over.\<close>

definition settle_views :: "outside \<Rightarrow> screen \<Rightarrow> screen" where
  "settle_views e s =
     (let (dropped, g) = take_dropped_images (settle_view (ou_width e) (sn_grid s));
          (dropped', a) = take_dropped_images (settle_view (ou_width e) (sn_alt_grid s))
      in fold (free_image e) (dropped @ dropped') (s\<lparr>sn_grid := g, sn_alt_grid := a\<rparr>))"

definition process_output :: "outside \<Rightarrow> byte list \<Rightarrow> screen \<Rightarrow> screen option" where
  "process_output e data s =
     (let (scanner, seqs) = scan_feed (sn_scanner s) data
      in map_option (\<lambda>s. settle_views e (s\<lparr>sn_scanner := scanner\<rparr>))
           (fold_opt (apply_seq e) seqs (s\<lparr>sn_scanner := scanner_new ModeOutput\<rparr>)))"

section \<open>What the owner does\<close>

definition screen_set_scrollback :: "(nat \<Rightarrow> nat option) \<Rightarrow> nat \<Rightarrow> screen \<Rightarrow> screen" where
  "screen_set_scrollback cw n = at_grid (set_scrollback cw n)"

definition scroll_screen_up :: "(nat \<Rightarrow> nat option) \<Rightarrow> nat \<Rightarrow> screen \<Rightarrow> screen" where
  "scroll_screen_up cw n s = screen_set_scrollback cw (gd_view_offset (active_grid s) + n) s"

definition scroll_screen_down :: "(nat \<Rightarrow> nat option) \<Rightarrow> nat \<Rightarrow> screen \<Rightarrow> screen" where
  "scroll_screen_down cw n s = screen_set_scrollback cw (gd_view_offset (active_grid s) - n) s"

definition set_cell_pixels :: "nat \<Rightarrow> nat \<Rightarrow> screen \<Rightarrow> screen" where
  "set_cell_pixels width height s =
     (if 0 < width \<and> 0 < height \<and> sn_cell_pixels s \<noteq> (width, height)
      then (let s = s\<lparr>sn_cell_pixels := (width, height)\<rparr>
            in if md_inband_resize (sn_modes s) then report_size_inband s else s)
      else s)"

definition set_line_tap :: "bool \<Rightarrow> screen \<Rightarrow> screen" where
  "set_line_tap on s = s\<lparr>sn_line_tap := on, sn_finished := (if on then sn_finished s else [])\<rparr>"

definition take_events :: "screen \<Rightarrow> vt_event list \<times> screen" where
  "take_events s = (sn_events s, s\<lparr>sn_events := []\<rparr>)"

definition take_finished_lines :: "screen \<Rightarrow> byte list list \<times> screen" where
  "take_finished_lines s = (sn_finished s, s\<lparr>sn_finished := []\<rparr>)"

definition cursor_line_text :: "screen \<Rightarrow> byte list option" where
  "cursor_line_text s = line_text (pos_row (gd_pos (active_grid s))) (active_grid s)"

definition end_sync_update :: "screen \<Rightarrow> screen" where
  "end_sync_update = with_modes (\<lambda>m. m\<lparr>md_sync := False\<rparr>)"

definition cursor_position :: "screen \<Rightarrow> nat \<times> nat" where
  "cursor_position s = (let g = active_grid s in (pos_row (gd_pos g), min (pos_col (gd_pos g)) (gd_width g - 1)))"

end
