(* ===== verification/Screen_Safe.thy ===== *)
theory Screen_Safe
  imports Grid_Ops Term_Apply
begin

text \<open>
  What a screen obeys whatever output it is fed: its grids do (\<open>Grid_Safe\<close>, \<open>Grid_Ops\<close>), its character
  sets are there, and it has an id left for an image. No sequence panics; as long as none sets left and
  right margins, wide characters stay whole.
\<close>

section \<open>Text of cells\<close>

lemma tag_scalar: "c < 2 ^ 29 \<Longrightarrow> ct_tag (ct_scalar c w) = 1"
proof -
  assume c: "c < 2 ^ 29"
  have un: "unat (of_nat c :: 32 word) = c"
    using c by (simp add: unsigned_of_nat take_bit_nat_eq_self)
  then have c29: "(of_nat c :: 32 word) < 2 ^ 29" using c by (simp add: word_less_nat_alt)
  have w: "(of_nat w AND 3 :: 32 word) < 2 ^ 2" using and_mask_below [of 2 "of_nat w"] by (simp add: masks)
  have body: "push_bit 21 (of_nat w AND 3) OR (of_nat c :: 32 word) < 2 ^ 29"
    by (rule or_below) (use push_below [OF w, of 21 29] c29 in simp_all)
  show ?thesis using pack_high [OF _ body, of 1] unfolding ct_tag_def ct_scalar_def or.assoc by simp
qed

lemma tag_grapheme: "ct_tag (ct_grapheme i w) = 2"
proof -
  let ?i = "of_nat i AND 0xFFFFFF :: 32 word" and ?w = "of_nat w AND 3 :: 32 word"
  have i: "?i < 2 ^ 24" using and_mask_below [of 24 "of_nat i"] by (simp add: masks)
  have w: "?w < 2 ^ 2" using and_mask_below [of 2 "of_nat w"] by (simp add: masks)
  have body: "push_bit 24 ?w OR ?i < 2 ^ 29"
    by (rule or_below) (use push_below [OF w, of 24 29] push_below [OF i, of 0 29] in simp_all)
  show ?thesis using pack_high [OF _ body, of 2] unfolding ct_tag_def ct_grapheme_def or.assoc by simp
qed

lemma tag_image: "ct_tag (ct_image slot r c) = 4"
proof -
  let ?s = "of_nat slot AND 0x3FF :: 32 word" and ?r = "of_nat r AND 0x1FF :: 32 word" and ?c = "of_nat c AND 0x1FF :: 32 word"
  have s: "?s < 2 ^ 10" and r: "?r < 2 ^ 9" and c: "?c < 2 ^ 9"
    using and_mask_below [of 10 "of_nat slot"] and_mask_below [of 9 "of_nat r"] and_mask_below [of 9 "of_nat c"]
    by (simp_all add: masks)
  have low: "push_bit 10 ?r OR ?s < 2 ^ 19"
    by (rule or_below) (use push_below [OF r, of 10 19] push_below [OF s, of 0 19] in simp_all)
  have body: "push_bit 19 ?c OR push_bit 10 ?r OR ?s < 2 ^ 29"
    by (rule or_below) (use push_below [OF c, of 19 29] push_below [OF low, of 0 29] in \<open>simp_all add: or.assoc\<close>)
  show ?thesis using pack_high [OF _ body, of 4] unfolding ct_tag_def ct_image_def or.assoc by simp
qed

lemma tag_with_width: "ct_tag (ct_with_width w t) = ct_tag t"
proof -
  have "drop_bit 29 (ct_with_width w t) = drop_bit 29 t"
    by (rule bit_word_eqI) (auto simp: ct_with_width_def bit_simps masks dest: bit_imp_le_length)
  then show ?thesis by (simp add: ct_tag_def)
qed

lemma code_point_bound: "code_point bs < 2 ^ 23"
proof -
  have b: "unat (x :: byte) < 2 ^ LENGTH(8)" for x by (rule unsigned_less)
  have s: "unat (x :: byte) - k < 256 - k" if "k < 256" for x k using b [of x] that by (simp add: diff_less_mono)
  have two: "unat a - 0xC0 < 64" "unat a - 0xE0 < 32" "unat a - 0xF0 < 16" "unat a - 0x80 < 128" for a :: byte
    using s [of "0xC0" a] s [of "0xE0" a] s [of "0xF0" a] s [of "0x80" a] by simp_all
  show ?thesis
  proof (cases bs rule: code_point.cases)
    case (1 a)
    then show ?thesis using b [of a] by simp
  next
    case (2 a b)
    then show ?thesis using two(1) [of a] two(4) [of b] by simp
  next
    case (3 a b c)
    then show ?thesis using two(2) [of a] two(4) [of b] two(4) [of c] by simp
  next
    case (4 a b c d)
    then show ?thesis using two(3) [of a] two(4) [of b] two(4) [of c] two(4) [of d] by simp
  qed simp_all
qed

lemma text_no_continuation:
  "c < 2 ^ 29 \<Longrightarrow> \<not> ct_is_continuation (ct_scalar c w)" "\<not> ct_is_continuation (ct_grapheme i w)"
  "\<not> ct_is_continuation (ct_image slot r k)" "\<not> ct_is_continuation ct_empty"
  "ct_is_continuation (ct_with_width w t) = ct_is_continuation t"
  by (simp_all add: ct_is_continuation_def tag_scalar tag_grapheme tag_image tag_with_width) (simp add: ct_tag_def ct_empty_def)

lemma str_chars_bound: "list_all (\<lambda>c. c < 2 ^ 23) (str_chars bs)"
proof (induction bs rule: str_chars.induct)
  case (2 b bs)
  show ?case
    unfolding str_chars.simps Let_def list.pred_inject using 2(1) [OF refl] code_point_bound by simp
qed simp

lemma ct_of_no_continuation: "\<not> ct_is_continuation (fst (ct_of bs w gt))"
proof -
  have c: "c < 2 ^ 29" if "str_chars bs = [c]" for c using str_chars_bound [of bs] that by simp
  then show ?thesis
    by (auto simp: ct_of_def text_no_continuation split: list.split option.split prod.split)
qed

section \<open>The invariant of a screen\<close>

definition screen_parts ::
  "(nat \<Rightarrow> row \<Rightarrow> bool) \<Rightarrow> bool \<Rightarrow> (nat \<Rightarrow> nat option) \<Rightarrow> nat \<Rightarrow>
    grid \<Rightarrow> grid \<Rightarrow> charset list \<Rightarrow> nat option \<Rightarrow> nat option \<Rightarrow> (nat, nat) hm \<Rightarrow> bool" where
  "screen_parts fit m cw n g a sets shift last_c ids =
     (grid_good fit m cw g \<and> grid_good fit m cw a \<and> length sets = 4 \<and>
      (case shift of None \<Rightarrow> True | Some k \<Rightarrow> k < 4) \<and> (case last_c of None \<Rightarrow> True | Some c \<Rightarrow> c < 2 ^ 29) \<and> length ids \<le> n)"

definition screen_good :: "(nat \<Rightarrow> row \<Rightarrow> bool) \<Rightarrow> bool \<Rightarrow> (nat \<Rightarrow> nat option) \<Rightarrow> nat \<Rightarrow> screen \<Rightarrow> bool" where
  "screen_good fit m cw n s =
     screen_parts fit m cw n (sn_grid s) (sn_alt_grid s) (sn_charsets s) (sn_single_shift s) (sn_last_char s)
       (is_by_id (sn_images s))"

definition screen_at :: "(nat \<Rightarrow> row \<Rightarrow> bool) \<Rightarrow> bool \<Rightarrow> (nat \<Rightarrow> nat option) \<Rightarrow> nat \<Rightarrow> screen option \<Rightarrow> bool" where
  "screen_at fit m cw n r = (\<exists>s. r = Some s \<and> screen_good fit m cw n s)"

lemma screen_atI [intro]: "screen_good fit m cw n s \<Longrightarrow> screen_at fit m cw n (Some s)"
  by (simp add: screen_at_def)

lemma screen_at_Some [simp]: "screen_at fit m cw n (Some s) = screen_good fit m cw n s"
  by (simp add: screen_at_def)

lemma screen_at_bind:
  assumes "screen_at fit m cw n r" "\<And>s. screen_good fit m cw n s \<Longrightarrow> screen_at fit m cw n' (f s)"
  shows "screen_at fit m cw n' (Option.bind r f)"
  using assms by (auto simp: screen_at_def)

lemma good_at_bind:
  assumes "good_at fit m cw r" "\<And>g. grid_good fit m cw g \<Longrightarrow> good_at fit m cw (f g)"
  shows "good_at fit m cw (Option.bind r f)"
  using assms by (auto simp: good_at_def)

lemma good_at_map:
  assumes "good_at fit m cw r" "\<And>g. grid_good fit m cw g \<Longrightarrow> grid_good fit m cw (f g)"
  shows "good_at fit m cw (map_option f r)"
  using assms by (auto simp: good_at_def)

lemma good_at_Some [simp]: "good_at fit m cw (Some g) = grid_good fit m cw g"
  by (simp add: good_at_def)

lemma grid_fold_good:
  assumes "grid_good fit m cw g" "\<And>x g. x \<in> set xs \<Longrightarrow> grid_good fit m cw g \<Longrightarrow> good_at fit m cw (f x g)"
  shows "good_at fit m cw (fold_opt f xs g)"
  using fold_opt_keeps [of xs "grid_good fit m cw" f g] assms by (auto simp: good_at_def)

text \<open>Fields the invariant does not look at.\<close>

lemma good_unseen [simp]:
  "grid_good fit m cw (g\<lparr>gd_tables := x1\<rparr>) = grid_good fit m cw g"
  "grid_good fit m cw (g\<lparr>gd_slots := x2\<rparr>) = grid_good fit m cw g"
  "grid_good fit m cw (g\<lparr>gd_placements := x3\<rparr>) = grid_good fit m cw g"
  "grid_good fit m cw (g\<lparr>gd_dropped := x4\<rparr>) = grid_good fit m cw g"
  "grid_good fit m cw (g\<lparr>gd_tables := x1, gd_style_cache := x5\<rparr>) = grid_good fit m cw g"
  by (simp_all add: grid_good_def grid_sat_def frame_ok_def rows_sat_def margins_active_def view_ok_at_def max_scrollback_def)

lemma good_intern_style: "grid_good fit m cw (snd (intern_style st g)) = grid_good fit m cw g"
  by (simp add: intern_style_def Let_def case_prod_beta)

lemma good_placements [simp]:
  "grid_good fit m cw (snd (remove_placements pick g)) = grid_good fit m cw g"
  "grid_good fit m cw (add_placement p g) = grid_good fit m cw g"
  "grid_good fit m cw (snd (take_dropped_images g)) = grid_good fit m cw g"
  "grid_good fit m cw (snd (placeholder_slot i k g)) = grid_good fit m cw g"
  by (simp_all add: remove_placements_def add_placement_def take_dropped_images_def placeholder_slot_def split: option.split)

lemma good_height: "grid_good fit m cw g \<Longrightarrow> 0 < gd_height g \<and> 0 < gd_width g \<and> length (gd_rows g) = gd_height g"
  by (auto simp: grid_good_def grid_sat_def frame_ok_def rows_sat_def)

section \<open>Getting at the grids\<close>

lemma active_good: "screen_good fit m cw n s \<Longrightarrow> grid_good fit m cw (active_grid s)"
  by (simp add: screen_good_def screen_parts_def active_grid_def)

lemma put_good: "screen_good fit m cw n s \<Longrightarrow> grid_good fit m cw g \<Longrightarrow> screen_good fit m cw n (put_grid g s)"
  by (simp add: screen_good_def screen_parts_def put_grid_def)

lemma active_put [simp]: "active_grid (put_grid g s) = g"
  by (simp add: active_grid_def put_grid_def)

lemma put_same [simp]:
  "sn_modes (put_grid g s) = sn_modes s" "sn_images (put_grid g s) = sn_images s" "sn_last_char (put_grid g s) = sn_last_char s"
  "sn_charsets (put_grid g s) = sn_charsets s" "sn_single_shift (put_grid g s) = sn_single_shift s"
  by (simp_all add: put_grid_def)

lemma on_grid_good:
  assumes "screen_good fit m cw n s" "good_at fit m cw (f (active_grid s))"
  shows "screen_at fit m cw n (on_grid f s)"
  using assms put_good by (fastforce simp: good_at_def on_grid_def screen_at_def)

lemma at_grid_good:
  assumes "screen_good fit m cw n s" "grid_good fit m cw (f (active_grid s))"
  shows "screen_good fit m cw n (at_grid f s)"
  using assms put_good by (simp add: at_grid_def)

lemma good_link_ids: "screen_good fit m cw n s \<Longrightarrow> screen_good fit m cw n (snd (current_link_id s))"
  using put_good [of fit m cw n s] active_good [of fit m cw n s]
  by (auto simp: current_link_id_def Let_def intern_link_in_def screen_good_def split: option.split prod.split)

lemma style_id_good: "screen_good fit m cw n s \<Longrightarrow> screen_good fit m cw n (snd (style_id s))"
  using good_link_ids [of fit m cw n s] put_good active_good good_intern_style
  by (fastforce simp: style_id_def Let_def case_prod_beta)

lemma screen_good_mono: "screen_good fit m cw n s \<Longrightarrow> n \<le> n' \<Longrightarrow> screen_good fit m cw n' s"
  by (simp add: screen_good_def screen_parts_def)

lemma screen_at_mono: "screen_at fit m cw n r \<Longrightarrow> n \<le> n' \<Longrightarrow> screen_at fit m cw n' r"
  using screen_good_mono by (auto simp: screen_at_def)

section \<open>Text\<close>

locale screen_rows = row_kind +
  assumes fit_new: "fit w r \<Longrightarrow> fit w (row_new w)"
    and fit_width: "\<not> margins \<Longrightarrow> fit w r \<Longrightarrow> fit w' r' \<Longrightarrow> w = w'"
begin

abbreviation "sgood \<equiv> screen_good fit margins"
abbreviation "sgood_at \<equiv> screen_at fit margins"
abbreviation "ggood \<equiv> grid_good fit margins"
abbreviation "ggood_at \<equiv> good_at fit margins"

lemma good_sat: "ggood cw g \<Longrightarrow> grid_sat fit margins cw g"
  by (simp add: grid_good_def)

lemma good_edits:
  assumes "ggood cw g"
  shows "\<not> ct_is_continuation t \<Longrightarrow> ggood_at cw (write_cell p t st g)"
    "ggood_at cw (grid_insert_cells n st g)" "ggood_at cw (grid_delete_cells n st g)"
    "ggood_at cw (insert_columns n st g)" "ggood_at cw (delete_columns n st g)"
    "ggood_at cw (erase_cells n st g)" "ggood_at cw (erase_row st g)"
    "ggood_at cw (erase_row_forward st g)" "ggood_at cw (erase_row_backward st g)"
    "ggood_at cw (erase_all_forward st g)" "ggood_at cw (erase_all_backward st g)"
    "pos_col p < gd_width g \<Longrightarrow> ggood_at cw (write_ascii_row p bs st g)"
  using good_sat [OF assms] assms
  by (auto intro!: same_good sat_write_cell sat_insert_cells sat_delete_cells sat_insert_columns sat_delete_columns
      sat_erase_range sat_erase_row sat_erase_all_forward sat_erase_all_backward sat_write_ascii
      simp: erase_cells_def erase_row_forward_def erase_row_backward_def)

lemma good_scroll: "ggood cw g \<Longrightarrow> ggood_at cw (scroll_up cw n st g)"
  using good_scroll_up by (fastforce simp: good_at_def)

lemma good_write_new:
  assumes "ggood cw g" "c < 2 ^ 29"
  shows "\<exists>b g'. write_new_in cw autowrap ins c w st g = Some (b, g') \<and> ggood cw g'"
proof -
  define over where "over = (gd_right g + 1 < pos_col (gd_pos g) + w)"
  have "ggood_at cw (if over then (if autowrap then col_wrap cw w st g else Some (col_stay g)) else Some g)"
    using assms(1) good_col_wrap good_cursor_moves by simp
  then obtain g1 where g1: "(if over then (if autowrap then col_wrap cw w st g else Some (col_stay g)) else Some g) = Some g1"
    "ggood cw g1" unfolding good_at_def by blast
  obtain g2 where g2: "(if ins then grid_insert_cells w st g1 else Some g1) = Some g2" "ggood cw g2"
    using good_edits(2) [OF g1(2)] g1(2) by (cases ins) (auto simp: good_at_def)
  obtain g3 where g3: "write_cell (gd_pos g2) (ct_scalar c w) st g2 = Some g3" "ggood cw g3"
    using good_edits(1) [OF g2(2) text_no_continuation(1) [OF assms(2)]] unfolding good_at_def by blast
  have "ggood cw (col_inc w g3)" using good_cursor_moves [OF g3(2)] by simp
  then show ?thesis
    unfolding write_new_in_def Let_def over_def [symmetric] g1(1) using g1(2) g2(1) g3(1)
    by (simp add: ex_bool_eq)
qed

lemma write_new_good:
  assumes "sgood cw n s" "c < 2 ^ 29"
  shows "sgood_at cw n (write_new cw c w s)"
proof -
  obtain st s1 where s1: "style_id s = (st, s1)" by fastforce
  then have good: "sgood cw n s1" using style_id_good [OF assms(1)] by simp
  obtain b g where w: "write_new_in cw (md_autowrap (sn_modes s1)) (md_insert (sn_modes s1)) c w st (active_grid s1) = Some (b, g)"
    "ggood cw g" using good_write_new [OF active_good [OF good] assms(2)] by blast
  have "sgood cw n (put_grid g s1)" by (rule put_good [OF good w(2)])
  then have "sgood cw n (if b then (put_grid g s1)\<lparr>sn_last_char := Some c, sn_placeholder_marks := 0\<rparr> else put_grid g s1)"
    using assms(2) by (auto simp: screen_good_def screen_parts_def)
  then show ?thesis using w(1) s1 by (simp add: write_new_def)
qed

lemma good_cell_text: "ggood cw (snd (grid_cell_text bs w g)) = ggood cw g"
  by (simp add: grid_cell_text_def Let_def case_prod_beta)

lemma cell_text_plain: "\<not> ct_is_continuation (fst (grid_cell_text bs w g))"
  using ct_of_no_continuation by (simp add: grid_cell_text_def Let_def case_prod_beta)

lemma good_join:
  assumes "ggood cw g"
  shows "ggood_at cw (join_in p c widen g)"
proof (cases "drawing_cell p g")
  case (Some cell)
  define bs where "bs = ct_str (tb_graphemes (gd_tables g)) (c_text cell)"
  define w where "w = (case widen of None \<Rightarrow> max (ct_width (c_text cell)) 1 | Some w \<Rightarrow> w)"
  obtain t g1 where t: "grid_cell_text (bs @ encode_char c) w g = (t, g1)" by fastforce
  have g1: "ggood cw g1" "\<not> ct_is_continuation t"
    using good_cell_text [of cw "bs @ encode_char c" w g] cell_text_plain [of "bs @ encode_char c" w g] assms t by simp_all
  have "ggood_at cw (write_cell p t (c_style cell) g1)" "ggood_at cw (write_cell p (ct_with_width 1 t) (c_style cell) g1)"
    using good_edits(1) [OF g1(1)] g1(2) text_no_continuation(5) by simp_all
  moreover have "ggood cw g' \<Longrightarrow> ggood cw (if b then col_inc 1 g' else g')" for b g'
    using good_cursor_moves(7) by simp
  ultimately show ?thesis
    using Some assms t by (auto simp: join_in_def Let_def simp flip: bs_def w_def intro!: good_at_map)
qed (use assms in \<open>simp add: join_in_def\<close>)

lemma join_char_good: "sgood cw n s \<Longrightarrow> sgood_at cw n (join_char p c widen s)"
  using on_grid_good good_join active_good by (cases p) (simp_all add: join_char_def)

lemma put_scalar_good:
  assumes "sgood cw n s" "c < 2 ^ 29"
  shows "sgood_at cw n (put_scalar cw c s)"
  using assms write_new_good join_char_good
  by (auto simp: put_scalar_def Let_def case_prod_beta split: attach.split)

lemma write_placeholder_good:
  assumes "sgood cw n s"
  shows "sgood_at cw n (write_placeholder cw s)"
proof -
  obtain st s1 where s1: "style_id s = (st, s1)" by fastforce
  then have good: "sgood cw n s1" using style_id_good [OF assms] by simp
  let ?wrap = "\<lambda>b g. if gd_right g < pos_col (gd_pos g) then (if b then col_wrap cw 1 st g else Some (col_stay g)) else Some g"
  have "ggood_at cw (?wrap b (active_grid s1))" for b
    using active_good [OF good] good_col_wrap good_cursor_moves by simp
  then obtain g1 where g1: "?wrap (md_autowrap (sn_modes s)) (active_grid s1) = Some g1" "ggood cw g1"
    unfolding good_at_def by blast
  let ?slot = "placeholder_slot (color_id (st_fg (sn_style s))) (color_id (st_ul (sn_style s))) g1"
  obtain slot g2 where slot: "?slot = (slot, g2)" by fastforce
  have g2: "ggood cw g2" using good_placements(4) [of fit margins cw _ _ g1] g1(2) slot by (metis snd_conv)
  have marks: "sgood cw n ((put_grid g s1)\<lparr>sn_placeholder_marks := 0, sn_last_char := None\<rparr>)" if "ggood cw g" for g
    using put_good [OF good that] by (simp add: screen_good_def screen_parts_def)
  have "sgood_at cw n
      (case slot of None \<Rightarrow> Some (put_grid g2 s1)
       | Some slot \<Rightarrow> (case placeholder_part slot g2 of (r, c) \<Rightarrow>
           map_option (\<lambda>g. (put_grid (col_inc 1 g) s1)\<lparr>sn_placeholder_marks := 0, sn_last_char := None\<rparr>)
             (write_cell (gd_pos g2) (ct_image slot r c) st g2)))"
  proof (cases slot)
    case (Some i)
    obtain r c where part: "placeholder_part i g2 = (r, c)" by fastforce
    obtain g3 where "write_cell (gd_pos g2) (ct_image i r c) st g2 = Some g3" "ggood cw g3"
      using good_edits(1) [OF g2 text_no_continuation(3)] unfolding good_at_def by blast
    then show ?thesis using marks good_cursor_moves(7) part Some by simp
  qed (simp add: put_good [OF good g2])
  then show ?thesis
    unfolding write_placeholder_def Let_def s1 prod.case g1(1) using slot by (cases slot) simp_all
qed

lemma mark_text_good:
  assumes "ggood cw g" "mark_text k m slot r c g = (t, g')"
  shows "ggood cw g' \<and> (case t of None \<Rightarrow> True | Some t \<Rightarrow> \<not> ct_is_continuation t)"
  using assms good_placements(4) [of fit margins cw _ _ g]
  by (auto simp: mark_text_def Let_def text_no_continuation case_prod_beta split: if_splits prod.splits option.splits)

lemma mark_placeholder_good:
  assumes "sgood cw n s" "mark_placeholder p m s = Some r"
  shows "sgood_at cw n r"
proof -
  obtain cell slot i k where c: "drawing_cell p (active_grid s) = Some cell" "ct_kind (c_text cell) = ImageText slot i k"
    and r: "r = (case mark_text (sn_placeholder_marks s) m slot i k (active_grid s) of
                          (None, g) \<Rightarrow> Some (put_grid g s)
                        | (Some t, g) \<Rightarrow>
                            map_option (\<lambda>g. (put_grid g s)\<lparr>sn_placeholder_marks := sn_placeholder_marks s + 1\<rparr>)
                              (write_cell p t (c_style cell) g))"
    using assms(2) by (auto simp: mark_placeholder_def Let_def split: option.splits text_kind.splits)
  obtain t g where t: "mark_text (sn_placeholder_marks s) m slot i k (active_grid s) = (t, g)" by fastforce
  have g: "ggood cw g" "case t of None \<Rightarrow> True | Some t \<Rightarrow> \<not> ct_is_continuation t"
    using mark_text_good [OF active_good [OF assms(1)] t] by simp_all
  show ?thesis
  proof (cases t)
    case None
    then show ?thesis using r t put_good [OF assms(1) g(1)] by simp
  next
    case (Some u)
    then have "\<not> ct_is_continuation u" using g(2) by simp
    then obtain g' where "write_cell p u (c_style cell) g = Some g'" "ggood cw g'"
      using good_edits(1) [OF g(1)] unfolding good_at_def by blast
    then show ?thesis
      using r t Some put_good [OF assms(1), of g'] by (simp add: screen_good_def screen_parts_def)
  qed
qed

lemma next_set_good: "sgood cw n s \<Longrightarrow> next_set s \<noteq> None"
  by (auto simp: next_set_def screen_good_def screen_parts_def split: option.splits)

lemma translate_small: "c < 0x80 \<Longrightarrow> charset_translate cs c < 2 ^ 23"
proof -
  assume c: "c < 0x80"
  have "list_all (\<lambda>d. d < 2 ^ 23) dec_drawings" "length dec_drawings = 32" by (simp_all add: dec_drawings_def)
  moreover have "0x5F \<le> c \<and> c \<le> 0x7E \<Longrightarrow> c - 0x5F < 32" by arith
  ultimately have "0x5F \<le> c \<and> c \<le> 0x7E \<Longrightarrow> dec_drawings ! (c - 0x5F) < 2 ^ 23"
    unfolding list_all_length by metis
  then show ?thesis using c by (auto simp: charset_translate_def dec_line_drawing_def split: charset.split)
qed

lemma put_char_good:
  assumes "sgood cw n s" "c < 2 ^ 23"
  shows "sgood_at cw n (put_char cw c s)"
proof -
  obtain cs where cs: "next_set s = Some cs" using next_set_good [OF assms(1)] by auto
  define s1 where "s1 = s\<lparr>sn_single_shift := None\<rparr>"
  have s1: "sgood cw n s1" using assms(1) by (simp add: s1_def screen_good_def screen_parts_def)
  define d where "d = (if c < 0x80 then charset_translate cs c else c)"
  have d: "d < 2 ^ 29" using assms(2) translate_small [of c cs] by (auto simp: d_def)
  have "sgood_at cw n
     (if scalar_width cw d = None then Some s1
      else if d = placeholder then write_placeholder cw s1
      else case Option.bind (mark_index d) (\<lambda>m. Option.bind (prev_pos s1) (\<lambda>p. mark_placeholder p m s1)) of
             Some r \<Rightarrow> r | None \<Rightarrow> put_scalar cw d s1)"
    using s1 write_placeholder_good [OF s1] put_scalar_good [OF s1 d] mark_placeholder_good [OF s1]
    by (auto split: option.split bind_splits)
  then show ?thesis unfolding put_char_def cs option.case Let_def s1_def d_def .
qed

end

lemma style_id_width: "gd_width (active_grid (snd (style_id s))) = gd_width (active_grid s)"
proof -
  have i: "gd_width (snd (intern_style st g)) = gd_width g" for st g
    by (simp add: intern_style_def Let_def case_prod_beta)
  have u: "active_grid (s\<lparr>sn_link_ids := x\<rparr>) = active_grid s" for s x by (simp add: active_grid_def)
  have l: "gd_width (active_grid (snd (current_link_id s))) = gd_width (active_grid s)"
    by (auto simp: current_link_id_def Let_def intern_link_in_def case_prod_beta u split: option.split)
  show ?thesis using i l by (simp add: style_id_def Let_def case_prod_beta)
qed

context screen_rows
begin

lemma ascii_run_good:
  assumes "sgood cw n s" "list_all print_byte run"
  shows "\<exists>k s'. ascii_run run s = Some (k, s') \<and> sgood cw n s'"
proof (cases "run = [] \<or> gd_right (active_grid s) < pos_col (gd_pos (active_grid s))")
  case False
  define k where "k = min (length run) (gd_right (active_grid s) + 1 - pos_col (gd_pos (active_grid s)))"
  obtain st s1 where s1: "style_id s = (st, s1)" by fastforce
  have good: "sgood cw n s1" and width: "gd_width (active_grid s1) = gd_width (active_grid s)"
    using style_id_good [OF assms(1)] style_id_width [of s] s1 by simp_all
  have "gd_right (active_grid s) < gd_width (active_grid s)"
    using active_good [OF assms(1)] by (simp add: grid_good_def grid_sat_def frame_ok_def)
  then have "pos_col (gd_pos (active_grid s)) < gd_width (active_grid s1)" using False width by simp
  then obtain g where g: "write_ascii_row (gd_pos (active_grid s)) (take k run) st (active_grid s1) = Some g" "ggood cw g"
    using good_edits(12) [OF active_good [OF good]] unfolding good_at_def by blast
  have "unat (run ! (k - 1)) < 2 ^ LENGTH(8)" by (rule unsigned_less)
  then have "sgood cw n ((put_grid (col_inc k g) s1)\<lparr>sn_last_char := Some (unat (run ! (k - 1))), sn_placeholder_marks := 0\<rparr>)"
    using put_good [OF good good_cursor_moves(7) [OF g(2), of k]] by (simp add: screen_good_def screen_parts_def)
  then show ?thesis using False g(1) s1 by (simp add: ascii_run_def Let_def k_def)
qed (use assms in \<open>simp add: ascii_run_def Let_def\<close>)

lemma text_run_good: "sgood cw n s \<Longrightarrow> sgood_at cw n (text_run_on cw bs s)"
proof (induction cw bs s rule: text_run_on.induct)
  case (2 cw b bs s)
  define k where "k = max 1 (utf8_len b)"
  define c where "c = code_point (take k (b # bs))"
  define left where "left = drop k (b # bs)"
  obtain s1 where s1: "put_char cw c s = Some s1" "sgood cw n s1"
    using put_char_good [OF 2(3)] code_point_bound unfolding screen_at_def c_def by blast
  show ?case
  proof (cases "\<not> (0x20 \<le> c \<and> c \<le> 0x7E) \<or> md_insert (sn_modes s1) \<or> gl_set s1 \<noteq> AsciiSet")
    case True
    have "sgood_at cw n (text_run_on cw left s1)"
      using 2(1) [OF k_def c_def left_def s1(1) True s1(2)] .
    then show ?thesis
      unfolding text_run_on.simps(2) Let_def k_def [symmetric] c_def [symmetric] left_def [symmetric] s1(1) option.case if_P [OF True] .
  next
    case False
    have "list_all print_byte (takeWhile print_byte left)" by (auto simp: list_all_iff dest: set_takeWhileD)
    then obtain j s2 where s2: "ascii_run (takeWhile print_byte left) s1 = Some (j, s2)" "sgood cw n s2"
      using ascii_run_good [OF s1(2)] by blast
    have "sgood_at cw n (text_run_on cw (drop j left) s2)"
      using 2(2) [OF k_def c_def left_def s1(1) False s2(1) refl s2(2)] .
    then show ?thesis
      unfolding text_run_on.simps(2) Let_def k_def [symmetric] c_def [symmetric] left_def [symmetric] s1(1) option.case
        if_not_P [OF False] s2(1) prod.case .
  qed
qed simp

lemma repeat_last_good:
  assumes "sgood cw n s"
  shows "sgood_at cw n (repeat_last cw k s)"
proof (cases "sn_last_char s")
  case (Some c)
  then have c: "c < 2 ^ 29" using assms by (simp add: screen_good_def screen_parts_def)
  have "\<exists>s'. times_opt j (write_new cw c w) s = Some s' \<and> sgood cw n s'" for j w
    by (rule times_opt_keeps) (use assms write_new_good [OF _ c] in \<open>auto simp: screen_at_def\<close>)
  then show ?thesis using Some by (simp add: repeat_last_def screen_at_def)
qed (use assms in \<open>simp add: repeat_last_def\<close>)

section \<open>Control sequences\<close>

lemma good_set_sides_full: "ggood cw g \<Longrightarrow> ggood cw (g\<lparr>gd_left := 0, gd_right := gd_width g - 1\<rparr>)"
  by (auto simp: grid_good_def grid_sat_def frame_ok_def rows_sat_def margins_active_def view_ok_at_def max_scrollback_def)

lemma good_full_margins: "ggood cw g \<Longrightarrow> ggood_at cw (set_margins 0 (gd_width g - 1) g)"
  using good_set_pos good_set_sides_full [of cw g] by (auto simp: set_margins_def Let_def)

lemma good_csi_grid:
  assumes "ggood cw g" "csi_grid cw st p = Some f"
  shows "ggood_at cw (f g)"
proof -
  note moves = good_cursor_moves [OF assms(1)]
  have set0: "ggood_at cw (col_set_to 0 (row_inc_clamp k g))" "ggood_at cw (col_set_to 0 (row_dec_clamp k g))" for k
    using good_col_set moves by simp_all
  have region: "ggood_at cw (set_region p g)" using good_region [OF assms(1)] by (simp add: set_region_def)
  show ?thesis
    using assms(2) assms(1) moves set0 region good_edits [OF assms(1)] good_col_set [OF assms(1)] good_set_pos [OF assms(1)]
      good_tabs [OF assms(1)] good_lines [OF assms(1)] good_scroll [OF assms(1)] good_scroll_down [OF assms(1)]
    by (simp add: csi_grid_def Let_def split: if_splits) auto
qed

end

lemma screen_fields:
  assumes "screen_good fit m cw n s" "sn_grid s' = sn_grid s" "sn_alt_grid s' = sn_alt_grid s" "sn_charsets s' = sn_charsets s"
    "sn_single_shift s' = sn_single_shift s" "sn_last_char s' = sn_last_char s" "sn_images s' = sn_images s"
  shows "screen_good fit m cw n s'"
  using assms by (simp add: screen_good_def)

lemma screen_reply_good [simp]: "screen_good fit m cw n (screen_reply bs s) = screen_good fit m cw n s"
  "screen_good fit m cw n (emit_event ev s) = screen_good fit m cw n s"
  by (simp_all add: screen_reply_def emit_event_def screen_good_def)

context screen_rows
begin

lemma cursor_saves:
  assumes "sgood cw n s"
  shows "sgood cw n (save_cursor s)" "sgood cw n (restore_cursor s)" "sgood cw n (exit_alternate_grid s)"
    "sgood cw n (report_size_inband s)"
proof -
  note moves = good_cursor_moves [OF active_good [OF assms]]
  have at: "sgood cw n (at_grid grid_save_cursor s)" "sgood cw n (at_grid grid_restore_cursor s)"
    by (rule at_grid_good [OF assms], rule moves)+
  show "sgood cw n (save_cursor s)" by (rule screen_fields [OF at(1)]) (simp_all add: save_cursor_def)
  show "sgood cw n (restore_cursor s)" by (rule screen_fields [OF at(2)]) (simp_all add: restore_cursor_def)
  show "sgood cw n (exit_alternate_grid s)"
    by (rule screen_fields [OF assms]) (simp_all add: exit_alternate_grid_def)
  show "sgood cw n (report_size_inband s)" using assms by (simp add: report_size_inband_def Let_def)
qed

lemma enter_alternate_good:
  assumes "sgood cw n s"
  shows "sgood_at cw n (enter_alternate_grid cw clear s)"
proof -
  define s1 where "s1 = (let s = s\<lparr>sn_grid := set_scrollback cw 0 (sn_grid s)\<rparr>
      in if md_alt_screen (sn_modes s) then s
         else s\<lparr>sn_modes := (sn_modes s)\<lparr>md_alt_screen := True\<rparr>, sn_kitty := sn_alt_kitty s, sn_alt_kitty := sn_kitty s\<rparr>)"
  have "ggood cw (sn_grid s)" using assms by (simp add: screen_good_def screen_parts_def)
  then have s1: "sgood cw n s1"
    using assms good_views(2) by (simp add: s1_def Let_def screen_good_def screen_parts_def)
  obtain st g where i: "intern_style style_default (sn_alt_grid s1) = (st, g)" by fastforce
  have g: "ggood cw g" using good_intern_style [of fit margins cw style_default "sn_alt_grid s1"] s1 i
    by (simp add: screen_good_def screen_parts_def)
  have "ggood cw (snd (remove_placements (\<lambda>_. True) (erase_all st g)))" using good_erase_all [OF g] by simp
  then have "ggood_at cw (set_pos (pos_at 0 0) (snd (remove_placements (\<lambda>_. True) (erase_all st g))))" by (rule good_set_pos)
  then obtain g' where g': "set_pos (pos_at 0 0) (snd (remove_placements (\<lambda>_. True) (erase_all st g))) = Some g'" "ggood cw g'"
    unfolding good_at_def by blast
  have "sgood cw n (s1\<lparr>sn_alt_grid := g'\<rparr>)" using s1 g'(2) by (simp add: screen_good_def screen_parts_def)
  then show ?thesis
    unfolding enter_alternate_grid_def Let_def s1_def [unfolded Let_def, symmetric] using s1 i g'(1) by simp
qed

text \<open>The width of a grid, where margins are not to be.\<close>

lemma widths_equal: "\<not> margins \<Longrightarrow> ggood cw g \<Longrightarrow> ggood cw a \<Longrightarrow> gd_width g = gd_width a"
  using fit_width [of "gd_width g" "gd_rows g ! 0" "gd_width a" "gd_rows a ! 0"] rows_sat_nth [of fit g 0] rows_sat_nth [of fit a 0]
  by (auto simp: grid_good_def grid_sat_def frame_ok_def)

lemma scroll_region_width: "set_scroll_region a b g = Some g' \<Longrightarrow> gd_width g' = gd_width g"
  by (auto simp: set_scroll_region_def set_pos_def row_clamps clamp_to_margins_def Let_def split: if_splits)

lemma good_plain_grid:
  assumes "ggood cw g" "margins \<or> width = gd_width g"
  shows "ggood_at cw (plain_grid height width g)"
proof -
  obtain g1 where g1: "set_scroll_region 0 (height - 1) g = Some g1" "ggood cw g1"
    using good_region [OF assms(1)] unfolding good_at_def by blast
  have "ggood_at cw (set_margins 0 (width - 1) g1)"
  proof (cases margins)
    case True
    then show ?thesis using good_margins [OF g1(2)] by simp
  next
    case False
    then show ?thesis using good_full_margins [OF g1(2)] assms(2) scroll_region_width [OF g1(1)] by simp
  qed
  then show ?thesis using g1 good_origin by (auto simp: plain_grid_def intro: good_at_bind)
qed

lemma soft_reset_good:
  assumes "sgood cw n s"
  shows "sgood_at cw n (soft_reset s)"
proof -
  define s1 where "s1 = s\<lparr>sn_modes := modes_default\<lparr>md_alt_screen := md_alt_screen (sn_modes s)\<rparr>, sn_style := style_default,
                sn_saved_style := style_default, sn_link := None, sn_link_ids := (None, None),
                sn_cursor_style := DefaultCursor, sn_charsets := replicate 4 AsciiSet, sn_gl := 0,
                sn_single_shift := None, sn_mouse_mode := MouseNone, sn_mouse_encoding := EncDefault\<rparr>"
  have s1: "sgood cw n s1" using assms by (simp add: s1_def screen_good_def screen_parts_def)
  have g: "ggood cw (sn_grid s1)" "ggood cw (sn_alt_grid s1)" using s1 by (simp_all add: screen_good_def screen_parts_def)
  have "margins \<or> gd_width (sn_grid s1) = gd_width (sn_alt_grid s1)" using widths_equal g by blast
  then obtain a b where ab: "plain_grid (gd_height (sn_grid s1)) (gd_width (sn_grid s1)) (sn_grid s1) = Some a" "ggood cw a"
    "plain_grid (gd_height (sn_grid s1)) (gd_width (sn_grid s1)) (sn_alt_grid s1) = Some b" "ggood cw b"
    using good_plain_grid [OF g(1)] good_plain_grid [OF g(2)] unfolding good_at_def by blast
  have "sgood cw n (s1\<lparr>sn_grid := a, sn_alt_grid := b\<rparr>)" using s1 ab by (simp add: screen_good_def screen_parts_def)
  then have "sgood_at cw n (on_grid (set_pos (gd_pos a)) (s1\<lparr>sn_grid := a, sn_alt_grid := b\<rparr>))"
    using on_grid_good good_set_pos active_good by blast
  moreover have "sn_grid s1 = sn_grid s" "sn_alt_grid s1 = sn_alt_grid s" by (simp_all add: s1_def)
  ultimately show ?thesis
    using ab(1,3) unfolding soft_reset_def Let_def s1_def [symmetric] by simp
qed

lemma mode_flags_good: "sgood cw n s \<Longrightarrow> sgood cw n (set_dec_flag mode on s)" "sgood cw n s \<Longrightarrow> sgood cw n (set_ansi_mode mode on s)"
proof -
  have mouse: "sgood cw n (set_mouse_mode m on s) = sgood cw n s" "sgood cw n (set_mouse_encoding q on s) = sgood cw n s"
    "sgood cw n (s\<lparr>sn_modes := md\<rparr>) = sgood cw n s" for m q md s
    by (simp_all add: set_mouse_mode_def set_mouse_encoding_def screen_good_def)
  show "sgood cw n s \<Longrightarrow> sgood cw n (set_dec_flag mode on s)"
    by (simp add: set_dec_flag_def mouse cursor_saves(4) Let_def)
  show "sgood cw n s \<Longrightarrow> sgood cw n (set_ansi_mode mode on s)"
    by (simp add: set_ansi_mode_def mouse)
qed

lemma dec_mode_good:
  assumes "sgood cw n s"
  shows "sgood_at cw n (set_dec_mode cw mode on s)"
proof -
  have s1: "sgood cw n (s\<lparr>sn_modes := md\<rparr>)" for md by (rule screen_fields [OF assms]) simp_all
  have "sgood_at cw n (on_grid (\<lambda>g. set_margins 0 (gd_width g - 1) g) (s\<lparr>sn_modes := md\<rparr>))" for md
    using on_grid_good [OF s1] good_full_margins [OF active_good [OF s1]] by simp
  moreover have "sgood_at cw n (on_grid (set_origin_mode on) s)"
    using on_grid_good [OF assms] good_origin [OF active_good [OF assms]] by simp
  ultimately show ?thesis
    using s1 assms cursor_saves enter_alternate_good mode_flags_good by (simp add: set_dec_mode_def Let_def)
qed

lemma set_modes_good:
  assumes "sgood cw n s"
  shows "sgood_at cw n (set_modes cw p s)"
proof -
  let ?f = "\<lambda>i s. if is_sub i p then Some s
              else case get_opt i p of
                None \<Rightarrow> Some s
              | Some mode \<Rightarrow>
                  if p_prefix p = 0x3F then set_dec_mode cw mode (p_final p = 0x68) s
                  else Some (set_ansi_mode mode (p_final p = 0x68) s)"
  have "\<exists>s'. ?f i s = Some s' \<and> sgood cw n s'" if "sgood cw n s" for i s
    using dec_mode_good [OF that] mode_flags_good(2) [OF that] that by (auto simp: screen_at_def split: option.split)
  then have "\<exists>s'. fold_opt ?f [0..<p_len p] s = Some s' \<and> sgood cw n s'"
    using fold_opt_keeps [of "[0..<p_len p]" "sgood cw n" ?f s] assms by blast
  then show ?thesis by (simp add: set_modes_def screen_at_def)
qed

lemma erases_good:
  assumes "sgood cw n s"
  shows "sgood_at cw n (erase_display mode s)" "sgood_at cw n (erase_line mode s)"
proof -
  obtain st s1 where s1: "style_id s = (st, s1)" by fastforce
  then have good: "sgood cw n s1" using style_id_good [OF assms] by simp
  note g = active_good [OF good]
  show "sgood_at cw n (erase_display mode s)" "sgood_at cw n (erase_line mode s)"
    using good on_grid_good [OF good] at_grid_good [OF good] good_edits [OF g] good_erase_all [OF g] good_views [OF g]
    by (simp_all add: erase_display_def erase_line_def s1)
qed

end

text \<open>A sequence that may set left and right margins.\<close>

definition sets_sides :: "params \<Rightarrow> bool" where
  "sets_sides p = (p_prefix p = 0 \<and> p_inter p = 0 \<and> p_final p = 0x73)"

definition seq_sets_sides :: "seq \<Rightarrow> bool" where
  "seq_sets_sides q = (case q of CsiSeq p \<Rightarrow> sets_sides p | _ \<Rightarrow> False)"

context screen_rows
begin

lemma unseen_good:
  assumes "sgood cw n s"
  shows "sgood cw n (kitty_keyboard p s)" "sgood cw n (window_op p s)" "sgood cw n (graphics_attributes p s)"
    "sgood cw n (dsr k s)" "sgood cw n (dec_dsr k s)" "sgood cw n (request_mode p s)"
  using assms
  by (auto simp: kitty_keyboard_def window_op_def graphics_attributes_def dsr_def dec_dsr_def request_mode_def Let_def
      screen_good_def [of _ _ _ _ "_\<lparr>sn_title := _, sn_title_stack := _\<rparr>"] screen_good_def [of _ _ _ _ "_\<lparr>sn_title_stack := _\<rparr>"]
      screen_good_def [of _ _ _ _ "_\<lparr>sn_kitty := _\<rparr>"] screen_good_def [of _ _ _ _ s] split: option.split prod.split)

lemma good_sides: "ggood cw g \<Longrightarrow> margins \<Longrightarrow> ggood_at cw (set_sides p g)"
  using good_margins [of fit margins cw g] by (simp add: set_sides_def)

lemma csi_screen_good:
  assumes "sgood cw n s" "margins \<or> p_final p \<noteq> 0x73"
  shows "sgood_at cw n (csi_screen cw p s)"
proof -
  have style: "sgood cw n (s\<lparr>sn_style := st\<rparr>)" for st by (rule screen_fields [OF assms(1)]) simp_all
  have sides: "p_final p = 0x73 \<Longrightarrow> sgood_at cw n (on_grid (set_sides p) s)"
    using on_grid_good [OF assms(1)] good_sides [OF active_good [OF assms(1)]] assms(2) by simp
  show ?thesis
    using assms(1) style sides erases_good [OF assms(1)] repeat_last_good [OF assms(1)] set_modes_good [OF assms(1)]
      unseen_good [OF assms(1)] cursor_saves [OF assms(1)]
    unfolding csi_screen_def Let_def by simp
qed

lemma csi_prefixed_good:
  assumes "sgood cw n s"
  shows "sgood_at cw n (csi_prefixed cw p s)"
  using assms erases_good [OF assms] set_modes_good [OF assms] unseen_good [OF assms]
  by (simp add: csi_prefixed_def Let_def)

lemma shift_columns_good:
  assumes "ggood cw g" "\<And>g. ggood cw g \<Longrightarrow> ggood_at cw (f g)"
  shows "ggood_at cw (shift_columns f g)"
  unfolding shift_columns_def
  by (rule good_at_map) (use assms good_cursor_moves(1) in auto)

lemma csi_inter_good:
  assumes "sgood cw n s"
  shows "sgood_at cw n (csi_inter st p s)"
proof -
  note g = active_good [OF assms]
  have fields: "sgood cw n (s\<lparr>sn_cursor_style := c\<rparr>)" "sgood cw n (s\<lparr>sn_sgr_stack := k\<rparr>)"
    "sgood cw n (s\<lparr>sn_style := t, sn_sgr_stack := k\<rparr>)" for c k t
    by (rule screen_fields [OF assms]; simp)+
  have cols: "sgood_at cw n (on_grid (insert_columns k st) s)" "sgood_at cw n (on_grid (delete_columns k st) s)"
    "sgood_at cw n (on_grid (shift_columns (insert_columns k st)) s)"
    "sgood_at cw n (on_grid (shift_columns (delete_columns k st)) s)" for k
    using on_grid_good [OF assms] good_edits [OF g] shift_columns_good [OF g] good_edits(4,5) by simp_all
  show ?thesis
    using assms fields cols soft_reset_good [OF assms] unseen_good [OF assms]
    by (simp add: csi_inter_def Let_def)
qed

lemma csi_good:
  assumes "sgood cw n s" "margins \<or> \<not> sets_sides p"
  shows "sgood_at cw n (csi cw p s)"
proof -
  obtain st s1 where s1: "style_id s = (st, s1)" by fastforce
  then have good: "sgood cw n s1" using style_id_good [OF assms(1)] by simp
  have "csi_grid cw st p = Some f \<Longrightarrow> sgood_at cw n (on_grid f s1)" for f
    using on_grid_good [OF good] good_csi_grid [OF active_good [OF good]] by simp
  then show ?thesis
    using assms good csi_inter_good [OF good] csi_prefixed_good [OF good] csi_screen_good [OF good]
    by (auto simp: csi_def s1 sets_sides_def split: option.split)
qed

section \<open>Controls and escapes\<close>

lemma line_text_some: "ggood cw g \<Longrightarrow> \<exists>t. line_text r g = Some t"
  using good_height [of fit margins cw g] by (auto simp: line_text_def Let_def)

lemma line_finished_good:
  assumes "sgood cw n s"
  shows "sgood_at cw n (line_finished r s)"
proof -
  obtain t where t: "line_text r (active_grid s) = Some t" using line_text_some [OF active_good [OF assms]] by blast
  have "sgood cw n (s\<lparr>sn_finished := f\<rparr>)" for f by (rule screen_fields [OF assms]) simp_all
  then show ?thesis using assms t by (simp add: line_finished_def)
qed

lemma scroll_in_good:
  assumes "sgood cw n s"
  shows "sgood_at cw n (scroll_in cw s)"
proof -
  obtain st s1 where s1: "style_id s = (st, s1)" by fastforce
  then have good: "sgood cw n s1" using style_id_good [OF assms] by simp
  have "ggood_at cw (map_option snd (row_inc_scroll cw 1 st (active_grid s1)))"
    using good_row_inc [OF active_good [OF good], of 1 st] by (auto simp: good_at_def)
  then show ?thesis using on_grid_good [OF good] by (simp add: scroll_in_def s1)
qed

lemma col_set_good: "sgood cw n s \<Longrightarrow> sgood_at cw n (on_grid (\<lambda>g. col_set_to (c g) g) s)"
  by (rule on_grid_good) (auto intro: good_col_set active_good)

lemma col_set_in_good: "sgood cw n s \<Longrightarrow> sgood_at cw n (col_set_in s)"
  using col_set_good [of cw n s "\<lambda>_. gd_left (active_grid s)"] by (simp add: col_set_in_def)

lemma reverse_index_good:
  assumes "sgood cw n s"
  shows "sgood_at cw n (reverse_index s)"
proof -
  obtain st s1 where s1: "style_id s = (st, s1)" by fastforce
  then have good: "sgood cw n s1" using style_id_good [OF assms] by simp
  show ?thesis using on_grid_good [OF good] good_row_dec [OF active_good [OF good]] by (simp add: reverse_index_def s1)
qed

lemma linefeed_good:
  assumes "sgood cw n s"
  shows "sgood_at cw n (linefeed cw s)"
  unfolding linefeed_def
  by (intro screen_at_bind [OF line_finished_good [OF assms]] screen_at_bind [OF scroll_in_good])
    (auto intro: col_set_in_good)

lemma carriage_return_good:
  assumes "sgood cw n s"
  shows "sgood_at cw n (carriage_return s)"
  unfolding carriage_return_def
  by (rule screen_at_bind [where n = n]) (use assms line_finished_good col_set_good in auto)

lemma control_good:
  assumes "sgood cw n s"
  shows "sgood_at cw n (control cw b s)"
proof -
  note g = active_good [OF assms]
  have gl: "sgood cw n (s\<lparr>sn_gl := k\<rparr>)" for k by (rule screen_fields [OF assms]) simp_all
  have "sgood cw n (at_grid (col_dec 1) s)" by (rule at_grid_good [OF assms]) (rule good_cursor_moves(9) [OF g])
  moreover have "sgood_at cw n (on_grid (tab_forward 1) s)" by (rule on_grid_good [OF assms]) (rule good_tabs(1) [OF g])
  ultimately show ?thesis
    using assms gl linefeed_good [OF assms] carriage_return_good [OF assms] reverse_index_good [OF assms]
    by (simp add: control_def)
qed

lemma grid_new_good:
  assumes "ggood cw g"
  shows "ggood cw (grid_new cw (gd_height g) (gd_width g) scrollback)"
proof -
  have h: "0 < gd_height g" "0 < gd_width g" "fit (gd_width g) (gd_rows g ! 0)"
    using assms rows_sat_nth [of fit g 0] by (auto simp: grid_good_def grid_sat_def frame_ok_def)
  then have "fit (gd_width g) (row_new (gd_width g))" using fit_new by blast
  moreover have "history_ok cw (gd_width g) (history_set_width cw (gd_width g) (history_new scrollback))"
    by (rule history_ok_set_width) (simp_all add: history_new_def)
  moreover have "max (gd_height g) 1 = gd_height g" "max (gd_width g) 1 = gd_width g" using h by simp_all
  ultimately show ?thesis
    using h by (auto simp: grid_new_def Let_def grid_good_def grid_sat_def frame_ok_def rows_sat_def margins_active_def
        view_ok_at_def list_all_iff default_tabs_def)
qed

lemma reset_good:
  assumes "sgood cw n s"
  shows "sgood cw n (reset_with cw k s)"
proof -
  have "ggood cw (sn_grid s)" using assms by (simp add: screen_good_def screen_parts_def)
  then show ?thesis
    using grid_new_good by (simp add: reset_with_def screen_new_def screen_good_def screen_parts_def store_new_def)
qed

lemma screen_escape_good:
  assumes "sgood cw n s"
  shows "sgood_at cw n (screen_escape cw b s)"
proof -
  have fields: "sgood cw n (s\<lparr>sn_gl := k\<rparr>)" "sgood cw n (s\<lparr>sn_modes := md\<rparr>)" for k md
    by (rule screen_fields [OF assms]; simp)+
  have shift: "sgood cw n (s\<lparr>sn_single_shift := Some 2\<rparr>)" "sgood cw n (s\<lparr>sn_single_shift := Some 3\<rparr>)"
    using assms by (simp_all add: screen_good_def screen_parts_def)
  have nel: "sgood_at cw n (do { s \<leftarrow> line_finished r s; s \<leftarrow> scroll_in cw s; col_set_in s })" for r
    by (intro screen_at_bind [OF line_finished_good [OF assms]] screen_at_bind [OF scroll_in_good]) (auto intro: col_set_in_good)
  have "sgood_at cw n (on_grid (put_tab True) s)"
    by (rule on_grid_good [OF assms]) (rule good_tabs(3) [OF active_good [OF assms]])
  then show ?thesis
    using assms fields shift nel scroll_in_good [OF assms] reverse_index_good [OF assms] cursor_saves [OF assms] reset_good [OF assms]
    unfolding screen_escape_def by simp
qed

end

end
