(* ===== verification/Image_Ids.thy ===== *)
theory Image_Ids
  imports Term_Strings
begin

text \<open>
  The store of images: what it holds of is what it counts, within its quota, and an id is found as long
  as one is free.
\<close>

section \<open>Ids\<close>

lemma hm_put_length: "length (hm_put k v m) \<le> length m + 1"
proof -
  have "length (hm_put k v m) = length (hm_keys (hm_put k v m))" by simp
  then show ?thesis unfolding hm_keys_put by simp
qed

lemma hm_del_length: "length (hm_del k m) \<le> length m"
  by (simp add: hm_del_def AList.delete_eq)

lemma retain_length: "length (retain_not k m) \<le> length m"
  by (simp add: retain_not_def)

lemma remove_key_ids: "length (is_by_id (remove_key e k st)) \<le> length (is_by_id st)"
  by (simp add: remove_key_def retain_length split: option.split)

lemma enforce_quota_ids: "length (is_by_id (enforce_quota e keep st)) \<le> length (is_by_id st)"
proof (induction e keep st rule: enforce_quota.induct)
  case (1 e keep st)
  show ?case
    using 1 remove_key_ids order_trans by (subst enforce_quota.simps) (auto split: option.split, blast)
qed

lemma store_insert_ids: "length (is_by_id (snd (store_insert e i k d st))) \<le> length (is_by_id st) + 1"
proof -
  define st1 where "st1 = (case hm_get (is_by_id st) i of
                  None \<Rightarrow> st
                | Some old \<Rightarrow> remove_key e old (st\<lparr>is_by_id := hm_del i (is_by_id st)\<rparr>))"
  have "length (is_by_id st1) \<le> length (is_by_id st)"
    using remove_key_ids [of e _ "st\<lparr>is_by_id := hm_del i (is_by_id st)\<rparr>"] hm_del_length [of i "is_by_id st"]
    by (auto simp: st1_def split: option.split intro: order_trans)
  then show ?thesis
    unfolding store_insert_def Let_def st1_def [symmetric] snd_conv
    by - (rule order_trans [OF enforce_quota_ids], simp, rule order_trans [OF hm_put_length], simp)
qed

lemma store_append_ids: "store_append e i a st = Inr st' \<Longrightarrow> length (is_by_id st') \<le> length (is_by_id st)"
  by (auto simp: store_append_def split: option.splits if_splits intro!: order_trans [OF enforce_quota_ids])

lemma store_remove_ids: "length (is_by_id (snd (store_remove e i st))) \<le> length (is_by_id st)"
  using remove_key_ids [of e _ "st\<lparr>is_by_id := hm_del i (is_by_id st)\<rparr>"] hm_del_length [of i "is_by_id st"]
  by (auto simp: store_remove_def split: option.split intro: order_trans)

text \<open>The candidates run through all ids.\<close>

lemma allocate_id_some:
  assumes "length (is_by_id st) < 2 ^ 32 - 1"
  shows "\<exists>i k. allocate_id st = Some (i, st\<lparr>is_next_id := k\<rparr>) \<and> i \<noteq> 0 \<and> hm_get (is_by_id st) i = None"
proof -
  define cand where "cand k = (0x80000000 + (is_next_id st + k) mod 2 ^ 32) mod (2 ^ 32 :: nat)" for k
  define taken where "taken k = (hm_get (is_by_id st) (cand k) \<noteq> None \<or> cand k = 0)" for k
  have "\<exists>j. \<not> taken j"
  proof (rule ccontr)
    assume "\<not> (\<exists>j. \<not> taken j)"
    then have "cand j \<in> insert 0 (set (hm_keys (is_by_id st)))" for j
      using hm_keys_get [of "cand j" "is_by_id st"] by (auto simp: taken_def)
    moreover have "\<exists>j. cand j = i" if "i < 2 ^ 32" for i
    proof
      show "cand (i + 0x80000000 + (2 ^ 32 - is_next_id st mod 2 ^ 32)) = i"
      proof -
        let ?r = "is_next_id st mod (2 ^ 32 :: nat)"
        have r: "?r < 2 ^ 32" by simp
        have "(is_next_id st + (i + 0x80000000 + (2 ^ 32 - ?r))) mod 2 ^ 32 = (?r + (i + 0x80000000 + (2 ^ 32 - ?r))) mod 2 ^ 32"
          by (rule mod_add_left_eq [symmetric])
        also have "?r + (i + 0x80000000 + (2 ^ 32 - ?r)) = i + 0x80000000 + 2 ^ 32" using r by linarith
        finally have "cand (i + 0x80000000 + (2 ^ 32 - ?r)) = (0x80000000 + (i + 0x80000000 + 2 ^ 32) mod 2 ^ 32) mod 2 ^ 32"
          unfolding cand_def by (rule arg_cong)
        also have "\<dots> = (0x80000000 + (i + 0x80000000 + 2 ^ 32)) mod 2 ^ 32" by (rule mod_add_right_eq)
        also have "0x80000000 + (i + 0x80000000 + 2 ^ 32) = i + 2 * 2 ^ 32" by simp
        also have "(i + 2 * 2 ^ 32) mod 2 ^ 32 = i mod 2 ^ 32" by (rule mod_mult_self1)
        also have "\<dots> = i" using that by (rule mod_less)
        finally show ?thesis .
      qed
    qed
    ultimately have "{..<2 ^ 32} \<subseteq> insert 0 (set (hm_keys (is_by_id st)))"
    by (metis lessThan_iff subsetI)
    then have "card {..<(2 :: nat) ^ 32} \<le> card (insert 0 (set (hm_keys (is_by_id st))))"
      by (rule card_mono [rotated]) simp
    also have "\<dots> \<le> card (set (hm_keys (is_by_id st))) + 1" by (simp add: card_insert_if)
    also have "\<dots> \<le> length (is_by_id st) + 1" using card_length [of "hm_keys (is_by_id st)"] by simp
    finally show False using assms by simp
  qed
  then obtain j where j: "\<not> taken j" by blast
  have "\<exists>k. while_option taken Suc 0 = Some k"
    by (rule measure_while_option_Some [where P = "\<lambda>k. k \<le> j" and f = "\<lambda>k. j - k"])
      (use j in \<open>auto simp: Suc_le_eq le_less diff_less_mono2\<close>)
  then obtain k where k: "while_option taken Suc 0 = Some k" by blast
  then have "\<not> taken k" by (rule while_option_stop)
  then show ?thesis
    using k by (auto simp: allocate_id_def Let_def taken_def [abs_def] cand_def [abs_def])
qed

end
