(* ===== verification/Screen_Runs.thy ===== *)
theory Screen_Runs
  imports Screen_Safe Image_Ids
begin

text \<open>
  Control strings and whole chunks of output, on a screen that keeps its invariant (\<open>Screen_Safe\<close>): each
  sequence takes at most one id of the image store, so that a screen with ids left goes on. The two
  contracts of rows give two invariants of the same code.
\<close>

section \<open>The screen of a test pattern\<close>

lemma write_cell_fields:
  assumes "write_cell p t st g = Some g'"
  shows "gd_width g' = gd_width g" "gd_height g' = gd_height g"
  using assms by (auto simp: write_cell_def row_mut_def touch_def Let_def split: if_splits)

lemma alignment_fields:
  "set_scroll_region a b g = Some g' \<Longrightarrow> gd_height g' = gd_height g"
  by (auto simp: set_scroll_region_def set_pos_def row_clamps clamp_to_margins_def Let_def split: if_splits)

context screen_rows
begin

lemma screen_alignment_good:
  assumes "sgood cw n s"
  shows "sgood_at cw n (screen_alignment s)"
proof -
  obtain st g where i: "intern_style style_default (active_grid s) = (st, g)" by fastforce
  have size: "gd_height (active_grid s) = gd_height g" "gd_width (active_grid s) = gd_width g"
    using i by (auto simp: intern_style_def split: if_splits prod.splits)
  have g: "ggood cw g" using good_intern_style [of fit margins cw style_default "active_grid s"] active_good [OF assms] i by simp
  obtain g1 where g1: "set_scroll_region 0 (gd_height g - 1) g = Some g1" "ggood cw g1"
    using good_region [OF g] unfolding good_at_def by blast
  obtain g2 where g2: "set_margins 0 (gd_width g - 1) g1 = Some g2" "ggood cw g2"
    using good_full_margins [OF g1(2)] scroll_region_width [OF g1(1)] unfolding good_at_def by metis
  have "ggood_at cw (fold_opt (\<lambda>r. fold_opt (\<lambda>c. write_cell (pos_at r c) (ct_scalar 0x45 1) st) cs) rs g2)" for rs cs
    by (intro grid_fold_good g2(2) good_edits(1) text_no_continuation(1)) simp_all
  then obtain g3 where g3: "fold_opt (\<lambda>r. fold_opt (\<lambda>c. write_cell (pos_at r c) (ct_scalar 0x45 1) st) [0..<gd_width g])
      [0..<gd_height g] g2 = Some g3" "ggood cw g3" unfolding good_at_def by blast
  obtain g4 where "set_pos (pos_at 0 0) g3 = Some g4" "ggood cw g4"
    using good_set_pos [OF g3(2)] unfolding good_at_def by blast
  then show ?thesis
    using put_good [OF assms, of g4] g1(1) g2(1) g3(1) i size by (simp add: screen_alignment_def)
qed

lemma escape_nf_good:
  assumes "sgood cw n s"
  shows "sgood_at cw n (escape_nf pre b s)"
  using assms screen_alignment_good [OF assms] by (auto simp: escape_nf_def screen_good_def screen_parts_def)

end

section \<open>Operating system commands\<close>

text \<open>What the invariant reads of two screens.\<close>

definition same_shown :: "screen \<Rightarrow> screen \<Rightarrow> bool" where
  "same_shown s s' =
     (sn_grid s' = sn_grid s \<and> sn_alt_grid s' = sn_alt_grid s \<and> sn_charsets s' = sn_charsets s \<and>
      sn_single_shift s' = sn_single_shift s \<and> sn_last_char s' = sn_last_char s \<and> sn_images s' = sn_images s)"

lemma shown_good: "same_shown s s' \<Longrightarrow> screen_good fit m cw n s \<Longrightarrow> screen_good fit m cw n s'"
  by (simp add: same_shown_def screen_good_def)

lemma shown_trans: "same_shown s s' \<Longrightarrow> same_shown s' s'' \<Longrightarrow> same_shown s s''"
  by (simp add: same_shown_def)

lemma shown_reply [simp]: "same_shown s (screen_reply bs s)" "same_shown s (emit_event ev s)" "same_shown s s"
  by (simp_all add: same_shown_def screen_reply_def emit_event_def)

lemma osc_palette_shown: "same_shown s (osc_palette parts s)"
proof (induction parts s rule: osc_palette.induct)
  case (1 i spec parts s)
  show ?case
    unfolding osc_palette.simps
    by (rule shown_trans [OF _ 1]) (auto simp: same_shown_def screen_reply_def emit_event_def split: option.split)
qed simp_all

lemma osc_dynamic_shown: "same_shown s (osc_dynamic_color code specs s)"
proof (induction code specs s rule: osc_dynamic_color.induct)
  case (2 code spec specs s)
  show ?case
    unfolding osc_dynamic_color.simps
    by (rule shown_trans [OF _ 2]) (auto simp: same_shown_def screen_reply_def emit_event_def set_dynamic_color_def split: option.split)
qed simp

lemma osc_shown: "same_shown s (osc e data s)"
proof -
  have link: "same_shown s (osc_hyperlink pt s)" for pt
    by (auto simp: same_shown_def osc_hyperlink_def set_link_def Let_def split: prod.split)
  have clip: "same_shown s (osc_clipboard e pt s)" for pt
    by (auto simp: osc_clipboard_def split: option.split prod.split)
  have notify: "same_shown s (osc_notify pt s)" for pt
    by (auto simp: osc_notify_def split: option.split prod.split)
  have "same_shown s (osc_code e code pt s)" for code pt
    using link clip notify osc_palette_shown osc_dynamic_shown
    by (simp add: osc_code_def) (simp add: same_shown_def)
  then show ?thesis by (auto simp: osc_def split: option.split prod.split)
qed

section \<open>Images\<close>

lemma good_image:
  assumes "screen_good fit m cw n s" "length (is_by_id st) \<le> k"
  shows "screen_good fit m cw k (s\<lparr>sn_images := st\<rparr>)"
  using assms by (simp add: screen_good_def screen_parts_def)

lemma good_ids: "screen_good fit m cw n s \<Longrightarrow> length (is_by_id (sn_images s)) \<le> n"
  by (simp add: screen_good_def screen_parts_def)

lemma graphics_reply_good [simp]: "screen_good fit m cw n (graphics_reply c t s) = screen_good fit m cw n s"
  by (simp add: graphics_reply_def Let_def)

lemma pending_good [simp]: "screen_good fit m cw n (s\<lparr>sn_pending_image := p\<rparr>) = screen_good fit m cw n s"
  by (simp add: screen_good_def)

lemma free_image_good: "screen_good fit m cw n s \<Longrightarrow> screen_good fit m cw n (free_image e key s)"
  using store_remove_ids [of e _ "sn_images s"] good_ids [of fit m cw n s]
  by (auto simp: free_image_def split: option.split intro!: good_image intro: order_trans)

lemma free_images_good: "screen_good fit m cw n s \<Longrightarrow> screen_good fit m cw n (fold (free_image e) keys s)"
  by (induction keys arbitrary: s) (simp_all add: free_image_good)

lemma remove_picked_good: "screen_good fit m cw n s \<Longrightarrow> screen_good fit m cw n (snd (remove_picked pick s))"
  using put_good active_good good_placements(1) by (fastforce simp: remove_picked_def Let_def case_prod_beta)

lemma delete_reply_good [simp]: "screen_good fit m cw n (delete_reply c what s) = screen_good fit m cw n s"
  by (simp add: delete_reply_def)

lemma graphics_delete_good:
  assumes "screen_good fit m cw n s"
  shows "screen_good fit m cw n (graphics_delete e c s)"
proof -
  have picked: "screen_good fit m cw n (if free then fold (free_image e) keys s' else s')"
    if "screen_good fit m cw n s'" for free keys s' using that free_images_good by simp
  have "screen_good fit m cw n (snd (remove_picked pick s))" for pick by (rule remove_picked_good [OF assms])
  then show ?thesis
    unfolding graphics_delete_def Let_def case_prod_beta delete_reply_good
    using picked assms by (auto split: option.split simp del: split_paired_All)
qed

lemma graphics_control_good:
  assumes "screen_good fit m cw n s"
  shows "screen_good fit m cw n (graphics_control e c s)"
  using store_append_ids [of e "cm_id c" _ "sn_images s"] good_ids [OF assms] assms
  by (auto simp: graphics_control_def split: sum.split intro!: good_image intro: order_trans)

context screen_rows
begin

lemma place_image_good:
  assumes "sgood cw n s" "ou_width e = cw"
  shows "sgood_at cw n (place_image e im c cells s)"
proof -
  have virtual: "sgood cw n (at_grid (\<lambda>g. add_placement p (snd (remove_placements pick g))) s)" for p pick
    by (rule at_grid_good [OF assms(1)]) (simp add: active_good [OF assms(1)])
  obtain st s1 where s1: "style_id s = (st, s1)" by fastforce
  then have good: "sgood cw n s1" using style_id_good [OF assms(1)] by simp
  note g = active_good [OF good]
  have move: "ggood cw g \<Longrightarrow> ggood_at cw (map_option (\<lambda>g. if gd_width g \<le> k then col_inc 1 g else g) (set_pos p g))" for g k p
    by (rule good_at_map) (auto intro: good_set_pos good_cursor_moves(7))
  have scrolled: "ggood cw g \<Longrightarrow> ggood_at cw (if b then scroll_up (ou_width e) k st g else Some g)" for g b k
    using good_scroll assms(2) by simp
  show ?thesis
  proof (cases "cm_unicode c")
    case True
    then show ?thesis using virtual by (simp add: place_image_def Let_def case_prod_beta)
  next
    case False
    show ?thesis
      unfolding place_image_def Let_def case_prod_beta if_not_P [OF False] s1 prod.sel
      by (rule on_grid_good [OF good], rule good_at_bind [OF scrolled [OF g]]) (simp add: move)
  qed
qed

lemma new_image_good:
  assumes "sgood cw n s" "n < 2 ^ 32 - 1" "ou_width e = cw"
  shows "\<exists>i st. allocate_id (sn_images s) = Some (i, st) \<and> i \<noteq> 0 \<and>
    (\<forall>k d. sgood cw (n + 1) (s\<lparr>sn_images := snd (store_insert e i k d st)\<rparr>))"
proof -
  have "length (is_by_id (sn_images s)) \<le> n" by (rule good_ids [OF assms(1)])
  then obtain i k where i: "allocate_id (sn_images s) = Some (i, (sn_images s)\<lparr>is_next_id := k\<rparr>)" "i \<noteq> 0"
    using allocate_id_some [of "sn_images s"] assms(2) by auto
  have "length (is_by_id (snd (store_insert e i j d ((sn_images s)\<lparr>is_next_id := k\<rparr>)))) \<le> n + 1" for j d
    using store_insert_ids [of e i j d "(sn_images s)\<lparr>is_next_id := k\<rparr>"] good_ids [OF assms(1)] by simp
  then show ?thesis using i good_image [OF assms(1)] by blast
qed

lemma sixel_good:
  assumes "sgood cw n s" "n < 2 ^ 32 - 1" "ou_width e = cw"
  shows "sgood_at cw (n + 1) (sixel_string e data s)"
proof (cases "sixel_decode e data")
  case (Some d)
  obtain w h pixels where d: "d = (w, h, pixels)" by (cases d)
  let ?data = "\<lparr>id_format = ImageRgba, id_zlib = False, id_width = w, id_height = h, id_bytes = pixels\<rparr>"
  obtain i st where i: "allocate_id (sn_images s) = Some (i, st)"
    "sgood cw (n + 1) (s\<lparr>sn_images := snd (store_insert e i 0 ?data st)\<rparr>)"
    using new_image_good [OF assms] by blast
  obtain im st' where st: "store_insert e i 0 ?data st = (im, st')" by fastforce
  have s1: "sgood cw (n + 1) (s\<lparr>sn_images := st'\<rparr>)" using i(2) st by simp
  let ?f = "\<lambda>style g. Option.bind (row_inc_scroll (ou_width e) 1 style g) (\<lambda>(_, g'). col_set_to (gd_left g) g')"
  have "sgood_at cw (n + 1) (on_grid (?f style) s2)" if s2: "sgood cw (n + 1) s2" for style s2
  proof (rule on_grid_good [OF s2])
    show "ggood_at cw (?f style (active_grid s2))"
      using good_row_inc [OF active_good [OF s2], of 1 style] good_col_set assms(3) by (fastforce simp: good_at_def)
  qed
  moreover have "sgood cw (n + 1) s2 \<Longrightarrow> sgood cw (n + 1) (snd (style_id s2))" for s2 by (rule style_id_good)
  ultimately have last: "sgood cw (n + 1) s2 \<Longrightarrow> sgood_at cw (n + 1) (let (style, s) = style_id s2 in on_grid (?f style) s)" for s2
    by (simp add: case_prod_beta)
  show ?thesis
    using screen_at_bind [OF place_image_good [OF s1 assms(3)] last] Some d i(1) st
    by (simp add: sixel_string_def)
qed (use screen_good_mono [OF assms(1)] in \<open>simp add: sixel_string_def\<close>)

lemma dcs_good:
  assumes "sgood cw n s" "n < 2 ^ 32 - 1" "ou_width e = cw"
  shows "sgood_at cw (n + 1) (dcs e data s)"
  using screen_good_mono [OF assms(1), of "n + 1"] sixel_good [OF assms]
  by (auto simp: dcs_def xtgettcap_def decrqss_def Let_def split: option.split)

end


context screen_rows
begin

lemma show_image_good: "sgood cw n s \<Longrightarrow> ou_width e = cw \<Longrightarrow> sgood_at cw n (show_image e im c s)"
  by (simp add: show_image_def place_image_good)

lemma shown_insert_good:
  assumes "sgood cw n (s\<lparr>sn_images := snd (store_insert e i k d st)\<rparr>)" "ou_width e = cw"
  shows "sgood_at cw n
    (let (im, st) = store_insert e i k d st
     in Option.bind (show_image e im c (s\<lparr>sn_images := st\<rparr>)) (\<lambda>s. Some (graphics_reply c' t s)))"
  using assms(1) by (auto simp: case_prod_beta intro!: screen_at_bind [OF show_image_good [OF _ assms(2)]])

lemma store_transmission_good:
  assumes "sgood cw n s" "n < 2 ^ 32 - 1" "ou_width e = cw"
  shows "sgood_at cw (n + 1) (store_transmission e c data s)"
proof -
  have mono: "sgood cw (n + 1) s" by (rule screen_good_mono [OF assms(1)]) simp
  obtain i st where i: "allocate_id (sn_images s) = Some (i, st)" "i \<noteq> 0"
    and put: "\<And>k d. sgood cw (n + 1) (s\<lparr>sn_images := snd (store_insert e i k d st)\<rparr>)"
    using new_image_good [OF assms] by blast
  have given: "sgood cw (n + 1) (s\<lparr>sn_images := snd (store_insert e j k d (sn_images s))\<rparr>)" for j k d
    using store_insert_ids [of e j k d "sn_images s"] good_ids [OF assms(1)]
    by (intro good_image [OF assms(1)]) linarith
  have "sgood cw (n + 1) (case store_append e (cm_id c) a (sn_images s) of
      Inl err \<Rightarrow> graphics_reply c err s | Inr st \<Rightarrow> graphics_reply c t (s\<lparr>sn_images := st\<rparr>))" for a t
    using store_append_ids [of e "cm_id c" a "sn_images s"] good_ids [OF assms(1)] mono
    by (auto split: sum.split intro!: good_image [OF assms(1)] intro: le_trans le_SucI)
  then show ?thesis
    using mono i shown_insert_good [OF put assms(3), unfolded Let_def] shown_insert_good [OF given assms(3), unfolded Let_def]
    unfolding store_transmission_def Let_def by simp
qed

lemma finish_transmission_good:
  assumes "sgood cw n s" "n < 2 ^ 32 - 1" "ou_width e = cw"
  shows "sgood_at cw (n + 1) (finish_transmission e c data s)"
proof -
  have mono: "sgood cw (n + 1) s" by (rule screen_good_mono [OF assms(1)]) simp
  show ?thesis
    using mono store_transmission_good [OF assms] by (auto simp: finish_transmission_def split: sum.split prod.split)
qed

lemma graphics_put_good:
  assumes "sgood cw n s" "ou_width e = cw"
  shows "sgood_at cw n (graphics_put e c s)"
proof -
  have "sgood_at cw n (map_option (graphics_reply c' t) (place_image e im c' b s))" for im c' b t
    using place_image_good [OF assms, of im c' b] by (auto simp: screen_at_def)
  then show ?thesis using assms(1) by (auto simp: graphics_put_def Let_def split: option.split)
qed

lemma new_command_good:
  assumes "sgood cw n s" "n < 2 ^ 32 - 1" "ou_width e = cw"
  shows "sgood_at cw (n + 1) (new_command e pairs payload s)"
proof -
  have mono: "sgood cw (n + 1) s" by (rule screen_good_mono [OF assms(1)]) simp
  then show ?thesis
    using finish_transmission_good [OF assms] graphics_put_good [OF mono assms(3)] graphics_delete_good [OF mono]
      graphics_control_good [OF mono]
    by (auto simp: new_command_def Let_def split: sum.split)
qed

lemma graphics_command_good:
  assumes "sgood cw n s" "n < 2 ^ 32 - 1" "ou_width e = cw"
  shows "sgood_at cw (n + 1) (graphics_command e body s)"
proof -
  have mono: "sgood cw (n + 1) s" by (rule screen_good_mono [OF assms(1)]) simp
  have "sgood cw n (s\<lparr>sn_pending_image := None\<rparr>)" using assms(1) by simp
  then show ?thesis
    using mono finish_transmission_good [OF _ assms(2,3)] new_command_good [OF assms]
    by (auto simp: graphics_command_def Let_def split: prod.split option.split)
qed

section \<open>Output\<close>

lemma apply_seq_good:
  assumes "sgood cw n s" "n < 2 ^ 32 - 1" "ou_width e = cw" "margins \<or> \<not> seq_sets_sides q"
  shows "sgood_at cw (n + 1) (apply_seq e q s)"
proof -
  have up: "sgood_at cw n r \<Longrightarrow> sgood_at cw (n + 1) r" for r by (erule screen_at_mono) simp
  note pieces = text_run_good [OF assms(1), THEN up] control_good [OF assms(1), THEN up] screen_escape_good [OF assms(1), THEN up]
    escape_nf_good [OF assms(1), THEN up] csi_good [OF assms(1), THEN up]
  have "sgood_at cw (n + 1) (Some s)" by (rule up) (simp add: assms(1))
  moreover have "sgood_at cw (n + 1) (Some (osc e data s))" for data
    by (rule up) (simp add: shown_good [OF osc_shown assms(1)])
  ultimately show ?thesis
    using pieces dcs_good [OF assms(1-3)] graphics_command_good [OF assms(1-3)] assms(3,4)
    by (auto simp: apply_seq_def seq_sets_sides_def split: seq.split list.split)
qed

lemma apply_seqs_good:
  assumes "sgood cw n s" "n + length seqs < 2 ^ 32" "ou_width e = cw" "margins \<or> list_all (\<lambda>q. \<not> seq_sets_sides q) seqs"
  shows "sgood_at cw (n + length seqs) (fold_opt (apply_seq e) seqs s)"
  using assms
proof (induction seqs arbitrary: n s)
  case (Cons q seqs)
  obtain s' where s': "apply_seq e q s = Some s'" "sgood cw (n + 1) s'"
    using apply_seq_good [OF Cons.prems(1) _ assms(3), of q] Cons.prems(2,4) by (auto simp: screen_at_def)
  have "sgood_at cw ((n + 1) + length seqs) (fold_opt (apply_seq e) seqs s')"
    by (rule Cons.IH [OF s'(2) _ assms(3)]) (use Cons.prems(2,4) in auto)
  then show ?case using s'(1) by simp
qed simp

lemma settle_views_good:
  assumes "sgood cw n s" "ou_width e = cw"
  shows "sgood cw n (settle_views e s)"
proof -
  have g: "ggood cw (sn_grid s)" "ggood cw (sn_alt_grid s)" using assms(1) by (simp_all add: screen_good_def screen_parts_def)
  have "sgood cw n (s\<lparr>sn_grid := snd (take_dropped_images (settle_view cw (sn_grid s))),
      sn_alt_grid := snd (take_dropped_images (settle_view cw (sn_alt_grid s)))\<rparr>)"
    using assms(1) good_views(1) [OF g(1)] good_views(1) [OF g(2)] by (simp add: screen_good_def screen_parts_def)
  then show ?thesis using free_images_good assms(2) by (simp add: settle_views_def Let_def case_prod_beta)
qed

lemma process_output_good:
  assumes "sgood cw n s" "ou_width e = cw" "n + length (snd (scan_feed (sn_scanner s) data)) < 2 ^ 32"
    "margins \<or> list_all (\<lambda>q. \<not> seq_sets_sides q) (snd (scan_feed (sn_scanner s) data))"
  shows "sgood_at cw (n + length (snd (scan_feed (sn_scanner s) data))) (process_output e data s)"
proof -
  obtain sc seqs where f: "scan_feed (sn_scanner s) data = (sc, seqs)" by fastforce
  have "sgood cw n (s\<lparr>sn_scanner := sc0\<rparr>)" for sc0 by (rule screen_fields [OF assms(1)]) simp_all
  then obtain s' where s': "fold_opt (apply_seq e) seqs (s\<lparr>sn_scanner := scanner_new ModeOutput\<rparr>) = Some s'"
    "sgood cw (n + length seqs) s'"
    using apply_seqs_good [of cw n _ seqs e] assms(2-4) f unfolding screen_at_def by auto
  have "sgood cw (n + length seqs) (s'\<lparr>sn_scanner := sc\<rparr>)" by (rule screen_fields [OF s'(2)]) simp_all
  then show ?thesis using s'(1) f settle_views_good [OF _ assms(2)] by (simp add: process_output_def)
qed

end

section \<open>Runs of a screen\<close>

text \<open>
  A screen and how many sequences it has been given, which bounds the ids in its image store: what a step
  is given stays below all the ids there are. Where \<open>sides\<close> does not hold, no sequence sets left and right
  margins. The other steps are the owner's.
\<close>

definition seqs_of :: "byte list \<Rightarrow> screen \<Rightarrow> seq list" where
  "seqs_of data s = snd (scan_feed (sn_scanner s) data)"

inductive screen_step :: "outside \<Rightarrow> bool \<Rightarrow> screen \<times> nat \<Rightarrow> screen \<times> nat \<Rightarrow> bool" for e sides where
  fed: "process_output e data s = Some s' \<Longrightarrow> sides \<or> list_all (\<lambda>q. \<not> seq_sets_sides q) (seqs_of data s) \<Longrightarrow>
    n + length (seqs_of data s) < 2 ^ 32 \<Longrightarrow> screen_step e sides (s, n) (s', n + length (seqs_of data s))"
| scroll: "screen_step e sides (s, n) (screen_set_scrollback (ou_width e) k s, n)"
| cell_pixels: "screen_step e sides (s, n) (set_cell_pixels w h s, n)"
| line_tap: "screen_step e sides (s, n) (set_line_tap on s, n)"
| events: "screen_step e sides (s, n) (snd (take_events s), n)"
| finished: "screen_step e sides (s, n) (snd (take_finished_lines s), n)"
| end_sync: "screen_step e sides (s, n) (end_sync_update s, n)"

inductive fresh_screen :: "outside \<Rightarrow> screen \<times> nat \<Rightarrow> bool" for e where
  "fresh_screen e (screen_new (ou_width e) height width scrollback key, 0)"

inductive_cases screen_stepE: "screen_step e sides a b"

context screen_rows
begin

lemma owner_good:
  assumes "sgood cw n s"
  shows "sgood cw n (screen_set_scrollback cw k s)" "sgood cw n (set_cell_pixels w h s)" "sgood cw n (set_line_tap on s)"
    "sgood cw n (snd (take_events s))" "sgood cw n (snd (take_finished_lines s))" "sgood cw n (end_sync_update s)"
proof -
  have f: "sgood cw n (s\<lparr>sn_cell_pixels := p\<rparr>)" "sgood cw n (s\<lparr>sn_line_tap := on, sn_finished := fin\<rparr>)"
    "sgood cw n (s\<lparr>sn_events := ev\<rparr>)" "sgood cw n (s\<lparr>sn_finished := fin\<rparr>)" "sgood cw n (s\<lparr>sn_modes := md\<rparr>)" for p on fin ev md
    by (rule screen_fields [OF assms]; simp)+
  show "sgood cw n (screen_set_scrollback cw k s)"
    unfolding screen_set_scrollback_def by (rule at_grid_good [OF assms]) (rule good_views(2) [OF active_good [OF assms]])
  show "sgood cw n (set_cell_pixels w h s)"
    using assms f(1) cursor_saves(4) [OF f(1)] by (simp add: set_cell_pixels_def Let_def)
  show "sgood cw n (set_line_tap on s)" "sgood cw n (snd (take_events s))" "sgood cw n (snd (take_finished_lines s))"
    "sgood cw n (end_sync_update s)"
    using f by (simp_all add: set_line_tap_def take_events_def take_finished_lines_def end_sync_update_def)
qed

lemma step_good:
  assumes "screen_step e sides (s, n) (s', n')" "margins \<or> \<not> sides" "sgood (ou_width e) n s"
  shows "sgood (ou_width e) n' s'"
  using assms(1)
proof (cases rule: screen_step.cases)
  case (fed data)
  then show ?thesis
    using process_output_good [OF assms(3) refl, of data] assms(2) by (auto simp: seqs_of_def)
qed (use owner_good [OF assms(3)] in auto)

lemma new_good:
  assumes "fit (max width 1) (row_new (max width 1))"
  shows "sgood cw 0 (screen_new cw height width scrollback key)"
proof -
  have "history_ok cw w (history_set_width cw w (history_new k))" for w k
    by (rule history_ok_set_width) (simp_all add: history_new_def)
  then have "ggood cw (grid_new cw height width k)" for k
    using assms by (auto simp: grid_new_def Let_def grid_good_def grid_sat_def frame_ok_def rows_sat_def margins_active_def
        view_ok_at_def list_all_iff default_tabs_def)
  then show ?thesis by (simp add: screen_new_def screen_good_def screen_parts_def store_new_def)
qed

end

section \<open>The two invariants\<close>

interpretation any_screen: screen_rows any_row True
  by unfold_locales (auto simp: any_row_def row_new_def)

interpretation whole_screen: screen_rows "whole_row width" False for width
  by unfold_locales (auto simp: whole_row_def row_new_def whole_blanks)

end
