(* ===== verification/Screen_Theorems.thy ===== *)
theory Screen_Theorems
  imports Screen_Runs
begin

text \<open>
  What a screen promises: it takes any output and keeps its shape, and its wide characters stay whole as
  long as nothing sets left and right margins, which split them.
\<close>

interpretation any_run: safe_runs "fresh_screen e" "screen_step e sides" "\<lambda>(s, n). screen_good any_row True (ou_width e) n s" for e sides
proof unfold_locales
  fix a b :: "screen \<times> nat"
  show "fresh_screen e a \<Longrightarrow> case a of (s, n) \<Rightarrow> screen_good any_row True (ou_width e) n s"
    using any_screen.new_good by (auto elim!: fresh_screen.cases simp: any_row_def row_new_def)
  show "screen_step e sides a b \<Longrightarrow> case a of (s, n) \<Rightarrow> screen_good any_row True (ou_width e) n s \<Longrightarrow>
      case b of (s, n) \<Rightarrow> screen_good any_row True (ou_width e) n s"
    using any_screen.step_good by (cases a; cases b) auto
qed

interpretation whole_run: safe_runs "fresh_screen e" "screen_step e False"
  "\<lambda>(s, n). \<exists>width. screen_good (whole_row width) False (ou_width e) n s" for e
proof unfold_locales
  fix a b :: "screen \<times> nat"
  show "fresh_screen e a \<Longrightarrow> case a of (s, n) \<Rightarrow> \<exists>width. screen_good (whole_row width) False (ou_width e) n s"
    using whole_screen.new_good by (fastforce elim!: fresh_screen.cases simp: whole_row_def row_new_def whole_blanks)
  show "screen_step e False a b \<Longrightarrow> case a of (s, n) \<Rightarrow> \<exists>width. screen_good (whole_row width) False (ou_width e) n s \<Longrightarrow>
      case b of (s, n) \<Rightarrow> \<exists>width. screen_good (whole_row width) False (ou_width e) n s"
    using whole_screen.step_good by (cases a; cases b) blast
qed

text \<open>An outside with characters of one and two cells, for examples.\<close>

definition plain_outside :: outside where
  "plain_outside =
     \<lparr>ou_width = (\<lambda>c. if c < 0x20 then None else if 0x1100 \<le> c then Some 2 else Some 1),
      ou_base64 = (\<lambda>_ _. None), ou_medium = (\<lambda>_ _. Inl ''ENOENT''), ou_command_size = 64, ou_hls = (\<lambda>_ _ _. (0, 0, 0))\<rparr>"



text \<open>A screen of two rows of three cells, given a wide character and a letter.\<close>

definition demo_screen :: screen where
  "demo_screen = screen_new (ou_width plain_outside) 2 3 5 0"

lemma demo_fresh: "fresh_screen plain_outside (demo_screen, 0)"
  unfolding demo_screen_def by (rule fresh_screen.intros)

lemma demo_seqs: "seqs_of [0x41, 0xE4, 0xB8, 0x96] demo_screen = [Text [0x41, 0xE4, 0xB8, 0x96]]"
  by code_simp



text \<open>A row of three cells, the last two of them a wide character, under a right margin in the middle of it.\<close>

definition split_grid :: grid where
  "split_grid =
     (grid_new (\<lambda>_. Some 1) 1 3 0)
       \<lparr>gd_rows := [\<lparr>r_cells = [cell_empty, cell_new (ct_scalar 0x4E16 2) 0, cell_new ct_continuation 0], r_wrapped = False\<rparr>],
        gd_right := 1\<rparr>"

lemma cut_at_margin:
  "\<not> is_continuation a \<Longrightarrow> \<not> is_wide a \<Longrightarrow>
    r_cells (insert_blanks 0 1 1 st \<lparr>r_cells = [a, w, k], r_wrapped = b\<rparr>) = [cell_blank st, a, k]"
  by (simp add: insert_blanks_def Let_def on_range_def rotate_right_def)


end
