(* ===== verification/Spec2Isabelle.thy ===== *)
theory Spec2Isabelle
  imports Trie_Order Kernel_Theorems Connection Shell_Words Durations Process_Reports Vt_Pending
    Screen_Theorems
begin

text \<open>
  Dekit is a runner of tasks: services and jobs that need each other, in development and in
  production. At its centre is the kernel (\<open>src/src/kernel/\<close>): one loop that takes messages from
  clients and tasks, keeps a graph of tasks and what they need, decides which are wanted and which
  can run, drives each towards that, and tells who listens. Around it are the processes of the
  tasks, a terminal emulator for their output, the console, the reader and writer of the config,
  and the command line. This development models the kernel, with all it is made of, the task of a
  program, the terminal emulator that its output goes to, and some of what reads and writes text, and
  proves what makes them correct.

  \<^bold>\<open>How the parts work together.\<close> A task has a path in a space (\<open>Task_Path\<close>); the namespace
  (\<open>Name_Space\<close>) keeps per space a trie of paths (\<open>Path_Trie\<close>) and a trie of who listens to them
  (\<open>Sub_Trie\<close>). What a config says of a task is a spec (\<open>Task_Spec\<close>). A task is kept as a handle
  with its state, its timers and its caches (\<open>Task_Model\<close>); messages, answers and snapshots are in
  \<open>Kernel_Message\<close>. The graph (\<open>Kernel_Graph\<close>) has the handles, the edges both ways and a queue of
  tasks to look at again. A command (\<open>Kernel_Intent\<close>, \<open>Kernel_Register\<close>, \<open>Kernel_Reads\<close>) changes
  handles and edges and queues what that may concern; reconciliation (\<open>Kernel_Reconcile\<close>)
  recomputes the queued ones until nothing is left and then starts, stops or wakes what is not
  where it should be. The loop (\<open>Kernel_Loop\<close>) takes a message at a time, with the freeze of an
  upgrade or a saving quit in between, and sets the timers of the shell.

  The output of a task goes through the scanner (\<open>Vt_Scan\<close>) to a screen (\<open>Term_Screen\<close>): text is written
  into the cells of the active grid (\<open>Term_Grid\<close>), rows that leave its top go to its history
  (\<open>Term_History\<close>), control sequences move, erase and scroll (\<open>Term_Csi\<close>, \<open>Term_Apply\<close>), and control
  strings set titles and colors and bring images (\<open>Term_Strings\<close>, \<open>Term_Images\<close>). What the screen has
  to say goes back as events.

  \<^bold>\<open>Theories and sources.\<close>
    \<^item> \<open>Prelude\<close>: a map interface as a locale, hash maps and hash sets in a fixed order, ordered maps
      with an index (\<open>IndexMap\<close>), saturating arithmetic and string lemmas.
    \<^item> \<open>Task_Path\<close>: \<open>task_path.rs\<close>, \<open>task_key.rs\<close>. \<open>Path_Trie\<close>, \<open>Trie_Order\<close>: \<open>path_trie.rs\<close>; the
      first has the operations and what they do to the map of paths, the second the order of the
      listing. \<open>Sub_Trie\<close>: \<open>sub_trie.rs\<close>. \<open>Name_Space\<close>: \<open>namespace.rs\<close>.
    \<^item> \<open>Task_Spec\<close>: the specs of \<open>spec.rs\<close>. \<open>Task_Model\<close>: \<open>task.rs\<close> and the handle of \<open>kernel.rs\<close>.
      \<open>Kernel_Message\<close>: \<open>kernel_message.rs\<close> and the snapshot types of \<open>upgrade/snapshot.rs\<close>.
    \<^item> \<open>Kernel_Graph\<close>, \<open>Kernel_Reconcile\<close>, \<open>Kernel_Intent\<close>, \<open>Kernel_Register\<close>, \<open>Kernel_Reads\<close>,
      \<open>Kernel_Loop\<close>: the whole of \<open>kernel.rs\<close>, in its order of layers.
    \<^item> \<open>Wire_Frames\<close>: the frames of \<open>protocol/wire.rs\<close>. \<open>Connection\<close>: the sender's queue and the
      receiver of \<open>protocol/conn.rs\<close>, over any JSON library and any way the stream is cut into reads.
    \<^item> \<open>Shell_Words\<close>: \<open>parse_shell.rs\<close> and \<open>join_argv\<close> of \<open>spec.rs\<close>. \<open>Durations\<close>: \<open>config/duration.rs\<close>
      and \<open>format_duration\<close> of \<open>spec.rs\<close>.
    \<^item> \<open>Process_Task\<close>: the loop of \<open>task/process_task.rs\<close> on Unix: what it does when a command, output,
      an exit, a check or a timer comes, what a freeze saves and how a resumed task goes on. What the
      process and the terminal do is an argument. \<open>Process_Reports\<close>: its properties, over the locale
      \<open>safe_runs\<close> of \<open>Runs\<close>.
    \<^item> \<open>Vt_Params\<close>, \<open>Vt_Scan\<close>: \<open>term/vt/params.rs\<close> and \<open>term/vt/scan.rs\<close>. \<open>Vt_Bytes\<close>: the same scanner byte
      by byte, and that \<open>feed\<close> does what it does. \<open>Vt_Pending\<close>: the properties.
    \<^item> \<open>Term_Cell\<close>: \<open>term/cell.rs\<close> and \<open>term/unicode.rs\<close>, cells packed in 32 bits as in the code. \<open>Term_Row\<close>:
      \<open>term/row.rs\<close>. \<open>Term_Style\<close>: \<open>term/style.rs\<close>. \<open>Term_History\<close>: \<open>term/history.rs\<close>. \<open>Term_Grid\<close>: \<open>term/grid.rs\<close>.
      \<open>Term_Emit\<close>: the replies and styles of \<open>term/vt/emit.rs\<close>. \<open>Term_Images\<close>: \<open>term/image/\<close>.
    \<^item> \<open>Term_Screen\<close>: the state of \<open>term/screen/mod.rs\<close>, \<open>charset.rs\<close> and \<open>text.rs\<close>. \<open>Term_Csi\<close>: \<open>csi.rs\<close>,
      \<open>modes.rs\<close>, \<open>sgr.rs\<close> and \<open>keyboard.rs\<close>. \<open>Term_Strings\<close>: \<open>osc.rs\<close>, \<open>dcs.rs\<close> and \<open>graphics.rs\<close>.
      \<open>Term_Apply\<close>: the rest of \<open>mod.rs\<close>, with \<open>process\<close>. The width of a character, base64, what a file
      holds, the size of an animation command in memory and the conversion of a hue are the arguments
      in the record \<open>outside\<close>.

  \<^bold>\<open>The kernel's invariant\<close> is \<open>good\<close> (\<open>Kernel_Settle\<close>), built on \<open>kinv\<close> (\<open>Kernel_Invariant\<close>): the
  edge maps agree, close no cycle and end at tasks that are there; the queue has no repeats; each
  task's counts of wanted and of active requirers are exact; the cached intents of tasks outside
  the queue are what their neighbours say; every such task is driven; timers are set exactly in the
  states that time out; and each logged state change is in the state diagram. The lemmas that it
  is kept are grouped by operation:
    \<^item> \<open>Kernel_Propagate\<close>, \<open>Kernel_Caches\<close>: propagation ends, by an order on the queue along the
      acyclic edges, and then the caches are the oracles \<open>demanded\<close> and \<open>can_run\<close>.
    \<^item> \<open>Kernel_Settle\<close>: driving, reports and timeouts; \<open>settle\<close> returns.
    \<^item> \<open>Kernel_Edges\<close>, \<open>Kernel_Verbs\<close>, \<open>Kernel_Members\<close>, \<open>Kernel_Removal\<close>, \<open>Kernel_Changes\<close>: edges,
      verbs, registrations, removals, updates and moves. \<open>Batch_Order\<close>: the order of a batch.
    \<^item> \<open>Kernel_Frame\<close>, \<open>Kernel_Safe\<close>: every command, dispatch, turn and step of the loop.
    \<^item> \<open>Kernel_Runs\<close>: the locale \<open>safe_runs\<close> (\<open>Runs\<close>) of step systems with an invariant, interpreted on
      the loop. \<open>Kernel_Live\<close>: the memoised searches against their recursive readings.
    \<^item> \<open>Kernel_Demo\<close>: a run evaluated by the simplifier. \<open>Kernel_Theorems\<close>: the properties.

  \<^bold>\<open>The screen's invariant\<close> is \<open>screen_good\<close> (\<open>Screen_Safe\<close>), over \<open>grid_good\<close> of both grids
  (\<open>Grid_Safe\<close>): rows, region, margins, cursor and tab stops fit the size, the view is within the history,
  and the history counts its rows. What each row obeys is the locale \<open>row_kind\<close>, and with fresh rows
  \<open>screen_rows\<close>; both are interpreted twice, for rows of the right length and, where no margins are set,
  for rows whose wide characters are whole. \<open>Grid_Ops\<close> has the operations of the grid, \<open>Screen_Safe\<close> text
  and control sequences, \<open>Image_Ids\<close> the ids of images, \<open>Screen_Runs\<close> control strings, whole chunks of
  output and the step relation of a screen, and \<open>Screen_Theorems\<close> the properties. An id is searched by a
  loop that ends while one is free: the properties ask for fewer than \<open>2\<^sup>32\<close> sequences.

  \<^bold>\<open>Conventions.\<close> A panic, an \<open>expect\<close> or an index out of range is the value \<open>None\<close>; an error of the
  code is a value of a sum. A loop that could run for ever is a \<open>partial_function\<close>, so that not
  returning is \<open>None\<close> too, and that it returns is proved. \<open>settle\<close> has the code's own budget of 16
  steps a task and 64 more: a run that needs more is left queued, as in the code, and the theorems
  about settled graphs ask for an empty queue. Instants and durations are nanoseconds. A channel is
  a number; what is sent to it is logged in \<open>outbox\<close>, and it is closed when the environment says so.
  A task object is any reaction to commands. Hash maps are lists in the order of insertion: the
  code's iteration order is not specified, and where it decides anything the code sorts.
  The definitions are executable.

  \<^bold>\<open>What runs start from.\<close> A step of the loop takes a deferred message, one that arrives, or a timer
  or sleep that has run out; any message may arrive at any time, but for registrations under the
  id of the kernel itself, which no client is ever given. A restored batch is what a kernel wrote:
  only a stopping task was killed.

  \<^bold>\<open>Not modelled.\<close> Threads, channels and the clock of the operating system; the processes, ptys and
  logs of tasks; the reflow of a grid that is resized, selections, the frames of a screen and their
  painting, and the conversion of a screen to and from a snapshot; the console, the config files, the
  messages of the protocol, scripting and the command line. The manifest lists each with its reason.
  Log lines are left out, and so is the screen's cache of the styles a frame shows.
\<close>

end
